(* ===== verification/Prelude.thy ===== *)
theory Prelude
  imports Main "HOL-Library.AList" "HOL-Library.Word"
begin

text \<open>
  Shared ground of the development.

  \<^item> Rust's \<open>str\<close>: a string is the list of its UTF-8 bytes (HOL's \<open>string\<close>, whose
    characters are the 256 bytes), so \<open>length\<close> is Rust's \<open>len()\<close>. Trimming
    and whitespace splitting go through \<open>utf8_chars\<close>, which cuts the byte list into encoded
    scalar values, and know the 25 code points of Unicode's White_Space. \<open>to_lowercase\<close> is in
    theory \<open>UnicodeCase\<close>;
  \<^item> integer parsing (\<open>str::parse\<close>) at a width, with the optional sign Rust accepts;
  \<^item> \<open>HashMap\<close> and \<open>BTreeMap\<close> values as association lists, through the
    library's \<open>AList.update\<close> and \<open>AList.delete\<close>. The order of the list stands for
    the unspecified iteration order of a \<open>HashMap\<close>; no lemma depends on it unless it says so;
  \<^item> the two interfaces most components share: a keyed store (locale \<open>keyed_store\<close>) and a
    machine whose steps keep an invariant (locale \<open>inv_machine\<close>).
\<close>

named_theorems str_iff \<open>what the string operations say of the text, as equations\<close>
named_theorems result_iff \<open>when a composed fallible computation returns a value\<close>

section \<open>Bytes and case\<close>

abbreviation byte :: "char \<Rightarrow> int" where
  "byte c \<equiv> of_char c"

definition is_ascii_digit :: "char \<Rightarrow> bool" where
  "is_ascii_digit c \<longleftrightarrow> 48 \<le> byte c \<and> byte c \<le> 57"

definition is_ascii_lowercase :: "char \<Rightarrow> bool" where
  "is_ascii_lowercase c \<longleftrightarrow> 97 \<le> byte c \<and> byte c \<le> 122"

definition is_ascii_uppercase :: "char \<Rightarrow> bool" where
  "is_ascii_uppercase c \<longleftrightarrow> 65 \<le> byte c \<and> byte c \<le> 90"

definition ascii_lower :: "char \<Rightarrow> char" where
  "ascii_lower c = (if is_ascii_uppercase c then char_of (byte c + 32) else c)"

definition to_ascii_lowercase :: "string \<Rightarrow> string" where
  "to_ascii_lowercase s = map ascii_lower s"

definition is_ascii_alnum :: "char \<Rightarrow> bool" where
  "is_ascii_alnum c \<longleftrightarrow> is_ascii_digit c \<or> is_ascii_lowercase c \<or> is_ascii_uppercase c"

definition ascii_upper :: "char \<Rightarrow> char" where
  "ascii_upper c = (if is_ascii_lowercase c then char_of (byte c - 32) else c)"

definition to_ascii_uppercase :: "string \<Rightarrow> string" where
  "to_ascii_uppercase s = map ascii_upper s"


definition is_ascii_str :: "string \<Rightarrow> bool" where
  "is_ascii_str s \<longleftrightarrow> (\<forall>c \<in> set s. byte c < 128)"

definition eq_ignore_ascii_case :: "string \<Rightarrow> string \<Rightarrow> bool" where
  "eq_ignore_ascii_case a b \<longleftrightarrow> to_ascii_lowercase a = to_ascii_lowercase b"

lemma byte_range [simp]: "0 \<le> byte c" "byte c < 256"
proof -
  have "of_nat (of_char c) = byte c" by (rule of_nat_of_char)
  moreover have "of_char c < (256::nat)" by simp
  ultimately show "0 \<le> byte c" "byte c < 256" by linarith+
qed

lemma byte_ascii_lower:
  "byte (ascii_lower c) = (if is_ascii_uppercase c then byte c + 32 else byte c)"
  by (simp add: ascii_lower_def is_ascii_uppercase_def)

lemma ascii_lower_idem [simp]: "ascii_lower (ascii_lower c) = ascii_lower c"
  by (simp add: ascii_lower_def is_ascii_uppercase_def)

lemma to_ascii_lowercase_idem [simp]:
  "to_ascii_lowercase (to_ascii_lowercase s) = to_ascii_lowercase s"
  by (simp add: to_ascii_lowercase_def)

lemma length_to_ascii_lowercase [simp]: "length (to_ascii_lowercase s) = length s"
  by (simp add: to_ascii_lowercase_def)



lemma eq_ignore_ascii_case_refl [simp]: "eq_ignore_ascii_case a a"
  by (simp add: eq_ignore_ascii_case_def)

section \<open>Prefixes, suffixes and searching\<close>

definition starts_with :: "string \<Rightarrow> string \<Rightarrow> bool" where
  "starts_with s p \<longleftrightarrow> take (length p) s = p"

definition ends_with :: "string \<Rightarrow> string \<Rightarrow> bool" where
  "ends_with s p \<longleftrightarrow> length p \<le> length s \<and> drop (length s - length p) s = p"

definition strip_prefix :: "string \<Rightarrow> string \<Rightarrow> string option" where
  "strip_prefix s p = (if starts_with s p then Some (drop (length p) s) else None)"

definition strip_suffix :: "string \<Rightarrow> string \<Rightarrow> string option" where
  "strip_suffix s p = (if ends_with s p then Some (take (length s - length p) s) else None)"

lemma starts_with_iff [str_iff]: "starts_with s p \<longleftrightarrow> (\<exists>r. s = p @ r)"
  by (metis append_eq_conv_conj append_take_drop_id starts_with_def)

lemma ends_with_iff [str_iff]: "ends_with s p \<longleftrightarrow> (\<exists>r. s = r @ p)"
proof
  assume "ends_with s p"
  then have "s = take (length s - length p) s @ p"
    by (metis append_take_drop_id ends_with_def)
  then show "\<exists>r. s = r @ p" by blast
qed (auto simp: ends_with_def)

lemma starts_with_refl [simp]: "starts_with s s"
  by (simp add: starts_with_def)

lemma starts_with_append [simp]: "starts_with (p @ r) p"
  by (simp add: starts_with_def)

lemma ends_with_append [simp]: "ends_with (r @ p) p"
  by (simp add: ends_with_def)

lemma strip_prefix_Some [str_iff]: "strip_prefix s p = Some r \<longleftrightarrow> s = p @ r"
  by (auto simp: strip_prefix_def starts_with_iff)

lemma strip_suffix_Some [str_iff]: "strip_suffix s p = Some r \<longleftrightarrow> s = r @ p"
  by (auto simp: strip_suffix_def ends_with_iff)

lemma strip_suffix_None: "strip_suffix s p = None \<longleftrightarrow> \<not> ends_with s p"
  by (simp add: strip_suffix_def)

fun find_sub :: "string \<Rightarrow> string \<Rightarrow> nat option" where
  "find_sub p [] = (if p = [] then Some 0 else None)"
| "find_sub p (c # cs) =
     (if starts_with (c # cs) p then Some 0 else map_option Suc (find_sub p cs))"

definition contains_str :: "string \<Rightarrow> string \<Rightarrow> bool" where
  "contains_str s p \<longleftrightarrow> find_sub p s \<noteq> None"

lemma find_sub_Some: "find_sub p s = Some i \<Longrightarrow> s = take i s @ p @ drop (i + length p) s"
proof (induction p s arbitrary: i rule: find_sub.induct)
  case (2 p c cs)
  then show ?case
    by (cases "starts_with (c # cs) p") (auto simp: starts_with_iff)
qed (auto split: if_splits)

lemma find_sub_None: "find_sub p s = None \<Longrightarrow> s \<noteq> a @ p @ b"
proof (induction p s arbitrary: a rule: find_sub.induct)
  case (2 p c cs)
  then show ?case
    by (cases a) (auto simp: starts_with_iff split: if_splits)
qed (auto split: if_splits)

lemma find_sub_bound: "find_sub p s = Some i \<Longrightarrow> i + length p \<le> length s"
proof (induction p s arbitrary: i rule: find_sub.induct)
  case (2 p c cs)
  show ?case
  proof (cases "starts_with (c # cs) p")
    case True
    with 2 show ?thesis by (auto simp: str_iff dest: arg_cong [of _ _ length])
  next
    case False
    with 2 show ?thesis by fastforce
  qed
qed (auto split: if_splits)

lemma find_sub_single: "find_sub [d] s = (if d \<in> set s then Some (length (takeWhile (\<lambda>c. c \<noteq> d) s)) else None)"
  by (induction s) (auto simp: starts_with_def)

lemma contains_str_iff [str_iff]: "contains_str s p \<longleftrightarrow> (\<exists>a b. s = a @ p @ b)"
  unfolding contains_str_def
  using find_sub_Some find_sub_None by (metis option.exhaust)

section \<open>Splitting and joining\<close>

fun split_by :: "(char \<Rightarrow> bool) \<Rightarrow> string \<Rightarrow> string list" where
  "split_by P [] = [[]]"
| "split_by P (c # cs) =
     (if P c then [] # split_by P cs
      else case split_by P cs of [] \<Rightarrow> [[c]] | w # ws \<Rightarrow> (c # w) # ws)"

abbreviation split_on :: "char \<Rightarrow> string \<Rightarrow> string list" where
  "split_on d s \<equiv> split_by (\<lambda>c. c = d) s"

lemma split_by_not_Nil [simp]: "split_by P s \<noteq> []"
  by (induction s) (auto split: list.splits)

lemma split_by_pieces: "w \<in> set (split_by P s) \<Longrightarrow> c \<in> set w \<Longrightarrow> \<not> P c"
proof (induction s arbitrary: w)
  case (Cons d ds)
  show ?case
  proof (cases "split_by P ds")
    case Nil
    then show ?thesis by simp
  next
    case split: (Cons v vs)
    have IH: "c \<notin> set u" if "u \<in> set (v # vs)" and "P c" for u
      using Cons.IH [of u] split that Cons.prems(2) by auto
    show ?thesis
      using Cons.prems split IH [of v] IH [of w] by (auto split: if_splits)
  qed
qed simp

lemma split_by_none: "(\<And>c. c \<in> set s \<Longrightarrow> \<not> P c) \<Longrightarrow> split_by P s = [s]"
  by (induction s) auto

lemma split_by_append_sep:
  assumes "\<And>c. c \<in> set a \<Longrightarrow> \<not> P c" and "P d"
  shows "split_by P (a @ d # b) = a # split_by P b"
  using assms by (induction a) auto

definition split_once :: "char \<Rightarrow> string \<Rightarrow> (string \<times> string) option" where
  "split_once d s =
     (case dropWhile (\<lambda>c. c \<noteq> d) s of
        [] \<Rightarrow> None
      | _ # rest \<Rightarrow> Some (takeWhile (\<lambda>c. c \<noteq> d) s, rest))"

lemma split_once_Some: "split_once d s = Some (a, b) \<Longrightarrow> s = a @ d # b \<and> d \<notin> set a"
  by (induction s arbitrary: a) (auto simp: split_once_def split: list.splits if_splits)

lemma split_once_append: "d \<notin> set a \<Longrightarrow> split_once d (a @ d # b) = Some (a, b)"
  by (induction a) (auto simp: split_once_def split: list.splits)

lemma split_once_None: "split_once d s = None \<longleftrightarrow> d \<notin> set s"
proof (cases "dropWhile (\<lambda>c. c \<noteq> d) s")
  case Nil
  then have "d \<notin> set s" by auto
  then show ?thesis unfolding split_once_def Nil by simp
next
  case (Cons c cs)
  then have "c = d" and "c \<in> set s"
    by (auto simp: dropWhile_eq_Cons_conv) (metis Cons list.set_intros(1) set_dropWhileD)
  with Cons show ?thesis by (simp add: split_once_def)
qed

fun join_with :: "string \<Rightarrow> string list \<Rightarrow> string" where
  "join_with sep [] = []"
| "join_with sep [x] = x"
| "join_with sep (x # y # zs) = x @ sep @ join_with sep (y # zs)"

lemma split_by_cat: "P d \<Longrightarrow> split_by P (a @ d # b) = split_by P a @ split_by P b"
proof (induction a)
  case (Cons c cs)
  then show ?case by (cases "split_by P cs") auto
qed simp

lemma join_split: "join_with [d] (split_on d s) = s"
proof (induction s)
  case (Cons c cs)
  obtain w ws where split: "split_on d cs = w # ws"
    by (cases "split_on d cs") auto
  show ?case
  proof (cases "c = d")
    case True
    with Cons split show ?thesis by simp
  next
    case False
    with Cons split show ?thesis by (cases ws) auto
  qed
qed simp

lemma join_append:
  "xs \<noteq> [] \<Longrightarrow> ys \<noteq> [] \<Longrightarrow> join_with sep (xs @ ys) = join_with sep xs @ sep @ join_with sep ys"
proof (induction sep xs rule: join_with.induct)
  case (2 sep x)
  then show ?case by (cases ys) auto
qed auto

lemma set_join_with: "c \<in> set (join_with sep xs) \<Longrightarrow> c \<in> set sep \<or> (\<exists>x \<in> set xs. c \<in> set x)"
  by (induction sep xs rule: join_with.induct) auto

lemma join_with_hd:
  "xs \<noteq> [] \<Longrightarrow> hd xs \<noteq> [] \<Longrightarrow> join_with sep xs \<noteq> [] \<and> hd (join_with sep xs) = hd (hd xs)"
  by (induction sep xs rule: join_with.induct) simp_all

lemma join_with_last:
  "xs \<noteq> [] \<Longrightarrow> last xs \<noteq> [] \<Longrightarrow> join_with sep xs \<noteq> [] \<and> last (join_with sep xs) = last (last xs)"
  by (induction sep xs rule: join_with.induct) simp_all

definition strip_cr :: "string \<Rightarrow> string" where
  "strip_cr s = (case strip_suffix s [CHR 0x0D] of Some t \<Rightarrow> t | None \<Rightarrow> s)"

definition str_lines :: "string \<Rightarrow> string list" where
  "str_lines s =
     (let ps = split_on (CHR 0x0A) s
      in map strip_cr (butlast ps) @ (if last ps = [] then [] else [last ps]))"

section \<open>Scalar values and white space\<close>

text \<open>
  \<open>utf8_chars\<close> cuts the bytes of a string at the starts of its encoded scalar values: a lead
  byte with the continuation bytes (128 to 191) that follow it. The white-space scalar values
  are listed by their encodings: U+0009 to U+000D, U+0020, U+0085, U+00A0, U+1680, U+2000 to
  U+200A, U+2028, U+2029, U+202F, U+205F and U+3000.
\<close>

definition is_continuation :: "char \<Rightarrow> bool" where
  "is_continuation c \<longleftrightarrow> 128 \<le> byte c \<and> byte c < 192"

function utf8_chars :: "string \<Rightarrow> string list" where
  "utf8_chars [] = []"
| "utf8_chars (c # cs) =
     (c # takeWhile is_continuation cs) # utf8_chars (dropWhile is_continuation cs)"
  by pat_completeness auto
termination
  by (relation "measure length") (auto simp: less_Suc_eq_le length_dropWhile_le)

definition is_whitespace :: "string \<Rightarrow> bool" where
  "is_whitespace u =
     (case map byte u of
        [b] \<Rightarrow> (9 \<le> b \<and> b \<le> 13) \<or> b = 32
      | [b, d] \<Rightarrow> b = 194 \<and> (d = 133 \<or> d = 160)
      | [b, d, e] \<Rightarrow>
          (b = 225 \<and> d = 154 \<and> e = 128)
          \<or> (b = 226 \<and> d = 128 \<and> (128 \<le> e \<and> e \<le> 138 \<or> e = 168 \<or> e = 169 \<or> e = 175))
          \<or> (b = 226 \<and> d = 129 \<and> e = 159)
          \<or> (b = 227 \<and> d = 128 \<and> e = 128)
      | _ \<Rightarrow> False)"

definition dropWhile_end :: "('a \<Rightarrow> bool) \<Rightarrow> 'a list \<Rightarrow> 'a list" where
  "dropWhile_end P xs = rev (dropWhile P (rev xs))"

definition str_trim :: "string \<Rightarrow> string" where
  "str_trim s = concat (dropWhile_end is_whitespace (dropWhile is_whitespace (utf8_chars s)))"

fun words_of :: "string list \<Rightarrow> string \<Rightarrow> string list" where
  "words_of [] w = (if w = [] then [] else [w])"
| "words_of (u # us) w =
     (if is_whitespace u then (if w = [] then [] else [w]) @ words_of us []
      else words_of us (w @ u))"

definition split_whitespace :: "string \<Rightarrow> string list" where
  "split_whitespace s = words_of (utf8_chars s) []"

definition is_char_boundary :: "string \<Rightarrow> nat \<Rightarrow> bool" where
  "is_char_boundary s i \<longleftrightarrow>
     i = 0 \<or> i = length s \<or> (i < length s \<and> \<not> is_continuation (s ! i))"

definition trim_start_char :: "char \<Rightarrow> string \<Rightarrow> string" where
  "trim_start_char d s = dropWhile (\<lambda>c. c = d) s"

definition trim_end_char :: "char \<Rightarrow> string \<Rightarrow> string" where
  "trim_end_char d s = dropWhile_end (\<lambda>c. c = d) s"

lemma concat_utf8_chars [simp]: "concat (utf8_chars s) = s"
  by (induction s rule: utf8_chars.induct) simp_all

lemma utf8_chars_nonempty: "u \<in> set (utf8_chars s) \<Longrightarrow> u \<noteq> []"
  by (induction s rule: utf8_chars.induct) auto

lemma is_continuation_ascii: "byte c < 128 \<Longrightarrow> \<not> is_continuation c"
  by (simp add: is_continuation_def)

lemma takeWhile_none: "(\<And>x. x \<in> set xs \<Longrightarrow> \<not> P x) \<Longrightarrow> takeWhile P xs = []"
  by (cases xs) auto

lemma dropWhile_none: "(\<And>x. x \<in> set xs \<Longrightarrow> \<not> P x) \<Longrightarrow> dropWhile P xs = xs"
  by (cases xs) auto

lemma utf8_chars_ascii:
  assumes "is_ascii_str s"
  shows "utf8_chars s = map (\<lambda>c. [c]) s"
  using assms
proof (induction s)
  case (Cons c cs)
  then have "takeWhile is_continuation cs = []" "dropWhile is_continuation cs = cs"
    by (auto simp: is_ascii_str_def intro!: takeWhile_none dropWhile_none is_continuation_ascii)
  with Cons show ?case by (simp add: is_ascii_str_def)
qed simp

lemma dropWhile_id: "xs = [] \<or> \<not> P (hd xs) \<Longrightarrow> dropWhile P xs = xs"
  by (cases xs) auto

lemma dropWhile_end_id: "xs = [] \<or> \<not> P (last xs) \<Longrightarrow> dropWhile_end P xs = xs"
  by (simp add: dropWhile_end_def dropWhile_id hd_rev)

lemma dropWhile_map_comp: "dropWhile P (map f xs) = map f (dropWhile (P \<circ> f) xs)"
  by (induction xs) auto

lemma str_trim_ascii:
  assumes "is_ascii_str s"
  shows "str_trim s = dropWhile_end (\<lambda>c. is_whitespace [c]) (dropWhile (\<lambda>c. is_whitespace [c]) s)"
proof -
  have "dropWhile is_whitespace (map (\<lambda>c. [c]) xs) = map (\<lambda>c. [c]) (dropWhile (\<lambda>c. is_whitespace [c]) xs)"
    for xs :: string
    by (simp add: dropWhile_map_comp comp_def)
  then show ?thesis
    by (simp add: str_trim_def utf8_chars_ascii [OF assms] dropWhile_end_def rev_map)
qed

lemma str_trim_id:
  assumes "is_ascii_str s" and "s = [] \<or> \<not> is_whitespace [hd s] \<and> \<not> is_whitespace [last s]"
  shows "str_trim s = s"
proof -
  have "dropWhile (\<lambda>c. is_whitespace [c]) s = s" "dropWhile_end (\<lambda>c. is_whitespace [c]) s = s"
    using assms(2) by (intro dropWhile_id dropWhile_end_id; auto)+
  then show ?thesis using assms(1) by (simp add: str_trim_ascii)
qed

lemma str_trim_space:
  assumes "is_ascii_str s"
  shows "str_trim (CHR '' '' # s) = str_trim s"
proof -
  have "is_ascii_str (CHR '' '' # s)" "is_whitespace '' ''"
    using assms by (simp_all add: is_ascii_str_def is_whitespace_def)
  then show ?thesis using assms by (simp add: str_trim_ascii)
qed

lemma words_of_not_Nil: "w \<in> set (words_of us v) \<Longrightarrow> w \<noteq> []"
  by (induction us v rule: words_of.induct) (auto split: if_splits)

text \<open>A plain word: ASCII, not empty, no blank. A text made of plain words splits back into them.\<close>

definition word_ok :: "string \<Rightarrow> bool" where
  "word_ok w \<longleftrightarrow> w \<noteq> [] \<and> is_ascii_str w \<and> list_all (\<lambda>c. \<not> is_whitespace [c]) w"

lemma words_of_word:
  assumes "list_all (\<lambda>c. \<not> is_whitespace [c]) w"
  shows "words_of (map (\<lambda>c. [c]) w @ us) v = words_of us (v @ w)"
  using assms by (induction w arbitrary: v) simp_all

lemma is_whitespace_space [simp]: "is_whitespace '' ''"
  by (simp add: is_whitespace_def)

lemma is_ascii_join:
  "list_all is_ascii_str ws \<Longrightarrow> is_ascii_str (join_with '' '' ws)"
  by (induction "'' ''" ws rule: join_with.induct) (auto simp: is_ascii_str_def)

lemma words_of_join:
  assumes "list_all word_ok ws"
  shows "words_of (map (\<lambda>c. [c]) (join_with '' '' ws)) [] = ws"
  using assms
proof (induction "'' ''" ws rule: join_with.induct)
  case (2 x)
  then show ?case using words_of_word [of x "[]" "[]"] by (simp add: word_ok_def)
next
  case (3 x y zs)
  then show ?case
    using words_of_word [of x "[CHR '' ''] # map (\<lambda>c. [c]) (join_with '' '' (y # zs))" "[]"]
    by (simp add: word_ok_def)
qed simp

lemma split_whitespace_join:
  assumes "list_all word_ok ws"
  shows "split_whitespace (join_with '' '' ws) = ws"
proof -
  have "list_all is_ascii_str ws" using assms by (auto simp: list_all_iff word_ok_def)
  then have "is_ascii_str (join_with '' '' ws)" by (rule is_ascii_join)
  with assms show ?thesis by (simp add: split_whitespace_def utf8_chars_ascii words_of_join)
qed

lemma word_ok_trim: "word_ok w \<Longrightarrow> str_trim w = w"
  by (intro str_trim_id) (auto simp: word_ok_def list_all_iff)

lemma word_ok_split: "word_ok w \<Longrightarrow> split_whitespace w = [w]"
  using split_whitespace_join [of "[w]"] by simp

section \<open>Numbers\<close>

fun digits_val :: "int \<Rightarrow> string \<Rightarrow> int option" where
  "digits_val acc [] = Some acc"
| "digits_val acc (c # cs) =
     (if is_ascii_digit c then digits_val (10 * acc + (byte c - 48)) cs else None)"

definition parse_digits :: "string \<Rightarrow> int option" where
  "parse_digits s = (if s = [] then None else digits_val 0 s)"

text \<open>\<open>s.parse::<uN>()\<close>: an optional plus sign, then digits; overflow is an error.\<close>

definition strip_plus :: "string \<Rightarrow> string" where
  "strip_plus s = (case s of c # cs \<Rightarrow> if c = CHR ''+'' then cs else s | [] \<Rightarrow> [])"

definition parse_uint :: "nat \<Rightarrow> string \<Rightarrow> int option" where
  "parse_uint w s =
     (case parse_digits (strip_plus s) of
        Some n \<Rightarrow> if n < 2 ^ w then Some n else None
      | None \<Rightarrow> None)"

text \<open>\<open>s.parse::<iN>()\<close>: as above with an optional minus sign.\<close>

definition parse_sint :: "nat \<Rightarrow> string \<Rightarrow> int option" where
  "parse_sint w s =
     (case s of
        c # cs \<Rightarrow>
          if c = CHR ''-''
          then (case parse_digits cs of
                  Some n \<Rightarrow> if n \<le> 2 ^ (w - 1) then Some (- n) else None
                | None \<Rightarrow> None)
          else (case parse_digits (strip_plus s) of
                  Some n \<Rightarrow> if n < 2 ^ (w - 1) then Some n else None
                | None \<Rightarrow> None)
      | [] \<Rightarrow> None)"

definition digit_char :: "int \<Rightarrow> char" where
  "digit_char d = char_of (48 + d)"

text \<open>\<open>Display\<close> of an unsigned integer: its decimal digits.\<close>

function show_uint :: "int \<Rightarrow> string" where
  "show_uint n = (if n < 10 then [digit_char n] else show_uint (n div 10) @ [digit_char (n mod 10)])"
  by pat_completeness auto
termination
  by (relation "measure nat") auto

declare show_uint.simps [simp del]

lemma byte_digit_char [simp]: "0 \<le> d \<Longrightarrow> d < 10 \<Longrightarrow> byte (digit_char d) = 48 + d"
  by (simp add: digit_char_def)

lemma is_ascii_digit_digit_char [simp]: "0 \<le> d \<Longrightarrow> d < 10 \<Longrightarrow> is_ascii_digit (digit_char d)"
  by (simp add: is_ascii_digit_def)

lemma digits_val_append:
  "digits_val acc (xs @ ys) = (case digits_val acc xs of Some a \<Rightarrow> digits_val a ys | None \<Rightarrow> None)"
  by (induction xs arbitrary: acc) auto

lemma digits_val_show_uint: "0 \<le> n \<Longrightarrow> digits_val 0 (show_uint n) = Some n"
proof (induction n rule: show_uint.induct)
  case (1 n)
  then show ?case
    by (subst show_uint.simps) (auto simp: digits_val_append)
qed

lemma show_uint_not_Nil [simp]: "show_uint n \<noteq> []"
  by (subst show_uint.simps) simp

lemma parse_digits_show_uint [simp]: "0 \<le> n \<Longrightarrow> parse_digits (show_uint n) = Some n"
  by (simp add: parse_digits_def digits_val_show_uint)

lemma show_uint_digits: "0 \<le> n \<Longrightarrow> c \<in> set (show_uint n) \<Longrightarrow> is_ascii_digit c"
proof (induction n rule: show_uint.induct)
  case (1 n)
  show ?case
  proof (cases "n < 10")
    case True
    with "1.prems" show ?thesis by (subst (asm) show_uint.simps) simp
  next
    case False
    with "1.prems" have "c \<in> set (show_uint (n div 10)) \<or> c = digit_char (n mod 10)"
      by (subst (asm) show_uint.simps) auto
    with "1.IH" False show ?thesis by auto
  qed
qed

lemma strip_plus_show_uint [simp]: "0 \<le> n \<Longrightarrow> strip_plus (show_uint n) = show_uint n"
proof (cases "show_uint n")
  case (Cons c cs)
  assume "0 \<le> n"
  then have "is_ascii_digit c" using show_uint_digits [of n c] Cons by simp
  then show ?thesis using Cons by (auto simp: strip_plus_def is_ascii_digit_def)
qed simp

lemma parse_uint_show_uint: "0 \<le> n \<Longrightarrow> n < 2 ^ w \<Longrightarrow> parse_uint w (show_uint n) = Some n"
  by (simp add: parse_uint_def)

lemma digits_val_nonneg: "digits_val acc s = Some n \<Longrightarrow> 0 \<le> acc \<Longrightarrow> 0 \<le> n"
  by (induction acc s rule: digits_val.induct) (auto simp: is_ascii_digit_def split: if_splits)

lemma parse_uint_bound: "parse_uint w s = Some n \<Longrightarrow> 0 \<le> n \<and> n < 2 ^ w"
  by (auto simp: parse_uint_def parse_digits_def dest: digits_val_nonneg
      split: option.splits if_splits)

lemma inj_show_uint: "0 \<le> a \<Longrightarrow> 0 \<le> b \<Longrightarrow> show_uint a = show_uint b \<Longrightarrow> a = b"
  by (metis option.inject parse_digits_show_uint)

section \<open>Runs that may panic\<close>

text \<open>
  A call that can hit one of Rust's panics (a slice at a position that is not a character
  boundary, an arithmetic overflow under debug checks) returns \<open>Panic\<close>; \<open>Ret\<close> is a
  normal return.
\<close>

datatype 'a run = Panic | Ret 'a

fun run_bind :: "'a run \<Rightarrow> ('a \<Rightarrow> 'b run) \<Rightarrow> 'b run" where
  "run_bind Panic f = Panic"
| "run_bind (Ret x) f = f x"

lemma run_bind_Ret [result_iff]: "run_bind m f = Ret y \<longleftrightarrow> (\<exists>x. m = Ret x \<and> f x = Ret y)"
  by (cases m) auto

lemma run_bind_Panic: "run_bind m f = Panic \<longleftrightarrow> m = Panic \<or> (\<exists>x. m = Ret x \<and> f x = Panic)"
  by (cases m) auto

text \<open>\<open>&s[..n]\<close>.\<close>

definition slice_to :: "string \<Rightarrow> nat \<Rightarrow> string run" where
  "slice_to s n = (if is_char_boundary s n then Ret (take n s) else Panic)"

section \<open>Results\<close>

text \<open>\<open>Result<T, E>\<close> is the sum \<open>'e + 'a\<close>; the \<open>?\<close> operator is \<open>res_bind\<close>.\<close>

definition res_bind :: "'e + 'a \<Rightarrow> ('a \<Rightarrow> 'e + 'b) \<Rightarrow> 'e + 'b" where
  "res_bind m f = (case m of Inl e \<Rightarrow> Inl e | Inr x \<Rightarrow> f x)"

lemma res_bind_simps [simp]: "res_bind (Inl e) f = Inl e" "res_bind (Inr x) f = f x"
  by (simp_all add: res_bind_def)

lemma res_bind_Inr [result_iff]: "res_bind m f = Inr y \<longleftrightarrow> (\<exists>x. m = Inr x \<and> f x = Inr y)"
  by (cases m) auto

definition map_err :: "('e \<Rightarrow> 'f) \<Rightarrow> 'e + 'a \<Rightarrow> 'f + 'a" where
  "map_err g m = (case m of Inl e \<Rightarrow> Inl (g e) | Inr x \<Rightarrow> Inr x)"

definition result_ok :: "'e + 'a \<Rightarrow> 'a option" where
  "result_ok m = (case m of Inl e \<Rightarrow> None | Inr x \<Rightarrow> Some x)"

lemma result_ok_simps [simp]: "result_ok (Inl e) = None" "result_ok (Inr x) = Some x"
  by (simp_all add: result_ok_def)

lemma result_ok_Some [simp]: "result_ok m = Some x \<longleftrightarrow> m = Inr x"
  by (cases m) auto

lemma map_err_simps [simp]: "map_err g (Inl e) = Inl (g e)" "map_err g (Inr x) = Inr x"
  by (simp_all add: map_err_def)

lemma map_err_Inr [result_iff]: "map_err g m = Inr y \<longleftrightarrow> m = Inr y"
  by (cases m) auto

fun collect_results :: "('e + 'a) list \<Rightarrow> 'e + 'a list" where
  "collect_results [] = Inr []"
| "collect_results (m # ms) = res_bind m (\<lambda>x. res_bind (collect_results ms) (\<lambda>xs. Inr (x # xs)))"

lemma collect_results_Inr [result_iff]: "collect_results ms = Inr xs \<longleftrightarrow> ms = map Inr xs"
  by (induction ms arbitrary: xs) (auto simp: result_iff Cons_eq_map_conv)

section \<open>Hexadecimal and byte order\<close>

definition hex_digit :: "int \<Rightarrow> char" where
  "hex_digit d = char_of (if d < 10 then 48 + d else 87 + d)"

definition hex_byte :: "char \<Rightarrow> string" where
  "hex_byte c = [hex_digit (byte c div 16), hex_digit (byte c mod 16)]"

function show_hex :: "int \<Rightarrow> string" where
  "show_hex n = (if n < 16 then [hex_digit n] else show_hex (n div 16) @ [hex_digit (n mod 16)])"
  by pat_completeness auto
termination
  by (relation "measure nat") auto

declare show_hex.simps [simp del]

text \<open>\<open>u32::to_le_bytes\<close>.\<close>

definition le_bytes4 :: "int \<Rightarrow> string" where
  "le_bytes4 n = map char_of [n mod 256, n div 256 mod 256, n div 65536 mod 256, n div 16777216 mod 256]"

text \<open>\<open>Ord\<close> of strings: lexicographic on the bytes.\<close>

fun str_le :: "string \<Rightarrow> string \<Rightarrow> bool" where
  "str_le [] ys = True"
| "str_le (x # xs) [] = False"
| "str_le (x # xs) (y # ys) = (byte x < byte y \<or> (x = y \<and> str_le xs ys))"

lemma byte_inject: "byte x = byte y \<longleftrightarrow> x = y"
  by (simp add: of_char_eq_iff)

lemma str_le_refl [simp]: "str_le xs xs"
  by (induction xs) auto

lemma str_le_trans: "str_le xs ys \<Longrightarrow> str_le ys zs \<Longrightarrow> str_le xs zs"
proof (induction xs ys arbitrary: zs rule: str_le.induct)
  case (3 x xs y ys)
  then show ?case by (cases zs) auto
qed auto

lemma str_le_antisym: "str_le xs ys \<Longrightarrow> str_le ys xs \<Longrightarrow> xs = ys"
proof (induction xs ys rule: str_le.induct)
  case (1 ys)
  then show ?case by (cases ys) auto
qed auto

lemma str_le_total: "str_le xs ys \<or> str_le ys xs"
proof (induction xs ys rule: str_le.induct)
  case (3 x xs y ys)
  then show ?case using byte_inject [of x y] by (auto simp: not_less_iff_gr_or_eq)
qed auto

section \<open>UTF-8 validity\<close>

text \<open>\<open>std::str::from_utf8\<close>: the well-formed byte sequences of the Unicode standard.\<close>

abbreviation em_dash :: string where
  "em_dash \<equiv> [CHR 0xE2, CHR 0x80, CHR 0x94]"

abbreviation section_sign :: string where
  "section_sign \<equiv> [CHR 0xC2, CHR 0xA7]"

abbreviation cont_byte :: "int \<Rightarrow> bool" where
  "cont_byte b \<equiv> 128 \<le> b \<and> b \<le> 191"

fun utf8_step :: "int list \<Rightarrow> nat option" where
  "utf8_step (b # bs) =
     (if b < 128 then Some 1
      else if 194 \<le> b \<and> b \<le> 223 then
        (case bs of c1 # _ \<Rightarrow> if cont_byte c1 then Some 2 else None | _ \<Rightarrow> None)
      else if 224 \<le> b \<and> b \<le> 239 then
        (case bs of c1 # c2 # _ \<Rightarrow>
             if cont_byte c1 \<and> cont_byte c2 \<and> (b = 224 \<longrightarrow> 160 \<le> c1) \<and> (b = 237 \<longrightarrow> c1 \<le> 159)
             then Some 3 else None
         | _ \<Rightarrow> None)
      else if 240 \<le> b \<and> b \<le> 244 then
        (case bs of c1 # c2 # c3 # _ \<Rightarrow>
             if cont_byte c1 \<and> cont_byte c2 \<and> cont_byte c3 \<and> (b = 240 \<longrightarrow> 144 \<le> c1)
                \<and> (b = 244 \<longrightarrow> c1 \<le> 143)
             then Some 4 else None
         | _ \<Rightarrow> None)
      else None)"
| "utf8_step [] = None"

lemma utf8_step_pos: "utf8_step bs = Some n \<Longrightarrow> 0 < n \<and> bs \<noteq> []"
  by (cases bs) (auto split: if_splits list.splits)

function utf8_valid :: "int list \<Rightarrow> bool" where
  "utf8_valid bs = (if bs = [] then True
     else case utf8_step bs of Some n \<Rightarrow> utf8_valid (drop n bs) | None \<Rightarrow> False)"
  by pat_completeness auto
termination
  by (relation "measure length") (auto dest: utf8_step_pos)

declare utf8_valid.simps [simp del]

definition is_utf8 :: "string \<Rightarrow> bool" where
  "is_utf8 s = utf8_valid (map of_char s)"

section \<open>Hash maps as association lists\<close>

type_synonym ('k, 'v) dict = "('k \<times> 'v) list"

abbreviation dict_ok :: "('k, 'v) dict \<Rightarrow> bool" where
  "dict_ok d \<equiv> distinct (map fst d)"

abbreviation dict_get :: "('k, 'v) dict \<Rightarrow> 'k \<Rightarrow> 'v option" where
  "dict_get d k \<equiv> map_of d k"

abbreviation dict_insert :: "'k \<Rightarrow> 'v \<Rightarrow> ('k, 'v) dict \<Rightarrow> ('k, 'v) dict" where
  "dict_insert k v d \<equiv> AList.update k v d"

abbreviation dict_remove :: "'k \<Rightarrow> ('k, 'v) dict \<Rightarrow> ('k, 'v) dict" where
  "dict_remove k d \<equiv> AList.delete k d"

lemma dict_get_insert: "dict_get (dict_insert k v d) j = (if j = k then Some v else dict_get d j)"
  by (simp add: update_conv')

lemma dict_get_remove: "dict_get (dict_remove k d) j = (if j = k then None else dict_get d j)"
  by (simp add: delete_conv')

lemma dict_insert_new: "k \<notin> fst ` set d \<Longrightarrow> dict_insert k v d = d @ [(k, v)]"
  by (induction d) auto

lemma dict_ok_insert: "dict_ok d \<Longrightarrow> dict_ok (dict_insert k v d)"
  by (rule distinct_update)

lemma dict_ok_remove: "dict_ok d \<Longrightarrow> dict_ok (dict_remove k d)"
  by (rule distinct_delete)

section \<open>The keyed-store interface\<close>

text \<open>
  The contract between a component that keeps entries under keys and its clients: a lookup after
  an insert or a removal, and the invariant both operations keep. A sequence of operations
  refines the same sequence on a partial function (\<open>lookup_exec\<close>), and what is taken out
  once cannot be taken out again (\<open>take_twice\<close>).
\<close>

datatype ('k, 'v) store_op = Put 'k 'v | Del 'k

fun map_op :: "('k, 'v) store_op \<Rightarrow> ('k \<rightharpoonup> 'v) \<Rightarrow> ('k \<rightharpoonup> 'v)" where
  "map_op (Put k v) m = m(k \<mapsto> v)"
| "map_op (Del k) m = m(k := None)"

fun op_key :: "('k, 'v) store_op \<Rightarrow> 'k" where
  "op_key (Put k v) = k"
| "op_key (Del k) = k"

locale keyed_store =
  fixes lookup :: "'s \<Rightarrow> 'k \<Rightarrow> 'v option"
    and put :: "'k \<Rightarrow> 'v \<Rightarrow> 's \<Rightarrow> 's"
    and del :: "'k \<Rightarrow> 's \<Rightarrow> 's"
    and ok :: "'s \<Rightarrow> bool"
  assumes lookup_put: "ok s \<Longrightarrow> lookup (put k v s) j = (if j = k then Some v else lookup s j)"
    and lookup_del: "ok s \<Longrightarrow> lookup (del k s) j = (if j = k then None else lookup s j)"
    and ok_put: "ok s \<Longrightarrow> ok (put k v s)"
    and ok_del: "ok s \<Longrightarrow> ok (del k s)"
begin

fun exec_op :: "('k, 'v) store_op \<Rightarrow> 's \<Rightarrow> 's" where
  "exec_op (Put k v) s = put k v s"
| "exec_op (Del k) s = del k s"

lemma ok_exec_op: "ok s \<Longrightarrow> ok (exec_op x s)"
  by (cases x) (simp_all add: ok_put ok_del)

lemma lookup_exec_op: "ok s \<Longrightarrow> lookup (exec_op x s) = map_op x (lookup s)"
  by (cases x) (auto simp: lookup_put lookup_del fun_eq_iff)

lemma ok_exec: "ok s \<Longrightarrow> ok (fold exec_op xs s)"
  by (induction xs arbitrary: s) (simp_all add: ok_exec_op)

lemma lookup_exec: "ok s \<Longrightarrow> lookup (fold exec_op xs s) = fold map_op xs (lookup s)"
  by (induction xs arbitrary: s) (simp_all add: ok_exec_op lookup_exec_op)

lemma lookup_frame:
  "ok s \<Longrightarrow> j \<notin> op_key ` set xs \<Longrightarrow> lookup (fold exec_op xs s) j = lookup s j"
proof (induction xs arbitrary: s)
  case (Cons x xs)
  then have "lookup (exec_op x s) j = lookup s j"
    by (cases x) (auto simp: lookup_put lookup_del)
  with Cons show ?case by (simp add: ok_exec_op)
qed simp

lemma take_twice: "ok s \<Longrightarrow> lookup (del k s) k = None"
  by (simp add: lookup_del)

lemma put_take: "ok s \<Longrightarrow> lookup (put k v s) k = Some v"
  by (simp add: lookup_put)

end

interpretation dict: keyed_store "map_of" "AList.update" "AList.delete" "\<lambda>d. distinct (map fst d)"
  by unfold_locales (simp_all add: dict_get_insert dict_get_remove dict_ok_insert dict_ok_remove)

section \<open>Machines that keep an invariant\<close>

text \<open>
  A component driven by events: every step keeps \<open>inv\<close>, so every run does.
\<close>

locale inv_machine =
  fixes inv :: "'s \<Rightarrow> bool"
    and step :: "'e \<Rightarrow> 's \<Rightarrow> 's"
  assumes step_inv: "inv s \<Longrightarrow> inv (step e s)"
begin

lemma run_inv: "inv s \<Longrightarrow> inv (fold step es s)"
  by (induction es arbitrary: s) (simp_all add: step_inv)

end

section \<open>Gates\<close>

text \<open>
  Three components decide whether a request may go on: the address filter, the origin policy
  and the credential policy engine. What their callers rely on is the same: adding a denial
  never lets more through (\<open>restricting_gate\<close>), and where denials come first, a request
  that hits one is refused whatever else the gate holds (\<open>deny_first_gate\<close>).
\<close>

locale restricting_gate =
  fixes permits :: "'g \<Rightarrow> 'r \<Rightarrow> bool"
    and deny :: "'d \<Rightarrow> 'g \<Rightarrow> 'g"
  assumes deny_shrinks: "permits (deny d g) r \<Longrightarrow> permits g r"
begin

lemma denials_shrink: "permits (fold deny ds g) r \<Longrightarrow> permits g r"
  by (induction ds arbitrary: g) (auto dest: deny_shrinks)

end

locale deny_first_gate = restricting_gate +
  fixes hits :: "'a \<Rightarrow> 'b \<Rightarrow> bool"
    and matches :: "'c \<Rightarrow> 'b \<Rightarrow> bool"
  assumes hit_refused: "hits g r \<Longrightarrow> \<not> permits g r"
    and hits_deny: "hits (deny d g) r \<longleftrightarrow> matches d r \<or> hits g r"
begin

lemma hits_denials: "hits (fold deny ds g) r \<longleftrightarrow> (\<exists>d \<in> set ds. matches d r) \<or> hits g r"
  by (induction ds arbitrary: g) (auto simp: hits_deny)

lemma denied_refused:
  assumes "d \<in> set ds" and "matches d r"
  shows "\<not> permits (fold deny ds g) r"
  using assms by (intro hit_refused) (auto simp: hits_denials)

end

end
