(* ===== verification/IpFilter.thy ===== *)
theory IpFilter
  imports Prelude
begin

unbundle bit_operations_syntax

text \<open>
  \<open>oxibrowser-core/src/network/ip_filter.rs\<close>: the CIDR ranges and the allow/block filter that
  guards against server-side request forgery. Addresses are the four octets of an IPv4 address
  or the 128 bits of an IPv6 address; ranges keep \<open>network\<close> and \<open>mask\<close> as words of 32 and
  128 bits, as the code does. The parsers of \<open>std::net\<close> (\<open>str::parse::<IpAddr>()\<close>) are
  modelled from the standard library's grammar; DNS resolution is the argument \<open>dns\<close>.
\<close>

section \<open>Addresses and the standard library's parsers\<close>

datatype ip_addr = V4 "8 word" "8 word" "8 word" "8 word" | V6 "128 word"

definition v4_bits :: "8 word \<Rightarrow> 8 word \<Rightarrow> 8 word \<Rightarrow> 8 word \<Rightarrow> 32 word" where
  "v4_bits a b c d =
     push_bit 24 (ucast a) OR push_bit 16 (ucast b) OR push_bit 8 (ucast c) OR ucast d"

definition v4_of_bits :: "32 word \<Rightarrow> ip_addr" where
  "v4_of_bits w = V4 (ucast (drop_bit 24 w)) (ucast (drop_bit 16 w)) (ucast (drop_bit 8 w)) (ucast w)"

definition to_ipv4_mapped :: "128 word \<Rightarrow> ip_addr option" where
  "to_ipv4_mapped w = (if drop_bit 32 w = 0xFFFF then Some (v4_of_bits (ucast w)) else None)"

type_synonym 'a reader = "string \<Rightarrow> ('a \<times> string) option"

definition hex_digit_val :: "char \<Rightarrow> int option" where
  "hex_digit_val c =
     (if is_ascii_digit c then Some (byte c - 48)
      else if 97 \<le> byte c \<and> byte c \<le> 102 then Some (byte c - 87)
      else if 65 \<le> byte c \<and> byte c \<le> 70 then Some (byte c - 55)
      else None)"

definition dec_digit :: "char \<Rightarrow> int option" where
  "dec_digit c = (if is_ascii_digit c then Some (byte c - 48) else None)"

fun radix_val :: "int \<Rightarrow> (char \<Rightarrow> int option) \<Rightarrow> int \<Rightarrow> string \<Rightarrow> int" where
  "radix_val r dig acc [] = acc"
| "radix_val r dig acc (c # cs) =
     (case dig c of Some d \<Rightarrow> radix_val r dig (r * acc + d) cs | None \<Rightarrow> acc)"

text \<open>\<open>Parser::read_number\<close>: greedy digits, at most \<open>maxd\<close>, below \<open>2^w\<close>.\<close>

definition read_number :: "int \<Rightarrow> (char \<Rightarrow> int option) \<Rightarrow> nat \<Rightarrow> bool \<Rightarrow> nat \<Rightarrow> int reader" where
  "read_number r dig maxd allow_zero_prefix w s =
     (let ds = takeWhile (\<lambda>c. dig c \<noteq> None) s; n = radix_val r dig 0 ds
      in if ds = [] \<or> maxd < length ds \<or> 2 ^ w \<le> n
            \<or> (\<not> allow_zero_prefix \<and> hd ds = CHR ''0'' \<and> 1 < length ds)
         then None
         else Some (n, drop (length ds) s))"

definition read_given_char :: "char \<Rightarrow> unit reader" where
  "read_given_char d s = (case s of c # cs \<Rightarrow> if c = d then Some ((), cs) else None | [] \<Rightarrow> None)"

definition read_separator :: "char \<Rightarrow> nat \<Rightarrow> 'a reader \<Rightarrow> 'a reader" where
  "read_separator sep i inner s =
     (if 0 < i then (case read_given_char sep s of Some (_, t) \<Rightarrow> inner t | None \<Rightarrow> None)
      else inner s)"

fun read_octets :: "nat \<Rightarrow> nat \<Rightarrow> (8 word list) reader" where
  "read_octets 0 i s = Some ([], s)"
| "read_octets (Suc k) i s =
     (case read_separator (CHR ''.'') i (read_number 10 dec_digit 3 False 8) s of
        None \<Rightarrow> None
      | Some (n, t) \<Rightarrow>
          (case read_octets k (Suc i) t of
             None \<Rightarrow> None
           | Some (os, u) \<Rightarrow> Some (of_int n # os, u)))"

definition read_ipv4_addr :: "(8 word list) reader" where
  "read_ipv4_addr s = read_octets 4 0 s"

text \<open>
  \<open>read_groups\<close>: up to \<open>limit\<close> groups of 16 bits, the last two of which may be written as
  an embedded IPv4 address. The result holds the groups and whether they end in such an address.
\<close>

fun read_groups :: "nat \<Rightarrow> nat \<Rightarrow> string \<Rightarrow> 16 word list \<times> bool \<times> string" where
  "read_groups 0 i s = ([], False, s)"
| "read_groups (Suc k) i s =
     (case (if 0 < k then read_separator (CHR '':'') i read_ipv4_addr s else None) of
        Some ([a, b, c, d], t) \<Rightarrow>
          ([push_bit 8 (ucast a) OR ucast b, push_bit 8 (ucast c) OR ucast d], True, t)
      | _ \<Rightarrow>
          (case read_separator (CHR '':'') i (read_number 16 hex_digit_val 4 True 16) s of
             None \<Rightarrow> ([], False, s)
           | Some (n, t) \<Rightarrow>
               (let (gs, v4, u) = read_groups k (Suc i) t in (of_int n # gs, v4, u))))"

definition v6_of_groups :: "16 word list \<Rightarrow> 128 word" where
  "v6_of_groups gs = foldl (\<lambda>acc g. push_bit 16 acc OR ucast g) 0 gs"

definition read_ipv6_addr :: "(128 word) reader" where
  "read_ipv6_addr s =
     (let (hd_gs, v4, t) = read_groups 8 0 s
      in if length hd_gs = 8 then Some (v6_of_groups hd_gs, t)
         else if v4 then None
         else (case read_given_char (CHR '':'') t of
                 None \<Rightarrow> None
               | Some (_, t1) \<Rightarrow>
                   (case read_given_char (CHR '':'') t1 of
                      None \<Rightarrow> None
                    | Some (_, t2) \<Rightarrow>
                        (let (tl_gs, _, u) = read_groups (8 - (length hd_gs + 1)) 0 t2
                         in Some (v6_of_groups
                              (hd_gs @ replicate (8 - length hd_gs - length tl_gs) 0 @ tl_gs), u)))))"

definition parse_ipv6 :: "string \<Rightarrow> 128 word option" where
  "parse_ipv6 s = (case read_ipv6_addr s of Some (w, []) \<Rightarrow> Some w | _ \<Rightarrow> None)"

definition parse_ip :: "string \<Rightarrow> ip_addr option" where
  "parse_ip s =
     (case read_ipv4_addr s of
        Some ([a, b, c, d], t) \<Rightarrow> if t = [] then Some (V4 a b c d) else None
      | _ \<Rightarrow> map_option V6 (parse_ipv6 s))"

section \<open>Ranges\<close>

record cidr_range =
  network :: "32 word"
  netmask :: "32 word"

record cidr_range_v6 =
  network6 :: "128 word"
  netmask6 :: "128 word"

definition cidr_bits :: "nat \<Rightarrow> string list \<Rightarrow> nat" where
  "cidr_bits full parts =
     (if 1 < length parts
      then (case parse_uint 32 (parts ! 1) of
              Some n \<Rightarrow> nat (min (int full) n)
            | None \<Rightarrow> full)
      else full)"

definition octet_or_0 :: "string list \<Rightarrow> nat \<Rightarrow> 32 word" where
  "octet_or_0 os i =
     (if i < length os
      then (case parse_uint 32 (os ! i) of Some n \<Rightarrow> of_int n | None \<Rightarrow> 0)
      else 0)"

definition raw_ip :: "string list \<Rightarrow> 32 word" where
  "raw_ip os = push_bit 24 (octet_or_0 os 0) OR push_bit 16 (octet_or_0 os 1)
     OR push_bit 8 (octet_or_0 os 2) OR octet_or_0 os 3"

definition mk_range :: "32 word \<Rightarrow> nat \<Rightarrow> cidr_range" where
  "mk_range raw bits =
     (let shift = 32 - bits;
          mask = (if 32 \<le> shift then 0 else push_bit shift 0xFFFFFFFF)
      in \<lparr>network = raw AND mask, netmask = mask\<rparr>)"

definition cidr_v4 :: "string \<Rightarrow> cidr_range" where
  "cidr_v4 s =
     (let parts = split_on (CHR ''/'') s;
          bits = cidr_bits 32 parts;
          raw = raw_ip (split_on (CHR ''.'') (hd parts))
      in mk_range raw bits)"

fun contains_v4 :: "cidr_range \<Rightarrow> ip_addr \<Rightarrow> bool" where
  "contains_v4 r (V4 a b c d) = (v4_bits a b c d AND netmask r = network r)"
| "contains_v4 r (V6 w) = False"

definition mk_range_v6 :: "128 word \<Rightarrow> nat \<Rightarrow> cidr_range_v6" where
  "mk_range_v6 raw bits =
     (let shift = 128 - bits;
          mask = (if 128 \<le> shift then 0 else push_bit shift (NOT 0))
      in \<lparr>network6 = raw AND mask, netmask6 = mask\<rparr>)"

definition cidr_v6 :: "string \<Rightarrow> cidr_range_v6" where
  "cidr_v6 s =
     (let parts = split_on (CHR ''/'') s;
          bits = cidr_bits 128 parts;
          raw = (case parse_ipv6 (hd parts) of Some w \<Rightarrow> w | None \<Rightarrow> 1)
      in mk_range_v6 raw bits)"

fun contains_v6 :: "cidr_range_v6 \<Rightarrow> ip_addr \<Rightarrow> bool" where
  "contains_v6 r (V6 w) = (w AND netmask6 r = network6 r)"
| "contains_v6 r (V4 a b c d) = False"

text \<open>What a range means on the bits: its addresses agree with the base on the prefix.\<close>

lemma and_high_mask_eq:
  fixes x y :: "'a::len word"
  shows "x AND push_bit s (- 1) = y AND push_bit s (- 1) \<longleftrightarrow> drop_bit s x = drop_bit s y"
proof
  assume eq: "x AND push_bit s (- 1) = y AND push_bit s (- 1)"
  show "drop_bit s x = drop_bit s y"
  proof (rule bit_word_eqI)
    fix n assume "n < LENGTH('a)"
    have "bit (x AND push_bit s (- 1)) (s + n) = bit (y AND push_bit s (- 1)) (s + n)"
      by (simp only: eq)
    then have "bit x (s + n) = bit y (s + n)"
      by (auto simp: bit_simps dest: bit_imp_le_length)
    then show "bit (drop_bit s x) n = bit (drop_bit s y) n"
      by (simp add: bit_simps)
  qed
next
  assume eq: "drop_bit s x = drop_bit s y"
  show "x AND push_bit s (- 1) = y AND push_bit s (- 1)"
  proof (rule bit_word_eqI)
    fix n assume "n < LENGTH('a)"
    have "bit (drop_bit s x) (n - s) = bit (drop_bit s y) (n - s)"
      by (simp only: eq)
    then show "bit (x AND push_bit s (- 1)) n = bit (y AND push_bit s (- 1)) n"
      by (auto simp: bit_simps)
  qed
qed

lemma push_or_low:
  fixes x y :: nat
  assumes "x < 2 ^ n"
  shows "push_bit n y OR x = y * 2 ^ n + x"
proof -
  have "take_bit n x = x" using assms by (simp add: take_bit_nat_eq_self)
  then have "\<not> bit x m" if "n \<le> m" for m
    using that by (metis bit_take_bit_iff not_le)
  then have "push_bit n y + x = push_bit n y OR x"
    by (intro disjunctive_add) (auto simp: bit_simps not_le)
  then show ?thesis by (simp add: push_bit_eq_mult)
qed

lemma unat_lt_256: "unat (a :: 8 word) < 256"
  using unsigned_less [of a] by simp

lemma unat_push_octet:
  assumes "k \<le> 24"
  shows "unat (push_bit k (ucast (a :: 8 word)) :: 32 word) = push_bit k (unat a)"
proof -
  have "unat a * 2 ^ k < 256 * 2 ^ k" using unat_lt_256 [of a] by simp
  also have "\<dots> \<le> 256 * 2 ^ 24"
    using assms power_increasing [of k 24 "2::nat"] by (intro mult_left_mono) simp_all
  finally have "push_bit k (unat a) < 2 ^ 32" by (simp add: push_bit_eq_mult)
  moreover have "unat (ucast a :: 32 word) = unat a"
    using unat_lt_256 [of a] by (simp add: unsigned_ucast_eq take_bit_nat_eq_self)
  ultimately show ?thesis by (simp add: unsigned_push_bit_eq take_bit_nat_eq_self)
qed

lemma unat_v4_bits:
  "unat (v4_bits a b c d) = unat a * 2 ^ 24 + (unat b * 2 ^ 16 + (unat c * 2 ^ 8 + unat d))"
proof -
  note lt = unat_lt_256 [of a] unat_lt_256 [of b] unat_lt_256 [of c] unat_lt_256 [of d]
  have d: "unat (ucast d :: 32 word) = unat d"
    using lt by (simp add: unsigned_ucast_eq take_bit_nat_eq_self)
  have 1: "push_bit 8 (unat c) OR unat d = unat c * 2 ^ 8 + unat d"
    using lt by (intro push_or_low) simp
  have 2: "push_bit 16 (unat b) OR (unat c * 2 ^ 8 + unat d)
      = unat b * 2 ^ 16 + (unat c * 2 ^ 8 + unat d)"
    using lt by (intro push_or_low) simp
  have 3: "push_bit 24 (unat a) OR (unat b * 2 ^ 16 + (unat c * 2 ^ 8 + unat d))
      = unat a * 2 ^ 24 + (unat b * 2 ^ 16 + (unat c * 2 ^ 8 + unat d))"
    using lt by (intro push_or_low) simp
  show ?thesis
    by (simp only: v4_bits_def unsigned_or_eq unat_push_octet [of 24] unat_push_octet [of 16]
        unat_push_octet [of 8] d 1 2 3)
qed
lemma drop_bit_full: "LENGTH('a) \<le> n \<Longrightarrow> drop_bit n (w :: 'a::len word) = 0"
  by (rule bit_word_eqI) (auto simp: bit_simps dest: bit_imp_le_length)

lemma contains_v4_prefix:
  assumes "bits \<le> 32"
  shows "contains_v4 (mk_range raw bits) (V4 a b c d)
    \<longleftrightarrow> drop_bit (32 - bits) (v4_bits a b c d) = drop_bit (32 - bits) raw"
proof (cases "bits = 0")
  case True
  then show ?thesis by (simp add: mk_range_def drop_bit_full)
next
  case False
  then have "\<not> 32 \<le> 32 - bits" using assms by arith
  moreover have "(0xFFFFFFFF :: 32 word) = - 1" by simp
  ultimately have range: "mk_range raw bits =
      \<lparr>network = raw AND push_bit (32 - bits) (- 1), netmask = push_bit (32 - bits) (- 1)\<rparr>"
    unfolding mk_range_def by (simp only: Let_def if_False)
  show ?thesis
    unfolding range by (simp only: contains_v4.simps cidr_range.simps and_high_mask_eq)
qed

lemma contains_v6_prefix:
  assumes "bits \<le> 128"
  shows "contains_v6 (mk_range_v6 raw bits) (V6 w)
    \<longleftrightarrow> drop_bit (128 - bits) w = drop_bit (128 - bits) raw"
proof (cases "bits = 0")
  case True
  then show ?thesis by (simp add: mk_range_v6_def drop_bit_full)
next
  case False
  then have "\<not> 128 \<le> 128 - bits" using assms by arith
  then have range: "mk_range_v6 raw bits =
      \<lparr>network6 = raw AND push_bit (128 - bits) (- 1), netmask6 = push_bit (128 - bits) (- 1)\<rparr>"
    by (simp add: mk_range_v6_def Let_def)
  show ?thesis
    unfolding range by (simp only: contains_v6.simps cidr_range_v6.simps and_high_mask_eq)
qed

lemma unat_drop_bit: "unat (drop_bit n (w :: 'a::len word)) = unat w div 2 ^ n"
proof -
  have "unat (drop_bit n w) = drop_bit n (unat w)"
    by (simp add: unsigned_drop_bit_eq take_bit_nat_eq_self)
  then show ?thesis by (simp only: drop_bit_eq_div [of n "unat w"])
qed

lemma contains_v4_div:
  assumes "bits \<le> 32"
  shows "contains_v4 (mk_range raw bits) (V4 a b c d)
    \<longleftrightarrow> unat (v4_bits a b c d) div 2 ^ (32 - bits) = unat raw div 2 ^ (32 - bits)"
  unfolding contains_v4_prefix [OF assms] unat_drop_bit [symmetric] by (rule word_unat_eq_iff)

lemma div_eq_interval:
  assumes "0 < (n::nat)"
  shows "x div n = k \<longleftrightarrow> k * n \<le> x \<and> x < (k + 1) * n"
proof
  assume "x div n = k"
  then show "k * n \<le> x \<and> x < (k + 1) * n"
    using div_times_less_eq_dividend [of x n] dividend_less_div_times [of n x] assms by simp
qed (auto intro: div_nat_eqI simp: mult.commute)

lemma contains_v4_interval:
  assumes "bits \<le> 32" and "unat raw = k * 2 ^ (32 - bits)"
  shows "contains_v4 (mk_range raw bits) (V4 a b c d)
    \<longleftrightarrow> (let x = unat (v4_bits a b c d)
         in k * 2 ^ (32 - bits) \<le> x \<and> x < (k + 1) * 2 ^ (32 - bits))"
  using div_eq_interval [of "2 ^ (32 - bits)" "unat (v4_bits a b c d)" k] assms(2)
  by (simp add: contains_v4_div [OF assms(1)] Let_def del: contains_v4.simps)

section \<open>The filter\<close>

record ip_filter =
  blocked :: "cidr_range list"
  blocked_v6 :: "cidr_range_v6 list"
  allowed :: "cidr_range list"
  allowed_v6 :: "cidr_range_v6 list"
  fail_closed :: bool

definition ip_filter_new :: ip_filter where
  "ip_filter_new =
     \<lparr>blocked = [], blocked_v6 = [], allowed = [], allowed_v6 = [], fail_closed = False\<rparr>"

definition private_cidrs :: "string list" where
  "private_cidrs =
     [''127.0.0.0/8'', ''10.0.0.0/8'', ''172.16.0.0/12'', ''192.168.0.0/16'', ''169.254.0.0/16'',
      ''0.0.0.0/8'', ''100.64.0.0/10'', ''192.0.0.0/24'', ''192.0.2.0/24'', ''198.51.100.0/24'',
      ''203.0.113.0/24'', ''224.0.0.0/4'', ''240.0.0.0/4'']"

definition private_cidrs_v6 :: "string list" where
  "private_cidrs_v6 =
     [''::1/128'', ''fc00::/7'', ''fe80::/10'', ''::ffff:0.0.0.0/96'', ''ff00::/8'', ''::/128'',
      ''100::/64'', ''64:ff9b::/96'']"

definition block_private :: ip_filter where
  "block_private =
     \<lparr>blocked = map cidr_v4 private_cidrs, blocked_v6 = map cidr_v6 private_cidrs_v6,
      allowed = [], allowed_v6 = [], fail_closed = True\<rparr>"

definition ip_filter_empty :: ip_filter where
  "ip_filter_empty =
     \<lparr>blocked = [], blocked_v6 = [], allowed = [], allowed_v6 = [], fail_closed = False\<rparr>"

definition add_block :: "string \<Rightarrow> ip_filter \<Rightarrow> ip_filter" where
  "add_block cidr f = f\<lparr>blocked := blocked f @ [cidr_v4 cidr]\<rparr>"

definition add_block_v6 :: "string \<Rightarrow> ip_filter \<Rightarrow> ip_filter" where
  "add_block_v6 cidr f = f\<lparr>blocked_v6 := blocked_v6 f @ [cidr_v6 cidr]\<rparr>"

definition add_allow :: "string \<Rightarrow> ip_filter \<Rightarrow> ip_filter" where
  "add_allow cidr f = f\<lparr>allowed := allowed f @ [cidr_v4 cidr]\<rparr>"

definition add_allow_v6 :: "string \<Rightarrow> ip_filter \<Rightarrow> ip_filter" where
  "add_allow_v6 cidr f = f\<lparr>allowed_v6 := allowed_v6 f @ [cidr_v6 cidr]\<rparr>"

definition set_fail_closed :: "bool \<Rightarrow> ip_filter \<Rightarrow> ip_filter" where
  "set_fail_closed b f = f\<lparr>fail_closed := b\<rparr>"

fun is_v6 :: "ip_addr \<Rightarrow> bool" where
  "is_v6 (V6 w) = True"
| "is_v6 (V4 a b c d) = False"

lemma to_ipv4_mapped_V4: "to_ipv4_mapped w = Some a \<Longrightarrow> \<not> is_v6 a"
  by (auto simp: to_ipv4_mapped_def v4_of_bits_def split: if_splits)

function ip_allowed :: "ip_filter \<Rightarrow> ip_addr \<Rightarrow> bool" where
  "ip_allowed f (V4 a b c d) =
     (if \<exists>r \<in> set (allowed f). contains_v4 r (V4 a b c d) then True
      else \<not> (\<exists>r \<in> set (blocked f). contains_v4 r (V4 a b c d)))"
| "ip_allowed f (V6 w) =
     (if (case to_ipv4_mapped w of Some v4 \<Rightarrow> \<not> ip_allowed f v4 | None \<Rightarrow> False) then False
      else if \<exists>r \<in> set (allowed_v6 f). contains_v6 r (V6 w) then True
      else if \<exists>r \<in> set (blocked_v6 f). contains_v6 r (V6 w) then False
      else True)"
  by pat_completeness auto
termination
  by (relation "measure (\<lambda>(f, a). if is_v6 a then 1 else 0)") (auto dest: to_ipv4_mapped_V4)

text \<open>\<open>dns\<close> is \<open>to_socket_addrs\<close>: the resolved addresses, \<open>None\<close> for its error.\<close>

definition is_hostname_allowed ::
    "ip_filter \<Rightarrow> (string \<Rightarrow> ip_addr list option) \<Rightarrow> string \<Rightarrow> bool" where
  "is_hostname_allowed f dns hostname =
     (case parse_ip hostname of
        Some addr \<Rightarrow> ip_allowed f addr
      | None \<Rightarrow>
          (case dns (hostname @ '':0'') of
             Some addrs \<Rightarrow>
               if \<exists>a \<in> set addrs. \<not> ip_allowed f a then False
               else if addrs = [] then \<not> fail_closed f
               else True
           | None \<Rightarrow> if fail_closed f then False else True))"

section \<open>The gate the client relies on\<close>

lemma ip_allowed_add_block: "ip_allowed (add_block cidr f) a \<Longrightarrow> ip_allowed f a"
proof (induction f a rule: ip_allowed.induct)
  case (2 f w)
  then show ?case
    by (cases "to_ipv4_mapped w") (auto simp: add_block_def split: if_splits)
qed (auto simp: add_block_def split: if_splits)

lemma ip_allowed_add_block_v6: "ip_allowed (add_block_v6 cidr f) a \<Longrightarrow> ip_allowed f a"
proof (induction f a rule: ip_allowed.induct)
  case (2 f w)
  then show ?case
    by (cases "to_ipv4_mapped w") (auto simp: add_block_v6_def split: if_splits)
qed (auto simp: add_block_v6_def split: if_splits)

lemma hostname_allowed_cases:
  assumes "is_hostname_allowed f dns host"
  obtains a where "parse_ip host = Some a" "ip_allowed f a"
  | addrs where "dns (host @ '':0'') = Some addrs" "addrs \<noteq> []" "\<forall>a \<in> set addrs. ip_allowed f a"
  | "\<not> fail_closed f"
proof (cases "parse_ip host")
  case None
  with assms that show ?thesis
    by (cases "dns (host @ '':0'')") (auto simp: is_hostname_allowed_def split: if_splits)
next
  case (Some a)
  with assms that(1) show ?thesis by (simp add: is_hostname_allowed_def)
qed

lemma ip_allowed_add_block_other:
  "ip_allowed f (V4 a b c d) \<Longrightarrow> \<not> contains_v4 (cidr_v4 cidr) (V4 a b c d)
    \<Longrightarrow> ip_allowed (add_block cidr f) (V4 a b c d)"
  by (auto simp: add_block_def simp del: contains_v4.simps split: if_splits)

interpretation v4_gate: restricting_gate ip_allowed add_block
  by unfold_locales (rule ip_allowed_add_block)

interpretation v6_gate: restricting_gate ip_allowed add_block_v6
  by unfold_locales (rule ip_allowed_add_block_v6)

lemma fail_closed_add_block [simp]: "fail_closed (add_block cidr f) = fail_closed f"
  by (simp add: add_block_def)

lemma fail_closed_blocks [simp]: "fail_closed (fold add_block cidrs f) = fail_closed f"
  by (induction cidrs arbitrary: f) simp_all

section \<open>What the private filter blocks\<close>

text \<open>
  The reserved address space written in octets and prefixes, as the comments of
  \<open>IpFilter::block_private\<close> name it; the theorems below say that the filter built from
  the CIDR strings refuses exactly these addresses.
\<close>

definition private_v4 :: "8 word \<Rightarrow> 8 word \<Rightarrow> 8 word \<Rightarrow> bool" where
  "private_v4 a b c \<longleftrightarrow>
     a = 127 \<or> a = 10 \<or> (a = 172 \<and> 16 \<le> b \<and> b \<le> 31) \<or> (a = 192 \<and> b = 168)
     \<or> (a = 169 \<and> b = 254) \<or> a = 0 \<or> (a = 100 \<and> 64 \<le> b \<and> b \<le> 127)
     \<or> (a = 192 \<and> b = 0 \<and> c = 0) \<or> (a = 192 \<and> b = 0 \<and> c = 2)
     \<or> (a = 198 \<and> b = 51 \<and> c = 100) \<or> (a = 203 \<and> b = 0 \<and> c = 113) \<or> 224 \<le> a"

lemma cidr_v4_eq:
  "raw_ip (split_on (CHR ''.'') (hd (split_on (CHR ''/'') s))) = raw
    \<Longrightarrow> cidr_bits 32 (split_on (CHR ''/'') s) = n \<Longrightarrow> cidr_v4 s = mk_range raw n"
  by (simp add: cidr_v4_def Let_def)

lemma private_ranges:
  "map cidr_v4 private_cidrs =
     [mk_range 0x7F000000 8, mk_range 0x0A000000 8, mk_range 0xAC100000 12, mk_range 0xC0A80000 16,
      mk_range 0xA9FE0000 16, mk_range 0 8, mk_range 0x64400000 10, mk_range 0xC0000000 24,
      mk_range 0xC0000200 24, mk_range 0xC6336400 24, mk_range 0xCB007100 24,
      mk_range 0xE0000000 4, mk_range 0xF0000000 4]"
  unfolding private_cidrs_def list.map list.inject
  by (intro conjI refl; rule cidr_v4_eq; code_simp)


lemma v4_div:
  fixes a b c d :: nat
  defines "x \<equiv> a * 2 ^ 24 + (b * 2 ^ 16 + (c * 2 ^ 8 + d))"
  assumes "a < 256" "b < 256" "c < 256" "d < 256"
  shows "x div 2 ^ 24 = a" "x div 2 ^ 16 = a * 256 + b" "x div 2 ^ 8 = (a * 256 + b) * 256 + c"
    "x div 2 ^ 20 = a * 16 + b div 16" "x div 2 ^ 22 = a * 4 + b div 64" "x div 2 ^ 28 = a div 16"
proof -
  have 8: "x div 2 ^ 8 = (a * 256 + b) * 256 + c" using assms(5) by (simp add: x_def)
  have "x div 2 ^ 8 div 2 ^ 8 = a * 256 + b" unfolding 8 using assms(4) by simp
  then have 16: "x div 2 ^ 16 = a * 256 + b" by (simp add: div_mult2_eq [symmetric])
  have "x div 2 ^ 16 div 2 ^ 8 = a" unfolding 16 using assms(3) by simp
  then have 24: "x div 2 ^ 24 = a" by (simp add: div_mult2_eq [symmetric])
  have 20: "x div 2 ^ 16 div 2 ^ 4 = a * 16 + b div 16" unfolding 16 by simp
  have 22: "x div 2 ^ 16 div 2 ^ 6 = a * 4 + b div 64" unfolding 16 by simp
  have 28: "x div 2 ^ 24 div 2 ^ 4 = a div 16" unfolding 24 by simp
  show "x div 2 ^ 24 = a" "x div 2 ^ 16 = a * 256 + b" "x div 2 ^ 8 = (a * 256 + b) * 256 + c"
    by (fact 24 16 8)+
  show "x div 2 ^ 20 = a * 16 + b div 16" "x div 2 ^ 22 = a * 4 + b div 64" "x div 2 ^ 28 = a div 16"
    using 20 22 28 by (simp_all add: div_mult2_eq [symmetric])
qed

lemmas v4_bits_div = v4_div [OF unat_lt_256 unat_lt_256 unat_lt_256 unat_lt_256,
    folded unat_v4_bits]

lemma range_mem:
  "contains_v4 (mk_range raw 8) (V4 a b c d) \<longleftrightarrow> unat a = unat raw div 2 ^ 24"
  "contains_v4 (mk_range raw 16) (V4 a b c d) \<longleftrightarrow> unat a * 256 + unat b = unat raw div 2 ^ 16"
  "contains_v4 (mk_range raw 24) (V4 a b c d)
    \<longleftrightarrow> (unat a * 256 + unat b) * 256 + unat c = unat raw div 2 ^ 8"
  "contains_v4 (mk_range raw 12) (V4 a b c d) \<longleftrightarrow> unat a * 16 + unat b div 16 = unat raw div 2 ^ 20"
  "contains_v4 (mk_range raw 10) (V4 a b c d) \<longleftrightarrow> unat a * 4 + unat b div 64 = unat raw div 2 ^ 22"
  "contains_v4 (mk_range raw 4) (V4 a b c d) \<longleftrightarrow> unat a div 16 = unat raw div 2 ^ 28"
  by (subst contains_v4_div; simp add: v4_bits_div [simplified])+

lemma digit_pair:
  assumes "b < n" "q < (n::nat)"
  shows "a * n + b = p * n + q \<longleftrightarrow> a = p \<and> b = q"
proof
  assume eq: "a * n + b = p * n + q"
  have "(a * n + b) div n = a" "(p * n + q) div n = p" "(a * n + b) mod n = b" "(p * n + q) mod n = q"
    using assms by simp_all
  with eq show "a = p \<and> b = q" by metis
qed simp

lemma octet_triple:
  assumes "b < 256" "c < 256" "q < 256" "r < (256::nat)"
  shows "65536 * a + b * 256 + c = (p * 256 + q) * 256 + r \<longleftrightarrow> a = p \<and> b = q \<and> c = r"
proof -
  have "65536 * a + b * 256 + c = (a * 256 + b) * 256 + c" by simp
  then show ?thesis using assms by (simp only: digit_pair) simp
qed

lemma octet_conditions:
  fixes a b c :: nat
  assumes "a < 256" "b < 256" "c < 256"
  shows "a * 16 + b div 16 = 2753 \<longleftrightarrow> a = 172 \<and> 16 \<le> b \<and> b \<le> 31"
    and "a * 256 + b = 49320 \<longleftrightarrow> a = 192 \<and> b = 168"
    and "a * 256 + b = 43518 \<longleftrightarrow> a = 169 \<and> b = 254"
    and "a * 4 + b div 64 = 401 \<longleftrightarrow> a = 100 \<and> 64 \<le> b \<and> b \<le> 127"
    and "65536 * a + b * 256 + c = 12582912 \<longleftrightarrow> a = 192 \<and> b = 0 \<and> c = 0"
    and "65536 * a + b * 256 + c = 12582914 \<longleftrightarrow> a = 192 \<and> b = 0 \<and> c = 2"
    and "65536 * a + b * 256 + c = 12989284 \<longleftrightarrow> a = 198 \<and> b = 51 \<and> c = 100"
    and "65536 * a + b * 256 + c = 13303921 \<longleftrightarrow> a = 203 \<and> b = 0 \<and> c = 113"
    and "a div 16 = 14 \<or> a div 16 = 15 \<longleftrightarrow> 224 \<le> a"
proof -
  have "b div 16 < 16" "b div 64 < 4" using assms by simp_all
  then show "a * 16 + b div 16 = 2753 \<longleftrightarrow> a = 172 \<and> 16 \<le> b \<and> b \<le> 31"
    and "a * 4 + b div 64 = 401 \<longleftrightarrow> a = 100 \<and> 64 \<le> b \<and> b \<le> 127"
    using digit_pair [of "b div 16" 16 1 a 172] digit_pair [of "b div 64" 4 1 a 100]
    by (auto simp: div_eq_interval)
  show "a div 16 = 14 \<or> a div 16 = 15 \<longleftrightarrow> 224 \<le> a"
    using assms(1) by (auto simp: div_eq_interval)
  show "a * 256 + b = 49320 \<longleftrightarrow> a = 192 \<and> b = 168"
    and "a * 256 + b = 43518 \<longleftrightarrow> a = 169 \<and> b = 254"
    using digit_pair [of b 256 168 a 192] digit_pair [of b 256 254 a 169] assms by simp_all
  show "65536 * a + b * 256 + c = 12582912 \<longleftrightarrow> a = 192 \<and> b = 0 \<and> c = 0"
    and "65536 * a + b * 256 + c = 12582914 \<longleftrightarrow> a = 192 \<and> b = 0 \<and> c = 2"
    and "65536 * a + b * 256 + c = 12989284 \<longleftrightarrow> a = 198 \<and> b = 51 \<and> c = 100"
    and "65536 * a + b * 256 + c = 13303921 \<longleftrightarrow> a = 203 \<and> b = 0 \<and> c = 113"
    using octet_triple [of b c 0 0 a 192] octet_triple [of b c 0 2 a 192]
      octet_triple [of b c 51 100 a 198] octet_triple [of b c 0 113 a 203] assms
    by simp_all
qed

lemma blocks_v4:
  "(\<exists>r \<in> set (map cidr_v4 private_cidrs). contains_v4 r (V4 a b c d)) \<longleftrightarrow> private_v4 a b c"
  unfolding private_ranges private_v4_def word_unat_eq_iff word_le_nat_alt
  by (simp add: range_mem octet_conditions [OF unat_lt_256 unat_lt_256 unat_lt_256]
      del: contains_v4.simps)

definition private_v6 :: "128 word \<Rightarrow> bool" where
  "private_v6 w \<longleftrightarrow>
     w = 1 \<or> drop_bit 121 w = 126 \<or> drop_bit 118 w = 1018 \<or> drop_bit 32 w = 0xFFFF
     \<or> drop_bit 120 w = 0xFF \<or> w = 0 \<or> drop_bit 64 w = 0x100000000000000
     \<or> drop_bit 32 w = 0x64FF9B0000000000000000"

lemma cidr_v6_eq:
  "hd (split_on (CHR ''/'') s) = a \<Longrightarrow> parse_ipv6 a = Some w
    \<Longrightarrow> cidr_bits 128 (split_on (CHR ''/'') s) = n \<Longrightarrow> cidr_v6 s = mk_range_v6 w n"
  by (simp add: cidr_v6_def Let_def)

lemma parse_private_v6:
  "parse_ipv6 ''::1'' = Some 1" "parse_ipv6 ''fc00::'' = Some (0xFC000000000000000000000000000000)"
  "parse_ipv6 ''fe80::'' = Some (0xFE800000000000000000000000000000)"
  "parse_ipv6 ''::ffff:0.0.0.0'' = Some (0xFFFF00000000)"
  "parse_ipv6 ''ff00::'' = Some (0xFF000000000000000000000000000000)" "parse_ipv6 ''::'' = Some 0"
  "parse_ipv6 ''100::'' = Some (0x01000000000000000000000000000000)"
  "parse_ipv6 ''64:ff9b::'' = Some (0x64FF9B000000000000000000000000)"
  by code_simp+

lemma private_ranges_v6:
  "map cidr_v6 private_cidrs_v6 =
     [mk_range_v6 1 128, mk_range_v6 (0xFC000000000000000000000000000000) 7, mk_range_v6 (0xFE800000000000000000000000000000) 10,
      mk_range_v6 (0xFFFF00000000) 96, mk_range_v6 (0xFF000000000000000000000000000000) 8, mk_range_v6 0 128,
      mk_range_v6 (0x01000000000000000000000000000000) 64, mk_range_v6 (0x64FF9B000000000000000000000000) 96]"
  unfolding private_cidrs_v6_def list.map list.inject
  by (intro conjI refl; rule cidr_v6_eq; (rule parse_private_v6)?; code_simp)

lemma blocks_v6:
  "(\<exists>r \<in> set (map cidr_v6 private_cidrs_v6). contains_v6 r (V6 w)) \<longleftrightarrow> private_v6 w"
proof -
  have bases: "drop_bit 121 (0xFC000000000000000000000000000000 :: 128 word) = 126"
    "drop_bit 118 (0xFE800000000000000000000000000000 :: 128 word) = 1018"
    "drop_bit 32 (0xFFFF00000000 :: 128 word) = 0xFFFF"
    "drop_bit 120 (0xFF000000000000000000000000000000 :: 128 word) = 0xFF"
    "drop_bit 64 (0x01000000000000000000000000000000 :: 128 word) = 0x100000000000000"
    "drop_bit 32 (0x64FF9B000000000000000000000000 :: 128 word) = 0x64FF9B0000000000000000"
    by code_simp+
  show ?thesis
    unfolding private_ranges_v6 private_v6_def
    by (simp add: contains_v6_prefix bases del: contains_v6.simps push_bit_numeral)
qed

section \<open>Properties\<close>

text \<open>
  C1: For every IPv4 address, the filter built by \<open>IpFilter::block_private\<close> refuses it exactly
  when it lies in loopback, RFC 1918, link-local, "this network", CGNAT, protocol-assignment,
  documentation, multicast or reserved space: the parsed CIDR strings, the masks and the
  membership test together give those ranges, no address more and no address less.
\<close>
theorem block_private_v4_exact:
  "ip_allowed block_private (V4 a b c d) \<longleftrightarrow> \<not> private_v4 a b c"
  using blocks_v4 [of a b c d] by (simp add: block_private_def)

text \<open>
  For every IPv6 address, the private filter refuses exactly the reserved prefixes; in
  particular every IPv4-mapped address is refused, whatever IPv4 address it carries.
\<close>
theorem block_private_v6_exact: "ip_allowed block_private (V6 w) \<longleftrightarrow> \<not> private_v6 w"
proof (cases "private_v6 w")
  case True
  then show ?thesis using blocks_v6 [of w] by (simp add: block_private_def)
next
  case False
  then have "to_ipv4_mapped w = None"
    by (simp add: private_v6_def to_ipv4_mapped_def)
  with False show ?thesis using blocks_v6 [of w] by (simp add: block_private_def)
qed

text \<open>
  C2: An IPv4-mapped IPv6 address never passes a filter that refuses the IPv4 address it
  carries, whatever the allow and block lists hold.
\<close>
theorem mapped_never_looser:
  assumes "to_ipv4_mapped w = Some v4" and "ip_allowed f (V6 w)"
  shows "ip_allowed f v4"
  using assms by (auto split: if_splits)

theorem mapped_never_looser_witness:
  "ip_allowed (add_block ''10.0.0.0/8'' ip_filter_new) (V4 8 8 8 8)"
proof -
  have m: "to_ipv4_mapped 0xFFFF08080808 = Some (V4 8 8 8 8)" by code_simp
  have "\<not> contains_v4 (cidr_v4 ''10.0.0.0/8'') (V4 8 8 8 8)" by code_simp
  then have "ip_allowed (add_block ''10.0.0.0/8'' ip_filter_new) (V6 0xFFFF08080808)"
    using m by (simp add: add_block_def ip_filter_new_def)
  with m show ?thesis by (rule mapped_never_looser)
qed

text \<open>
  With \<open>fail_closed\<close> set, a hostname passes only when it is an address the filter allows
  or resolves to at least one address with every resolved address allowed; and adding block
  ranges to the filter never turns a refusal into a permission.
\<close>
theorem hostname_fail_closed:
  assumes "fail_closed f" and "is_hostname_allowed (fold add_block cidrs f) dns host"
  shows "(\<exists>a. parse_ip host = Some a \<and> ip_allowed f a)
    \<or> (\<exists>addrs. dns (host @ '':0'') = Some addrs \<and> addrs \<noteq> [] \<and> (\<forall>a \<in> set addrs. ip_allowed f a))"
  using assms(2)
proof (cases rule: hostname_allowed_cases)
  case (1 a)
  from this(2) have "ip_allowed f a" by (rule v4_gate.denials_shrink)
  with 1 show ?thesis by blast
next
  case (2 addrs)
  have "ip_allowed f a" if "a \<in> set addrs" for a
    using 2(3) that by (blast intro: v4_gate.denials_shrink [of cidrs f])
  with 2 show ?thesis by blast
qed (simp add: assms(1))

theorem hostname_fail_closed_witness:
  "\<exists>addrs. addrs \<noteq> [] \<and> (\<forall>a \<in> set addrs. ip_allowed block_private a)"
proof -
  define dns :: "string \<Rightarrow> ip_addr list option" where "dns = (\<lambda>_. Some [V4 93 184 216 34])"
  have ip: "parse_ip ''example.com'' = None" by code_simp
  have pub: "\<not> private_v4 93 184 216" by (simp add: private_v4_def)
  have ok: "is_hostname_allowed (fold add_block [''8.8.8.0/24''] block_private) dns ''example.com''"
  proof -
    have "\<not> contains_v4 (cidr_v4 ''8.8.8.0/24'') (V4 93 184 216 34)" by code_simp
    moreover have "ip_allowed block_private (V4 93 184 216 34)"
      using pub blocks_v4 [of 93 184 216 34] by (simp add: block_private_def)
    ultimately have "ip_allowed (add_block ''8.8.8.0/24'' block_private) (V4 93 184 216 34)"
      by (rule ip_allowed_add_block_other [rotated])
    then show ?thesis
      using ip by (simp add: is_hostname_allowed_def dns_def del: ip_allowed.simps)
  qed
  have closed: "fail_closed block_private" by (simp add: block_private_def)
  from hostname_fail_closed [OF closed ok]
  show ?thesis unfolding ip by (elim disjE exE conjE) (simp, intro exI conjI)
qed

end
