(* ===== verification/WebUrl.thy ===== *)
theory WebUrl
  imports Prelude
begin

text \<open>
  What the code reads of a parsed \<open>url::Url\<close> and of the two other crates the network layer
  asks: \<open>httpdate\<close> and \<open>psl\<close> (the public suffix list). None of them is part of the
  repository, so a URL is the record of the answers its accessors give, and the crates are
  functions in an environment record that the definitions take as an argument. The parser
  \<open>Url::parse\<close> is such a function too.
\<close>

record url =
  url_scheme :: string
  url_host_str :: "string option"
  url_domain :: "string option"
  url_port :: "int option" \<comment> \<open>\<open>port_or_known_default()\<close>\<close>
  url_path :: string
  url_as_str :: string
  url_ascii_origin :: string \<comment> \<open>\<open>origin().ascii_serialization()\<close>\<close>

type_synonym url_parser = "string \<Rightarrow> url option"

record web_env =
  now_secs :: int \<comment> \<open>the clock, in Unix-epoch seconds\<close>
  httpdate :: "string \<Rightarrow> int option" \<comment> \<open>seconds from the epoch, negative before it\<close>
  psl_suffix :: "string \<Rightarrow> string option" \<comment> \<open>\<open>psl::suffix_str\<close>\<close>
  psl_domain :: "string \<Rightarrow> string option" \<comment> \<open>\<open>psl::domain_str\<close>\<close>

text \<open>Sample values, for the witnesses: no date parses, \<open>com\<close> is the only public suffix.\<close>

definition sample_env :: web_env where
  "sample_env =
     \<lparr>now_secs = 1000, httpdate = (\<lambda>_. None),
      psl_suffix = (\<lambda>d. if ends_with d ''com'' then Some ''com'' else None),
      psl_domain = (\<lambda>d. if ends_with d ''example.com'' then Some ''example.com'' else None)\<rparr>"

definition sample_url :: "string \<Rightarrow> string \<Rightarrow> string \<Rightarrow> int \<Rightarrow> url" where
  "sample_url scheme host p prt =
     \<lparr>url_scheme = scheme, url_host_str = Some host, url_domain = Some host, url_port = Some prt,
      url_path = p, url_as_str = scheme @ ''://'' @ host @ p,
      url_ascii_origin = scheme @ ''://'' @ host\<rparr>"

end
