(* ===== verification/UnicodeCase.thy ===== *)
theory UnicodeCase
  imports Prelude
begin

text \<open>
  \<open>str::to_lowercase\<close> of Rust's standard library on the UTF-8 bytes of a string: the lower-case
  mapping of every scalar value of Unicode 14, with the pairs Unicode 16 added, as ranges with a step;
  the two-letter image of U+0130; and the context of a capital sigma, for which the ranges of
  \<open>Case_Ignorable\<close> and of the other \<open>Cased\<close> values are listed. Bytes that are not well-formed UTF-8,
  which no Rust string holds, stay as they are. ASCII text takes the short way. Lowering is idempotent.
\<close>

section \<open>Scalar values\<close>

fun raw_point :: "int list \<Rightarrow> int" where
  "raw_point [a] = a"
| "raw_point [a, b] = (a - 192) * 64 + (b - 128)"
| "raw_point [a, b, c] = (a - 224) * 4096 + (b - 128) * 64 + (c - 128)"
| "raw_point [a, b, c, d] = (a - 240) * 262144 + (b - 128) * 4096 + (c - 128) * 64 + (d - 128)"
| "raw_point _ = - 1"

definition point_bytes :: "int \<Rightarrow> int list" where
  "point_bytes x =
     (if x < 128 then [x]
      else if x < 2048 then [192 + x div 64, 128 + x mod 64]
      else if x < 65536 then [224 + x div 4096, 128 + x div 64 mod 64, 128 + x mod 64]
      else [240 + x div 262144, 128 + x div 4096 mod 64, 128 + x div 64 mod 64, 128 + x mod 64])"

definition encode_point :: "int \<Rightarrow> string" where
  "encode_point x = map char_of (point_bytes x)"

definition decode_point :: "string \<Rightarrow> int option" where
  "decode_point u =
     (let x = raw_point (map byte u) in if 0 \<le> x \<and> x < 1114112 \<and> encode_point x = u then Some x else None)"

section \<open>Tables\<close>

text \<open>First, last, step, and what is added, in blocks that end at the value before them.\<close>

type_synonym lower_rule = "int \<times> int \<times> int \<times> int"

definition lower_blocks :: "(int \<times> lower_rule list) list" where
  "lower_blocks = [
     (398, [(65, 90, 1, 32), (192, 214, 1, 32), (216, 222, 1, 32), (256, 302, 2, 1), (306, 310, 2, 1),
       (313, 327, 2, 1), (330, 374, 2, 1), (376, 376, 2, - 121), (377, 381, 2, 1),
       (385, 385, 2, 210), (386, 388, 2, 1), (390, 390, 2, 206), (391, 391, 2, 1),
       (393, 394, 1, 205), (395, 395, 2, 1), (398, 398, 2, 79)]),
     (428, [(399, 399, 2, 202), (400, 400, 2, 203), (401, 401, 2, 1), (403, 403, 2, 205),
       (404, 404, 2, 207), (406, 406, 2, 211), (407, 407, 2, 209), (408, 408, 2, 1),
       (412, 412, 2, 211), (413, 413, 2, 213), (415, 415, 2, 214), (416, 420, 2, 1),
       (422, 422, 2, 218), (423, 423, 2, 1), (425, 425, 2, 218), (428, 428, 2, 1)]),
     (500, [(430, 430, 2, 218), (431, 431, 2, 1), (433, 434, 1, 217), (435, 437, 2, 1),
       (439, 439, 2, 219), (440, 440, 2, 1), (444, 444, 2, 1), (452, 452, 2, 2), (453, 453, 2, 1),
       (455, 455, 2, 2), (456, 456, 2, 1), (458, 458, 2, 2), (459, 475, 2, 1), (478, 494, 2, 1),
       (497, 497, 2, 2), (498, 500, 2, 1)]),
     (886, [(502, 502, 2, - 97), (503, 503, 2, - 56), (504, 542, 2, 1), (544, 544, 2, - 130),
       (546, 562, 2, 1), (570, 570, 2, 10795), (571, 571, 2, 1), (573, 573, 2, - 163),
       (574, 574, 2, 10792), (577, 577, 2, 1), (579, 579, 2, - 195), (580, 580, 2, 69),
       (581, 581, 2, 71), (582, 590, 2, 1), (880, 882, 2, 1), (886, 886, 2, 1)]),
     (1071, [(895, 895, 2, 116), (902, 902, 2, 38), (904, 906, 1, 37), (908, 908, 2, 64),
       (910, 911, 1, 63), (913, 929, 1, 32), (931, 939, 1, 32), (975, 975, 2, 8), (984, 1006, 2, 1),
       (1012, 1012, 2, - 60), (1015, 1015, 2, 1), (1017, 1017, 2, - 7), (1018, 1018, 2, 1),
       (1021, 1023, 1, - 130), (1024, 1039, 1, 80), (1040, 1071, 1, 32)]),
     (7934, [(1120, 1152, 2, 1), (1162, 1214, 2, 1), (1216, 1216, 2, 15), (1217, 1229, 2, 1),
       (1232, 1326, 2, 1), (1329, 1366, 1, 48), (4256, 4293, 1, 7264), (4295, 4295, 2, 7264),
       (4301, 4301, 2, 7264), (5024, 5103, 1, 38864), (5104, 5109, 1, 8), (7312, 7354, 1, - 3008),
       (7357, 7359, 1, - 3008), (7680, 7828, 2, 1), (7838, 7838, 2, - 7615), (7840, 7934, 2, 1)]),
     (8153, [(7944, 7951, 1, - 8), (7960, 7965, 1, - 8), (7976, 7983, 1, - 8), (7992, 7999, 1, - 8),
       (8008, 8013, 1, - 8), (8025, 8031, 2, - 8), (8040, 8047, 1, - 8), (8072, 8079, 1, - 8),
       (8088, 8095, 1, - 8), (8104, 8111, 1, - 8), (8120, 8121, 1, - 8), (8122, 8123, 1, - 74),
       (8124, 8124, 2, - 9), (8136, 8139, 1, - 86), (8140, 8140, 2, - 9), (8152, 8153, 1, - 8)]),
     (11360, [(8154, 8155, 1, - 100), (8168, 8169, 1, - 8), (8170, 8171, 1, - 112), (8172, 8172, 2, - 7),
       (8184, 8185, 1, - 128), (8186, 8187, 1, - 126), (8188, 8188, 2, - 9),
       (8486, 8486, 2, - 7517), (8490, 8490, 2, - 8383), (8491, 8491, 2, - 8262),
       (8498, 8498, 2, 28), (8544, 8559, 1, 16), (8579, 8579, 2, 1), (9398, 9423, 1, 26),
       (11264, 11311, 1, 48), (11360, 11360, 2, 1)]),
     (42650, [(11362, 11362, 2, - 10743), (11363, 11363, 2, - 3814), (11364, 11364, 2, - 10727),
       (11367, 11371, 2, 1), (11373, 11373, 2, - 10780), (11374, 11374, 2, - 10749),
       (11375, 11375, 2, - 10783), (11376, 11376, 2, - 10782), (11378, 11378, 2, 1),
       (11381, 11381, 2, 1), (11390, 11391, 1, - 10815), (11392, 11490, 2, 1), (11499, 11501, 2, 1),
       (11506, 11506, 2, 1), (42560, 42604, 2, 1), (42624, 42650, 2, 1)]),
     (42929, [(42786, 42798, 2, 1), (42802, 42862, 2, 1), (42873, 42875, 2, 1), (42877, 42877, 2, - 35332),
       (42878, 42886, 2, 1), (42891, 42891, 2, 1), (42893, 42893, 2, - 42280), (42896, 42898, 2, 1),
       (42902, 42920, 2, 1), (42922, 42922, 2, - 42308), (42923, 42923, 2, - 42319),
       (42924, 42924, 2, - 42315), (42925, 42925, 2, - 42305), (42926, 42926, 2, - 42308),
       (42928, 42928, 2, - 42258), (42929, 42929, 2, - 42282)]),
     (66771, [(42930, 42930, 2, - 42261), (42931, 42931, 2, 928), (42932, 42946, 2, 1),
       (42948, 42948, 2, - 48), (42949, 42949, 2, - 42307), (42950, 42950, 2, - 35384),
       (42951, 42953, 2, 1), (42955, 42955, 2, - 42343), (42956, 42956, 2, 1), (42960, 42960, 2, 1),
       (42966, 42970, 2, 1), (42972, 42972, 2, - 42561), (42997, 42997, 2, 1),
       (65313, 65338, 1, 32), (66560, 66599, 1, 40), (66736, 66771, 1, 40)]),
     (125217, [(66928, 66964, 2, 39), (66929, 66937, 2, 39), (66941, 66953, 2, 39), (66957, 66961, 2, 39),
       (66965, 66965, 2, 39), (68736, 68786, 1, 64), (68944, 68965, 1, 32), (71840, 71871, 1, 32),
       (93760, 93791, 1, 32), (125184, 125217, 1, 34)])]"

definition lower_rules :: "lower_rule list" where
  "lower_rules = concat (map snd lower_blocks)"

definition ignorable_ranges :: "(int \<times> int) list" where
  "ignorable_ranges = [
     (39, 39), (46, 46), (58, 58), (94, 94), (96, 96), (168, 168), (173, 173), (175, 175), (180, 180),
     (183, 184), (688, 879), (884, 885), (890, 890), (900, 901), (903, 903), (1155, 1161), (1369, 1369),
     (1375, 1375), (1425, 1469), (1471, 1471), (1473, 1474), (1476, 1477), (1479, 1479), (1524, 1524),
     (1536, 1541), (1552, 1562), (1564, 1564), (1600, 1600), (1611, 1631), (1648, 1648), (1750, 1757),
     (1759, 1768), (1770, 1773), (1807, 1807), (1809, 1809), (1840, 1866), (1958, 1968), (2027, 2037),
     (2042, 2042), (2045, 2045), (2070, 2093), (2137, 2139), (2184, 2184), (2192, 2193), (2200, 2207),
     (2249, 2306), (2362, 2362), (2364, 2364), (2369, 2376), (2381, 2381), (2385, 2391), (2402, 2403),
     (2417, 2417), (2433, 2433), (2492, 2492), (2497, 2500), (2509, 2509), (2530, 2531), (2558, 2558),
     (2561, 2562), (2620, 2620), (2625, 2626), (2631, 2632), (2635, 2637), (2641, 2641), (2672, 2673),
     (2677, 2677), (2689, 2690), (2748, 2748), (2753, 2757), (2759, 2760), (2765, 2765), (2786, 2787),
     (2810, 2815), (2817, 2817), (2876, 2876), (2879, 2879), (2881, 2884), (2893, 2893), (2901, 2902),
     (2914, 2915), (2946, 2946), (3008, 3008), (3021, 3021), (3072, 3072), (3076, 3076), (3132, 3132),
     (3134, 3136), (3142, 3144), (3146, 3149), (3157, 3158), (3170, 3171), (3201, 3201), (3260, 3260),
     (3263, 3263), (3270, 3270), (3276, 3277), (3298, 3299), (3328, 3329), (3387, 3388), (3393, 3396),
     (3405, 3405), (3426, 3427), (3457, 3457), (3530, 3530), (3538, 3540), (3542, 3542), (3633, 3633),
     (3636, 3642), (3654, 3662), (3761, 3761), (3764, 3772), (3782, 3782), (3784, 3789), (3864, 3865),
     (3893, 3893), (3895, 3895), (3897, 3897), (3953, 3966), (3968, 3972), (3974, 3975), (3981, 3991),
     (3993, 4028), (4038, 4038), (4141, 4144), (4146, 4151), (4153, 4154), (4157, 4158), (4184, 4185),
     (4190, 4192), (4209, 4212), (4226, 4226), (4229, 4230), (4237, 4237), (4253, 4253), (4348, 4348),
     (4957, 4959), (5906, 5908), (5938, 5939), (5970, 5971), (6002, 6003), (6068, 6069), (6071, 6077),
     (6086, 6086), (6089, 6099), (6103, 6103), (6109, 6109), (6155, 6159), (6211, 6211), (6277, 6278),
     (6313, 6313), (6432, 6434), (6439, 6440), (6450, 6450), (6457, 6459), (6679, 6680), (6683, 6683),
     (6742, 6742), (6744, 6750), (6752, 6752), (6754, 6754), (6757, 6764), (6771, 6780), (6783, 6783),
     (6823, 6823), (6832, 6862), (6912, 6915), (6964, 6964), (6966, 6970), (6972, 6972), (6978, 6978),
     (7019, 7027), (7040, 7041), (7074, 7077), (7080, 7081), (7083, 7085), (7142, 7142), (7144, 7145),
     (7149, 7149), (7151, 7153), (7212, 7219), (7222, 7223), (7288, 7293), (7376, 7378), (7380, 7392),
     (7394, 7400), (7405, 7405), (7412, 7412), (7416, 7417), (7468, 7530), (7544, 7544), (7579, 7679),
     (8125, 8125), (8127, 8129), (8141, 8143), (8157, 8159), (8173, 8175), (8189, 8190), (8203, 8207),
     (8216, 8217), (8228, 8228), (8231, 8231), (8234, 8238), (8288, 8292), (8294, 8303), (8305, 8305),
     (8319, 8319), (8336, 8348), (8400, 8432), (11388, 11389), (11503, 11505), (11631, 11631),
     (11647, 11647), (11744, 11775), (11823, 11823), (12293, 12293), (12330, 12333), (12337, 12341),
     (12347, 12347), (12441, 12446), (12540, 12542), (40981, 40981), (42232, 42237), (42508, 42508),
     (42607, 42610), (42612, 42621), (42623, 42623), (42652, 42655), (42736, 42737), (42752, 42785),
     (42864, 42864), (42888, 42890), (42994, 42996), (43000, 43001), (43010, 43010), (43014, 43014),
     (43019, 43019), (43045, 43046), (43052, 43052), (43204, 43205), (43232, 43249), (43263, 43263),
     (43302, 43309), (43335, 43345), (43392, 43394), (43443, 43443), (43446, 43449), (43452, 43453),
     (43471, 43471), (43493, 43494), (43561, 43566), (43569, 43570), (43573, 43574), (43587, 43587),
     (43596, 43596), (43632, 43632), (43644, 43644), (43696, 43696), (43698, 43700), (43703, 43704),
     (43710, 43711), (43713, 43713), (43741, 43741), (43756, 43757), (43763, 43764), (43766, 43766),
     (43867, 43871), (43881, 43883), (44005, 44005), (44008, 44008), (44013, 44013), (64286, 64286),
     (64434, 64450), (65024, 65039), (65043, 65043), (65056, 65071), (65106, 65106), (65109, 65109),
     (65279, 65279), (65287, 65287), (65294, 65294), (65306, 65306), (65342, 65342), (65344, 65344),
     (65392, 65392), (65438, 65439), (65507, 65507), (65529, 65531), (66045, 66045), (66272, 66272),
     (66422, 66426), (67456, 67461), (67463, 67504), (67506, 67514), (68097, 68099), (68101, 68102),
     (68108, 68111), (68152, 68154), (68159, 68159), (68325, 68326), (68900, 68903), (69291, 69292),
     (69446, 69456), (69506, 69509), (69633, 69633), (69688, 69702), (69744, 69744), (69747, 69748),
     (69759, 69761), (69811, 69814), (69817, 69818), (69821, 69821), (69826, 69826), (69837, 69837),
     (69888, 69890), (69927, 69931), (69933, 69940), (70003, 70003), (70016, 70017), (70070, 70078),
     (70089, 70092), (70095, 70095), (70191, 70193), (70196, 70196), (70198, 70199), (70206, 70206),
     (70367, 70367), (70371, 70378), (70400, 70401), (70459, 70460), (70464, 70464), (70502, 70508),
     (70512, 70516), (70712, 70719), (70722, 70724), (70726, 70726), (70750, 70750), (70835, 70840),
     (70842, 70842), (70847, 70848), (70850, 70851), (71090, 71093), (71100, 71101), (71103, 71104),
     (71132, 71133), (71219, 71226), (71229, 71229), (71231, 71232), (71339, 71339), (71341, 71341),
     (71344, 71349), (71351, 71351), (71453, 71455), (71458, 71461), (71463, 71467), (71727, 71735),
     (71737, 71738), (71995, 71996), (71998, 71998), (72003, 72003), (72148, 72151), (72154, 72155),
     (72160, 72160), (72193, 72202), (72243, 72248), (72251, 72254), (72263, 72263), (72273, 72278),
     (72281, 72283), (72330, 72342), (72344, 72345), (72752, 72758), (72760, 72765), (72767, 72767),
     (72850, 72871), (72874, 72880), (72882, 72883), (72885, 72886), (73009, 73014), (73018, 73018),
     (73020, 73021), (73023, 73029), (73031, 73031), (73104, 73105), (73109, 73109), (73111, 73111),
     (73459, 73460), (78896, 78904), (92912, 92916), (92976, 92982), (92992, 92995), (94031, 94031),
     (94095, 94111), (94176, 94177), (94179, 94180), (110576, 110579), (110581, 110587), (110589, 110590),
     (113821, 113822), (113824, 113827), (118528, 118573), (118576, 118598), (119143, 119145),
     (119155, 119170), (119173, 119179), (119210, 119213), (119362, 119364), (121344, 121398),
     (121403, 121452), (121461, 121461), (121476, 121476), (121499, 121503), (121505, 121519),
     (122880, 122886), (122888, 122904), (122907, 122913), (122915, 122916), (122918, 122922),
     (123184, 123197), (123566, 123566), (123628, 123631), (125136, 125142), (125252, 125259),
     (127995, 127999), (917505, 917505), (917536, 917631), (917760, 917999)]"

definition cased_ranges :: "(int \<times> int) list" where
  "cased_ranges = [
     (65, 90), (97, 122), (170, 170), (181, 181), (186, 186), (192, 214), (216, 246), (248, 442), (444, 447),
     (452, 659), (661, 687), (880, 883), (886, 887), (891, 893), (895, 895), (902, 902), (904, 906),
     (908, 908), (910, 929), (931, 1013), (1015, 1153), (1162, 1327), (1329, 1366), (1376, 1416),
     (4256, 4293), (4295, 4295), (4301, 4301), (4304, 4346), (4349, 4351), (5024, 5109), (5112, 5117),
     (7296, 7304), (7312, 7354), (7357, 7359), (7424, 7467), (7531, 7543), (7545, 7578), (7680, 7957),
     (7960, 7965), (7968, 8005), (8008, 8013), (8016, 8023), (8025, 8025), (8027, 8027), (8029, 8029),
     (8031, 8061), (8064, 8116), (8118, 8124), (8126, 8126), (8130, 8132), (8134, 8140), (8144, 8147),
     (8150, 8155), (8160, 8172), (8178, 8180), (8182, 8188), (8450, 8450), (8455, 8455), (8458, 8467),
     (8469, 8469), (8473, 8477), (8484, 8484), (8486, 8486), (8488, 8488), (8490, 8493), (8495, 8500),
     (8505, 8505), (8508, 8511), (8517, 8521), (8526, 8526), (8544, 8575), (8579, 8580), (9398, 9449),
     (11264, 11387), (11390, 11492), (11499, 11502), (11506, 11507), (11520, 11557), (11559, 11559),
     (11565, 11565), (42560, 42605), (42624, 42651), (42786, 42863), (42865, 42887), (42891, 42894),
     (42896, 42957), (42960, 42961), (42963, 42963), (42965, 42972), (42997, 42998), (43002, 43002),
     (43824, 43866), (43872, 43880), (43888, 43967), (64256, 64262), (64275, 64279), (65313, 65338),
     (65345, 65370), (66560, 66639), (66736, 66771), (66776, 66811), (66928, 66938), (66940, 66954),
     (66956, 66962), (66964, 66965), (66967, 66977), (66979, 66993), (66995, 67001), (67003, 67004),
     (68736, 68786), (68800, 68850), (68944, 68965), (68976, 68997), (71840, 71903), (93760, 93823),
     (119808, 119892), (119894, 119964), (119966, 119967), (119970, 119970), (119973, 119974),
     (119977, 119980), (119982, 119993), (119995, 119995), (119997, 120003), (120005, 120069),
     (120071, 120074), (120077, 120084), (120086, 120092), (120094, 120121), (120123, 120126),
     (120128, 120132), (120134, 120134), (120138, 120144), (120146, 120485), (120488, 120512),
     (120514, 120538), (120540, 120570), (120572, 120596), (120598, 120628), (120630, 120654),
     (120656, 120686), (120688, 120712), (120714, 120744), (120746, 120770), (120772, 120779),
     (122624, 122633), (122635, 122654), (125184, 125251), (127280, 127305), (127312, 127337),
     (127344, 127369)]"

section \<open>Lowering\<close>

fun rule_hits :: "int \<Rightarrow> int \<times> int \<times> int \<times> int \<Rightarrow> bool" where
  "rule_hits x (lo, hi, st, d) \<longleftrightarrow> lo \<le> x \<and> x \<le> hi \<and> (x - lo) mod st = 0"

definition lower_point :: "int \<Rightarrow> int" where
  "lower_point x = (case find (rule_hits x) lower_rules of Some (lo, hi, st, d) \<Rightarrow> x + d | None \<Rightarrow> x)"

definition lower_points :: "int \<Rightarrow> int list" where
  "lower_points x = (if x = 304 then [105, 775] else [lower_point x])"

definition lower_unit :: "string \<Rightarrow> string list" where
  "lower_unit u = (case decode_point u of Some x \<Rightarrow> map encode_point (lower_points x) | None \<Rightarrow> [u])"

definition in_ranges :: "(int \<times> int) list \<Rightarrow> string \<Rightarrow> bool" where
  "in_ranges rs u = (case decode_point u of Some x \<Rightarrow> list_ex (\<lambda>(a, b). a \<le> x \<and> x \<le> b) rs | None \<Rightarrow> False)"

definition then_cased :: "string list \<Rightarrow> bool" where
  "then_cased us =
     (case dropWhile (in_ranges ignorable_ranges) us of [] \<Rightarrow> False | u # _ \<Rightarrow> in_ranges cased_ranges u)"

abbreviation capital_sigma :: string where
  "capital_sigma \<equiv> [CHR 0xCE, CHR 0xA3]"

text \<open>What comes before is kept in reverse order.\<close>

fun lower_units :: "string list \<Rightarrow> string list \<Rightarrow> string list" where
  "lower_units prev [] = []"
| "lower_units prev (u # us) =
     (if u = capital_sigma
      then [if then_cased prev \<and> \<not> then_cased us then [CHR 0xCF, CHR 0x82] else [CHR 0xCF, CHR 0x83]]
      else lower_unit u) @ lower_units (u # prev) us"

definition to_lowercase :: "string \<Rightarrow> string" where
  "to_lowercase s = (if is_ascii_str s then to_ascii_lowercase s else concat (lower_units [] (utf8_chars s)))"

lemma lower_ascii: "is_ascii_str s \<Longrightarrow> to_lowercase s = to_ascii_lowercase s"
  by (simp add: to_lowercase_def)

section \<open>Lowering twice is lowering once\<close>

text \<open>No image of a rule is the source of one; the rules are in the order of their first values.\<close>

fun image_apart :: "int \<Rightarrow> int \<Rightarrow> int \<Rightarrow> lower_rule list \<Rightarrow> bool" where
  "image_apart a b st [] = True"
| "image_apart a b st ((lo, hi, st', d) # rs) =
     (if b < lo then True
      else (hi < a \<or> (st = 2 \<and> st' = 2 \<and> (a - lo) mod 2 = 1)) \<and> image_apart a b st rs)"

fun blocks_apart :: "int \<Rightarrow> int \<Rightarrow> int \<Rightarrow> (int \<times> lower_rule list) list \<Rightarrow> bool" where
  "blocks_apart a b st [] = True"
| "blocks_apart a b st ((m, rs) # bs) =
     (if m < a then blocks_apart a b st bs else image_apart a b st rs \<and> blocks_apart a b st bs)"

fun image_ok :: "int \<Rightarrow> int \<Rightarrow> int \<Rightarrow> bool" where
  "image_ok a b st \<longleftrightarrow> 0 \<le> a \<and> b < 1114112 \<and> (st = 1 \<or> st = 2) \<and> (304 < a \<or> b < 304)
     \<and> (931 < a \<or> b < 931 \<or> st = 2 \<and> (a - 931) mod 2 = 1)"

fun rule_ok :: "lower_rule \<Rightarrow> bool" where
  "rule_ok (lo, hi, st, d) \<longleftrightarrow> image_ok (lo + d) (hi + d) st \<and> blocks_apart (lo + d) (hi + d) st lower_blocks"

fun rules_rise :: "int \<Rightarrow> lower_rule list \<Rightarrow> bool" where
  "rules_rise k [] = True"
| "rules_rise k ((lo, hi, st, d) # rs) \<longleftrightarrow> k \<le> lo \<and> rules_rise lo rs"

lemma rules_rise_all: "rules_rise 0 lower_rules"
  by code_simp

lemma blocks_end: "list_all (\<lambda>(m, rs). list_all (\<lambda>(lo, hi, st, d). hi \<le> m) rs) lower_blocks"
  by code_simp

lemma blocks_checked: "list_all rule_ok lower_rules"
  by code_simp

lemma rules_rise_le: "rules_rise k rs \<Longrightarrow> (lo, hi, st, d) \<in> set rs \<Longrightarrow> k \<le> lo"
proof (induction k rs rule: rules_rise.induct)
  case (2 k lo' hi' st' d' rs)
  then show ?case by fastforce
qed simp

lemma rules_rise_append: "rules_rise k (rs @ qs) \<Longrightarrow> rules_rise k rs \<and> (\<exists>k'. rules_rise k' qs)"
  by (induction k rs rule: rules_rise.induct) auto

lemma image_apart_hit:
  assumes "image_apart a b st rs" and "rules_rise k rs" and "a \<le> y" and "y \<le> b" and "(y - a) mod st = 0" and "q \<in> set rs"
  shows "\<not> rule_hits y q"
  using assms
proof (induction a b st rs arbitrary: k rule: image_apart.induct)
  case (2 a b st lo hi st' d rs)
  obtain lo' hi' s' e' where q: "q = (lo', hi', s', e')" by (cases q)
  show ?case
  proof (cases "b < lo")
    case True
    have "lo \<le> lo'" using "2.prems"(2,6) rules_rise_le [of lo rs lo'] q by auto
    with True "2.prems"(4) q show ?thesis by auto
  next
    case False
    with "2.prems"(1) have here: "hi < a \<or> (st = 2 \<and> st' = 2 \<and> (a - lo) mod 2 = 1)" and rest: "image_apart a b st rs"
      by (auto split: if_split_asm)
    show ?thesis
    proof (cases "q \<in> set rs")
      case True
      have "rules_rise lo rs" using "2.prems"(2) by simp
      from "2.IH" [OF False rest this "2.prems"(3,4,5) True] show ?thesis .
    next
      case no: False
      then have q': "q = (lo, hi, st', d)" using "2.prems"(6) by simp
      have "(y - lo) mod 2 = 1" if "st = 2" "(a - lo) mod 2 = 1"
        using that "2.prems"(5) by presburger
      with here q' "2.prems"(3) show ?thesis by auto
    qed
  qed
qed simp

lemma blocks_apart_hit:
  assumes "blocks_apart a b st bs" and "rules_rise k (concat (map snd bs))"
    and "list_all (\<lambda>(m, rs). list_all (\<lambda>(lo, hi, st, d). hi \<le> m) rs) bs"
    and "a \<le> y" and "y \<le> b" and "(y - a) mod st = 0" and "q \<in> set (concat (map snd bs))"
  shows "\<not> rule_hits y q"
  using assms
proof (induction a b st bs arbitrary: k rule: blocks_apart.induct)
  case (2 a b st m rs bs)
  obtain lo hi s e where q: "q = (lo, hi, s, e)" by (cases q)
  from "2.prems"(2) rules_rise_append [of k rs "concat (map snd bs)"]
  obtain k' where rise: "rules_rise k rs" "rules_rise k' (concat (map snd bs))" by auto
  have rest: "blocks_apart a b st bs" using "2.prems"(1) by (simp split: if_split_asm)
  show ?case
  proof (cases "q \<in> set rs")
    case True
    show ?thesis
    proof (cases "m < a")
      case True
      with "2.prems"(3,4) \<open>q \<in> set rs\<close> show ?thesis by (auto simp: q list_all_iff)
    next
      case False
      with "2.prems"(1) have "image_apart a b st rs" by simp
      from image_apart_hit [OF this rise(1) "2.prems"(4-6) True] show ?thesis .
    qed
  next
    case False
    with "2.prems"(7) have "q \<in> set (concat (map snd bs))" by simp
    with "2.IH" rest rise(2) "2.prems"(3-6) show ?thesis by (cases "m < a") auto
  qed
qed simp

lemma lower_point_cases:
  obtains "lower_point x = x"
  | lo hi st d where "(lo, hi, st, d) \<in> set lower_rules" "rule_hits x (lo, hi, st, d)" "lower_point x = x + d"
proof (cases "find (rule_hits x) lower_rules")
  case None
  then show ?thesis using that(1) by (simp add: lower_point_def)
next
  case (Some r)
  then have "r \<in> set lower_rules" "rule_hits x r" by (auto simp: find_Some_iff)
  moreover obtain lo hi st d where "r = (lo, hi, st, d)" by (cases r)
  ultimately show ?thesis using that(2) [of lo hi st d] Some by (simp add: lower_point_def)
qed

lemma rule_facts: "(lo, hi, st, d) \<in> set lower_rules \<Longrightarrow> rule_ok (lo, hi, st, d)"
  using blocks_checked by (auto simp only: list_all_iff)

lemma lower_point_fixed: "lower_point (lower_point x) = lower_point x"
proof (cases x rule: lower_point_cases)
  case (2 lo hi st d)
  have "find (rule_hits (x + d)) lower_rules = None"
    unfolding find_None_iff
  proof safe
    fix q assume "q \<in> set lower_rules" "rule_hits (x + d) q"
    moreover have "blocks_apart (lo + d) (hi + d) st lower_blocks" using rule_facts [OF 2(1)] by simp
    moreover have "(x + d - (lo + d)) mod st = 0" "lo + d \<le> x + d" "x + d \<le> hi + d" using 2(2) by auto
    ultimately show False
      using blocks_apart_hit [OF _ rules_rise_all [unfolded lower_rules_def] blocks_end] by (simp add: lower_rules_def)
  qed
  with 2(3) show ?thesis by (simp add: lower_point_def)
qed simp

lemma lower_point_range:
  assumes "0 \<le> x" and "x < 1114112" and "x \<noteq> 304" and "x \<noteq> 931"
  shows "0 \<le> lower_point x \<and> lower_point x < 1114112 \<and> lower_point x \<noteq> 304 \<and> lower_point x \<noteq> 931"
proof (cases x rule: lower_point_cases)
  case (2 lo hi st d)
  from rule_facts [OF 2(1)] have ok: "0 \<le> lo + d" "hi + d < 1114112" "304 < lo + d \<or> hi + d < 304"
    "931 < lo + d \<or> hi + d < 931 \<or> st = 2 \<and> (lo + d - 931) mod 2 = 1" by auto
  from 2(2) have hit: "lo \<le> x" "x \<le> hi" "(x - lo) mod st = 0" by auto
  have "x + d \<noteq> 931"
  proof
    assume "x + d = 931"
    with ok(4) hit have "st = 2" "(lo + d - 931) mod 2 = 1" by auto
    with hit(3) \<open>x + d = 931\<close> show False by presburger
  qed
  with ok hit 2(3) show ?thesis by auto
qed (use assms in simp)

lemma rules_beyond: "rules_rise 128 (tl lower_rules)"
  by code_simp

lemma first_rule: "lower_rules = (65, 90, 1, 32) # tl lower_rules"
  by (simp add: lower_rules_def lower_blocks_def)

lemma lower_point_ascii:
  assumes "0 \<le> x" and "x < 128"
  shows "lower_point x = (if 65 \<le> x \<and> x \<le> 90 then x + 32 else x)"
proof -
  have "find (rule_hits x) (tl lower_rules) = None"
    unfolding find_None_iff
  proof safe
    fix lo hi st d assume "(lo, hi, st, d) \<in> set (tl lower_rules)" "rule_hits x (lo, hi, st, d)"
    with rules_rise_le [OF rules_beyond, of lo hi st d] assms(2) show False by auto
  qed
  then show ?thesis unfolding lower_point_def by (subst first_rule) auto
qed

lemma special_points: "lower_point 105 = 105" "lower_point 775 = 775"
  by code_simp+

subsection \<open>Units\<close>

definition unit_ok :: "string \<Rightarrow> bool" where
  "unit_ok u \<longleftrightarrow> u \<noteq> [] \<and> list_all is_continuation (tl u)"

definition led :: "string \<Rightarrow> bool" where
  "led u \<longleftrightarrow> unit_ok u \<and> \<not> is_continuation (hd u)"

lemma byte_char: "0 \<le> b \<Longrightarrow> b < 256 \<Longrightarrow> byte (char_of b) = b"
  by simp

lemma point_bytes_range: "0 \<le> x \<Longrightarrow> x < 1114112 \<Longrightarrow> b \<in> set (point_bytes x) \<Longrightarrow> 0 \<le> b \<and> b < 256"
  by (auto simp: point_bytes_def split: if_split_asm)

lemma digits_64:
  fixes x :: int
  shows "x div 64 * 64 + x mod 64 = x"
    and "x div 4096 * 4096 + x div 64 mod 64 * 64 + x mod 64 = x"
    and "x div 262144 * 262144 + x div 4096 mod 64 * 4096 + x div 64 mod 64 * 64 + x mod 64 = x"
proof -
  have up: "x div 4096 = x div 64 div 64" "x div 262144 = x div 64 div 64 div 64"
    using zdiv_zmult2_eq [of 64 x 64] zdiv_zmult2_eq [of 64 "x" 4096] zdiv_zmult2_eq [of 64 "x div 64" 64] by simp_all
  define a where "a = x div 64"
  define b where "b = a div 64"
  have one: "x = a * 64 + x mod 64" by (simp add: a_def)
  have two: "a = b * 64 + a mod 64" by (simp add: b_def)
  have three: "b = b div 64 * 64 + b mod 64" by simp
  show "x div 64 * 64 + x mod 64 = x" by simp
  show "x div 4096 * 4096 + x div 64 mod 64 * 64 + x mod 64 = x"
    unfolding up a_def [symmetric] b_def [symmetric] using one two by linarith
  show "x div 262144 * 262144 + x div 4096 mod 64 * 4096 + x div 64 mod 64 * 64 + x mod 64 = x"
    unfolding up a_def [symmetric] b_def [symmetric] using one two three by linarith
qed

lemma raw_point_bytes: "raw_point (point_bytes x) = x"
  using digits_64 [of x] by (simp add: point_bytes_def)

lemma map_byte_encode:
  assumes "0 \<le> x" and "x < 1114112"
  shows "map byte (encode_point x) = point_bytes x"
proof -
  have "map (byte \<circ> char_of) (point_bytes x) = map (\<lambda>b. b) (point_bytes x)"
    by (rule map_cong) (use point_bytes_range [OF assms] in \<open>auto simp: byte_char\<close>)
  then show ?thesis by (simp add: encode_point_def)
qed

lemma decode_encode: "0 \<le> x \<Longrightarrow> x < 1114112 \<Longrightarrow> decode_point (encode_point x) = Some x"
  by (simp add: decode_point_def map_byte_encode raw_point_bytes)

lemma decode_Some: "decode_point u = Some x \<Longrightarrow> 0 \<le> x \<and> x < 1114112 \<and> u = encode_point x"
  by (auto simp: decode_point_def Let_def split: if_split_asm)

lemma led_encode:
  assumes "0 \<le> x" and "x < 1114112"
  shows "led (encode_point x)"
proof -
  have cont: "is_continuation (char_of b) \<longleftrightarrow> 128 \<le> b \<and> b < 192" if "0 \<le> b" "b < 256" for b :: int
    using that by (simp add: is_continuation_def)
  show ?thesis
    using assms by (auto simp: led_def unit_ok_def encode_point_def point_bytes_def cont)
qed

lemma utf8_unit:
  assumes "unit_ok u" and "s = [] \<or> \<not> is_continuation (hd s)"
  shows "utf8_chars (u @ s) = u # utf8_chars s"
proof -
  obtain c cs where u: "u = c # cs" "list_all is_continuation cs" using assms(1) by (cases u) (auto simp: unit_ok_def)
  have "takeWhile is_continuation (cs @ s) = cs" "dropWhile is_continuation (cs @ s) = s"
    using u(2) assms(2) by (cases s; auto simp: takeWhile_append dropWhile_append list_all_iff)+
  with u show ?thesis by simp
qed

lemma concat_led_hd: "list_all led us \<Longrightarrow> concat us = [] \<or> \<not> is_continuation (hd (concat us))"
  by (cases us) (auto simp: led_def unit_ok_def)

lemma utf8_chars_concat:
  "unit_ok u \<Longrightarrow> list_all led us \<Longrightarrow> utf8_chars (concat (u # us)) = u # us"
proof (induction us arbitrary: u)
  case Nil
  then show ?case using utf8_unit [of u "[]"] by simp
next
  case (Cons v vs)
  from Cons.IH [of v] Cons.prems(2) have "utf8_chars (concat (v # vs)) = v # vs" by (simp add: led_def)
  with utf8_unit [OF Cons.prems(1), of "concat (v # vs)"] concat_led_hd [OF Cons.prems(2)] show ?case by simp
qed

lemma utf8_chars_units:
  "case utf8_chars s of [] \<Rightarrow> s = [] | u # us \<Rightarrow> unit_ok u \<and> list_all led us"
proof (induction s rule: utf8_chars.induct)
  case (2 c cs)
  let ?r = "dropWhile is_continuation cs"
  have first: "unit_ok (c # takeWhile is_continuation cs)"
    by (auto simp: unit_ok_def list_all_iff dest: set_takeWhileD)
  have "list_all led (utf8_chars ?r)"
  proof (cases ?r)
    case (Cons d ds)
    then have "\<not> is_continuation d" using hd_dropWhile [of is_continuation cs] by auto
    with 2 Cons show ?thesis by (auto simp: led_def split: list.splits)
  next
    case Nil
    then have "utf8_chars ?r = []" by (simp only: utf8_chars.simps)
    then show ?thesis by simp
  qed
  with first show ?case by simp
qed simp

subsection \<open>Lowered units\<close>

definition lowered :: "string \<Rightarrow> bool" where
  "lowered u \<longleftrightarrow> u \<noteq> capital_sigma \<and> lower_unit u = [u]"

lemma lowered_encode:
  assumes "0 \<le> x" and "x < 1114112" and "x \<noteq> 304" and "x \<noteq> 931" and "lower_point x = x"
  shows "lowered (encode_point x)"
proof -
  have "decode_point capital_sigma = Some 931" by code_simp
  then have "encode_point x \<noteq> capital_sigma" using decode_encode [OF assms(1,2)] assms(4) by auto
  then show ?thesis using decode_encode [OF assms(1,2)] assms(3,5) by (simp add: lowered_def lower_unit_def lower_points_def)
qed

lemma lower_unit_lowered:
  assumes "v \<in> set (lower_unit u)" and "u \<noteq> capital_sigma"
  shows "lowered v"
proof (cases "decode_point u")
  case None
  with assms show ?thesis by (simp add: lowered_def lower_unit_def)
next
  case (Some x)
  note x = decode_Some [OF Some]
  have "encode_point 931 = capital_sigma" by code_simp
  with x assms(2) have "x \<noteq> 931" by auto
  show ?thesis
  proof (cases "x = 304")
    case True
    with assms(1) Some have "v = encode_point 105 \<or> v = encode_point 775" by (auto simp: lower_unit_def lower_points_def)
    then show ?thesis using lowered_encode [of 105] lowered_encode [of 775] special_points by auto
  next
    case False
    with assms(1) Some have "v = encode_point (lower_point x)" by (simp add: lower_unit_def lower_points_def)
    with lower_point_range [of x] x False \<open>x \<noteq> 931\<close> lower_point_fixed show ?thesis by (auto intro: lowered_encode)
  qed
qed

lemma lower_unit_shape:
  "lower_unit u = [u] \<or> (lower_unit u \<noteq> [] \<and> list_all led (lower_unit u))"
proof (cases "decode_point u")
  case None
  then show ?thesis by (simp add: lower_unit_def)
next
  case (Some x)
  note x = decode_Some [OF Some]
  show ?thesis
  proof (cases "x = 304")
    case False
    have "0 \<le> lower_point x \<and> lower_point x < 1114112"
    proof (cases x rule: lower_point_cases)
      case (2 lo hi st d)
      with rule_facts [OF 2(1)] show ?thesis by auto
    qed (use x in simp)
    with False Some show ?thesis by (simp add: lower_unit_def lower_points_def led_encode)
  qed (use Some in \<open>simp add: lower_unit_def lower_points_def led_encode\<close>)
qed

lemma sigma_units: "lowered [CHR 0xCF, CHR 0x82]" "lowered [CHR 0xCF, CHR 0x83]" "led [CHR 0xCF, CHR 0x82]" "led [CHR 0xCF, CHR 0x83]"
  by code_simp+

lemma lower_units_lowered: "v \<in> set (lower_units prev us) \<Longrightarrow> lowered v"
  by (induction prev us rule: lower_units.induct) (auto simp: sigma_units lower_unit_lowered split: if_split_asm)

lemma lower_units_led: "list_all led us \<Longrightarrow> list_all led (lower_units prev us)"
proof (induction prev us rule: lower_units.induct)
  case (2 prev u us)
  then show ?case using lower_unit_shape [of u] by (auto simp: sigma_units)
qed simp

lemma lower_units_keep: "(\<And>v. v \<in> set us \<Longrightarrow> lowered v) \<Longrightarrow> lower_units prev us = us"
  by (induction us arbitrary: prev) (auto simp: lowered_def)

lemma utf8_chars_lower: "utf8_chars (concat (lower_units [] (utf8_chars s))) = lower_units [] (utf8_chars s)"
proof (cases "utf8_chars s")
  case (Cons u us)
  with utf8_chars_units [of s] have units: "unit_ok u" "list_all led us" by auto
  define vs where "vs = (if u = capital_sigma
      then [if then_cased [] \<and> \<not> then_cased us then [CHR 0xCF, CHR 0x82] else [CHR 0xCF, CHR 0x83]] else lower_unit u)"
  have vs: "vs \<noteq> [] \<and> unit_ok (hd vs) \<and> list_all led (tl vs)"
    using lower_unit_shape [of u] units(1) sigma_units by (cases "lower_unit u") (auto simp: vs_def led_def)
  then obtain w ws where w: "vs = w # ws" by (cases vs) auto
  have "lower_units [] (utf8_chars s) = w # ws @ lower_units [u] us" using Cons w by (simp add: vs_def)
  with utf8_chars_concat [of w "ws @ lower_units [u] us"] vs w lower_units_led [OF units(2)] show ?thesis by simp
qed simp

lemma lowered_ascii:
  assumes "lowered [c]" and "byte c < 128"
  shows "ascii_lower c = c"
proof -
  have "encode_point (byte c) = [c]" using assms(2) by (simp add: encode_point_def point_bytes_def)
  then have "decode_point [c] = Some (byte c)" using decode_encode [of "byte c"] assms(2) byte_range by auto
  then have "lower_unit [c] = [encode_point (lower_point (byte c))]"
    using assms(2) by (simp add: lower_unit_def lower_points_def)
  then have "lower_unit [c] = [[ascii_lower c]]"
    using assms(2) by (auto simp: lower_point_ascii encode_point_def point_bytes_def ascii_lower_def is_ascii_uppercase_def)
  with assms(1) show ?thesis by (simp add: lowered_def)
qed

lemma to_lowercase_idem [simp]: "to_lowercase (to_lowercase s) = to_lowercase s"
proof (cases "is_ascii_str s")
  case True
  have "is_ascii_str (to_ascii_lowercase s)"
    using True by (auto simp: is_ascii_str_def to_ascii_lowercase_def byte_ascii_lower is_ascii_uppercase_def)
  with True show ?thesis by (simp add: to_lowercase_def)
next
  case False
  let ?us = "lower_units [] (utf8_chars s)"
  have keep: "lower_units [] (utf8_chars (concat ?us)) = ?us"
    unfolding utf8_chars_lower by (rule lower_units_keep) (rule lower_units_lowered)
  have "to_lowercase (concat ?us) = concat ?us"
  proof (cases "is_ascii_str (concat ?us)")
    case True
    then have "utf8_chars (concat ?us) = map (\<lambda>c. [c]) (concat ?us)" by (rule utf8_chars_ascii)
    then have "?us = map (\<lambda>c. [c]) (concat ?us)" by (simp only: utf8_chars_lower)
    then have "lowered [c]" if "c \<in> set (concat ?us)" for c
      using that lower_units_lowered [of "[c]" "[]" "utf8_chars s"] by (metis (no_types, lifting) image_eqI list.set_map)
    with True have "to_ascii_lowercase (concat ?us) = concat ?us"
      unfolding to_ascii_lowercase_def is_ascii_str_def by (intro map_idI) (blast intro: lowered_ascii)
    with True show ?thesis by (simp add: to_lowercase_def)
  next
    case False
    with keep show ?thesis by (simp add: to_lowercase_def)
  qed
  with False show ?thesis by (simp add: to_lowercase_def)
qed

lemma to_lowercase_Nil [simp]: "to_lowercase [] = []"
  by (simp add: to_lowercase_def to_ascii_lowercase_def is_ascii_str_def)

lemma lower_unit_not_Nil: "u \<noteq> [] \<Longrightarrow> concat (lower_unit u) \<noteq> []"
proof -
  assume u: "u \<noteq> []"
  have "v \<noteq> []" if "v \<in> set (lower_unit u)" for v
    using lower_unit_shape [of u] u that by (auto simp: list_all_iff led_def unit_ok_def)
  moreover have "lower_unit u \<noteq> []" using lower_unit_shape [of u] by auto
  ultimately show ?thesis by (cases "lower_unit u") auto
qed

lemma to_lowercase_eq_Nil [simp]: "to_lowercase s = [] \<longleftrightarrow> s = []"
proof (cases "is_ascii_str s")
  case True
  then show ?thesis by (simp add: to_lowercase_def to_ascii_lowercase_def)
next
  case False
  then obtain c cs where s: "s = c # cs" by (cases s) (auto simp: is_ascii_str_def)
  have "concat (lower_units [] (utf8_chars s)) \<noteq> []"
    using lower_unit_not_Nil by (simp add: s)
  with False s show ?thesis by (simp add: to_lowercase_def)
qed

subsection \<open>Tags\<close>

text \<open>
  The Kelvin sign is the letter k; no other scalar value beyond ASCII is lowered to ASCII text. So
  ASCII text is compared the same way by \<open>to_lowercase\<close> and by \<open>eq_ignore_ascii_case\<close>, with any text
  that does not hold a Kelvin sign.
\<close>

definition kelvin_sign :: string where
  "kelvin_sign = [CHR 0xE2, CHR 0x84, CHR 0xAA]"

lemma kelvin_lower: "to_lowercase kelvin_sign = ''k''"
  by code_simp

lemma rules_to_ascii:
  "list_all (\<lambda>(lo, hi, st, d). hi < 128 \<or> 128 \<le> lo + d \<or> lo = 8490 \<and> hi = 8490) lower_rules"
  by code_simp

lemma lower_point_beyond:
  assumes "128 \<le> x" and "x \<noteq> 8490"
  shows "128 \<le> lower_point x"
proof (cases x rule: lower_point_cases)
  case (2 lo hi st d)
  have "hi < 128 \<or> 128 \<le> lo + d \<or> lo = 8490 \<and> hi = 8490" using rules_to_ascii 2(1) by (auto simp: list_all_iff)
  moreover have "lo \<le> x" "x \<le> hi" using 2(2) by auto
  ultimately show ?thesis using assms 2(3) by auto
qed (use assms in simp)

lemma encode_beyond:
  assumes "128 \<le> x" and "x < 1114112"
  shows "\<not> is_ascii_str (encode_point x)"
proof -
  have "128 + x mod 64 \<in> set (point_bytes x)" using assms(1) by (simp add: point_bytes_def)
  then have "char_of (128 + x mod 64) \<in> set (encode_point x)" by (simp only: encode_point_def list.set_map) (rule imageI)
  moreover have "byte (char_of (128 + x mod 64)) = 128 + x mod 64" by (rule byte_char) simp_all
  ultimately show ?thesis unfolding is_ascii_str_def by fastforce
qed

lemma lower_unit_beyond:
  assumes "\<not> is_ascii_str u" and "u \<noteq> kelvin_sign"
  shows "\<exists>v \<in> set (lower_unit u). \<not> is_ascii_str v"
proof (cases "decode_point u")
  case None
  with assms(1) show ?thesis by (simp add: lower_unit_def)
next
  case (Some x)
  note x = decode_Some [OF Some]
  have "128 \<le> x"
  proof (rule ccontr)
    assume "\<not> 128 \<le> x"
    with x have "u = [char_of x]" "byte (char_of x) < 128" by (simp_all add: encode_point_def point_bytes_def)
    with assms(1) show False by (simp add: is_ascii_str_def)
  qed
  have "encode_point 8490 = kelvin_sign" by code_simp
  with x assms(2) have "x \<noteq> 8490" by auto
  show ?thesis
  proof (cases "x = 304")
    case True
    with Some encode_beyond [of 775] show ?thesis by (simp add: lower_unit_def lower_points_def)
  next
    case False
    have "lower_point x < 1114112"
    proof (cases x rule: lower_point_cases)
      case (2 lo hi st d)
      with rule_facts [OF 2(1)] show ?thesis by auto
    qed (use x in simp)
    with False Some encode_beyond [OF lower_point_beyond [OF \<open>128 \<le> x\<close> \<open>x \<noteq> 8490\<close>]] show ?thesis
      by (simp add: lower_unit_def lower_points_def)
  qed
qed

lemma lower_units_beyond:
  "u \<in> set us \<Longrightarrow> \<not> is_ascii_str u \<Longrightarrow> u \<noteq> kelvin_sign \<Longrightarrow> \<exists>v \<in> set (lower_units prev us). \<not> is_ascii_str v"
proof (induction prev us rule: lower_units.induct)
  case (2 prev w us)
  have sigma: "\<not> is_ascii_str [CHR 0xCF, CHR 0x82]" "\<not> is_ascii_str [CHR 0xCF, CHR 0x83]" by code_simp+
  show ?case
  proof (cases "u = w")
    case True
    with sigma lower_unit_beyond [of w] "2.prems"(2,3) show ?thesis by fastforce
  next
    case False
    with "2.prems"(1) have "u \<in> set us" by simp
    from "2.IH" [OF this "2.prems"(2,3)] show ?thesis by fastforce
  qed
qed simp

lemma lower_beyond:
  assumes "\<not> is_ascii_str s" and "kelvin_sign \<notin> set (utf8_chars s)"
  shows "\<not> is_ascii_str (to_lowercase s)"
proof -
  have "concat (utf8_chars s) = s" by simp
  with assms(1) obtain u where "u \<in> set (utf8_chars s)" "\<not> is_ascii_str u"
    unfolding is_ascii_str_def by (metis UN_E set_concat)
  with lower_units_beyond [of u "utf8_chars s" "[]"] assms(2)
  obtain v where "v \<in> set (lower_units [] (utf8_chars s))" "\<not> is_ascii_str v" by auto
  then have "\<not> is_ascii_str (concat (lower_units [] (utf8_chars s)))" by (auto simp: is_ascii_str_def)
  with assms(1) show ?thesis by (simp add: to_lowercase_def)
qed

lemma ascii_to_lower: "is_ascii_str (to_ascii_lowercase s) \<longleftrightarrow> is_ascii_str s"
  by (auto simp: is_ascii_str_def to_ascii_lowercase_def byte_ascii_lower is_ascii_uppercase_def split: if_split_asm)

lemma lower_eq_ascii:
  assumes "is_ascii_str x" and "kelvin_sign \<notin> set (utf8_chars s)"
  shows "to_lowercase s = to_lowercase x \<longleftrightarrow> eq_ignore_ascii_case s x"
proof (cases "is_ascii_str s")
  case True
  with assms(1) show ?thesis by (simp add: lower_ascii eq_ignore_ascii_case_def)
next
  case False
  with lower_beyond [OF this assms(2)] assms(1) have "to_lowercase s \<noteq> to_lowercase x"
    by (auto simp: lower_ascii ascii_to_lower)
  moreover have "\<not> eq_ignore_ascii_case s x"
    using False assms(1) ascii_to_lower [of s] ascii_to_lower [of x] by (auto simp: eq_ignore_ascii_case_def)
  ultimately show ?thesis by simp
qed

end
