(* ===== verification/Cookie.thy ===== *)
theory Cookie
  imports IpFilter WebUrl UnicodeCase "HOL-Library.Multiset"
begin

text \<open>
  \<open>oxibrowser-core/src/network/cookie.rs\<close>: parsing of \<open>Set-Cookie\<close>, the RFC 6265
  matching rules, and the jar with its limits, its expiry rules and the selection of the
  cookies sent with a request. The jar is a dictionary from a storage domain to its cookies in
  insertion order; the order of the buckets stands for the iteration order of the
  \<open>HashMap\<close>. The clock and the crates \<open>httpdate\<close> and \<open>psl\<close> are the environment
  argument. Reading and writing the jar as a JSON file is not modelled.
\<close>

section \<open>Entries and their parser\<close>

datatype same_site = Strict | Lax | SameSiteNone

datatype same_site_context = SameOrigin | CrossSiteSafe | CrossSiteUnsafe

definition MAX_COOKIES_PER_DOMAIN :: nat where "MAX_COOKIES_PER_DOMAIN = 50"
definition MAX_TOTAL_COOKIES :: nat where "MAX_TOTAL_COOKIES = 3000"
definition MAX_COOKIE_VALUE_SIZE :: nat where "MAX_COOKIE_VALUE_SIZE = 4096"

record cookie_entry =
  ck_name :: string
  ck_value :: string
  ck_path :: "string option"
  ck_domain :: "string option"
  ck_secure :: bool
  ck_http_only :: bool
  ck_same_site :: "same_site option"
  ck_expires :: "int option"
  ck_max_age :: "int option"
  ck_expiry :: "int option"
  ck_partitioned :: bool
  ck_partition_key :: "string option"

definition bare_entry :: "string \<Rightarrow> string \<Rightarrow> cookie_entry" where
  "bare_entry n v =
     \<lparr>ck_name = n, ck_value = v, ck_path = None, ck_domain = None, ck_secure = False,
      ck_http_only = False, ck_same_site = None, ck_expires = None, ck_max_age = None,
      ck_expiry = None, ck_partitioned = False, ck_partition_key = None\<rparr>"

text \<open>
  The slice \<open>s[..prefix.len()]\<close> panics when the prefix length is not a character boundary
  of \<open>s\<close>.
\<close>

definition strip_prefix_case_insensitive :: "string \<Rightarrow> string \<Rightarrow> string option run" where
  "strip_prefix_case_insensitive s p =
     (if length p \<le> length s
      then (if \<not> is_char_boundary s (length p) then Panic
            else if eq_ignore_ascii_case (take (length p) s) p then Ret (Some (drop (length p) s))
            else Ret None)
      else Ret None)"

definition parse_http_date :: "web_env \<Rightarrow> string \<Rightarrow> int option" where
  "parse_http_date env s = map_option (\<lambda>t. if t < 0 then 0 else t) (httpdate env s)"

definition parse_same_site :: "string \<Rightarrow> same_site option" where
  "parse_same_site v =
     (if eq_ignore_ascii_case v ''strict'' then Some Strict
      else if eq_ignore_ascii_case v ''lax'' then Some Lax
      else if eq_ignore_ascii_case v ''none'' then Some SameSiteNone
      else None)"

text \<open>The attributes that carry a value, in the order the code tries their prefixes.\<close>

type_synonym attr_rule = "string \<times> (string \<Rightarrow> cookie_entry \<Rightarrow> cookie_entry)"

definition valued_attrs :: "web_env \<Rightarrow> attr_rule list" where
  "valued_attrs env =
     [(''Path='', \<lambda>v e. e\<lparr>ck_path := Some v\<rparr>),
      (''Domain='', \<lambda>v e. e\<lparr>ck_domain := Some v\<rparr>),
      (''Max-Age='', \<lambda>v e. e\<lparr>ck_max_age := parse_sint 64 (str_trim v)\<rparr>),
      (''Expires='', \<lambda>v e. e\<lparr>ck_expires := parse_http_date env (str_trim v)\<rparr>),
      (''SameSite='', \<lambda>v e. e\<lparr>ck_same_site := parse_same_site v\<rparr>)]"

fun try_attrs :: "attr_rule list \<Rightarrow> string \<Rightarrow> cookie_entry \<Rightarrow> cookie_entry run" where
  "try_attrs [] a e = Ret e"
| "try_attrs ((p, upd) # rules) a e =
     run_bind (strip_prefix_case_insensitive a p)
       (\<lambda>r. case r of Some v \<Rightarrow> Ret (upd v e) | None \<Rightarrow> try_attrs rules a e)"

definition parse_attr :: "web_env \<Rightarrow> string \<Rightarrow> cookie_entry \<Rightarrow> cookie_entry run" where
  "parse_attr env part e =
     (let a = str_trim part
      in if eq_ignore_ascii_case a ''secure'' then Ret (e\<lparr>ck_secure := True\<rparr>)
         else if eq_ignore_ascii_case a ''httponly'' then Ret (e\<lparr>ck_http_only := True\<rparr>)
         else if eq_ignore_ascii_case a ''partitioned'' then Ret (e\<lparr>ck_partitioned := True\<rparr>)
         else try_attrs (valued_attrs env) a e)"

fun parse_attr_list :: "web_env \<Rightarrow> string list \<Rightarrow> cookie_entry \<Rightarrow> cookie_entry run" where
  "parse_attr_list env [] e = Ret e"
| "parse_attr_list env (p # ps) e = run_bind (parse_attr env p e) (parse_attr_list env ps)"

definition parse_cookie :: "web_env \<Rightarrow> string \<Rightarrow> cookie_entry option run" where
  "parse_cookie env header =
     (let parts = split_on (CHR '';'') header
      in case split_once (CHR ''='') (str_trim (hd parts)) of
           None \<Rightarrow> Ret None
         | Some (n, v) \<Rightarrow>
             run_bind (parse_attr_list env (tl parts) (bare_entry (str_trim n) (str_trim v)))
               (\<lambda>e. Ret (Some e)))"

definition to_cookie_header :: "cookie_entry \<Rightarrow> string" where
  "to_cookie_header e = ck_name e @ ''='' @ ck_value e"

section \<open>Matching rules\<close>

definition is_expired :: "web_env \<Rightarrow> cookie_entry \<Rightarrow> bool" where
  "is_expired env c = (case ck_expiry c of Some exp \<Rightarrow> exp \<le> now_secs env | None \<Rightarrow> False)"

definition is_public_suffix :: "web_env \<Rightarrow> string \<Rightarrow> bool" where
  "is_public_suffix env d =
     (case psl_suffix env d of Some s \<Rightarrow> eq_ignore_ascii_case s d | None \<Rightarrow> False)"

definition is_ip_address :: "string \<Rightarrow> bool" where
  "is_ip_address host =
     (if parse_ip host \<noteq> None then True
      else parse_ip (trim_end_char (CHR '']'') (trim_start_char (CHR ''['') host)) \<noteq> None)"

definition registrable_domain :: "web_env \<Rightarrow> string \<Rightarrow> string" where
  "registrable_domain env host =
     (if is_ip_address host then to_lowercase host
      else case psl_domain env host of Some d \<Rightarrow> to_lowercase d | None \<Rightarrow> to_lowercase host)"

definition is_trustworthy_origin :: "url \<Rightarrow> bool" where
  "is_trustworthy_origin u =
     (if url_scheme u = ''https'' then True
      else url_host_str u \<in> {Some ''localhost'', Some ''127.0.0.1'', Some ''::1''})"

definition default_path :: "string \<Rightarrow> string" where
  "default_path p =
     (if p = [] \<or> \<not> starts_with p ''/'' then ''/''
      else if CHR ''/'' \<in> set p
           then (let q = dropWhile_end (\<lambda>c. c \<noteq> CHR ''/'') p in if q = ''/'' then ''/'' else q)
           else ''/'')"

definition domain_matches :: "string \<Rightarrow> string \<Rightarrow> bool" where
  "domain_matches host cookie_domain =
     (let h = to_lowercase host; d = to_lowercase cookie_domain
      in if h = d then True
         else if ends_with h (''.'' @ d) then (if \<not> is_ip_address h then True else False)
         else False)"

definition cookie_path_matches :: "string \<Rightarrow> string \<Rightarrow> bool" where
  "cookie_path_matches request_path cookie_path =
     (if cookie_path = [] \<or> cookie_path = ''/'' then True
      else if request_path = cookie_path then True
      else if starts_with request_path cookie_path
           then (if ends_with cookie_path ''/'' then True
                 else length cookie_path < length request_path
                      \<and> request_path ! length cookie_path = CHR ''/'')
           else False)"

section \<open>The jar\<close>

type_synonym jar = "(string, cookie_entry list) dict"

definition bucket :: "jar \<Rightarrow> string \<Rightarrow> cookie_entry list" where
  "bucket j d = (case dict_get j d of Some es \<Rightarrow> es | None \<Rightarrow> [])"

definition total_count :: "jar \<Rightarrow> nat" where
  "total_count j = sum_list (map (\<lambda>(d, es). length es) j)"

definition same_cookie :: "string \<Rightarrow> string option \<Rightarrow> cookie_entry \<Rightarrow> bool" where
  "same_cookie n p c \<longleftrightarrow> ck_name c = n \<and> ck_path c = p"

fun replace_first :: "('a \<Rightarrow> bool) \<Rightarrow> 'a \<Rightarrow> 'a list \<Rightarrow> 'a list" where
  "replace_first P y [] = []"
| "replace_first P y (x # xs) = (if P x then y # xs else x # replace_first P y xs)"

definition evict_other :: "string \<Rightarrow> jar \<Rightarrow> jar" where
  "evict_other d j =
     (case find (\<lambda>(k, es). es \<noteq> [] \<and> k \<noteq> d) j of
        Some (k, es) \<Rightarrow> dict_insert k (tl es) j
      | None \<Rightarrow> j)"

text \<open>
  \<open>commit_entry\<close>: replace the cookie with the same name and path in the bucket, or append it,
  evicting from another bucket at the total limit and the oldest of the bucket at its limit.
\<close>

definition commit_entry :: "cookie_entry \<Rightarrow> string \<Rightarrow> jar \<Rightarrow> jar" where
  "commit_entry e d j =
     (if \<exists>c \<in> set (bucket j d). same_cookie (ck_name e) (ck_path e) c
      then dict_insert d (replace_first (same_cookie (ck_name e) (ck_path e)) e (bucket j d)) j
      else (let j1 = (if MAX_TOTAL_COOKIES \<le> total_count j then evict_other d j else j);
                es = bucket j1 d;
                es1 = (if MAX_COOKIES_PER_DOMAIN \<le> length es then tl es else es)
            in dict_insert d (es1 @ [e]) j1))"

definition drop_empty :: "jar \<Rightarrow> jar" where
  "drop_empty j = filter (\<lambda>(d, es). es \<noteq> []) j"

definition remove_matching :: "string \<Rightarrow> string \<Rightarrow> string option \<Rightarrow> jar \<Rightarrow> jar" where
  "remove_matching d n p j =
     drop_empty
       (case dict_get j d of
          Some es \<Rightarrow> dict_insert d (filter (\<lambda>c. \<not> same_cookie n p c) es) j
        | None \<Rightarrow> j)"

text \<open>\<open>i64::saturating_add\<close> and the absolute expiry of \<open>store\<close> and \<open>insert_entry\<close>.\<close>

definition sat_add_i64 :: "int \<Rightarrow> int \<Rightarrow> int" where
  "sat_add_i64 a b = max (- (2 ^ 63)) (min (2 ^ 63 - 1) (a + b))"

definition truncate_value :: "cookie_entry \<Rightarrow> cookie_entry run" where
  "truncate_value e =
     (if MAX_COOKIE_VALUE_SIZE < length (ck_value e)
      then (if is_char_boundary (ck_value e) MAX_COOKIE_VALUE_SIZE
            then Ret (e\<lparr>ck_value := take MAX_COOKIE_VALUE_SIZE (ck_value e)\<rparr>)
            else Panic)
      else Ret e)"

definition new_expiry :: "web_env \<Rightarrow> cookie_entry \<Rightarrow> int option" where
  "new_expiry env e =
     (case ck_max_age e of
        Some max_age \<Rightarrow> Some (sat_add_i64 (now_secs env) max_age)
      | None \<Rightarrow> ck_expires e)"

definition expire_or_commit :: "web_env \<Rightarrow> string \<Rightarrow> cookie_entry \<Rightarrow> jar \<Rightarrow> jar" where
  "expire_or_commit env d e j =
     (if (case ck_max_age e of Some max_age \<Rightarrow> max_age \<le> 0 | None \<Rightarrow> False)
      then remove_matching d (ck_name e) (ck_path e) j
      else (let e1 = e\<lparr>ck_expiry := new_expiry env e\<rparr>
            in if is_expired env e1 then remove_matching d (ck_name e) (ck_path e) j
               else commit_entry e1 d j))"

definition prefix_ok :: "cookie_entry \<Rightarrow> bool" where
  "prefix_ok e =
     (if starts_with (ck_name e) ''__Secure-'' then ck_secure e
      else if starts_with (ck_name e) ''__Host-''
           then ck_secure e \<and> ck_path e = Some ''/'' \<and> ck_domain e = None
           else True)"

definition host_or_unknown :: "url \<Rightarrow> string" where
  "host_or_unknown u = (case url_host_str u of Some h \<Rightarrow> h | None \<Rightarrow> ''unknown'')"

text \<open>The storage domain of \<open>store\<close>; \<open>None\<close> is the early return that rejects it.\<close>

definition canonical_domain :: "string \<Rightarrow> string" where
  "canonical_domain d = to_lowercase (trim_start_char (CHR ''.'') d)"

definition storage_domain :: "web_env \<Rightarrow> url \<Rightarrow> cookie_entry \<Rightarrow> string option" where
  "storage_domain env u e =
     (case ck_domain e of
        Some cd \<Rightarrow>
          (let canonical = canonical_domain cd
           in if \<not> domain_matches (host_or_unknown u) canonical then None
              else if is_public_suffix env canonical then None
              else Some canonical)
      | None \<Rightarrow> Some (to_lowercase (host_or_unknown u)))"

definition with_partition :: "web_env \<Rightarrow> string \<Rightarrow> cookie_entry \<Rightarrow> cookie_entry" where
  "with_partition env d e =
     (if ck_partitioned e then e\<lparr>ck_partition_key := Some (registrable_domain env d)\<rparr> else e)"

definition with_path :: "string \<Rightarrow> cookie_entry \<Rightarrow> cookie_entry" where
  "with_path dflt e = (if ck_path e = None \<or> ck_path e = Some [] then e\<lparr>ck_path := Some dflt\<rparr> else e)"

definition store_entry :: "web_env \<Rightarrow> url \<Rightarrow> cookie_entry \<Rightarrow> jar \<Rightarrow> jar" where
  "store_entry env u e j =
     (if \<not> prefix_ok e then j
      else case storage_domain env u e of
             None \<Rightarrow> j
           | Some d \<Rightarrow>
               expire_or_commit env d
                 (with_path (default_path (url_path u))
                   (with_partition env d (e\<lparr>ck_domain := Some d\<rparr>))) j)"

definition store_cookie :: "web_env \<Rightarrow> url \<Rightarrow> string \<Rightarrow> jar \<Rightarrow> jar run" where
  "store_cookie env u header j =
     run_bind (parse_cookie env header)
       (\<lambda>r. run_bind (truncate_value (case r of Some e \<Rightarrow> e | None \<Rightarrow> bare_entry header []))
              (\<lambda>e. Ret (store_entry env u e j)))"

definition insert_domain :: "cookie_entry \<Rightarrow> string" where
  "insert_domain e = (case ck_domain e of Some cd \<Rightarrow> canonical_domain cd | None \<Rightarrow> ''unknown'')"

definition insert_entry :: "web_env \<Rightarrow> cookie_entry \<Rightarrow> jar \<Rightarrow> jar run" where
  "insert_entry env e j =
     (if ck_name e = [] then Ret j
      else run_bind (truncate_value e)
             (\<lambda>e. let d = insert_domain e
                  in Ret (expire_or_commit env d
                       (with_path ''/'' (with_partition env d (e\<lparr>ck_domain := Some d\<rparr>))) j)))"

section \<open>Selection\<close>

definition same_site_sends :: "same_site_context \<Rightarrow> cookie_entry \<Rightarrow> bool" where
  "same_site_sends ctx c =
     (case ck_same_site c of
        Some Strict \<Rightarrow> \<not> (ctx \<noteq> SameOrigin)
      | Some Lax \<Rightarrow> \<not> (ctx = CrossSiteUnsafe)
      | Some SameSiteNone \<Rightarrow> True
      | None \<Rightarrow> True)"

definition ck_path_or_root :: "cookie_entry \<Rightarrow> string" where
  "ck_path_or_root c = (case ck_path c of Some p \<Rightarrow> p | None \<Rightarrow> ''/'')"

definition lower_host :: "url \<Rightarrow> string" where
  "lower_host u = to_lowercase (host_or_unknown u)"

definition bucket_matches :: "string \<Rightarrow> string \<Rightarrow> bool" where
  "bucket_matches host d \<longleftrightarrow> \<not> (\<not> domain_matches host d \<and> d \<noteq> host)"

fun select_http :: "web_env \<Rightarrow> url \<Rightarrow> same_site_context \<Rightarrow> cookie_entry list \<Rightarrow> cookie_entry list" where
  "select_http env u ctx [] = []"
| "select_http env u ctx (c # cs) =
     (if is_expired env c then select_http env u ctx cs
      else if ck_secure c \<and> \<not> is_trustworthy_origin u then select_http env u ctx cs
      else if \<not> cookie_path_matches (url_path u) (ck_path_or_root c) then select_http env u ctx cs
      else if \<not> same_site_sends ctx c then select_http env u ctx cs
      else c # select_http env u ctx cs)"

definition by_path_length :: "cookie_entry list \<Rightarrow> cookie_entry list" where
  "by_path_length cs = sort_key (\<lambda>c. - int (length (ck_path_or_root c))) cs"

definition http_cookies :: "web_env \<Rightarrow> jar \<Rightarrow> url \<Rightarrow> same_site_context \<Rightarrow> cookie_entry list" where
  "http_cookies env j u ctx =
     by_path_length
       (concat (map (\<lambda>(d, es). if bucket_matches (lower_host u) d then select_http env u ctx es else []) j))"

definition cookies_for_url_with_context ::
    "web_env \<Rightarrow> jar \<Rightarrow> url \<Rightarrow> same_site_context \<Rightarrow> string" where
  "cookies_for_url_with_context env j u ctx =
     join_with ''; '' (map to_cookie_header (http_cookies env j u ctx))"

definition cookies_for_url :: "web_env \<Rightarrow> jar \<Rightarrow> url \<Rightarrow> string" where
  "cookies_for_url env j u = cookies_for_url_with_context env j u SameOrigin"

fun select_js :: "web_env \<Rightarrow> url \<Rightarrow> cookie_entry list \<Rightarrow> cookie_entry list" where
  "select_js env u [] = []"
| "select_js env u (c # cs) =
     (if is_expired env c then select_js env u cs
      else if ck_http_only c then select_js env u cs
      else if ck_secure c \<and> \<not> is_trustworthy_origin u then select_js env u cs
      else if \<not> cookie_path_matches (url_path u) (ck_path_or_root c) then select_js env u cs
      else c # select_js env u cs)"

definition js_cookies :: "web_env \<Rightarrow> jar \<Rightarrow> url \<Rightarrow> cookie_entry list" where
  "js_cookies env j u =
     by_path_length
       (concat (map (\<lambda>(d, es). if bucket_matches (lower_host u) d then select_js env u es else []) j))"

definition cookies_for_js :: "web_env \<Rightarrow> jar \<Rightarrow> url \<Rightarrow> string" where
  "cookies_for_js env j u = join_with ''; '' (map to_cookie_header (js_cookies env j u))"

section \<open>Removal\<close>

definition jar_clear :: "jar \<Rightarrow> jar" where
  "jar_clear j = []"

definition clear_and_count :: "jar \<Rightarrow> nat \<times> jar" where
  "clear_and_count j = (length j, [])"

definition get_all :: "jar \<Rightarrow> cookie_entry list" where
  "get_all j = concat (map snd j)"

definition keeps_cookie :: "url \<Rightarrow> string \<Rightarrow> cookie_entry \<Rightarrow> bool" where
  "keeps_cookie u n c =
     (if ck_name c \<noteq> n then True
      else (case (ck_domain c, url_domain u) of
              (Some cd, Some ud) \<Rightarrow> \<not> starts_with cd ''.'' \<and> cd \<noteq> ud
            | _ \<Rightarrow> False))"

definition jar_remove :: "url \<Rightarrow> string \<Rightarrow> jar \<Rightarrow> jar" where
  "jar_remove u n j = drop_empty (map (\<lambda>(d, es). (d, filter (keeps_cookie u n) es)) j)"

section \<open>The jar's invariant\<close>

text \<open>
  The limits of RFC 6265 that the code enforces, and the shape it relies on: one bucket per
  (lower-case) domain, in it at most one cookie per name and path, each stored under its own
  domain attribute, with a value of at most 4096 bytes.
\<close>

definition cookie_ok :: "string \<Rightarrow> cookie_entry \<Rightarrow> bool" where
  "cookie_ok d c \<longleftrightarrow> ck_domain c = Some d \<and> length (ck_value c) \<le> MAX_COOKIE_VALUE_SIZE"

definition cookie_ident :: "cookie_entry \<Rightarrow> string \<times> string option" where
  "cookie_ident c = (ck_name c, ck_path c)"

definition bucket_ok :: "string \<Rightarrow> cookie_entry list \<Rightarrow> bool" where
  "bucket_ok d es \<longleftrightarrow> length es \<le> MAX_COOKIES_PER_DOMAIN \<and> distinct (map cookie_ident es)
     \<and> (\<forall>c \<in> set es. cookie_ok d c) \<and> to_lowercase d = d"

definition jar_ok :: "jar \<Rightarrow> bool" where
  "jar_ok j \<longleftrightarrow> dict_ok j \<and> (\<forall>(d, es) \<in> set j. bucket_ok d es) \<and> total_count j \<le> MAX_TOTAL_COOKIES"

lemmas limit_defs = MAX_COOKIES_PER_DOMAIN_def MAX_TOTAL_COOKIES_def MAX_COOKIE_VALUE_SIZE_def

lemma jar_ok_get: "jar_ok j \<Longrightarrow> dict_get j d = Some es \<Longrightarrow> bucket_ok d es"
  by (auto simp: jar_ok_def dest!: map_of_SomeD)

lemma jar_ok_bucket: "jar_ok j \<Longrightarrow> to_lowercase d = d \<Longrightarrow> bucket_ok d (bucket j d)"
  by (auto simp: bucket_def bucket_ok_def dest: jar_ok_get split: option.splits)

lemma jar_okI:
  assumes "dict_ok j" and "\<And>d es. dict_get j d = Some es \<Longrightarrow> bucket_ok d es"
    and "total_count j \<le> MAX_TOTAL_COOKIES"
  shows "jar_ok j"
  using assms by (auto simp: jar_ok_def)

lemma bucket_insert: "bucket (dict_insert d es j) k = (if k = d then es else bucket j k)"
  by (simp add: bucket_def dict_get_insert)

lemma total_count_Nil [simp]: "total_count [] = 0"
  by (simp add: total_count_def)

lemma total_count_Cons [simp]: "total_count ((d, es) # j) = length es + total_count j"
  by (simp add: total_count_def)

lemma total_count_insert:
  "total_count (dict_insert d es j) + length (bucket j d) = total_count j + length es"
proof (induction j)
  case (Cons p j)
  then show ?case by (cases p) (auto simp: bucket_def)
qed (simp add: bucket_def)

lemma bucket_le_total: "length (bucket j d) \<le> total_count j"
proof (induction j)
  case (Cons p j)
  then show ?case by (cases p) (auto simp: bucket_def)
qed (simp add: bucket_def)

lemma total_count_only: "dict_ok j \<Longrightarrow> (\<And>k es. (k, es) \<in> set j \<Longrightarrow> k \<noteq> d \<Longrightarrow> es = []) \<Longrightarrow>
    total_count j = length (bucket j d)"
proof (induction j)
  case (Cons p j)
  obtain k es where p: "p = (k, es)" by fastforce
  have IH: "total_count j = length (bucket j d)"
    using Cons.prems p by (intro Cons.IH) auto
  show ?case
  proof (cases "k = d")
    case True
    then have "d \<notin> fst ` set j" using Cons.prems(1) p by auto
    then have "map_of j d = None" by (simp add: map_of_eq_None_iff)
    then have "bucket j d = []" by (simp add: bucket_def)
    with True IH p show ?thesis by (simp add: bucket_def)
  next
    case False
    then have "es = []" using Cons.prems(2) p by auto
    with False IH p show ?thesis by (simp add: bucket_def)
  qed
qed (simp add: bucket_def)

subsection \<open>Replacing in a bucket\<close>

lemma length_replace_first [simp]: "length (replace_first P y xs) = length xs"
  by (induction xs) auto

lemma set_replace_first: "set (replace_first P y xs) \<subseteq> insert y (set xs)"
  by (induction xs) auto

lemma replace_first_in: "\<exists>x \<in> set xs. P x \<Longrightarrow> y \<in> set (replace_first P y xs)"
  by (induction xs) auto

lemma map_replace_first:
  assumes "\<And>x. x \<in> set xs \<Longrightarrow> P x \<Longrightarrow> f x = f y"
  shows "map f (replace_first P y xs) = map f xs"
  using assms by (induction xs) auto

lemma same_cookie_ident: "same_cookie (ck_name e) (ck_path e) c \<longleftrightarrow> cookie_ident c = cookie_ident e"
  by (auto simp: same_cookie_def cookie_ident_def)

lemma bucket_ok_replace:
  "bucket_ok d es \<Longrightarrow> cookie_ok d e
    \<Longrightarrow> bucket_ok d (replace_first (same_cookie (ck_name e) (ck_path e)) e es)"
  using set_replace_first [of "same_cookie (ck_name e) (ck_path e)" e es]
    map_replace_first [of es "same_cookie (ck_name e) (ck_path e)" cookie_ident e]
  by (auto simp: bucket_ok_def same_cookie_ident)

lemma bucket_ok_tl: "bucket_ok d es \<Longrightarrow> bucket_ok d (tl es)"
  by (cases es) (auto simp: bucket_ok_def)

lemma bucket_ok_snoc:
  assumes "bucket_ok d es" and "length es < MAX_COOKIES_PER_DOMAIN" and "cookie_ok d e"
    and "\<not> (\<exists>c \<in> set es. same_cookie (ck_name e) (ck_path e) c)"
  shows "bucket_ok d (es @ [e])"
  using assms by (auto simp: bucket_ok_def same_cookie_ident)

lemma bucket_ok_filter: "bucket_ok d es \<Longrightarrow> bucket_ok d (filter P es)"
  unfolding bucket_ok_def
  by (auto simp: distinct_map inj_on_def intro: order_trans [OF length_filter_le])

subsection \<open>Every operation keeps the invariant\<close>

lemma jar_ok_Nil: "jar_ok []"
  by (simp add: jar_ok_def)

lemma jar_ok_insert:
  assumes "jar_ok j" and "bucket_ok d es"
    and "total_count j + length es \<le> MAX_TOTAL_COOKIES + length (bucket j d)"
  shows "jar_ok (dict_insert d es j)"
proof (rule jar_okI)
  show "dict_ok (dict_insert d es j)" using assms(1) by (simp add: jar_ok_def dict_ok_insert)
  show "total_count (dict_insert d es j) \<le> MAX_TOTAL_COOKIES"
    using total_count_insert [of d es j] assms(3) by linarith
  fix k fs
  assume "dict_get (dict_insert d es j) k = Some fs"
  then show "bucket_ok k fs"
    using assms(1,2) by (auto simp: dict_get_insert split: if_splits dest: jar_ok_get)
qed

lemma evict_other:
  assumes "jar_ok j"
  shows "jar_ok (evict_other d j)" "bucket (evict_other d j) d = bucket j d"
    "MAX_TOTAL_COOKIES \<le> total_count j \<Longrightarrow> total_count (evict_other d j) < MAX_TOTAL_COOKIES
      \<or> MAX_COOKIES_PER_DOMAIN < length (bucket j d)"
proof -
  consider "find (\<lambda>(k, es). es \<noteq> [] \<and> k \<noteq> d) j = None"
    | k es where "find (\<lambda>(k, es). es \<noteq> [] \<and> k \<noteq> d) j = Some (k, es)"
    by (cases "find (\<lambda>(k, es). es \<noteq> [] \<and> k \<noteq> d) j") auto
  then have "jar_ok (evict_other d j) \<and> bucket (evict_other d j) d = bucket j d
      \<and> (MAX_TOTAL_COOKIES \<le> total_count j \<longrightarrow> total_count (evict_other d j) < MAX_TOTAL_COOKIES
          \<or> MAX_COOKIES_PER_DOMAIN < length (bucket j d))"
  proof cases
    case 1
    then have "total_count j = length (bucket j d)"
      using assms by (intro total_count_only) (auto simp: find_None_iff jar_ok_def)
    with 1 assms show ?thesis by (simp add: evict_other_def limit_defs)
  next
    case (2 k es)
    then have k: "(k, es) \<in> set j" "es \<noteq> []" "k \<noteq> d"
      by (auto simp: find_Some_iff) (metis nth_mem)
    then have get: "dict_get j k = Some es" using assms by (simp add: jar_ok_def)
    then have bk: "bucket j k = es" by (simp add: bucket_def)
    have len: "length (tl es) + 1 = length es" using k(2) by (cases es) auto
    have "bucket_ok k (tl es)" using get assms by (intro bucket_ok_tl) (rule jar_ok_get)
    then have "jar_ok (dict_insert k (tl es) j)"
      using assms len bk by (intro jar_ok_insert) (auto simp: jar_ok_def)
    moreover have "total_count (dict_insert k (tl es) j) < MAX_TOTAL_COOKIES"
      using total_count_insert [of k "tl es" j] assms len unfolding bk jar_ok_def by linarith
    ultimately show ?thesis using 2 k(3) by (simp add: evict_other_def bucket_insert)
  qed
  then show "jar_ok (evict_other d j)" "bucket (evict_other d j) d = bucket j d"
    "MAX_TOTAL_COOKIES \<le> total_count j \<Longrightarrow> total_count (evict_other d j) < MAX_TOTAL_COOKIES
      \<or> MAX_COOKIES_PER_DOMAIN < length (bucket j d)" by blast+
qed

text \<open>Where an entry is committed: the bucket afterwards, and the rest of the jar.\<close>

definition room_in :: "string \<Rightarrow> jar \<Rightarrow> cookie_entry list" where
  "room_in d j =
     (if MAX_COOKIES_PER_DOMAIN \<le> length (bucket j d) then tl (bucket j d) else bucket j d)"

definition room_jar :: "string \<Rightarrow> jar \<Rightarrow> jar" where
  "room_jar d j = (if MAX_TOTAL_COOKIES \<le> total_count j then evict_other d j else j)"

lemma room_jar:
  assumes "jar_ok j" and "to_lowercase d = d"
  shows "jar_ok (room_jar d j)" "bucket (room_jar d j) d = bucket j d"
    "total_count (room_jar d j) < MAX_TOTAL_COOKIES"
  using assms evict_other [OF assms(1), of d] jar_ok_bucket [OF assms]
  by (auto simp: room_jar_def bucket_ok_def)

lemma commit_entry_cases:
  assumes "jar_ok j" and "to_lowercase d = d"
  obtains (replaced) "\<exists>c \<in> set (bucket j d). same_cookie (ck_name e) (ck_path e) c"
      "commit_entry e d j =
         dict_insert d (replace_first (same_cookie (ck_name e) (ck_path e)) e (bucket j d)) j"
  | (added) "\<not> (\<exists>c \<in> set (bucket j d). same_cookie (ck_name e) (ck_path e) c)"
      "commit_entry e d j = dict_insert d (room_in d j @ [e]) (room_jar d j)"
proof (cases "\<exists>c \<in> set (bucket j d). same_cookie (ck_name e) (ck_path e) c")
  case True
  then show ?thesis using replaced by (simp add: commit_entry_def)
next
  case False
  moreover have "commit_entry e d j = dict_insert d (room_in d j @ [e]) (room_jar d j)"
    using False room_jar(2) [OF assms]
    by (auto simp: commit_entry_def room_in_def room_jar_def Let_def)
  ultimately show ?thesis using added by blast
qed

lemma length_room_in: "bucket_ok d (bucket j d) \<Longrightarrow> length (room_in d j) < MAX_COOKIES_PER_DOMAIN"
  by (auto simp: room_in_def bucket_ok_def limit_defs)

lemma set_room_in: "set (room_in d j) \<subseteq> set (bucket j d)"
  by (cases "bucket j d") (auto simp: room_in_def)

lemma jar_ok_commit:
  assumes "jar_ok j" and "to_lowercase d = d" and "cookie_ok d e"
  shows "jar_ok (commit_entry e d j)"
  using assms(1,2)
proof (cases rule: commit_entry_cases [where e = e])
  case replaced
  show ?thesis
    unfolding replaced(2)
    using assms jar_ok_bucket [OF assms(1,2)]
    by (intro jar_ok_insert bucket_ok_replace) (simp_all add: jar_ok_def)
next
  case added
  have ok: "bucket_ok d (bucket j d)" using assms by (intro jar_ok_bucket)
  then have "bucket_ok d (room_in d j)" by (simp add: room_in_def bucket_ok_tl)
  then have "bucket_ok d (room_in d j @ [e])"
    using added(1) assms(3) set_room_in [of d j] length_room_in [OF ok]
    by (intro bucket_ok_snoc) auto
  moreover have "length (room_in d j) \<le> length (bucket j d)" by (simp add: room_in_def)
  ultimately show ?thesis
    unfolding added(2)
    using room_jar [OF assms(1,2)] by (intro jar_ok_insert) simp_all
qed

lemma dict_get_drop_empty:
  "dict_ok j \<Longrightarrow> dict_get (drop_empty j) d = (case dict_get j d of Some es \<Rightarrow> if es = [] then None else Some es | None \<Rightarrow> None)"
  unfolding drop_empty_def
proof (induction j)
  case (Cons p j)
  obtain k es where p: "p = (k, es)" by fastforce
  have "k = d \<Longrightarrow> dict_get j d = None"
    using Cons.prems p by (auto simp: map_of_eq_None_iff)
  with Cons p show ?case by auto
qed simp

lemma total_count_drop_empty [simp]: "total_count (drop_empty j) = total_count j"
  unfolding drop_empty_def
proof (induction j)
  case (Cons p j)
  then show ?case by (cases p) auto
qed simp

lemma bucket_drop_empty: "dict_ok j \<Longrightarrow> bucket (drop_empty j) d = bucket j d"
  by (auto simp: bucket_def dict_get_drop_empty split: option.splits)

lemma jar_ok_drop_empty: "jar_ok j \<Longrightarrow> jar_ok (drop_empty j)"
proof (rule jar_okI)
  assume ok: "jar_ok j"
  then show "dict_ok (drop_empty j)" and "total_count (drop_empty j) \<le> MAX_TOTAL_COOKIES"
    by (simp_all add: jar_ok_def) (simp add: drop_empty_def distinct_map_filter)
  fix d es
  assume "dict_get (drop_empty j) d = Some es"
  then have "dict_get j d = Some es"
    using ok by (auto simp: jar_ok_def dict_get_drop_empty split: option.splits if_splits)
  then show "bucket_ok d es" using ok by (intro jar_ok_get)
qed

lemma remove_matching_eq:
  "remove_matching d n p j =
     drop_empty (if dict_get j d = None then j
                 else dict_insert d (filter (\<lambda>c. \<not> same_cookie n p c) (bucket j d)) j)"
  by (auto simp: remove_matching_def bucket_def split: option.splits)

lemma jar_ok_remove_matching:
  assumes "jar_ok j"
  shows "jar_ok (remove_matching d n p j)"
proof (cases "dict_get j d")
  case None
  then show ?thesis using assms by (simp add: remove_matching_eq jar_ok_drop_empty)
next
  case (Some es)
  have "jar_ok (dict_insert d (filter (\<lambda>c. \<not> same_cookie n p c) es) j)"
    using assms Some jar_ok_get [OF assms Some] length_filter_le [of "\<lambda>c. \<not> same_cookie n p c" es]
    by (intro jar_ok_insert bucket_ok_filter) (auto simp: bucket_def jar_ok_def intro: add_mono)
  then show ?thesis using Some by (simp add: remove_matching_def jar_ok_drop_empty)
qed

lemma canonical_lower [simp]: "to_lowercase (canonical_domain d) = canonical_domain d"
  by (simp add: canonical_domain_def)

lemma with_path_fields [simp]:
  "ck_domain (with_path p e) = ck_domain e" "ck_value (with_path p e) = ck_value e"
  "ck_name (with_path p e) = ck_name e" "ck_secure (with_path p e) = ck_secure e"
  "ck_http_only (with_path p e) = ck_http_only e" "ck_max_age (with_path p e) = ck_max_age e"
  "ck_expires (with_path p e) = ck_expires e"
  by (simp_all add: with_path_def)

lemma with_partition_fields [simp]:
  "ck_domain (with_partition env d e) = ck_domain e" "ck_value (with_partition env d e) = ck_value e"
  "ck_name (with_partition env d e) = ck_name e" "ck_secure (with_partition env d e) = ck_secure e"
  "ck_http_only (with_partition env d e) = ck_http_only e"
  "ck_path (with_partition env d e) = ck_path e"
  "ck_max_age (with_partition env d e) = ck_max_age e"
  "ck_expires (with_partition env d e) = ck_expires e"
  by (simp_all add: with_partition_def)

text \<open>What \<open>store\<close> and \<open>insert_entry\<close> end in: a removal or a commit of a live entry.\<close>

lemma expire_or_commit_cases:
  obtains (removed) "expire_or_commit env d e j = remove_matching d (ck_name e) (ck_path e) j"
  | (committed) "expire_or_commit env d e j = commit_entry (e\<lparr>ck_expiry := new_expiry env e\<rparr>) d j"
      "\<not> is_expired env (e\<lparr>ck_expiry := new_expiry env e\<rparr>)"
  unfolding expire_or_commit_def Let_def by meson

lemma jar_ok_expire_or_commit:
  assumes "jar_ok j" and "to_lowercase d = d" and "cookie_ok d e"
  shows "jar_ok (expire_or_commit env d e j)"
proof (cases rule: expire_or_commit_cases [of env d e j])
  case removed
  then show ?thesis using assms(1) by (simp add: jar_ok_remove_matching)
next
  case committed
  have "cookie_ok d (e\<lparr>ck_expiry := new_expiry env e\<rparr>)" using assms(3) by (simp add: cookie_ok_def)
  then show ?thesis using assms committed by (simp add: jar_ok_commit)
qed

lemma storage_domain_lower: "storage_domain env u e = Some d \<Longrightarrow> to_lowercase d = d"
  by (auto simp: storage_domain_def Let_def split: option.splits if_splits)

lemma truncate_value_Ret:
  "truncate_value e = Ret e' \<Longrightarrow> length (ck_value e') \<le> MAX_COOKIE_VALUE_SIZE
     \<and> (\<exists>v. e' = e\<lparr>ck_value := v\<rparr>)"
  by (auto simp: truncate_value_def split: if_splits) (metis cookie_entry.surjective cookie_entry.update_convs(2))

lemma jar_ok_store_entry:
  assumes "jar_ok j" and "length (ck_value e) \<le> MAX_COOKIE_VALUE_SIZE"
  shows "jar_ok (store_entry env u e j)"
  using assms
  by (auto simp: store_entry_def cookie_ok_def split: option.splits
      intro!: jar_ok_expire_or_commit dest: storage_domain_lower)

lemma jar_ok_store:
  assumes "jar_ok j" and "store_cookie env u h j = Ret j'"
  shows "jar_ok j'"
  using assms
  by (auto simp: store_cookie_def result_iff dest!: truncate_value_Ret intro: jar_ok_store_entry)

lemma unknown_lower [simp]: "to_lowercase ''unknown'' = ''unknown''"
  by code_simp

lemma jar_ok_insert_entry:
  assumes "jar_ok j" and "insert_entry env e j = Ret j'"
  shows "jar_ok j'"
  using assms
  by (auto simp: insert_entry_def result_iff Let_def insert_domain_def cookie_ok_def
      dest!: truncate_value_Ret intro!: jar_ok_expire_or_commit split: if_splits option.splits)

lemma total_count_filter: "total_count (map (\<lambda>(d, es). (d, filter P es)) j) \<le> total_count j"
proof (induction j)
  case (Cons p j)
  then show ?case
    by (cases p) (auto intro: add_mono length_filter_le)
qed simp

lemma jar_ok_remove:
  assumes "jar_ok j"
  shows "jar_ok (jar_remove u n j)"
proof -
  let ?f = "\<lambda>(d, es). (d, filter (keeps_cookie u n) es)"
  have keys: "map fst (map ?f j) = map fst j"
    by (induction j) auto
  have "jar_ok (map ?f j)"
    unfolding jar_ok_def keys
    using assms total_count_filter [of "keeps_cookie u n" j]
    by (auto simp: jar_ok_def intro: bucket_ok_filter)
  then show ?thesis by (simp add: jar_remove_def jar_ok_drop_empty)
qed

text \<open>
  The jar as a machine over the calls its owners make. A panic of \<open>store\<close> or
  \<open>insert_entry\<close> comes before the jar is touched, so it leaves the jar as it was. Each event
  carries the environment (the clock) of its call.
\<close>

datatype jar_event =
  SetCookie url string
  | InsertEntry cookie_entry
  | RemoveCookie url string
  | ClearJar

fun jar_step :: "web_env \<times> jar_event \<Rightarrow> jar \<Rightarrow> jar" where
  "jar_step (env, SetCookie u h) j = (case store_cookie env u h j of Ret j' \<Rightarrow> j' | Panic \<Rightarrow> j)"
| "jar_step (env, InsertEntry e) j = (case insert_entry env e j of Ret j' \<Rightarrow> j' | Panic \<Rightarrow> j)"
| "jar_step (env, RemoveCookie u n) j = jar_remove u n j"
| "jar_step (env, ClearJar) j = jar_clear j"

interpretation jar_machine: inv_machine jar_ok jar_step
proof unfold_locales
  fix j e
  assume "jar_ok j"
  then show "jar_ok (jar_step e j)"
    by (cases "(e, j)" rule: jar_step.cases)
      (auto simp: jar_ok_remove jar_clear_def jar_ok_Nil split: run.splits
        dest: jar_ok_store jar_ok_insert_entry)
qed

subsection \<open>What enters the jar\<close>

lemma set_dict_insert: "set (dict_insert k v d) \<subseteq> insert (k, v) (set d)"
  by (induction d) auto

lemma get_all_iff: "c \<in> set (get_all j) \<longleftrightarrow> (\<exists>p \<in> set j. c \<in> set (snd p))"
  by (simp add: get_all_def)

lemma get_allI: "(d, es) \<in> set j \<Longrightarrow> c \<in> set es \<Longrightarrow> c \<in> set (get_all j)"
  by (force simp: get_all_iff)

lemma get_all_bucket: "c \<in> set (bucket j d) \<Longrightarrow> c \<in> set (get_all j)"
  unfolding bucket_def by (cases "map_of j d") (auto dest!: map_of_SomeD intro: get_allI)

lemma get_all_insert: "set (get_all (dict_insert d es j)) \<subseteq> set es \<union> set (get_all j)"
  using set_dict_insert [of d es j] by (fastforce simp: get_all_iff)

lemma get_all_evict: "set (get_all (evict_other d j)) \<subseteq> set (get_all j)"
proof (cases "find (\<lambda>(k, es). es \<noteq> [] \<and> k \<noteq> d) j")
  case (Some p)
  obtain k es where p: "p = (k, es)" by fastforce
  then have "(k, es) \<in> set j" using Some by (auto simp: find_Some_iff) (metis nth_mem)
  then have "set (tl es) \<subseteq> set (get_all j)"
    by (cases es) (auto intro: get_allI)
  then show ?thesis using get_all_insert [of k "tl es" j] Some p by (auto simp: evict_other_def)
qed (simp add: evict_other_def)

lemma get_all_room: "set (get_all (room_jar d j)) \<subseteq> set (get_all j)"
  using get_all_evict by (auto simp: room_jar_def)

lemma get_all_commit:
  assumes "jar_ok j" and "to_lowercase d = d"
  shows "set (get_all (commit_entry e d j)) \<subseteq> insert e (set (get_all j))"
  using assms
proof (cases rule: commit_entry_cases [where e = e])
  case replaced
  then show ?thesis
    using get_all_insert [of d "replace_first (same_cookie (ck_name e) (ck_path e)) e (bucket j d)" j]
      set_replace_first [of "same_cookie (ck_name e) (ck_path e)" e "bucket j d"]
      get_all_bucket [of _ j d]
    by auto
next
  case added
  have "set (room_in d j) \<subseteq> set (get_all j)"
    using set_room_in [of d j] get_all_bucket [of _ j d] by blast
  then show ?thesis
    unfolding added(2)
    using get_all_insert [of d "room_in d j @ [e]" "room_jar d j"] get_all_room [of d j] by auto
qed

lemma get_all_drop_empty: "set (get_all (drop_empty j)) = set (get_all j)"
  by (force simp: get_all_iff drop_empty_def)

lemma get_all_remove_matching: "set (get_all (remove_matching d n p j)) \<subseteq> set (get_all j)"
proof -
  have "set (filter (\<lambda>c. \<not> same_cookie n p c) (bucket j d)) \<subseteq> set (get_all j)"
    by (auto intro: get_all_bucket)
  then show ?thesis
    using get_all_insert [of d "filter (\<lambda>c. \<not> same_cookie n p c) (bucket j d)" j]
    by (auto simp: remove_matching_eq get_all_drop_empty)
qed

lemma get_all_expire_or_commit:
  assumes "jar_ok j" and "to_lowercase d = d" and "c \<in> set (get_all (expire_or_commit env d e j))"
    and "c \<notin> set (get_all j)"
  shows "c = e\<lparr>ck_expiry := new_expiry env e\<rparr> \<and> \<not> is_expired env c"
proof (cases rule: expire_or_commit_cases [of env d e j])
  case removed
  then show ?thesis using assms get_all_remove_matching [of d "ck_name e" "ck_path e" j] by auto
next
  case committed
  then show ?thesis
    using assms get_all_commit [OF assms(1,2), of "e\<lparr>ck_expiry := new_expiry env e\<rparr>"] by auto
qed

text \<open>The entry a \<open>Set-Cookie\<close> puts in the jar, as a function of the parsed header.\<close>

definition stored_form :: "web_env \<Rightarrow> url \<Rightarrow> string \<Rightarrow> cookie_entry \<Rightarrow> cookie_entry" where
  "stored_form env u d e =
     (let e1 = with_path (default_path (url_path u)) (with_partition env d (e\<lparr>ck_domain := Some d\<rparr>))
      in e1\<lparr>ck_expiry := new_expiry env e1\<rparr>)"

lemma store_entry_new:
  assumes "jar_ok j" and "c \<in> set (get_all (store_entry env u e j))" and "c \<notin> set (get_all j)"
  obtains d where "prefix_ok e" "storage_domain env u e = Some d" "c = stored_form env u d e"
    "\<not> is_expired env c"
proof -
  have "prefix_ok e" using assms by (auto simp: store_entry_def split: if_splits)
  then obtain d where d: "storage_domain env u e = Some d"
    using assms by (auto simp: store_entry_def split: option.splits)
  with assms that [of d] \<open>prefix_ok e\<close> storage_domain_lower [OF d]
    get_all_expire_or_commit [OF assms(1), of d c env]
  show ?thesis by (simp add: store_entry_def stored_form_def Let_def)
qed

lemma store_cookie_new:
  assumes "jar_ok j" and "store_cookie env u h j = Ret j'"
    and "c \<in> set (get_all j')" and "c \<notin> set (get_all j)"
  obtains e d where "prefix_ok e" "storage_domain env u e = Some d" "c = stored_form env u d e"
    "\<not> is_expired env c"
proof -
  obtain e where "j' = store_entry env u e j"
    using assms(2) by (auto simp: store_cookie_def result_iff)
  then show ?thesis using assms(1,3,4) that by (elim store_entry_new [rotated 2]) auto
qed

lemma stored_form_fields [simp]:
  "ck_domain (stored_form env u d e) = Some d" "ck_name (stored_form env u d e) = ck_name e"
  "ck_secure (stored_form env u d e) = ck_secure e"
  by (simp_all add: stored_form_def Let_def)

subsection \<open>What is sent\<close>

definition sendable :: "web_env \<Rightarrow> url \<Rightarrow> same_site_context \<Rightarrow> cookie_entry \<Rightarrow> bool" where
  "sendable env u ctx c \<longleftrightarrow>
     \<not> is_expired env c \<and> (ck_secure c \<longrightarrow> is_trustworthy_origin u)
     \<and> cookie_path_matches (url_path u) (ck_path_or_root c) \<and> same_site_sends ctx c"

definition applies :: "web_env \<Rightarrow> url \<Rightarrow> same_site_context \<Rightarrow> cookie_entry \<Rightarrow> bool" where
  "applies env u ctx c \<longleftrightarrow>
     (\<exists>d. ck_domain c = Some d \<and> bucket_matches (lower_host u) d) \<and> sendable env u ctx c"

lemma select_http_filter: "select_http env u ctx cs = filter (sendable env u ctx) cs"
  by (induction cs) (auto simp: sendable_def)

lemma select_js_filter:
  "select_js env u cs = filter (\<lambda>c. \<not> ck_http_only c) (select_http env u SameOrigin cs)"
  by (induction cs) (auto simp: same_site_sends_def split: option.splits same_site.splits)

lemma mset_concat_filter:
  assumes "\<And>d es c. (d, es) \<in> set j \<Longrightarrow> c \<in> set es \<Longrightarrow> Q c \<longleftrightarrow> P d \<and> R c"
  shows "mset (concat (map (\<lambda>(d, es). if P d then filter R es else []) j))
    = filter_mset Q (mset (concat (map snd j)))"
  using assms
proof (induction j)
  case (Cons p j)
  obtain d es where p: "p = (d, es)" by fastforce
  have "mset (if P d then filter R es else []) = filter_mset Q (mset es)"
  proof (cases "P d")
    case True
    then have "filter R es = filter Q es" using Cons.prems [of d es] p by (intro filter_cong) auto
    with True show ?thesis by simp
  next
    case False
    then have "filter Q es = []" using Cons.prems [of d es] p by (auto simp: filter_empty_conv)
    with False show ?thesis by (metis mset.simps(1) mset_filter)
  qed
  with Cons p show ?case by (auto simp: mset_concat)
qed simp

lemma filter_by_path_length: "filter P (by_path_length cs) = by_path_length (filter P cs)"
  by (simp add: by_path_length_def filter_sort)

lemma filter_concat_map:
  "filter P (concat (map (\<lambda>(d, es). if Q d then f es else []) j))
     = concat (map (\<lambda>(d, es). if Q d then filter P (f es) else []) j)"
  by (induction j) auto

section \<open>The parser never panics on ASCII text\<close>

lemma ascii_boundary: "is_ascii_str s \<Longrightarrow> i \<le> length s \<Longrightarrow> is_char_boundary s i"
  by (auto simp: is_char_boundary_def is_ascii_str_def is_continuation_def)
    (metis le_neq_implies_less not_le nth_mem)

lemma strip_prefix_ascii: "is_ascii_str s \<Longrightarrow> strip_prefix_case_insensitive s p \<noteq> Panic"
  by (simp add: strip_prefix_case_insensitive_def ascii_boundary)

lemma try_attrs_ascii: "is_ascii_str a \<Longrightarrow> try_attrs rules a e \<noteq> Panic"
proof (induction rules a e rule: try_attrs.induct)
  case (2 p upd rules a e)
  then show ?case
    using strip_prefix_ascii [of a p]
    by (cases "strip_prefix_case_insensitive a p") (auto split: option.splits)
qed simp

lemma is_ascii_subset: "is_ascii_str s \<Longrightarrow> set t \<subseteq> set s \<Longrightarrow> is_ascii_str t"
  by (auto simp: is_ascii_str_def)

lemma set_dropWhile_end: "set (dropWhile_end P xs) \<subseteq> set xs"
  by (auto simp: dropWhile_end_def dest: set_dropWhileD)

lemma set_str_trim: "set (str_trim s) \<subseteq> set s"
proof -
  have "set (dropWhile_end is_whitespace (dropWhile is_whitespace (utf8_chars s))) \<subseteq> set (utf8_chars s)"
    using set_dropWhile_end set_dropWhileD by fast
  then have "set (str_trim s) \<subseteq> set (concat (utf8_chars s))"
    unfolding str_trim_def set_concat by blast
  then show ?thesis by simp
qed

lemma set_split_by: "w \<in> set (split_by P s) \<Longrightarrow> set w \<subseteq> set s"
proof (induction s arbitrary: w)
  case (Cons d ds)
  then show ?case by (cases "split_by P ds") (fastforce split: if_splits)+
qed simp

lemma parse_attr_list_ascii:
  "(\<And>p. p \<in> set ps \<Longrightarrow> is_ascii_str p) \<Longrightarrow> parse_attr_list env ps e \<noteq> Panic"
proof (induction ps arbitrary: e)
  case (Cons p ps)
  have "is_ascii_str (str_trim p)"
    using Cons.prems [of p] set_str_trim [of p] by (auto intro: is_ascii_subset)
  then have "parse_attr env p e \<noteq> Panic"
    by (simp add: parse_attr_def Let_def try_attrs_ascii)
  with Cons show ?case by (cases "parse_attr env p e") auto
qed simp

lemma parse_cookie_ascii:
  assumes "is_ascii_str h"
  shows "parse_cookie env h \<noteq> Panic"
proof -
  have "is_ascii_str p" if "p \<in> set (tl (split_on (CHR '';'') h))" for p
    using assms set_split_by [of p _ h] that by (meson is_ascii_subset list.set_sel(2) split_by_not_Nil)
  then have "parse_attr_list env (tl (split_on (CHR '';'') h)) e \<noteq> Panic" for e
    by (rule parse_attr_list_ascii)
  then show ?thesis
    by (auto simp: parse_cookie_def Let_def split: option.splits)
      (metis run.exhaust run.distinct(1) run_bind.simps(2))
qed

lemma try_attrs_value:
  "(\<And>p upd v e. (p, upd) \<in> set rules \<Longrightarrow> ck_value (upd v e) = ck_value e) \<Longrightarrow>
     try_attrs rules a e = Ret e' \<Longrightarrow> ck_value e' = ck_value e"
proof (induction rules a e rule: try_attrs.induct)
  case (2 p upd rules a e)
  then show ?case by (fastforce simp: result_iff split: option.splits)
qed simp

lemma parse_attr_list_value: "parse_attr_list env ps e = Ret e' \<Longrightarrow> ck_value e' = ck_value e"
proof (induction ps arbitrary: e)
  case (Cons p ps)
  then obtain e1 where e1: "parse_attr env p e = Ret e1" "parse_attr_list env ps e1 = Ret e'"
    by (auto simp: result_iff)
  have "ck_value e1 = ck_value e"
  proof (cases "try_attrs (valued_attrs env) (str_trim p) e = Ret e1")
    case True
    then show ?thesis by (rule try_attrs_value [rotated]) (auto simp: valued_attrs_def)
  next
    case False
    with e1(1) show ?thesis by (auto simp: parse_attr_def Let_def split: if_splits)
  qed
  with Cons.IH [OF e1(2)] show ?case by simp
qed simp

lemma truncate_ascii: "is_ascii_str (ck_value e) \<Longrightarrow> truncate_value e \<noteq> Panic"
  by (auto simp: truncate_value_def is_char_boundary_def is_ascii_str_def is_continuation_ascii)

lemma store_cookie_ascii:
  assumes ascii: "is_ascii_str h"
  shows "store_cookie env u h j \<noteq> Panic"
proof -
  obtain res where res: "parse_cookie env h = Ret res"
    using parse_cookie_ascii [OF ascii] by (cases "parse_cookie env h") auto
  have "is_ascii_str (ck_value (case res of Some e \<Rightarrow> e | None \<Rightarrow> bare_entry h []))"
  proof (cases res)
    case None
    then show ?thesis by (simp add: bare_entry_def is_ascii_str_def)
  next
    case (Some e)
    then obtain n v where nv: "split_once (CHR ''='') (str_trim (hd (split_on (CHR '';'') h))) = Some (n, v)"
      and "parse_attr_list env (tl (split_on (CHR '';'') h)) (bare_entry (str_trim n) (str_trim v)) = Ret e"
      using res by (auto simp: parse_cookie_def Let_def result_iff split: option.splits)
    then have val: "ck_value e = str_trim v"
      using parse_attr_list_value [of env _ "bare_entry (str_trim n) (str_trim v)" e] by (simp add: bare_entry_def)
    have eq: "str_trim (hd (split_on (CHR '';'') h)) = n @ CHR ''='' # v"
      using split_once_Some [OF nv] by blast
    have "set v \<subseteq> set (str_trim (hd (split_on (CHR '';'') h)))" unfolding eq by auto
    moreover have "set (hd (split_on (CHR '';'') h)) \<subseteq> set h"
      by (rule set_split_by [OF hd_in_set [OF split_by_not_Nil]])
    ultimately have "set (ck_value e) \<subseteq> set h" unfolding val using set_str_trim [of v] set_str_trim [of "hd (split_on (CHR '';'') h)"] by (meson subset_trans)
    with ascii Some show ?thesis by (auto simp: is_ascii_str_def)
  qed
  then show ?thesis using truncate_ascii res by (auto simp: store_cookie_def run_bind_Panic)
qed

section \<open>Properties\<close>

text \<open>
  C36: Whatever sequence of \<open>Set-Cookie\<close> headers, imports, removals and clears a jar goes
  through, from the empty jar it keeps the RFC 6265 limits (at most 50 cookies per domain, 3000
  in all, 4096 bytes per value), holds at most one cookie per domain, name and path, and files
  every cookie under its own lower-case domain.
\<close>
theorem jar_limits: "jar_ok (fold jar_step events [])"
  by (intro jar_machine.run_inv jar_ok_Nil)

text \<open>
  C4: A response can only plant cookies for its own site: every cookie that a
  \<open>Set-Cookie\<close> header adds to the jar is unexpired and lies under a domain that is the
  request host itself or one the host domain-matches and that is not a public suffix; and a
  cookie named \<open>__Host-\<close> is secure and lies under the request host.
\<close>
theorem store_own_site_only:
  assumes "jar_ok j" and "store_cookie env u h j = Ret j'"
    and "c \<in> set (get_all j')" and "c \<notin> set (get_all j)"
  shows "\<exists>d. ck_domain c = Some d
      \<and> (d = lower_host u \<or> domain_matches (host_or_unknown u) d \<and> \<not> is_public_suffix env d)
      \<and> \<not> is_expired env c
      \<and> (starts_with (ck_name c) ''__Host-'' \<and> \<not> starts_with (ck_name c) ''__Secure-''
           \<longrightarrow> ck_secure c \<and> d = lower_host u)"
  using assms
proof (rule store_cookie_new)
  fix e d
  assume "prefix_ok e" "storage_domain env u e = Some d" "c = stored_form env u d e"
    "\<not> is_expired env c"
  then show ?thesis
    by (auto simp: storage_domain_def prefix_ok_def lower_host_def Let_def
        split: option.splits if_splits)
qed

theorem store_own_site_only_witness:
  "\<exists>c :: cookie_entry. ck_name c = ''__Host-s'' \<and> ck_secure c \<and> ck_domain c = Some ''example.com''"
proof -
  let ?u = "sample_url ''https'' ''example.com'' ''/a/b'' 443"
  let ?c = "(bare_entry ''__Host-s'' ''1'')\<lparr>ck_path := Some ''/'', ck_secure := True,
    ck_domain := Some ''example.com''\<rparr>"
  have st: "store_cookie sample_env ?u ''__Host-s=1; Path=/; Secure'' []
      = Ret [(''example.com'', [?c])]"
    by code_simp
  have c: "?c \<in> set (get_all [(''example.com'', [?c])])" and "?c \<notin> set (get_all [])"
    by (simp_all add: get_all_def)
  then have "ck_secure ?c \<and> ck_domain ?c = Some (lower_host ?u)"
    using store_own_site_only [OF jar_ok_Nil st c]
    by (simp add: bare_entry_def starts_with_def)
  moreover have "lower_host ?u = ''example.com''" by code_simp
  ultimately show ?thesis by - (rule exI [of _ ?c], simp add: bare_entry_def)
qed

text \<open>
  C3: The cookies sent with a request are exactly the stored ones that apply to it, each once:
  same bucket or parent domain, path, not expired, \<open>Secure\<close> only over a trustworthy origin,
  \<open>SameSite\<close> as the context allows; longer paths come first.
\<close>
theorem sent_cookies_exact:
  assumes "jar_ok j"
  shows "mset (http_cookies env j u ctx) = filter_mset (applies env u ctx) (mset (get_all j))
    \<and> sorted_wrt (\<lambda>a b. length (ck_path_or_root b) \<le> length (ck_path_or_root a)) (http_cookies env j u ctx)"
proof
  have "applies env u ctx c \<longleftrightarrow> bucket_matches (lower_host u) d \<and> sendable env u ctx c"
    if "(d, es) \<in> set j" "c \<in> set es" for d es c
    using assms that by (auto simp: jar_ok_def bucket_ok_def cookie_ok_def applies_def)
  then show "mset (http_cookies env j u ctx) = filter_mset (applies env u ctx) (mset (get_all j))"
    unfolding http_cookies_def by_path_length_def select_http_filter get_all_def mset_sort
    by (rule mset_concat_filter)
  have "sorted (map (\<lambda>c. - int (length (ck_path_or_root c))) (http_cookies env j u ctx))"
    by (simp add: http_cookies_def by_path_length_def)
  then show "sorted_wrt (\<lambda>a b. length (ck_path_or_root b) \<le> length (ck_path_or_root a)) (http_cookies env j u ctx)"
    by (simp add: sorted_map)
qed

theorem sent_cookies_exact_witness:
  "\<exists>u j. size (filter_mset (applies sample_env u SameOrigin) (mset (get_all j))) = 1"
proof -
  let ?u = "sample_url ''https'' ''example.com'' ''/a/b'' 443"
  let ?j = "fold jar_step
    [(sample_env, SetCookie ?u ''a=1''), (sample_env, SetCookie ?u ''b=2; Path=/z'')] []"
  have "jar_ok ?j" by (intro jar_machine.run_inv jar_ok_Nil)
  from sent_cookies_exact [OF this]
  have "filter_mset (applies sample_env ?u SameOrigin) (mset (get_all ?j))
      = mset (http_cookies sample_env ?j ?u SameOrigin)" by simp
  moreover have "length (http_cookies sample_env ?j ?u SameOrigin) = 1" by code_simp
  ultimately show ?thesis by - (rule exI [of _ ?u], rule exI [of _ ?j], simp)
qed

text \<open>
  A script sees exactly the cookies of a same-origin request less the \<open>HttpOnly\<close> ones,
  in the same order.
\<close>
theorem js_cookies_no_http_only:
  "js_cookies env j u = filter (\<lambda>c. \<not> ck_http_only c) (http_cookies env j u SameOrigin)"
  unfolding js_cookies_def http_cookies_def select_js_filter filter_by_path_length filter_concat_map ..

text \<open>
  The jar has no host-only flag: a cookie set by \<open>example.com\<close> without a Domain attribute,
  which the code calls host-only and RFC 6265 would send to that host alone, is sent to its
  subdomains too.
\<close>
theorem host_only_cookie_reaches_subdomain:
  "\<exists>j. store_cookie sample_env (sample_url ''https'' ''example.com'' ''/'' 443) ''sid=1'' [] = Ret j
     \<and> cookies_for_url sample_env j (sample_url ''https'' ''user.example.com'' ''/'' 443) = ''sid=1''"
proof -
  let ?c = "(bare_entry ''sid'' ''1'')\<lparr>ck_path := Some ''/'', ck_domain := Some ''example.com''\<rparr>"
  have "store_cookie sample_env (sample_url ''https'' ''example.com'' ''/'' 443) ''sid=1'' []
      = Ret [(''example.com'', [?c])]" by code_simp
  moreover have "cookies_for_url sample_env [(''example.com'', [?c])]
      (sample_url ''https'' ''user.example.com'' ''/'' 443) = ''sid=1''" by code_simp
  ultimately show ?thesis by blast
qed

text \<open>
  The \<open>Set-Cookie\<close> parser can panic, on text that is not ASCII only: an attribute with a
  multi-byte character across the end of an attribute prefix is sliced inside that character
  (the witness is one); every ASCII text gets an answer.
\<close>
theorem parse_cookie_panics_only_on_non_ascii:
  assumes "parse_cookie env h = Panic"
  shows "\<not> is_ascii_str h"
  using assms parse_cookie_ascii by blast

theorem parse_cookie_panics_only_on_non_ascii_witness:
  "parse_cookie sample_env (''a=b; Path'' @ [CHR 0xC3, CHR 0xA9]) = Panic
    \<and> \<not> is_ascii_str (''a=b; Path'' @ [CHR 0xC3, CHR 0xA9])"
proof -
  have "parse_cookie sample_env (''a=b; Path'' @ [CHR 0xC3, CHR 0xA9]) = Panic" by code_simp
  then show ?thesis using parse_cookie_panics_only_on_non_ascii by blast
qed

end
