(* ===== verification/OriginPolicy.thy ===== *)
theory OriginPolicy
  imports WebUrl
begin

text \<open>
  \<open>oxibrowser-core/src/network/origin_policy.rs\<close>: normalized origins and the deny-first
  policy that decides where a stored credential may be used. \<open>Url::parse\<close> and the public
  suffix list are arguments. Ports are the \<open>u16\<close> the URL parser gives.
\<close>

section \<open>Origins\<close>

record origin =
  o_scheme :: string
  o_host :: string
  o_port :: int

definition origin_parse :: "url_parser \<Rightarrow> string \<Rightarrow> string + origin" where
  "origin_parse up input =
     (case up input of
        None \<Rightarrow> Inl input
      | Some u \<Rightarrow>
          (case url_host_str u of
             None \<Rightarrow> Inl input
           | Some h \<Rightarrow>
               (let scheme = to_ascii_lowercase (url_scheme u)
                in if scheme \<noteq> ''http'' \<and> scheme \<noteq> ''https'' then Inl (''unsupported scheme: '' @ scheme)
                   else (let host = to_ascii_lowercase h
                         in case url_port u of
                              None \<Rightarrow> Inl (''no port resolvable for scheme '' @ scheme)
                            | Some prt \<Rightarrow> Inr \<lparr>o_scheme = scheme, o_host = host, o_port = prt\<rparr>))))"

definition exact_eq :: "origin \<Rightarrow> origin \<Rightarrow> bool" where
  "exact_eq a b \<longleftrightarrow> a = b"

definition registrable_key :: "string \<Rightarrow> string" where
  "registrable_key r = to_ascii_lowercase (trim_end_char (CHR ''.'') (str_trim r))"

definition host_within_registrable :: "origin \<Rightarrow> string \<Rightarrow> bool" where
  "host_within_registrable o' registrable =
     (let key = registrable_key registrable
      in if key = [] then False
         else o_host o' = key \<or> ends_with (o_host o') (''.'' @ key))"

definition default_port :: "origin \<Rightarrow> int" where
  "default_port o' = (if o_scheme o' = ''https'' then 443 else 80)"

definition origin_as_str :: "origin \<Rightarrow> string" where
  "origin_as_str o' =
     (if o_port o' = default_port o' then o_scheme o' @ ''://'' @ o_host o'
      else o_scheme o' @ ''://'' @ o_host o' @ '':'' @ show_uint (o_port o'))"

section \<open>The policy\<close>

datatype origin_match = Exact | RegistrableDomain | NoMatch

datatype decision = Allow | RequireConfirmation string | Deny string

datatype rule_mode = RuleAllow | RuleDeny

record origin_rule =
  r_origin :: origin
  r_mode :: rule_mode

datatype redirect_verdict_kind = Continue | InvalidateAndEscalate

definition deny_rule_hit :: "origin \<Rightarrow> origin option \<Rightarrow> origin_rule \<Rightarrow> bool" where
  "deny_rule_hit page frame r \<longleftrightarrow>
     r_mode r = RuleDeny
     \<and> (exact_eq (r_origin r) page
        \<or> (case frame of Some f \<Rightarrow> exact_eq (r_origin r) f | None \<Rightarrow> False))"

definition evaluate :: "origin_rule list \<Rightarrow> origin list \<Rightarrow> origin \<Rightarrow> origin option \<Rightarrow> decision" where
  "evaluate rules allowed page frame =
     (case find (deny_rule_hit page frame) rules of
        Some r \<Rightarrow> Deny (''deny rule for '' @ origin_as_str (r_origin r))
      | None \<Rightarrow>
          (case frame of
             None \<Rightarrow> Deny (''frame origin unknown '' @ em_dash @ '' refusing credential use'')
           | Some f \<Rightarrow>
               (let top_allowed = (\<exists>o' \<in> set allowed. exact_eq o' page);
                    frame_allowed = (\<exists>o' \<in> set allowed. exact_eq o' f)
                in if top_allowed \<and> frame_allowed then Allow
                   else Deny (''origin not in credential allowlist (top='' @ origin_as_str page
                          @ '', frame='' @ origin_as_str f @ '')''))))"

definition registrable_of :: "web_env \<Rightarrow> origin \<Rightarrow> string" where
  "registrable_of env o' = (case psl_domain env (o_host o') of Some d \<Rightarrow> d | None \<Rightarrow> o_host o')"

definition classify :: "web_env \<Rightarrow> origin list \<Rightarrow> origin \<Rightarrow> origin_match" where
  "classify env allowed candidate =
     (if \<exists>o' \<in> set allowed. exact_eq o' candidate then Exact
      else if \<exists>o' \<in> set allowed. host_within_registrable candidate (registrable_of env o')
                \<or> host_within_registrable o' (registrable_of env candidate)
           then RegistrableDomain
           else NoMatch)"

definition redirect_verdict :: "origin list \<Rightarrow> origin \<Rightarrow> redirect_verdict_kind" where
  "redirect_verdict allowed next' =
     (if \<exists>o' \<in> set allowed. exact_eq o' next' then Continue else InvalidateAndEscalate)"

section \<open>Lemmas\<close>

lemma deny_rule_hit_find:
  "find (deny_rule_hit page frame) rules = None \<longleftrightarrow> \<not> (\<exists>r \<in> set rules. deny_rule_hit page frame r)"
  by (auto simp: find_None_iff)

lemma evaluate_Allow_iff:
  "evaluate rules allowed page frame = Allow
    \<longleftrightarrow> (\<exists>f. frame = Some f \<and> page \<in> set allowed \<and> f \<in> set allowed)
        \<and> \<not> (\<exists>r \<in> set rules. deny_rule_hit page frame r)"
proof (cases "find (deny_rule_hit page frame) rules")
  case None
  then show ?thesis
    by (auto simp: evaluate_def exact_eq_def Let_def deny_rule_hit_find split: option.splits)
next
  case (Some r)
  then have "\<exists>r \<in> set rules. deny_rule_hit page frame r"
    by (metis deny_rule_hit_find option.distinct(1))
  with Some show ?thesis by (simp add: evaluate_def)
qed

type_synonym use_query = "origin list \<times> origin \<times> origin option"

definition policy_permits :: "origin_rule list \<Rightarrow> use_query \<Rightarrow> bool" where
  "policy_permits rules q = (case q of (allowed, page, frame) \<Rightarrow> evaluate rules allowed page frame = Allow)"

definition policy_hits :: "origin_rule list \<Rightarrow> use_query \<Rightarrow> bool" where
  "policy_hits rules q = (case q of (allowed, page, frame) \<Rightarrow> \<exists>r \<in> set rules. deny_rule_hit page frame r)"

definition add_deny :: "origin \<Rightarrow> origin_rule list \<Rightarrow> origin_rule list" where
  "add_deny o' rules = rules @ [\<lparr>r_origin = o', r_mode = RuleDeny\<rparr>]"

definition names_origin :: "origin \<Rightarrow> use_query \<Rightarrow> bool" where
  "names_origin o' q = (case q of (allowed, page, frame) \<Rightarrow> o' = page \<or> frame = Some o')"

interpretation policy_gate: deny_first_gate policy_permits add_deny policy_hits names_origin
  by unfold_locales
    (auto simp: policy_permits_def policy_hits_def add_deny_def names_origin_def evaluate_Allow_iff
      deny_rule_hit_def exact_eq_def split: option.splits)

text \<open>Labels: a host lies within a registrable domain when the domain's labels end the host's.\<close>

definition labels :: "string \<Rightarrow> string list" where
  "labels s = split_on (CHR ''.'') s"

lemma label_suffix_iff:
  "(host = key \<or> ends_with host (''.'' @ key)) \<longleftrightarrow> (\<exists>ls. labels host = ls @ labels key)"
proof
  assume "host = key \<or> ends_with host (''.'' @ key)"
  then consider "host = key" | p where "host = p @ CHR ''.'' # key"
    by (auto simp: str_iff)
  then show "\<exists>ls. labels host = ls @ labels key"
  proof cases
    case 1
    then show ?thesis by simp
  next
    case (2 p)
    then show ?thesis by (auto simp: labels_def split_by_cat)
  qed
next
  assume "\<exists>ls. labels host = ls @ labels key"
  then obtain ls where eq: "labels host = ls @ labels key" ..
  have "host = join_with ''.'' (ls @ labels key)"
    unfolding eq [symmetric] by (simp add: labels_def join_split)
  moreover have "labels key \<noteq> []" "join_with ''.'' (labels key) = key"
    by (simp_all add: labels_def join_split)
  ultimately have "host = (if ls = [] then key else join_with ''.'' ls @ ''.'' @ key)"
    by (simp add: join_append)
  then show "host = key \<or> ends_with host (''.'' @ key)"
    by (auto simp: str_iff split: if_splits)
qed

section \<open>Properties\<close>

text \<open>
  C33: A credential may be used exactly when the frame that hosts the form is known, the page
  and the frame are both in the credential's exact allowlist, and no deny rule names either; an
  unknown frame is refused.
\<close>
theorem evaluate_allows_exactly:
  "evaluate rules allowed page frame = Allow
    \<longleftrightarrow> (\<exists>f. frame = Some f \<and> page \<in> set allowed \<and> f \<in> set allowed
          \<and> (\<forall>r \<in> set rules. r_mode r = RuleDeny \<longrightarrow> r_origin r \<noteq> page \<and> r_origin r \<noteq> f))"
  by (auto simp: evaluate_Allow_iff deny_rule_hit_def exact_eq_def)

theorem evaluate_allows_exactly_witness:
  "evaluate [\<lparr>r_origin = \<lparr>o_scheme = ''https'', o_host = ''b.com'', o_port = 443\<rparr>, r_mode = RuleDeny\<rparr>]
     [\<lparr>o_scheme = ''https'', o_host = ''a.com'', o_port = 443\<rparr>]
     \<lparr>o_scheme = ''https'', o_host = ''a.com'', o_port = 443\<rparr>
     (Some \<lparr>o_scheme = ''https'', o_host = ''a.com'', o_port = 443\<rparr>) = Allow"
  by (rule evaluate_allows_exactly [THEN iffD2]) auto

text \<open>
  Static deny rules win: once an origin is denied, no rule, no allowlist and no later
  denial lets a use whose page or frame has that origin through.
\<close>
theorem denied_origin_never_allowed:
  assumes "o' \<in> set denied" and "o' = page \<or> frame = Some o'"
  shows "evaluate (fold add_deny denied rules) allowed page frame \<noteq> Allow"
  using policy_gate.denied_refused [OF assms(1), of "(allowed, page, frame)" rules] assms(2)
  by (auto simp: names_origin_def policy_permits_def)

theorem denied_origin_never_allowed_witness:
  "let o' = \<lparr>o_scheme = ''https'', o_host = ''a.com'', o_port = 443\<rparr>
   in evaluate (fold add_deny [o'] []) [o'] o' (Some o') \<noteq> Allow"
  unfolding Let_def by (rule denied_origin_never_allowed [OF _ disjI1 [OF refl]]) simp

text \<open>
  Host comparison respects label boundaries: a host is within a registrable domain exactly
  when the domain's dot-separated labels are the last labels of the host, so
  \<open>notexample.com\<close> is never within \<open>example.com\<close>.
\<close>
theorem within_registrable_is_label_suffix:
  "host_within_registrable o' r
    \<longleftrightarrow> registrable_key r \<noteq> [] \<and> (\<exists>ls. labels (o_host o') = ls @ labels (registrable_key r))"
  unfolding host_within_registrable_def Let_def label_suffix_iff by simp

end
