(* ===== verification/Cors.thy ===== *)
theory Cors
  imports WebUrl
begin

text \<open>
  \<open>oxibrowser-core/src/network/cors.rs\<close>: which requests need a preflight, how the answer to
  the preflight is judged, and the \<open>Referer\<close> header of a request.
\<close>

section \<open>Preflight\<close>

type_synonym header = "string \<times> string"

definition is_safelisted_method :: "string \<Rightarrow> bool" where
  "is_safelisted_method m \<longleftrightarrow> to_ascii_uppercase m \<in> {''GET'', ''HEAD'', ''POST''}"

definition is_safelisted_header :: "string \<Rightarrow> string \<Rightarrow> bool" where
  "is_safelisted_header name v =
     (let lower = to_ascii_lowercase name
      in if lower \<in> {''accept'', ''accept-language'', ''content-language'', ''range''} then True
         else if lower = ''content-type''
         then (let v = to_ascii_lowercase (str_trim v)
               in starts_with v ''application/x-www-form-urlencoded''
                  \<or> starts_with v ''multipart/form-data''
                  \<or> starts_with v ''text/plain''
                  \<or> v = [])
         else False)"

definition requires_preflight :: "string \<Rightarrow> header list \<Rightarrow> bool" where
  "requires_preflight m headers =
     (if \<not> is_safelisted_method m then True
      else \<exists>(name, v) \<in> set headers. \<not> is_safelisted_header name v)"

datatype preflight_result = Allowed | Denied

definition list_items :: "string \<Rightarrow> string list" where
  "list_items v = map str_trim (split_on (CHR '','') v)"

definition method_listed :: "string \<Rightarrow> string option \<Rightarrow> bool" where
  "method_listed m allow_methods =
     (case allow_methods of
        None \<Rightarrow> False
      | Some v \<Rightarrow> \<exists>x \<in> set (list_items v). x = ''*'' \<or> eq_ignore_ascii_case x m)"

definition header_listed :: "string list \<Rightarrow> string \<Rightarrow> bool" where
  "header_listed allowed_set name = (\<exists>a \<in> set allowed_set. a = ''*'' \<or> eq_ignore_ascii_case a name)"

fun check_headers :: "string list \<Rightarrow> header list \<Rightarrow> preflight_result" where
  "check_headers allowed_set [] = Allowed"
| "check_headers allowed_set ((name, v) # hs) =
     (if is_safelisted_header name [] then check_headers allowed_set hs
      else if \<not> header_listed allowed_set name then Denied
      else check_headers allowed_set hs)"

definition validate_preflight ::
  "string \<Rightarrow> header list \<Rightarrow> string option \<Rightarrow> string option \<Rightarrow> string option \<Rightarrow> string option
    \<Rightarrow> bool \<Rightarrow> preflight_result" where
  "validate_preflight m request_headers allow_origin allow_methods allow_headers allow_credentials
     with_credentials =
     (let origin_ok = (case allow_origin of
                         Some v \<Rightarrow> str_trim v = ''*'' \<or> str_trim v = ''null''
                       | None \<Rightarrow> False)
      in if \<not> origin_ok then Denied
         else if with_credentials \<and> map_option str_trim allow_origin = Some ''*'' then Denied
         else if \<not> method_listed m allow_methods then Denied
         else (let allowed_set = (case allow_headers of Some v \<Rightarrow> list_items v | None \<Rightarrow> [])
               in check_headers allowed_set request_headers))"

section \<open>Referer\<close>

definition same_origin :: "url \<Rightarrow> url \<Rightarrow> bool" where
  "same_origin a b \<longleftrightarrow>
     url_scheme a = url_scheme b \<and> url_host_str a = url_host_str b \<and> url_port a = url_port b"

definition compute_referer :: "url \<Rightarrow> url \<Rightarrow> string option" where
  "compute_referer page_url request_url =
     (if url_scheme page_url = ''https'' \<and> url_scheme request_url = ''http'' then None
      else if same_origin page_url request_url
      then (let s = url_as_str page_url
            in case find_sub ''#'' s of Some pos \<Rightarrow> Some (take pos s) | None \<Rightarrow> Some s)
      else Some (url_ascii_origin page_url))"

section \<open>Lemmas\<close>

lemma check_headers_Allowed:
  "check_headers al hs = Allowed
    \<longleftrightarrow> (\<forall>(name, v) \<in> set hs. is_safelisted_header name [] \<or> header_listed al name)"
  by (induction al hs rule: check_headers.induct) auto

lemma validate_preflight_Allowed:
  "validate_preflight m hs org ms als cr wc = Allowed \<longleftrightarrow>
     (\<exists>v. org = Some v \<and> (str_trim v = ''null'' \<or> (str_trim v = ''*'' \<and> \<not> wc)))
     \<and> method_listed m ms
     \<and> (\<forall>(name, x) \<in> set hs. is_safelisted_header name []
          \<or> header_listed (case als of Some v \<Rightarrow> list_items v | None \<Rightarrow> []) name)"
  by (cases org) (auto simp: validate_preflight_def Let_def check_headers_Allowed)

lemma take_find_single:
  "(case find_sub [d] s of Some pos \<Rightarrow> Some (take pos s) | None \<Rightarrow> Some s)
    = Some (takeWhile (\<lambda>c. c \<noteq> d) s)"
proof (cases "d \<in> set s")
  case True
  then show ?thesis by (simp add: find_sub_single) (metis takeWhile_eq_take)
next
  case False
  then have "takeWhile (\<lambda>c. c \<noteq> d) s = s" by (intro takeWhile_eq_all_conv [THEN iffD2]) blast
  with False show ?thesis by (metis find_sub_single option.simps(4))
qed

lemma content_type_name: "to_ascii_lowercase name = ''content-type'' \<Longrightarrow> is_safelisted_header name []"
  by (simp add: is_safelisted_header_def Let_def str_trim_def dropWhile_end_def to_ascii_lowercase_def)

section \<open>Properties\<close>

text \<open>
  A preflight succeeds exactly when the server answered the origin \<open>null\<close> or a wildcard
  (the wildcard only without credentials), its method list names the method or has a star, and
  every header whose name alone is not safelisted is in its header list (or the list has a
  star). The method, the headers and the origin are all required; the answer's
  Allow-Credentials value plays no part.
\<close>
theorem preflight_allowed_exactly:
  "validate_preflight m hs org ms als cr wc = Allowed \<longleftrightarrow>
     (\<exists>v. org = Some v \<and> (str_trim v = ''null'' \<or> (str_trim v = ''*'' \<and> \<not> wc)))
     \<and> method_listed m ms
     \<and> (\<forall>(name, x) \<in> set hs. is_safelisted_header name []
          \<or> header_listed (case als of Some v \<Rightarrow> list_items v | None \<Rightarrow> []) name)"
  by (rule validate_preflight_Allowed)

theorem preflight_allowed_exactly_witness:
  "validate_preflight ''PUT'' [(''X-Token'', ''1'')] (Some ''*'') (Some ''GET, put'')
     (Some ''x-token'') None False = Allowed"
  by (rule preflight_allowed_exactly [THEN iffD2], intro conjI exI [of _ "''*''"]) code_simp+

text \<open>
  A server that grants the request by naming the requesting origin itself, as the Fetch
  standard has it do, is refused: whatever methods and headers it lists, an
  Access-Control-Allow-Origin value other than the two tokens \<open>*\<close> and \<open>null\<close> denies the
  request. With credentials even the wildcard is refused, so only \<open>null\<close> is left.
\<close>
theorem echoed_origin_is_denied:
  assumes "str_trim v \<noteq> ''null''" and "str_trim v \<noteq> ''*'' \<or> wc"
  shows "validate_preflight m hs (Some v) ms als cr wc = Denied"
  using assms by (auto simp: validate_preflight_def)

theorem echoed_origin_is_denied_witness:
  "validate_preflight ''PUT'' [] (Some ''https://app.example.com'') (Some ''*'') (Some ''*'')
     (Some ''true'') True = Denied"
  by (rule echoed_origin_is_denied) (code_simp, simp)

text \<open>
  The Referer tells a foreign site no more than the page's origin: for a request that is
  not same-origin with the page, two pages of one origin send the same Referer, whatever their
  paths and queries are, and what is sent, if anything is, is that origin.
\<close>
theorem referer_confidential:
  assumes "\<not> same_origin p r"
    and "same_origin p p'" and "url_ascii_origin p' = url_ascii_origin p"
  shows "compute_referer p' r = compute_referer p r
    \<and> compute_referer p r \<in> {None, Some (url_ascii_origin p)}"
  using assms by (auto simp: compute_referer_def same_origin_def)

theorem referer_confidential_witness:
  "let secret = sample_url ''https'' ''a.com'' ''/reset?token=1'' 443;
       home = sample_url ''https'' ''a.com'' ''/'' 443;
       other = sample_url ''https'' ''b.com'' ''/'' 443
   in compute_referer home other = compute_referer secret other
      \<and> compute_referer secret other \<in> {None, Some (url_ascii_origin secret)}"
  unfolding Let_def
  by (rule referer_confidential) (simp_all add: same_origin_def sample_url_def)

text \<open>
  To its own site a page sends its URL without the fragment: the Referer of a same-origin
  request has no \<open>#\<close> and is a prefix of the URL.
\<close>
theorem referer_same_origin_no_fragment:
  assumes "same_origin p r" and "compute_referer p r = Some s"
  shows "CHR ''#'' \<notin> set s \<and> starts_with (url_as_str p) s"
proof -
  have "s = takeWhile (\<lambda>c. c \<noteq> CHR ''#'') (url_as_str p)"
    using assms by (simp add: compute_referer_def Let_def take_find_single split: if_splits)
  then show ?thesis
    by (auto simp: starts_with_def takeWhile_eq_take [symmetric] dest: set_takeWhileD)
qed

theorem referer_same_origin_no_fragment_witness:
  "CHR ''#'' \<notin> set ''https://a.com/x''
    \<and> starts_with (url_as_str (sample_url ''https'' ''a.com'' ''/x#y'' 443)) ''https://a.com/x''"
  by (rule referer_same_origin_no_fragment [where r = "sample_url ''https'' ''a.com'' ''/'' 443"])
    (simp_all add: same_origin_def sample_url_def, code_simp)

end
