(* ===== verification/Robots.thy ===== *)
theory Robots
  imports UnicodeCase
begin

text \<open>
  \<open>oxibrowser-core/src/network/robots.rs\<close>: the robots.txt store. The two maps (domain to
  rules, agent to its lists) are dictionaries; the never-read \<open>sitemaps\<close> field is kept empty,
  as the code keeps it.
\<close>

section \<open>Data and parsing\<close>

record agent_rules =
  ar_allow :: "string list"
  ar_disallow :: "string list"

definition agent_rules_default :: agent_rules where
  "agent_rules_default = \<lparr>ar_allow = [], ar_disallow = []\<rparr>"

type_synonym robot_rules = "(string, agent_rules) dict"

record robot_store =
  rules :: "(string, robot_rules) dict"
  sitemaps :: "(string, string list) dict"

definition robot_store_new :: robot_store where
  "robot_store_new = \<lparr>rules = [], sitemaps = []\<rparr>"

definition entry_or_default :: "string \<Rightarrow> robot_rules \<Rightarrow> agent_rules" where
  "entry_or_default agent rs =
     (case dict_get rs agent of Some r \<Rightarrow> r | None \<Rightarrow> agent_rules_default)"

definition push_allow :: "string \<Rightarrow> string \<Rightarrow> robot_rules \<Rightarrow> robot_rules" where
  "push_allow v agent rs =
     (let r = entry_or_default agent rs
      in dict_insert agent (r\<lparr>ar_allow := ar_allow r @ [v]\<rparr>) rs)"

definition push_disallow :: "string \<Rightarrow> string \<Rightarrow> robot_rules \<Rightarrow> robot_rules" where
  "push_disallow v agent rs =
     (let r = entry_or_default agent rs
      in dict_insert agent (r\<lparr>ar_disallow := ar_disallow r @ [v]\<rparr>) rs)"

fun add_line :: "string \<Rightarrow> robot_rules \<times> string list \<Rightarrow> robot_rules \<times> string list" where
  "add_line raw (rs, current_agents) =
     (let line = str_trim raw
      in if line = [] \<or> starts_with line ''#'' then (rs, current_agents)
         else case split_once (CHR '':'') line of
                None \<Rightarrow> (rs, current_agents)
              | Some (directive, v) \<Rightarrow>
                  (let directive = to_lowercase (str_trim directive);
                       v = str_trim v
                   in if directive = ''user-agent'' then (rs, [to_lowercase v])
                      else if directive = ''allow''
                      then (fold (push_allow v) current_agents rs, current_agents)
                      else if directive = ''disallow''
                      then (fold (push_disallow v) current_agents rs, current_agents)
                      else (rs, current_agents)))"

definition parse_robots :: "string \<Rightarrow> robot_rules" where
  "parse_robots content = fst (fold add_line (str_lines content) ([], [''*'']))"

definition robot_store_add :: "string \<Rightarrow> string \<Rightarrow> robot_store \<Rightarrow> robot_store" where
  "robot_store_add domain content st =
     st\<lparr>rules := dict_insert (to_lowercase domain) (parse_robots content) (rules st)\<rparr>"

section \<open>Checking a URL\<close>

definition extract_domain :: "string \<Rightarrow> string" where
  "extract_domain url =
     (case find_sub ''://'' url of
        Some start \<Rightarrow>
          (let after = drop (start + 3) url;
               host_end = (case find_sub ''/'' after of Some i \<Rightarrow> i | None \<Rightarrow> length after);
               host = take host_end after
           in to_lowercase (hd (split_on (CHR '':'') host)))
      | None \<Rightarrow> [])"

definition extract_path :: "string \<Rightarrow> string" where
  "extract_path url =
     (case find_sub ''://'' url of
        Some start \<Rightarrow>
          (let after = drop (start + 3) url
           in case find_sub ''/'' after of Some pos \<Rightarrow> drop pos after | None \<Rightarrow> ''/'')
      | None \<Rightarrow> url)"

definition path_matches :: "string \<Rightarrow> string \<Rightarrow> bool" where
  "path_matches pattern path =
     (if pattern = ''/'' then True
      else if pattern = [] then False
      else case strip_suffix pattern ''$'' of
             Some p \<Rightarrow> path = p
           | None \<Rightarrow>
               (case strip_suffix pattern ''*'' of
                  Some p \<Rightarrow> starts_with path p
                | None \<Rightarrow> starts_with path pattern))"

fun best_len :: "string \<Rightarrow> string list \<Rightarrow> nat \<Rightarrow> nat" where
  "best_len path [] best = best"
| "best_len path (rule # rs) best =
     best_len path rs
       (if path_matches rule path \<and> length rule > best then length rule else best)"

definition best_for :: "string \<Rightarrow> robot_rules \<Rightarrow> string \<Rightarrow> nat \<times> nat \<Rightarrow> nat \<times> nat" where
  "best_for path rs agent b =
     (case dict_get rs agent of
        Some a \<Rightarrow> (best_len path (ar_allow a) (fst b), best_len path (ar_disallow a) (snd b))
      | None \<Rightarrow> b)"

definition robot_is_allowed :: "robot_store \<Rightarrow> string \<Rightarrow> string \<Rightarrow> bool" where
  "robot_is_allowed st url user_agent =
     (let path = extract_path url;
          domain = extract_domain url
      in case dict_get (rules st) domain of
           None \<Rightarrow> True
         | Some rs \<Rightarrow>
             (let b = best_for path rs ''*'' (0, 0);
                  b = best_for path rs (to_lowercase user_agent) b
              in fst b \<ge> snd b))"

section \<open>Lemmas\<close>

lemma best_len_geq: "n \<le> best_len path rs b \<longleftrightarrow>
    n \<le> b \<or> (\<exists>r \<in> set rs. path_matches r path \<and> n \<le> length r)"
  by (induction path rs b rule: best_len.induct) auto

text \<open>The rules that speak about a user agent: those of \<open>*\<close> and those under its own name.\<close>

definition lists_of :: "(agent_rules \<Rightarrow> string list) \<Rightarrow> robot_rules \<Rightarrow> string \<Rightarrow> string set" where
  "lists_of f rs agent = (case dict_get rs agent of Some a \<Rightarrow> set (f a) | None \<Rightarrow> {})"

definition rules_for :: "(agent_rules \<Rightarrow> string list) \<Rightarrow> robot_rules \<Rightarrow> string \<Rightarrow> string set" where
  "rules_for f rs ua = lists_of f rs ''*'' \<union> lists_of f rs (to_lowercase ua)"

lemma best_for_geq:
  "n \<le> fst (best_for path rs agent b) \<longleftrightarrow>
     n \<le> fst b \<or> (\<exists>r \<in> lists_of ar_allow rs agent. path_matches r path \<and> n \<le> length r)"
  "n \<le> snd (best_for path rs agent b) \<longleftrightarrow>
     n \<le> snd b \<or> (\<exists>r \<in> lists_of ar_disallow rs agent. path_matches r path \<and> n \<le> length r)"
  by (auto simp: best_for_def lists_of_def best_len_geq split: option.splits)

lemma path_matches_not_Nil: "path_matches r path \<Longrightarrow> r \<noteq> []"
  by (auto simp: path_matches_def)

lemma nat_le_iff_levels: "(a::nat) \<ge> b \<longleftrightarrow> (\<forall>n. n \<le> b \<longrightarrow> n \<le> a)"
  by auto

lemma levels_dominated:
  assumes "\<And>d. d \<in> D \<Longrightarrow> M d \<Longrightarrow> f d \<noteq> (0::nat)"
  shows "(\<forall>n. (n = 0 \<or> (\<exists>d \<in> D. M d \<and> n \<le> f d)) \<longrightarrow> (n = 0 \<or> (\<exists>a \<in> A. M a \<and> n \<le> f a)))
    \<longleftrightarrow> (\<forall>d \<in> D. M d \<longrightarrow> (\<exists>a \<in> A. M a \<and> f d \<le> f a))"
proof (intro iffI ballI impI allI)
  fix d assume all: "\<forall>n. (n = 0 \<or> (\<exists>d \<in> D. M d \<and> n \<le> f d)) \<longrightarrow> (n = 0 \<or> (\<exists>a \<in> A. M a \<and> n \<le> f a))"
    and d: "d \<in> D" "M d"
  from d have "\<exists>d' \<in> D. M d' \<and> f d \<le> f d'" by blast
  with all have "f d = 0 \<or> (\<exists>a \<in> A. M a \<and> f d \<le> f a)" by simp
  with assms [OF d] show "\<exists>a \<in> A. M a \<and> f d \<le> f a" by simp
next
  fix n assume dom: "\<forall>d \<in> D. M d \<longrightarrow> (\<exists>a \<in> A. M a \<and> f d \<le> f a)"
    and n: "n = 0 \<or> (\<exists>d \<in> D. M d \<and> n \<le> f d)"
  from n show "n = 0 \<or> (\<exists>a \<in> A. M a \<and> n \<le> f a)"
  proof
    assume "\<exists>d \<in> D. M d \<and> n \<le> f d"
    then obtain d where "d \<in> D" "M d" "n \<le> f d" by auto
    with dom obtain a where "a \<in> A" "M a" "f d \<le> f a" by auto
    with \<open>n \<le> f d\<close> show ?thesis by (meson le_trans)
  qed simp
qed

text \<open>A line that names a user agent.\<close>

definition agent_line :: "string \<Rightarrow> bool" where
  "agent_line raw \<longleftrightarrow>
     \<not> starts_with (str_trim raw) ''#''
     \<and> (case split_once (CHR '':'') (str_trim raw) of
          Some (d, v) \<Rightarrow> to_lowercase (str_trim d) = ''user-agent''
        | None \<Rightarrow> False)"

lemma add_agent_line:
  assumes "agent_line l"
  shows "\<exists>a. \<forall>rs cur. add_line l (rs, cur) = (rs, [a])"
proof -
  obtain d v where split: "split_once (CHR '':'') (str_trim l) = Some (d, v)"
    and d: "to_lowercase (str_trim d) = ''user-agent''"
    and no_hash: "\<not> starts_with (str_trim l) ''#''"
    using assms by (auto simp: agent_line_def split: option.splits prod.splits)
  have "str_trim l \<noteq> []" using split_once_Some [OF split] by auto
  then have "add_line l (rs, cur) = (rs, [to_lowercase (str_trim v)])" for rs cur
    using split d no_hash by (simp add: Let_def)
  then show ?thesis by blast
qed

section \<open>Properties\<close>

text \<open>
  Longest match wins and Allow wins ties: a URL of a domain with rules is refused exactly
  when some Disallow pattern for the agent (under its own name or \<open>*\<close>) matches its path and
  every matching Allow pattern for it is strictly shorter.
\<close>
theorem robots_longest_match:
  assumes "dict_get (rules st) (extract_domain url) = Some rs"
  shows "robot_is_allowed st url ua \<longleftrightarrow>
    \<not> (\<exists>d \<in> rules_for ar_disallow rs ua. path_matches d (extract_path url)
        \<and> (\<forall>a \<in> rules_for ar_allow rs ua. path_matches a (extract_path url) \<longrightarrow> length a < length d))"
proof -
  let ?p = "extract_path url"
  let ?b = "best_for ?p rs (to_lowercase ua) (best_for ?p rs ''*'' (0, 0))"
  have dis: "n \<le> snd ?b \<longleftrightarrow> n = 0 \<or> (\<exists>d \<in> rules_for ar_disallow rs ua. path_matches d ?p \<and> n \<le> length d)" for n
    by (auto simp: best_for_geq rules_for_def)
  have al: "n \<le> fst ?b \<longleftrightarrow> n = 0 \<or> (\<exists>a \<in> rules_for ar_allow rs ua. path_matches a ?p \<and> n \<le> length a)" for n
    by (auto simp: best_for_geq rules_for_def)
  have "robot_is_allowed st url ua \<longleftrightarrow> (\<forall>n. n \<le> snd ?b \<longrightarrow> n \<le> fst ?b)"
    using assms by (simp add: robot_is_allowed_def Let_def) (rule nat_le_iff_levels)
  also have "\<dots> \<longleftrightarrow> (\<forall>d \<in> rules_for ar_disallow rs ua. path_matches d ?p \<longrightarrow>
      (\<exists>a \<in> rules_for ar_allow rs ua. path_matches a ?p \<and> length d \<le> length a))"
    unfolding dis al by (rule levels_dominated) (simp add: path_matches_not_Nil)
  also have "\<dots> \<longleftrightarrow> \<not> (\<exists>d \<in> rules_for ar_disallow rs ua. path_matches d ?p
        \<and> (\<forall>a \<in> rules_for ar_allow rs ua. path_matches a ?p \<longrightarrow> length a < length d))"
    by (meson leD leI)
  finally show ?thesis .
qed

theorem robots_longest_match_witness:
  "let st = robot_store_add ''Example.com''
              (''User-agent: *'' @ [CHR 0x0A] @ ''Disallow: /private'' @ [CHR 0x0A]
                @ ''Allow: /private/open'' @ [CHR 0x0A]) robot_store_new;
       url = ''https://example.com/private/open/x''
   in robot_is_allowed st url ''bot'' \<and> \<not> robot_is_allowed st ''https://example.com/private/x'' ''bot''"
proof -
  let ?st = "robot_store_add ''Example.com''
              (''User-agent: *'' @ [CHR 0x0A] @ ''Disallow: /private'' @ [CHR 0x0A]
                @ ''Allow: /private/open'' @ [CHR 0x0A]) robot_store_new"
  let ?rs = "[(''*'', \<lparr>ar_allow = [''/private/open''], ar_disallow = [''/private'']\<rparr>)]"
  have st: "dict_get (rules ?st) (extract_domain url) = Some ?rs"
    if "url = ''https://example.com/private/open/x'' \<or> url = ''https://example.com/private/x''" for url
    using that by (elim disjE) (hypsubst, code_simp)+
  have sets: "rules_for ar_disallow ?rs ''bot'' = {''/private''}" "rules_for ar_allow ?rs ''bot'' = {''/private/open''}"
    by code_simp+
  have "robot_is_allowed ?st ''https://example.com/private/open/x'' ''bot''"
    unfolding robots_longest_match [OF st [OF disjI1 [OF refl]]] sets by code_simp
  moreover have "\<not> robot_is_allowed ?st ''https://example.com/private/x'' ''bot''"
    unfolding robots_longest_match [OF st [OF disjI2 [OF refl]]] sets by code_simp
  ultimately show ?thesis unfolding Let_def by blast
qed

text \<open>
  Agents do not group: of two user-agent lines that follow each other, the first has no
  effect, so the rules below them are kept for the second agent alone and the first one falls
  back to the rules of \<open>*\<close>.
\<close>
theorem grouped_agents_last_wins:
  assumes "agent_line l1" and "agent_line l2"
  shows "fold add_line (pre @ [l1, l2] @ post) st = fold add_line (pre @ [l2] @ post) st"
proof -
  obtain a b where "\<And>rs cur. add_line l1 (rs, cur) = (rs, [a])"
    and "\<And>rs cur. add_line l2 (rs, cur) = (rs, [b])"
    using assms by (meson add_agent_line)
  then show ?thesis by (cases "fold add_line pre st") (simp del: add_line.simps)
qed

theorem grouped_agents_last_wins_witness:
  "fold add_line ([] @ [''User-agent: a'', ''user-agent: b''] @ [''Disallow: /x'']) ([], [''*''])
     = fold add_line ([] @ [''user-agent: b''] @ [''Disallow: /x'']) ([], [''*''])"
  by (rule grouped_agents_last_wins) code_simp+

text \<open>
  An agent's own group does not take the place of the rules for \<open>*\<close>: both are merged, so
  a page closed to everyone by a long pattern stays closed to an agent whose own group opens it
  with a shorter one.
\<close>
theorem own_group_does_not_override:
  "\<not> robot_is_allowed
       (robot_store_add ''a.com''
         (''User-agent: *'' @ [CHR 0x0A] @ ''Disallow: /docs/'' @ [CHR 0x0A]
           @ ''User-agent: good'' @ [CHR 0x0A] @ ''Allow: /'' @ [CHR 0x0A]) robot_store_new)
       ''https://a.com/docs/x'' ''good''"
  by code_simp

end
