(* ===== verification/Intercept.thy ===== *)
theory Intercept
  imports Prelude
begin

text \<open>
  \<open>oxibrowser-core/src/network/intercept.rs\<close>: the registry of requests that wait for the
  decision of a CDP client. The reply channel of a request is a number that identifies it. Every
  operation takes the registry's lock for its whole body, so the concurrent calls of the fetch
  bridge and of the CDP layer are the interleavings of the steps below.
\<close>

section \<open>The registry\<close>

datatype intercept_action =
    ActContinue "string option" "string option" "(string \<times> string) list" "string option"
  | ActFail string
  | ActFulfill int string "(string \<times> string) list" string

record paused_request =
  pr_url :: string
  pr_method :: string
  pr_headers :: "(string \<times> string) list"
  pr_resource_type :: string
  pr_tx :: nat

type_synonym registry = "(string, paused_request) dict"

definition registry_new :: registry where
  "registry_new = []"

definition registry_insert :: "string \<Rightarrow> paused_request \<Rightarrow> registry \<Rightarrow> bool \<times> registry" where
  "registry_insert request_id request reg =
     (if dict_get reg request_id \<noteq> None then (False, reg)
      else (True, dict_insert request_id request reg))"

definition registry_take :: "string \<Rightarrow> registry \<Rightarrow> paused_request option \<times> registry" where
  "registry_take request_id reg = (dict_get reg request_id, dict_remove request_id reg)"

definition registry_remove :: "string \<Rightarrow> registry \<Rightarrow> registry" where
  "registry_remove request_id reg = dict_remove request_id reg"

definition registry_len :: "registry \<Rightarrow> nat" where
  "registry_len reg = length reg"

definition registry_is_empty :: "registry \<Rightarrow> bool" where
  "registry_is_empty reg \<longleftrightarrow> reg = []"

section \<open>Interleavings\<close>

datatype reg_event =
    Inserted string paused_request
  | Refused string
  | Taken string paused_request
  | Missed string
  | Removed string

inductive reg_step :: "registry \<Rightarrow> reg_event \<Rightarrow> registry \<Rightarrow> bool" where
  step_insert: "registry_insert i r s = (True, s') \<Longrightarrow> reg_step s (Inserted i r) s'"
| step_refuse: "registry_insert i r s = (False, s') \<Longrightarrow> reg_step s (Refused i) s'"
| step_take: "registry_take i s = (Some r, s') \<Longrightarrow> reg_step s (Taken i r) s'"
| step_miss: "registry_take i s = (None, s') \<Longrightarrow> reg_step s (Missed i) s'"
| step_remove: "registry_remove i s = s' \<Longrightarrow> reg_step s (Removed i) s'"

inductive reg_run :: "registry \<Rightarrow> reg_event list \<Rightarrow> registry \<Rightarrow> bool" where
  run_start: "reg_run s [] s"
| run_step: "reg_run s evs s' \<Longrightarrow> reg_step s' e s'' \<Longrightarrow> reg_run s (evs @ [e]) s''"

inductive_simps reg_step_Inserted: "reg_step s (Inserted i r) s'"
inductive_simps reg_step_Refused: "reg_step s (Refused i) s'"
inductive_simps reg_step_Taken: "reg_step s (Taken i r) s'"
inductive_simps reg_step_Missed: "reg_step s (Missed i) s'"
inductive_simps reg_step_Removed: "reg_step s (Removed i) s'"

lemmas reg_step_iffs =
  reg_step_Inserted reg_step_Refused reg_step_Taken reg_step_Missed reg_step_Removed

lemmas registry_defs =
  registry_insert_def registry_take_def registry_remove_def

fun inserts_of :: "string \<Rightarrow> reg_event \<Rightarrow> nat" where
  "inserts_of i (Inserted j r) = (if i = j then 1 else 0)"
| "inserts_of i _ = 0"

fun takes_of :: "string \<Rightarrow> reg_event \<Rightarrow> nat" where
  "takes_of i (Taken j r) = (if i = j then 1 else 0)"
| "takes_of i _ = 0"

definition pending :: "string \<Rightarrow> registry \<Rightarrow> nat" where
  "pending i s = (if dict_get s i = None then 0 else 1)"

lemma step_accounts:
  "reg_step s e s' \<Longrightarrow> takes_of i e + pending i s' \<le> inserts_of i e + pending i s"
  by (cases e) (auto simp: reg_step_iffs registry_defs pending_def dict_get_insert dict_get_remove
      split: if_splits)

lemma run_accounts:
  "reg_run s evs s' \<Longrightarrow>
    sum_list (map (takes_of i) evs) + pending i s' \<le> sum_list (map (inserts_of i) evs) + pending i s"
  by (induction rule: reg_run.induct) (auto dest: step_accounts [of _ _ _ i])

lemma step_kept:
  "reg_step s e s' \<Longrightarrow> dict_get s' i = Some r \<Longrightarrow> e = Inserted i r \<or> dict_get s i = Some r"
  by (cases e) (auto simp: reg_step_iffs registry_defs dict_get_insert dict_get_remove split: if_splits)

lemma run_kept:
  "reg_run s evs s' \<Longrightarrow> dict_get s' i = Some r \<Longrightarrow> Inserted i r \<in> set evs \<or> dict_get s i = Some r"
  by (induction arbitrary: r rule: reg_run.induct) (auto dest: step_kept)

lemma run_taken:
  "reg_run s evs s' \<Longrightarrow> Taken i r \<in> set evs \<Longrightarrow> Inserted i r \<in> set evs \<or> dict_get s i = Some r"
proof (induction rule: reg_run.induct)
  case (run_step s evs s' e s'')
  then consider "Taken i r \<in> set evs" | "e = Taken i r" by auto
  then show ?case
  proof cases
    case 2
    with run_step.hyps(2) have "dict_get s' i = Some r"
      by (auto simp: reg_step_Taken registry_take_def)
    with run_kept [OF run_step.hyps(1)] show ?thesis by auto
  qed (use run_step.IH in auto)
qed simp

section \<open>Properties\<close>

text \<open>
  A paused request is answered at most once, and only by its own entry: in every
  interleaving of inserts, takes and removals from the empty registry, a request handed out
  under an id was inserted under it, and the id is handed out no more often than it was
  inserted; a second insert under a pending id is refused and leaves the first entry.
\<close>
theorem paused_request_answered_once:
  assumes "reg_run registry_new evs s" and "Taken i r \<in> set evs"
  shows "Inserted i r \<in> set evs
    \<and> sum_list (map (takes_of i) evs) \<le> sum_list (map (inserts_of i) evs)"
  using run_taken [OF assms] run_accounts [OF assms(1), of i]
  by (auto simp: registry_new_def pending_def)

theorem paused_request_answered_once_witness:
  "let r = \<lparr>pr_url = ''u'', pr_method = ''GET'', pr_headers = [], pr_resource_type = ''XHR'', pr_tx = 0\<rparr>;
       evs = [Inserted ''1'' r, Refused ''1'', Taken ''1'' r, Missed ''1'']
   in Inserted ''1'' r \<in> set evs
      \<and> sum_list (map (takes_of ''1'') evs) \<le> sum_list (map (inserts_of ''1'') evs)"
  unfolding Let_def
proof (rule paused_request_answered_once)
  let ?r = "\<lparr>pr_url = ''u'', pr_method = ''GET'', pr_headers = [], pr_resource_type = ''XHR'', pr_tx = 0\<rparr>"
  have "reg_run registry_new ((([] @ [Inserted ''1'' ?r]) @ [Refused ''1'']) @ [Taken ''1'' ?r] @ [Missed ''1'']) []"
    unfolding append_assoc [symmetric]
    by (rule run_step run_start
        | (simp add: reg_step_iffs registry_defs registry_new_def; fail))+
  then show "reg_run registry_new [Inserted ''1'' ?r, Refused ''1'', Taken ''1'' ?r, Missed ''1''] []"
    by simp
qed simp

end
