(* ===== verification/Auth.thy ===== *)
theory Auth
  imports Prelude
begin

text \<open>
  \<open>oxibrowser-core/src/network/auth.rs\<close>: the Authorization header for a Basic or Digest
  challenge. MD5 (16 bytes of digest) and Base64 are arguments. The client nonce is a process-wide
  64-bit counter, threaded as state.
\<close>

section \<open>Challenges\<close>

record crypto =
  md5 :: "string \<Rightarrow> string"
  base64 :: "string \<Rightarrow> string"

definition md5_hex :: "crypto \<Rightarrow> string \<Rightarrow> string" where
  "md5_hex cr s = concat (map hex_byte (md5 cr s))"

definition trim_matches_char :: "char \<Rightarrow> string \<Rightarrow> string" where
  "trim_matches_char d s = trim_end_char d (trim_start_char d s)"

definition parse_one_token :: "string \<Rightarrow> (string, string) dict \<Rightarrow> (string, string) dict" where
  "parse_one_token token params =
     (case split_once (CHR ''='') (str_trim token) of
        None \<Rightarrow> params
      | Some (k, v) \<Rightarrow>
          dict_insert (to_ascii_lowercase (str_trim k)) (trim_matches_char (CHR 0x22) (str_trim v)) params)"

fun digest_loop :: "string \<Rightarrow> bool \<Rightarrow> string \<Rightarrow> (string, string) dict \<Rightarrow> string \<times> (string, string) dict" where
  "digest_loop [] in_quote token params = (token, params)"
| "digest_loop (ch # cs) in_quote token params =
     (if ch = CHR 0x22 then digest_loop cs (\<not> in_quote) (token @ [ch]) params
      else if ch = CHR '','' \<and> \<not> in_quote then digest_loop cs in_quote [] (parse_one_token token params)
      else digest_loop cs in_quote (token @ [ch]) params)"

definition parse_digest_params :: "string \<Rightarrow> (string, string) dict" where
  "parse_digest_params challenge =
     (let body = str_trim (concat (dropWhile (\<lambda>u. \<not> is_whitespace u) (utf8_chars challenge)));
          (token, params) = digest_loop body False [] []
      in if str_trim token \<noteq> [] then parse_one_token token params else params)"

section \<open>Answers\<close>

definition basic_auth :: "crypto \<Rightarrow> string \<Rightarrow> string \<Rightarrow> string" where
  "basic_auth cr username password = ''Basic '' @ base64 cr (username @ '':'' @ password)"

definition cnonce :: "int \<Rightarrow> string \<times> int" where
  "cnonce counter = (show_hex counter, (counter + 1) mod 2 ^ 64)"

definition quoted :: "string \<Rightarrow> string" where
  "quoted s = [CHR 0x22] @ s @ [CHR 0x22]"

definition digest_auth ::
  "crypto \<Rightarrow> string \<Rightarrow> string \<Rightarrow> string \<Rightarrow> string \<Rightarrow> string \<Rightarrow> int \<Rightarrow> string option \<times> int" where
  "digest_auth cr challenge meth uri username password counter =
     (let p = parse_digest_params challenge
      in case dict_get p ''realm'' of
           None \<Rightarrow> (None, counter)
         | Some realm \<Rightarrow>
             (case dict_get p ''nonce'' of
                None \<Rightarrow> (None, counter)
              | Some nonce \<Rightarrow>
                  (let qop = dict_get p ''qop'';
                       algorithm = map_option to_ascii_lowercase (dict_get p ''algorithm'');
                       sess = (algorithm = Some ''md5-sess'');
                       ha1 = md5_hex cr (username @ '':'' @ realm @ '':'' @ password);
                       (ha1, counter) =
                         (if sess
                          then (let (cn, counter) = cnonce counter
                                in (md5_hex cr (ha1 @ '':'' @ nonce @ '':'' @ cn), counter))
                          else (ha1, counter));
                       ha2 = md5_hex cr (meth @ '':'' @ uri);
                       qop_auth = (case qop of
                                     Some q \<Rightarrow> \<exists>t \<in> set (split_on (CHR '','') q). str_trim t = ''auth''
                                   | None \<Rightarrow> False)
                   in if qop_auth
                      then (let nc = ''00000001'';
                                (cn, counter) = cnonce counter;
                                resp = md5_hex cr (ha1 @ '':'' @ nonce @ '':'' @ nc @ '':'' @ cn
                                         @ '':auth:'' @ ha2)
                            in (Some (''Digest username='' @ quoted username @ '', realm='' @ quoted realm
                                  @ '', nonce='' @ quoted nonce @ '', uri='' @ quoted uri
                                  @ '', qop=auth, nc='' @ nc @ '', cnonce='' @ quoted cn
                                  @ '', response='' @ quoted resp @ '', algorithm=MD5''), counter))
                      else (let resp = md5_hex cr (ha1 @ '':'' @ nonce @ '':'' @ ha2)
                            in (Some (''Digest username='' @ quoted username @ '', realm='' @ quoted realm
                                  @ '', nonce='' @ quoted nonce @ '', uri='' @ quoted uri
                                  @ '', response='' @ quoted resp @ '', algorithm=MD5''), counter)))))"

definition build_authorization ::
  "crypto \<Rightarrow> string \<Rightarrow> string \<Rightarrow> string \<Rightarrow> string \<Rightarrow> string \<Rightarrow> int \<Rightarrow> string option \<times> int" where
  "build_authorization cr challenge meth uri username password counter =
     (let trimmed = str_trim challenge;
          lower = to_ascii_lowercase trimmed
      in if starts_with lower ''basic'' then (Some (basic_auth cr username password), counter)
         else if starts_with lower ''digest'' then digest_auth cr trimmed meth uri username password counter
         else (None, counter))"

section \<open>Lemmas\<close>

definition param_ok :: "string \<times> string \<Rightarrow> bool" where
  "param_ok kv \<longleftrightarrow> is_ascii_str (fst kv) \<and> is_ascii_str (snd kv)
     \<and> to_ascii_lowercase (fst kv) = fst kv
     \<and> (\<forall>c \<in> set (fst kv). \<not> is_whitespace [c] \<and> c \<noteq> CHR ''='' \<and> c \<noteq> CHR '','' \<and> c \<noteq> CHR 0x22)
     \<and> CHR 0x22 \<notin> set (snd kv)"

definition render_param :: "string \<times> string \<Rightarrow> string" where
  "render_param kv = fst kv @ ''='' @ quoted (snd kv)"

definition render_challenge :: "(string \<times> string) list \<Rightarrow> string" where
  "render_challenge ps = ''Digest '' @ join_with '', '' (map render_param ps)"

definition finish :: "string \<times> (string, string) dict \<Rightarrow> (string, string) dict" where
  "finish tp = (if str_trim (fst tp) \<noteq> [] then parse_one_token (fst tp) (snd tp) else snd tp)"

lemma loop_plain:
  "(\<And>c. c \<in> set xs \<Longrightarrow> c \<noteq> CHR 0x22 \<and> (q \<or> c \<noteq> CHR '','')) \<Longrightarrow>
    digest_loop (xs @ rest) q tok ps = digest_loop rest q (tok @ xs) ps"
  by (induction xs arbitrary: tok) auto

lemma loop_param:
  assumes "param_ok kv"
  shows "digest_loop (render_param kv @ rest) False tok ps = digest_loop rest False (tok @ render_param kv) ps"
proof -
  have "digest_loop (fst kv @ ''='' @ quoted (snd kv) @ rest) False tok ps
      = digest_loop (snd kv @ [CHR 0x22] @ rest) True (tok @ fst kv @ ''='' @ [CHR 0x22]) ps"
    using assms by (subst loop_plain) (auto simp: param_ok_def quoted_def)
  also have "\<dots> = digest_loop rest False (tok @ render_param kv) ps"
    using assms by (subst loop_plain) (auto simp: param_ok_def render_param_def quoted_def)
  finally show ?thesis by (simp add: render_param_def)
qed

lemma not_whitespace_ascii [simp]: "\<not> is_whitespace [CHR 0x22]" "\<not> is_whitespace ''=''"
  by (simp_all add: is_whitespace_def)

lemma is_ascii_param: "param_ok kv \<Longrightarrow> is_ascii_str (render_param kv)"
  by (auto simp: param_ok_def render_param_def quoted_def is_ascii_str_def)

lemma render_param_ends:
  "param_ok kv \<Longrightarrow> render_param kv \<noteq> [] \<and> \<not> is_whitespace [hd (render_param kv)] \<and> last (render_param kv) = CHR 0x22"
  by (cases "fst kv") (auto simp: param_ok_def render_param_def quoted_def)

lemma trim_quoted: "CHR 0x22 \<notin> set v \<Longrightarrow> trim_matches_char (CHR 0x22) (quoted v) = v"
proof -
  assume no: "CHR 0x22 \<notin> set v"
  have keep: "dropWhile (\<lambda>c. c = CHR 0x22) xs = xs" if "CHR 0x22 \<notin> set xs" for xs :: string
    using that by (cases xs) auto
  show ?thesis
  proof (cases v)
    case (Cons c cs)
    with no have "dropWhile (\<lambda>c. c = CHR 0x22) (v @ [CHR 0x22]) = v @ [CHR 0x22]" by auto
    with no keep [of "rev v"] show ?thesis
      by (simp add: trim_matches_char_def trim_start_char_def trim_end_char_def dropWhile_end_def quoted_def)
  qed (simp add: trim_matches_char_def trim_start_char_def trim_end_char_def dropWhile_end_def quoted_def)
qed

lemma parse_token_param:
  assumes "param_ok kv" and "pre = [] \<or> pre = '' ''"
  shows "parse_one_token (pre @ render_param kv) ps = dict_insert (fst kv) (snd kv) ps"
proof -
  have trim: "str_trim (pre @ render_param kv) = fst kv @ CHR ''='' # quoted (snd kv)"
    using assms(2) str_trim_id [OF is_ascii_param [OF assms(1)]] render_param_ends [OF assms(1)]
      str_trim_space [OF is_ascii_param [OF assms(1)]]
    by (auto simp: render_param_def)
  have "split_once (CHR ''='') (fst kv @ CHR ''='' # quoted (snd kv)) = Some (fst kv, quoted (snd kv))"
    using assms(1) by (intro split_once_append) (auto simp: param_ok_def)
  moreover have "str_trim (fst kv) = fst kv"
  proof (rule str_trim_id)
    have "\<not> is_whitespace [c]" if "c \<in> set (fst kv)" for c
      using assms(1) that by (simp add: param_ok_def)
    then show "fst kv = [] \<or> \<not> is_whitespace [hd (fst kv)] \<and> \<not> is_whitespace [last (fst kv)]"
      by (cases "fst kv = []") simp_all
  qed (use assms(1) in \<open>simp add: param_ok_def\<close>)
  moreover have "str_trim (quoted (snd kv)) = quoted (snd kv)"
    using assms(1) by (intro str_trim_id) (auto simp: param_ok_def is_ascii_str_def quoted_def)
  moreover have "trim_matches_char (CHR 0x22) (quoted (snd kv)) = snd kv"
    using assms(1) by (intro trim_quoted) (simp add: param_ok_def)
  moreover have "to_ascii_lowercase (fst kv) = fst kv"
    using assms(1) by (simp add: param_ok_def)
  ultimately show ?thesis by (simp add: parse_one_token_def trim)
qed

lemma loop_params:
  "\<lbrakk>list_all param_ok ps; ps \<noteq> []; pre = [] \<or> pre = '' ''\<rbrakk> \<Longrightarrow>
    finish (digest_loop (join_with '', '' (map render_param ps)) False pre acc)
      = fold (\<lambda>kv. dict_insert (fst kv) (snd kv)) ps acc"
proof (induction ps arbitrary: pre acc)
  case (Cons kv ps)
  then have ok: "param_ok kv" by simp
  show ?case
  proof (cases ps)
    case Nil
    have "str_trim (pre @ render_param kv) \<noteq> []"
      using Cons.prems(3) str_trim_id [OF is_ascii_param [OF ok]] render_param_ends [OF ok]
        str_trim_space [OF is_ascii_param [OF ok]] by auto
    then show ?thesis
      using Nil loop_param [OF ok, of "[]" pre acc] parse_token_param [OF ok Cons.prems(3)]
      by (simp add: finish_def)
  next
    case (Cons kv' ps')
    then show ?thesis
      using Cons.prems Cons.IH [of "'' ''" "dict_insert (fst kv) (snd kv) acc"]
        loop_param [OF ok] parse_token_param [OF ok Cons.prems(3)]
      by simp
  qed
qed simp

lemma fold_insert_distinct:
  "distinct (map fst (acc @ ps)) \<Longrightarrow> fold (\<lambda>kv. dict_insert (fst kv) (snd kv)) ps acc = acc @ ps"
proof (induction ps arbitrary: acc)
  case (Cons kv ps)
  have "dict_insert (fst kv) (snd kv) acc = acc @ [kv]"
    using Cons.prems by (simp add: dict_insert_new)
  with Cons.IH [of "acc @ [kv]"] Cons.prems show ?case by simp
qed simp

lemma dropWhile_scheme:
  assumes "is_ascii_str body"
  shows "concat (dropWhile (\<lambda>u. \<not> is_whitespace u) (utf8_chars (''Digest '' @ body))) = CHR '' '' # body"
proof -
  have "is_ascii_str (''Digest '' @ body)" using assms by (auto simp: is_ascii_str_def)
  then show ?thesis unfolding utf8_chars_ascii [OF \<open>is_ascii_str (''Digest '' @ body)\<close>]
    by (simp add: is_whitespace_def)
qed

lemma parse_render:
  assumes "list_all param_ok ps" and "ps \<noteq> []" and "distinct (map fst ps)"
  shows "parse_digest_params (render_challenge ps) = ps"
proof -
  let ?body = "join_with '', '' (map render_param ps)"
  have ascii: "is_ascii_str ?body"
    unfolding is_ascii_str_def
  proof
    fix c assume "c \<in> set ?body"
    then consider "c \<in> set '', ''" | kv where "kv \<in> set ps" "c \<in> set (render_param kv)"
      using set_join_with by fastforce
    then show "byte c < 128"
      using is_ascii_param assms(1) by cases (auto simp: is_ascii_str_def list_all_iff)
  qed
  have ends: "r \<noteq> [] \<and> \<not> is_whitespace [hd r] \<and> last r = CHR 0x22" if "r \<in> set (map render_param ps)" for r
    using that assms(1) render_param_ends by (auto simp: list_all_iff)
  have hd: "?body \<noteq> []" "\<not> is_whitespace [hd ?body]" "last ?body = CHR 0x22"
    using join_with_hd [of "map render_param ps" "'', ''"] join_with_last [of "map render_param ps" "'', ''"]
      ends [of "hd (map render_param ps)"] ends [of "last (map render_param ps)"] assms(2)
    by (simp_all del: set_map list.set_map add: hd_in_set last_in_set)
  have "str_trim ?body = ?body"
    using ascii hd by (intro str_trim_id) auto
  then have "str_trim (CHR '' '' # ?body) = ?body"
    using str_trim_space [OF ascii] by simp
  then have "parse_digest_params (render_challenge ps) = finish (digest_loop ?body False [] [])"
    unfolding parse_digest_params_def render_challenge_def dropWhile_scheme [OF ascii]
    by (simp add: finish_def Let_def split: prod.splits)
  also have "\<dots> = ps"
    using loop_params [OF assms(1,2), of "[]" "[]"] fold_insert_distinct [of "[]" ps] assms(3) by simp
  finally show ?thesis .
qed

section \<open>Properties\<close>

text \<open>
  The challenge parser reads back what a server writes: a Digest challenge rendered from
  lower-case parameters with quoted values, commas and equals signs in the values included,
  parses to exactly those parameters.
\<close>
theorem digest_params_roundtrip:
  assumes "list_all param_ok ps" and "ps \<noteq> []" and "distinct (map fst ps)"
  shows "parse_digest_params (render_challenge ps) = ps"
  using assms by (rule parse_render)

theorem digest_params_roundtrip_witness:
  "parse_digest_params (render_challenge [(''realm'', ''a, b=c''), (''nonce'', ''x''), (''qop'', ''auth,auth-int'')])
    = [(''realm'', ''a, b=c''), (''nonce'', ''x''), (''qop'', ''auth,auth-int'')]"
  by (rule digest_params_roundtrip) code_simp+

text \<open>
  Under \<open>algorithm=MD5-sess\<close> with \<open>qop=auth\<close> the answer uses two client nonces: the
  session key is hashed with the counter's value, the response and the header carry the next
  one, so a server that recomputes the hash with the nonce it was sent gets another input.
\<close>
theorem md5_sess_two_cnonces:
  assumes "dict_get (parse_digest_params ch) ''realm'' = Some realm"
    and "dict_get (parse_digest_params ch) ''nonce'' = Some nonce"
    and "dict_get (parse_digest_params ch) ''qop'' = Some ''auth''"
    and "dict_get (parse_digest_params ch) ''algorithm'' = Some ''MD5-sess''"
    and "0 \<le> n" and "n + 1 < 2 ^ 64"
  shows "digest_auth cr ch meth uri user pw n =
    (let ha1 = md5_hex cr (md5_hex cr (user @ '':'' @ realm @ '':'' @ pw) @ '':'' @ nonce @ '':'' @ show_hex n);
         ha2 = md5_hex cr (meth @ '':'' @ uri);
         cn = show_hex (n + 1);
         resp = md5_hex cr (ha1 @ '':'' @ nonce @ '':00000001:'' @ cn @ '':auth:'' @ ha2)
     in (Some (''Digest username='' @ quoted user @ '', realm='' @ quoted realm
           @ '', nonce='' @ quoted nonce @ '', uri='' @ quoted uri
           @ '', qop=auth, nc=00000001, cnonce='' @ quoted cn
           @ '', response='' @ quoted resp @ '', algorithm=MD5''), (n + 2) mod 2 ^ 64))"
proof -
  have auth: "\<exists>t \<in> set (split_on (CHR '','') ''auth''). str_trim t = ''auth''" by code_simp
  have lower: "to_ascii_lowercase ''MD5-sess'' = ''md5-sess''" by code_simp
  have "n mod 2 ^ 64 = n" "(n + 1) mod 2 ^ 64 = n + 1" using assms(5,6) by simp_all
  then show ?thesis
    unfolding digest_auth_def using assms(1-4) auth lower
    by (simp add: Let_def cnonce_def add.commute)
qed

definition sample_crypto :: crypto where
  "sample_crypto = \<lparr>md5 = (\<lambda>s. take 16 (rev s)), base64 = (\<lambda>s. s)\<rparr>"

theorem md5_sess_two_cnonces_witness:
  "snd (digest_auth sample_crypto
     (render_challenge [(''realm'', ''r''), (''nonce'', ''x''), (''qop'', ''auth''), (''algorithm'', ''MD5-sess'')])
     ''GET'' ''/'' ''u'' ''p'' 1) = 3"
proof -
  let ?ps = "[(''realm'', ''r''), (''nonce'', ''x''), (''qop'', ''auth''), (''algorithm'', ''MD5-sess'')]"
  have parse: "parse_digest_params (render_challenge ?ps) = ?ps"
    by (rule parse_render) code_simp+
  show ?thesis
    by (subst md5_sess_two_cnonces [where realm = "''r''" and nonce = "''x''"]) (simp_all add: parse Let_def)
qed

end
