(* ===== verification/Credential.thy ===== *)
theory Credential
  imports OriginPolicy
begin

text \<open>
  \<open>oxibrowser-credentials/src/provider.rs\<close>, \<open>error.rs\<close> and \<open>secret.rs\<close>: credential
  handles and their grammar, the records, what is checked when a credential is stored, and the
  heap-backed provider. A secret is its bytes; \<open>Zeroizing\<close> has no effect on values.
\<close>

section \<open>Errors\<close>

datatype cred_error =
    KeyStoreUnavailable string
  | CredNotFound string
  | ConsentRequired string string string
  | OriginMismatch string string
  | CredFingerprintMismatch string string
  | CredIo string
  | Keyring string
  | CredTotp string
  | CredInvalid string

fun cred_error_display :: "cred_error \<Rightarrow> string" where
  "cred_error_display (KeyStoreUnavailable s) = ''credential keystore unavailable: '' @ s"
| "cred_error_display (CredNotFound s) = ''credential not found: '' @ s"
| "cred_error_display (ConsentRequired c o' a) =
     ''consent required: '' @ c @ '' may not be used at '' @ o' @ '' for action `'' @ a @ ''`''"
| "cred_error_display (OriginMismatch c o') =
     ''origin mismatch: credential '' @ c @ '' is not allowed at '' @ o'"
| "cred_error_display (CredFingerprintMismatch e f) =
     ''fingerprint mismatch: stored '' @ e @ '', current '' @ f"
| "cred_error_display (CredIo s) = s"
| "cred_error_display (Keyring s) = ''keyring backend error: '' @ s"
| "cred_error_display (CredTotp s) = ''totp error: '' @ s"
| "cred_error_display (CredInvalid s) = ''invalid credential input: '' @ s"

section \<open>Handles\<close>

datatype credential_kind = KPassword | KTotp | KApiKey | KNote | KPasskey

fun kind_as_str :: "credential_kind \<Rightarrow> string" where
  "kind_as_str KPassword = ''password''"
| "kind_as_str KTotp = ''totp''"
| "kind_as_str KApiKey = ''api-key''"
| "kind_as_str KNote = ''note''"
| "kind_as_str KPasskey = ''passkey''"

definition kind_from_str :: "string \<Rightarrow> cred_error + credential_kind" where
  "kind_from_str s =
     (if s = ''password'' then Inr KPassword
      else if s = ''totp'' then Inr KTotp
      else if s = ''api-key'' then Inr KApiKey
      else if s = ''note'' then Inr KNote
      else if s = ''passkey'' then Inr KPasskey
      else Inl (CredInvalid (''unknown credential kind: '' @ s)))"

datatype credential_id = CredentialId (id_str: string)

instantiation credential_id :: linorder
begin

definition less_eq_credential_id :: "credential_id \<Rightarrow> credential_id \<Rightarrow> bool" where
  "a \<le> b \<longleftrightarrow> str_le (id_str a) (id_str b)"

definition less_credential_id :: "credential_id \<Rightarrow> credential_id \<Rightarrow> bool" where
  "a < b \<longleftrightarrow> str_le (id_str a) (id_str b) \<and> \<not> str_le (id_str b) (id_str a)"

instance
proof
  fix a b c :: credential_id
  show "a < b \<longleftrightarrow> a \<le> b \<and> \<not> b \<le> a"
    by (simp add: less_eq_credential_id_def less_credential_id_def)
  show "a \<le> a" by (simp add: less_eq_credential_id_def)
  show "a \<le> b \<Longrightarrow> b \<le> c \<Longrightarrow> a \<le> c"
    unfolding less_eq_credential_id_def by (rule str_le_trans)
  show "a \<le> b \<Longrightarrow> b \<le> a \<Longrightarrow> a = b"
    unfolding less_eq_credential_id_def by (auto dest: str_le_antisym intro: credential_id.expand)
  show "a \<le> b \<or> b \<le> a"
    unfolding less_eq_credential_id_def by (rule str_le_total)
qed

end

record credential_parts =
  cp_agent_id :: string
  cp_scope :: string
  cp_kind :: credential_kind
  cp_slug :: string

definition service_key :: "string \<Rightarrow> string \<Rightarrow> string" where
  "service_key agent_id scope = ''com.oxibrowser.agent/'' @ agent_id @ ''/'' @ scope"

definition account_key :: "credential_kind \<Rightarrow> string \<Rightarrow> string" where
  "account_key kind slug = kind_as_str kind @ ''/'' @ slug"

definition check_component :: "string \<Rightarrow> string \<Rightarrow> cred_error + unit" where
  "check_component v what =
     (if v = [] then Inl (CredInvalid (what @ '' must not be empty''))
      else if CHR ''/'' \<in> set v then Inl (CredInvalid (what @ '' must not contain '' @ [CHR 0x27] @ ''/'' @ [CHR 0x27] @ '': '' @ v))
      else Inr ())"

definition id_format :: "string \<Rightarrow> string \<Rightarrow> credential_kind \<Rightarrow> string \<Rightarrow> cred_error + credential_id" where
  "id_format agent_id scope kind slug =
     res_bind (check_component agent_id ''agent_id'') (\<lambda>_.
     res_bind (check_component scope ''scope'') (\<lambda>_.
     res_bind (check_component slug ''slug'') (\<lambda>_.
       Inr (CredentialId (''kch:'' @ agent_id @ ''/'' @ scope @ ''/'' @ kind_as_str kind @ ''/'' @ slug)))))"

definition seg :: "string list \<Rightarrow> nat \<Rightarrow> string" where
  "seg segs i = (if i < length segs then segs ! i else [])"

definition id_parse :: "credential_id \<Rightarrow> cred_error + credential_parts" where
  "id_parse cid =
     (case strip_prefix (id_str cid) ''kch:'' of
        None \<Rightarrow> Inl (CredInvalid (''handle must start with '' @ [CHR 0x27] @ ''kch:'' @ [CHR 0x27] @ '': '' @ id_str cid))
      | Some rest \<Rightarrow>
          (let segs = split_on (CHR ''/'') rest;
               agent_id = seg segs 0;
               scope = seg segs 1
           in res_bind (if 2 < length segs then kind_from_str (segs ! 2)
                        else Inl (CredInvalid (''handle missing kind: '' @ id_str cid))) (\<lambda>kind.
              let slug = seg segs 3
              in if 4 < length segs
                 then Inl (CredInvalid (''handle has too many segments: '' @ id_str cid))
                 else res_bind (check_component agent_id ''agent_id'') (\<lambda>_.
                      res_bind (check_component scope ''scope'') (\<lambda>_.
                      res_bind (check_component slug ''slug'') (\<lambda>_.
                        Inr \<lparr>cp_agent_id = agent_id, cp_scope = scope, cp_kind = kind, cp_slug = slug\<rparr>))))))"

section \<open>Records\<close>

record credential_meta =
  cm_id :: credential_id
  cm_kind :: credential_kind
  cm_agent_id :: string
  cm_scope :: string
  cm_slug :: string
  cm_allowed_origins :: "string list"
  cm_login_hint :: "string option"
  cm_has_totp :: bool
  cm_created_at :: string
  cm_last_used_at :: "string option"

record credential_record =
  cr_version :: int
  cr_meta :: credential_meta
  cr_password :: "string option"
  cr_otpauth :: "string option"

record new_credential =
  nc_agent_id :: string
  nc_scope :: string
  nc_kind :: credential_kind
  nc_slug :: string
  nc_allowed_origins :: "string list"
  nc_login_hint :: "string option"
  nc_password :: "string option"
  nc_otpauth_uri :: "string option"

definition expose_str :: "string \<Rightarrow> cred_error + string" where
  "expose_str secret = (if is_utf8 secret then Inr secret else Inl (CredInvalid ''secret is not utf-8''))"

definition expose_opt :: "string option \<Rightarrow> cred_error + string option" where
  "expose_opt secret =
     (case secret of Some s \<Rightarrow> res_bind (expose_str s) (\<lambda>t. Inr (Some t)) | None \<Rightarrow> Inr None)"

definition normalize_allowed :: "url_parser \<Rightarrow> credential_id \<Rightarrow> string \<Rightarrow> cred_error + string" where
  "normalize_allowed up cid o' =
     res_bind
       (map_err (\<lambda>e. CredInvalid (''credential '' @ id_str cid @ '' has invalid allowed origin: '' @ e))
         (origin_parse up o'))
       (\<lambda>p. Inr (origin_as_str p))"

definition build_record ::
  "url_parser \<Rightarrow> string \<Rightarrow> new_credential \<Rightarrow> cred_error + credential_record" where
  "build_record up now cred =
     res_bind (id_format (nc_agent_id cred) (nc_scope cred) (nc_kind cred) (nc_slug cred)) (\<lambda>cid.
     if nc_allowed_origins cred = []
     then Inl (CredInvalid (''credential '' @ id_str cid @ '' needs at least one allowed origin''))
     else res_bind
       (collect_results (map (normalize_allowed up cid) (nc_allowed_origins cred))) (\<lambda>allowed_origins.
     if nc_kind cred = KPasskey
     then Inl (CredInvalid (''passkey storage is reserved for P2-M7 (design '' @ section_sign @ ''5.2)''))
     else res_bind (expose_opt (nc_password cred)) (\<lambda>password.
     res_bind (expose_opt (nc_otpauth_uri cred)) (\<lambda>otpauth.
     if nc_kind cred = KTotp \<and> otpauth = None
     then Inl (CredInvalid (''credential '' @ id_str cid @ '' of kind totp requires an otpauth URI''))
     else if nc_kind cred \<in> {KPassword, KApiKey, KNote} \<and> password = None
     then Inl (CredInvalid (''credential '' @ id_str cid @ '' of kind '' @ kind_as_str (nc_kind cred)
                 @ '' requires a value''))
     else Inr \<lparr>cr_version = 1,
            cr_meta = \<lparr>cm_id = cid, cm_kind = nc_kind cred, cm_agent_id = nc_agent_id cred,
                       cm_scope = nc_scope cred, cm_slug = nc_slug cred,
                       cm_allowed_origins = allowed_origins, cm_login_hint = nc_login_hint cred,
                       cm_has_totp = (otpauth \<noteq> None), cm_created_at = now, cm_last_used_at = None\<rparr>,
            cr_password = password, cr_otpauth = otpauth\<rparr>))))"

definition record_value :: "credential_record \<Rightarrow> cred_error + string" where
  "record_value r =
     (case cm_kind (cr_meta r) of
        KTotp \<Rightarrow> (case cr_otpauth r of
                    Some v \<Rightarrow> Inr v
                  | None \<Rightarrow> Inl (CredNotFound (id_str (cm_id (cr_meta r)) @ '' has no otpauth value'')))
      | KPasskey \<Rightarrow> Inl (CredInvalid (id_str (cm_id (cr_meta r)) @ '' is a passkey '' @ em_dash
                          @ '' values are handled by the WebAuthn layer (P2-M7)''))
      | _ \<Rightarrow> (case cr_password r of
                Some v \<Rightarrow> Inr v
              | None \<Rightarrow> Inl (CredNotFound (id_str (cm_id (cr_meta r)) @ '' has no value''))))"

section \<open>The heap-backed provider\<close>

type_synonym provider = "(credential_id, credential_record) dict"

definition provider_put ::
  "url_parser \<Rightarrow> string \<Rightarrow> new_credential \<Rightarrow> provider \<Rightarrow> (cred_error + credential_id) \<times> provider" where
  "provider_put up now cred items =
     (case build_record up now cred of
        Inl e \<Rightarrow> (Inl e, items)
      | Inr r \<Rightarrow> (let cid = cm_id (cr_meta r) in (Inr cid, dict_insert cid r items)))"

definition provider_resolve :: "provider \<Rightarrow> credential_id \<Rightarrow> cred_error + (credential_meta \<times> string)" where
  "provider_resolve items cid =
     (case dict_get items cid of
        None \<Rightarrow> Inl (CredNotFound (id_str cid))
      | Some r \<Rightarrow> res_bind (record_value r) (\<lambda>v. Inr (cr_meta r, v)))"

definition provider_metadata :: "provider \<Rightarrow> credential_id \<Rightarrow> cred_error + credential_meta" where
  "provider_metadata items cid =
     (case dict_get items cid of
        Some r \<Rightarrow> Inr (cr_meta r)
      | None \<Rightarrow> Inl (CredNotFound (id_str cid)))"

definition provider_list :: "provider \<Rightarrow> string option \<Rightarrow> credential_meta list" where
  "provider_list items agent_id =
     sort_key cm_id
       (map (\<lambda>kv. cr_meta (snd kv))
         (filter (\<lambda>kv. case agent_id of None \<Rightarrow> True | Some a \<Rightarrow> cm_agent_id (cr_meta (snd kv)) = a) items))"

definition provider_delete :: "credential_id \<Rightarrow> provider \<Rightarrow> (cred_error + unit) \<times> provider" where
  "provider_delete cid items =
     (case dict_get items cid of
        Some _ \<Rightarrow> (Inr (), dict_remove cid items)
      | None \<Rightarrow> (Inl (CredNotFound (id_str cid)), items))"

section \<open>Lemmas\<close>

lemma check_component_Inr: "check_component v what = Inr u \<longleftrightarrow> v \<noteq> [] \<and> CHR ''/'' \<notin> set v"
  by (simp add: check_component_def)

lemma kind_from_as_str [simp]: "kind_from_str (kind_as_str k) = Inr k"
  by (cases k) (simp_all add: kind_from_str_def)

lemma kind_from_str_Inr: "kind_from_str s = Inr k \<longleftrightarrow> s = kind_as_str k"
  by (cases k) (auto simp: kind_from_str_def split: if_splits)

lemma kind_no_slash [simp]: "CHR ''/'' \<notin> set (kind_as_str k)"
  by (cases k) simp_all

lemma split_slash: "CHR ''/'' \<notin> set a \<Longrightarrow> split_on (CHR ''/'') (a @ CHR ''/'' # b) = a # split_on (CHR ''/'') b"
  by (rule split_by_append_sep) auto

lemma split_slash_last: "CHR ''/'' \<notin> set a \<Longrightarrow> split_on (CHR ''/'') a = [a]"
  by (rule split_by_none) auto

lemmas split_slashes = split_slash split_slash_last

lemma id_parse_Inr:
  "id_parse cid = Inr p \<longleftrightarrow>
    id_format (cp_agent_id p) (cp_scope p) (cp_kind p) (cp_slug p) = Inr cid"
  (is "?parse \<longleftrightarrow> ?format")
proof
  assume ?parse
  then obtain rest where rest: "id_str cid = ''kch:'' @ rest"
    by (auto simp: id_parse_def str_iff split: option.splits)
  let ?segs = "split_on (CHR ''/'') rest"
  from \<open>?parse\<close> rest have len: "2 < length ?segs" "\<not> 4 < length ?segs"
    and kind: "kind_from_str (?segs ! 2) = Inr (cp_kind p)"
    and p: "cp_agent_id p = seg ?segs 0" "cp_scope p = seg ?segs 1" "cp_slug p = seg ?segs 3"
    and ok: "\<And>v. v \<in> {cp_agent_id p, cp_scope p, cp_slug p} \<Longrightarrow> v \<noteq> [] \<and> CHR ''/'' \<notin> set v"
    by (auto simp: id_parse_def strip_prefix_def result_iff check_component_Inr Let_def
        split: if_splits)
  have "length ?segs = 4"
    using len ok [of "cp_slug p"] p(3) by (auto simp: seg_def split: if_splits)
  then have "?segs = [cp_agent_id p, cp_scope p, kind_as_str (cp_kind p), cp_slug p]"
    using p kind by (auto simp: seg_def kind_from_str_Inr list_eq_iff_nth_eq less_Suc_eq numeral_eq_Suc)
  then have "rest = join_with ''/'' [cp_agent_id p, cp_scope p, kind_as_str (cp_kind p), cp_slug p]"
    using join_split [of "CHR ''/''" rest] by simp
  then show ?format
    using rest ok by (cases cid) (auto simp: id_format_def check_component_Inr result_iff)
next
  assume ?format
  then have cid: "id_str cid = ''kch:'' @ cp_agent_id p @ ''/'' @ cp_scope p @ ''/'' @ kind_as_str (cp_kind p) @ ''/'' @ cp_slug p"
    and ok: "\<And>v. v \<in> {cp_agent_id p, cp_scope p, cp_slug p} \<Longrightarrow> v \<noteq> [] \<and> CHR ''/'' \<notin> set v"
    by (auto simp: id_format_def result_iff check_component_Inr)
  have "split_on (CHR ''/'') (cp_agent_id p @ ''/'' @ cp_scope p @ ''/'' @ kind_as_str (cp_kind p) @ ''/'' @ cp_slug p)
      = [cp_agent_id p, cp_scope p, kind_as_str (cp_kind p), cp_slug p]"
    using ok by (simp add: split_slashes)
  then show ?parse
    using ok by (simp add: id_parse_def cid strip_prefix_def starts_with_def Let_def seg_def check_component_def)
qed

lemma build_record_Inr:
  assumes "build_record up now cred = Inr r"
  shows "id_format (cm_agent_id (cr_meta r)) (cm_scope (cr_meta r)) (cm_kind (cr_meta r)) (cm_slug (cr_meta r))
           = Inr (cm_id (cr_meta r))"
    and "cm_kind (cr_meta r) \<noteq> KPasskey"
    and "cm_allowed_origins (cr_meta r) \<noteq> []"
    and "\<forall>o' \<in> set (cm_allowed_origins (cr_meta r)). \<exists>src p. origin_parse up src = Inr p \<and> o' = origin_as_str p"
    and "\<exists>v. record_value r = Inr v"
proof -
  obtain cid origins pw otp where parts:
    "id_format (nc_agent_id cred) (nc_scope cred) (nc_kind cred) (nc_slug cred) = Inr cid"
    "nc_allowed_origins cred \<noteq> []" "nc_kind cred \<noteq> KPasskey"
    and origins: "map (normalize_allowed up cid) (nc_allowed_origins cred) = map Inr origins"
    and vals: "\<not> (nc_kind cred = KTotp \<and> otp = None)"
      "\<not> (nc_kind cred \<in> {KPassword, KApiKey, KNote} \<and> pw = None)"
    and r: "r = \<lparr>cr_version = 1,
            cr_meta = \<lparr>cm_id = cid, cm_kind = nc_kind cred, cm_agent_id = nc_agent_id cred,
                       cm_scope = nc_scope cred, cm_slug = nc_slug cred,
                       cm_allowed_origins = origins, cm_login_hint = nc_login_hint cred,
                       cm_has_totp = (otp \<noteq> None), cm_created_at = now, cm_last_used_at = None\<rparr>,
            cr_password = pw, cr_otpauth = otp\<rparr>"
    using assms unfolding build_record_def
    by (auto simp: result_iff split: if_splits)
  have len: "length origins = length (nc_allowed_origins cred)"
    using arg_cong [OF origins, of length] by simp
  then have "origins \<noteq> []" using parts(2) by (metis length_0_conv)
  moreover have "\<exists>src p. origin_parse up src = Inr p \<and> o' = origin_as_str p" if "o' \<in> set origins" for o'
  proof -
    from that have "(Inr o' :: cred_error + string) \<in> set (map Inr origins)" by simp
    then obtain src where "Inr o' = normalize_allowed up cid src"
      unfolding origins [symmetric] by auto
    from this [symmetric] show ?thesis by (auto simp: normalize_allowed_def result_iff)
  qed
  moreover have "\<exists>v. record_value r = Inr v"
    using vals parts(3) unfolding r by (cases "nc_kind cred") (auto simp: record_value_def)
  ultimately show "id_format (cm_agent_id (cr_meta r)) (cm_scope (cr_meta r)) (cm_kind (cr_meta r)) (cm_slug (cr_meta r))
           = Inr (cm_id (cr_meta r))"
    and "cm_kind (cr_meta r) \<noteq> KPasskey" and "cm_allowed_origins (cr_meta r) \<noteq> []"
    and "\<forall>o' \<in> set (cm_allowed_origins (cr_meta r)). \<exists>src p. origin_parse up src = Inr p \<and> o' = origin_as_str p"
    and "\<exists>v. record_value r = Inr v"
    using parts r by simp_all
qed

text \<open>What holds of every stored record.\<close>

definition record_ok :: "url_parser \<Rightarrow> credential_id \<Rightarrow> credential_record \<Rightarrow> bool" where
  "record_ok up cid r \<longleftrightarrow>
     cm_id (cr_meta r) = cid
     \<and> id_format (cm_agent_id (cr_meta r)) (cm_scope (cr_meta r)) (cm_kind (cr_meta r)) (cm_slug (cr_meta r)) = Inr cid
     \<and> cm_kind (cr_meta r) \<noteq> KPasskey
     \<and> cm_allowed_origins (cr_meta r) \<noteq> []
     \<and> (\<forall>o' \<in> set (cm_allowed_origins (cr_meta r)). \<exists>src p. origin_parse up src = Inr p \<and> o' = origin_as_str p)
     \<and> (\<exists>v. record_value r = Inr v)"

definition provider_ok :: "url_parser \<Rightarrow> provider \<Rightarrow> bool" where
  "provider_ok up items \<longleftrightarrow> (\<forall>cid r. dict_get items cid = Some r \<longrightarrow> record_ok up cid r)"

datatype provider_event = PutCred string new_credential | DeleteCred credential_id

fun provider_step :: "url_parser \<Rightarrow> provider_event \<Rightarrow> provider \<Rightarrow> provider" where
  "provider_step up (PutCred now cred) items = snd (provider_put up now cred items)"
| "provider_step up (DeleteCred cid) items = snd (provider_delete cid items)"

lemma provider_step_ok: "provider_ok up items \<Longrightarrow> provider_ok up (provider_step up e items)"
proof (cases e)
  case (PutCred now cred)
  assume ok: "provider_ok up items"
  show ?thesis
  proof (cases "build_record up now cred")
    case (Inr r)
    then have "record_ok up (cm_id (cr_meta r)) r"
      using build_record_Inr [OF Inr] by (simp add: record_ok_def)
    with ok Inr PutCred show ?thesis
      by (auto simp: provider_ok_def provider_put_def Let_def dict_get_insert)
  qed (use ok PutCred in \<open>simp add: provider_put_def\<close>)
next
  case (DeleteCred cid)
  assume "provider_ok up items"
  with DeleteCred show ?thesis
    by (auto simp: provider_ok_def provider_delete_def dict_get_remove split: option.splits if_splits)
qed

interpretation provider_machine: inv_machine "provider_ok up" "provider_step up" for up
  by unfold_locales (rule provider_step_ok)

section \<open>Properties\<close>

text \<open>
  Credential handles are a faithful encoding of their four components: a handle parses to
  components exactly when formatting those components gives that handle, so handles with a
  slash, an empty component, a missing or an extra segment are refused in both directions.
\<close>
theorem handle_roundtrip:
  "id_parse cid = Inr p \<longleftrightarrow>
    id_format (cp_agent_id p) (cp_scope p) (cp_kind p) (cp_slug p) = Inr cid"
  by (rule id_parse_Inr)

text \<open>
  What is listed can be used: after any sequence of stores and deletions a credential whose
  metadata the provider returns has a value to resolve, is no passkey, has a non-empty allowlist
  and sits under the handle its components spell.
\<close>
theorem stored_credential_resolves:
  assumes "provider_metadata (fold (provider_step up) es []) cid = Inr m"
  shows "(\<exists>v. provider_resolve (fold (provider_step up) es []) cid = Inr (m, v))
    \<and> cm_kind m \<noteq> KPasskey \<and> cm_allowed_origins m \<noteq> []
    \<and> id_format (cm_agent_id m) (cm_scope m) (cm_kind m) (cm_slug m) = Inr cid"
proof -
  have "provider_ok up (fold (provider_step up) es [])"
    by (rule provider_machine.run_inv) (simp add: provider_ok_def)
  moreover obtain r where r: "dict_get (fold (provider_step up) es []) cid = Some r" "m = cr_meta r"
    using assms by (auto simp: provider_metadata_def split: option.splits)
  ultimately have ok: "record_ok up cid r" by (simp add: provider_ok_def)
  then obtain v where "record_value r = Inr v" by (auto simp: record_ok_def)
  with ok r show ?thesis by (simp add: provider_resolve_def record_ok_def)
qed

definition sample_parser :: url_parser where
  "sample_parser s = (if s = ''https://a.com'' then Some (sample_url ''https'' ''a.com'' ''/'' 443) else None)"

definition sample_credential :: new_credential where
  "sample_credential =
     \<lparr>nc_agent_id = ''main'', nc_scope = ''a.com'', nc_kind = KPassword, nc_slug = ''me'',
      nc_allowed_origins = [''https://a.com''], nc_login_hint = None, nc_password = Some ''pw'',
      nc_otpauth_uri = None\<rparr>"

theorem stored_credential_resolves_witness:
  "\<exists>m v. provider_resolve (fold (provider_step sample_parser) [PutCred ''t'' sample_credential] [])
      (CredentialId ''kch:main/a.com/password/me'') = Inr (m, v)"
proof -
  let ?m = "\<lparr>cm_id = CredentialId ''kch:main/a.com/password/me'', cm_kind = KPassword, cm_agent_id = ''main'',
     cm_scope = ''a.com'', cm_slug = ''me'', cm_allowed_origins = [''https://a.com''], cm_login_hint = None,
     cm_has_totp = False, cm_created_at = ''t'', cm_last_used_at = None\<rparr>"
  have "provider_metadata (fold (provider_step sample_parser) [PutCred ''t'' sample_credential] [])
      (CredentialId ''kch:main/a.com/password/me'') = Inr ?m"
    by code_simp
  from stored_credential_resolves [OF this] show ?thesis by blast
qed

end
