(* ===== verification/Totp.thy ===== *)
theory Totp
  imports Credential
begin

text \<open>
  \<open>oxibrowser-credentials/src/totp.rs\<close>. The generator of the crate \<open>totp_rs\<close> is a record of
  what its accessors answer; its URI parser, its Base32 decoder and its builder are arguments. Unix
  times and periods are unsigned 64-bit numbers; sums that leave that range panic under the
  debug checks.
\<close>

section \<open>The generator\<close>

record totp_inner =
  ti_digits :: int
  ti_step :: int
  ti_issuer :: "string option"
  ti_algorithm :: string
  ti_secret_base32 :: string
  ti_generate :: "int \<Rightarrow> string"

record totp_lib =
  from_url_unchecked :: "string \<Rightarrow> string + totp_inner"
  try_from_base32 :: "string \<Rightarrow> string + string"
  build_noncompliant :: "string \<Rightarrow> int \<Rightarrow> int \<Rightarrow> int \<Rightarrow> string \<Rightarrow> string \<Rightarrow> totp_inner"
    \<comment> \<open>algorithm, digits, skew, step, account name, secret\<close>

definition from_otpauth :: "totp_lib \<Rightarrow> string \<Rightarrow> cred_error + totp_inner" where
  "from_otpauth lib uri =
     res_bind (map_err (\<lambda>e. CredInvalid (''otpauth URI rejected: '' @ e)) (from_url_unchecked lib uri)) (\<lambda>inner.
     if \<not> (6 \<le> ti_digits inner \<and> ti_digits inner \<le> 8)
     then Inl (CredInvalid (''otpauth digits must be 6 or 8, got '' @ show_uint (ti_digits inner)))
     else if ti_step inner = 0 then Inl (CredInvalid ''otpauth period must be at least 1s'')
     else Inr inner)"

definition from_base32 :: "totp_lib \<Rightarrow> string \<Rightarrow> cred_error + totp_inner" where
  "from_base32 lib secret =
     (let normalized = to_ascii_uppercase (str_trim secret)
      in if normalized = [] then Inl (CredTotp ''empty base32 secret'')
         else res_bind (map_err (\<lambda>e. CredTotp (''base32 secret rejected: '' @ e)) (try_from_base32 lib normalized))
           (\<lambda>decoded. Inr (build_noncompliant lib ''SHA1'' 6 0 30 ''oxibrowser'' decoded)))"

definition window_bump_secs :: int where
  "window_bump_secs = 3"

definition generate_at :: "totp_inner \<Rightarrow> int \<Rightarrow> string" where
  "generate_at g t = ti_generate g t"

definition add_u64 :: "int \<Rightarrow> int \<Rightarrow> int run" where
  "add_u64 a b = (if a + b < 2 ^ 64 then Ret (a + b) else Panic)"

definition window_at :: "totp_inner \<Rightarrow> int \<Rightarrow> (string \<times> int) run" where
  "window_at g now =
     (let period = max (ti_step g) 1;
          remaining = period - now mod period
      in if remaining < window_bump_secs
         then run_bind (add_u64 now remaining) (\<lambda>t.
              run_bind (add_u64 remaining period) (\<lambda>d. Ret (generate_at g t, d)))
         else Ret (generate_at g now, remaining))"

text \<open>\<open>current\<close>: the clock gives no time when it stands before the epoch.\<close>

definition totp_current :: "totp_inner \<Rightarrow> string + int \<Rightarrow> (cred_error + string \<times> int) run" where
  "totp_current g clock =
     (case clock of
        Inl e \<Rightarrow> Ret (Inl (CredTotp (''system clock before unix epoch: '' @ e)))
      | Inr now \<Rightarrow> run_bind (window_at g now) (\<lambda>w. Ret (Inr w)))"

definition algorithm_name :: "totp_inner \<Rightarrow> string" where
  "algorithm_name g = (if ti_algorithm g \<in> {''SHA1'', ''SHA256'', ''SHA512''} then ti_algorithm g else ''unknown'')"

section \<open>Lemmas\<close>

text \<open>The end of the window that a time lies in.\<close>

definition window_end :: "int \<Rightarrow> int \<Rightarrow> int" where
  "window_end period t = (t div period + 1) * period"

lemma window_end_now: "0 < p \<Longrightarrow> window_end p now = now + (p - now mod p)" for p :: int
  unfolding window_end_def using div_mult_mod_eq [of now p] by (simp add: algebra_simps)

lemma window_end_next: "0 < p \<Longrightarrow> window_end p (now + (p - now mod p)) = now + (p - now mod p) + p" for p :: int
proof -
  assume p: "0 < p"
  have e: "now + (p - now mod p) = window_end p now" using window_end_now [OF p] by simp
  have "window_end p (window_end p now) = window_end p now + p"
    using p by (simp add: window_end_def distrib_right)
  then show ?thesis unfolding e .
qed

lemma add_u64_Ret: "add_u64 a b = Ret c \<longleftrightarrow> c = a + b \<and> a + b < 2 ^ 64"
  by (auto simp: add_u64_def)

section \<open>Properties\<close>

text \<open>
  The boundary guard: while the sums stay in 64 bits, the code handed out is the one of a
  window that has not begun later than two seconds from now, and the validity reported is exactly
  the time until that window's end; it is at least three seconds for every period of two seconds
  or more, so no code that is about to expire is handed out.
\<close>
theorem window_guard:
  assumes "0 \<le> now" and "2 \<le> ti_step g" and "now + 2 < 2 ^ 64" and "ti_step g + 2 < 2 ^ 64"
  shows "\<exists>t d. window_at g now = Ret (ti_generate g t, d)
    \<and> now \<le> t \<and> t \<le> now + 2
    \<and> now + d = window_end (ti_step g) t
    \<and> 3 \<le> d"
proof -
  let ?p = "ti_step g" and ?rem = "ti_step g - now mod ti_step g"
  have p: "0 < ?p" and mx: "max ?p 1 = ?p" and rem: "1 \<le> ?rem"
    using assms(2) pos_mod_bound [of ?p now] by (simp, simp, linarith)
  show ?thesis
  proof (cases "?rem < 3")
    case True
    have bounds: "now + ?rem < 2 ^ 64" "?rem + ?p < 2 ^ 64" using True assms(3,4) by linarith+
    have "window_at g now = Ret (ti_generate g (now + ?rem), ?rem + ?p)"
      unfolding window_at_def Let_def mx window_bump_secs_def add_u64_def generate_at_def
      using True bounds by simp
    moreover have "now + (?rem + ?p) = window_end ?p (now + ?rem)"
      using window_end_next [OF p, of now] by simp
    moreover have "now \<le> now + ?rem" "now + ?rem \<le> now + 2" "3 \<le> ?rem + ?p"
      using True rem assms(2) by linarith+
    ultimately show ?thesis by blast
  next
    case False
    then have "window_at g now = Ret (ti_generate g now, ?rem)"
      unfolding window_at_def Let_def mx window_bump_secs_def generate_at_def by simp
    moreover have "now + ?rem = window_end ?p now" using window_end_now [OF p, of now] by simp
    moreover have "3 \<le> ?rem" using False by simp
    ultimately show ?thesis by (intro exI [of _ now] exI [of _ ?rem]) simp
  qed
qed

definition sample_totp :: totp_inner where
  "sample_totp = \<lparr>ti_digits = 6, ti_step = 30, ti_issuer = None, ti_algorithm = ''SHA1'',
     ti_secret_base32 = [], ti_generate = show_uint\<rparr>"

theorem window_guard_witness:
  "\<exists>t d. window_at sample_totp 1000000078 = Ret (ti_generate sample_totp t, d)
    \<and> 1000000078 \<le> t \<and> t \<le> 1000000078 + 2
    \<and> 1000000078 + d = window_end (ti_step sample_totp) t \<and> 3 \<le> d"
  by (rule window_guard) (simp_all add: sample_totp_def)

text \<open>
  The digits an otpauth URI may ask for: six, seven and eight are all accepted (the message
  of the refusal and the function's documentation admit six and eight only), with a period of at
  least one second.
\<close>
theorem otpauth_digits_accepted:
  "from_otpauth lib uri = Inr g \<longleftrightarrow>
     from_url_unchecked lib uri = Inr g \<and> ti_digits g \<in> {6, 7, 8} \<and> ti_step g \<noteq> 0"
proof (cases "from_url_unchecked lib uri")
  case (Inr h)
  have "6 \<le> ti_digits h \<and> ti_digits h \<le> 8 \<longleftrightarrow> ti_digits h \<in> {6, 7, 8}" by auto
  with Inr show ?thesis unfolding from_otpauth_def by auto
qed (simp add: from_otpauth_def)

end
