(* ===== verification/Consent.thy ===== *)
theory Consent
  imports Credential
begin

text \<open>
  \<open>oxibrowser-credentials/src/consent.rs\<close>: consent grants in an append-only file. The file is
  the list of its parsed lines (\<open>serde_json\<close> is not part of the repository: a line is a grant,
  a tombstone, or something that does not parse), with two flags for what the file system
  permits; a missing file is \<open>None\<close>. Times are nanoseconds as integers. \<open>SHA-256\<close> and the
  RFC 3339 formatter are arguments, with the URL parser, in the record \<open>consent_env\<close>.
\<close>

section \<open>Subjects and records\<close>

record consent_env =
  ce_parser :: url_parser
  ce_sha256 :: "string \<Rightarrow> string"
  ce_rfc3339 :: "int \<Rightarrow> string"

datatype consent_subject = SubCredential credential_id | SubAccount string string

fun subject_credential :: "consent_subject \<Rightarrow> credential_id option" where
  "subject_credential (SubCredential c) = Some c"
| "subject_credential (SubAccount a g) = None"

fun subject_account :: "consent_subject \<Rightarrow> string option" where
  "subject_account (SubCredential c) = None"
| "subject_account (SubAccount a g) = Some a"

fun subject_agent :: "consent_subject \<Rightarrow> string option" where
  "subject_agent (SubCredential c) = None"
| "subject_agent (SubAccount a g) = Some g"

fun subject_display :: "consent_subject \<Rightarrow> string" where
  "subject_display (SubCredential c) = ''credential:'' @ id_str c"
| "subject_display (SubAccount a g) = ''account:'' @ a @ ''/agent:'' @ g"

record consent_record =
  cn_version :: int
  cn_id :: string
  cn_subject :: consent_subject
  cn_origin :: string
  cn_actions :: "string list"
  cn_granted_at :: int
  cn_granted_by :: string
  cn_expires_at :: int
  cn_max_uses :: int
  cn_uses :: int
  cn_ref_tag :: "string option"

record revoke_tombstone =
  rt_version :: int
  rt_revoke :: string
  rt_revoked_at :: int
  rt_reason :: string

datatype consent_line = LGrant consent_record | LRevoke revoke_tombstone | LUnparsable string

definition origin_matches :: "url_parser \<Rightarrow> string \<Rightarrow> string \<Rightarrow> bool" where
  "origin_matches up stored requested =
     (case (origin_parse up stored, origin_parse up requested) of
        (Inr a, Inr b) \<Rightarrow> exact_eq a b
      | _ \<Rightarrow> False)"

definition normalize_origin :: "url_parser \<Rightarrow> string \<Rightarrow> string" where
  "normalize_origin up s = (case origin_parse up s of Inr o' \<Rightarrow> origin_as_str o' | Inl _ \<Rightarrow> s)"

definition generate_id :: "consent_env \<Rightarrow> consent_subject \<Rightarrow> string \<Rightarrow> int \<Rightarrow> int \<Rightarrow> string" where
  "generate_id env subject orig now nanos =
     ''c-'' @ concat (map hex_byte (take 3 (ce_sha256 env
       (''oxibrowser-consent-v1'' @ [CHR 0x0A] @ subject_display subject @ orig
         @ ce_rfc3339 env now @ le_bytes4 nanos))))"

definition consent_record_new ::
  "consent_env \<Rightarrow> int \<Rightarrow> int \<Rightarrow> consent_subject \<Rightarrow> string \<Rightarrow> string list \<Rightarrow> int \<Rightarrow> int \<Rightarrow> consent_record" where
  "consent_record_new env now nanos subject orig actions ttl max_uses =
     \<lparr>cn_version = 1, cn_id = generate_id env subject orig now nanos, cn_subject = subject,
      cn_origin = normalize_origin (ce_parser env) orig, cn_actions = actions,
      cn_granted_at = now, cn_granted_by = ''user:local'', cn_expires_at = now + ttl,
      cn_max_uses = max_uses, cn_uses = 0, cn_ref_tag = None\<rparr>"

definition covers :: "consent_record \<Rightarrow> string \<Rightarrow> bool" where
  "covers rec action \<longleftrightarrow> (\<exists>a \<in> set (cn_actions rec). a = action)"

definition active_at :: "consent_record \<Rightarrow> int \<Rightarrow> bool" where
  "active_at rec now \<longleftrightarrow> now \<le> cn_expires_at rec \<and> cn_uses rec < cn_max_uses rec"

section \<open>The store\<close>

record consent_store =
  cs_lines :: "consent_line list option"
  cs_readable :: bool
  cs_writable :: bool

type_synonym io_error = string

text \<open>The body of the replay loop: the ids in file order and the latest record of each.\<close>

fun replay_line ::
  "consent_line \<Rightarrow> string list \<times> (string, consent_record) dict \<Rightarrow> string list \<times> (string, consent_record) dict" where
  "replay_line (LGrant rec) (order, by_id) =
     ((if dict_get by_id (cn_id rec) = None then order @ [cn_id rec] else order),
      dict_insert (cn_id rec) rec by_id)"
| "replay_line (LRevoke t) (order, by_id) =
     (if dict_get by_id (rt_revoke t) \<noteq> None
      then (filter (\<lambda>i. i \<noteq> rt_revoke t) order, dict_remove (rt_revoke t) by_id)
      else (order, by_id))"
| "replay_line (LUnparsable s) st = st"

fun drain :: "string list \<Rightarrow> (string, consent_record) dict \<Rightarrow> consent_record list" where
  "drain [] by_id = []"
| "drain (i # order) by_id =
     (case dict_get by_id i of
        Some rec \<Rightarrow> rec # drain order (dict_remove i by_id)
      | None \<Rightarrow> drain order by_id)"

definition replay :: "consent_store \<Rightarrow> io_error + consent_record list" where
  "replay st =
     (case cs_lines st of
        None \<Rightarrow> Inr []
      | Some ls \<Rightarrow>
          if \<not> cs_readable st then Inl ''consents file unreadable''
          else (let (order, by_id) = fold replay_line ls ([], []) in Inr (drain order by_id)))"

definition append_line :: "consent_line \<Rightarrow> consent_store \<Rightarrow> (io_error + unit) \<times> consent_store" where
  "append_line l st =
     (if \<not> cs_writable st then (Inl ''consents file not writable'', st)
      else (Inr (), st\<lparr>cs_lines := Some ((case cs_lines st of Some ls \<Rightarrow> ls | None \<Rightarrow> []) @ [l])\<rparr>))"

definition grant :: "consent_record \<Rightarrow> consent_store \<Rightarrow> (io_error + unit) \<times> consent_store" where
  "grant rec st = append_line (LGrant rec) st"

fun append_tombstones :: "int \<Rightarrow> string list \<Rightarrow> consent_store \<Rightarrow> (io_error + unit) \<times> consent_store" where
  "append_tombstones now [] st = (Inr (), st)"
| "append_tombstones now (i # ids) st =
     (case append_line (LRevoke \<lparr>rt_version = 1, rt_revoke = i, rt_revoked_at = now, rt_reason = ''user_revoked''\<rparr>) st of
        (Inl e, st') \<Rightarrow> (Inl e, st')
      | (Inr _, st') \<Rightarrow> append_tombstones now ids st')"

definition revoke_subject ::
  "url_parser \<Rightarrow> int \<Rightarrow> consent_subject \<Rightarrow> string \<Rightarrow> string \<Rightarrow> consent_store \<Rightarrow> (io_error + unit) \<times> consent_store" where
  "revoke_subject up now subject orig action st =
     (case replay st of
        Inl e \<Rightarrow> (Inl e, st)
      | Inr recs \<Rightarrow>
          append_tombstones now
            (map cn_id (filter (\<lambda>rec. cn_subject rec = subject \<and> origin_matches up (cn_origin rec) orig
                                   \<and> covers rec action) recs)) st)"

definition revoke ::
  "url_parser \<Rightarrow> int \<Rightarrow> credential_id \<Rightarrow> string \<Rightarrow> string \<Rightarrow> consent_store \<Rightarrow> (io_error + unit) \<times> consent_store" where
  "revoke up now cid orig action st = revoke_subject up now (SubCredential cid) orig action st"

definition revoke_account ::
  "url_parser \<Rightarrow> int \<Rightarrow> string \<Rightarrow> string \<Rightarrow> string \<Rightarrow> string \<Rightarrow> consent_store \<Rightarrow> (io_error + unit) \<times> consent_store" where
  "revoke_account up now account agent orig action st =
     revoke_subject up now (SubAccount account agent) orig action st"

definition revoke_by_id :: "int \<Rightarrow> string \<Rightarrow> string \<Rightarrow> consent_store \<Rightarrow> (io_error + unit) \<times> consent_store" where
  "revoke_by_id now consent_id reason st =
     (case replay st of
        Inl e \<Rightarrow> (Inl e, st)
      | Inr recs \<Rightarrow>
          if \<not> (\<exists>rec \<in> set recs. cn_id rec = consent_id) then (Inr (), st)
          else append_line (LRevoke \<lparr>rt_version = 1, rt_revoke = consent_id, rt_revoked_at = now,
                              rt_reason = reason\<rparr>) st)"

text \<open>\<open>max_by\<close>: the last of the greatest elements.\<close>

fun max_by :: "('a \<Rightarrow> 'a \<Rightarrow> bool) \<Rightarrow> 'a list \<Rightarrow> 'a option" where
  "max_by le [] = None"
| "max_by le (x # xs) =
     Some (fold (\<lambda>y best. if le best y then y else best) xs x)"

definition granted_le :: "consent_record \<Rightarrow> consent_record \<Rightarrow> bool" where
  "granted_le a b \<longleftrightarrow>
     cn_granted_at a < cn_granted_at b
     \<or> (cn_granted_at a = cn_granted_at b \<and> str_le (cn_id a) (cn_id b))"

definition active_for_subject ::
  "url_parser \<Rightarrow> consent_subject \<Rightarrow> string \<Rightarrow> string \<Rightarrow> int \<Rightarrow> consent_store \<Rightarrow> consent_record option" where
  "active_for_subject up subject orig action now st =
     (case replay st of
        Inl _ \<Rightarrow> None
      | Inr recs \<Rightarrow>
          max_by granted_le
            (filter (\<lambda>rec. cn_subject rec = subject \<and> origin_matches up (cn_origin rec) orig
                          \<and> covers rec action \<and> active_at rec now) recs))"

definition active_for ::
  "url_parser \<Rightarrow> credential_id \<Rightarrow> string \<Rightarrow> string \<Rightarrow> int \<Rightarrow> consent_store \<Rightarrow> consent_record option" where
  "active_for up cid orig action now st = active_for_subject up (SubCredential cid) orig action now st"

definition active_for_account ::
  "url_parser \<Rightarrow> string \<Rightarrow> string \<Rightarrow> string \<Rightarrow> string \<Rightarrow> int \<Rightarrow> consent_store \<Rightarrow> consent_record option" where
  "active_for_account up account agent orig action now st =
     active_for_subject up (SubAccount account agent) orig action now st"

fun active_account_any ::
  "url_parser \<Rightarrow> string \<Rightarrow> string \<Rightarrow> string \<Rightarrow> string list \<Rightarrow> int \<Rightarrow> consent_store \<Rightarrow> consent_record option" where
  "active_account_any up account agent orig [] now st = None"
| "active_account_any up account agent orig (a # as) now st =
     (case active_for_account up account agent orig a now st of
        Some rec \<Rightarrow> Some rec
      | None \<Rightarrow> active_account_any up account agent orig as now st)"

definition consume :: "string \<Rightarrow> consent_store \<Rightarrow> (io_error + unit) \<times> consent_store" where
  "consume consent_id st =
     (case replay st of
        Inl e \<Rightarrow> (Inl e, st)
      | Inr recs \<Rightarrow>
          (case find (\<lambda>rec. cn_id rec = consent_id) recs of
             None \<Rightarrow> (Inl (''unknown consent: '' @ consent_id), st)
           | Some rec \<Rightarrow> grant (rec\<lparr>cn_uses := (cn_uses rec + 1) mod 2 ^ 64\<rparr>) st))"

definition consent_get :: "string \<Rightarrow> consent_store \<Rightarrow> io_error + consent_record option" where
  "consent_get consent_id st =
     res_bind (replay st) (\<lambda>recs. Inr (find (\<lambda>rec. cn_id rec = consent_id) recs))"

definition list_for_account :: "string \<Rightarrow> consent_store \<Rightarrow> io_error + consent_record list" where
  "list_for_account account st =
     res_bind (replay st) (\<lambda>recs. Inr (filter (\<lambda>rec. subject_account (cn_subject rec) = Some account) recs))"

section \<open>What a log means\<close>

text \<open>The abstract store: a partial function from ids to records.\<close>

fun log_line :: "consent_line \<Rightarrow> (string \<rightharpoonup> consent_record) \<Rightarrow> (string \<rightharpoonup> consent_record)" where
  "log_line (LGrant rec) m = m(cn_id rec \<mapsto> rec)"
| "log_line (LRevoke t) m = m(rt_revoke t := None)"
| "log_line (LUnparsable s) m = m"

definition store_map :: "consent_store \<Rightarrow> (string \<rightharpoonup> consent_record)" where
  "store_map st = (case cs_lines st of None \<Rightarrow> Map.empty | Some ls \<Rightarrow> fold log_line ls Map.empty)"

text \<open>The loop invariant of the replay: the order lists exactly the live ids, each once.\<close>

definition replay_inv :: "string list \<times> (string, consent_record) dict \<Rightarrow> bool" where
  "replay_inv ob \<longleftrightarrow> distinct (fst ob) \<and> set (fst ob) = dom (dict_get (snd ob))
     \<and> (\<forall>i rec. dict_get (snd ob) i = Some rec \<longrightarrow> cn_id rec = i)"

lemma replay_line_inv: "replay_inv ob \<Longrightarrow> replay_inv (replay_line l ob)"
proof (cases l)
  case (LGrant rec)
  assume "replay_inv ob"
  with LGrant show ?thesis
    by (cases ob) (auto simp: replay_inv_def dict_get_insert dom_def split: if_splits)
next
  case (LRevoke t)
  assume "replay_inv ob"
  with LRevoke show ?thesis
    by (cases ob) (auto simp: replay_inv_def dict_get_remove dom_def split: if_splits)
qed (simp add: replay_inv_def)

lemma replay_line_map: "dict_get (snd (replay_line l ob)) = log_line l (dict_get (snd ob))"
  by (cases ob; cases l) (auto simp: dict_get_insert dict_get_remove fun_eq_iff)

interpretation replay_machine: inv_machine replay_inv replay_line
  by unfold_locales (rule replay_line_inv)

lemma replay_fold_map: "dict_get (snd (fold replay_line ls ob)) = fold log_line ls (dict_get (snd ob))"
  by (induction ls arbitrary: ob) (simp_all add: replay_line_map del: replay_line.simps)

lemma drain_records:
  "distinct order \<Longrightarrow> set order \<subseteq> dom (dict_get by_id) \<Longrightarrow>
    (\<forall>i rec. dict_get by_id i = Some rec \<longrightarrow> cn_id rec = i) \<Longrightarrow>
    map cn_id (drain order by_id) = order
    \<and> set (drain order by_id) = {rec. \<exists>i \<in> set order. dict_get by_id i = Some rec}"
proof (induction order by_id rule: drain.induct)
  case (2 i order by_id)
  then obtain rec where rec: "dict_get by_id i = Some rec" by auto
  have rest: "dict_get (dict_remove i by_id) j = dict_get by_id j" if "j \<in> set order" for j
    using that 2(3) by (auto simp: dict_get_remove)
  have "map cn_id (drain order (dict_remove i by_id)) = order
    \<and> set (drain order (dict_remove i by_id)) = {rec. \<exists>j \<in> set order. dict_get (dict_remove i by_id) j = Some rec}"
    using 2(3-5) by (intro 2(2) [OF rec]) (auto simp: dict_get_remove split: if_splits)
  moreover have "cn_id rec = i" using 2(5) rec by blast
  ultimately show ?case using rec rest by auto
qed simp

lemma replay_Inr:
  assumes "replay st = Inr recs"
  shows "distinct (map cn_id recs)"
    and "store_map st i = Some rec \<longleftrightarrow> rec \<in> set recs \<and> cn_id rec = i"
proof -
  have "distinct (map cn_id recs) \<and> (\<forall>i rec. store_map st i = Some rec \<longleftrightarrow> rec \<in> set recs \<and> cn_id rec = i)"
  proof (cases "cs_lines st")
    case None
    with assms show ?thesis by (auto simp: replay_def store_map_def)
  next
    case (Some ls)
    obtain order by_id where ob: "fold replay_line ls ([], []) = (order, by_id)" by fastforce
    have "replay_inv (order, by_id)"
      using replay_machine.run_inv [of "([], [])" ls] ob by (simp add: replay_inv_def)
    then have inv: "distinct order" "set order = dom (dict_get by_id)"
      "\<forall>i rec. dict_get by_id i = Some rec \<longrightarrow> cn_id rec = i"
      by (simp_all add: replay_inv_def)
    have recs: "recs = drain order by_id"
      using assms Some ob by (simp add: replay_def split: if_splits)
    have sm: "store_map st = dict_get by_id"
      using replay_fold_map [of ls "([], [])"] ob Some by (simp add: store_map_def)
    from drain_records [OF inv(1) _ inv(3)] inv(2)
    have "map cn_id recs = order" "set recs = {rec. \<exists>i \<in> set order. dict_get by_id i = Some rec}"
      unfolding recs by auto
    with inv show ?thesis unfolding sm by auto
  qed
  then show "distinct (map cn_id recs)"
    and "store_map st i = Some rec \<longleftrightarrow> rec \<in> set recs \<and> cn_id rec = i" by auto
qed

lemma replay_find:
  assumes "replay st = Inr recs"
  shows "find (\<lambda>rec. cn_id rec = i) recs = store_map st i"
proof (cases "store_map st i")
  case None
  have "\<not> (\<exists>rec \<in> set recs. cn_id rec = i)"
    using None replay_Inr(2) [OF assms, of i] by fastforce
  with None show ?thesis by (simp add: find_None_iff)
next
  case (Some rec)
  then have rec: "rec \<in> set recs" "cn_id rec = i" using replay_Inr(2) [OF assms] by auto
  then obtain rec' where "find (\<lambda>rec. cn_id rec = i) recs = Some rec'"
    by (cases "find (\<lambda>rec. cn_id rec = i) recs") (auto simp: find_None_iff)
  moreover from this have "rec' \<in> set recs" "cn_id rec' = i"
    by (auto simp: find_Some_iff)
  ultimately show ?thesis using replay_Inr(2) [OF assms, of i rec'] by simp
qed

lemma append_line_map:
  "append_line l st = (Inr u, st') \<Longrightarrow> store_map st' = log_line l (store_map st)
     \<and> cs_readable st' = cs_readable st \<and> cs_writable st' = cs_writable st"
  by (auto simp: append_line_def store_map_def split: if_splits option.splits)

lemma append_line_fail: "append_line l st = (Inl e, st') \<Longrightarrow> st' = st"
  by (auto simp: append_line_def split: if_splits)

lemma append_tombstones_map:
  "append_tombstones now ids st = (Inr u, st') \<Longrightarrow>
    store_map st' = (\<lambda>i. if i \<in> set ids then None else store_map st i)"
proof (induction now ids st rule: append_tombstones.induct)
  case (2 now i ids st)
  then obtain u' st'' where app: "append_line (LRevoke \<lparr>rt_version = 1, rt_revoke = i, rt_revoked_at = now,
      rt_reason = ''user_revoked''\<rparr>) st = (Inr u', st'')" and rest: "append_tombstones now ids st'' = (Inr u, st')"
    by (auto split: prod.splits sum.splits)
  from 2(1) [OF app [symmetric] refl rest] append_line_map [OF app] show ?case by auto
qed simp

definition matches_use :: "url_parser \<Rightarrow> consent_subject \<Rightarrow> string \<Rightarrow> string \<Rightarrow> consent_record \<Rightarrow> bool" where
  "matches_use up subject orig action rec \<longleftrightarrow>
     cn_subject rec = subject \<and> origin_matches up (cn_origin rec) orig \<and> covers rec action"

lemma revoke_subject_map:
  assumes "revoke_subject up now subject orig action st = (Inr u, st')"
  shows "store_map st' i = (case store_map st i of
      Some rec \<Rightarrow> if matches_use up subject orig action rec then None else Some rec
    | None \<Rightarrow> None)"
proof -
  obtain recs where recs: "replay st = Inr recs"
    and tomb: "append_tombstones now (map cn_id (filter (matches_use up subject orig action) recs)) st = (Inr u, st')"
    using assms by (auto simp: revoke_subject_def matches_use_def [abs_def] split: sum.splits)
  note at = replay_Inr(2) [OF recs]
  show ?thesis
  proof (cases "store_map st i")
    case (Some rec)
    then have "rec \<in> set recs" "cn_id rec = i" using at by auto
    have "i \<in> set (map cn_id (filter (matches_use up subject orig action) recs))
        \<longleftrightarrow> matches_use up subject orig action rec"
    proof
      assume "i \<in> set (map cn_id (filter (matches_use up subject orig action) recs))"
      then obtain r where "r \<in> set recs" "cn_id r = i" "matches_use up subject orig action r" by auto
      moreover from this have "r = rec" using at [of i r] Some by simp
      ultimately show "matches_use up subject orig action rec" by simp
    next
      assume "matches_use up subject orig action rec"
      then show "i \<in> set (map cn_id (filter (matches_use up subject orig action) recs))"
        using \<open>rec \<in> set recs\<close> \<open>cn_id rec = i\<close> by auto
    qed
    then show ?thesis using Some append_tombstones_map [OF tomb] by simp
  qed (use append_tombstones_map [OF tomb] in simp)
qed

lemma fold_best_in:
  "fold (\<lambda>y best. if le best y then y else best) xs x \<in> insert x (set xs)"
  by (induction xs arbitrary: x) auto

lemma max_by_Some: "max_by le xs = Some x \<Longrightarrow> x \<in> set xs"
  using fold_best_in [of le "tl xs" "hd xs"] by (cases xs) auto

lemma max_by_None [simp]: "max_by le xs = None \<longleftrightarrow> xs = []"
  by (cases xs) auto

lemma fold_best_max:
  assumes "\<And>a b c. le a b \<Longrightarrow> le b c \<Longrightarrow> le a c" and "\<And>a b. le a b \<or> le b a"
  shows "\<forall>y \<in> insert x (set xs). le y (fold (\<lambda>y best. if le best y then y else best) xs x)"
proof (induction xs arbitrary: x)
  case Nil
  have "le x x" using assms(2) [of x x] by blast
  then show ?case by simp
next
  case (Cons z zs)
  define b where "b = (if le x z then z else x)"
  let ?top = "fold (\<lambda>y best. if le best y then y else best) zs b"
  have b: "le x b" "le z b" using assms(2) [of x z] assms(2) [of x x] assms(2) [of z z]
    by (auto simp: b_def)
  have tail: "\<forall>y \<in> insert b (set zs). le y ?top" by (rule Cons.IH)
  then have "le b ?top" by simp
  then have "le x ?top" "le z ?top" using b assms(1) by blast+
  with tail show ?case by (simp add: b_def [symmetric])
qed

lemma granted_le_order:
  "granted_le a b \<Longrightarrow> granted_le b c \<Longrightarrow> granted_le a c" "granted_le a b \<or> granted_le b a"
  using str_le_trans [of "cn_id a" "cn_id b" "cn_id c"] str_le_total [of "cn_id a" "cn_id b"]
  by (auto simp: granted_le_def)

lemma active_Some:
  assumes "active_for_subject up subject orig action now st = Some rec"
  shows "store_map st (cn_id rec) = Some rec" "matches_use up subject orig action rec" "active_at rec now"
proof -
  obtain recs where recs: "replay st = Inr recs"
    and "max_by granted_le (filter (\<lambda>rec. matches_use up subject orig action rec \<and> active_at rec now) recs) = Some rec"
    using assms by (auto simp: active_for_subject_def matches_use_def conj_assoc split: sum.splits)
  then have "rec \<in> set recs" "matches_use up subject orig action rec" "active_at rec now"
    using max_by_Some by fastforce+
  then show "store_map st (cn_id rec) = Some rec" "matches_use up subject orig action rec" "active_at rec now"
    using replay_Inr(2) [OF recs] by auto
qed

lemma consume_Inr:
  assumes "consume i st = (Inr u, st')"
  shows "\<exists>rec. store_map st i = Some rec \<and> cn_id rec = i
     \<and> store_map st' = (store_map st)(i \<mapsto> rec\<lparr>cn_uses := (cn_uses rec + 1) mod 2 ^ 64\<rparr>)"
proof -
  obtain recs rec where recs: "replay st = Inr recs" and rec: "store_map st i = Some rec"
    and g: "grant (rec\<lparr>cn_uses := (cn_uses rec + 1) mod 2 ^ 64\<rparr>) st = (Inr u, st')"
    using assms replay_find by (fastforce simp: consume_def split: sum.splits option.splits)
  moreover have "cn_id rec = i" using replay_Inr(2) [OF recs] rec by simp
  ultimately show ?thesis using append_line_map [OF g [unfolded grant_def]] by simp
qed

lemma consume_Inl: "consume i st = (Inl e, st') \<Longrightarrow> st' = st"
  by (auto simp: consume_def grant_def split: sum.splits option.splits dest: append_line_fail)

lemma active_newest:
  assumes recs: "replay st = Inr recs"
  shows "case active_for_subject up subject orig action now st of
      None \<Rightarrow> \<forall>i rec. store_map st i = Some rec \<longrightarrow> \<not> (matches_use up subject orig action rec \<and> active_at rec now)
    | Some rec \<Rightarrow> store_map st (cn_id rec) = Some rec \<and> matches_use up subject orig action rec \<and> active_at rec now
        \<and> (\<forall>i r. store_map st i = Some r \<and> matches_use up subject orig action r \<and> active_at r now
              \<longrightarrow> granted_le r rec)"
proof -
  let ?P = "\<lambda>rec. matches_use up subject orig action rec \<and> active_at rec now"
  have act: "active_for_subject up subject orig action now st = max_by granted_le (filter ?P recs)"
    by (simp add: active_for_subject_def recs matches_use_def conj_assoc)
  note at = replay_Inr(2) [OF recs]
  show ?thesis
  proof (cases "filter ?P recs")
    case Nil
    then have "\<not> ?P r" if "r \<in> set recs" for r
      using that by (simp add: filter_empty_conv)
    then show ?thesis using at by (simp add: act Nil)
  next
    case (Cons x xs)
    let ?top = "fold (\<lambda>y best. if granted_le best y then y else best) xs x"
    have sets: "set (filter ?P recs) = insert x (set xs)" using Cons by simp
    have "?top \<in> set (filter ?P recs)" unfolding sets by (rule fold_best_in)
    moreover have "\<forall>y \<in> set (filter ?P recs). granted_le y ?top"
      unfolding sets using granted_le_order by (rule fold_best_max)
    moreover have "active_for_subject up subject orig action now st = Some ?top"
      by (simp add: act Cons)
    ultimately show ?thesis using at by simp
  qed
qed

section \<open>Properties\<close>

text \<open>
  C28: The log refines a map: what a replay lists is the partial function that reads the lines
  one after the other, a grant overwriting the record of its id and a tombstone removing it;
  no id is listed twice.
\<close>
theorem replay_refines_map:
  assumes "replay st = Inr recs"
  shows "distinct (map cn_id recs)
    \<and> (\<lambda>i. find (\<lambda>rec. cn_id rec = i) recs) = store_map st"
  using replay_Inr(1) [OF assms] replay_find [OF assms] by (simp add: fun_eq_iff)

definition sample_grant :: "string \<Rightarrow> int \<Rightarrow> consent_record" where
  "sample_grant i budget =
     \<lparr>cn_version = 1, cn_id = i, cn_subject = SubCredential (CredentialId ''kch:main/a.com/password/me''),
      cn_origin = ''https://a.com'', cn_actions = [''login''], cn_granted_at = 10, cn_granted_by = ''user:local'',
      cn_expires_at = 1000, cn_max_uses = budget, cn_uses = 0, cn_ref_tag = None\<rparr>"

definition sample_store :: "consent_line list \<Rightarrow> consent_store" where
  "sample_store ls = \<lparr>cs_lines = Some ls, cs_readable = True, cs_writable = True\<rparr>"

definition sample_tombstone :: "string \<Rightarrow> revoke_tombstone" where
  "sample_tombstone i = \<lparr>rt_version = 1, rt_revoke = i, rt_revoked_at = 20, rt_reason = ''user_revoked''\<rparr>"

theorem replay_refines_map_witness:
  "distinct (map cn_id [sample_grant ''c-2'' 5])
    \<and> (\<lambda>i. find (\<lambda>rec. cn_id rec = i) [sample_grant ''c-2'' 5])
        = store_map (sample_store [LGrant (sample_grant ''c-1'' 1), LUnparsable ''x'', LGrant (sample_grant ''c-2'' 1),
            LRevoke (sample_tombstone ''c-1''), LGrant (sample_grant ''c-2'' 5)])"
  by (rule replay_refines_map) code_simp

text \<open>
  Revocation is effective: once the grants for a subject, an origin and an action have been
  revoked, no grant is active for that use at any time, until a new one is written.
\<close>
theorem revoked_never_active:
  assumes "revoke_subject up now subject orig action st = (Inr u, st')"
  shows "active_for_subject up subject orig action now' st' = None"
proof (rule ccontr)
  assume "active_for_subject up subject orig action now' st' \<noteq> None"
  then obtain rec where "active_for_subject up subject orig action now' st' = Some rec" by auto
  from active_Some(1,2) [OF this] revoke_subject_map [OF assms, of "cn_id rec"]
  show False by (auto split: option.splits if_splits)
qed

theorem revoked_never_active_witness:
  "active_for_subject sample_parser (SubCredential (CredentialId ''kch:main/a.com/password/me''))
     ''https://a.com'' ''login'' 500
     (sample_store [LGrant (sample_grant ''c-1'' 1), LRevoke (sample_tombstone ''c-1'')]) = None"
  by (rule revoked_never_active
      [where now = 20 and st = "sample_store [LGrant (sample_grant ''c-1'' 1)]" and u = "()"]) code_simp

text \<open>
  Which grant is charged: a lookup finds a grant exactly when a live record of the log is
  for that subject, origin and action, unexpired and with uses left, and it is then the most
  recently granted of them.
\<close>
theorem active_grant_is_newest:
  assumes "replay st = Inr recs"
  shows "case active_for_subject up subject orig action now st of
      None \<Rightarrow> \<forall>i rec. store_map st i = Some rec \<longrightarrow> \<not> (matches_use up subject orig action rec \<and> active_at rec now)
    | Some rec \<Rightarrow> store_map st (cn_id rec) = Some rec \<and> matches_use up subject orig action rec \<and> active_at rec now
        \<and> (\<forall>i r. store_map st i = Some r \<and> matches_use up subject orig action r \<and> active_at r now
              \<longrightarrow> granted_le r rec)"
  using assms by (rule active_newest)

theorem active_grant_is_newest_witness:
  "active_for_subject sample_parser (SubCredential (CredentialId ''kch:main/a.com/password/me''))
     ''https://a.com'' ''login'' 500
     (sample_store [LGrant (sample_grant ''c-1'' 1), LGrant (sample_grant ''c-2'' 1)]) \<noteq> None"
proof
  let ?st = "sample_store [LGrant (sample_grant ''c-1'' 1), LGrant (sample_grant ''c-2'' 1)]"
  let ?sub = "SubCredential (CredentialId ''kch:main/a.com/password/me'')"
  assume none: "active_for_subject sample_parser ?sub ''https://a.com'' ''login'' 500 ?st = None"
  have rep: "replay ?st = Inr [sample_grant ''c-1'' 1, sample_grant ''c-2'' 1]" by code_simp
  have "store_map ?st ''c-1'' = Some (sample_grant ''c-1'' 1)"
    by (simp add: sample_store_def store_map_def sample_grant_def)
  moreover have "matches_use sample_parser ?sub ''https://a.com'' ''login'' (sample_grant ''c-1'' 1)
      \<and> active_at (sample_grant ''c-1'' 1) 500" by code_simp
  ultimately show False
    using active_grant_is_newest [OF rep, of sample_parser ?sub "''https://a.com''" "''login''" 500] none by auto
qed

end
