(* ===== verification/AuditLog.thy ===== *)
theory AuditLog
  imports Prelude
begin

text \<open>
  \<open>oxibrowser-core/src/security/audit.rs\<close>: the append-only audit log. A line is the event it
  serializes; a write that fails leaves the file as it was and still uses up its sequence
  number. The process-wide log is \<open>None\<close> while audit is off.
\<close>

datatype audit_kind =
    CredentialUse | CredentialRead | SensitiveAction | SessionTeardown | PolicyViolation
  | AccountStateChange | AccountUse | SessionCapture | SessionRestore | SessionDiscard

datatype audit_decision = ADAllow | ADDeny | ADPrompt | ADTimeout

record credential_ref =
  ref_id :: string
  ref_fingerprint :: string

record audit_event =
  ev_schema_version :: int
  ev_ts :: string
  ev_seq :: int
  ev_event_id :: string
  ev_kind :: audit_kind
  ev_ref_tag :: "string option"
  ev_session_id :: "string option"
  ev_tab_id :: "string option"
  ev_origin :: "string option"
  ev_credential :: "credential_ref option"
  ev_action :: "string option"
  ev_decision :: audit_decision
  ev_reason :: string

record audit_log =
  al_lines :: "audit_event list"
  al_seq :: int
  al_instance :: string
  al_writable :: bool

definition audit_schema_version :: int where
  "audit_schema_version = 1"

definition stamp :: "audit_log \<Rightarrow> audit_event \<Rightarrow> audit_event" where
  "stamp lg event =
     (let event = event\<lparr>ev_seq := al_seq lg, ev_schema_version := audit_schema_version\<rparr>
      in if ev_event_id event = []
         then event\<lparr>ev_event_id := ''evt-'' @ al_instance lg @ ''-'' @ show_uint (al_seq lg)\<rparr>
         else event)"

definition audit_log_record :: "audit_event \<Rightarrow> audit_log \<Rightarrow> (string + unit) \<times> audit_log" where
  "audit_log_record event lg =
     (let event = stamp lg event;
          lg = lg\<lparr>al_seq := (al_seq lg + 1) mod 2 ^ 64\<rparr>
      in if al_writable lg then (Inr (), lg\<lparr>al_lines := al_lines lg @ [event]\<rparr>)
         else (Inl ''audit write failed'', lg))"

definition audit_record :: "audit_event \<Rightarrow> audit_log option \<Rightarrow> audit_log option" where
  "audit_record event global = map_option (\<lambda>lg. snd (audit_log_record event lg)) global"

definition audit_event_new :: "string \<Rightarrow> audit_kind \<Rightarrow> audit_decision \<Rightarrow> string \<Rightarrow> audit_event" where
  "audit_event_new ts kind decision reason =
     \<lparr>ev_schema_version = audit_schema_version, ev_ts = ts, ev_seq = 0, ev_event_id = [], ev_kind = kind,
      ev_ref_tag = None, ev_session_id = None, ev_tab_id = None, ev_origin = None, ev_credential = None,
      ev_action = None, ev_decision = decision, ev_reason = reason\<rparr>"

definition secret_fingerprint :: "(string \<Rightarrow> string) \<Rightarrow> string \<Rightarrow> string" where
  "secret_fingerprint sha256 v = ''sha256:'' @ concat (map hex_byte (take 4 (sha256 v)))"

section \<open>Unique event ids\<close>

text \<open>
  The log's own invariant: sequence numbers count the records, so the ids it stamps are
  pairwise different until the 64-bit counter wraps.
\<close>

definition log_ok :: "audit_log \<Rightarrow> bool" where
  "log_ok lg \<longleftrightarrow> 0 \<le> al_seq lg
     \<and> (\<forall>e \<in> set (al_lines lg). 0 \<le> ev_seq e \<and> ev_seq e < al_seq lg
          \<and> ev_event_id e = ''evt-'' @ al_instance lg @ ''-'' @ show_uint (ev_seq e))
     \<and> distinct (map ev_event_id (al_lines lg))"

lemma stamp_fields:
  "ev_seq (stamp lg e) = al_seq lg" "ev_kind (stamp lg e) = ev_kind e"
  "ev_decision (stamp lg e) = ev_decision e" "ev_reason (stamp lg e) = ev_reason e"
  "ev_origin (stamp lg e) = ev_origin e" "ev_action (stamp lg e) = ev_action e"
  "ev_credential (stamp lg e) = ev_credential e"
  by (simp_all add: stamp_def Let_def)

lemma stamp_id: "ev_event_id e = [] \<Longrightarrow>
    ev_event_id (stamp lg e) = ''evt-'' @ al_instance lg @ ''-'' @ show_uint (al_seq lg)"
  by (simp add: stamp_def Let_def)

lemma audit_log_record_ok:
  assumes "log_ok lg" and "ev_event_id e = []" and "al_seq lg + 1 < 2 ^ 64"
  shows "log_ok (snd (audit_log_record e lg)) \<and> al_seq (snd (audit_log_record e lg)) = al_seq lg + 1"
proof -
  have seq: "(al_seq lg + 1) mod 2 ^ 64 = al_seq lg + 1"
    using assms by (simp add: log_ok_def)
  have "ev_event_id (stamp lg e) \<notin> ev_event_id ` set (al_lines lg)"
  proof
    assume "ev_event_id (stamp lg e) \<in> ev_event_id ` set (al_lines lg)"
    then obtain f where f: "f \<in> set (al_lines lg)" "ev_event_id f = ev_event_id (stamp lg e)" by auto
    then have "show_uint (ev_seq f) = show_uint (al_seq lg)"
      using assms(1,2) by (auto simp: log_ok_def stamp_id)
    then have "ev_seq f = al_seq lg"
      using f(1) assms(1) inj_show_uint by (auto simp: log_ok_def)
    then show False using f(1) assms(1) by (auto simp: log_ok_def)
  qed
  moreover have "(al_seq lg + 1) mod 18446744073709551616 = al_seq lg + 1" using seq by simp
  ultimately show ?thesis
    using assms(1) stamp_id [OF assms(2), of lg]
    by (auto simp: audit_log_record_def Let_def log_ok_def stamp_fields)
qed

lemma records_ok:
  "\<lbrakk>log_ok lg; \<forall>e \<in> set es. ev_event_id e = []; al_seq lg + int (length es) < 2 ^ 64\<rbrakk> \<Longrightarrow>
    log_ok (fold (\<lambda>e lg. snd (audit_log_record e lg)) es lg)"
proof (induction es arbitrary: lg)
  case (Cons e es)
  then have "al_seq lg + 1 < 2 ^ 64" "ev_event_id e = []" by auto
  from audit_log_record_ok [OF Cons.prems(1) this(2,1)] Cons show ?case by auto
qed simp

text \<open>\<open>AuditLog::open\<close>: what the file holds of earlier openings is not looked at.\<close>

definition audit_log_open :: "string \<Rightarrow> bool \<Rightarrow> audit_log" where
  "audit_log_open instance_id writable =
     \<lparr>al_lines = [], al_seq = 0, al_instance = instance_id, al_writable = writable\<rparr>"

section \<open>Properties\<close>

text \<open>
  The ids of the events one opening of the log writes are pairwise different: unstamped
  events, recorded one after the other and fewer than the counter can number, never share an id.
\<close>
theorem audit_ids_unique:
  assumes "\<forall>e \<in> set es. ev_event_id e = []" and "int (length es) < 2 ^ 64"
  shows "distinct (map ev_event_id
    (al_lines (fold (\<lambda>e lg. snd (audit_log_record e lg)) es (audit_log_open inst w))))"
proof -
  have "log_ok (audit_log_open inst w)" by (simp add: log_ok_def audit_log_open_def)
  then have "log_ok (fold (\<lambda>e lg. snd (audit_log_record e lg)) es (audit_log_open inst w))"
    using assms by (intro records_ok) (simp_all add: audit_log_open_def)
  then show ?thesis by (simp add: log_ok_def)
qed

theorem audit_ids_unique_witness:
  "let e = audit_event_new ''2026-01-01T00:00:00Z'' CredentialUse ADAllow ''ok''
   in distinct (map ev_event_id (al_lines
        (fold (\<lambda>e lg. snd (audit_log_record e lg)) [e, e, e] (audit_log_open ''a-1'' True))))"
  unfolding Let_def by (rule audit_ids_unique) (simp_all add: audit_event_new_def)

end
