(* ===== verification/Policy.thy ===== *)
theory Policy
  imports Consent AuditLog
begin

text \<open>
  \<open>oxibrowser-credentials/src/policy.rs\<close>: the use-policy engine. Deny rules come first, then
  the passkey guard, then the consent store, whose grant is charged one use; every verdict is
  written to the audit log. The hash of a request is SHA-256 over its canonical JSON;
  \<open>serde_json\<close>'s encoding of a string is an argument, as are the hash, the URL parser and the
  text of the current time (record \<open>policy_env\<close>).
\<close>

section \<open>Requests and tokens\<close>

record policy_env =
  pv_consent :: consent_env
  pv_json_str :: "string \<Rightarrow> string"
  pv_ts :: string

datatype credential_action = ActLogin | ActMfa | ActFillApiKey

fun action_as_str :: "credential_action \<Rightarrow> string" where
  "action_as_str ActLogin = ''login''"
| "action_as_str ActMfa = ''mfa''"
| "action_as_str ActFillApiKey = ''fill-api-key''"

record use_request =
  ur_credential :: credential_id
  ur_top_level :: origin
  ur_frame :: "origin option"
  ur_action :: credential_action
  ur_value_fingerprint :: "string option"

definition use_request_new :: "credential_id \<Rightarrow> origin \<Rightarrow> credential_action \<Rightarrow> use_request" where
  "use_request_new credential top_level action =
     \<lparr>ur_credential = credential, ur_top_level = top_level, ur_frame = None, ur_action = action,
      ur_value_fingerprint = None\<rparr>"

record confirmation_token =
  tk_request_hash :: string
  tk_issued_at :: int
  tk_expires_at :: int

definition request_hash_hex :: "confirmation_token \<Rightarrow> string" where
  "request_hash_hex t = concat (map hex_byte (tk_request_hash t))"

definition token_expired_at :: "confirmation_token \<Rightarrow> int \<Rightarrow> bool" where
  "token_expired_at t now \<longleftrightarrow> now > tk_expires_at t"

definition confirmation_ttl :: int where
  "confirmation_ttl = 60 * 1000000000"

definition json_opt :: "(string \<Rightarrow> string) \<Rightarrow> string option \<Rightarrow> string" where
  "json_opt js v = (case v of Some s \<Rightarrow> js s | None \<Rightarrow> ''null'')"

abbreviation jkey :: "string \<Rightarrow> string" where
  "jkey k \<equiv> [CHR 0x22] @ k @ [CHR 0x22, CHR '':'']"

definition canonical_json :: "(string \<Rightarrow> string) \<Rightarrow> use_request \<Rightarrow> string" where
  "canonical_json js req =
     ''{'' @ jkey ''action'' @ js (action_as_str (ur_action req))
     @ '','' @ jkey ''credential'' @ js (id_str (ur_credential req))
     @ '','' @ jkey ''frame'' @ json_opt js (map_option origin_as_str (ur_frame req))
     @ '','' @ jkey ''top_level'' @ js (origin_as_str (ur_top_level req))
     @ '','' @ jkey ''value_fingerprint'' @ json_opt js (ur_value_fingerprint req) @ ''}''"

definition request_hash :: "policy_env \<Rightarrow> use_request \<Rightarrow> string" where
  "request_hash env req =
     ce_sha256 (pv_consent env)
       (''oxibrowser-confirmation-v1'' @ [CHR 0x0A] @ canonical_json (pv_json_str env) req)"

section \<open>The engine\<close>

record policy_engine =
  pe_deny_rules :: "origin_rule list"
  pe_consents :: consent_store
  pe_audit :: audit_log

definition deny_hit :: "policy_engine \<Rightarrow> use_request \<Rightarrow> string option" where
  "deny_hit eng req =
     map_option (\<lambda>r. ''deny rule for '' @ origin_as_str (r_origin r))
       (find (\<lambda>r. exact_eq (r_origin r) (ur_top_level req)
               \<or> (case ur_frame req of Some f \<Rightarrow> exact_eq (r_origin r) f | None \<Rightarrow> False))
         (filter (\<lambda>r. r_mode r = RuleDeny) (pe_deny_rules eng)))"

definition policy_log ::
  "policy_env \<Rightarrow> use_request \<Rightarrow> audit_decision \<Rightarrow> string \<Rightarrow> policy_engine \<Rightarrow> policy_engine" where
  "policy_log env req dec reason eng =
     (let event = (audit_event_new (pv_ts env) CredentialUse dec reason)
            \<lparr>ev_origin := Some (origin_as_str (ur_top_level req)),
             ev_action := Some (action_as_str (ur_action req)),
             ev_credential := Some \<lparr>ref_id = id_str (ur_credential req),
               ref_fingerprint = (case ur_value_fingerprint req of Some f \<Rightarrow> f | None \<Rightarrow> [])\<rparr>\<rparr>
      in eng\<lparr>pe_audit := snd (audit_log_record event (pe_audit eng))\<rparr>)"

definition passkey_handle :: "credential_id \<Rightarrow> bool" where
  "passkey_handle cid = (case id_parse cid of Inr p \<Rightarrow> cp_kind p = KPasskey | Inl _ \<Rightarrow> False)"

definition passkey_reason :: string where
  "passkey_reason = ''passkey policy is undefined until WebAuthn support (P2-M7)''"

definition authorize_use_at ::
  "policy_env \<Rightarrow> use_request \<Rightarrow> int \<Rightarrow> policy_engine \<Rightarrow> decision \<times> policy_engine" where
  "authorize_use_at env req now eng =
     (case deny_hit eng req of
        Some reason \<Rightarrow> (Deny reason, policy_log env req ADDeny reason eng)
      | None \<Rightarrow>
          if passkey_handle (ur_credential req)
          then (Deny passkey_reason, policy_log env req ADDeny passkey_reason eng)
          else
            (case active_for (ce_parser (pv_consent env)) (ur_credential req)
                    (origin_as_str (ur_top_level req)) (action_as_str (ur_action req)) now (pe_consents eng) of
               Some rec \<Rightarrow>
                 (case consume (cn_id rec) (pe_consents eng) of
                    (Inr _, st) \<Rightarrow>
                      (Allow, policy_log env req ADAllow (''consent:'' @ cn_id rec) (eng\<lparr>pe_consents := st\<rparr>))
                  | (Inl e, st) \<Rightarrow>
                      (let reason = ''consent accounting failed: '' @ e
                       in (Deny reason, policy_log env req ADDeny reason (eng\<lparr>pe_consents := st\<rparr>))))
             | None \<Rightarrow>
                 (let reason = ''no active consent for '' @ id_str (ur_credential req) @ '' at ''
                        @ origin_as_str (ur_top_level req) @ '' ('' @ action_as_str (ur_action req) @ '')''
                  in (RequireConfirmation reason, policy_log env req ADPrompt reason eng))))"

definition preflight :: "policy_env \<Rightarrow> use_request \<Rightarrow> int \<Rightarrow> policy_engine \<Rightarrow> bool" where
  "preflight env req now eng =
     (if deny_hit eng req \<noteq> None then False
      else active_for (ce_parser (pv_consent env)) (ur_credential req)
             (origin_as_str (ur_top_level req)) (action_as_str (ur_action req)) now (pe_consents eng) \<noteq> None)"

definition issue_confirmation :: "policy_env \<Rightarrow> use_request \<Rightarrow> int \<Rightarrow> confirmation_token" where
  "issue_confirmation env req now =
     \<lparr>tk_request_hash = request_hash env req, tk_issued_at = now, tk_expires_at = now + confirmation_ttl\<rparr>"

definition changed_reason :: string where
  "changed_reason = ''request changed since confirmation '' @ em_dash @ '' approval void''"

definition expired_reason :: string where
  "expired_reason = ''confirmation expired '' @ em_dash @ '' timeout denies''"

definition verify_confirmation_at ::
  "policy_env \<Rightarrow> confirmation_token \<Rightarrow> use_request \<Rightarrow> int \<Rightarrow> policy_engine \<Rightarrow> decision \<times> policy_engine" where
  "verify_confirmation_at env token req now eng =
     (if request_hash env req \<noteq> tk_request_hash token
      then (Deny changed_reason, policy_log env req ADDeny changed_reason eng)
      else if token_expired_at token now
      then (Deny expired_reason, policy_log env req ADTimeout expired_reason eng)
      else case deny_hit eng req of
             Some reason \<Rightarrow> (Deny reason, policy_log env req ADDeny reason eng)
           | None \<Rightarrow> (Allow, policy_log env req ADAllow ''confirmed'' eng))"

fun merge_reason :: "cred_error \<Rightarrow> string \<Rightarrow> cred_error" where
  "merge_reason (ConsentRequired c o' a) reason = ConsentRequired (c @ '' ('' @ reason @ '')'') o' a"
| "merge_reason other reason = other"

fun decision_error :: "use_request \<Rightarrow> decision \<Rightarrow> cred_error" where
  "decision_error req Allow = CredInvalid ''decision was Allow, not an error''"
| "decision_error req (Deny reason) =
     merge_reason (ConsentRequired (id_str (ur_credential req)) (origin_as_str (ur_top_level req))
       (action_as_str (ur_action req))) reason"
| "decision_error req (RequireConfirmation reason) =
     ConsentRequired (id_str (ur_credential req)) (origin_as_str (ur_top_level req))
       (action_as_str (ur_action req))"

section \<open>Lemmas\<close>

definition rule_names :: "origin_rule \<Rightarrow> use_request \<Rightarrow> bool" where
  "rule_names r req \<longleftrightarrow> r_mode r = RuleDeny \<and> (r_origin r = ur_top_level req \<or> ur_frame req = Some (r_origin r))"

lemma deny_hit_None: "deny_hit eng req = None \<longleftrightarrow> \<not> (\<exists>r \<in> set (pe_deny_rules eng). rule_names r req)"
  by (auto simp: deny_hit_def find_None_iff exact_eq_def rule_names_def split: option.splits)

lemma policy_log_simps [simp]:
  "pe_deny_rules (policy_log env req d reason eng) = pe_deny_rules eng"
  "pe_consents (policy_log env req d reason eng) = pe_consents eng"
  by (simp_all add: policy_log_def Let_def)

lemma authorize_Allow:
  assumes "authorize_use_at env req now eng = (Allow, eng')"
  shows "deny_hit eng req = None" and "\<not> passkey_handle (ur_credential req)"
    and "\<exists>rec. active_for (ce_parser (pv_consent env)) (ur_credential req) (origin_as_str (ur_top_level req))
            (action_as_str (ur_action req)) now (pe_consents eng) = Some rec
          \<and> consume (cn_id rec) (pe_consents eng) = (Inr (), pe_consents eng')"
  using assms by (auto simp: authorize_use_at_def Let_def split: option.splits if_splits prod.splits sum.splits)

lemma authorize_keeps:
  assumes "fst (authorize_use_at env req now eng) \<noteq> Allow"
  shows "pe_consents (snd (authorize_use_at env req now eng)) = pe_consents eng"
  using assms by (auto simp: authorize_use_at_def Let_def dest: consume_Inl
      split: option.splits if_splits prod.splits sum.splits)

lemma authorize_rules: "pe_deny_rules (snd (authorize_use_at env req now eng)) = pe_deny_rules eng"
  by (auto simp: authorize_use_at_def Let_def split: option.splits prod.splits sum.splits)

lemma authorize_Allow_iff:
  "fst (authorize_use_at env req now eng) = Allow \<longleftrightarrow>
     deny_hit eng req = None \<and> \<not> passkey_handle (ur_credential req)
     \<and> (\<exists>rec. active_for (ce_parser (pv_consent env)) (ur_credential req) (origin_as_str (ur_top_level req))
            (action_as_str (ur_action req)) now (pe_consents eng) = Some rec
          \<and> fst (consume (cn_id rec) (pe_consents eng)) = Inr ())"
  by (auto simp: authorize_use_at_def Let_def split: option.splits prod.splits sum.splits)

text \<open>The engine is a gate whose denials come first.\<close>

definition engine_permits :: "policy_env \<Rightarrow> policy_engine \<Rightarrow> use_request \<times> int \<Rightarrow> bool" where
  "engine_permits env eng q = (fst (authorize_use_at env (fst q) (snd q) eng) = Allow)"

definition engine_deny :: "origin \<Rightarrow> policy_engine \<Rightarrow> policy_engine" where
  "engine_deny o' eng = eng\<lparr>pe_deny_rules := add_deny o' (pe_deny_rules eng)\<rparr>"

definition engine_hits :: "policy_engine \<Rightarrow> use_request \<times> int \<Rightarrow> bool" where
  "engine_hits eng q = (deny_hit eng (fst q) \<noteq> None)"

definition request_names :: "origin \<Rightarrow> use_request \<times> int \<Rightarrow> bool" where
  "request_names o' q \<longleftrightarrow> o' = ur_top_level (fst q) \<or> ur_frame (fst q) = Some o'"

lemma deny_hit_engine_deny:
  "deny_hit (engine_deny o' eng) req = None \<longleftrightarrow>
     deny_hit eng req = None \<and> \<not> request_names o' (req, now)"
  by (auto simp: deny_hit_None engine_deny_def add_deny_def request_names_def rule_names_def)

interpretation engine_gate: deny_first_gate "engine_permits env" engine_deny engine_hits request_names for env
proof unfold_locales
  fix d g r
  show "engine_permits env (engine_deny d g) r \<Longrightarrow> engine_permits env g r"
    using deny_hit_engine_deny [of d g "fst r"]
    by (auto simp: engine_permits_def authorize_Allow_iff engine_deny_def)
  show "engine_hits g r \<Longrightarrow> \<not> engine_permits env g r"
    by (simp add: engine_permits_def engine_hits_def authorize_Allow_iff)
  show "engine_hits (engine_deny d g) r \<longleftrightarrow> request_names d r \<or> engine_hits g r"
    using deny_hit_engine_deny [of d g "fst r" "snd r"] by (auto simp: engine_hits_def)
qed

text \<open>Runs of an engine, and the uses they charge to one grant.\<close>

datatype policy_event =
    EvAuthorize use_request int
  | EvVerify confirmation_token use_request int
  | EvRevoke consent_subject string string int
  | EvRevokeId string string int
  | EvGrant consent_record

fun policy_step :: "policy_env \<Rightarrow> policy_event \<Rightarrow> policy_engine \<Rightarrow> policy_engine" where
  "policy_step env (EvAuthorize req now) eng = snd (authorize_use_at env req now eng)"
| "policy_step env (EvVerify t req now) eng = snd (verify_confirmation_at env t req now eng)"
| "policy_step env (EvRevoke sub orig action now) eng =
     eng\<lparr>pe_consents := snd (revoke_subject (ce_parser (pv_consent env)) now sub orig action (pe_consents eng))\<rparr>"
| "policy_step env (EvRevokeId i reason now) eng =
     eng\<lparr>pe_consents := snd (revoke_by_id now i reason (pe_consents eng))\<rparr>"
| "policy_step env (EvGrant rec) eng = eng\<lparr>pe_consents := snd (grant rec (pe_consents eng))\<rparr>"

text \<open>An allowed use is charged to the grant that the lookup found.\<close>

fun charged :: "policy_env \<Rightarrow> string \<Rightarrow> policy_event \<Rightarrow> policy_engine \<Rightarrow> nat" where
  "charged env i (EvAuthorize req now) eng =
     (if fst (authorize_use_at env req now eng) = Allow
         \<and> map_option cn_id (active_for (ce_parser (pv_consent env)) (ur_credential req)
               (origin_as_str (ur_top_level req)) (action_as_str (ur_action req)) now (pe_consents eng)) = Some i
      then 1 else 0)"
| "charged env i _ eng = 0"

fun charges :: "policy_env \<Rightarrow> string \<Rightarrow> policy_event list \<Rightarrow> policy_engine \<Rightarrow> nat" where
  "charges env i [] eng = 0"
| "charges env i (e # es) eng = charged env i e eng + charges env i es (policy_step env e eng)"

fun regrants :: "string \<Rightarrow> policy_event \<Rightarrow> bool" where
  "regrants i (EvGrant rec) = (cn_id rec = i)"
| "regrants i _ = False"

text \<open>What is left of the budget of a grant; a 64-bit count below its limit does not wrap.\<close>

definition budget_ok :: "string \<Rightarrow> consent_store \<Rightarrow> bool" where
  "budget_ok i st = (case store_map st i of
     Some rec \<Rightarrow> 0 \<le> cn_uses rec \<and> cn_max_uses rec < 2 ^ 64 | None \<Rightarrow> True)"

definition remaining_uses :: "string \<Rightarrow> consent_store \<Rightarrow> nat" where
  "remaining_uses i st = (case store_map st i of
     Some rec \<Rightarrow> nat (cn_max_uses rec - cn_uses rec) | None \<Rightarrow> 0)"

lemma tombstone_map_le:
  "store_map (snd (append_line (LRevoke t) st)) i = store_map st i
   \<or> store_map (snd (append_line (LRevoke t) st)) i = None"
proof (cases "append_line (LRevoke t) st")
  case (Pair r st')
  show ?thesis
  proof (cases r)
    case (Inl e)
    with Pair have "st' = st" by (simp add: append_line_fail)
    with Pair show ?thesis by simp
  next
    case (Inr u)
    with Pair have "store_map st' = (store_map st)(rt_revoke t := None)" by (simp add: append_line_map)
    with Pair show ?thesis by simp
  qed
qed

lemma tombstones_map_le:
  "store_map (snd (append_tombstones now ids st)) i = store_map st i
   \<or> store_map (snd (append_tombstones now ids st)) i = None"
proof (induction now ids st rule: append_tombstones.induct)
  case (2 now j ids st)
  let ?t = "\<lparr>rt_version = 1, rt_revoke = j, rt_revoked_at = now, rt_reason = ''user_revoked''\<rparr>"
  show ?case
  proof (cases "append_line (LRevoke ?t) st")
    case (Pair r st')
    have step: "store_map st' i = store_map st i \<or> store_map st' i = None"
      using tombstone_map_le [of ?t st i] Pair by simp
    show ?thesis
    proof (cases r)
      case (Inr u)
      from 2 [OF Pair [symmetric] Inr] step Pair Inr show ?thesis by auto
    qed (use Pair step in simp)
  qed
qed simp

lemma revoke_map_le:
  "store_map (snd (revoke_subject up now sub orig action st)) i = store_map st i
   \<or> store_map (snd (revoke_subject up now sub orig action st)) i = None"
  using tombstones_map_le by (auto simp: revoke_subject_def split: sum.splits)

lemma revoke_id_map_le:
  "store_map (snd (revoke_by_id now j reason st)) i = store_map st i
   \<or> store_map (snd (revoke_by_id now j reason st)) i = None"
  using tombstone_map_le by (auto simp: revoke_by_id_def split: sum.splits)

lemma grant_map_other: "cn_id rec \<noteq> i \<Longrightarrow> store_map (snd (grant rec st)) i = store_map st i"
  by (cases "append_line (LGrant rec) st"; cases "fst (append_line (LGrant rec) st)")
    (auto simp: grant_def dest: append_line_map append_line_fail)

lemma budget_mono:
  assumes "store_map st' i = store_map st i \<or> store_map st' i = None" and "budget_ok i st"
  shows "budget_ok i st' \<and> remaining_uses i st' \<le> remaining_uses i st"
  using assms by (auto simp: budget_ok_def remaining_uses_def)

lemma authorize_budget:
  assumes "budget_ok i (pe_consents eng)"
  shows "budget_ok i (pe_consents (policy_step env (EvAuthorize req now) eng))
    \<and> charged env i (EvAuthorize req now) eng + remaining_uses i (pe_consents (policy_step env (EvAuthorize req now) eng))
      \<le> remaining_uses i (pe_consents eng)"
proof (cases "fst (authorize_use_at env req now eng) = Allow")
  case False
  with assms show ?thesis by (simp add: authorize_keeps)
next
  case True
  then obtain eng' where run: "authorize_use_at env req now eng = (Allow, eng')"
    by (metis prod.collapse)
  from authorize_Allow(3) [OF run] obtain rec where act: "active_for (ce_parser (pv_consent env))
        (ur_credential req) (origin_as_str (ur_top_level req)) (action_as_str (ur_action req)) now
        (pe_consents eng) = Some rec"
    and con: "consume (cn_id rec) (pe_consents eng) = (Inr (), pe_consents eng')" by blast
  have rec: "store_map (pe_consents eng) (cn_id rec) = Some rec" "active_at rec now"
    using active_Some [OF act [unfolded active_for_def]] by auto
  from consume_Inr [OF con] rec
  have sm: "store_map (pe_consents eng')
      = (store_map (pe_consents eng))(cn_id rec \<mapsto> rec\<lparr>cn_uses := (cn_uses rec + 1) mod 2 ^ 64\<rparr>)" by auto
  show ?thesis
  proof (cases "cn_id rec = i")
    case True
    have "0 \<le> cn_uses rec" "cn_uses rec < cn_max_uses rec" "cn_max_uses rec < 2 ^ 64"
      using assms rec True by (auto simp: budget_ok_def active_at_def)
    then have "(cn_uses rec + 1) mod 2 ^ 64 = cn_uses rec + 1" by simp
    then show ?thesis
      using True run act sm rec \<open>0 \<le> cn_uses rec\<close> \<open>cn_uses rec < cn_max_uses rec\<close> \<open>cn_max_uses rec < 2 ^ 64\<close>
      by (auto simp: budget_ok_def remaining_uses_def)
  next
    case False
    with run act sm have "store_map (pe_consents eng') i = store_map (pe_consents eng) i" by simp
    with False run act budget_mono [OF disjI1, of "pe_consents eng'" i "pe_consents eng"] assms
    show ?thesis by simp
  qed
qed

lemma step_budget:
  assumes "budget_ok i (pe_consents eng)" and "\<not> regrants i e"
  shows "budget_ok i (pe_consents (policy_step env e eng))
    \<and> charged env i e eng + remaining_uses i (pe_consents (policy_step env e eng))
      \<le> remaining_uses i (pe_consents eng)"
proof (cases e)
  case (EvAuthorize req now)
  with authorize_budget [OF assms(1)] show ?thesis by blast
next
  case (EvVerify t req now)
  with assms(1) show ?thesis by (auto simp: verify_confirmation_at_def split: option.splits)
next
  case (EvRevoke sub orig action now)
  with budget_mono [OF revoke_map_le assms(1)] show ?thesis by simp
next
  case (EvRevokeId j reason now)
  with budget_mono [OF revoke_id_map_le assms(1)] show ?thesis by simp
next
  case (EvGrant rec)
  with assms(2) budget_mono [OF disjI1 assms(1)] grant_map_other [of rec i] show ?thesis by simp
qed

lemma run_budget:
  "budget_ok i (pe_consents eng) \<Longrightarrow> \<forall>e \<in> set es. \<not> regrants i e \<Longrightarrow>
    charges env i es eng \<le> remaining_uses i (pe_consents eng)"
proof (induction es arbitrary: eng)
  case (Cons e es)
  with step_budget [of i eng e env] Cons.IH [of "policy_step env e eng"] show ?case by fastforce
qed simp

text \<open>What is relied on of \<open>serde_json\<close>: string literals are quoted and self-delimiting.\<close>

definition json_prefix_free :: "(string \<Rightarrow> string) \<Rightarrow> bool" where
  "json_prefix_free js \<longleftrightarrow>
     (\<forall>a. \<exists>t. js a = CHR 0x22 # t) \<and> (\<forall>a b r r'. js a @ r = js b @ r' \<longrightarrow> a = b \<and> r = r')"

lemma json_str_inject:
  assumes "json_prefix_free js"
  shows "js a @ r = js b @ r' \<longleftrightarrow> a = b \<and> r = r'"
proof
  assume "js a @ r = js b @ r'"
  with assms show "a = b \<and> r = r'" unfolding json_prefix_free_def by metis
qed simp

lemma json_str_not_null:
  assumes "json_prefix_free js"
  shows "js c @ s \<noteq> ''null'' @ s'"
proof -
  obtain t where "js c = CHR 0x22 # t" using assms unfolding json_prefix_free_def by metis
  then show ?thesis by simp
qed

lemma json_opt_inject:
  assumes "json_prefix_free js"
  shows "json_opt js a @ r = json_opt js b @ r' \<longleftrightarrow> a = b \<and> r = r'"
proof (cases a)
  case None
  then show ?thesis
    using json_str_not_null [OF assms, symmetric] by (cases b) (simp_all add: json_opt_def)
next
  case (Some x)
  then show ?thesis
    using json_str_not_null [OF assms] json_str_inject [OF assms]
    by (cases b) (simp_all add: json_opt_def)
qed

lemma json_opt_inject0: "json_prefix_free js \<Longrightarrow> json_opt js a = json_opt js b \<longleftrightarrow> a = b"
  using json_opt_inject [of js a "[]" b "[]"] by simp

lemma canonical_json_inject:
  assumes "json_prefix_free js" and "canonical_json js a = canonical_json js b"
  shows "action_as_str (ur_action a) = action_as_str (ur_action b)"
    and "id_str (ur_credential a) = id_str (ur_credential b)"
    and "map_option origin_as_str (ur_frame a) = map_option origin_as_str (ur_frame b)"
    and "origin_as_str (ur_top_level a) = origin_as_str (ur_top_level b)"
    and "ur_value_fingerprint a = ur_value_fingerprint b"
  using assms(2) unfolding canonical_json_def
  by (simp_all add: json_str_inject [OF assms(1)] json_opt_inject [OF assms(1)]
      json_opt_inject0 [OF assms(1)])

lemma action_as_str_inject: "action_as_str a = action_as_str b \<longleftrightarrow> a = b"
  by (cases a; cases b) simp_all

text \<open>The audit line of a verdict: about this use, and an Allow exactly for an Allow.\<close>

definition logged_use :: "use_request \<Rightarrow> decision \<Rightarrow> audit_event \<Rightarrow> bool" where
  "logged_use req d ev \<longleftrightarrow>
     ev_kind ev = CredentialUse
     \<and> map_option ref_id (ev_credential ev) = Some (id_str (ur_credential req))
     \<and> ev_action ev = Some (action_as_str (ur_action req))
     \<and> ev_origin ev = Some (origin_as_str (ur_top_level req))
     \<and> (ev_decision ev = ADAllow \<longleftrightarrow> d = Allow)"

lemma policy_log_line:
  assumes "al_writable (pe_audit e)" and "dec = ADAllow \<longleftrightarrow> d = Allow"
  shows "\<exists>ev. al_lines (pe_audit (policy_log env req dec reason e)) = al_lines (pe_audit e) @ [ev]
      \<and> logged_use req d ev"
  using assms by (simp add: policy_log_def audit_log_record_def Let_def stamp_fields audit_event_new_def logged_use_def)

definition logged_verdict :: "policy_env \<Rightarrow> use_request \<Rightarrow> policy_engine \<Rightarrow> decision \<times> policy_engine \<Rightarrow> bool" where
  "logged_verdict env req eng x \<longleftrightarrow>
     (\<exists>d dec reason st. x = (d, policy_log env req dec reason (eng\<lparr>pe_consents := st\<rparr>))
        \<and> (dec = ADAllow \<longleftrightarrow> d = Allow))"

lemma logged_verdictI:
  "(dec = ADAllow \<longleftrightarrow> d = Allow) \<Longrightarrow>
     logged_verdict env req eng (d, policy_log env req dec reason (eng\<lparr>pe_consents := st\<rparr>))"
  unfolding logged_verdict_def by blast

lemma logged_verdictI':
  "(dec = ADAllow \<longleftrightarrow> d = Allow) \<Longrightarrow> logged_verdict env req eng (d, policy_log env req dec reason eng)"
  using logged_verdictI [of dec d env req eng reason "pe_consents eng"] by simp

lemma authorize_logged: "logged_verdict env req eng (authorize_use_at env req now eng)"
  unfolding authorize_use_at_def Let_def
  by (simp split: option.splits prod.splits sum.splits add: logged_verdictI logged_verdictI')

section \<open>Properties\<close>

text \<open>
  C5: What an Allow stands on: no deny rule names the page or the frame, the credential is no
  passkey, and a live, unexpired grant with uses left covers this credential, this origin and
  this action; the grant, and nothing else in the store, is charged exactly one use.
\<close>
theorem allowed_use_is_granted_and_charged:
  assumes "authorize_use_at env req now eng = (Allow, eng')"
  shows "\<not> (\<exists>r \<in> set (pe_deny_rules eng). rule_names r req)
    \<and> \<not> passkey_handle (ur_credential req)
    \<and> (\<exists>i rec. store_map (pe_consents eng) i = Some rec
          \<and> matches_use (ce_parser (pv_consent env)) (SubCredential (ur_credential req))
              (origin_as_str (ur_top_level req)) (action_as_str (ur_action req)) rec
          \<and> active_at rec now
          \<and> store_map (pe_consents eng')
              = (store_map (pe_consents eng))(i \<mapsto> rec\<lparr>cn_uses := (cn_uses rec + 1) mod 2 ^ 64\<rparr>))"
proof -
  from authorize_Allow(3) [OF assms] obtain rec where
    act: "active_for (ce_parser (pv_consent env)) (ur_credential req) (origin_as_str (ur_top_level req))
            (action_as_str (ur_action req)) now (pe_consents eng) = Some rec"
    and con: "consume (cn_id rec) (pe_consents eng) = (Inr (), pe_consents eng')" by blast
  note found = active_Some [OF act [unfolded active_for_def]]
  from consume_Inr [OF con] found(1) have "store_map (pe_consents eng')
      = (store_map (pe_consents eng))(cn_id rec \<mapsto> rec\<lparr>cn_uses := (cn_uses rec + 1) mod 2 ^ 64\<rparr>)" by auto
  with found authorize_Allow(1,2) [OF assms] show ?thesis by (auto simp: deny_hit_None)
qed

definition sample_policy_env :: policy_env where
  "sample_policy_env =
     \<lparr>pv_consent = \<lparr>ce_parser = sample_parser, ce_sha256 = (\<lambda>s. s), ce_rfc3339 = show_uint\<rparr>,
      pv_json_str = (\<lambda>s. [CHR 0x22] @ concat (map (\<lambda>c. [CHR ''x'', c]) s) @ [CHR 0x22]), pv_ts = ''t''\<rparr>"

definition sample_origin :: origin where
  "sample_origin = \<lparr>o_scheme = ''https'', o_host = ''a.com'', o_port = 443\<rparr>"

definition sample_request :: use_request where
  "sample_request = use_request_new (CredentialId ''kch:main/a.com/password/me'') sample_origin ActLogin"

definition sample_engine :: "consent_line list \<Rightarrow> policy_engine" where
  "sample_engine ls = \<lparr>pe_deny_rules = [], pe_consents = sample_store ls, pe_audit = audit_log_open ''a-1'' True\<rparr>"

theorem allowed_use_is_granted_and_charged_witness:
  "\<exists>i rec. store_map (pe_consents (sample_engine [LGrant (sample_grant ''c-1'' 1)])) i = Some rec
     \<and> active_at rec 500"
proof -
  let ?run = "authorize_use_at sample_policy_env sample_request 500 (sample_engine [LGrant (sample_grant ''c-1'' 1)])"
  have "fst ?run = Allow" by code_simp
  then have "?run = (Allow, snd ?run)" by (metis prod.collapse)
  from allowed_use_is_granted_and_charged [OF this] show ?thesis by blast
qed

text \<open>
  C35: A grant is never overspent by a sequence of calls: in every run of authorizations,
  confirmations, revocations and grants of other ids, the allowed uses charged to a grant are at
  most the uses its record had left at the start.
\<close>
theorem grant_budget_respected:
  assumes "budget_ok i (pe_consents eng)" and "\<forall>e \<in> set es. \<not> regrants i e"
  shows "charges env i es eng \<le> remaining_uses i (pe_consents eng)"
  using assms by (rule run_budget)

theorem grant_budget_respected_witness:
  "charges sample_policy_env ''c-1'' [EvAuthorize sample_request 500, EvAuthorize sample_request 501]
     (sample_engine [LGrant (sample_grant ''c-1'' 1)])
   \<le> remaining_uses ''c-1'' (pe_consents (sample_engine [LGrant (sample_grant ''c-1'' 1)]))"
  by (rule grant_budget_respected)
    (simp_all add: budget_ok_def sample_engine_def sample_store_def store_map_def sample_grant_def)

text \<open>
  The lookup and the charge are two calls with nothing between them but the file: two
  authorizations that interleave (both look up before either charges) both find a grant with a
  single use active, both charge it without an error, and the grant ends at two uses of one.
\<close>
theorem interleaved_lookups_overspend:
  "let st = sample_store [LGrant (sample_grant ''c-1'' 1)];
       look = active_for sample_parser (CredentialId ''kch:main/a.com/password/me'') ''https://a.com'' ''login'' 500;
       st1 = snd (consume ''c-1'' st);
       st2 = snd (consume ''c-1'' st1)
   in map_option cn_id (look st) = Some ''c-1''
      \<and> fst (consume ''c-1'' st) = Inr () \<and> fst (consume ''c-1'' st1) = Inr ()
      \<and> map_option cn_uses (store_map st2 ''c-1'') = Some 2
      \<and> map_option cn_max_uses (store_map st2 ''c-1'') = Some 1"
  by code_simp

text \<open>
  An approval is bound to the request it was given for: with a hash without collisions, a
  token verifies only within its sixty seconds, when no deny rule names the request, and for a
  request with the same credential, action, page, frame and value fingerprint.
\<close>
theorem confirmation_binds_request:
  assumes "\<forall>a b. ce_sha256 (pv_consent env) a = ce_sha256 (pv_consent env) b \<longrightarrow> a = b"
    and "json_prefix_free (pv_json_str env)"
    and "verify_confirmation_at env (issue_confirmation env req t) req' now eng = (Allow, eng')"
  shows "now \<le> t + 60 * 1000000000
    \<and> \<not> (\<exists>r \<in> set (pe_deny_rules eng). rule_names r req')
    \<and> ur_credential req' = ur_credential req \<and> ur_action req' = ur_action req
    \<and> origin_as_str (ur_top_level req') = origin_as_str (ur_top_level req)
    \<and> map_option origin_as_str (ur_frame req') = map_option origin_as_str (ur_frame req)
    \<and> ur_value_fingerprint req' = ur_value_fingerprint req"
proof -
  have hash: "request_hash env req' = request_hash env req" and time: "now \<le> t + confirmation_ttl"
    and rules: "deny_hit eng req' = None"
    using assms(3) by (auto simp: verify_confirmation_at_def issue_confirmation_def token_expired_at_def
        split: if_splits option.splits)
  have "canonical_json (pv_json_str env) req' = canonical_json (pv_json_str env) req"
    using assms(1) [rule_format, OF hash [unfolded request_hash_def]] by simp
  from canonical_json_inject [OF assms(2) this] time rules show ?thesis
    by (auto simp: action_as_str_inject deny_hit_None confirmation_ttl_def intro: credential_id.expand)
qed

lemma sample_json_prefix_free: "json_prefix_free (pv_json_str sample_policy_env)"
proof -
  let ?enc = "\<lambda>s. concat (map (\<lambda>c. [CHR ''x'', c]) s) @ [CHR 0x22]"
  have enc: "?enc a @ r = ?enc b @ r' \<Longrightarrow> a = b \<and> r = r'" for a b r r'
  proof (induction a arbitrary: b)
    case Nil
    then show ?case by (cases b) auto
  next
    case (Cons c cs)
    then show ?case by (cases b) auto
  qed
  have js: "pv_json_str sample_policy_env s = CHR 0x22 # ?enc s" for s
    by (simp add: sample_policy_env_def)
  have "a = b \<and> r = r'" if "CHR 0x22 # ?enc a @ r = CHR 0x22 # ?enc b @ r'" for a b r r'
    using that by (intro enc) (simp only: list.inject)
  then show ?thesis unfolding json_prefix_free_def js append_Cons by (metis list.inject)
qed

theorem confirmation_binds_request_witness:
  "fst (verify_confirmation_at sample_policy_env (issue_confirmation sample_policy_env sample_request 100)
     sample_request 200 (sample_engine [])) = Allow
   \<and> (200::int) \<le> 100 + 60 * 1000000000"
proof -
  let ?run = "verify_confirmation_at sample_policy_env (issue_confirmation sample_policy_env sample_request 100)
     sample_request 200 (sample_engine [])"
  have allow: "fst ?run = Allow" by code_simp
  then have "?run = (Allow, snd ?run)" by (metis prod.collapse)
  moreover have "\<forall>a b. ce_sha256 (pv_consent sample_policy_env) a = ce_sha256 (pv_consent sample_policy_env) b \<longrightarrow> a = b"
    by (simp add: sample_policy_env_def)
  ultimately show ?thesis
    using confirmation_binds_request [OF _ sample_json_prefix_free] allow by blast
qed

text \<open>
  Every verdict leaves its line: an authorization appends exactly one event to a writable
  audit log, about this credential, action and origin, and the event says Allow exactly when the
  decision is Allow.
\<close>
theorem every_verdict_logged:
  assumes "al_writable (pe_audit eng)"
  shows "\<exists>ev. al_lines (pe_audit (snd (authorize_use_at env req now eng))) = al_lines (pe_audit eng) @ [ev]
      \<and> logged_use req (fst (authorize_use_at env req now eng)) ev"
proof -
  obtain d dec reason st where run: "authorize_use_at env req now eng
      = (d, policy_log env req dec reason (eng\<lparr>pe_consents := st\<rparr>))" and dec: "dec = ADAllow \<longleftrightarrow> d = Allow"
    using authorize_logged [of env req eng now] unfolding logged_verdict_def by blast
  have "al_writable (pe_audit (eng\<lparr>pe_consents := st\<rparr>))" using assms by simp
  from policy_log_line [OF this dec, of env req reason] show ?thesis unfolding run by simp
qed

theorem every_verdict_logged_witness:
  "\<exists>ev. al_lines (pe_audit (snd (authorize_use_at sample_policy_env sample_request 500 (sample_engine [])))) = [] @ [ev]"
proof -
  have "al_writable (pe_audit (sample_engine []))" and "al_lines (pe_audit (sample_engine [])) = []"
    by (simp_all add: sample_engine_def audit_log_open_def)
  from every_verdict_logged [OF this(1), of sample_policy_env sample_request 500] this(2) show ?thesis
    by auto
qed

end
