(* ===== verification/Broker.thy ===== *)
theory Broker
  imports Policy Totp
begin

text \<open>
  \<open>oxibrowser-credentials/src/agent.rs\<close>: the credential source of the login engine. It
  composes the provider, the exact-origin allowlist, the policy engine and the audit log. The
  provider is a trait object, so it is a record of its three read operations; the interface
  \<open>credential_provider\<close> is what the broker relies on, and the heap-backed provider of
  theory Credential is an interpretation of it.
\<close>

section \<open>The provider interface\<close>

record provider_ops =
  po_metadata :: "credential_id \<Rightarrow> cred_error + credential_meta"
  po_resolve :: "credential_id \<Rightarrow> cred_error + (credential_meta \<times> string)"
  po_list :: "string option \<Rightarrow> cred_error + credential_meta list"

definition mem_ops :: "provider \<Rightarrow> provider_ops" where
  "mem_ops items =
     \<lparr>po_metadata = provider_metadata items, po_resolve = provider_resolve items,
      po_list = (\<lambda>a. Inr (provider_list items a))\<rparr>"

section \<open>The broker\<close>

datatype source_error =
    SrcConsentRequired string
  | SrcOriginMismatch string
  | SrcNotFound string
  | SrcUnavailable string

record resolved_login =
  rl_handle :: string
  rl_username :: "string option"
  rl_password :: string
  rl_fingerprint :: string
  rl_allowed_origins :: "origin list"

fun handle_candidates ::
  "provider_ops \<Rightarrow> string \<Rightarrow> credential_kind \<Rightarrow> string list
    \<Rightarrow> source_error + (credential_id \<times> credential_meta) list" where
  "handle_candidates prov scope kind [] = Inr []"
| "handle_candidates prov scope kind (h # hs) =
     (case po_metadata prov (CredentialId h) of
        Inr meta \<Rightarrow>
          res_bind (handle_candidates prov scope kind hs) (\<lambda>out.
            if cm_kind meta = kind \<and> cm_scope meta = scope then Inr ((CredentialId h, meta) # out) else Inr out)
      | Inl (CredNotFound s) \<Rightarrow> handle_candidates prov scope kind hs
      | Inl e \<Rightarrow> Inl (SrcUnavailable (cred_error_display e)))"

definition candidates ::
  "provider_ops \<Rightarrow> string list \<Rightarrow> string \<Rightarrow> credential_kind
    \<Rightarrow> source_error + (credential_id \<times> credential_meta) list" where
  "candidates prov handles scope kind =
     res_bind (handle_candidates prov scope kind handles) (\<lambda>out.
     if out \<noteq> [] then Inr out
     else res_bind (map_err (\<lambda>e. SrcUnavailable (cred_error_display e)) (po_list prov None)) (\<lambda>metas.
       Inr (map (\<lambda>meta. (CredentialId (id_str (cm_id meta)), meta))
              (filter (\<lambda>meta. cm_kind meta = kind \<and> cm_scope meta = scope) metas))))"

definition allowlisted :: "url_parser \<Rightarrow> credential_meta \<Rightarrow> origin \<Rightarrow> source_error + origin list" where
  "allowlisted up meta orig =
     res_bind
       (collect_results
         (map (\<lambda>stored. map_err (\<lambda>e. SrcOriginMismatch (''credential '' @ id_str (cm_id meta)
                  @ '' has unusable allowed origin '' @ stored @ '': '' @ e)) (origin_parse up stored))
           (cm_allowed_origins meta))) (\<lambda>allowed.
     if evaluate [] allowed orig (Some orig) \<noteq> Allow
     then Inl (SrcOriginMismatch (''credential '' @ id_str (cm_id meta) @ '' is not allowed at '' @ origin_as_str orig))
     else Inr allowed)"

definition authorize ::
  "policy_env \<Rightarrow> use_request \<Rightarrow> int \<Rightarrow> policy_engine \<Rightarrow> (source_error + unit) \<times> policy_engine" where
  "authorize env req now eng =
     (case authorize_use_at env req now eng of
        (Allow, eng') \<Rightarrow> (Inr (), eng')
      | (RequireConfirmation reason, eng') \<Rightarrow> (Inl (SrcConsentRequired reason), eng')
      | (Deny reason, eng') \<Rightarrow> (Inl (SrcConsentRequired reason), eng'))"

definition audit_fill :: "policy_env \<Rightarrow> use_request \<Rightarrow> string \<Rightarrow> policy_engine \<Rightarrow> policy_engine" where
  "audit_fill env req fp eng =
     (let event = (audit_event_new (pv_ts env) CredentialUse ADAllow ''confirmed'')
            \<lparr>ev_origin := Some (origin_as_str (ur_top_level req)),
             ev_action := Some (action_as_str (ur_action req)),
             ev_credential := Some \<lparr>ref_id = id_str (ur_credential req), ref_fingerprint = fp\<rparr>\<rparr>
      in eng\<lparr>pe_audit := snd (audit_log_record event (pe_audit eng))\<rparr>)"

definition framed_request :: "credential_id \<Rightarrow> origin \<Rightarrow> credential_action \<Rightarrow> use_request" where
  "framed_request cid orig action = (use_request_new cid orig action)\<lparr>ur_frame := Some orig\<rparr>"

definition login_source_error :: "cred_error \<Rightarrow> source_error" where
  "login_source_error e =
     (case e of CredNotFound s \<Rightarrow> SrcNotFound (cred_error_display e)
      | _ \<Rightarrow> SrcUnavailable (cred_error_display e))"

definition resolve_login ::
  "policy_env \<Rightarrow> provider_ops \<Rightarrow> string list \<Rightarrow> string \<Rightarrow> origin \<Rightarrow> int \<Rightarrow> policy_engine
    \<Rightarrow> (source_error + resolved_login) \<times> policy_engine" where
  "resolve_login env prov handles scope orig now eng =
     (case candidates prov handles scope KPassword of
        Inl e \<Rightarrow> (Inl e, eng)
      | Inr [] \<Rightarrow> (Inl (SrcNotFound (''no password credential for scope '' @ scope)), eng)
      | Inr ((cid, meta) # rest) \<Rightarrow>
          (case allowlisted (ce_parser (pv_consent env)) meta orig of
             Inl e \<Rightarrow> (Inl e, eng)
           | Inr allowed \<Rightarrow>
               (let req = framed_request cid orig ActLogin
                in case authorize env req now eng of
                     (Inl e, eng') \<Rightarrow> (Inl e, eng')
                   | (Inr _, eng') \<Rightarrow>
                       (case po_resolve prov cid of
                          Inl e \<Rightarrow> (Inl (login_source_error e), eng')
                        | Inr (meta', secret) \<Rightarrow>
                            (case expose_str secret of
                               Inl e \<Rightarrow> (Inl (SrcUnavailable (cred_error_display e)), eng')
                             | Inr v \<Rightarrow>
                                 (let fp = secret_fingerprint (ce_sha256 (pv_consent env)) secret
                                  in (Inr \<lparr>rl_handle = id_str cid, rl_username = cm_login_hint meta',
                                           rl_password = v, rl_fingerprint = fp,
                                           rl_allowed_origins = allowed\<rparr>,
                                      audit_fill env req fp eng')))))))"

text \<open>The time-based code: the generator library and the clock are arguments.\<close>

definition totp_code :: "totp_lib \<Rightarrow> string + int \<Rightarrow> string \<Rightarrow> (source_error + string) run" where
  "totp_code lib clock uri =
     (case from_otpauth lib uri of
        Inl e \<Rightarrow> Ret (Inl (SrcUnavailable (cred_error_display e)))
      | Inr g \<Rightarrow> run_bind (totp_current g clock) (\<lambda>r.
          Ret (case r of Inl e \<Rightarrow> Inl (SrcUnavailable (cred_error_display e))
                       | Inr (code, validity) \<Rightarrow> Inr code)))"

definition resolve_totp ::
  "policy_env \<Rightarrow> totp_lib \<Rightarrow> string + int \<Rightarrow> provider_ops \<Rightarrow> string list \<Rightarrow> string \<Rightarrow> origin \<Rightarrow> int
    \<Rightarrow> policy_engine \<Rightarrow> ((source_error + string) \<times> policy_engine) run" where
  "resolve_totp env lib clock prov handles scope orig now eng =
     (case candidates prov handles scope KTotp of
        Inl e \<Rightarrow> Ret (Inl e, eng)
      | Inr [] \<Rightarrow> Ret (Inl (SrcNotFound (''no totp credential for scope '' @ scope)), eng)
      | Inr ((cid, meta) # rest) \<Rightarrow>
          if \<not> cm_has_totp meta
          then Ret (Inl (SrcNotFound (''totp credential '' @ id_str cid @ '' carries no otpauth value'')), eng)
          else
          (case allowlisted (ce_parser (pv_consent env)) meta orig of
             Inl e \<Rightarrow> Ret (Inl e, eng)
           | Inr allowed \<Rightarrow>
               (let req = framed_request cid orig ActMfa
                in case authorize env req now eng of
                     (Inl e, eng') \<Rightarrow> Ret (Inl e, eng')
                   | (Inr _, eng') \<Rightarrow>
                       (case po_resolve prov cid of
                          Inl e \<Rightarrow> Ret (Inl (SrcUnavailable (cred_error_display e)), eng')
                        | Inr (meta', secret) \<Rightarrow>
                            (case expose_str secret of
                               Inl e \<Rightarrow> Ret (Inl (SrcUnavailable (cred_error_display e)), eng')
                             | Inr uri \<Rightarrow>
                                 run_bind (totp_code lib clock uri) (\<lambda>r.
                                   case r of
                                     Inl e \<Rightarrow> Ret (Inl e, eng')
                                   | Inr code \<Rightarrow>
                                       Ret (Inr code,
                                         audit_fill env req
                                           (secret_fingerprint (ce_sha256 (pv_consent env)) code) eng')))))))"

fun add_hints :: "string list \<Rightarrow> string list \<Rightarrow> string list" where
  "add_hints hints [] = hints"
| "add_hints hints (o' # os) = add_hints (if o' \<in> set hints then hints else hints @ [o']) os"

definition origin_hints :: "provider_ops \<Rightarrow> string list \<Rightarrow> string \<Rightarrow> string list" where
  "origin_hints prov handles scope =
     (case po_list prov None of
        Inl _ \<Rightarrow> []
      | Inr metas \<Rightarrow>
          fold (\<lambda>meta hints. add_hints hints (cm_allowed_origins meta))
            (filter (\<lambda>m. cm_kind m \<in> {KPassword, KApiKey}) (filter (\<lambda>m. cm_scope m = scope) metas)) [])"

section \<open>The broker over any provider\<close>

text \<open>
  What the broker relies on: resolving returns the metadata that the provider reports, and what
  is listed is reported under its own handle.
\<close>

locale credential_provider =
  fixes prov :: provider_ops
  assumes resolve_reports: "po_resolve prov cid = Inr (m, v) \<Longrightarrow> po_metadata prov cid = Inr m"
    and list_reports: "po_list prov a = Inr ms \<Longrightarrow> m \<in> set ms \<Longrightarrow> po_metadata prov (cm_id m) = Inr m"
begin

lemma handle_candidate_reported:
  "handle_candidates prov scope kind hs = Inr out \<Longrightarrow> (cid, m) \<in> set out \<Longrightarrow>
    po_metadata prov cid = Inr m \<and> cm_kind m = kind \<and> cm_scope m = scope"
proof (induction hs arbitrary: out)
  case (Cons h hs)
  show ?case
  proof (cases "po_metadata prov (CredentialId h)")
    case (Inl e)
    with Cons show ?thesis by (cases e) simp_all
  next
    case (Inr meta)
    with Cons.prems obtain out' where rest: "handle_candidates prov scope kind hs = Inr out'"
      and out: "out = (if cm_kind meta = kind \<and> cm_scope meta = scope then (CredentialId h, meta) # out' else out')"
      by (cases "handle_candidates prov scope kind hs") (simp_all split: if_splits)
    from Cons.prems(2) consider "(cid, m) \<in> set out'"
      | "cid = CredentialId h" "m = meta" "cm_kind meta = kind" "cm_scope meta = scope"
      unfolding out by (auto split: if_splits)
    then show ?thesis
    proof cases
      case 1
      then show ?thesis by (rule Cons.IH [OF rest])
    next
      case 2
      with Inr show ?thesis by simp
    qed
  qed
qed simp

lemma candidate_reported:
  assumes "candidates prov hs scope kind = Inr out" and "(cid, m) \<in> set out"
  shows "po_metadata prov cid = Inr m \<and> cm_kind m = kind \<and> cm_scope m = scope"
proof -
  obtain hout where h: "handle_candidates prov scope kind hs = Inr hout"
    using assms(1) by (cases "handle_candidates prov scope kind hs") (simp_all add: candidates_def)
  show ?thesis
  proof (cases "hout = []")
    case False
    with assms h have "(cid, m) \<in> set hout" by (simp add: candidates_def)
    then show ?thesis by (rule handle_candidate_reported [OF h])
  next
    case True
    obtain metas where l: "po_list prov None = Inr metas"
      using assms(1) h True by (cases "po_list prov None") (simp_all add: candidates_def)
    with assms h True have "m \<in> set metas" "cid = cm_id m" "cm_kind m = kind" "cm_scope m = scope"
      by (auto simp: candidates_def)
    with list_reports [OF l] show ?thesis by simp
  qed
qed

end

lemma mem_provider_ok: "provider_ok up (fold (provider_step up) es [])"
  by (rule provider_machine.run_inv) (simp add: provider_ok_def)

lemma provider_step_distinct: "dict_ok items \<Longrightarrow> dict_ok (provider_step up e items)"
  by (cases e) (auto simp: provider_put_def provider_delete_def Let_def
      intro: dict_ok_insert dict_ok_remove split: sum.splits option.splits)

lemma mem_provider_distinct: "dict_ok (fold (provider_step up) es [])"
proof -
  have "dict_ok d \<Longrightarrow> dict_ok (fold (provider_step up) es d)" for d
    by (induction es arbitrary: d) (simp_all add: provider_step_distinct)
  then show ?thesis by simp
qed

interpretation mem_provider: credential_provider "mem_ops (fold (provider_step up) es [])" for up es
proof
  fix cid m v a ms
  let ?items = "fold (provider_step up) es []"
  show "po_resolve (mem_ops ?items) cid = Inr (m, v) \<Longrightarrow> po_metadata (mem_ops ?items) cid = Inr m"
    by (auto simp: mem_ops_def provider_resolve_def provider_metadata_def result_iff split: option.splits)
  assume "po_list (mem_ops ?items) a = Inr ms" and m: "m \<in> set ms"
  then have ms: "ms = provider_list ?items a" by (simp add: mem_ops_def)
  from m obtain k r where kr: "(k, r) \<in> set ?items" and mr: "m = cr_meta r"
    unfolding ms provider_list_def by auto
  then have get: "dict_get ?items k = Some r" using mem_provider_distinct by (simp add: map_of_is_SomeI)
  then have "record_ok up k r" using mem_provider_ok [of up es] by (simp add: provider_ok_def)
  with get mr show "po_metadata (mem_ops ?items) (cm_id m) = Inr m"
    by (simp add: mem_ops_def provider_metadata_def record_ok_def)
qed

section \<open>Lemmas\<close>

lemma allowlisted_Inr:
  assumes "allowlisted up meta orig = Inr allowed"
  shows "map (origin_parse up) (cm_allowed_origins meta) = map Inr allowed" and "orig \<in> set allowed"
proof -
  have parsed: "map (\<lambda>stored. map_err (\<lambda>e. SrcOriginMismatch (''credential '' @ id_str (cm_id meta)
                  @ '' has unusable allowed origin '' @ stored @ '': '' @ e)) (origin_parse up stored))
           (cm_allowed_origins meta) = map Inr allowed"
    and ev: "evaluate [] allowed orig (Some orig) = Allow"
    using assms by (auto simp: allowlisted_def result_iff split: if_splits)
  from ev show "orig \<in> set allowed" by (auto simp: evaluate_Allow_iff)
  show "map (origin_parse up) (cm_allowed_origins meta) = map Inr allowed"
  proof (rule nth_equalityI)
    show len: "length (map (origin_parse up) (cm_allowed_origins meta)) = length (map Inr allowed)"
      using arg_cong [OF parsed, of length] by simp
    fix i assume i: "i < length (map (origin_parse up) (cm_allowed_origins meta))"
    from arg_cong [OF parsed, of "\<lambda>l. l ! i"] i len
    show "map (origin_parse up) (cm_allowed_origins meta) ! i = map Inr allowed ! i"
      by (simp add: map_err_Inr)
  qed
qed

lemma authorize_Inr:
  "authorize env req now eng = (Inr u, eng') \<longleftrightarrow> authorize_use_at env req now eng = (Allow, eng')"
  by (auto simp: authorize_def split: prod.splits decision.splits)

lemma audit_fill_simps [simp]:
  "pe_deny_rules (audit_fill env req fp eng) = pe_deny_rules eng"
  "pe_consents (audit_fill env req fp eng) = pe_consents eng"
  by (simp_all add: audit_fill_def Let_def)

lemma resolve_login_Inr:
  assumes "resolve_login env prov handles scope orig now eng = (Inr res, eng')"
  obtains cid meta rest allowed eng1 meta' where
    "candidates prov handles scope KPassword = Inr ((cid, meta) # rest)"
    "allowlisted (ce_parser (pv_consent env)) meta orig = Inr allowed"
    "authorize_use_at env (framed_request cid orig ActLogin) now eng = (Allow, eng1)"
    "po_resolve prov cid = Inr (meta', rl_password res)"
    "pe_consents eng' = pe_consents eng1" "rl_handle res = id_str cid" "rl_allowed_origins res = allowed"
proof -
  obtain cid meta rest where cand: "candidates prov handles scope KPassword = Inr ((cid, meta) # rest)"
    using assms by (auto simp: resolve_login_def split: sum.splits list.splits prod.splits)
  obtain allowed where al: "allowlisted (ce_parser (pv_consent env)) meta orig = Inr allowed"
    using assms cand by (auto simp: resolve_login_def split: sum.splits)
  obtain eng1 where au: "authorize env (framed_request cid orig ActLogin) now eng = (Inr (), eng1)"
    using assms cand al by (auto simp: resolve_login_def Let_def split: sum.splits prod.splits)
  obtain meta' secret where re: "po_resolve prov cid = Inr (meta', secret)"
    using assms cand al au by (auto simp: resolve_login_def Let_def split: sum.splits prod.splits)
  have val: "expose_str secret = Inr secret"
    using assms cand al au re by (auto simp: resolve_login_def Let_def expose_str_def split: if_splits)
  have "rl_password res = secret" "pe_consents eng' = pe_consents eng1"
    "rl_handle res = id_str cid" "rl_allowed_origins res = allowed"
    using assms cand al au re val by (auto simp: resolve_login_def Let_def)
  with that cand al au re show thesis by (simp add: authorize_Inr)
qed

text \<open>What a provider reports for a login: the metadata of one of the account's handles, or an entry of its
  listing.\<close>

definition reported :: "provider_ops \<Rightarrow> string list \<Rightarrow> string \<Rightarrow> credential_meta \<Rightarrow> bool" where
  "reported prov handles h meta \<longleftrightarrow>
     (h \<in> set handles \<and> po_metadata prov (CredentialId h) = Inr meta)
     \<or> (\<exists>metas. po_list prov None = Inr metas \<and> meta \<in> set metas \<and> id_str (cm_id meta) = h)"

lemma handle_candidates_reported:
  "handle_candidates prov scope kind hs = Inr out \<Longrightarrow> (cid, meta) \<in> set out \<Longrightarrow>
     id_str cid \<in> set hs \<and> po_metadata prov cid = Inr meta \<and> cm_kind meta = kind \<and> cm_scope meta = scope"
proof (induction hs arbitrary: out)
  case (Cons h hs)
  show ?case
  proof (cases "po_metadata prov (CredentialId h)")
    case (Inl e)
    with Cons show ?thesis by (cases e) auto
  next
    case (Inr m)
    with Cons.prems(1) obtain rest where rest: "handle_candidates prov scope kind hs = Inr rest"
      "out = (if cm_kind m = kind \<and> cm_scope m = scope then (CredentialId h, m) # rest else rest)"
      by (cases "handle_candidates prov scope kind hs") (auto split: if_split_asm)
    with Cons.IH [OF rest(1)] Cons.prems(2) Inr show ?thesis by (auto split: if_split_asm)
  qed
qed simp

lemma candidates_reported:
  assumes "candidates prov handles scope kind = Inr out" and "(cid, meta) \<in> set out"
  shows "reported prov handles (id_str cid) meta \<and> cm_kind meta = kind \<and> cm_scope meta = scope"
proof -
  have id: "CredentialId (id_str c) = c" for c by (cases c) simp
  obtain hs where hs: "handle_candidates prov scope kind handles = Inr hs"
    using assms(1) by (auto simp: candidates_def res_bind_def split: sum.split_asm)
  show ?thesis
  proof (cases "hs = []")
    case True
    with assms hs show ?thesis
      by (auto simp: candidates_def res_bind_def reported_def map_err_def split: sum.split_asm)
  next
    case False
    with assms hs handle_candidates_reported [OF hs, of cid meta] show ?thesis
      by (auto simp: candidates_def res_bind_def reported_def id)
  qed
qed

lemma released_login:
  assumes "resolve_login env prov handles scope orig now eng = (Inr (res :: resolved_login), eng')"
  obtains m m' i rec where
    "reported prov handles (rl_handle res) m" "cm_kind m = KPassword" "cm_scope m = scope"
    "Inr orig \<in> set (map (origin_parse (ce_parser (pv_consent env))) (cm_allowed_origins m))"
    "po_resolve prov (CredentialId (rl_handle res)) = Inr (m', rl_password res)"
    "\<not> (\<exists>r \<in> set (pe_deny_rules eng). r_mode r = RuleDeny \<and> r_origin r = orig)"
    "store_map (pe_consents eng) i = Some rec"
    "matches_use (ce_parser (pv_consent env)) (SubCredential (CredentialId (rl_handle res))) (origin_as_str orig) ''login'' rec"
    "active_at rec now"
    "store_map (pe_consents eng') = (store_map (pe_consents eng))(i \<mapsto> rec\<lparr>cn_uses := (cn_uses rec + 1) mod 2 ^ 64\<rparr>)"
proof -
  from resolve_login_Inr [OF assms] obtain cid meta rest allowed eng1 meta' where parts:
    "candidates prov handles scope KPassword = Inr ((cid, meta) # rest)"
    "allowlisted (ce_parser (pv_consent env)) meta orig = Inr allowed"
    "authorize_use_at env (framed_request cid orig ActLogin) now eng = (Allow, eng1)"
    "po_resolve prov cid = Inr (meta', rl_password res)"
    "pe_consents eng' = pe_consents eng1" "rl_handle res = id_str cid" .
  have cid: "CredentialId (rl_handle res) = cid" using parts(6) by simp
  have meta: "reported prov handles (rl_handle res) meta" "cm_kind meta = KPassword" "cm_scope meta = scope"
    using candidates_reported [OF parts(1), of cid meta] parts(6) by simp_all
  have origin: "Inr orig \<in> set (map (origin_parse (ce_parser (pv_consent env))) (cm_allowed_origins meta))"
    unfolding allowlisted_Inr(1) [OF parts(2)] using allowlisted_Inr(2) [OF parts(2)] by simp
  have deny: "\<not> (\<exists>r \<in> set (pe_deny_rules eng). r_mode r = RuleDeny \<and> r_origin r = orig)"
    using authorize_Allow(1) [OF parts(3)]
    by (auto simp: deny_hit_None rule_names_def framed_request_def use_request_new_def)
  from authorize_Allow(3) [OF parts(3)] obtain rec where
    act: "active_for (ce_parser (pv_consent env)) cid (origin_as_str orig) ''login'' now (pe_consents eng) = Some rec"
    and con: "consume (cn_id rec) (pe_consents eng) = (Inr (), pe_consents eng1)"
    by (auto simp: framed_request_def use_request_new_def)
  note found = active_Some [OF act [unfolded active_for_def]]
  from consume_Inr [OF con] found(1) have charged: "store_map (pe_consents eng')
      = (store_map (pe_consents eng))(cn_id rec \<mapsto> rec\<lparr>cn_uses := (cn_uses rec + 1) mod 2 ^ 64\<rparr>)"
    using parts(5) by auto
  show thesis using that [OF meta origin _ deny found(1) _ _ charged] parts(4) found cid by auto
qed

section \<open>Properties\<close>

text \<open>
  No password leaves the broker without all its gates: when a login is resolved against the
  heap-backed provider, the value is that of a stored password credential of the requested scope
  whose allowlist, parsed, contains the origin of the form; no deny rule names that origin; and a
  live grant for exactly this credential, origin and the login action was charged one use.
\<close>
theorem resolved_login_passed_all_gates:
  assumes "resolve_login env (mem_ops (fold (provider_step up) es [])) handles scope orig now eng = (Inr res, eng')"
  shows "(\<exists>m m'. provider_metadata (fold (provider_step up) es []) (CredentialId (rl_handle res)) = Inr m
      \<and> provider_resolve (fold (provider_step up) es []) (CredentialId (rl_handle res)) = Inr (m', rl_password res)
      \<and> cm_kind m = KPassword \<and> cm_scope m = scope
      \<and> Inr orig \<in> set (map (origin_parse (ce_parser (pv_consent env))) (cm_allowed_origins m)))
    \<and> \<not> (\<exists>r \<in> set (pe_deny_rules eng). r_mode r = RuleDeny \<and> r_origin r = orig)
    \<and> (\<exists>i rec. store_map (pe_consents eng) i = Some rec
        \<and> matches_use (ce_parser (pv_consent env)) (SubCredential (CredentialId (rl_handle res)))
            (origin_as_str orig) ''login'' rec
        \<and> active_at rec now
        \<and> store_map (pe_consents eng')
            = (store_map (pe_consents eng))(i \<mapsto> rec\<lparr>cn_uses := (cn_uses rec + 1) mod 2 ^ 64\<rparr>))"
proof -
  from resolve_login_Inr [OF assms] obtain cid meta rest allowed eng1 meta' where parts:
    "candidates (mem_ops (fold (provider_step up) es [])) handles scope KPassword = Inr ((cid, meta) # rest)"
    "allowlisted (ce_parser (pv_consent env)) meta orig = Inr allowed"
    "authorize_use_at env (framed_request cid orig ActLogin) now eng = (Allow, eng1)"
    "po_resolve (mem_ops (fold (provider_step up) es [])) cid = Inr (meta', rl_password res)"
    "pe_consents eng' = pe_consents eng1" "rl_handle res = id_str cid" .
  have meta: "provider_metadata (fold (provider_step up) es []) cid = Inr meta" "cm_kind meta = KPassword"
    "cm_scope meta = scope"
    using mem_provider.candidate_reported [OF parts(1)] by (auto simp: mem_ops_def)
  have "Inr orig \<in> set (map (origin_parse (ce_parser (pv_consent env))) (cm_allowed_origins meta))"
    unfolding allowlisted_Inr(1) [OF parts(2)] using allowlisted_Inr(2) [OF parts(2)] by simp
  moreover have "\<not> (\<exists>r \<in> set (pe_deny_rules eng). r_mode r = RuleDeny \<and> r_origin r = orig)"
    using authorize_Allow(1) [OF parts(3)]
    by (auto simp: deny_hit_None rule_names_def framed_request_def use_request_new_def)
  moreover from authorize_Allow(3) [OF parts(3)] obtain rec where
    act: "active_for (ce_parser (pv_consent env)) cid (origin_as_str orig) ''login'' now (pe_consents eng) = Some rec"
    and con: "consume (cn_id rec) (pe_consents eng) = (Inr (), pe_consents eng1)"
    by (auto simp: framed_request_def use_request_new_def)
  moreover note found = active_Some [OF act [unfolded active_for_def]]
  moreover from consume_Inr [OF con] found(1) have "store_map (pe_consents eng')
      = (store_map (pe_consents eng))(cn_id rec \<mapsto> rec\<lparr>cn_uses := (cn_uses rec + 1) mod 2 ^ 64\<rparr>)"
    using parts(5) by auto
  moreover have "CredentialId (rl_handle res) = cid" using parts(6) by simp
  moreover have "provider_resolve (fold (provider_step up) es []) cid = Inr (meta', rl_password res)"
    using parts(4) by (simp add: mem_ops_def)
  ultimately show ?thesis using meta by auto
qed

definition sample_login :: "policy_engine \<Rightarrow> origin \<Rightarrow> (source_error + resolved_login) \<times> policy_engine" where
  "sample_login eng orig =
     resolve_login sample_policy_env (mem_ops (fold (provider_step sample_parser) [PutCred ''t'' sample_credential] []))
       [''kch:main/a.com/password/me''] ''a.com'' orig 500 eng"

theorem resolved_login_passed_all_gates_witness:
  "fst (sample_login (sample_engine [LGrant (sample_grant ''c-1'' 1)]) sample_origin)
     = Inr \<lparr>rl_handle = ''kch:main/a.com/password/me'', rl_username = None, rl_password = ''pw'',
            rl_fingerprint = ''sha256:7077'', rl_allowed_origins = [sample_origin]\<rparr>
   \<and> (\<exists>i rec. store_map (pe_consents (sample_engine [LGrant (sample_grant ''c-1'' 1)])) i = Some rec \<and> active_at rec 500)"
proof -
  let ?res = "\<lparr>rl_handle = ''kch:main/a.com/password/me'', rl_username = None, rl_password = ''pw'',
            rl_fingerprint = ''sha256:7077'', rl_allowed_origins = [sample_origin]\<rparr>"
  let ?eng = "sample_engine [LGrant (sample_grant ''c-1'' 1)]"
  have fst: "fst (sample_login ?eng sample_origin) = Inr ?res" by code_simp
  then have "sample_login ?eng sample_origin = (Inr ?res, snd (sample_login ?eng sample_origin))"
    by (metis prod.collapse)
  from resolved_login_passed_all_gates [OF this [unfolded sample_login_def]] fst show ?thesis by blast
qed

text \<open>
  A page that the credential's allowlist does not contain costs nothing: when the broker
  answers with an origin mismatch, no use was charged and nothing was written, to the consent
  file or to the audit log.
\<close>
theorem origin_mismatch_charges_nothing:
  assumes "resolve_login env prov handles scope orig now eng = (Inl (SrcOriginMismatch reason), eng')"
  shows "eng' = eng"
proof -
  have no: "fst (authorize env req now eng) \<noteq> Inl (SrcOriginMismatch reason)" for req
    by (auto simp: authorize_def split: prod.splits decision.splits)
  have no': "login_source_error e \<noteq> SrcOriginMismatch reason" for e
    by (cases e) (simp_all add: login_source_error_def)
  show ?thesis
  proof (cases "candidates prov handles scope KPassword")
    case (Inl e)
    with assms show ?thesis by (simp add: resolve_login_def)
  next
    case (Inr out)
    show ?thesis
    proof (cases out)
      case (Cons cm rest)
      obtain cid meta where cm: "cm = (cid, meta)" by (cases cm) blast
      note def = resolve_login_def [of env prov handles scope orig now eng, unfolded Inr Cons cm, simplified]
      show ?thesis
      proof (cases "allowlisted (ce_parser (pv_consent env)) meta orig")
        case (Inl e)
        with assms show ?thesis by (simp add: def)
      next
        case (Inr allowed)
        with assms no [of "framed_request cid orig ActLogin"] no' show ?thesis
          unfolding def by (auto simp: Let_def split: prod.splits sum.splits)
      qed
    qed (use assms Inr in \<open>simp add: resolve_login_def\<close>)
  qed
qed

theorem origin_mismatch_charges_nothing_witness:
  "let other = \<lparr>o_scheme = ''https'', o_host = ''evil.com'', o_port = 443\<rparr>;
       eng = sample_engine [LGrant (sample_grant ''c-1'' 1)]
   in snd (sample_login eng other) = eng"
proof -
  let ?other = "\<lparr>o_scheme = ''https'', o_host = ''evil.com'', o_port = 443\<rparr>"
  let ?eng = "sample_engine [LGrant (sample_grant ''c-1'' 1)]"
  have "fst (sample_login ?eng ?other)
      = Inl (SrcOriginMismatch (''credential kch:main/a.com/password/me is not allowed at https://evil.com''))"
    by code_simp
  then have "sample_login ?eng ?other = (Inl (SrcOriginMismatch
      (''credential kch:main/a.com/password/me is not allowed at https://evil.com'')), snd (sample_login ?eng ?other))"
    by (metis prod.collapse)
  from origin_mismatch_charges_nothing [OF this [unfolded sample_login_def]] show ?thesis
    by (simp add: sample_login_def Let_def)
qed

end
