(* ===== verification/CoreError.thy ===== *)
theory CoreError
  imports Prelude
begin

text \<open>
  \<open>oxibrowser-core/src/error.rs\<close>: the error type of the core and its messages, and the synthetic
  responses of \<open>network/intercept.rs\<close> that travel in it.
\<close>

record intercepted_response =
  ir_status_code :: int
  ir_status_text :: string
  ir_headers :: "(string \<times> string) list"
  ir_body :: string

datatype core_error =
    NavigationFailed string
  | NetworkError string
  | DnsError string
  | ConnectionTimeout string
  | HttpError int string
  | JsError string
  | JsTimeout int
  | JsRuntimeLimit string
  | NativeAction string bool
  | PageNotLoaded
  | PageError string
  | SessionError string
  | SessionClosed
  | BrowserClosed
  | InvalidUrl string
  | TimeoutError string
  | DomError string
  | InterceptedResponse intercepted_response
  | ScreenshotError string
  | PdfError string
  | SessionStoreAead string
  | SessionStoreFormat string
  | SessionFingerprintMismatch string
  | SessionStoreIo string
  | AccountLocked string

fun core_error_display :: "core_error \<Rightarrow> string" where
  "core_error_display (NavigationFailed m) = ''navigation failed: '' @ m"
| "core_error_display (NetworkError m) = ''network error: '' @ m"
| "core_error_display (DnsError m) = ''DNS resolution failed: '' @ m"
| "core_error_display (ConnectionTimeout m) = ''connection timeout: '' @ m"
| "core_error_display (HttpError status m) = ''HTTP '' @ show_uint status @ '': '' @ m"
| "core_error_display (JsError m) = ''JavaScript evaluation error: '' @ m"
| "core_error_display (JsTimeout ms) = ''JS execution timed out after '' @ show_uint ms @ ''ms''"
| "core_error_display (JsRuntimeLimit m) = ''JS runtime limit exceeded: '' @ m"
| "core_error_display (NativeAction m acted) = m"
| "core_error_display PageNotLoaded = ''page not loaded''"
| "core_error_display (PageError m) = ''page error: '' @ m"
| "core_error_display (SessionError m) = ''session error: '' @ m"
| "core_error_display SessionClosed = ''session closed''"
| "core_error_display BrowserClosed = ''browser closed''"
| "core_error_display (InvalidUrl m) = ''invalid URL: '' @ m"
| "core_error_display (TimeoutError m) = ''timeout: '' @ m"
| "core_error_display (DomError m) = ''DOM error: '' @ m"
| "core_error_display (InterceptedResponse r) = ''intercepted response''"
| "core_error_display (ScreenshotError m) = ''screenshot error: '' @ m"
| "core_error_display (PdfError m) = ''PDF render error: '' @ m"
| "core_error_display (SessionStoreAead m) = ''session store encryption error: '' @ m"
| "core_error_display (SessionStoreFormat m) = ''session store file format error: '' @ m"
| "core_error_display (SessionFingerprintMismatch m) = ''session fingerprint mismatch: '' @ m"
| "core_error_display (SessionStoreIo m) = ''session store io error: '' @ m"
| "core_error_display (AccountLocked m) = ''account is locked by another process: '' @ m"

end
