(* ===== verification/SessionFile.thy ===== *)
theory SessionFile
  imports Cookie CoreError
begin

text \<open>
  \<open>oxibrowser-core/src/storage/session_store.rs\<close> and the data of \<open>storage_state.rs\<close>: sealed
  session envelopes, one file per scope. The AEAD cipher, the JSON encoding, the random nonce and
  the clock are arguments (record \<open>seal_env\<close>); the file system is a dictionary from scopes to
  file contents with a flag for whether it can be written (an atomic replacement either happens
  or leaves the old file).
\<close>

section \<open>Envelopes\<close>

record client_hints =
  ch_platform :: "string option"

record fingerprint_meta =
  fp_user_agent :: string
  fp_client_hints :: client_hints
  fp_locale :: string
  fp_timezone :: string

datatype egress_meta = EgressFixed "string option" | EgressUnspecified

record idb_database =
  db_name :: string
  db_version :: int
  db_stores :: "(string, (string, string) dict) dict"
  db_key_paths :: "(string, string option) dict"

record origin_state =
  os_origin :: string
  os_local_storage :: "(string \<times> string) list"
  os_indexed_db :: "idb_database list option"

record storage_state =
  ss_cookies :: "cookie_entry list"
  ss_origins :: "origin_state list"

record session_envelope =
  se_version :: int
  se_created_at :: string
  se_updated_at :: string
  se_scope :: string
  se_fingerprint :: fingerprint_meta
  se_egress :: egress_meta
  se_state :: storage_state

definition fingerprint_default :: fingerprint_meta where
  "fingerprint_default = \<lparr>fp_user_agent = [], fp_client_hints = \<lparr>ch_platform = None\<rparr>, fp_locale = [], fp_timezone = []\<rparr>"

definition envelope_new ::
  "string \<Rightarrow> string \<Rightarrow> fingerprint_meta \<Rightarrow> egress_meta \<Rightarrow> storage_state \<Rightarrow> session_envelope" where
  "envelope_new now scope fp egress st =
     \<lparr>se_version = 1, se_created_at = now, se_updated_at = now, se_scope = scope, se_fingerprint = fp,
      se_egress = egress, se_state = st\<rparr>"

definition envelope_touch :: "string \<Rightarrow> session_envelope \<Rightarrow> session_envelope" where
  "envelope_touch now env = env\<lparr>se_updated_at := now\<rparr>"

section \<open>The store\<close>

record seal_env =
  sv_encrypt :: "string \<Rightarrow> string \<Rightarrow> string \<Rightarrow> string \<Rightarrow> string option" \<comment> \<open>key, nonce, message, associated data\<close>
  sv_decrypt :: "string \<Rightarrow> string \<Rightarrow> string \<Rightarrow> string \<Rightarrow> string option"
  sv_to_json :: "session_envelope \<Rightarrow> string"
  sv_from_json :: "string \<Rightarrow> string + session_envelope"

type_synonym key_provider = "string \<Rightarrow> core_error + string"

record session_files =
  sf_files :: "(string, string) dict"
  sf_writable :: bool

definition session_file_magic :: string where
  "session_file_magic = ''OXSESS1'' @ [CHR 0x0A]"

definition nonce_len :: nat where
  "nonce_len = 24"

definition from_le_bytes4 :: "string \<Rightarrow> int" where
  "from_le_bytes4 s = foldr (\<lambda>c acc. byte c + 256 * acc) s 0"

definition debug_char :: "char \<Rightarrow> string" where
  "debug_char c =
     (if c = CHR 0x22 then [CHR 0x5C, CHR 0x22]
      else if c = CHR 0x5C then [CHR 0x5C, CHR 0x5C]
      else if c = CHR 0x0A then [CHR 0x5C, CHR ''n'']
      else if c = CHR 0x0D then [CHR 0x5C, CHR ''r'']
      else if c = CHR 0x09 then [CHR 0x5C, CHR ''t'']
      else [c])"

definition debug_str :: "string \<Rightarrow> string" where
  "debug_str s = [CHR 0x22] @ concat (map debug_char s) @ [CHR 0x22]"

definition debug_opt :: "string option \<Rightarrow> string" where
  "debug_opt v = (case v of Some s \<Rightarrow> ''Some('' @ debug_str s @ '')'' | None \<Rightarrow> ''None'')"

definition validate_file_scope :: "string \<Rightarrow> core_error + string" where
  "validate_file_scope scope =
     (if scope = [] \<or> length scope > 255 \<or> scope = ''.'' \<or> scope = ''..''
         \<or> CHR ''/'' \<in> set scope \<or> CHR 0x5C \<in> set scope \<or> CHR 0x00 \<in> set scope
      then Inl (SessionStoreFormat (''invalid session scope '' @ debug_str scope))
      else Inr scope)"

definition fingerprint_diff :: "fingerprint_meta \<Rightarrow> fingerprint_meta \<Rightarrow> string option" where
  "fingerprint_diff expected stored =
     (let diffs =
        (if fp_user_agent expected \<noteq> fp_user_agent stored
         then [''user_agent (stored '' @ debug_str (fp_user_agent stored) @ '', current ''
                @ debug_str (fp_user_agent expected) @ '')''] else [])
        @ (if ch_platform (fp_client_hints expected) \<noteq> ch_platform (fp_client_hints stored)
         then [''client_hints.platform (stored '' @ debug_opt (ch_platform (fp_client_hints stored)) @ '', current ''
                @ debug_opt (ch_platform (fp_client_hints expected)) @ '')''] else [])
        @ (if fp_locale expected \<noteq> fp_locale stored
         then [''locale (stored '' @ debug_str (fp_locale stored) @ '', current ''
                @ debug_str (fp_locale expected) @ '')''] else [])
        @ (if fp_timezone expected \<noteq> fp_timezone stored
         then [''timezone (stored '' @ debug_str (fp_timezone stored) @ '', current ''
                @ debug_str (fp_timezone expected) @ '')''] else [])
      in if diffs = [] then None else Some (join_with ''; '' diffs))"

definition write_atomic :: "string \<Rightarrow> string \<Rightarrow> session_files \<Rightarrow> (core_error + unit) \<times> session_files" where
  "write_atomic scope blob fs =
     (if sf_writable fs then (Inr (), fs\<lparr>sf_files := dict_insert scope blob (sf_files fs)\<rparr>)
      else (Inl (SessionStoreIo ''write failed''), fs))"

definition store_save ::
  "seal_env \<Rightarrow> key_provider \<Rightarrow> string \<Rightarrow> session_envelope \<Rightarrow> session_files
    \<Rightarrow> (core_error + unit) \<times> session_files" where
  "store_save sv keys nonce env fs =
     (case validate_file_scope (se_scope env) of
        Inl e \<Rightarrow> (Inl e, fs)
      | Inr scope \<Rightarrow>
          (let plaintext = sv_to_json sv env
           in case keys scope of
                Inl e \<Rightarrow> (Inl e, fs)
              | Inr key \<Rightarrow>
                  (case sv_encrypt sv key nonce plaintext session_file_magic of
                     None \<Rightarrow> (Inl (SessionStoreAead ''encryption failed''), fs)
                   | Some ciphertext \<Rightarrow>
                       (let blob = session_file_magic @ le_bytes4 (int nonce_len) @ nonce @ ciphertext
                        in write_atomic scope blob fs))))"

definition open_frame :: "string \<Rightarrow> core_error + string \<times> string" where
  "open_frame blob =
     (let header_len = length session_file_magic + 4
      in if length blob < header_len + nonce_len + 16
         then Inl (SessionStoreFormat (''session file truncated ('' @ show_uint (int (length blob)) @ '' bytes)''))
         else if take (length session_file_magic) blob \<noteq> session_file_magic
         then Inl (SessionStoreFormat ''bad session file magic'')
         else (let n = from_le_bytes4 (take 4 (drop 8 blob))
               in if n \<noteq> int nonce_len
                  then Inl (SessionStoreFormat (''unexpected nonce length '' @ show_uint n @ '' (expected 24)''))
                  else Inr (take nonce_len (drop 12 blob), drop (12 + nonce_len) blob)))"

definition store_load ::
  "seal_env \<Rightarrow> key_provider \<Rightarrow> string \<Rightarrow> fingerprint_meta option \<Rightarrow> session_files
    \<Rightarrow> core_error + session_envelope" where
  "store_load sv keys scope expected fs =
     res_bind (validate_file_scope scope) (\<lambda>scope.
     case dict_get (sf_files fs) scope of
       None \<Rightarrow> Inl (SessionStoreIo ''No such file or directory (os error 2)'')
     | Some blob \<Rightarrow>
         res_bind (open_frame blob) (\<lambda>(nonce, ciphertext).
         res_bind (keys scope) (\<lambda>key.
         case sv_decrypt sv key nonce ciphertext session_file_magic of
           None \<Rightarrow> Inl (SessionStoreAead ''session decryption failed (wrong key or corrupted/tampered file)'')
         | Some plaintext \<Rightarrow>
             res_bind (map_err SessionStoreFormat (sv_from_json sv plaintext)) (\<lambda>env.
             if se_version env \<noteq> 1
             then Inl (SessionStoreFormat (''unsupported envelope version '' @ show_uint (se_version env) @ '' (expected 1)''))
             else if se_scope env \<noteq> scope
             then Inl (SessionStoreFormat (''envelope scope '' @ debug_str (se_scope env)
                    @ '' does not match file scope '' @ debug_str scope))
             else case expected of
                    None \<Rightarrow> Inr env
                  | Some e \<Rightarrow>
                      (case fingerprint_diff e (se_fingerprint env) of
                         Some diff \<Rightarrow> Inl (SessionFingerprintMismatch diff)
                       | None \<Rightarrow> Inr env)))))"

definition store_discard :: "string \<Rightarrow> session_files \<Rightarrow> (core_error + bool) \<times> session_files" where
  "store_discard scope fs =
     (case validate_file_scope scope of
        Inl e \<Rightarrow> (Inl e, fs)
      | Inr scope \<Rightarrow>
          (case dict_get (sf_files fs) scope of
             None \<Rightarrow> (Inr False, fs)
           | Some blob \<Rightarrow>
               if sf_writable fs then (Inr True, fs\<lparr>sf_files := dict_remove scope (sf_files fs)\<rparr>)
               else (Inl (SessionStoreIo ''remove failed''), fs)))"

section \<open>Lemmas\<close>

lemma fingerprint_diff_None: "fingerprint_diff a b = None \<longleftrightarrow> a = b"
  by (cases a; cases b) (auto simp: fingerprint_diff_def Let_def)

lemma open_frame_sealed:
  assumes "length nonce = 24" and "16 \<le> length ct"
  shows "open_frame (session_file_magic @ le_bytes4 (int nonce_len) @ nonce @ ct) = Inr (nonce, ct)"
proof -
  have magic: "length session_file_magic = 8" by (simp add: session_file_magic_def)
  have le: "length (le_bytes4 n) = 4" for n by (simp add: le_bytes4_def)
  have "from_le_bytes4 (le_bytes4 (int nonce_len)) = int nonce_len"
    by (simp add: nonce_len_def from_le_bytes4_def le_bytes4_def)
  then show ?thesis
    using assms by (simp add: open_frame_def Let_def magic le nonce_len_def)
qed

lemma store_load_Inr:
  assumes "store_load sv keys scope expected fs = Inr env"
  shows "se_version env = 1" "se_scope env = scope" "\<And>e. expected = Some e \<Longrightarrow> se_fingerprint env = e"
proof -
  have "se_version env = 1 \<and> se_scope env = scope \<and> (\<forall>e. expected = Some e \<longrightarrow> se_fingerprint env = e)"
    using assms
    by (auto simp: store_load_def result_iff validate_file_scope_def fingerprint_diff_None
        split: option.splits if_splits)
  then show "se_version env = 1" "se_scope env = scope" "\<And>e. expected = Some e \<Longrightarrow> se_fingerprint env = e"
    by auto
qed

lemma store_save_Inr:
  assumes "store_save sv keys nonce env fs = (Inr u, fs')"
  obtains key ct where "validate_file_scope (se_scope env) = Inr (se_scope env)" "keys (se_scope env) = Inr key"
    "sv_encrypt sv key nonce (sv_to_json sv env) session_file_magic = Some ct"
    "fs' = fs\<lparr>sf_files := dict_insert (se_scope env)
        (session_file_magic @ le_bytes4 (int nonce_len) @ nonce @ ct) (sf_files fs)\<rparr>"
  using assms that
  by (auto simp: store_save_def write_atomic_def validate_file_scope_def Let_def
      split: sum.splits option.splits if_splits)

text \<open>The contract of the cipher: what was sealed opens, and a tag of 16 bytes is appended.\<close>

definition cipher_ok :: "seal_env \<Rightarrow> bool" where
  "cipher_ok sv \<longleftrightarrow>
     (\<forall>k n m ad c. sv_encrypt sv k n m ad = Some c \<longrightarrow> 16 \<le> length c \<and> sv_decrypt sv k n c ad = Some m)"

section \<open>Properties\<close>


definition sample_fingerprint :: "string \<Rightarrow> fingerprint_meta" where
  "sample_fingerprint ua = fingerprint_default\<lparr>fp_user_agent := ua\<rparr>"

definition sample_envelope :: session_envelope where
  "sample_envelope = envelope_new ''t'' ''a.com'' (sample_fingerprint ''ua'') EgressUnspecified
     \<lparr>ss_cookies = [], ss_origins = []\<rparr>"

text \<open>A toy cipher that appends a tag, with an encoding that only knows the sample.\<close>

definition sample_seal :: seal_env where
  "sample_seal =
     \<lparr>sv_encrypt = (\<lambda>k n m ad. Some (m @ replicate 16 (CHR ''t''))),
      sv_decrypt = (\<lambda>k n c ad. Some (take (length c - 16) c)),
      sv_to_json = (\<lambda>env. ''e''), sv_from_json = (\<lambda>s. Inr sample_envelope)\<rparr>"

definition sample_files :: session_files where
  "sample_files = snd (store_save sample_seal (\<lambda>s. Inr (replicate 32 (CHR ''k'')))
     (replicate 24 (CHR ''n'')) sample_envelope \<lparr>sf_files = [], sf_writable = True\<rparr>)"


text \<open>
  C40: A session is bound to its scope and its fingerprint: whatever the bytes on disk are, an
  envelope that loads is of version 1, names the scope it was asked for, and, unless the check
  is overridden, carries exactly the expected user agent, client hints, locale and time zone.
\<close>
theorem loaded_envelope_matches:
  assumes "store_load sv keys scope expected fs = Inr env"
  shows "se_version env = 1 \<and> se_scope env = scope
    \<and> (expected = None \<or> expected = Some (se_fingerprint env))"
  using store_load_Inr [OF assms] by (cases expected) auto

theorem loaded_envelope_matches_witness:
  "se_version sample_envelope = 1 \<and> se_scope sample_envelope = ''a.com''
    \<and> (Some (sample_fingerprint ''ua'') = None \<or> Some (sample_fingerprint ''ua'') = Some (se_fingerprint sample_envelope))"
  by (rule loaded_envelope_matches [where sv = sample_seal and keys = "\<lambda>s. Inr (replicate 32 (CHR ''k''))"
        and fs = sample_files]) code_simp

end
