(* ===== verification/ChallengeDetect.thy ===== *)
theory ChallengeDetect
  imports Prelude
begin

text \<open>
  \<open>oxibrowser-core/src/challenge.rs\<close>: classification of the interstitial pages of
  bot-management vendors by status, headers and the leading 256 KiB of the body. The cut of the
  body is Rust's slice of a string, which panics inside an encoded character.
\<close>

section \<open>Vendors and kinds\<close>

datatype challenge_vendor = Cloudflare | DataDome | PerimeterX | AkamaiImperva | UnknownVendor

fun vendor_as_str :: "challenge_vendor \<Rightarrow> string" where
  "vendor_as_str Cloudflare = ''cloudflare''"
| "vendor_as_str DataDome = ''datadome''"
| "vendor_as_str PerimeterX = ''perimeterx''"
| "vendor_as_str AkamaiImperva = ''akamai-imperva''"
| "vendor_as_str UnknownVendor = ''unknown''"

datatype challenge_kind = Managed | JsCheck | Interactive | Blocked | UnknownKind

record detected_challenge =
  dc_vendor :: challenge_vendor
  dc_kind :: challenge_kind
  dc_clearance_cookie :: string
  dc_ray_id :: "string option"

definition hfind :: "(string \<times> string) list \<Rightarrow> string \<Rightarrow> string option" where
  "hfind headers name =
     map_option snd (find (\<lambda>(k, v). eq_ignore_ascii_case k name) headers)"

definition header_or_empty :: "(string \<times> string) list \<Rightarrow> string \<Rightarrow> string" where
  "header_or_empty headers name = (case hfind headers name of Some v \<Rightarrow> v | None \<Rightarrow> [])"

definition any_of :: "string \<Rightarrow> string list \<Rightarrow> bool" where
  "any_of body markers = (\<exists>m \<in> set markers. contains_str body m)"

section \<open>Detection\<close>

definition scan_limit :: nat where
  "scan_limit = 256 * 1024"

definition scan_of :: "string \<Rightarrow> string run" where
  "scan_of body = (if length body > scan_limit then slice_to body scan_limit else Ret body)"

definition cf_managed_markers :: "string list" where
  "cf_managed_markers =
     [''just a moment'', ''checking your browser'', ''cdn-cgi/challenge-platform'', ''__cf_chl_'', ''cf-challenge'']"

definition cf_interactive_markers :: "string list" where
  "cf_interactive_markers = [''cf-turnstile'', ''turnstile'', ''hcaptcha'', ''g-recaptcha'']"

definition detect_cloudflare :: "int \<Rightarrow> (string \<times> string) list \<Rightarrow> string \<Rightarrow> detected_challenge option" where
  "detect_cloudflare status headers body_lc =
     (let cf_mitigated = hfind headers ''cf-mitigated'';
          cf_challenge_header = (case cf_mitigated of Some s \<Rightarrow> eq_ignore_ascii_case s ''challenge'' | None \<Rightarrow> False);
          cf_served = eq_ignore_ascii_case (header_or_empty headers ''server'') ''cloudflare'';
          cf_managed_body = any_of body_lc cf_managed_markers;
          cf_interactive = any_of body_lc cf_interactive_markers;
          is_cf = (cf_served \<or> cf_mitigated \<noteq> None \<or> cf_managed_body \<or> cf_interactive);
          cf_signal = (cf_managed_body \<or> cf_interactive \<or> cf_challenge_header \<or> cf_mitigated \<noteq> None
             \<or> status = 503
             \<or> (status = 403 \<and> (contains_str body_lc ''cloudflare'' \<or> contains_str body_lc ''attention required'')))
      in if is_cf \<and> cf_signal
         then Some \<lparr>dc_vendor = Cloudflare,
                dc_kind = (if cf_interactive then Interactive
                           else if cf_managed_body \<or> cf_challenge_header then Managed
                           else if status = 403 then Blocked
                           else UnknownKind),
                dc_clearance_cookie = ''cf_clearance'',
                dc_ray_id = hfind headers ''cf-ray''\<rparr>
         else None)"

definition detect_datadome :: "int \<Rightarrow> (string \<times> string) list \<Rightarrow> string \<Rightarrow> detected_challenge option" where
  "detect_datadome status headers body_lc =
     (let dd_cookie = contains_str (to_ascii_lowercase (header_or_empty headers ''set-cookie'')) ''datadome='';
          is_dd = (eq_ignore_ascii_case (header_or_empty headers ''server'') ''datadome'' \<or> dd_cookie
             \<or> any_of body_lc [''datadome'', ''cdn-dd'', ''dd-section''])
      in if is_dd \<and> (status = 401 \<or> status = 403 \<or> status = 429 \<or> contains_str body_lc ''interstitial'')
         then Some \<lparr>dc_vendor = DataDome,
                dc_kind = (if any_of body_lc [''captcha'', ''grecaptcha'', ''hcaptcha''] then Interactive else Managed),
                dc_clearance_cookie = ''datadome'',
                dc_ray_id = (case hfind headers ''x-dd-b'' of Some v \<Rightarrow> Some v | None \<Rightarrow> hfind headers ''x-ddb'')\<rparr>
         else None)"

definition detect_perimeterx :: "int \<Rightarrow> (string \<times> string) list \<Rightarrow> string \<Rightarrow> detected_challenge option" where
  "detect_perimeterx status headers body_lc =
     (let is_px = (any_of body_lc [''_pxcaptcha'', ''/px.gif'', ''px-cdn'', ''perimeterx'']
             \<or> hfind headers ''x-px_blocks'' \<noteq> None
             \<or> contains_str (to_ascii_lowercase (header_or_empty headers ''set-cookie'')) ''_px'')
      in if is_px \<and> (status = 403 \<or> status = 429 \<or> status = 503)
         then Some \<lparr>dc_vendor = PerimeterX,
                dc_kind = (if contains_str body_lc ''captcha'' then Interactive else Managed),
                dc_clearance_cookie = ''_px3'',
                dc_ray_id = hfind headers ''x-px''\<rparr>
         else None)"

definition detect_akamai_imperva :: "int \<Rightarrow> (string \<times> string) list \<Rightarrow> string \<Rightarrow> detected_challenge option" where
  "detect_akamai_imperva status headers body_lc =
     (let set_cookie_lc = to_ascii_lowercase (header_or_empty headers ''set-cookie'');
          server = header_or_empty headers ''server'';
          is_imperva = (contains_str set_cookie_lc ''incap_ses'' \<or> contains_str set_cookie_lc ''visid_incap''
             \<or> any_of body_lc [''incapsula'', ''request unsuccessful'']);
          is_akamai = (eq_ignore_ascii_case server ''akamai'' \<or> eq_ignore_ascii_case server ''akamaighost'');
          akamai_block = (contains_str body_lc ''access denied'' \<and> contains_str body_lc ''reference #'')
      in if (is_imperva \<or> (is_akamai \<and> akamai_block)) \<and> (status = 403 \<or> status = 429 \<or> status = 503)
         then Some \<lparr>dc_vendor = AkamaiImperva, dc_kind = Managed,
                dc_clearance_cookie = (if is_imperva then ''incap_ses'' else ''ak_bmsc''), dc_ray_id = None\<rparr>
         else None)"

fun first_some :: "'a option list \<Rightarrow> 'a option" where
  "first_some [] = None"
| "first_some (Some x # ys) = Some x"
| "first_some (None # ys) = first_some ys"

definition detect :: "int \<Rightarrow> (string \<times> string) list \<Rightarrow> string \<Rightarrow> detected_challenge option run" where
  "detect status headers body =
     run_bind (scan_of body) (\<lambda>scan.
       let body_lc = to_ascii_lowercase scan
       in Ret (first_some
            [detect_cloudflare status headers body_lc, detect_datadome status headers body_lc,
             detect_perimeterx status headers body_lc, detect_akamai_imperva status headers body_lc]))"

section \<open>Lemmas and properties\<close>

lemma scan_of_Panic: "scan_of body = Panic \<longleftrightarrow> scan_limit < length body \<and> is_continuation (body ! scan_limit)"
  by (auto simp: scan_of_def slice_to_def is_char_boundary_def scan_limit_def)

lemma scan_of_short: "length body \<le> 262144 \<Longrightarrow> scan_of body = Ret body"
  by (simp add: scan_of_def scan_limit_def)

lemma detect_Panic: "detect status headers body = Panic \<longleftrightarrow> scan_of body = Panic"
  by (auto simp: detect_def run_bind_Panic Let_def)

lemma first_some_None: "first_some xs = None \<longleftrightarrow> (\<forall>x \<in> set xs. x = None)"
  by (induction xs rule: first_some.induct) auto

text \<open>
  A response body can crash the classifier: \<open>detect\<close> panics exactly on bodies longer than
  256 KiB whose byte at that offset continues an encoded character, whatever the status and the
  headers are.
\<close>
theorem detect_panics_exactly:
  "detect status headers body = Panic
    \<longleftrightarrow> 262144 < length body \<and> is_continuation (body ! 262144)"
  by (simp add: detect_Panic scan_of_Panic scan_limit_def)

text \<open>
  Ordinary pages are not challenges: a response with a status outside 401, 403, 429 and 503,
  no \<open>cf-mitigated\<close> header and none of the interstitial markers in its body is not reported,
  whoever served it.
\<close>
theorem ordinary_page_not_challenge:
  assumes "status \<notin> {401, 403, 429, 503}" and "hfind headers ''cf-mitigated'' = None"
    and "length body \<le> 262144"
    and "\<not> any_of (to_ascii_lowercase body) (cf_managed_markers @ cf_interactive_markers @ [''interstitial''])"
  shows "detect status headers body = Ret None"
proof -
  let ?b = "to_ascii_lowercase body"
  have no: "\<not> any_of ?b cf_managed_markers" "\<not> any_of ?b cf_interactive_markers" "\<not> contains_str ?b ''interstitial''"
    using assms(4) by (simp_all add: any_of_def ball_Un)
  have "detect_cloudflare status headers ?b = None" "detect_datadome status headers ?b = None"
    "detect_perimeterx status headers ?b = None" "detect_akamai_imperva status headers ?b = None"
    using assms(1,2) no
    by (simp_all add: detect_cloudflare_def detect_datadome_def detect_perimeterx_def
        detect_akamai_imperva_def Let_def)
  moreover have "scan_of body = Ret body" using assms(3) by (rule scan_of_short)
  ultimately show ?thesis by (simp add: detect_def Let_def)
qed

lemma ordinary_page_not_challenge_witness:
  "detect 200 [(''Server'', ''cloudflare'')] ''<h1>Hello</h1>'' = Ret None"
proof (rule ordinary_page_not_challenge)
  show "hfind [(''Server'', ''cloudflare'')] ''cf-mitigated'' = None" by code_simp
  show "\<not> any_of (to_ascii_lowercase ''<h1>Hello</h1>'')
      (cf_managed_markers @ cf_interactive_markers @ [''interstitial''])" by code_simp
qed simp_all

text \<open>
  A plain page that merely uses the word: any site whose page mentions a turnstile is reported as
  an interactive Cloudflare challenge, with status 200 and without a header of the vendor.
\<close>
theorem turnstile_word_is_challenge:
  "detect 200 [(''server'', ''nginx'')] ''<p>Metro turnstile repair</p>'' =
     Ret (Some \<lparr>dc_vendor = Cloudflare, dc_kind = Interactive, dc_clearance_cookie = ''cf_clearance'',
       dc_ray_id = None\<rparr>)"
proof -
  have "detect_cloudflare 200 [(''server'', ''nginx'')] (to_ascii_lowercase ''<p>Metro turnstile repair</p>'') =
     Some \<lparr>dc_vendor = Cloudflare, dc_kind = Interactive, dc_clearance_cookie = ''cf_clearance'', dc_ray_id = None\<rparr>"
    by code_simp
  then show ?thesis by (simp add: detect_def scan_of_short Let_def)
qed

end
