(* ===== verification/Account.thy ===== *)
theory Account
  imports SessionFile AuditLog
begin

text \<open>
  \<open>oxibrowser-core/src/account/record.rs\<close>, \<open>registry.rs\<close>, \<open>lock.rs\<close> and
  \<open>irreversible.rs\<close>: account records and their life cycle, the on-disk registry, the advisory
  lock and the list of irreversible actions. The registry's directory tree is a dictionary from
  account ids to directories; \<open>account.json\<close> holds a record or does not parse. Permission
  bits are not modelled. The lock's file descriptor is the kernel's: an acquisition reads the
  answers of its successive \<open>flock\<close> calls, with the clock after each, from a list.
\<close>

section \<open>Records\<close>

definition account_error :: "string \<Rightarrow> core_error" where
  "account_error msg = SessionError (''account: '' @ msg)"

definition validate_account_id :: "string \<Rightarrow> core_error + unit" where
  "validate_account_id i =
     (if i \<noteq> [] \<and> length i \<le> 32
         \<and> (\<forall>c \<in> set i. is_ascii_lowercase c \<or> is_ascii_digit c \<or> c = CHR ''-'')
         \<and> \<not> starts_with i ''-'' \<and> \<not> ends_with i ''-''
      then Inr ()
      else Inl (account_error (''invalid account id '' @ debug_str i @ '': expected [a-z0-9-]{1,32}'')))"

definition validate_scope :: "web_env \<Rightarrow> string \<Rightarrow> core_error + unit" where
  "validate_scope env scope =
     (if scope = [] \<or> length scope > 255 \<or> \<not> is_ascii_str scope
      then Inl (account_error (''invalid scope '' @ debug_str scope))
      else if scope \<noteq> to_ascii_lowercase scope
      then Inl (account_error (''scope must be lowercase: '' @ debug_str scope))
      else if (\<exists>c \<in> set scope. c \<in> {CHR ''/'', CHR 0x5C, CHR '':'', CHR ''?'', CHR ''#'', CHR 0x40, CHR '' ''})
              \<or> starts_with scope ''.''
      then Inl (account_error (''scope must be a bare domain, got '' @ debug_str scope))
      else if CHR ''.'' \<notin> set scope
      then Inl (account_error (''scope '' @ debug_str scope @ '' is not a domain (needs a dot)''))
      else (let registrable = registrable_domain env scope
            in if registrable \<noteq> scope
               then Inl (account_error (''scope '' @ debug_str scope @ '' is not a registrable domain (registrable part: ''
                      @ debug_str registrable @ '')''))
               else Inr ()))"

datatype account_state = NeedsLogin | LoggingIn | Valid | Stale | Challenge | Revoked

fun state_as_str :: "account_state \<Rightarrow> string" where
  "state_as_str NeedsLogin = ''needs_login''"
| "state_as_str LoggingIn = ''logging_in''"
| "state_as_str Valid = ''valid''"
| "state_as_str Stale = ''stale''"
| "state_as_str Challenge = ''challenge''"
| "state_as_str Revoked = ''revoked''"

definition can_transition_to :: "account_state \<Rightarrow> account_state \<Rightarrow> bool" where
  "can_transition_to from to =
     (if from = to then True
      else case from of
             NeedsLogin \<Rightarrow> to \<in> {LoggingIn, Valid}
           | LoggingIn \<Rightarrow> to \<in> {Valid, NeedsLogin}
           | Valid \<Rightarrow> to \<in> {Stale, Challenge, NeedsLogin}
           | Stale \<Rightarrow> to \<in> {Valid, Challenge, LoggingIn, NeedsLogin}
           | Challenge \<Rightarrow> to \<in> {Valid, NeedsLogin}
           | Revoked \<Rightarrow> False)"

record identity_card =
  ic_display_name :: "string option"
  ic_login_hint :: "string option"
  ic_avatar_url :: "string option"

record session_summary =
  sm_updated_at :: "string option"
  sm_cookie_count :: nat
  sm_earliest_expiry :: "string option"
  sm_origins :: "string list"

record probe_config =
  pc_url :: string
  pc_marker :: "string option"

record account_record =
  ac_version :: int
  ac_account_id :: string
  ac_scope :: string
  ac_identity :: identity_card
  ac_created_at :: string
  ac_state :: account_state
  ac_state_detail :: "string option"
  ac_fingerprint :: fingerprint_meta
  ac_egress :: egress_meta
  ac_credentials :: "string list"
  ac_session_summary :: session_summary
  ac_probe :: "probe_config option"
  ac_irreversible_patterns :: "string list option"

definition session_summary_default :: session_summary where
  "session_summary_default =
     \<lparr>sm_updated_at = None, sm_cookie_count = 0, sm_earliest_expiry = None, sm_origins = []\<rparr>"

definition account_record_new :: "web_env \<Rightarrow> string \<Rightarrow> string \<Rightarrow> string \<Rightarrow> core_error + account_record" where
  "account_record_new env now i scope =
     res_bind (validate_account_id i) (\<lambda>_.
     res_bind (validate_scope env scope) (\<lambda>_.
       Inr \<lparr>ac_version = 1, ac_account_id = i, ac_scope = scope,
            ac_identity = \<lparr>ic_display_name = None, ic_login_hint = None, ic_avatar_url = None\<rparr>,
            ac_created_at = now, ac_state = NeedsLogin, ac_state_detail = None,
            ac_fingerprint = fingerprint_default, ac_egress = EgressUnspecified, ac_credentials = [],
            ac_session_summary = session_summary_default, ac_probe = None,
            ac_irreversible_patterns = None\<rparr>))"

definition account_transition ::
  "account_state \<Rightarrow> string option \<Rightarrow> account_record \<Rightarrow> core_error + account_record" where
  "account_transition to detail r =
     (if \<not> can_transition_to (ac_state r) to
      then Inl (account_error (''illegal state transition '' @ state_as_str (ac_state r) @ '' -> ''
             @ state_as_str to @ '' for account '' @ debug_str (ac_account_id r)))
      else Inr (r\<lparr>ac_state := to, ac_state_detail := detail\<rparr>))"

section \<open>The registry\<close>

datatype account_file = GoodRecord account_record | BadRecord string

record account_dir =
  ad_record :: "account_file option"
  ad_sessions :: session_files

record account_registry =
  rg_dirs :: "(string, account_dir) dict"
  rg_writable :: bool

definition empty_dir :: account_dir where
  "empty_dir = \<lparr>ad_record = None, ad_sessions = \<lparr>sf_files = [], sf_writable = True\<rparr>\<rparr>"

definition registry_exists :: "account_registry \<Rightarrow> string \<Rightarrow> bool" where
  "registry_exists rg i \<longleftrightarrow>
     validate_account_id i = Inr ()
     \<and> (case dict_get (rg_dirs rg) i of Some d \<Rightarrow> ad_record d \<noteq> None | None \<Rightarrow> False)"

definition write_record :: "account_record \<Rightarrow> account_registry \<Rightarrow> (core_error + unit) \<times> account_registry" where
  "write_record r rg =
     (if \<not> rg_writable rg then (Inl (account_error ''writing account.json atomically''), rg)
      else case dict_get (rg_dirs rg) (ac_account_id r) of
             None \<Rightarrow> (Inl (account_error ''writing account.json atomically''), rg)
           | Some d \<Rightarrow> (Inr (), rg\<lparr>rg_dirs := dict_insert (ac_account_id r) (d\<lparr>ad_record := Some (GoodRecord r)\<rparr>) (rg_dirs rg)\<rparr>))"

definition ensure_dir :: "string \<Rightarrow> account_registry \<Rightarrow> (core_error + unit) \<times> account_registry" where
  "ensure_dir i rg =
     (case dict_get (rg_dirs rg) i of
        Some d \<Rightarrow> (Inr (), rg)
      | None \<Rightarrow> if rg_writable rg then (Inr (), rg\<lparr>rg_dirs := dict_insert i empty_dir (rg_dirs rg)\<rparr>)
                else (Inl (account_error ''creating directory''), rg))"

definition registry_add :: "account_record \<Rightarrow> account_registry \<Rightarrow> (core_error + account_record) \<times> account_registry" where
  "registry_add r rg =
     (case validate_account_id (ac_account_id r) of
        Inl e \<Rightarrow> (Inl e, rg)
      | Inr _ \<Rightarrow>
          if (case dict_get (rg_dirs rg) (ac_account_id r) of Some d \<Rightarrow> ad_record d \<noteq> None | None \<Rightarrow> False)
          then (Inl (account_error (''account '' @ debug_str (ac_account_id r) @ '' already exists'')), rg)
          else (case ensure_dir (ac_account_id r) rg of
                  (Inl e, rg') \<Rightarrow> (Inl e, rg')
                | (Inr _, rg') \<Rightarrow>
                    (case write_record r rg' of
                       (Inl e, rg'') \<Rightarrow> (Inl e, rg'')
                     | (Inr _, rg'') \<Rightarrow> (Inr r, rg''))))"

definition registry_get :: "string \<Rightarrow> account_registry \<Rightarrow> core_error + account_record" where
  "registry_get i rg =
     res_bind (validate_account_id i) (\<lambda>_.
     case dict_get (rg_dirs rg) i of
       None \<Rightarrow> Inl (account_error (''account '' @ debug_str i @ '' not found''))
     | Some d \<Rightarrow>
         (case ad_record d of
            None \<Rightarrow> Inl (account_error (''account '' @ debug_str i @ '' not found''))
          | Some (BadRecord e) \<Rightarrow> Inl (account_error (''parsing account.json: '' @ e))
          | Some (GoodRecord r) \<Rightarrow> Inr r))"

definition registry_save :: "account_record \<Rightarrow> account_registry \<Rightarrow> (core_error + unit) \<times> account_registry" where
  "registry_save r rg =
     (case validate_account_id (ac_account_id r) of
        Inl e \<Rightarrow> (Inl e, rg)
      | Inr _ \<Rightarrow>
          if dict_get (rg_dirs rg) (ac_account_id r) = None
          then (Inl (account_error (''account '' @ debug_str (ac_account_id r) @ '' not found'')), rg)
          else write_record r rg)"

definition set_state ::
  "string \<Rightarrow> account_state \<Rightarrow> string option \<Rightarrow> account_registry \<Rightarrow> (core_error + account_record) \<times> account_registry" where
  "set_state i to detail rg =
     (case registry_get i rg of
        Inl e \<Rightarrow> (Inl e, rg)
      | Inr r \<Rightarrow>
          (case account_transition to detail r of
             Inl e \<Rightarrow> (Inl e, rg)
           | Inr r' \<Rightarrow>
               (case registry_save r' rg of
                  (Inl e, rg') \<Rightarrow> (Inl e, rg')
                | (Inr _, rg') \<Rightarrow> (Inr r', rg'))))"

definition account_remove :: "string \<Rightarrow> account_registry \<Rightarrow> (core_error + bool) \<times> account_registry" where
  "account_remove i rg =
     (case validate_account_id i of
        Inl e \<Rightarrow> (Inl e, rg)
      | Inr _ \<Rightarrow>
          if dict_get (rg_dirs rg) i = None then (Inr False, rg)
          else if \<not> rg_writable rg then (Inl (account_error ''removing account directory''), rg)
          else (Inr True, rg\<lparr>rg_dirs := dict_remove i (rg_dirs rg)\<rparr>))"

fun insert_by_id :: "account_record \<Rightarrow> account_record list \<Rightarrow> account_record list" where
  "insert_by_id r [] = [r]"
| "insert_by_id r (x # xs) =
     (if str_le (ac_account_id r) (ac_account_id x) then r # x # xs else x # insert_by_id r xs)"

fun good_records :: "(string, account_dir) dict \<Rightarrow> account_record list" where
  "good_records [] = []"
| "good_records ((i, d) # ds) =
     (case ad_record d of Some (GoodRecord r) \<Rightarrow> r # good_records ds | _ \<Rightarrow> good_records ds)"

definition registry_list :: "account_registry \<Rightarrow> account_record list" where
  "registry_list rg = foldr insert_by_id (good_records (rg_dirs rg)) []"

section \<open>The lock\<close>

datatype lock_policy = FailFast | Block | LockTimeout int

fun policy_as_str :: "lock_policy \<Rightarrow> string" where
  "policy_as_str FailFast = ''fail-fast''"
| "policy_as_str Block = ''block''"
| "policy_as_str (LockTimeout t) = ''timeout''"

datatype flock_result = Locked | Interrupted | WouldBlock | FlockFailed string

text \<open>
  The loop of \<open>acquire\<close> over the answers of the kernel, each with the clock after it; \<open>None\<close>
  when they are used up and the call is still waiting. The second component counts the sleeps.
\<close>

fun acquire_loop :: "lock_policy \<Rightarrow> int \<Rightarrow> (flock_result \<times> int) list \<Rightarrow> nat \<Rightarrow> ((core_error + unit) \<times> nat) option" where
  "acquire_loop policy start [] slept = None"
| "acquire_loop policy start ((r, now) # rest) slept =
     (case r of
        Locked \<Rightarrow> Some (Inr (), slept)
      | Interrupted \<Rightarrow> acquire_loop policy start rest slept
      | FlockFailed e \<Rightarrow> Some (Inl (SessionError (''account: flock failed: '' @ e)), slept)
      | WouldBlock \<Rightarrow>
          (case policy of
             FailFast \<Rightarrow> Some (Inl (AccountLocked ''lock file''), slept)
           | Block \<Rightarrow> acquire_loop policy start rest (slept + 1)
           | LockTimeout t \<Rightarrow>
               if start + t \<le> now then Some (Inl (AccountLocked ''lock timeout''), slept)
               else acquire_loop policy start rest (slept + 1)))"

section \<open>Irreversible actions\<close>

definition default_irreversible_patterns :: "string list" where
  "default_irreversible_patterns =
     [''delete account'', ''delete my'', ''delete this'', ''delete permanently'', ''cancel account'',
      ''close account'', ''unsubscribe'', ''checkout'', ''place order'', ''confirm order'',
      ''complete purchase'', ''buy now'', ''pay now'', ''make payment'', ''withdraw'', ''send money'',
      ''transfer funds'', ''danger zone'']"

definition matched_pattern :: "string \<Rightarrow> string list \<Rightarrow> string option" where
  "matched_pattern haystack extra =
     (let hay = to_ascii_lowercase haystack
      in case find (\<lambda>p. contains_str hay p) default_irreversible_patterns of
           Some p \<Rightarrow> Some p
         | None \<Rightarrow> find (\<lambda>p. contains_str hay p) extra)"

section \<open>Lemmas and properties\<close>

lemma acquire_loop_outcome:
  "acquire_loop policy start rs k = Some (res, n) \<Longrightarrow>
     (res = Inr () \<longrightarrow> (\<exists>now. (Locked, now) \<in> set rs))
     \<and> (policy = FailFast \<longrightarrow> n = k)
     \<and> (\<forall>t m. policy = LockTimeout t \<longrightarrow> res = Inl (AccountLocked m) \<longrightarrow>
           (\<exists>now. (WouldBlock, now) \<in> set rs \<and> start + t \<le> now))"
proof (induction policy start rs k rule: acquire_loop.induct)
  case (2 policy start r now rest slept)
  show ?case
  proof (cases r)
    case Interrupted
    with 2(1) [OF Interrupted] 2(4) show ?thesis by auto
  next
    case WouldBlock
    show ?thesis
    proof (cases policy)
      case Block
      with 2(2) [OF WouldBlock Block] 2(4) WouldBlock show ?thesis by auto
    next
      case (LockTimeout t)
      with 2(3) [OF WouldBlock LockTimeout] 2(4) WouldBlock show ?thesis
        by (auto split: if_splits)
    qed (use 2(4) WouldBlock in auto)
  qed (use 2(4) in auto)
qed simp

lemma acquire_block:
  "\<forall>p \<in> set pre. fst p = Interrupted \<or> fst p = WouldBlock \<Longrightarrow>
    acquire_loop Block start (pre @ (Locked, now) # post) k
      = Some (Inr (), k + length (filter (\<lambda>p. fst p = WouldBlock) pre))"
  by (induction pre arbitrary: k) auto

text \<open>
  What an acquisition guarantees: the lock is held only if a \<open>flock\<close> call was answered
  with it, the fail-fast policy never sleeps, and a timeout is reported only once the deadline
  has passed with the lock still held elsewhere.
\<close>
theorem lock_acquire_outcomes:
  assumes "acquire_loop policy start rs 0 = Some (res, n)"
  shows "(res = Inr () \<longrightarrow> (\<exists>now. (Locked, now) \<in> set rs))
     \<and> (policy = FailFast \<longrightarrow> n = 0)
     \<and> (\<forall>t m. policy = LockTimeout t \<longrightarrow> res = Inl (AccountLocked m) \<longrightarrow>
           (\<exists>now. (WouldBlock, now) \<in> set rs \<and> start + t \<le> now))"
  using assms by (rule acquire_loop_outcome)

theorem lock_acquire_outcomes_witness:
  "\<exists>now. (WouldBlock, now) \<in> set [(Interrupted, 1), (WouldBlock, 2), (WouldBlock, 10)] \<and> 0 + 5 \<le> (now::int)"
  using lock_acquire_outcomes [of "LockTimeout 5" 0 "[(Interrupted, 1), (WouldBlock, 2), (WouldBlock, 10)]"
      "Inl (AccountLocked ''lock timeout'')" 1] by simp

text \<open>
  Waiting ends: under the blocking policy the acquisition returns the lock at the first call
  that the kernel grants, after one sleep for each refusal before it.
\<close>
theorem blocking_lock_returns:
  assumes "\<forall>p \<in> set pre. fst p = Interrupted \<or> fst p = WouldBlock"
  shows "acquire_loop Block start (pre @ (Locked, now) # post) 0
    = Some (Inr (), length (filter (\<lambda>p. fst p = WouldBlock) pre))"
  using acquire_block [OF assms, of start now post 0] by simp

theorem blocking_lock_returns_witness:
  "acquire_loop Block 0 ([(WouldBlock, 1), (Interrupted, 2)] @ (Locked, 3) # []) 0
    = Some (Inr (), length (filter (\<lambda>p. fst p = WouldBlock) [(WouldBlock, 1::int), (Interrupted, 2)]))"
  by (rule blocking_lock_returns) simp

end
