(* ===== verification/Probe.thy ===== *)
theory Probe
  imports ChallengeDetect Account
begin

text \<open>
  \<open>oxibrowser-core/src/account/probe.rs\<close> and \<open>probes.rs\<close>: the validation probe that decides
  whether a stored session still works. The matches of the \<open>regex\<close> crate are an argument
  (record \<open>probe_regex\<close>, one field for each pattern the code compiles), and so is the answer of
  the HTTP client.
\<close>

section \<open>Patterns\<close>

record probe_regex =
  pr_attr_find :: "string \<Rightarrow> string \<Rightarrow> string list" \<comment> \<open>attribute, text: all matches\<close>
  pr_attr_value :: "string \<Rightarrow> string \<Rightarrow> string option" \<comment> \<open>attribute, tag: the first match's value\<close>
  pr_password_input :: "string \<Rightarrow> bool"
  pr_form_opens :: "string \<Rightarrow> string list"
  pr_action :: "string \<Rightarrow> string option"

datatype attr_match = ExactAttr | WordAttr

definition is_quote :: "char \<Rightarrow> bool" where
  "is_quote c \<longleftrightarrow> c = CHR 0x22 \<or> c = CHR 0x27"

definition trim_quotes :: "string \<Rightarrow> string" where
  "trim_quotes s = dropWhile_end is_quote (dropWhile is_quote s)"

definition attr_value_matches :: "probe_regex \<Rightarrow> string \<Rightarrow> string \<Rightarrow> string \<Rightarrow> attr_match \<Rightarrow> bool" where
  "attr_value_matches rx html attr v mode =
     (\<exists>raw \<in> set (pr_attr_find rx attr html).
        let w = (case split_once (CHR ''='') raw of Some (_, x) \<Rightarrow> trim_quotes (str_trim x) | None \<Rightarrow> [])
        in case mode of
             ExactAttr \<Rightarrow> w = v
           | WordAttr \<Rightarrow> v \<in> set (split_whitespace w))"

definition split_once_str :: "string \<Rightarrow> string \<Rightarrow> (string \<times> string) option" where
  "split_once_str d s =
     (case find_sub d s of Some i \<Rightarrow> Some (take i s, drop (i + length d) s) | None \<Rightarrow> None)"

definition parse_selector :: "string \<Rightarrow> (string \<times> string \<times> string \<times> bool) option" where
  "parse_selector marker =
     (case split_once (CHR ''['') marker of
        None \<Rightarrow> None
      | Some (tag, rest) \<Rightarrow>
          (case strip_suffix rest '']'' of
             None \<Rightarrow> None
           | Some close \<Rightarrow>
               if tag = [] \<or> \<not> list_all is_ascii_alnum tag then None
               else case (case split_once_str ''*='' close of
                            Some (a, v) \<Rightarrow> Some (str_trim a, str_trim v, True)
                          | None \<Rightarrow>
                              (case split_once (CHR ''='') close of
                                 Some (a, v) \<Rightarrow> Some (str_trim a, str_trim v, False)
                               | None \<Rightarrow> None)) of
                      None \<Rightarrow> None
                    | Some (attr, v, substring) \<Rightarrow>
                        if attr = [] \<or> v = [] then None
                        else Some (to_ascii_lowercase tag, to_ascii_lowercase attr, trim_quotes v, substring)))"

definition attr_in_tag :: "probe_regex \<Rightarrow> string \<Rightarrow> string \<Rightarrow> string \<Rightarrow> bool \<Rightarrow> bool" where
  "attr_in_tag rx tag_html attr v substring =
     (case pr_attr_value rx attr tag_html of
        None \<Rightarrow> False
      | Some x \<Rightarrow>
          if substring then contains_str (to_ascii_lowercase x) (to_ascii_lowercase v) else x = v)"

definition before_char :: "char \<Rightarrow> string \<Rightarrow> string" where
  "before_char d s = takeWhile (\<lambda>c. c \<noteq> d) s"

function tag_attr_matches :: "probe_regex \<Rightarrow> string \<Rightarrow> string \<Rightarrow> string \<Rightarrow> string \<Rightarrow> bool \<Rightarrow> bool" where
  "tag_attr_matches rx rest tag attr v substring =
     (let opening = CHR ''<'' # tag
      in case find_sub opening rest of
           None \<Rightarrow> False
         | Some pos \<Rightarrow>
             (let after = drop (pos + length opening) rest
              in if attr_in_tag rx (before_char (CHR ''>'') after) attr v substring then True
                 else tag_attr_matches rx after tag attr v substring))"
  by pat_completeness auto

termination
proof (relation "measure (\<lambda>(rx, rest, tag, attr, v, substring). length rest)")
  fix rx :: probe_regex and rest tag attr v substring x pos xa
  assume "(x :: string) = CHR ''<'' # tag" "find_sub x rest = Some pos" "xa = drop (pos + length x) rest"
  then show "((rx, xa, tag, attr, v, substring), rx, rest, tag, attr, v, substring)
      \<in> measure (\<lambda>(rx, rest, tag, attr, v, substring). length rest)"
    using find_sub_bound [of x rest pos] by simp
qed simp

declare tag_attr_matches.simps [simp del]

definition marker_present :: "probe_regex \<Rightarrow> string \<Rightarrow> string \<Rightarrow> bool" where
  "marker_present rx html m =
     (let m = str_trim m;
          otherwise =
            (case parse_selector m of
               Some (tag, attr, v, substring) \<Rightarrow> tag_attr_matches rx html tag attr v substring
             | None \<Rightarrow> contains_str html m)
      in if m = [] then False
         else case m of
                c # name \<Rightarrow>
                  if c = CHR ''#'' \<and> name \<noteq> [] then attr_value_matches rx html ''id'' name ExactAttr
                  else if c = CHR ''.'' \<and> name \<noteq> [] then attr_value_matches rx html ''class'' name WordAttr
                  else otherwise
              | [] \<Rightarrow> False)"

section \<open>Login forms\<close>

definition auth_stems :: "string list" where
  "auth_stems =
     [''login'', ''log-in'', ''signin'', ''sign-in'', ''sign_in'', ''session'', ''sessions'', ''auth'',
      ''authenticate'', ''authentication'', ''authorize'', ''authorization'', ''oauth'']"

definition has_auth_segment :: "string \<Rightarrow> bool" where
  "has_auth_segment action =
     (\<exists>seg \<in> set (split_by (\<lambda>c. c = CHR ''/'' \<or> c = CHR ''?'' \<or> c = CHR ''#'' \<or> c = CHR '':'') action).
        to_ascii_lowercase (before_char (CHR ''.'') seg) \<in> set auth_stems)"

definition login_form_present :: "probe_regex \<Rightarrow> string \<Rightarrow> bool" where
  "login_form_present rx html =
     (pr_password_input rx html
      \<or> (\<exists>form \<in> set (pr_form_opens rx html).
           case pr_action rx form of Some a \<Rightarrow> has_auth_segment a | None \<Rightarrow> False))"

section \<open>The probe\<close>

datatype probe_verdict =
    ProbeValid
  | ProbeInvalid string
  | ProbeChallenge detected_challenge
  | ProbeUnreachable string

record probe_outcome =
  po_verdict :: probe_verdict
  po_http_status :: "int option"
  po_marker_found :: "bool option"
  po_login_form :: "bool option"

record validation_probe =
  vp_url :: url
  vp_marker :: "string option"

definition from_record :: "(string \<Rightarrow> string + url) \<Rightarrow> probe_config option \<Rightarrow> string \<Rightarrow> core_error + validation_probe" where
  "from_record parse probe scope =
     (case probe of
        Some cfg \<Rightarrow>
          (case parse (pc_url cfg) of
             Inl e \<Rightarrow> Inl (account_error (''probe url: '' @ e))
           | Inr u \<Rightarrow> Inr \<lparr>vp_url = u, vp_marker = pc_marker cfg\<rparr>)
      | None \<Rightarrow>
          (case parse (''https://'' @ scope @ ''/'') of
             Inl e \<Rightarrow> Inl (account_error (''scope url: '' @ e))
           | Inr u \<Rightarrow> Inr \<lparr>vp_url = u, vp_marker = None\<rparr>))"

type_synonym http_answer = "string + int \<times> (string \<times> string) list \<times> string"

definition judge_page :: "probe_regex \<Rightarrow> string option \<Rightarrow> int \<Rightarrow> string \<Rightarrow> probe_outcome" where
  "judge_page rx marker status body =
     (if status = 401 \<or> status = 403
      then \<lparr>po_verdict = ProbeInvalid (''probe_'' @ show_uint status), po_http_status = Some status,
            po_marker_found = None, po_login_form = None\<rparr>
      else if login_form_present rx body
      then \<lparr>po_verdict = ProbeInvalid ''login_form'', po_http_status = Some status,
            po_marker_found = None, po_login_form = Some True\<rparr>
      else case marker of
             Some m \<Rightarrow>
               (let found = marker_present rx body m
                in \<lparr>po_verdict = (if found then ProbeValid else ProbeInvalid ''marker_missing''),
                    po_http_status = Some status, po_marker_found = Some found, po_login_form = Some False\<rparr>)
           | None \<Rightarrow>
               \<lparr>po_verdict = ProbeValid, po_http_status = Some status, po_marker_found = None,
                po_login_form = Some False\<rparr>)"

definition probe_run :: "probe_regex \<Rightarrow> (url \<Rightarrow> http_answer) \<Rightarrow> validation_probe \<Rightarrow> probe_outcome run" where
  "probe_run rx fetch vp =
     (case fetch (vp_url vp) of
        Inl e \<Rightarrow>
          Ret \<lparr>po_verdict = ProbeUnreachable e, po_http_status = None, po_marker_found = None,
               po_login_form = None\<rparr>
      | Inr (status, headers, body) \<Rightarrow>
          run_bind (detect status headers body) (\<lambda>d.
            case d of
              Some c \<Rightarrow>
                Ret \<lparr>po_verdict = ProbeChallenge c, po_http_status = Some status, po_marker_found = None,
                     po_login_form = None\<rparr>
            | None \<Rightarrow> Ret (judge_page rx (vp_marker vp) status body)))"

definition curated_for :: "string \<Rightarrow> probe_config option" where
  "curated_for scope =
     (if scope = ''github.com''
      then Some \<lparr>pc_url = ''https://github.com/settings/profile'', pc_marker = Some ''meta[name=user-login]''\<rparr>
      else None)"

section \<open>Properties\<close>

lemma probe_valid_exact:
  "(probe_run rx fetch vp = Ret oc \<and> po_verdict oc = ProbeValid) \<longleftrightarrow>
     (\<exists>status headers body. fetch (vp_url vp) = Inr (status, headers, body)
        \<and> detect status headers body = Ret None
        \<and> oc = judge_page rx (vp_marker vp) status body \<and> po_verdict oc = ProbeValid)"
  by (auto simp: probe_run_def result_iff split: sum.splits option.splits)

lemma judge_valid_exact:
  "po_verdict (judge_page rx m status body) = ProbeValid \<longleftrightarrow>
     status \<noteq> 401 \<and> status \<noteq> 403 \<and> \<not> login_form_present rx body
     \<and> (case m of Some mk \<Rightarrow> marker_present rx body mk | None \<Rightarrow> True)"
  by (auto simp: judge_page_def Let_def split: option.splits)

text \<open>
  What proves a session: the probe answers \<open>Valid\<close> exactly when the page was fetched, is no
  challenge, has neither status 401 nor 403, shows no login form, and carries the configured
  marker, if there is one. A failed fetch, a challenge or a crash never counts as proof.
\<close>
theorem probe_valid_exactly:
  "(\<exists>oc. probe_run rx fetch vp = Ret oc \<and> po_verdict oc = ProbeValid) =
     (\<exists>status headers body. fetch (vp_url vp) = Inr (status, headers, body)
        \<and> detect status headers body = Ret None
        \<and> status \<notin> {401, 403} \<and> \<not> login_form_present rx body
        \<and> (case vp_marker vp of Some mk \<Rightarrow> marker_present rx body mk | None \<Rightarrow> True))"
proof -
  have "(\<exists>oc. probe_run rx fetch vp = Ret oc \<and> po_verdict oc = ProbeValid) =
     (\<exists>status headers body. fetch (vp_url vp) = Inr (status, headers, body)
        \<and> detect status headers body = Ret None
        \<and> po_verdict (judge_page rx (vp_marker vp) status body) = ProbeValid)"
    unfolding probe_valid_exact by blast
  then show ?thesis by (simp add: judge_valid_exact conj_assoc)
qed

text \<open>
  Path segments, not substrings: an action names a login page exactly when one of its segments,
  cut at the first dot and in lower case, is one of the stems; \<open>/authors\<close> is none.
\<close>
theorem auth_segment_cases:
  "has_auth_segment ''/users/Login.php?next=1'' \<and> \<not> has_auth_segment ''/authors'' \<and> \<not> has_auth_segment []"
  by code_simp

definition plain_name :: "string \<Rightarrow> bool" where
  "plain_name s \<longleftrightarrow> s \<noteq> [] \<and> list_all (\<lambda>c. is_ascii_lowercase c \<or> is_ascii_digit c) s"

definition render_selector :: "string \<Rightarrow> string \<Rightarrow> string \<Rightarrow> bool \<Rightarrow> string" where
  "render_selector tag attr v substring = tag @ ''['' @ attr @ (if substring then ''*='' else ''='') @ v @ '']''"

lemma plain_char:
  assumes "is_ascii_lowercase c \<or> is_ascii_digit c"
  shows "\<not> is_whitespace [c]" "ascii_lower c = c" "is_ascii_alnum c" "byte c < 128"
    "c \<noteq> CHR ''['' \<and> c \<noteq> CHR '']'' \<and> c \<noteq> CHR ''*'' \<and> c \<noteq> CHR ''='' \<and> \<not> is_quote c"
  using assms
  by (auto simp: is_ascii_lowercase_def is_ascii_digit_def is_whitespace_def ascii_lower_def
      is_ascii_uppercase_def is_ascii_alnum_def is_quote_def)

lemma plain_set: "plain_name s \<Longrightarrow> c \<in> set s \<Longrightarrow> is_ascii_lowercase c \<or> is_ascii_digit c"
  by (auto simp: plain_name_def list_all_iff)

lemma plain_lower: "plain_name s \<Longrightarrow> to_ascii_lowercase s = s"
  using plain_set plain_char(2) by (auto simp: to_ascii_lowercase_def intro!: map_idI)

lemma plain_trim: "plain_name s \<Longrightarrow> str_trim s = s"
  using plain_set plain_char(1,4)
  by (intro str_trim_id) (auto simp: plain_name_def is_ascii_str_def)

lemma plain_quotes:
  assumes "plain_name s"
  shows "trim_quotes s = s"
proof -
  have "\<not> is_quote (hd s)" "\<not> is_quote (last s)"
    using assms plain_set [OF assms] plain_char(5) by (auto simp: plain_name_def)
  then show ?thesis by (simp add: trim_quotes_def dropWhile_id dropWhile_end_id)
qed

lemma find_sub_skip:
  "(\<And>c. c \<in> set a \<Longrightarrow> c \<noteq> d) \<Longrightarrow>
     find_sub (d # p) (a @ s) = map_option (\<lambda>i. i + length a) (find_sub (d # p) s)"
  by (induction a) (auto simp: starts_with_def option.map_comp comp_def option.map_ident)

lemma split_operator:
  assumes "plain_name a" and "plain_name v"
  shows "split_once_str ''*='' (a @ ''*='' @ v) = Some (a, v)"
    "split_once_str ''*='' (a @ ''='' @ v) = None"
proof -
  have a: "c \<noteq> CHR ''*''" if "c \<in> set a" for c using plain_char(5) plain_set [OF assms(1) that] by blast
  have v: "c \<noteq> CHR ''*''" if "c \<in> set v" for c using plain_char(5) plain_set [OF assms(2) that] by blast
  have none: "find_sub ''*='' v = None" using find_sub_skip [of v "CHR ''*''" "''=''" "[]"] v by simp
  show "split_once_str ''*='' (a @ ''*='' @ v) = Some (a, v)"
    using find_sub_skip [of a "CHR ''*''" "''=''" "''*='' @ v"] a
    by (simp add: split_once_str_def starts_with_def)
  show "split_once_str ''*='' (a @ ''='' @ v) = None"
    using find_sub_skip [of a "CHR ''*''" "''=''" "''='' @ v"] a none
    by (simp add: split_once_str_def starts_with_def)
qed

text \<open>
  The selector grammar is read back: a tag, an attribute and a value of lower-case letters
  and digits, rendered with either operator, parse to themselves and to the operator used.
\<close>
theorem selector_roundtrip:
  assumes "plain_name tag" and "plain_name attr" and "plain_name v"
  shows "parse_selector (render_selector tag attr v substring) = Some (tag, attr, v, substring)"
proof -
  let ?inner = "attr @ (if substring then ''*='' else ''='') @ v"
  have "CHR ''['' \<notin> set tag" using plain_char(5) plain_set [OF assms(1)] by blast
  then have 1: "split_once (CHR ''['') (render_selector tag attr v substring) = Some (tag, ?inner @ '']'')"
    using split_once_append [of "CHR ''[''" tag "?inner @ '']''"] by (simp add: render_selector_def)
  have 2: "strip_suffix (?inner @ '']'') '']'' = Some ?inner" by (simp add: strip_suffix_Some)
  have "CHR ''='' \<notin> set attr" using plain_char(5) plain_set [OF assms(2)] by blast
  then have 3: "split_once (CHR ''='') (attr @ ''='' @ v) = Some (attr, v)"
    using split_once_append [of "CHR ''=''" attr v] by simp
  have 4: "tag \<noteq> []" "attr \<noteq> []" "v \<noteq> []" using assms by (simp_all add: plain_name_def)
  have 5: "list_all is_ascii_alnum tag"
    using plain_char(3) plain_set [OF assms(1)] by (auto simp: list_all_iff)
  note simps = plain_lower [OF assms(1)] plain_lower [OF assms(2)] plain_trim [OF assms(2)]
    plain_trim [OF assms(3)] plain_quotes [OF assms(3)]
  show ?thesis
  proof (cases substring)
    case True
    then show ?thesis using 1 2 4 5 split_operator(1) [OF assms(2,3)]
      unfolding parse_selector_def by (simp add: simps)
  next
    case False
    then show ?thesis using 1 2 3 4 5 split_operator(2) [OF assms(2,3)]
      unfolding parse_selector_def by (simp add: simps)
  qed
qed

theorem selector_roundtrip_witness:
  "parse_selector ''form[action*=logout]'' = Some (''form'', ''action'', ''logout'', True)"
proof -
  have "plain_name ''form''" "plain_name ''action''" "plain_name ''logout''" by code_simp+
  from selector_roundtrip [OF this, of True] show ?thesis by (simp add: render_selector_def)
qed

end
