(* ===== verification/Manager.thy ===== *)
theory Manager
  imports Probe
begin

text \<open>
  \<open>oxibrowser-core/src/account/manager.rs\<close>: the life cycle of accounts over the registry, the
  sealed session files and the audit log. What a live session exports (its state for the scope
  and its user agent) and what a probe found are arguments; so are the outcome of the advisory
  lock (theory Account), the cipher and the clock, in the record \<open>manager_env\<close>.
\<close>

section \<open>The manager\<close>

record manager_env =
  me_lock :: "core_error + unit"
  me_now :: string
  me_rfc3339 :: "int \<Rightarrow> string option"
  me_seal :: seal_env
  me_keys :: key_provider
  me_nonce :: string

record manager =
  mg_registry :: account_registry
  mg_audit :: "audit_log option"
  mg_global :: "audit_log option"
  mg_correlation :: "string option"

definition mg_record :: "audit_event \<Rightarrow> manager \<Rightarrow> manager" where
  "mg_record event mg =
     (case mg_audit mg of
        Some lg \<Rightarrow> mg\<lparr>mg_audit := Some (snd (audit_log_record event lg))\<rparr>
      | None \<Rightarrow> mg\<lparr>mg_global := audit_record event (mg_global mg)\<rparr>)"

definition record_event :: "audit_event \<Rightarrow> manager \<Rightarrow> manager" where
  "record_event event mg =
     mg_record (if ev_ref_tag event = None then event\<lparr>ev_ref_tag := mg_correlation mg\<rparr> else event) mg"

definition emit ::
  "manager_env \<Rightarrow> audit_kind \<Rightarrow> audit_decision \<Rightarrow> string option \<Rightarrow> string \<Rightarrow> string option \<Rightarrow> manager \<Rightarrow> manager" where
  "emit env kind dec action reason orig mg =
     mg_record ((audit_event_new (me_now env) kind dec reason)
       \<lparr>ev_origin := orig, ev_action := action, ev_ref_tag := mg_correlation mg\<rparr>) mg"

definition emit_state ::
  "manager_env \<Rightarrow> string \<Rightarrow> account_state \<Rightarrow> account_state \<Rightarrow> string \<Rightarrow> manager \<Rightarrow> manager" where
  "emit_state env i from to detail mg =
     emit env AccountStateChange ADAllow (Some (state_as_str from @ ''->'' @ state_as_str to))
       (''account='' @ i @ '' '' @ detail) None mg"

definition update_record_locked ::
  "manager_env \<Rightarrow> string \<Rightarrow> (account_record \<Rightarrow> account_record) \<Rightarrow> manager
    \<Rightarrow> (core_error + account_record) \<times> manager" where
  "update_record_locked env i f mg =
     (case me_lock env of
        Inl e \<Rightarrow> (Inl e, mg)
      | Inr _ \<Rightarrow>
          (case registry_get i (mg_registry mg) of
             Inl e \<Rightarrow> (Inl e, mg)
           | Inr r \<Rightarrow>
               (case registry_save (f r) (mg_registry mg) of
                  (Inl e, rg) \<Rightarrow> (Inl e, mg\<lparr>mg_registry := rg\<rparr>)
                | (Inr _, rg) \<Rightarrow> (Inr (f r), mg\<lparr>mg_registry := rg\<rparr>))))"

definition set_state_locked ::
  "manager_env \<Rightarrow> string \<Rightarrow> account_state \<Rightarrow> string option \<Rightarrow> manager
    \<Rightarrow> (core_error + account_record) \<times> manager" where
  "set_state_locked env i to detail mg =
     (case me_lock env of
        Inl e \<Rightarrow> (Inl e, mg)
      | Inr _ \<Rightarrow>
          (case set_state i to detail (mg_registry mg) of
             (res, rg) \<Rightarrow> (res, mg\<lparr>mg_registry := rg\<rparr>)))"

text \<open>The account's session store, and writing it back.\<close>

definition sessions_of :: "string \<Rightarrow> manager \<Rightarrow> session_files" where
  "sessions_of i mg =
     (case dict_get (rg_dirs (mg_registry mg)) i of
        Some d \<Rightarrow> ad_sessions d | None \<Rightarrow> \<lparr>sf_files = [], sf_writable = True\<rparr>)"

definition set_sessions :: "string \<Rightarrow> session_files \<Rightarrow> manager \<Rightarrow> manager" where
  "set_sessions i fs mg =
     (let rg = mg_registry mg
      in case dict_get (rg_dirs rg) i of
           Some d \<Rightarrow> mg\<lparr>mg_registry := rg\<lparr>rg_dirs := dict_insert i (d\<lparr>ad_sessions := fs\<rparr>) (rg_dirs rg)\<rparr>\<rparr>
         | None \<Rightarrow> mg)"

fun expiries :: "cookie_entry list \<Rightarrow> int list" where
  "expiries [] = []"
| "expiries (c # cs) = (case ck_expiry c of Some e \<Rightarrow> e # expiries cs | None \<Rightarrow> expiries cs)"

definition earliest_expiry_rfc3339 :: "manager_env \<Rightarrow> session_envelope \<Rightarrow> string option" where
  "earliest_expiry_rfc3339 env envl =
     (case expiries (ss_cookies (se_state envl)) of
        [] \<Rightarrow> None
      | e # es \<Rightarrow> me_rfc3339 env (fold min es e))"

definition current_fingerprint :: "string \<Rightarrow> fingerprint_meta" where
  "current_fingerprint ua = fingerprint_default\<lparr>fp_user_agent := ua\<rparr>"

definition capture_session ::
  "manager_env \<Rightarrow> string \<Rightarrow> (string \<Rightarrow> storage_state) \<Rightarrow> string \<Rightarrow> manager
    \<Rightarrow> (core_error + account_record) \<times> manager" where
  "capture_session env i export_state ua mg =
     (case me_lock env of
        Inl e \<Rightarrow> (Inl e, mg)
      | Inr _ \<Rightarrow>
          (case registry_get i (mg_registry mg) of
             Inl e \<Rightarrow> (Inl e, mg)
           | Inr r \<Rightarrow>
               (let envl = envelope_new (me_now env) (ac_scope r) (current_fingerprint ua) (ac_egress r)
                             (export_state (ac_scope r))
                in case store_save (me_seal env) (me_keys env) (me_nonce env) envl (sessions_of i mg) of
                     (Inl e, fs) \<Rightarrow> (Inl e, set_sessions i fs mg)
                   | (Inr _, fs) \<Rightarrow>
                       (let mg = set_sessions i fs mg;
                            origins = map os_origin (ss_origins (se_state envl));
                            cookie_count = length (ss_cookies (se_state envl));
                            r' = r\<lparr>ac_session_summary := \<lparr>sm_updated_at = Some (me_now env),
                                     sm_cookie_count = cookie_count,
                                     sm_earliest_expiry = earliest_expiry_rfc3339 env envl,
                                     sm_origins = origins\<rparr>\<rparr>
                        in case account_transition Valid (Some ''captured'') r' of
                             Inl e \<Rightarrow> (Inl e, mg)
                           | Inr r'' \<Rightarrow>
                               (case registry_save r'' (mg_registry mg) of
                                  (Inl e, rg) \<Rightarrow> (Inl e, mg\<lparr>mg_registry := rg\<rparr>)
                                | (Inr _, rg) \<Rightarrow>
                                    (Inr r'', emit_state env i (ac_state r) (ac_state r'') ''captured''
                                       (emit env SessionCapture ADAllow (Some ''capture'')
                                          (''account='' @ i @ '' scope='' @ ac_scope r'' @ '' cookies=''
                                            @ show_uint (int cookie_count) @ '' origins='' @ show_uint (int (length origins)))
                                          (Some (ac_scope r'')) (mg\<lparr>mg_registry := rg\<rparr>)))))))) "

definition load_envelope ::
  "manager_env \<Rightarrow> string \<Rightarrow> fingerprint_meta option \<Rightarrow> manager \<Rightarrow> (core_error + session_envelope) \<times> manager" where
  "load_envelope env i current mg =
     (case registry_get i (mg_registry mg) of
        Inl e \<Rightarrow> (Inl e, mg)
      | Inr r \<Rightarrow>
          (case store_load (me_seal env) (me_keys env) (ac_scope r) current (sessions_of i mg) of
             Inr envl \<Rightarrow> (Inr envl, mg)
           | Inl (SessionFingerprintMismatch d) \<Rightarrow>
               (Inl (SessionFingerprintMismatch d),
                emit env SessionRestore ADDeny (Some ''restore'')
                  (''account='' @ i @ '' scope='' @ ac_scope r @ '' fingerprint_mismatch'') (Some (ac_scope r)) mg)
           | Inl e \<Rightarrow> (Inl e, mg)))"

text \<open>
  Injection: \<open>imported\<close> is what the session answered to \<open>import_state\<close>.
\<close>

definition inject_envelope ::
  "manager_env \<Rightarrow> string \<Rightarrow> core_error + unit \<Rightarrow> session_envelope \<Rightarrow> manager
    \<Rightarrow> (core_error + session_envelope) \<times> manager" where
  "inject_envelope env i imported envl mg =
     (case registry_get i (mg_registry mg) of
        Inl e \<Rightarrow> (Inl e, mg)
      | Inr r \<Rightarrow>
          (case imported of
             Inl e \<Rightarrow> (Inl e, mg)
           | Inr _ \<Rightarrow>
               (Inr envl,
                emit env SessionRestore ADAllow (Some ''restore'')
                  (''account='' @ i @ '' scope='' @ ac_scope r @ '' cookies=''
                    @ show_uint (int (length (ss_cookies (se_state envl)))) @ '' origins=''
                    @ show_uint (int (length (ss_origins (se_state envl))))) (Some (ac_scope r)) mg)))"

definition restore ::
  "manager_env \<Rightarrow> string \<Rightarrow> (session_envelope \<Rightarrow> core_error + unit) \<Rightarrow> fingerprint_meta option \<Rightarrow> manager
    \<Rightarrow> (core_error + session_envelope) \<times> manager" where
  "restore env i import_state current mg =
     (case load_envelope env i current mg of
        (Inl e, mg') \<Rightarrow> (Inl e, mg')
      | (Inr envl, mg') \<Rightarrow> inject_envelope env i (import_state envl) envl mg')"

definition mark_stale_inner ::
  "manager_env \<Rightarrow> string \<Rightarrow> string \<Rightarrow> manager \<Rightarrow> (core_error + account_record) \<times> manager" where
  "mark_stale_inner env i reason mg =
     (case registry_get i (mg_registry mg) of
        Inl e \<Rightarrow> (Inl e, mg)
      | Inr old \<Rightarrow>
          (case set_state i Stale (Some reason) (mg_registry mg) of
             (Inl e, rg) \<Rightarrow> (Inl e, mg\<lparr>mg_registry := rg\<rparr>)
           | (Inr r, rg) \<Rightarrow> (Inr r, emit_state env i (ac_state old) (ac_state r) reason (mg\<lparr>mg_registry := rg\<rparr>))))"

definition mark_stale ::
  "manager_env \<Rightarrow> string \<Rightarrow> string \<Rightarrow> manager \<Rightarrow> (core_error + account_record) \<times> manager" where
  "mark_stale env i detail mg =
     (case me_lock env of Inl e \<Rightarrow> (Inl e, mg) | Inr _ \<Rightarrow> mark_stale_inner env i detail mg)"

definition apply_state ::
  "manager_env \<Rightarrow> string \<Rightarrow> account_state \<Rightarrow> string \<Rightarrow> manager \<Rightarrow> (core_error + unit) \<times> manager" where
  "apply_state env i to detail mg =
     (case me_lock env of
        Inl e \<Rightarrow> (Inl e, mg)
      | Inr _ \<Rightarrow>
          (case registry_get i (mg_registry mg) of
             Inl e \<Rightarrow> (Inl e, mg)
           | Inr old \<Rightarrow>
               (case set_state i to (Some detail) (mg_registry mg) of
                  (Inl e, rg) \<Rightarrow> (Inl e, mg\<lparr>mg_registry := rg\<rparr>)
                | (Inr r, rg) \<Rightarrow>
                    (Inr (), emit_state env i (ac_state old) (ac_state r) detail (mg\<lparr>mg_registry := rg\<rparr>)))))"

fun kind_as_str :: "challenge_kind \<Rightarrow> string" where
  "kind_as_str Managed = ''managed''"
| "kind_as_str JsCheck = ''js_check''"
| "kind_as_str Interactive = ''interactive''"
| "kind_as_str Blocked = ''blocked''"
| "kind_as_str UnknownKind = ''unknown''"

definition challenge_detail :: "detected_challenge \<Rightarrow> string" where
  "challenge_detail c = ''challenge:'' @ vendor_as_str (dc_vendor c) @ '':'' @ kind_as_str (dc_kind c)"

definition apply_verdict ::
  "manager_env \<Rightarrow> string \<Rightarrow> probe_verdict \<Rightarrow> manager \<Rightarrow> (core_error + unit) \<times> manager" where
  "apply_verdict env i verdict mg =
     (case verdict of
        ProbeValid \<Rightarrow> apply_state env i Valid ''probe_ok'' mg
      | ProbeInvalid reason \<Rightarrow>
          (case mark_stale env i reason mg of (Inl e, mg') \<Rightarrow> (Inl e, mg') | (Inr _, mg') \<Rightarrow> (Inr (), mg'))
      | ProbeChallenge c \<Rightarrow> apply_state env i Challenge (challenge_detail c) mg
      | ProbeUnreachable reason \<Rightarrow> (Inr (), mg))"

text \<open>
  Verification: \<open>parse\<close> is \<open>Url::parse\<close> and \<open>run\<close> what the probe gives through the session's
  client (theory Probe), when it does not crash.
\<close>

definition verify_with_probe ::
  "manager_env \<Rightarrow> string \<Rightarrow> (session_envelope \<Rightarrow> core_error + unit) \<Rightarrow> fingerprint_meta option
    \<Rightarrow> (string \<Rightarrow> string + url) \<Rightarrow> (validation_probe \<Rightarrow> probe_outcome) \<Rightarrow> manager
    \<Rightarrow> (core_error + account_record \<times> probe_outcome) \<times> manager" where
  "verify_with_probe env i import_state current parse run mg =
     (case registry_get i (mg_registry mg) of
        Inl e \<Rightarrow> (Inl e, mg)
      | Inr r \<Rightarrow>
          (case from_record parse (ac_probe r) (ac_scope r) of
             Inl e \<Rightarrow> (Inl e, mg)
           | Inr probe \<Rightarrow>
               (case restore env i import_state current mg of
                  (Inl e, mg') \<Rightarrow> (Inl e, mg')
                | (Inr _, mg') \<Rightarrow>
                    (let outcome = run probe
                     in case apply_verdict env i (po_verdict outcome) mg' of
                       (Inl e, mg'') \<Rightarrow> (Inl e, mg'')
                     | (Inr _, mg'') \<Rightarrow>
                         (case registry_get i (mg_registry mg'') of
                            Inl e \<Rightarrow> (Inl e, mg'')
                          | Inr updated \<Rightarrow> (Inr (updated, outcome), mg''))))))"

definition logout :: "manager_env \<Rightarrow> string \<Rightarrow> manager \<Rightarrow> (core_error + account_record) \<times> manager" where
  "logout env i mg =
     (case me_lock env of
        Inl e \<Rightarrow> (Inl e, mg)
      | Inr _ \<Rightarrow>
          (case registry_get i (mg_registry mg) of
             Inl e \<Rightarrow> (Inl e, mg)
           | Inr r \<Rightarrow>
               (case store_discard (ac_scope r) (sessions_of i mg) of
                  (Inl e, fs) \<Rightarrow> (Inl e, mg)
                | (Inr discarded, fs) \<Rightarrow>
                    (let mg = set_sessions i fs mg
                     in case registry_get i (mg_registry mg) of
                          Inl e \<Rightarrow> (Inl e, mg)
                        | Inr r1 \<Rightarrow>
                            (let r2 = r1\<lparr>ac_session_summary := session_summary_default\<lparr>sm_updated_at := Some (me_now env)\<rparr>\<rparr>
                             in case account_transition NeedsLogin (Some ''logged_out'') r2 of
                                  Inl e \<Rightarrow> (Inl e, mg)
                                | Inr r3 \<Rightarrow>
                                    (case registry_save r3 (mg_registry mg) of
                                       (Inl e, rg) \<Rightarrow> (Inl e, mg\<lparr>mg_registry := rg\<rparr>)
                                     | (Inr _, rg) \<Rightarrow>
                                         (Inr r3, emit_state env i (ac_state r) (ac_state r3) ''logged_out''
                                            (emit env SessionDiscard ADAllow (Some ''logout'')
                                               (''account='' @ i @ '' scope='' @ ac_scope r @ '' discarded=''
                                                 @ (if discarded then ''true'' else ''false''))
                                               (Some (ac_scope r)) (mg\<lparr>mg_registry := rg\<rparr>)))))))))"

section \<open>Legal changes of a registry\<close>

definition record_of :: "string \<Rightarrow> account_registry \<Rightarrow> account_record option" where
  "record_of i rg =
     (case dict_get (rg_dirs rg) i of
        Some d \<Rightarrow> (case ad_record d of Some (GoodRecord r) \<Rightarrow> Some r | _ \<Rightarrow> None)
      | None \<Rightarrow> None)"

definition reg_ok :: "account_registry \<Rightarrow> bool" where
  "reg_ok rg \<longleftrightarrow> (\<forall>i r. record_of i rg = Some r \<longrightarrow> ac_account_id r = i)"

text \<open>
  A legal change keeps the records under their ids, makes none appear or vanish, keeps their
  scopes and moves each account along at most one edge of the state machine.
\<close>

definition legal :: "account_registry \<Rightarrow> account_registry \<Rightarrow> bool" where
  "legal rg rg' \<longleftrightarrow> reg_ok rg' \<and>
     (\<forall>i. case record_of i rg of
            None \<Rightarrow> record_of i rg' = None
          | Some r \<Rightarrow> (\<exists>r'. record_of i rg' = Some r' \<and> can_transition_to (ac_state r) (ac_state r')
                         \<and> ac_scope r' = ac_scope r))"

lemma can_transition_refl [simp]: "can_transition_to s s"
  by (simp add: can_transition_to_def)

lemma Revoked_terminal [simp]: "can_transition_to Revoked s \<longleftrightarrow> s = Revoked"
  by (auto simp: can_transition_to_def)

lemma legal_refl: "reg_ok rg \<Longrightarrow> legal rg rg"
  by (auto simp: legal_def split: option.splits)

lemma legal_at:
  assumes "legal rg rg'" and "record_of i rg = Some r"
  obtains r' where "record_of i rg' = Some r'" "can_transition_to (ac_state r) (ac_state r')" "ac_scope r' = ac_scope r"
proof -
  from assms(1) have "case record_of i rg of None \<Rightarrow> record_of i rg' = None
      | Some r \<Rightarrow> (\<exists>r'. record_of i rg' = Some r' \<and> can_transition_to (ac_state r) (ac_state r')
                     \<and> ac_scope r' = ac_scope r)"
    unfolding legal_def by blast
  with assms(2) that show thesis by auto
qed

lemma legal_ok: "legal rg rg' \<Longrightarrow> reg_ok rg'"
  by (simp add: legal_def)

lemma legal_cong:
  assumes "legal rg rg'" and "\<And>i. record_of i rg'' = record_of i rg'"
  shows "legal rg rg''"
  using assms(1) unfolding legal_def reg_ok_def assms(2) .

lemma legal_start:
  assumes "legal rg1 rg2" and "\<And>i. record_of i rg1 = record_of i rg"
  shows "legal rg rg2"
  using assms(1) unfolding legal_def assms(2) .

lemma registry_get_Inr: "registry_get i rg = Inr r \<Longrightarrow> record_of i rg = Some r \<and> validate_account_id i = Inr ()"
  by (auto simp: registry_get_def record_of_def result_iff split: option.splits account_file.splits)

lemma registry_save_cases:
  assumes "registry_save r rg = (res, rg')"
  shows "(\<exists>e. res = Inl e \<and> rg' = rg) \<or>
     (res = Inr () \<and> record_of j rg' = (if j = ac_account_id r then Some r else record_of j rg))"
proof (cases "validate_account_id (ac_account_id r)")
  case (Inl e)
  with assms have "res = Inl e \<and> rg' = rg" by (simp add: registry_save_def)
  then show ?thesis by blast
next
  case (Inr u)
  show ?thesis
  proof (cases "dict_get (rg_dirs rg) (ac_account_id r)")
    case None
    with assms Inr show ?thesis by (auto simp: registry_save_def)
  next
    case (Some d)
    with assms Inr show ?thesis
      by (cases "rg_writable rg") (auto simp: registry_save_def write_record_def record_of_def dict_get_insert)
  qed
qed

lemma save_legal:
  assumes ok: "reg_ok rg" and r: "record_of i rg = Some r"
    and same: "ac_account_id r' = ac_account_id r" "ac_scope r' = ac_scope r"
    and trans: "can_transition_to (ac_state r) (ac_state r')"
    and save: "registry_save r' rg = (res, rg')"
  shows "legal rg rg'"
proof -
  have i: "ac_account_id r' = i" using ok r same(1) by (simp add: reg_ok_def)
  show ?thesis
  proof (cases res)
    case (Inl e)
    with registry_save_cases [OF save] have "rg' = rg" by auto
    with ok show ?thesis by (simp add: legal_refl)
  next
    case (Inr u)
    with registry_save_cases [OF save] have "record_of j rg' = (if j = i then Some r' else record_of j rg)" for j
      unfolding i by auto
    with ok r trans same i show ?thesis
      by (auto simp: legal_def reg_ok_def split: option.splits)
  qed
qed

lemma transition_Inr:
  "account_transition to detail r = Inr r' \<Longrightarrow> ac_account_id r' = ac_account_id r \<and> ac_scope r' = ac_scope r
     \<and> ac_state r' = to \<and> can_transition_to (ac_state r) to"
  by (auto simp: account_transition_def split: if_splits)

lemma set_state_legal: "reg_ok rg \<Longrightarrow> legal rg (snd (set_state i to detail rg))"
proof (cases "registry_get i rg")
  case (Inl e)
  assume "reg_ok rg"
  with Inl show ?thesis by (simp add: set_state_def legal_refl)
next
  case (Inr r)
  assume ok: "reg_ok rg"
  show ?thesis
  proof (cases "account_transition to detail r")
    case (Inl e)
    with Inr ok show ?thesis by (simp add: set_state_def legal_refl)
  next
    case r': (Inr r')
    obtain res rg' where save: "registry_save r' rg = (res, rg')" by fastforce
    have "legal rg rg'"
      using save_legal [OF ok _ _ _ _ save] registry_get_Inr [OF Inr] transition_Inr [OF r'] by auto
    with Inr r' save show ?thesis by (cases res) (simp_all add: set_state_def)
  qed
qed

lemma mg_record_registry [simp]: "mg_registry (mg_record ev mg) = mg_registry mg"
  by (simp add: mg_record_def split: option.splits)

lemma emit_registry [simp]:
  "mg_registry (emit env k d a re orig mg) = mg_registry mg"
  "mg_registry (emit_state env i from to detail mg) = mg_registry mg"
  by (simp_all add: emit_def emit_state_def)

lemma record_of_set_sessions [simp]: "record_of j (mg_registry (set_sessions i fs mg)) = record_of j (mg_registry mg)"
  by (auto simp: set_sessions_def record_of_def Let_def dict_get_insert split: option.splits)

lemma reg_ok_set_sessions [simp]: "reg_ok (mg_registry (set_sessions i fs mg)) = reg_ok (mg_registry mg)"
  by (simp add: reg_ok_def)

lemma load_envelope_registry [simp]: "mg_registry (snd (load_envelope env i current mg)) = mg_registry mg"
  by (auto simp: load_envelope_def split: sum.splits core_error.splits)

lemma inject_envelope_registry [simp]: "mg_registry (snd (inject_envelope env i imported envl mg)) = mg_registry mg"
  by (auto simp: inject_envelope_def split: sum.splits)

lemma restore_registry [simp]: "mg_registry (snd (restore env i imp current mg)) = mg_registry mg"
proof (cases "load_envelope env i current mg")
  case (Pair res mg')
  have "mg_registry mg' = mg_registry mg" using load_envelope_registry [of env i current mg] Pair by simp
  with Pair show ?thesis by (cases res) (simp_all add: restore_def)
qed

lemma mark_stale_inner_legal:
  "reg_ok (mg_registry mg) \<Longrightarrow> legal (mg_registry mg) (mg_registry (snd (mark_stale_inner env i reason mg)))"
  using set_state_legal [of "mg_registry mg" i Stale "Some reason"]
  by (auto simp: mark_stale_inner_def legal_refl split: sum.splits prod.splits)

lemma mark_stale_legal:
  "reg_ok (mg_registry mg) \<Longrightarrow> legal (mg_registry mg) (mg_registry (snd (mark_stale env i reason mg)))"
  using mark_stale_inner_legal by (auto simp: mark_stale_def legal_refl split: sum.splits)

lemma apply_state_legal:
  "reg_ok (mg_registry mg) \<Longrightarrow> legal (mg_registry mg) (mg_registry (snd (apply_state env i to detail mg)))"
  using set_state_legal [of "mg_registry mg" i to "Some detail"]
  by (auto simp: apply_state_def legal_refl split: sum.splits prod.splits)

lemma apply_verdict_legal:
  assumes "reg_ok (mg_registry mg)"
  shows "legal (mg_registry mg) (mg_registry (snd (apply_verdict env i v mg)))"
proof (cases v)
  case (ProbeInvalid reason)
  with mark_stale_legal [OF assms, of env i reason] show ?thesis
    by (auto simp: apply_verdict_def split: prod.splits sum.splits)
qed (use assms in \<open>auto simp: apply_verdict_def legal_refl intro: apply_state_legal\<close>)

lemma set_state_locked_legal:
  "reg_ok (mg_registry mg) \<Longrightarrow> legal (mg_registry mg) (mg_registry (snd (set_state_locked env i to detail mg)))"
  using set_state_legal [of "mg_registry mg" i to detail]
  by (auto simp: set_state_locked_def legal_refl split: sum.splits prod.splits)

lemma capture_legal:
  assumes ok: "reg_ok (mg_registry mg)"
  shows "legal (mg_registry mg) (mg_registry (snd (capture_session env i ex ua mg)))"
proof (cases "me_lock env")
  case (Inl e)
  with ok show ?thesis by (simp add: capture_session_def legal_refl)
next
  case lock: (Inr u)
  show ?thesis
  proof (cases "registry_get i (mg_registry mg)")
    case (Inl e)
    with ok lock show ?thesis by (simp add: capture_session_def legal_refl)
  next
    case get: (Inr r)
    define envl where "envl = envelope_new (me_now env) (ac_scope r) (current_fingerprint ua) (ac_egress r) (ex (ac_scope r))"
    obtain sres fs where save: "store_save (me_seal env) (me_keys env) (me_nonce env) envl (sessions_of i mg) = (sres, fs)"
      by fastforce
    have sessions: "legal (mg_registry mg) (mg_registry (set_sessions i fs mg))"
      using legal_cong [OF legal_refl [OF ok]] by simp
    define r' where "r' = r\<lparr>ac_session_summary := \<lparr>sm_updated_at = Some (me_now env),
        sm_cookie_count = length (ss_cookies (se_state envl)),
        sm_earliest_expiry = earliest_expiry_rfc3339 env envl,
        sm_origins = map os_origin (ss_origins (se_state envl))\<rparr>\<rparr>"
    note def = capture_session_def [of env i ex ua mg, unfolded lock get sum.case Let_def,
        folded envl_def, unfolded save prod.case, folded r'_def]
    show ?thesis
    proof (cases sres)
      case (Inl e)
      with sessions show ?thesis unfolding def by simp
    next
      case sv: (Inr u')
      show ?thesis
      proof (cases "account_transition Valid (Some ''captured'') r'")
        case (Inl e)
        with sessions sv show ?thesis unfolding def by simp
      next
        case tr: (Inr r'')
        obtain res rg where reg: "registry_save r'' (mg_registry (set_sessions i fs mg)) = (res, rg)" by fastforce
        have "legal (mg_registry (set_sessions i fs mg)) rg"
          using ok registry_get_Inr [OF get] transition_Inr [OF tr]
          by (intro save_legal [OF _ _ _ _ _ reg, of i r]) (simp_all add: r'_def)
        then have "legal (mg_registry mg) rg" by (rule legal_start) simp
        with sv tr reg show ?thesis unfolding def by (cases res) simp_all
      qed
    qed
  qed
qed

lemma logout_legal:
  assumes ok: "reg_ok (mg_registry mg)"
  shows "legal (mg_registry mg) (mg_registry (snd (logout env i mg)))"
proof (cases "me_lock env")
  case (Inl e)
  with ok show ?thesis by (simp add: logout_def legal_refl)
next
  case lock: (Inr u)
  show ?thesis
  proof (cases "registry_get i (mg_registry mg)")
    case (Inl e)
    with ok lock show ?thesis by (simp add: logout_def legal_refl)
  next
    case get: (Inr r)
    obtain dres fs where dis: "store_discard (ac_scope r) (sessions_of i mg) = (dres, fs)" by fastforce
    let ?mg = "set_sessions i fs mg"
    have sessions: "legal (mg_registry mg) (mg_registry ?mg)"
      using legal_cong [OF legal_refl [OF ok]] by simp
    note def = logout_def [of env i mg, unfolded lock get sum.case dis prod.case Let_def]
    show ?thesis
    proof (cases dres)
      case (Inl e)
      with ok show ?thesis unfolding def by (simp add: legal_refl)
    next
      case dr: (Inr d)
      show ?thesis
      proof (cases "registry_get i (mg_registry ?mg)")
        case (Inl e)
        with sessions dr show ?thesis unfolding def by simp
      next
        case r1: (Inr r1)
        define r2 where "r2 = r1\<lparr>ac_session_summary := session_summary_default\<lparr>sm_updated_at := Some (me_now env)\<rparr>\<rparr>"
        show ?thesis
        proof (cases "account_transition NeedsLogin (Some ''logged_out'') r2")
          case (Inl e)
          with sessions dr r1 show ?thesis unfolding def r2_def by simp
        next
          case tr: (Inr r3)
          obtain res rg where reg: "registry_save r3 (mg_registry ?mg) = (res, rg)" by fastforce
          have "legal (mg_registry ?mg) rg"
            using ok registry_get_Inr [OF r1] transition_Inr [OF tr]
            by (intro save_legal [OF _ _ _ _ _ reg, of i r1]) (simp_all add: r2_def)
          then have "legal (mg_registry mg) rg" by (rule legal_start) simp
          with dr r1 tr reg show ?thesis unfolding def r2_def by (cases res) simp_all
        qed
      qed
    qed
  qed
qed

lemma verify_legal:
  assumes ok: "reg_ok (mg_registry mg)"
  shows "legal (mg_registry mg) (mg_registry (snd (verify_with_probe env i imp current parse run mg)))"
proof (cases "registry_get i (mg_registry mg)")
  case get: (Inr r)
  show ?thesis
  proof (cases "from_record parse (ac_probe r) (ac_scope r)")
    case pr: (Inr vp)
    obtain res mg' where re: "restore env i imp current mg = (res, mg')" by fastforce
    then have same: "mg_registry mg' = mg_registry mg" using restore_registry [of env i imp current mg] by simp
    show ?thesis
    proof (cases res)
      case rr: (Inr envl)
      obtain vres mg'' where ve: "apply_verdict env i (po_verdict (run vp)) mg' = (vres, mg'')" by fastforce
      have "legal (mg_registry mg) (mg_registry mg'')"
        using apply_verdict_legal [of mg' env i "po_verdict (run vp)"] ok ve same by simp
      then show ?thesis using get pr re rr ve
        by (cases vres; cases "registry_get i (mg_registry mg'')") (simp_all add: verify_with_probe_def Let_def)
    qed (use get pr re same ok in \<open>simp add: verify_with_probe_def legal_refl\<close>)
  qed (use get ok in \<open>simp add: verify_with_probe_def legal_refl\<close>)
qed (use ok in \<open>simp add: verify_with_probe_def legal_refl\<close>)

section \<open>Runs\<close>

datatype manager_event =
    MgCapture manager_env string "string \<Rightarrow> storage_state" string
  | MgRestore manager_env string "session_envelope \<Rightarrow> core_error + unit" "fingerprint_meta option"
  | MgVerify manager_env string "session_envelope \<Rightarrow> core_error + unit" "fingerprint_meta option"
      "string \<Rightarrow> string + url" "validation_probe \<Rightarrow> probe_outcome"
  | MgStale manager_env string string
  | MgSetState manager_env string account_state "string option"
  | MgLogout manager_env string

fun manager_step :: "manager_event \<Rightarrow> manager \<Rightarrow> manager" where
  "manager_step (MgCapture env i ex ua) mg = snd (capture_session env i ex ua mg)"
| "manager_step (MgRestore env i imp cur) mg = snd (restore env i imp cur mg)"
| "manager_step (MgVerify env i imp cur parse run) mg = snd (verify_with_probe env i imp cur parse run mg)"
| "manager_step (MgStale env i reason) mg = snd (mark_stale env i reason mg)"
| "manager_step (MgSetState env i to detail) mg = snd (set_state_locked env i to detail mg)"
| "manager_step (MgLogout env i) mg = snd (logout env i mg)"

lemma step_legal: "reg_ok (mg_registry mg) \<Longrightarrow> legal (mg_registry mg) (mg_registry (manager_step e mg))"
  by (cases e) (simp_all add: capture_legal verify_legal mark_stale_legal set_state_locked_legal logout_legal legal_refl)

interpretation manager_machine: inv_machine "\<lambda>mg. reg_ok (mg_registry mg)" manager_step
  by unfold_locales (use step_legal legal_ok in blast)

text \<open>An account that is revoked; runs keep it so.\<close>

definition revoked_in :: "string \<Rightarrow> manager \<Rightarrow> bool" where
  "revoked_in i mg \<longleftrightarrow> reg_ok (mg_registry mg)
     \<and> (\<exists>r. record_of i (mg_registry mg) = Some r \<and> ac_state r = Revoked)"

interpretation revoked_machine: inv_machine "revoked_in i" manager_step for i
proof
  fix mg e assume rev: "revoked_in i mg"
  then obtain r where ok: "reg_ok (mg_registry mg)" and r: "record_of i (mg_registry mg) = Some r" "ac_state r = Revoked"
    by (auto simp: revoked_in_def)
  note legal = step_legal [OF ok, of e]
  from legal_at [OF legal r(1)] r(2) obtain r' where
    "record_of i (mg_registry (manager_step e mg)) = Some r'" "ac_state r' = Revoked" by auto
  with legal_ok [OF legal] show "revoked_in i (manager_step e mg)" by (simp add: revoked_in_def)
qed

section \<open>Properties\<close>


fun verdict_state :: "probe_verdict \<Rightarrow> account_state \<Rightarrow> account_state" where
  "verdict_state ProbeValid old = Valid"
| "verdict_state (ProbeInvalid reason) old = Stale"
| "verdict_state (ProbeChallenge c) old = Challenge"
| "verdict_state (ProbeUnreachable reason) old = old"

lemma set_state_Inr:
  assumes ok: "reg_ok rg" and set: "set_state i to d rg = (Inr r', rg')"
  shows "record_of i rg' = Some r' \<and> ac_state r' = to"
proof -
  obtain r where r: "registry_get i rg = Inr r" using set by (cases "registry_get i rg") (auto simp: set_state_def)
  then obtain r2 where tr: "account_transition to d r = Inr r2"
    using set by (cases "account_transition to d r") (auto simp: set_state_def)
  obtain res rg2 where save: "registry_save r2 rg = (res, rg2)" by fastforce
  with set r tr have eq: "r2 = r'" "rg2 = rg'" "\<exists>u. res = Inr u" by (cases res; simp add: set_state_def)+
  have "ac_account_id r2 = i"
    using ok registry_get_Inr [OF r] transition_Inr [OF tr] by (simp add: reg_ok_def)
  with registry_save_cases [OF save, of i] eq transition_Inr [OF tr] show ?thesis by auto
qed

lemma apply_state_Inr:
  assumes "reg_ok (mg_registry mg)" and "apply_state env i to detail mg = (Inr u, mg')"
  shows "\<exists>r'. record_of i (mg_registry mg') = Some r' \<and> ac_state r' = to"
  using assms set_state_Inr [of "mg_registry mg" i to "Some detail"]
  by (fastforce simp: apply_state_def split: sum.splits prod.splits)

lemma mark_stale_Inr:
  assumes "reg_ok (mg_registry mg)" and "mark_stale env i reason mg = (Inr r, mg')"
  shows "\<exists>r'. record_of i (mg_registry mg') = Some r' \<and> ac_state r' = Stale"
  using assms set_state_Inr [of "mg_registry mg" i Stale "Some reason"]
  by (fastforce simp: mark_stale_def mark_stale_inner_def split: sum.splits prod.splits)

lemma apply_verdict_Inr:
  assumes ok: "reg_ok (mg_registry mg)" and r: "record_of i (mg_registry mg) = Some r"
    and app: "apply_verdict env i v mg = (Inr u, mg')"
  shows "\<exists>r'. record_of i (mg_registry mg') = Some r' \<and> ac_state r' = verdict_state v (ac_state r)"
proof (cases v)
  case (ProbeInvalid reason)
  with app obtain r2 where "mark_stale env i reason mg = (Inr r2, mg')"
    by (auto simp: apply_verdict_def split: sum.splits prod.splits)
  from mark_stale_Inr [OF ok this] ProbeInvalid show ?thesis by simp
qed (use app r apply_state_Inr [OF ok] in \<open>auto simp: apply_verdict_def\<close>)

text \<open>
  A verification that succeeds leaves the state its verdict names: valid after a proof, stale
  after a disproof, challenge when a bot-management page stood in the way, and the old state when
  the site could not be reached; the record it returns is the stored one.
\<close>
theorem verify_state_matches_verdict:
  assumes "reg_ok (mg_registry mg)" and "record_of i (mg_registry mg) = Some r"
    and "verify_with_probe env i imp current parse run mg = (Inr (updated, outcome), mg')"
  shows "record_of i (mg_registry mg') = Some updated
    \<and> ac_state updated = verdict_state (po_verdict outcome) (ac_state r)"
proof -
  obtain r0 where r0: "registry_get i (mg_registry mg) = Inr r0"
    using assms(3) by (cases "registry_get i (mg_registry mg)") (auto simp: verify_with_probe_def)
  obtain vp where vp: "from_record parse (ac_probe r0) (ac_scope r0) = Inr vp"
    using assms(3) r0 by (cases "from_record parse (ac_probe r0) (ac_scope r0)") (auto simp: verify_with_probe_def)
  obtain res mg1 where re: "restore env i imp current mg = (res, mg1)" by fastforce
  then have same: "mg_registry mg1 = mg_registry mg" using restore_registry [of env i imp current mg] by simp
  obtain envl where res: "res = Inr envl"
    using assms(3) r0 vp re by (cases res) (auto simp: verify_with_probe_def)
  obtain vres mg2 where av: "apply_verdict env i (po_verdict (run vp)) mg1 = (vres, mg2)" by fastforce
  obtain u where vres: "vres = Inr u"
    using assms(3) r0 vp re res av by (cases vres) (auto simp: verify_with_probe_def)
  obtain r2 where get2: "registry_get i (mg_registry mg2) = Inr r2"
    using assms(3) r0 vp re res av vres
    by (cases "registry_get i (mg_registry mg2)") (auto simp: verify_with_probe_def)
  have out: "updated = r2" "outcome = run vp" "mg' = mg2"
    using assms(3) r0 vp re res av vres get2 by (auto simp: verify_with_probe_def)
  have "\<exists>r'. record_of i (mg_registry mg2) = Some r' \<and> ac_state r' = verdict_state (po_verdict (run vp)) (ac_state r)"
    using apply_verdict_Inr [of mg1 i r env "po_verdict (run vp)" u mg2] same assms(1,2) av vres by simp
  with registry_get_Inr [OF get2] out show ?thesis by auto
qed

definition sample_record :: "account_state \<Rightarrow> account_record" where
  "sample_record s =
     \<lparr>ac_version = 1, ac_account_id = ''acct'', ac_scope = ''a.com'',
      ac_identity = \<lparr>ic_display_name = None, ic_login_hint = None, ic_avatar_url = None\<rparr>,
      ac_created_at = ''t'', ac_state = s, ac_state_detail = None, ac_fingerprint = fingerprint_default,
      ac_egress = EgressUnspecified, ac_credentials = [], ac_session_summary = session_summary_default,
      ac_probe = None, ac_irreversible_patterns = None\<rparr>"

definition sample_manager :: "account_state \<Rightarrow> manager" where
  "sample_manager s =
     \<lparr>mg_registry = \<lparr>rg_dirs = [(''acct'', empty_dir\<lparr>ad_record := Some (GoodRecord (sample_record s))\<rparr>)],
                     rg_writable = True\<rparr>,
      mg_audit = Some (audit_log_open ''a-1'' True), mg_global = None, mg_correlation = None\<rparr>"

definition sample_manager_env :: manager_env where
  "sample_manager_env =
     \<lparr>me_lock = Inr (), me_now = ''t'', me_rfc3339 = (\<lambda>t. Some (show_uint t)), me_seal = sample_seal,
      me_keys = (\<lambda>s. Inr (replicate 32 (CHR ''k''))), me_nonce = replicate 24 (CHR ''n'')\<rparr>"

lemma sample_manager_ok: "reg_ok (mg_registry (sample_manager s))"
  by (auto simp: reg_ok_def record_of_def sample_manager_def sample_record_def split: if_splits)


text \<open>
  Revocation is final: an account that is revoked stays revoked through every sequence of
  captures, restores, verifications, stale marks, state changes and logouts.
\<close>
theorem revoked_is_terminal:
  assumes "reg_ok (mg_registry mg)" and "record_of i (mg_registry mg) = Some r" and "ac_state r = Revoked"
  shows "\<exists>r'. record_of i (mg_registry (fold manager_step es mg)) = Some r' \<and> ac_state r' = Revoked"
  using revoked_machine.run_inv [of i mg es] assms by (auto simp: revoked_in_def)

theorem revoked_is_terminal_witness:
  "\<exists>r'. record_of ''acct'' (mg_registry (fold manager_step
        [MgLogout sample_manager_env ''acct'', MgStale sample_manager_env ''acct'' ''x''] (sample_manager Revoked))) = Some r'
    \<and> ac_state r' = Revoked"
  by (rule revoked_is_terminal [OF sample_manager_ok, where r = "sample_record Revoked"])
    (simp_all add: record_of_def sample_manager_def sample_record_def)

text \<open>
  A session is never restored under another identity: a restore that enforces a fingerprint
  returns an envelope only if it was captured under exactly that fingerprint and for the
  account's scope.
\<close>
theorem restore_fails_closed:
  assumes "restore env i import_state (Some fp) mg = (Inr envl, mg')"
    and "record_of i (mg_registry mg) = Some r"
  shows "se_fingerprint envl = fp \<and> se_scope envl = ac_scope r \<and> se_version envl = 1"
proof -
  obtain res mg1 where load: "load_envelope env i (Some fp) mg = (res, mg1)" by fastforce
  with assms(1) obtain envl' where res: "res = Inr envl'"
    by (cases res) (simp_all add: restore_def)
  with assms(1) load have "envl = envl'"
    by (auto simp: restore_def inject_envelope_def split: sum.splits)
  obtain r0 where get: "registry_get i (mg_registry mg) = Inr r0"
    using load res by (auto simp: load_envelope_def split: sum.splits)
  then have "r0 = r" using registry_get_Inr [OF get] assms(2) by simp
  then have "store_load (me_seal env) (me_keys env) (ac_scope r) (Some fp) (sessions_of i mg) = Inr envl"
    using load res get \<open>envl = envl'\<close>
    by (auto simp: load_envelope_def split: sum.splits core_error.splits)
  from store_load_Inr [OF this] show ?thesis by blast
qed

theorem restore_fails_closed_witness:
  "se_fingerprint sample_envelope = sample_fingerprint ''ua''"
proof -
  let ?mg = "set_sessions ''acct'' sample_files (sample_manager Valid)"
  have "fst (restore sample_manager_env ''acct'' (\<lambda>_. Inr ()) (Some (sample_fingerprint ''ua'')) ?mg) = Inr sample_envelope"
    by code_simp
  then have run: "restore sample_manager_env ''acct'' (\<lambda>_. Inr ()) (Some (sample_fingerprint ''ua'')) ?mg
      = (Inr sample_envelope, snd (restore sample_manager_env ''acct'' (\<lambda>_. Inr ()) (Some (sample_fingerprint ''ua'')) ?mg))"
    by (metis prod.collapse)
  have "record_of ''acct'' (mg_registry ?mg) = Some (sample_record Valid)"
    by simp (simp add: record_of_def sample_manager_def)
  from restore_fails_closed [OF run this] show ?thesis by simp
qed

text \<open>
  A capture for a revoked account is refused too late: the account keeps its state and the
  call fails, but the envelope has already been sealed into the account's store and stays there.
\<close>
theorem revoked_capture_leaves_envelope:
  "case capture_session sample_manager_env ''acct'' (\<lambda>_. \<lparr>ss_cookies = [], ss_origins = []\<rparr>) ''ua'' (sample_manager Revoked) of
     (res, mg') \<Rightarrow>
       (case res of Inl (SessionError e) \<Rightarrow> True | _ \<Rightarrow> False)
       \<and> sf_files (sessions_of ''acct'' (sample_manager Revoked)) = []
       \<and> map fst (sf_files (sessions_of ''acct'' mg')) = [''a.com'']"
  by code_simp

definition sample_outcome :: "probe_verdict \<Rightarrow> probe_outcome" where
  "sample_outcome v = \<lparr>po_verdict = v, po_http_status = Some 200, po_marker_found = None, po_login_form = None\<rparr>"

theorem verify_state_matches_verdict_witness:
  "map_option ac_state (record_of ''acct'' (mg_registry (snd (verify_with_probe sample_manager_env ''acct'' (\<lambda>_. Inr ()) None
      (\<lambda>_. Inr (sample_url ''https'' ''a.com'' ''/'' 443)) (\<lambda>_. sample_outcome (ProbeInvalid ''login_form''))
      (set_sessions ''acct'' sample_files (sample_manager Valid)))))) = Some Stale"
proof -
  let ?mg = "set_sessions ''acct'' sample_files (sample_manager Valid)"
  let ?run = "verify_with_probe sample_manager_env ''acct'' (\<lambda>_. Inr ()) None
      (\<lambda>_. Inr (sample_url ''https'' ''a.com'' ''/'' 443)) (\<lambda>_. sample_outcome (ProbeInvalid ''login_form'')) ?mg"
  let ?r = "(sample_record Valid)\<lparr>ac_state := Stale, ac_state_detail := Some ''login_form''\<rparr>"
  have ok: "reg_ok (mg_registry ?mg)" using sample_manager_ok by simp
  have rec: "record_of ''acct'' (mg_registry ?mg) = Some (sample_record Valid)"
    by simp (simp add: record_of_def sample_manager_def)
  have "fst ?run = Inr (?r, sample_outcome (ProbeInvalid ''login_form''))" by code_simp
  then have run: "?run = (Inr (?r, sample_outcome (ProbeInvalid ''login_form'')), snd ?run)"
    by (metis prod.collapse)
  from verify_state_matches_verdict [OF ok rec run] show ?thesis by (simp add: sample_outcome_def)
qed

end
