(* ===== verification/Detector.thy ===== *)
theory Detector
  imports Account
begin

text \<open>
  \<open>oxibrowser-core/src/account/detector.rs\<close>: the evidence for a successful login and its
  verdict. The regular expressions over the page's HTML belong to the crate \<open>regex\<close> and are
  arguments (record \<open>dom_regex\<close>). The sum of the weights is a \<open>u32\<close>: with overflow
  checks it panics when it leaves 32 bits, without them it wraps.
\<close>

section \<open>Evidence\<close>

definition weight_high :: int where "weight_high = 4"
definition weight_medium :: int where "weight_medium = 2"
definition score_threshold :: int where "score_threshold = 6"
definition u32_max :: int where "u32_max = 4294967295"

datatype signal_kind =
    SessionCookie string
  | NavigationAway string string
  | DomMarker string
  | LocalStorageToken string
  | Explicit

fun signal_as_str :: "signal_kind \<Rightarrow> string" where
  "signal_as_str (SessionCookie n) = ''cookie''"
| "signal_as_str (NavigationAway f t) = ''navigation''"
| "signal_as_str (DomMarker m) = ''dom''"
| "signal_as_str (LocalStorageToken k) = ''storage''"
| "signal_as_str Explicit = ''explicit''"

record signal =
  sg_kind :: signal_kind
  sg_weight :: int

record detection =
  dt_logged_in :: bool
  dt_score :: int
  dt_signals :: "signal list"

record detection_input =
  di_cookies :: "cookie_entry list"
  di_baseline_cookie_keys :: "string list"
  di_current_path :: "string option"
  di_history_paths :: "string list"
  di_dom_html :: "string option"
  di_local_storage_keys :: "string list"
  di_baseline_storage_keys :: "string list"
  di_explicit_success :: bool

record dom_regex =
  rx_meta_user_login :: "string \<Rightarrow> bool"
  rx_logout_form :: "string \<Rightarrow> bool"
  rx_avatar :: "string \<Rightarrow> bool"

definition cookie_key :: "cookie_entry \<Rightarrow> string" where
  "cookie_key c =
     (case ck_domain c of Some d \<Rightarrow> d | None \<Rightarrow> []) @ ''|'' @ ck_name c @ ''|''
     @ (case ck_path c of Some p \<Rightarrow> p | None \<Rightarrow> [])"

definition in_scope_cookies :: "web_env \<Rightarrow> cookie_entry list \<Rightarrow> string \<Rightarrow> cookie_entry list" where
  "in_scope_cookies env cookies scope =
     filter (\<lambda>c. case ck_domain c of
               Some d \<Rightarrow> registrable_domain env (trim_start_char (CHR ''.'') d) = scope
             | None \<Rightarrow> False) cookies"

definition is_session_cookie_name :: "string \<Rightarrow> bool" where
  "is_session_cookie_name name =
     (let n = to_ascii_lowercase name
      in starts_with n ''__host-'' \<or> starts_with n ''__secure-'' \<or> contains_str n ''session''
         \<or> contains_str n ''logged_in'' \<or> contains_str n ''logintoken'' \<or> contains_str n ''remember''
         \<or> contains_str n ''auth'' \<or> contains_str n ''token'' \<or> contains_str n ''sid'')"

definition is_auth_path :: "string \<Rightarrow> bool" where
  "is_auth_path path \<longleftrightarrow>
     (\<exists>seg \<in> set (split_by (\<lambda>c. c = CHR ''/'' \<or> c = CHR ''?'' \<or> c = CHR ''#'') path).
        to_ascii_lowercase seg \<in>
          {''login'', ''signin'', ''sign-in'', ''sign_in'', ''session'', ''auth'', ''authenticate''})"

definition is_tokenish_storage_key :: "string \<Rightarrow> bool" where
  "is_tokenish_storage_key key =
     (let k = to_ascii_lowercase key
      in contains_str k ''token'' \<or> contains_str k ''jwt'' \<or> contains_str k ''auth''
         \<or> contains_str k ''session'' \<or> contains_str k ''oidc'')"

definition dom_login_markers :: "dom_regex \<Rightarrow> string \<Rightarrow> string list" where
  "dom_login_markers rx html =
     (if rx_meta_user_login rx html then [''meta[name=user-login]''] else [])
     @ (if rx_logout_form rx html then [''form[action*=logout]''] else [])
     @ (if rx_avatar rx html then [''avatar''] else [])"

section \<open>The verdict\<close>

definition explicit_signals :: "detection_input \<Rightarrow> signal list" where
  "explicit_signals di =
     (if di_explicit_success di then [\<lparr>sg_kind = Explicit, sg_weight = u32_max\<rparr>] else [])"

fun cookie_signals :: "string list \<Rightarrow> cookie_entry list \<Rightarrow> signal list" where
  "cookie_signals baseline [] = []"
| "cookie_signals baseline (c # cs) =
     (if cookie_key c \<in> set baseline then cookie_signals baseline cs
      else if ck_http_only c \<and> ck_secure c \<and> is_session_cookie_name (ck_name c)
      then \<lparr>sg_kind = SessionCookie (ck_name c), sg_weight = weight_high\<rparr> # cookie_signals baseline cs
      else cookie_signals baseline cs)"

definition navigation_signals :: "detection_input \<Rightarrow> signal list" where
  "navigation_signals di =
     (case di_current_path di of
        None \<Rightarrow> []
      | Some to \<Rightarrow>
          (case find (\<lambda>p. is_auth_path p \<and> p \<noteq> to) (di_history_paths di) of
             None \<Rightarrow> []
           | Some from \<Rightarrow>
               if \<not> is_auth_path to then [\<lparr>sg_kind = NavigationAway from to, sg_weight = weight_medium\<rparr>] else []))"

definition dom_signals :: "dom_regex \<Rightarrow> detection_input \<Rightarrow> signal list" where
  "dom_signals rx di =
     (case di_dom_html di of
        None \<Rightarrow> []
      | Some html \<Rightarrow> map (\<lambda>m. \<lparr>sg_kind = DomMarker m, sg_weight = weight_medium\<rparr>) (dom_login_markers rx html))"

fun storage_signals :: "string list \<Rightarrow> string list \<Rightarrow> signal list" where
  "storage_signals baseline [] = []"
| "storage_signals baseline (k # ks) =
     (if k \<in> set baseline then storage_signals baseline ks
      else if is_tokenish_storage_key k
      then \<lparr>sg_kind = LocalStorageToken k, sg_weight = weight_medium\<rparr> # storage_signals baseline ks
      else storage_signals baseline ks)"

definition signals_of :: "web_env \<Rightarrow> dom_regex \<Rightarrow> string \<Rightarrow> detection_input \<Rightarrow> signal list" where
  "signals_of env rx scope di =
     explicit_signals di
     @ cookie_signals (di_baseline_cookie_keys di) (in_scope_cookies env (di_cookies di) scope)
     @ navigation_signals di @ dom_signals rx di
     @ storage_signals (di_baseline_storage_keys di) (di_local_storage_keys di)"

fun sum_u32 :: "bool \<Rightarrow> int \<Rightarrow> int list \<Rightarrow> int run" where
  "sum_u32 checked acc [] = Ret acc"
| "sum_u32 checked acc (w # ws) =
     (if acc + w \<le> u32_max then sum_u32 checked (acc + w) ws
      else if checked then Panic
      else sum_u32 checked ((acc + w) mod 2 ^ 32) ws)"

definition assess_input :: "bool \<Rightarrow> web_env \<Rightarrow> dom_regex \<Rightarrow> string \<Rightarrow> detection_input \<Rightarrow> detection run" where
  "assess_input checked env rx scope di =
     (let signals = signals_of env rx scope di;
          explicit = (\<exists>s \<in> set signals. sg_kind s = Explicit);
          has_high = (\<exists>s \<in> set signals. sg_weight s = weight_high)
      in run_bind (sum_u32 checked 0 (map sg_weight signals)) (\<lambda>score.
           Ret \<lparr>dt_logged_in = (explicit \<or> (has_high \<and> score \<ge> score_threshold)),
                dt_score = score, dt_signals = signals\<rparr>))"

section \<open>Lemmas\<close>

lemma cookie_signals_iff:
  "s \<in> set (cookie_signals baseline cs) \<longleftrightarrow>
     (\<exists>c \<in> set cs. cookie_key c \<notin> set baseline \<and> ck_http_only c \<and> ck_secure c
        \<and> is_session_cookie_name (ck_name c)
        \<and> s = \<lparr>sg_kind = SessionCookie (ck_name c), sg_weight = weight_high\<rparr>)"
  by (induction baseline cs rule: cookie_signals.induct) auto

lemma storage_signals_weight: "s \<in> set (storage_signals b ks) \<Longrightarrow> sg_weight s = weight_medium \<and> sg_kind s \<noteq> Explicit"
  by (induction b ks rule: storage_signals.induct) (auto split: if_splits)

lemma navigation_signals_weight: "s \<in> set (navigation_signals di) \<Longrightarrow> sg_weight s = weight_medium \<and> sg_kind s \<noteq> Explicit"
  by (auto simp: navigation_signals_def split: option.splits if_splits)

lemma dom_signals_weight: "s \<in> set (dom_signals rx di) \<Longrightarrow> sg_weight s = weight_medium \<and> sg_kind s \<noteq> Explicit"
  by (auto simp: dom_signals_def split: option.splits)

lemmas medium_weights = storage_signals_weight navigation_signals_weight dom_signals_weight

lemma high_signal:
  "(\<exists>s \<in> set (signals_of env rx scope di). sg_weight s = weight_high) \<longleftrightarrow>
     cookie_signals (di_baseline_cookie_keys di) (in_scope_cookies env (di_cookies di) scope) \<noteq> []"
proof
  assume "\<exists>s \<in> set (signals_of env rx scope di). sg_weight s = weight_high"
  then obtain s where s: "s \<in> set (signals_of env rx scope di)" "sg_weight s = weight_high" ..
  have "s \<notin> set (explicit_signals di)" using s(2) by (auto simp: explicit_signals_def u32_max_def weight_high_def split: if_splits)
  then show "cookie_signals (di_baseline_cookie_keys di) (in_scope_cookies env (di_cookies di) scope) \<noteq> []"
    using s medium_weights by (fastforce simp: signals_of_def weight_high_def weight_medium_def)
next
  assume "cookie_signals (di_baseline_cookie_keys di) (in_scope_cookies env (di_cookies di) scope) \<noteq> []"
  then obtain s where "s \<in> set (cookie_signals (di_baseline_cookie_keys di) (in_scope_cookies env (di_cookies di) scope))"
    by (meson list.set_sel(1))
  moreover from this have "sg_weight s = weight_high" by (auto simp: cookie_signals_iff)
  ultimately show "\<exists>s \<in> set (signals_of env rx scope di). sg_weight s = weight_high"
    unfolding signals_of_def by auto
qed

lemma explicit_signal: "(\<exists>s \<in> set (signals_of env rx scope di). sg_kind s = Explicit) \<longleftrightarrow> di_explicit_success di"
  using medium_weights by (fastforce simp: signals_of_def explicit_signals_def cookie_signals_iff split: if_splits)

lemma sum_u32_exact:
  "acc + sum_list ws \<le> u32_max \<Longrightarrow> \<forall>w \<in> set ws. 0 \<le> w \<Longrightarrow> sum_u32 checked acc ws = Ret (acc + sum_list ws)"
proof (induction checked acc ws rule: sum_u32.induct)
  case (2 checked acc w ws)
  have "0 \<le> sum_list ws" using 2(4) by (intro sum_list_nonneg) auto
  then have "acc + w \<le> u32_max" using 2(3) by simp
  with 2 show ?case by (simp add: add.assoc)
qed simp

lemma sum_u32_Ret: "sum_u32 True acc ws = Ret n \<Longrightarrow> n = acc + sum_list ws"
  by (induction True acc ws rule: sum_u32.induct) (auto split: if_splits)

lemma non_explicit_weight:
  "\<not> di_explicit_success di \<Longrightarrow> s \<in> set (signals_of env rx scope di) \<Longrightarrow> 0 \<le> sg_weight s \<and> sg_weight s \<le> weight_high"
  using medium_weights
  by (fastforce simp: signals_of_def explicit_signals_def cookie_signals_iff weight_high_def weight_medium_def)

lemma assess_Ret:
  assumes "assess_input checked env rx scope di = Ret d"
  shows "sum_u32 checked 0 (map sg_weight (signals_of env rx scope di)) = Ret (dt_score d)"
    and "dt_signals d = signals_of env rx scope di"
    and "dt_logged_in d \<longleftrightarrow> di_explicit_success di
           \<or> (cookie_signals (di_baseline_cookie_keys di) (in_scope_cookies env (di_cookies di) scope) \<noteq> []
               \<and> dt_score d \<ge> score_threshold)"
  using assms by (auto simp: assess_input_def Let_def result_iff explicit_signal high_signal)

section \<open>Properties\<close>

text \<open>
  Page text alone never proves a login: unless the user or host declares success, a verdict
  of logged in rests on a cookie in the account's scope that the baseline did not have, with
  HttpOnly and Secure and a session-like name, and on at least one more signal.
\<close>
theorem login_needs_new_session_cookie:
  assumes "assess_input checked env rx scope di = Ret d" and "dt_logged_in d" and "\<not> di_explicit_success di"
  shows "(\<exists>c \<in> set (in_scope_cookies env (di_cookies di) scope).
      cookie_key c \<notin> set (di_baseline_cookie_keys di) \<and> ck_http_only c \<and> ck_secure c
      \<and> is_session_cookie_name (ck_name c))
    \<and> 2 \<le> length (dt_signals d)"
proof -
  note res = assess_Ret [OF assms(1)]
  let ?sigs = "signals_of env rx scope di"
  have cookies: "cookie_signals (di_baseline_cookie_keys di) (in_scope_cookies env (di_cookies di) scope) \<noteq> []"
    and score: "dt_score d \<ge> 6"
    using res(3) assms(2,3) by (auto simp: score_threshold_def)
  have "2 \<le> length ?sigs"
  proof (rule ccontr)
    assume "\<not> 2 \<le> length ?sigs"
    then consider "?sigs = []" | s where "?sigs = [s]"
      by (cases ?sigs; cases "tl ?sigs") auto
    then show False
    proof cases
      case 1
      with res(1) score show False by simp
    next
      case (2 s)
      then have "0 \<le> sg_weight s \<and> sg_weight s \<le> 4"
        using non_explicit_weight [OF assms(3), of s env rx scope] by (simp add: weight_high_def)
      with 2 res(1) score show False by (simp add: u32_max_def)
    qed
  qed
  moreover obtain s where "s \<in> set (cookie_signals (di_baseline_cookie_keys di) (in_scope_cookies env (di_cookies di) scope))"
    using cookies by (meson list.set_sel(1))
  ultimately show ?thesis using res(2) by (auto simp: cookie_signals_iff)
qed

definition sample_cookie :: "string \<Rightarrow> cookie_entry" where
  "sample_cookie n = (bare_entry n ''v'')\<lparr>ck_domain := Some ''example.com'', ck_path := Some ''/'',
     ck_secure := True, ck_http_only := True\<rparr>"

definition sample_input :: "cookie_entry list \<Rightarrow> bool \<Rightarrow> detection_input" where
  "sample_input cs explicit =
     \<lparr>di_cookies = cs, di_baseline_cookie_keys = [], di_current_path = Some ''/home'',
      di_history_paths = [''/login''], di_dom_html = None, di_local_storage_keys = [],
      di_baseline_storage_keys = [], di_explicit_success = explicit\<rparr>"

definition sample_regex :: dom_regex where
  "sample_regex = \<lparr>rx_meta_user_login = (\<lambda>h. False), rx_logout_form = (\<lambda>h. False), rx_avatar = (\<lambda>h. False)\<rparr>"

theorem login_needs_new_session_cookie_witness:
  "\<exists>d. assess_input True sample_env sample_regex ''example.com'' (sample_input [sample_cookie ''sid''] False) = Ret d
     \<and> 2 \<le> length (dt_signals d)"
proof -
  let ?run = "assess_input True sample_env sample_regex ''example.com'' (sample_input [sample_cookie ''sid''] False)"
  have "case ?run of Panic \<Rightarrow> False | Ret d \<Rightarrow> dt_logged_in d" by code_simp
  then obtain d where d: "?run = Ret d" "dt_logged_in d" by (cases ?run) auto
  have "\<not> di_explicit_success (sample_input [sample_cookie ''sid''] False)" by (simp add: sample_input_def)
  from login_needs_new_session_cookie [OF d this] d(1) show ?thesis by blast
qed

text \<open>
  A declared success with any other evidence overflows: the explicit signal already weighs
  the largest \<open>u32\<close>, so the sum with one more signal leaves 32 bits; the judgement panics under
  overflow checks, and without them the score wraps to a small number.
\<close>
theorem explicit_success_overflows:
  assumes "di_explicit_success di" and "2 \<le> length (signals_of env rx scope di)"
  shows "assess_input True env rx scope di = Panic"
proof (rule ccontr)
  assume "assess_input True env rx scope di \<noteq> Panic"
  then obtain d where d: "assess_input True env rx scope di = Ret d"
    by (cases "assess_input True env rx scope di") auto
  define rest where "rest = cookie_signals (di_baseline_cookie_keys di) (in_scope_cookies env (di_cookies di) scope)
     @ navigation_signals di @ dom_signals rx di
     @ storage_signals (di_baseline_storage_keys di) (di_local_storage_keys di)"
  have sigs: "signals_of env rx scope di = \<lparr>sg_kind = Explicit, sg_weight = u32_max\<rparr> # rest"
    using assms(1) by (simp add: signals_of_def explicit_signals_def rest_def)
  obtain s more where rest: "rest = s # more" using assms(2) sigs by (cases rest) auto
  have "s \<in> set rest" using rest by simp
  then have "2 \<le> sg_weight s"
    unfolding rest_def using medium_weights by (fastforce simp: cookie_signals_iff weight_high_def weight_medium_def)
  then have "sum_u32 True 0 (map sg_weight (signals_of env rx scope di)) = Panic"
    unfolding sigs rest by (simp add: u32_max_def)
  with assess_Ret(1) [OF d] show False by simp
qed

theorem explicit_success_overflows_witness:
  "assess_input True sample_env sample_regex ''example.com'' (sample_input [sample_cookie ''sid''] True) = Panic"
  by (rule explicit_success_overflows) code_simp+

text \<open>
  Two new session cookies are enough: without navigation, page or storage evidence, a pair
  of new HttpOnly and Secure cookies with session-like names reaches the threshold, although
  cookies alone are documented never to confirm a login.
\<close>
theorem two_cookies_confirm:
  "case assess_input True sample_env sample_regex ''example.com''
     ((sample_input [sample_cookie ''sid'', sample_cookie ''token''] False)\<lparr>di_history_paths := []\<rparr>) of
     Panic \<Rightarrow> False
   | Ret d \<Rightarrow> dt_logged_in d \<and> list_all (\<lambda>s. case sg_kind s of SessionCookie n \<Rightarrow> True | _ \<Rightarrow> False) (dt_signals d)"
  by code_simp

end
