(* ===== verification/Client.thy ===== *)
theory Client
  imports Cookie Cors Auth ChallengeDetect Intercept CoreError
begin

text \<open>
  \<open>oxibrowser-core/src/network/client.rs\<close>: the HTTP client of a browsing context, which puts the
  SSRF filter, the cookie jar, CORS, HTTP authentication and challenge detection around one
  network library.

  The library (\<open>wreq\<close>) is an argument, \<open>cv_net\<close>: for the requests sent so far and the next one it
  gives the hops it made, each with the Set-Cookie values of its answer (it follows redirects and
  feeds every answer to the cookie provider), and the final response or an error. Header values
  are bytes; \<open>cv_to_str\<close> is \<open>HeaderValue::to_str\<close>. Name resolution, URL parsing and the checks of
  header and method syntax are arguments too.

  An operation of the client maps a client to the client after it and a result; it may panic
  (type \<open>run\<close>). \<open>act_bind\<close> is the sequencing of the code's \<open>?\<close>.
\<close>

section \<open>Requests and responses\<close>

record wire_request =
  wr_method :: string
  wr_url :: url
  wr_headers :: "header list"
  wr_body :: "string option"

record http_response =
  rs_status :: int
  rs_headers :: "header list"
  rs_chunks :: "(string + string) list" \<comment> \<open>the body stream: chunks, or a transport error\<close>
  rs_uri :: string

record exchange =
  ex_hops :: "(string \<times> string list) list"
  ex_result :: "string + http_response"

record request_overrides =
  ro_user_agent :: "string option"
  ro_extra_headers :: "header list"

record client_env =
  cv_web :: web_env
  cv_parse :: url_parser
  cv_dns :: "string \<Rightarrow> ip_addr list option"
  cv_to_str :: "string \<Rightarrow> string option"
  cv_header_ok :: "string \<Rightarrow> string \<Rightarrow> bool"
  cv_method_err :: "string \<Rightarrow> string option"
  cv_crypto :: crypto
  cv_net :: "wire_request list \<Rightarrow> wire_request \<Rightarrow> exchange"

record client =
  hc_jar :: jar
  hc_filter :: ip_filter
  hc_username :: "string option"
  hc_password :: "string option"
  hc_max_body :: nat
  hc_counter :: int \<comment> \<open>the process-wide client nonce\<close>
  hc_sent :: "wire_request list" \<comment> \<open>every request handed to the network, in order\<close>

type_synonym 'a act = "client \<Rightarrow> (client \<times> (core_error + 'a)) run"

definition act_ret :: "'a \<Rightarrow> 'a act" where
  "act_ret x = (\<lambda>hc. Ret (hc, Inr x))"

definition act_err :: "core_error \<Rightarrow> 'a act" where
  "act_err e = (\<lambda>hc. Ret (hc, Inl e))"

definition act_bind :: "'a act \<Rightarrow> ('a \<Rightarrow> 'b act) \<Rightarrow> 'b act" where
  "act_bind m f = (\<lambda>hc. run_bind (m hc) (\<lambda>(hc', r). case r of Inl e \<Rightarrow> Ret (hc', Inl e) | Inr x \<Rightarrow> f x hc'))"

section \<open>The SSRF gate\<close>

definition check_url_ssrf :: "client_env \<Rightarrow> url \<Rightarrow> ip_filter \<Rightarrow> bool" where
  "check_url_ssrf env u f =
     (if url_scheme u \<noteq> ''http'' \<and> url_scheme u \<noteq> ''https'' then True
      else case url_host_str u of
             Some host \<Rightarrow> is_hostname_allowed f (cv_dns env) host
           | None \<Rightarrow> True)"

definition check_ssrf :: "client_env \<Rightarrow> url \<Rightarrow> unit act" where
  "check_ssrf env u = (\<lambda>hc.
     if \<not> check_url_ssrf env u (hc_filter hc)
     then (case url_host_str u of
             Some host \<Rightarrow>
               Ret (hc, Inl (NetworkError (''SSRF blocked: hostname '' @ host @ '' resolves to a blocked IP address'')))
           | None \<Rightarrow> Ret (hc, Inr ()))
     else Ret (hc, Inr ()))"

text \<open>The redirect policy given to the library: whether a hop to \<open>uri\<close> is followed.\<close>

definition redirect_follows :: "client_env \<Rightarrow> ip_filter \<Rightarrow> string \<Rightarrow> bool" where
  "redirect_follows env f uri =
     (case cv_parse env uri of
        None \<Rightarrow> False
      | Some u \<Rightarrow> check_url_ssrf env u f)"

section \<open>Headers\<close>

definition is_transport_managed_header :: "string \<Rightarrow> bool" where
  "is_transport_managed_header name \<longleftrightarrow> to_ascii_lowercase name \<in> {''cookie'', ''host'', ''content-length''}"

fun extra_headers :: "bool \<Rightarrow> header list \<Rightarrow> header list" where
  "extra_headers ua [] = []"
| "extra_headers ua ((name, v) # hs) =
     (if is_transport_managed_header name then extra_headers ua hs
      else if ua \<and> eq_ignore_ascii_case name ''user-agent'' then extra_headers ua hs
      else (name, v) # extra_headers ua hs)"

definition apply_request_overrides :: "request_overrides option \<Rightarrow> header list \<Rightarrow> header list" where
  "apply_request_overrides ov hs =
     (case ov of
        None \<Rightarrow> hs
      | Some ro \<Rightarrow>
          hs @ (case ro_user_agent ro of Some ua \<Rightarrow> [(''User-Agent'', ua)] | None \<Rightarrow> [])
             @ extra_headers (ro_user_agent ro \<noteq> None) (ro_extra_headers ro))"

definition header_values :: "header list \<Rightarrow> string \<Rightarrow> string list" where
  "header_values hs name = map snd (filter (\<lambda>(k, v). eq_ignore_ascii_case k name) hs)"

definition header_str :: "client_env \<Rightarrow> http_response \<Rightarrow> string \<Rightarrow> string option" where
  "header_str env resp name =
     (case header_values (rs_headers resp) name of
        [] \<Rightarrow> None
      | v # _ \<Rightarrow> cv_to_str env v)"

definition response_headers :: "client_env \<Rightarrow> http_response \<Rightarrow> header list" where
  "response_headers env resp =
     map (\<lambda>(k, v). (k, case cv_to_str env v of Some s \<Rightarrow> s | None \<Rightarrow> [])) (rs_headers resp)"

definition mime_without_params :: "string \<Rightarrow> string" where
  "mime_without_params content_type = str_trim (hd (split_on (CHR '';'') content_type))"

section \<open>Cookies\<close>

fun store_all :: "client_env \<Rightarrow> url \<Rightarrow> string list \<Rightarrow> jar \<Rightarrow> jar run" where
  "store_all env u [] j = Ret j"
| "store_all env u (v # vs) j =
     (case cv_to_str env v of
        Some s \<Rightarrow> run_bind (store_cookie (cv_web env) u s j) (store_all env u vs)
      | None \<Rightarrow> store_all env u vs j)"

definition provider_set_cookies :: "client_env \<Rightarrow> string \<Rightarrow> string list \<Rightarrow> jar \<Rightarrow> jar run" where
  "provider_set_cookies env uri vals j =
     (case cv_parse env uri of None \<Rightarrow> Ret j | Some u \<Rightarrow> store_all env u vals j)"

definition provider_cookies :: "client_env \<Rightarrow> string \<Rightarrow> jar \<Rightarrow> string option" where
  "provider_cookies env uri j =
     (case cv_parse env uri of
        None \<Rightarrow> None
      | Some u \<Rightarrow>
          (let h = cookies_for_url (cv_web env) j u
           in if h = [] then None
              else if cv_header_ok env ''cookie'' h then Some h else None))"

definition store_response_cookies :: "client_env \<Rightarrow> url \<Rightarrow> http_response \<Rightarrow> unit act" where
  "store_response_cookies env u resp = (\<lambda>hc.
     run_bind (store_all env u (header_values (rs_headers resp) ''set-cookie'') (hc_jar hc))
       (\<lambda>j. Ret (hc\<lparr>hc_jar := j\<rparr>, Inr ())))"

section \<open>Sending\<close>

fun feed_hops :: "client_env \<Rightarrow> (string \<times> string list) list \<Rightarrow> jar \<Rightarrow> jar run" where
  "feed_hops env [] j = Ret j"
| "feed_hops env ((uri, vals) # hops) j =
     run_bind (provider_set_cookies env uri vals j) (feed_hops env hops)"

definition send :: "client_env \<Rightarrow> wire_request \<Rightarrow> http_response act" where
  "send env req = (\<lambda>hc.
     let ex = cv_net env (hc_sent hc) req
     in run_bind (feed_hops env (ex_hops ex) (hc_jar hc)) (\<lambda>j.
          Ret (hc\<lparr>hc_jar := j, hc_sent := hc_sent hc @ [req]\<rparr>, map_err NetworkError (ex_result ex))))"

definition send_and_store :: "client_env \<Rightarrow> url \<Rightarrow> wire_request \<Rightarrow> http_response act" where
  "send_and_store env u req =
     act_bind (send env req) (\<lambda>resp. act_bind (store_response_cookies env u resp) (\<lambda>_. act_ret resp))"

definition fetch_with_overrides :: "client_env \<Rightarrow> url \<Rightarrow> request_overrides option \<Rightarrow> http_response act" where
  "fetch_with_overrides env u ov =
     act_bind (check_ssrf env u) (\<lambda>_.
       send_and_store env u
         \<lparr>wr_method = ''GET'', wr_url = u, wr_headers = apply_request_overrides ov [], wr_body = None\<rparr>)"

definition request_with_overrides ::
  "client_env \<Rightarrow> url \<Rightarrow> string \<Rightarrow> header list \<Rightarrow> string option \<Rightarrow> request_overrides option \<Rightarrow> http_response act" where
  "request_with_overrides env u meth headers body ov =
     act_bind (check_ssrf env u) (\<lambda>_.
       let method_upper = to_ascii_uppercase (str_trim meth)
       in case cv_method_err env method_upper of
            Some e \<Rightarrow> act_err (NetworkError (''invalid method '' @ [CHR 0x22] @ meth @ [CHR 0x22] @ '': '' @ e))
          | None \<Rightarrow>
              send_and_store env u
                \<lparr>wr_method = method_upper, wr_url = u,
                 wr_headers = apply_request_overrides ov (filter (\<lambda>(k, v). cv_header_ok env k v) headers),
                 wr_body = body\<rparr>)"

definition authorize_again :: "client_env \<Rightarrow> http_response \<Rightarrow> string \<Rightarrow> url \<Rightarrow> string option act" where
  "authorize_again env resp meth u = (\<lambda>hc.
     case (header_str env resp ''www-authenticate'', hc_username hc) of
       (Some c, Some user) \<Rightarrow>
         (let pass = (case hc_password hc of Some p \<Rightarrow> p | None \<Rightarrow> []);
              (a, counter) = build_authorization (cv_crypto env) c meth (url_path u) user pass (hc_counter hc)
          in Ret (hc\<lparr>hc_counter := counter\<rparr>, Inr a))
     | _ \<Rightarrow> Ret (hc, Inr None))"

definition request_with_auth_with_overrides ::
  "client_env \<Rightarrow> url \<Rightarrow> string \<Rightarrow> header list \<Rightarrow> string option \<Rightarrow> request_overrides option \<Rightarrow> http_response act" where
  "request_with_auth_with_overrides env u meth headers body ov =
     act_bind (request_with_overrides env u meth headers body ov) (\<lambda>resp.
       if rs_status resp \<noteq> 401 then act_ret resp
       else act_bind (authorize_again env resp meth u) (\<lambda>a.
         case a of
           None \<Rightarrow> act_ret resp
         | Some auth \<Rightarrow>
             request_with_overrides env u meth
               (filter (\<lambda>(k, v). \<not> eq_ignore_ascii_case k ''authorization'') headers @ [(''Authorization'', auth)])
               body ov))"

definition preflight_headers :: "string \<Rightarrow> header list \<Rightarrow> string option \<Rightarrow> header list" where
  "preflight_headers meth request_headers orig =
     (let used = filter (\<lambda>k. to_ascii_lowercase k \<notin>
                    {''accept'', ''accept-language'', ''content-language'', ''content-type'', ''range''})
                  (map fst request_headers)
      in (case orig of Some x \<Rightarrow> [(''Origin'', x)] | None \<Rightarrow> [])
         @ [(''Access-Control-Request-Method'', to_ascii_uppercase meth)]
         @ (if used \<noteq> [] then [(''Access-Control-Request-Headers'', join_with '', '' used)] else []))"

definition run_preflight :: "client_env \<Rightarrow> url \<Rightarrow> string \<Rightarrow> header list \<Rightarrow> string option \<Rightarrow> unit act" where
  "run_preflight env u meth request_headers orig =
     act_bind (request_with_overrides env u ''OPTIONS'' (preflight_headers meth request_headers orig) None None)
       (\<lambda>resp.
          let get = header_str env resp
          in if validate_preflight meth request_headers (get ''access-control-allow-origin'')
                  (get ''access-control-allow-methods'') (get ''access-control-allow-headers'')
                  (get ''access-control-allow-credentials'') False = Denied
             then act_err (NetworkError (''CORS preflight failed for '' @ meth @ '' '' @ url_as_str u))
             else act_ret ())"

definition effective_headers :: "header list \<Rightarrow> url option \<Rightarrow> url \<Rightarrow> header list" where
  "effective_headers headers page_url u =
     filter (\<lambda>(k, v). \<not> eq_ignore_ascii_case k ''referer'' \<and> \<not> eq_ignore_ascii_case k ''origin'') headers
     @ (case page_url of
          None \<Rightarrow> []
        | Some p \<Rightarrow>
            (case compute_referer p u of Some r \<Rightarrow> [(''Referer'', r)] | None \<Rightarrow> [])
            @ (if \<not> same_origin p u then [(''Origin'', url_ascii_origin p)] else []))"

definition request_with_context_with_overrides ::
  "client_env \<Rightarrow> url \<Rightarrow> string \<Rightarrow> header list \<Rightarrow> string option \<Rightarrow> string option \<Rightarrow> request_overrides option
    \<Rightarrow> http_response act" where
  "request_with_context_with_overrides env u meth headers body orig ov =
     (let page_url = (case orig of Some x \<Rightarrow> cv_parse env x | None \<Rightarrow> None);
          cross_origin = (case page_url of Some p \<Rightarrow> \<not> same_origin p u | None \<Rightarrow> False);
          eff = effective_headers headers page_url u
      in act_bind
           (if cross_origin \<and> requires_preflight meth headers then run_preflight env u meth headers orig
            else act_ret ())
           (\<lambda>_. request_with_auth_with_overrides env u meth eff body ov))"

definition post_with_overrides ::
  "client_env \<Rightarrow> url \<Rightarrow> header list \<Rightarrow> string \<Rightarrow> request_overrides option \<Rightarrow> http_response act" where
  "post_with_overrides env u content_headers body ov =
     act_bind (check_ssrf env u) (\<lambda>_.
       send_and_store env u
         \<lparr>wr_method = ''POST'', wr_url = u, wr_headers = apply_request_overrides ov content_headers, wr_body = Some body\<rparr>)"

section \<open>Bodies\<close>

text \<open>\<open>read_body_limited\<close>: at most \<open>max_bytes\<close> of the stream, and whether something was left out.\<close>

fun read_chunks :: "(string + string) list \<Rightarrow> nat \<Rightarrow> string \<Rightarrow> core_error + string \<times> bool" where
  "read_chunks [] max_bytes buf = Inr (buf, False)"
| "read_chunks (Inl e # cs) max_bytes buf = Inl (NetworkError e)"
| "read_chunks (Inr chunk # cs) max_bytes buf =
     (let remaining = max_bytes - length buf
      in if remaining = 0 then Inr (buf, True)
         else if length chunk \<le> remaining then read_chunks cs max_bytes (buf @ chunk)
         else Inr (buf @ take remaining chunk, True))"

definition read_body_limited :: "http_response \<Rightarrow> nat \<Rightarrow> core_error + string \<times> bool" where
  "read_body_limited resp max_bytes = read_chunks (rs_chunks resp) max_bytes []"

definition read_body :: "http_response \<Rightarrow> string act" where
  "read_body resp = (\<lambda>hc. Ret (hc, res_bind (read_body_limited resp (hc_max_body hc)) (\<lambda>(buf, truncated). Inr buf)))"

definition fetch_bytes_with_overrides :: "client_env \<Rightarrow> url \<Rightarrow> request_overrides option \<Rightarrow> string act" where
  "fetch_bytes_with_overrides env u ov = act_bind (fetch_with_overrides env u ov) read_body"

record fetched_resource =
  fr_status :: int
  fr_headers :: "header list"
  fr_mime_type :: string
  fr_body :: string
  fr_final_url :: string

definition fetch_response_with_overrides ::
  "client_env \<Rightarrow> url \<Rightarrow> request_overrides option \<Rightarrow> fetched_resource act" where
  "fetch_response_with_overrides env u ov =
     act_bind (fetch_with_overrides env u ov) (\<lambda>resp.
     act_bind (read_body resp) (\<lambda>body.
       act_ret \<lparr>fr_status = rs_status resp, fr_headers = response_headers env resp,
                fr_mime_type = (case header_str env resp ''content-type'' of
                                  Some v \<Rightarrow> mime_without_params v | None \<Rightarrow> []),
                fr_body = body, fr_final_url = rs_uri resp\<rparr>))"

text \<open>\<open>decode\<close> is \<open>encoding::decode_html\<close>: the bytes and the Content-Type give the text.\<close>

definition fetch_text_with_overrides ::
  "client_env \<Rightarrow> (string \<Rightarrow> string option \<Rightarrow> string) \<Rightarrow> url \<Rightarrow> request_overrides option \<Rightarrow> string act" where
  "fetch_text_with_overrides env decode u ov =
     act_bind (fetch_with_overrides env u ov) (\<lambda>resp.
     act_bind (read_body resp) (\<lambda>buf. act_ret (decode buf (header_str env resp ''content-type''))))"

section \<open>Retrying challenges\<close>

record challenge_outcome =
  co_status :: int
  co_body :: string
  co_challenge :: "detected_challenge option"

definition clearable :: "challenge_kind \<Rightarrow> bool" where
  "clearable k \<longleftrightarrow> k \<noteq> Interactive \<and> k \<noteq> Blocked"

text \<open>\<open>lossy\<close> is \<open>String::from_utf8_lossy\<close>. One attempt, then the loop from an attempt to the last.\<close>

definition challenge_attempt :: "client_env \<Rightarrow> (string \<Rightarrow> string) \<Rightarrow> url \<Rightarrow> challenge_outcome act" where
  "challenge_attempt env lossy u =
     act_bind (fetch_with_overrides env u None) (\<lambda>resp.
     act_bind (read_body resp) (\<lambda>buf. \<lambda>hc.
       run_bind (detect (rs_status resp) (response_headers env resp) (lossy buf)) (\<lambda>d.
         Ret (hc, Inr \<lparr>co_status = rs_status resp, co_body = lossy buf, co_challenge = d\<rparr>))))"

function challenge_loop ::
  "client_env \<Rightarrow> (string \<Rightarrow> string) \<Rightarrow> url \<Rightarrow> nat \<Rightarrow> nat \<Rightarrow> challenge_outcome \<Rightarrow> challenge_outcome act" where
  "challenge_loop env lossy u attempt limit outcome =
     (if attempt > limit then act_ret outcome
      else act_bind (challenge_attempt env lossy u) (\<lambda>oc.
             case co_challenge oc of
               None \<Rightarrow> act_ret oc
             | Some c \<Rightarrow>
                 if \<not> clearable (dc_kind c) then act_ret oc
                 else challenge_loop env lossy u (attempt + 1) limit oc))"
  by pat_completeness auto
termination
  by (relation "measure (\<lambda>(env, lossy, u, attempt, limit, outcome). limit + 1 - attempt)") auto

declare challenge_loop.simps [simp del]

definition fetch_with_challenge_retry ::
  "client_env \<Rightarrow> (string \<Rightarrow> string) \<Rightarrow> url \<Rightarrow> nat \<Rightarrow> challenge_outcome act" where
  "fetch_with_challenge_retry env lossy u max_attempts =
     challenge_loop env lossy u 1 (max max_attempts 1) \<lparr>co_status = 0, co_body = [], co_challenge = None\<rparr>"

definition backoff_ms :: "nat \<Rightarrow> nat" where
  "backoff_ms attempt = min (min (250 * min (2 ^ (attempt - 1)) (2 ^ 64 - 1)) (2 ^ 64 - 1)) 2000"

section \<open>Interception\<close>

definition intercept :: "client_env \<Rightarrow> url \<Rightarrow> intercept_action \<Rightarrow> http_response act" where
  "intercept env u action =
     (case action of
        ActContinue url_mod method_mod headers_mod post_mod \<Rightarrow>
          (let effective_url = (case url_mod of
                                  Some x \<Rightarrow> (case cv_parse env x of Some v \<Rightarrow> v | None \<Rightarrow> u)
                                | None \<Rightarrow> u);
               effective_method = (case method_mod of Some m \<Rightarrow> m | None \<Rightarrow> ''GET'')
           in act_bind (check_ssrf env effective_url) (\<lambda>_.
                send_and_store env effective_url
                  \<lparr>wr_method = (if effective_method = ''POST'' then ''POST'' else ''GET''), wr_url = effective_url,
                   wr_headers = filter (\<lambda>(k, v). cv_header_ok env k v) headers_mod,
                   wr_body = (if effective_method = ''POST''
                              then Some (case post_mod of Some b \<Rightarrow> b | None \<Rightarrow> []) else None)\<rparr>))
      | ActFail reason \<Rightarrow> act_err (NetworkError reason)
      | ActFulfill status status_text headers body \<Rightarrow>
          act_err (InterceptedResponse \<lparr>ir_status_code = status, ir_status_text = status_text,
                     ir_headers = headers, ir_body = body\<rparr>))"

section \<open>What every operation keeps\<close>

text \<open>
  An operation evolves along a relation when each of its normal returns relates the client before
  to the client after. The locale states what a relation has to allow (nothing, two steps in a
  row, a new client nonce, and a request that has passed the gate) and follows the code once for
  all relations.
\<close>

definition evolves :: "(client \<Rightarrow> client \<Rightarrow> bool) \<Rightarrow> 'a act \<Rightarrow> bool" where
  "evolves R m \<longleftrightarrow> (\<forall>hc hc' r. m hc = Ret (hc', r) \<longrightarrow> R hc hc')"

lemma evolvesI: "(\<And>hc hc' r. m hc = Ret (hc', r) \<Longrightarrow> R hc hc') \<Longrightarrow> evolves R m"
  by (simp add: evolves_def)

lemma evolvesD: "evolves R m \<Longrightarrow> m hc = Ret (hc', r) \<Longrightarrow> R hc hc'"
  by (simp add: evolves_def)

lemma act_bind_Ret:
  "act_bind m f hc = Ret (hc', r) \<longleftrightarrow>
     (\<exists>hc1 r1. m hc = Ret (hc1, r1) \<and>
        (case r1 of Inl e \<Rightarrow> hc' = hc1 \<and> r = Inl e | Inr x \<Rightarrow> f x hc1 = Ret (hc', r)))"
proof (cases "m hc")
  case (Ret p)
  obtain hc1 r1 where "p = (hc1, r1)" by fastforce
  with Ret show ?thesis by (cases r1) (auto simp: act_bind_def)
qed (simp add: act_bind_def)

lemma act_bindE:
  assumes "act_bind m f hc = Ret (hc', r)"
  obtains (failed) e where "m hc = Ret (hc', Inl e)" "r = Inl e"
    | (ok) x hc1 where "m hc = Ret (hc1, Inr x)" "f x hc1 = Ret (hc', r)"
proof -
  obtain hc1 r1 where "m hc = Ret (hc1, r1)"
    "case r1 of Inl e \<Rightarrow> hc' = hc1 \<and> r = Inl e | Inr x \<Rightarrow> f x hc1 = Ret (hc', r)"
    using assms by (auto simp: act_bind_Ret)
  with that show thesis by (cases r1) auto
qed

locale client_relation =
  fixes env :: client_env
    and R :: "client \<Rightarrow> client \<Rightarrow> bool"
  assumes refl: "R hc hc"
    and trans: "R hc1 hc2 \<Longrightarrow> R hc2 hc3 \<Longrightarrow> R hc1 hc3"
    and nonce: "R hc (hc\<lparr>hc_counter := c\<rparr>)"
    and gated_send: "check_url_ssrf env u (hc_filter hc) \<Longrightarrow> wr_url req = u
      \<Longrightarrow> send_and_store env u req hc = Ret (hc', r) \<Longrightarrow> R hc hc'"
begin

lemma ret: "evolves R (act_ret x)" and err: "evolves R (act_err e)"
  by (auto simp: evolves_def act_ret_def act_err_def refl)

lemma bind:
  assumes m: "evolves R m" and f: "\<And>x. evolves R (f x)"
  shows "evolves R (act_bind m f)"
proof (rule evolvesI)
  fix hc hc' r assume "act_bind m f hc = Ret (hc', r)"
  then obtain hc1 r1 where run: "m hc = Ret (hc1, r1)"
    and rest: "case r1 of Inl e \<Rightarrow> hc' = hc1 \<and> r = Inl e | Inr x \<Rightarrow> f x hc1 = Ret (hc', r)"
    by (auto simp: act_bind_Ret)
  have "R hc hc1" using m run by (rule evolvesD)
  moreover have "R hc1 hc'"
    using rest f by (cases r1) (auto simp: refl dest: evolvesD)
  ultimately show "R hc hc'" by (rule trans)
qed

lemma checked:
  assumes "\<And>x. f x = send_and_store env u req \<or> evolves R (f x)" and "wr_url req = u"
  shows "evolves R (act_bind (check_ssrf env u) f)"
proof (rule evolvesI)
  fix hc hc' r assume run: "act_bind (check_ssrf env u) f hc = Ret (hc', r)"
  show "R hc hc'"
  proof (cases "check_url_ssrf env u (hc_filter hc)")
    case True
    with run have "f () hc = Ret (hc', r)" by (auto simp: act_bind_Ret check_ssrf_def)
    with assms True show ?thesis by (metis evolvesD gated_send)
  next
    case False
    then obtain host where "url_host_str u = Some host"
      by (auto simp: check_url_ssrf_def split: if_splits option.splits)
    with False run have "hc' = hc" by (auto simp: act_bind_Ret check_ssrf_def)
    then show ?thesis by (simp add: refl)
  qed
qed

lemma fetch: "evolves R (fetch_with_overrides env u ov)"
  unfolding fetch_with_overrides_def by (rule checked) auto

lemma post: "evolves R (post_with_overrides env u hs b ov)"
  unfolding post_with_overrides_def by (rule checked) auto

lemma request: "evolves R (request_with_overrides env u m hs b ov)"
  unfolding request_with_overrides_def Let_def
  by (rule checked [where req = "\<lparr>wr_method = to_ascii_uppercase (str_trim m), wr_url = u,
        wr_headers = apply_request_overrides ov (filter (\<lambda>(k, v). cv_header_ok env k v) hs), wr_body = b\<rparr>"])
    (simp_all add: err split: option.split)

lemma again: "evolves R (authorize_again env resp m u)"
  by (rule evolvesI)
    (auto simp: authorize_again_def refl intro: nonce split: option.splits prod.splits)

lemma with_auth: "evolves R (request_with_auth_with_overrides env u m hs b ov)"
  unfolding request_with_auth_with_overrides_def
  by (intro bind request) (auto intro!: bind again request ret split: option.split)

lemma preflight: "evolves R (run_preflight env u m hs orig)"
  unfolding run_preflight_def Let_def by (intro bind request) (auto intro: ret err)

lemma with_context: "evolves R (request_with_context_with_overrides env u m hs b orig ov)"
  unfolding request_with_context_with_overrides_def Let_def
  by (intro bind with_auth) (auto intro: preflight ret)

lemma body: "evolves R (read_body resp)"
  by (rule evolvesI) (auto simp: read_body_def refl)

lemma bytes: "evolves R (fetch_bytes_with_overrides env u ov)"
  unfolding fetch_bytes_with_overrides_def by (intro bind fetch body)

lemma resource: "evolves R (fetch_response_with_overrides env u ov)"
  unfolding fetch_response_with_overrides_def by (intro bind fetch body ret)

lemma attempt: "evolves R (challenge_attempt env lossy u)"
  unfolding challenge_attempt_def
  by (intro bind fetch body) (auto simp: evolves_def result_iff refl)

lemma retry_loop: "evolves R (challenge_loop env lossy u k limit oc)"
proof (induction "limit + 1 - k" arbitrary: k oc)
  case 0
  then show ?case by (subst challenge_loop.simps) (simp add: ret)
next
  case (Suc n)
  then have "evolves R (challenge_loop env lossy u (k + 1) limit oc')" for oc' by simp
  then show ?case
    by (subst challenge_loop.simps) (auto intro!: bind attempt ret split: option.split)
qed

lemma intercepted: "evolves R (intercept env u action)"
  by (cases action) (auto simp: intercept_def Let_def intro!: checked err)

end

section \<open>Runs of a client\<close>

datatype client_op =
    OpFetch url "request_overrides option"
  | OpRequest url string "header list" "string option" "request_overrides option"
  | OpAuth url string "header list" "string option" "request_overrides option"
  | OpContext url string "header list" "string option" "string option" "request_overrides option"
  | OpPost url "header list" string "request_overrides option"
  | OpBytes url "request_overrides option"
  | OpResource url "request_overrides option"
  | OpRetry "string \<Rightarrow> string" url nat
  | OpIntercept url intercept_action

definition forget :: "'a act \<Rightarrow> unit act" where
  "forget m = act_bind m (\<lambda>_. act_ret ())"

fun client_run :: "client_env \<Rightarrow> client_op \<Rightarrow> unit act" where
  "client_run env (OpFetch u ov) = forget (fetch_with_overrides env u ov)"
| "client_run env (OpRequest u m hs b ov) = forget (request_with_overrides env u m hs b ov)"
| "client_run env (OpAuth u m hs b ov) = forget (request_with_auth_with_overrides env u m hs b ov)"
| "client_run env (OpContext u m hs b orig ov) = forget (request_with_context_with_overrides env u m hs b orig ov)"
| "client_run env (OpPost u hs b ov) = forget (post_with_overrides env u hs b ov)"
| "client_run env (OpBytes u ov) = forget (fetch_bytes_with_overrides env u ov)"
| "client_run env (OpResource u ov) = forget (fetch_response_with_overrides env u ov)"
| "client_run env (OpRetry lossy u n) = forget (fetch_with_challenge_retry env lossy u n)"
| "client_run env (OpIntercept u a) = forget (intercept env u a)"

text \<open>Operations one after the other; an error of one does not stop the next, a panic does.\<close>

fun client_runs :: "client_env \<Rightarrow> client_op list \<Rightarrow> client \<Rightarrow> client run" where
  "client_runs env [] hc = Ret hc"
| "client_runs env (x # xs) hc = run_bind (client_run env x hc) (\<lambda>(hc', r). client_runs env xs hc')"

context client_relation
begin

lemma step: "evolves R (client_run env x)"
  by (cases x) (auto simp: forget_def fetch_with_challenge_retry_def
      intro!: bind fetch request with_auth with_context post bytes resource retry_loop intercepted ret)

lemma steps: "client_runs env xs hc = Ret hc' \<Longrightarrow> R hc hc'"
proof (induction xs arbitrary: hc)
  case (Cons x xs)
  then obtain hc1 r where run: "client_run env x hc = Ret (hc1, r)" and rest: "client_runs env xs hc1 = Ret hc'"
    by (auto simp: result_iff)
  from evolvesD [OF step run] Cons.IH [OF rest] show ?case by (rule trans)
qed (simp add: refl)

end

lemma store_all_jar_ok: "jar_ok j \<Longrightarrow> store_all env u vs j = Ret j' \<Longrightarrow> jar_ok j'"
  by (induction env u vs j arbitrary: j' rule: store_all.induct)
    (auto simp: result_iff split: option.splits dest: jar_ok_store)

lemma feed_hops_jar_ok: "jar_ok j \<Longrightarrow> feed_hops env hops j = Ret j' \<Longrightarrow> jar_ok j'"
  by (induction env hops j arbitrary: j' rule: feed_hops.induct)
    (auto simp: result_iff provider_set_cookies_def split: option.splits dest: store_all_jar_ok)

lemma send_and_store_Ret:
  assumes "send_and_store env u req hc = Ret (hc', r)"
  shows "hc_sent hc' = hc_sent hc @ [req] \<and> hc_filter hc' = hc_filter hc
    \<and> (jar_ok (hc_jar hc) \<longrightarrow> jar_ok (hc_jar hc'))
    \<and> r = map_err NetworkError (ex_result (cv_net env (hc_sent hc) req))"
proof -
  obtain hc1 r1 where sent: "send env req hc = Ret (hc1, r1)"
    and rest: "case r1 of Inl e \<Rightarrow> hc' = hc1 \<and> r = Inl e
      | Inr resp \<Rightarrow> act_bind (store_response_cookies env u resp) (\<lambda>_. act_ret resp) hc1 = Ret (hc', r)"
    using assms by (auto simp: send_and_store_def act_bind_Ret)
  obtain j where j: "feed_hops env (ex_hops (cv_net env (hc_sent hc) req)) (hc_jar hc) = Ret j"
    "hc1 = hc\<lparr>hc_jar := j, hc_sent := hc_sent hc @ [req]\<rparr>"
    "r1 = map_err NetworkError (ex_result (cv_net env (hc_sent hc) req))"
    using sent by (auto simp: send_def Let_def result_iff)
  show ?thesis
  proof (cases r1)
    case (Inl e)
    with rest have "hc' = hc1" "r = r1" by simp_all
    with j show ?thesis by (simp add: feed_hops_jar_ok)
  next
    case (Inr resp)
    with rest obtain j2 where j2: "store_all env u (header_values (rs_headers resp) ''set-cookie'') (hc_jar hc1) = Ret j2"
      "hc' = hc1\<lparr>hc_jar := j2\<rparr>" "r = Inr resp"
      by (auto simp: act_bind_Ret store_response_cookies_def act_ret_def result_iff)
    have "jar_ok (hc_jar hc')" if "jar_ok (hc_jar hc)"
      using feed_hops_jar_ok [OF that j(1)] store_all_jar_ok [OF _ j2(1)] j(2) j2(2) by simp
    with j(2,3) j2(2,3) Inr show ?thesis by simp
  qed
qed

definition gated_growth :: "client_env \<Rightarrow> client \<Rightarrow> client \<Rightarrow> bool" where
  "gated_growth env hc hc' \<longleftrightarrow> hc_filter hc' = hc_filter hc \<and> (jar_ok (hc_jar hc) \<longrightarrow> jar_ok (hc_jar hc'))
     \<and> (\<exists>ws. hc_sent hc' = hc_sent hc @ ws \<and> (\<forall>w \<in> set ws. check_url_ssrf env (wr_url w) (hc_filter hc)))"

interpretation gated: client_relation env "gated_growth env" for env
proof
  fix hc1 hc2 hc3 assume "gated_growth env hc1 hc2" and "gated_growth env hc2 hc3"
  then obtain ws vs where "hc_sent hc2 = hc_sent hc1 @ ws" "hc_sent hc3 = hc_sent hc2 @ vs"
    "\<forall>w \<in> set ws. check_url_ssrf env (wr_url w) (hc_filter hc1)"
    "\<forall>w \<in> set vs. check_url_ssrf env (wr_url w) (hc_filter hc1)"
    "hc_filter hc3 = hc_filter hc1" "jar_ok (hc_jar hc1) \<longrightarrow> jar_ok (hc_jar hc3)"
    unfolding gated_growth_def by auto
  then show "gated_growth env hc1 hc3" unfolding gated_growth_def
    by (intro conjI exI [of _ "ws @ vs"]) auto
next
  fix u hc req hc' r
  assume "check_url_ssrf env u (hc_filter hc)" "wr_url req = u" "send_and_store env u req hc = Ret (hc', r)"
  then show "gated_growth env hc hc'"
    using send_and_store_Ret [of env u req hc hc' r] by (simp add: gated_growth_def)
qed (simp_all add: gated_growth_def)

section \<open>What single operations send\<close>

lemma check_ssrf_Ret:
  "check_ssrf env u hc = Ret (hc', r) \<Longrightarrow> hc' = hc \<and> (r = Inr () \<longrightarrow> check_url_ssrf env u (hc_filter hc))"
  by (auto simp: check_ssrf_def check_url_ssrf_def split: if_splits option.splits)

definition sent_one :: "client_env \<Rightarrow> client \<Rightarrow> client \<Rightarrow> core_error + http_response \<Rightarrow> wire_request \<Rightarrow> bool" where
  "sent_one env hc hc' r req \<longleftrightarrow> hc_sent hc' = hc_sent hc @ [req]
     \<and> r = map_err NetworkError (ex_result (cv_net env (hc_sent hc) req))"

definition sent_none :: "client \<Rightarrow> client \<Rightarrow> core_error + 'a \<Rightarrow> bool" where
  "sent_none hc hc' r \<longleftrightarrow> hc' = hc \<and> (\<exists>e. r = Inl e)"

lemma checked_then:
  assumes "act_bind (check_ssrf env u) f hc = Ret (hc', r)"
  shows "sent_none hc hc' r \<or> f () hc = Ret (hc', r)"
proof -
  obtain hc1 r1 where check: "check_ssrf env u hc = Ret (hc1, r1)"
    and rest: "case r1 of Inl e \<Rightarrow> hc' = hc1 \<and> r = Inl e | Inr x \<Rightarrow> f x hc1 = Ret (hc', r)"
    using assms by (auto simp: act_bind_Ret)
  with check_ssrf_Ret [OF check] show ?thesis by (cases r1) (auto simp: sent_none_def)
qed

lemma checked_send:
  "act_bind (check_ssrf env u) (\<lambda>_. send_and_store env u req) hc = Ret (hc', r) \<Longrightarrow>
     sent_none hc hc' r \<or> sent_one env hc hc' r req"
  using send_and_store_Ret [of env u req hc hc' r] by (auto simp: sent_one_def dest!: checked_then)

lemma fetch_sends:
  "fetch_with_overrides env u ov hc = Ret (hc', r) \<Longrightarrow>
     sent_none hc hc' r \<or> sent_one env hc hc' r
       \<lparr>wr_method = ''GET'', wr_url = u, wr_headers = apply_request_overrides ov [], wr_body = None\<rparr>"
  unfolding fetch_with_overrides_def by (rule checked_send)

lemma request_sends:
  assumes "request_with_overrides env u m hs b ov hc = Ret (hc', r)"
  shows "sent_none hc hc' r \<or> sent_one env hc hc' r
       \<lparr>wr_method = to_ascii_uppercase (str_trim m), wr_url = u,
        wr_headers = apply_request_overrides ov (filter (\<lambda>(k, v). cv_header_ok env k v) hs), wr_body = b\<rparr>"
proof (cases "cv_method_err env (to_ascii_uppercase (str_trim m))")
  case None
  with assms show ?thesis unfolding request_with_overrides_def Let_def by (intro checked_send) simp
next
  case (Some e)
  with assms checked_then [of env u _ hc hc' r] show ?thesis
    unfolding request_with_overrides_def Let_def by (fastforce simp: act_err_def sent_none_def)
qed

lemma again_Ret:
  "authorize_again env resp m u hc = Ret (hc', r) \<Longrightarrow>
     hc_sent hc' = hc_sent hc \<and> (\<exists>a. r = Inr a \<and> (a \<noteq> None \<longrightarrow> hc_username hc \<noteq> None))"
  by (auto simp: authorize_again_def split: option.splits prod.splits)

lemma auth_sends:
  assumes run: "request_with_auth_with_overrides env u m hs b ov hc = Ret (hc', r)"
  shows "(\<exists>ws. hc_sent hc' = hc_sent hc @ ws \<and> length ws \<le> 1) \<or>
    (\<exists>w1 w2 resp auth. hc_sent hc' = hc_sent hc @ [w1, w2]
       \<and> ex_result (cv_net env (hc_sent hc) w1) = Inr resp \<and> rs_status resp = 401
       \<and> wr_url w2 = u
       \<and> wr_headers w2 = apply_request_overrides ov (filter (\<lambda>(k, v). cv_header_ok env k v)
           (filter (\<lambda>(k, v). \<not> eq_ignore_ascii_case k ''authorization'') hs @ [(''Authorization'', auth)])))"
proof -
  obtain hc1 r1 where first: "request_with_overrides env u m hs b ov hc = Ret (hc1, r1)"
    and rest: "case r1 of Inl e \<Rightarrow> hc' = hc1 \<and> r = Inl e
      | Inr resp \<Rightarrow> (if rs_status resp \<noteq> 401 then act_ret resp
          else act_bind (authorize_again env resp m u) (\<lambda>a. case a of None \<Rightarrow> act_ret resp
            | Some auth \<Rightarrow> request_with_overrides env u m
               (filter (\<lambda>(k, v). \<not> eq_ignore_ascii_case k ''authorization'') hs @ [(''Authorization'', auth)]) b ov))
          hc1 = Ret (hc', r)"
    using run unfolding request_with_auth_with_overrides_def act_bind_Ret by blast
  have one: "\<exists>ws. hc_sent hc1 = hc_sent hc @ ws \<and> length ws \<le> 1"
    using request_sends [OF first] by (auto simp: sent_none_def sent_one_def)
  show ?thesis
  proof (cases r1)
    case (Inl e)
    with rest one show ?thesis by auto
  next
    case (Inr resp)
    then obtain w1 where w1: "hc_sent hc1 = hc_sent hc @ [w1]" "ex_result (cv_net env (hc_sent hc) w1) = Inr resp"
      using request_sends [OF first] by (auto simp: sent_none_def sent_one_def dest: sym [THEN map_err_Inr [THEN iffD1]])
    show ?thesis
    proof (cases "rs_status resp = 401")
      case False
      with rest Inr one show ?thesis by (auto simp: act_ret_def)
    next
      case True
      then have "act_bind (authorize_again env resp m u) (\<lambda>a. case a of None \<Rightarrow> act_ret resp
            | Some auth \<Rightarrow> request_with_overrides env u m
               (filter (\<lambda>(k, v). \<not> eq_ignore_ascii_case k ''authorization'') hs @ [(''Authorization'', auth)]) b ov)
          hc1 = Ret (hc', r)" using rest Inr by simp
      then obtain hc2 a where ag: "authorize_again env resp m u hc1 = Ret (hc2, Inr a)"
        and last: "(case a of None \<Rightarrow> act_ret resp | Some auth \<Rightarrow> request_with_overrides env u m
            (filter (\<lambda>(k, v). \<not> eq_ignore_ascii_case k ''authorization'') hs @ [(''Authorization'', auth)]) b ov) hc2
          = Ret (hc', r)"
        by (rule act_bindE) (use again_Ret in fastforce)+
      have same: "hc_sent hc2 = hc_sent hc1" using again_Ret [OF ag] by simp
      show ?thesis
      proof (cases a)
        case None
        with last same one show ?thesis by (auto simp: act_ret_def)
      next
        case (Some auth)
        with last have "request_with_overrides env u m
            (filter (\<lambda>(k, v). \<not> eq_ignore_ascii_case k ''authorization'') hs @ [(''Authorization'', auth)]) b ov hc2
          = Ret (hc', r)" by simp
        from request_sends [OF this] show ?thesis
        proof
          assume "sent_none hc2 hc' r"
          with same one show ?thesis by (auto simp: sent_none_def)
        next
          assume "sent_one env hc2 hc' r
            \<lparr>wr_method = to_ascii_uppercase (str_trim m), wr_url = u,
             wr_headers = apply_request_overrides ov (filter (\<lambda>(k, v). cv_header_ok env k v)
               (filter (\<lambda>(k, v). \<not> eq_ignore_ascii_case k ''authorization'') hs @ [(''Authorization'', auth)])),
             wr_body = b\<rparr>"
          with same w1 True show ?thesis by (fastforce simp: sent_one_def)
        qed
      qed
    qed
  qed
qed

definition is_preflight ::
  "client_env \<Rightarrow> url \<Rightarrow> string \<Rightarrow> header list \<Rightarrow> client \<Rightarrow> wire_request \<Rightarrow> bool" where
  "is_preflight env u m hs hc w \<longleftrightarrow> wr_method w = ''OPTIONS'' \<and> wr_url w = u"

definition preflight_allows ::
  "client_env \<Rightarrow> string \<Rightarrow> header list \<Rightarrow> client \<Rightarrow> wire_request \<Rightarrow> bool" where
  "preflight_allows env m hs hc w \<longleftrightarrow> (\<exists>resp. ex_result (cv_net env (hc_sent hc) w) = Inr resp
     \<and> validate_preflight m hs (header_str env resp ''access-control-allow-origin'')
            (header_str env resp ''access-control-allow-methods'') (header_str env resp ''access-control-allow-headers'')
            (header_str env resp ''access-control-allow-credentials'') False = Allowed)"

lemma options_method: "to_ascii_uppercase (str_trim ''OPTIONS'') = ''OPTIONS''"
  by code_simp

lemma preflight_sends:
  assumes "run_preflight env u m hs orig hc = Ret (hc', r)"
  shows "(hc_sent hc' = hc_sent hc \<and> (\<exists>e. r = Inl e)) \<or>
    (\<exists>w. hc_sent hc' = hc_sent hc @ [w] \<and> is_preflight env u m hs hc w
       \<and> (r = Inr () \<longrightarrow> preflight_allows env m hs hc w))"
  using assms unfolding run_preflight_def
proof (cases rule: act_bindE)
  case (failed e)
  from request_sends [OF failed(1)] failed(2) show ?thesis
    by (auto simp: sent_none_def sent_one_def is_preflight_def options_method)
next
  case (ok resp hc1)
  from ok(2) have same: "hc' = hc1"
    and allowed: "r = Inr () \<Longrightarrow> validate_preflight m hs (header_str env resp ''access-control-allow-origin'')
            (header_str env resp ''access-control-allow-methods'') (header_str env resp ''access-control-allow-headers'')
            (header_str env resp ''access-control-allow-credentials'') False = Allowed"
    by (auto simp: Let_def act_err_def act_ret_def split: if_splits intro: preflight_result.exhaust)
  from request_sends [OF ok(1)] show ?thesis
  proof
    assume "sent_one env hc hc1 (Inr resp)
      \<lparr>wr_method = to_ascii_uppercase (str_trim ''OPTIONS''), wr_url = u,
       wr_headers = apply_request_overrides None (filter (\<lambda>(k, v). cv_header_ok env k v) (preflight_headers m hs orig)),
       wr_body = None\<rparr>" (is "sent_one _ _ _ _ ?w")
    then have "hc_sent hc1 = hc_sent hc @ [?w]" "ex_result (cv_net env (hc_sent hc) ?w) = Inr resp"
      by (auto simp: sent_one_def dest: sym [THEN map_err_Inr [THEN iffD1]])
    with same allowed show ?thesis
      by (intro disjI2 exI [of _ ?w]) (auto simp: is_preflight_def preflight_allows_def options_method)
  qed (simp add: sent_none_def)
qed

lemma one_authorization:
  "filter (\<lambda>x. (case x of (k, v) \<Rightarrow> \<not> eq_ignore_ascii_case k ''authorization'')
      \<and> (case x of (k, v) \<Rightarrow> cv_header_ok env k v)
      \<and> (case x of (k, v) \<Rightarrow> eq_ignore_ascii_case k ''authorization'')) hs = []"
  "eq_ignore_ascii_case ''Authorization'' ''authorization''"
  by (auto simp: filter_empty_conv) code_simp

lemma read_chunks_take:
  "length buf \<le> n \<Longrightarrow> \<exists>t. read_chunks (map Inr cs) n buf = Inr (take n (buf @ concat cs), t)
     \<and> (t \<or> length (buf @ concat cs) \<le> n) \<and> (length (buf @ concat cs) > n \<longrightarrow> t)"
proof (induction cs arbitrary: buf)
  case (Cons c cs)
  show ?case
  proof (cases "n - length buf = 0")
    case True
    with Cons.prems show ?thesis by (intro exI [of _ True]) simp
  next
    case False
    show ?thesis
    proof (cases "length c \<le> n - length buf")
      case True
      with False Cons.prems Cons.IH [of "buf @ c"] show ?thesis by simp
    next
      case over: False
      with False Cons.prems show ?thesis by (intro exI [of _ True]) simp
    qed
  qed
next
  case Nil
  then show ?case by (intro exI [of _ False]) simp
qed


lemma attempt_sends:
  assumes "challenge_attempt env lossy u hc = Ret (hc', r)"
  shows "(\<exists>ws. hc_sent hc' = hc_sent hc @ ws \<and> length ws \<le> 1) \<and>
    (\<forall>oc. r = Inr oc \<longrightarrow> (\<exists>w. hc_sent hc' = hc_sent hc @ [w]))"
  using assms unfolding challenge_attempt_def
proof (cases rule: act_bindE)
  case (failed e)
  then show ?thesis using fetch_sends [OF failed(1)] by (auto simp: sent_none_def sent_one_def)
next
  case (ok resp hc1)
  then have "hc_sent hc' = hc_sent hc1"
    by (auto simp: read_body_def result_iff elim!: act_bindE)
  with fetch_sends [OF ok(1)] show ?thesis by (auto simp: sent_none_def sent_one_def)
qed

lemma loop_again:
  "challenge_attempt env lossy u hc = Ret (hc1, Inr oc) \<Longrightarrow> k \<le> limit \<Longrightarrow> co_challenge oc = Some c
     \<Longrightarrow> clearable (dc_kind c)
     \<Longrightarrow> challenge_loop env lossy u k limit oc0 hc = challenge_loop env lossy u (k + 1) limit oc hc1"
  by (subst challenge_loop.simps) (simp add: act_bind_def)

lemma loop_end: "limit < k \<Longrightarrow> challenge_loop env lossy u k limit oc hc = Ret (hc, Inr oc)"
  by (subst challenge_loop.simps) (simp add: act_ret_def)

lemma loop_sends:
  assumes "challenge_loop env lossy u k limit oc0 hc = Ret (hc', Inr oc)" and "k \<le> limit"
  shows "\<exists>ws. hc_sent hc' = hc_sent hc @ ws \<and> 1 \<le> length ws \<and> length ws \<le> limit + 1 - k
    \<and> (length ws = limit + 1 - k \<or> (case co_challenge oc of None \<Rightarrow> True | Some c \<Rightarrow> dc_kind c \<in> {Interactive, Blocked}))"
  using assms
proof (induction "limit - k" arbitrary: k oc0 hc)
  case 0
  then have k: "k = limit" by simp
  have "act_bind (challenge_attempt env lossy u) (\<lambda>oc. case co_challenge oc of None \<Rightarrow> act_ret oc
      | Some c \<Rightarrow> if \<not> clearable (dc_kind c) then act_ret oc else challenge_loop env lossy u (k + 1) limit oc) hc
    = Ret (hc', Inr oc)"
    using "0.prems" by (subst (asm) challenge_loop.simps) simp
  then show ?case
  proof (cases rule: act_bindE)
    case (ok oc1 hc1)
    then have "hc' = hc1" using k
      by (auto simp: act_ret_def challenge_loop.simps [of env lossy u "Suc limit"] split: option.splits if_splits)
    with attempt_sends [OF ok(1)] k show ?thesis by auto
  qed simp
next
  case (Suc n)
  have "act_bind (challenge_attempt env lossy u) (\<lambda>oc. case co_challenge oc of None \<Rightarrow> act_ret oc
      | Some c \<Rightarrow> if \<not> clearable (dc_kind c) then act_ret oc else challenge_loop env lossy u (k + 1) limit oc) hc
    = Ret (hc', Inr oc)"
    using Suc.prems by (subst (asm) challenge_loop.simps) simp
  then show ?case
  proof (cases rule: act_bindE)
    case (ok oc1 hc1)
    obtain w where w: "hc_sent hc1 = hc_sent hc @ [w]" using attempt_sends [OF ok(1)] by auto
    show ?thesis
    proof (cases "\<exists>c. co_challenge oc1 = Some c \<and> clearable (dc_kind c)")
      case True
      with ok(2) have "challenge_loop env lossy u (k + 1) limit oc1 hc1 = Ret (hc', Inr oc)" by auto
      moreover have "n = limit - (k + 1)" "k + 1 \<le> limit" using Suc.hyps(2) by simp_all
      ultimately obtain ws where ws: "hc_sent hc' = hc_sent hc1 @ ws" "1 \<le> length ws" "length ws \<le> limit + 1 - (k + 1)"
        "length ws = limit + 1 - (k + 1) \<or> (case co_challenge oc of None \<Rightarrow> True | Some c \<Rightarrow> dc_kind c \<in> {Interactive, Blocked})"
        using Suc.hyps(1) [of "k + 1" oc1 hc1] by blast
      with w Suc.prems(2) show ?thesis by (intro exI [of _ "w # ws"]) auto
    next
      case False
      with ok(2) have "hc' = hc1 \<and> oc = oc1" "case co_challenge oc of None \<Rightarrow> True | Some c \<Rightarrow> dc_kind c \<in> {Interactive, Blocked}"
        by (auto simp: act_ret_def clearable_def split: option.splits if_splits)
      with w Suc.prems(2) show ?thesis by (intro exI [of _ "[w]"]) auto
    qed
  qed simp
qed

text \<open>Operations that cannot panic when the values that read as text are ASCII.\<close>

definition calm :: "'a act \<Rightarrow> bool" where
  "calm m \<longleftrightarrow> (\<forall>hc. m hc \<noteq> Panic)"

lemma calm_bind: "calm m \<Longrightarrow> (\<And>x. calm (f x)) \<Longrightarrow> calm (act_bind m f)"
  by (auto simp: calm_def act_bind_def run_bind_Panic split: sum.splits)

lemma calm_basic:
  "calm (act_ret x)" "calm (act_err e)" "calm (check_ssrf env u)" "calm (read_body resp)"
  "calm (authorize_again env resp m u)"
  by (auto simp: calm_def act_ret_def act_err_def check_ssrf_def read_body_def authorize_again_def
      split: option.splits prod.splits)

definition ascii_values :: "client_env \<Rightarrow> bool" where
  "ascii_values env \<longleftrightarrow> (\<forall>v s. cv_to_str env v = Some s \<longrightarrow> is_ascii_str s)"

lemma ascii_value: "ascii_values env \<Longrightarrow> cv_to_str env v = Some s \<Longrightarrow> is_ascii_str s"
  by (simp add: ascii_values_def)

lemma store_all_calm: "ascii_values env \<Longrightarrow> store_all env u vs j \<noteq> Panic"
  by (induction vs arbitrary: j)
    (auto simp: run_bind_Panic dest: ascii_value store_cookie_ascii split: option.splits)

lemma feed_hops_calm: "ascii_values env \<Longrightarrow> feed_hops env hops j \<noteq> Panic"
proof (induction hops arbitrary: j)
  case (Cons h hops)
  then show ?case by (cases h) (auto simp: run_bind_Panic provider_set_cookies_def store_all_calm split: option.splits)
qed simp

lemma calm_send: "ascii_values env \<Longrightarrow> calm (send_and_store env u req)"
  unfolding send_and_store_def
  by (intro calm_bind calm_basic)
    (auto simp: calm_def send_def store_response_cookies_def Let_def run_bind_Panic feed_hops_calm store_all_calm)

lemma calm_request: "ascii_values env \<Longrightarrow> calm (request_with_overrides env u m hs b ov)"
  unfolding request_with_overrides_def Let_def
  by (intro calm_bind calm_basic) (auto intro: calm_send calm_basic split: option.split)

lemma calm_fetch: "ascii_values env \<Longrightarrow> calm (fetch_with_overrides env u ov)"
  unfolding fetch_with_overrides_def by (intro calm_bind calm_basic calm_send)

lemma calm_auth: "ascii_values env \<Longrightarrow> calm (request_with_auth_with_overrides env u m hs b ov)"
  unfolding request_with_auth_with_overrides_def
  by (intro calm_bind calm_request) (auto intro!: calm_bind calm_basic calm_request split: option.split)

lemma calm_preflight: "ascii_values env \<Longrightarrow> calm (run_preflight env u m hs orig)"
  unfolding run_preflight_def Let_def by (intro calm_bind calm_request) (auto intro: calm_basic)

lemma run_calm: "ascii_values env \<Longrightarrow> (case x of OpRetry lossy u n \<Rightarrow> False | _ \<Rightarrow> True) \<Longrightarrow> calm (client_run env x)"
  by (cases x)
    (auto simp: forget_def request_with_context_with_overrides_def Let_def post_with_overrides_def
      fetch_bytes_with_overrides_def fetch_response_with_overrides_def intercept_def
      intro!: calm_bind calm_basic calm_fetch calm_request calm_auth calm_preflight calm_send
      split: intercept_action.split)

section \<open>Properties\<close>

text \<open>
  C6: Every request passes the gate: whatever a client is asked to do, from an initial client with
  nothing sent, each request it hands to the network (the first ones, preflights, retries after a
  401, retries of challenges, continued interceptions) is for a URL that the SSRF filter of the
  client allows.
\<close>
theorem every_request_passes_gate:
  assumes "client_runs env xs hc = Ret hc'" and "hc_sent hc = []" and "w \<in> set (hc_sent hc')"
  shows "check_url_ssrf env (wr_url w) (hc_filter hc)"
  using gated.steps [OF assms(1)] assms(2,3) by (auto simp: gated_growth_def)

text \<open>A sample environment for the witnesses: a network that answers every request with \<open>resp\<close>.\<close>

definition sample_client_env :: "exchange \<Rightarrow> client_env" where
  "sample_client_env x =
     \<lparr>cv_web = sample_env, cv_parse = (\<lambda>s. Some (sample_url ''https'' s ''/'' 443)), cv_dns = (\<lambda>_. None),
      cv_to_str = (\<lambda>s. if is_ascii_str s then Some s else None), cv_header_ok = (\<lambda>_ _. True),
      cv_method_err = (\<lambda>_. None), cv_crypto = \<lparr>md5 = id, base64 = id\<rparr>, cv_net = (\<lambda>_ _. x)\<rparr>"

definition sample_response :: "int \<Rightarrow> header list \<Rightarrow> string \<Rightarrow> http_response" where
  "sample_response status hs b = \<lparr>rs_status = status, rs_headers = hs, rs_chunks = [Inr b], rs_uri = ''u''\<rparr>"

definition answers :: "http_response \<Rightarrow> exchange" where
  "answers resp = \<lparr>ex_hops = [], ex_result = Inr resp\<rparr>"

definition sample_filter :: ip_filter where
  "sample_filter = add_block ''10.0.0.0/8'' ip_filter_new"

definition sample_client :: client where
  "sample_client =
     \<lparr>hc_jar = [], hc_filter = sample_filter, hc_username = Some ''u'', hc_password = None, hc_max_body = 100,
      hc_counter = 0, hc_sent = []\<rparr>"

theorem every_request_passes_gate_witness:
  "check_url_ssrf (sample_client_env (answers (sample_response 200 [] []))) (sample_url ''http'' ''8.8.8.8'' ''/'' 80) sample_filter"
proof -
  let ?env = "sample_client_env (answers (sample_response 200 [] []))"
  let ?xs = "[OpFetch (sample_url ''http'' ''10.0.0.1'' ''/'' 80) None, OpFetch (sample_url ''http'' ''8.8.8.8'' ''/'' 80) None]"
  let ?w = "\<lparr>wr_method = ''GET'', wr_url = sample_url ''http'' ''8.8.8.8'' ''/'' 80, wr_headers = [], wr_body = None\<rparr>"
  have run: "client_runs ?env ?xs sample_client = Ret (sample_client\<lparr>hc_sent := [?w]\<rparr>)" by code_simp
  have "hc_sent sample_client = []" "?w \<in> set (hc_sent (sample_client\<lparr>hc_sent := [?w]\<rparr>))"
    by (simp_all add: sample_client_def)
  from every_request_passes_gate [OF run this] show ?thesis by (simp add: sample_client_def)
qed

text \<open>
  No request before its preflight: a cross-origin request that is not simple sends nothing
  but an OPTIONS request to its URL, unless that request was answered and the answer allows the
  method and the headers the page asked for.
\<close>
theorem preflight_before_request:
  assumes "cv_parse env orig = Some p" and "\<not> same_origin p u" and "requires_preflight m hs"
    and "request_with_context_with_overrides env u m hs b (Some orig) ov hc = Ret (hc', r)"
  shows "\<exists>ws. hc_sent hc' = hc_sent hc @ ws \<and> (ws = [] \<or>
    (wr_method (hd ws) = ''OPTIONS'' \<and> wr_url (hd ws) = u \<and> (tl ws = [] \<or>
      (\<exists>resp. ex_result (cv_net env (hc_sent hc) (hd ws)) = Inr resp
        \<and> validate_preflight m hs (header_str env resp ''access-control-allow-origin'')
            (header_str env resp ''access-control-allow-methods'') (header_str env resp ''access-control-allow-headers'')
            (header_str env resp ''access-control-allow-credentials'') False = Allowed))))"
proof -
  have "act_bind (run_preflight env u m hs (Some orig))
      (\<lambda>_. request_with_auth_with_overrides env u m (effective_headers hs (Some p) u) b ov) hc = Ret (hc', r)"
    using assms by (simp add: request_with_context_with_overrides_def)
  then obtain hc1 r1 where pre: "run_preflight env u m hs (Some orig) hc = Ret (hc1, r1)"
    and rest: "case r1 of Inl e \<Rightarrow> hc' = hc1 \<and> r = Inl e
      | Inr x \<Rightarrow> request_with_auth_with_overrides env u m (effective_headers hs (Some p) u) b ov hc1 = Ret (hc', r)"
    by (auto simp: act_bind_Ret)
  note shape = preflight_sends [OF pre]
  show ?thesis
  proof (cases r1)
    case (Inl e)
    with rest have same: "hc_sent hc' = hc_sent hc1" by simp
    from shape show ?thesis
    proof
      assume "hc_sent hc1 = hc_sent hc \<and> (\<exists>e. r1 = Inl e)"
      with same show ?thesis by simp
    next
      assume "\<exists>w. hc_sent hc1 = hc_sent hc @ [w] \<and> is_preflight env u m hs hc w
        \<and> (r1 = Inr () \<longrightarrow> preflight_allows env m hs hc w)"
      then obtain w where "hc_sent hc1 = hc_sent hc @ [w]" "is_preflight env u m hs hc w" by blast
      with same show ?thesis by (intro exI [of _ "[w]"]) (simp add: is_preflight_def)
    qed
  next
    case (Inr x)
    with rest have "request_with_auth_with_overrides env u m (effective_headers hs (Some p) u) b ov hc1 = Ret (hc', r)"
      by simp
    from auth_sends [OF this] obtain ws where "hc_sent hc' = hc_sent hc1 @ ws" by auto
    moreover from shape Inr obtain w where
      "hc_sent hc1 = hc_sent hc @ [w]" "is_preflight env u m hs hc w" "preflight_allows env m hs hc w"
      by auto
    ultimately show ?thesis
      by (intro exI [of _ "w # ws"]) (simp add: is_preflight_def preflight_allows_def)
  qed
qed

theorem preflight_before_request_witness:
  "let env = sample_client_env (answers (sample_response 200 [] []));
       r = request_with_context_with_overrides env (sample_url ''https'' ''b.test'' ''/'' 443) ''PUT'' [] None (Some ''a.test'') None sample_client
   in \<exists>hc' e. r = Ret (hc', Inl e) \<and> map wr_method (hc_sent hc') = [''OPTIONS'']"
proof -
  let ?env = "sample_client_env (answers (sample_response 200 [] []))"
  let ?u = "sample_url ''https'' ''b.test'' ''/'' 443"
  let ?w = "\<lparr>wr_method = ''OPTIONS'', wr_url = ?u,
    wr_headers = [(''Origin'', ''a.test''), (''Access-Control-Request-Method'', ''PUT'')], wr_body = None\<rparr>"
  let ?hc = "sample_client\<lparr>hc_sent := [?w]\<rparr>"
  let ?e = "NetworkError (''CORS preflight failed for PUT https://b.test/'')"
  have run: "request_with_context_with_overrides ?env ?u ''PUT'' [] None (Some ''a.test'') None sample_client = Ret (?hc, Inl ?e)"
    by code_simp
  have "cv_parse ?env ''a.test'' = Some (sample_url ''https'' ''a.test'' ''/'' 443)"
    "\<not> same_origin (sample_url ''https'' ''a.test'' ''/'' 443) ?u" "requires_preflight ''PUT'' []"
    by code_simp+
  from preflight_before_request [OF this run]
  have "\<exists>ws. hc_sent ?hc = hc_sent sample_client @ ws \<and> (ws = [] \<or> wr_method (hd ws) = ''OPTIONS'')" by blast
  with run show ?thesis by (simp add: sample_client_def)
qed

text \<open>
  Credentials answer a challenge once: the authenticating request path sends at most two
  requests, and a second one only when the first was answered with status 401; it goes to the
  same URL and carries exactly one Authorization header, in place of any the caller gave.
\<close>
theorem auth_retries_once:
  assumes "request_with_auth_with_overrides env u m hs b None hc = Ret (hc', r)"
  shows "\<exists>ws. hc_sent hc' = hc_sent hc @ ws \<and> (length ws \<le> 1 \<or>
    (\<exists>w1 w2 resp auth. ws = [w1, w2] \<and> ex_result (cv_net env (hc_sent hc) w1) = Inr resp \<and> rs_status resp = 401
       \<and> wr_url w2 = u \<and> set (header_values (wr_headers w2) ''authorization'') \<subseteq> {auth}
       \<and> length (header_values (wr_headers w2) ''authorization'') \<le> 1))"
  using auth_sends [OF assms]
proof
  assume "\<exists>w1 w2 resp auth. hc_sent hc' = hc_sent hc @ [w1, w2]
       \<and> ex_result (cv_net env (hc_sent hc) w1) = Inr resp \<and> rs_status resp = 401
       \<and> wr_url w2 = u
       \<and> wr_headers w2 = apply_request_overrides None (filter (\<lambda>(k, v). cv_header_ok env k v)
           (filter (\<lambda>(k, v). \<not> eq_ignore_ascii_case k ''authorization'') hs @ [(''Authorization'', auth)]))"
  then obtain w1 w2 resp auth where w: "hc_sent hc' = hc_sent hc @ [w1, w2]"
    "ex_result (cv_net env (hc_sent hc) w1) = Inr resp" "rs_status resp = 401" "wr_url w2 = u"
    and h: "wr_headers w2 = filter (\<lambda>(k, v). cv_header_ok env k v)
           (filter (\<lambda>(k, v). \<not> eq_ignore_ascii_case k ''authorization'') hs @ [(''Authorization'', auth)])"
    by (auto simp: apply_request_overrides_def)
  have "header_values (wr_headers w2) ''authorization'' = (if cv_header_ok env ''Authorization'' auth then [auth] else [])"
    by (simp add: h header_values_def filter_filter one_authorization)
  then have "set (header_values (wr_headers w2) ''authorization'') \<subseteq> {auth}
      \<and> length (header_values (wr_headers w2) ''authorization'') \<le> 1" by simp
  with w show ?thesis by blast
qed auto

theorem auth_retries_once_witness:
  "let env = sample_client_env (answers (sample_response 401 [(''WWW-Authenticate'', ''Basic'')] []));
       r = request_with_auth_with_overrides env (sample_url ''https'' ''b.test'' ''/'' 443) ''GET'' [(''authorization'', ''x'')] None None sample_client
   in \<exists>hc' x. r = Ret (hc', x) \<and> map wr_headers (hc_sent hc') = [[(''authorization'', ''x'')], [(''Authorization'', ''Basic u:'')]]"
proof -
  let ?resp = "sample_response 401 [(''WWW-Authenticate'', ''Basic'')] []"
  let ?env = "sample_client_env (answers ?resp)"
  let ?u = "sample_url ''https'' ''b.test'' ''/'' 443"
  let ?w = "\<lambda>hs. \<lparr>wr_method = ''GET'', wr_url = ?u, wr_headers = hs, wr_body = None\<rparr>"
  let ?hc = "sample_client\<lparr>hc_sent := [?w [(''authorization'', ''x'')], ?w [(''Authorization'', ''Basic u:'')]]\<rparr>"
  have run: "request_with_auth_with_overrides ?env ?u ''GET'' [(''authorization'', ''x'')] None None sample_client
      = Ret (?hc, Inr ?resp)" by code_simp
  from auth_retries_once [OF run] have "\<exists>ws. hc_sent ?hc = hc_sent sample_client @ ws" by blast
  with run show ?thesis by simp
qed

lemma sample_attempt:
  assumes "hc_filter hc = sample_filter" and "hc_max_body hc = 100"
  shows "challenge_attempt (sample_client_env (answers (sample_response 503 [(''Server'', ''cloudflare'')] ''Just a moment''))) id
      (sample_url ''https'' ''b.test'' ''/'' 443) hc
    = Ret (hc\<lparr>hc_sent := hc_sent hc @ [\<lparr>wr_method = ''GET'', wr_url = sample_url ''https'' ''b.test'' ''/'' 443,
             wr_headers = [], wr_body = None\<rparr>]\<rparr>,
        Inr \<lparr>co_status = 503, co_body = ''Just a moment'',
          co_challenge = Some \<lparr>dc_vendor = Cloudflare, dc_kind = Managed, dc_clearance_cookie = ''cf_clearance'',
            dc_ray_id = None\<rparr>\<rparr>)"
proof -
  let ?env = "sample_client_env (answers (sample_response 503 [(''Server'', ''cloudflare'')] ''Just a moment''))"
  have gate: "check_url_ssrf ?env (sample_url ''https'' ''b.test'' ''/'' 443) sample_filter" by code_simp
  have det: "detect_cloudflare 503 [(''Server'', ''cloudflare'')] (to_ascii_lowercase ''Just a moment'')
      = Some \<lparr>dc_vendor = Cloudflare, dc_kind = Managed, dc_clearance_cookie = ''cf_clearance'', dc_ray_id = None\<rparr>"
    by code_simp
  let ?resp = "sample_response 503 [(''Server'', ''cloudflare'')] ''Just a moment''"
  have det': "detect 503 [(''Server'', ''cloudflare'')] ''Just a moment''
      = Ret (Some \<lparr>dc_vendor = Cloudflare, dc_kind = Managed, dc_clearance_cookie = ''cf_clearance'', dc_ray_id = None\<rparr>)"
    by (simp add: detect_def scan_of_short det)
  have hs: "header_values [(''Server'', ''cloudflare'')] ''set-cookie'' = []"
    "response_headers ?env ?resp = [(''Server'', ''cloudflare'')]"
    by code_simp+
  have env: "cv_net ?env ws req = answers ?resp" for ws req by (simp add: sample_client_env_def)
  have resp: "rs_status ?resp = 503" "rs_headers ?resp = [(''Server'', ''cloudflare'')]"
    "rs_chunks ?resp = [Inr ''Just a moment'']"
    by (simp_all add: sample_response_def)
  have ex: "ex_hops (answers r) = []" "ex_result (answers r) = Inr r" for r by (simp_all add: answers_def)
  show ?thesis
    using gate assms
    by (simp add: challenge_attempt_def fetch_with_overrides_def send_and_store_def send_def act_bind_def check_ssrf_def
        store_response_cookies_def act_ret_def read_body_def read_body_limited_def apply_request_overrides_def
        hs env resp ex det')
qed

text \<open>
  What the body reader keeps: the first \<open>max_bytes\<close> bytes of the stream and no more, whatever
  sizes the chunks have; and when it reports no truncation, the whole stream.
\<close>
theorem body_is_limited_prefix:
  assumes "rs_chunks resp = map Inr cs"
  shows "\<exists>t. read_body_limited resp n = Inr (take n (concat cs), t)
    \<and> (t \<or> length (concat cs) \<le> n) \<and> (length (concat cs) > n \<longrightarrow> t)"
  using read_chunks_take [of "[]" n cs] assms by (auto simp: read_body_limited_def)

theorem body_is_limited_prefix_witness:
  "\<exists>t. read_body_limited \<lparr>rs_status = 200, rs_headers = [], rs_chunks = [Inr ''ab'', Inr ''cd''], rs_uri = []\<rparr> 3 = Inr (''abc'', t)"
  using body_is_limited_prefix [of "\<lparr>rs_status = 200, rs_headers = [], rs_chunks = [Inr ''ab'', Inr ''cd''], rs_uri = []\<rparr>"
      "[''ab'', ''cd'']" 3] by fastforce

text \<open>
  A challenge is retried a bounded number of times: the retrying fetch sends between one and
  \<open>max_attempts\<close> requests (one, when that is zero), and it gives up early only on an answer that
  is no challenge or one that no retry can clear.
\<close>
theorem challenge_retry_bounded:
  assumes "fetch_with_challenge_retry env lossy u n hc = Ret (hc', Inr oc)"
  shows "\<exists>ws. hc_sent hc' = hc_sent hc @ ws \<and> 1 \<le> length ws \<and> length ws \<le> max n 1
    \<and> (length ws = max n 1 \<or> (case co_challenge oc of None \<Rightarrow> True | Some c \<Rightarrow> dc_kind c \<in> {Interactive, Blocked}))"
  using loop_sends [of env lossy u 1 "max n 1" _ hc hc' oc] assms
  by (fastforce simp: fetch_with_challenge_retry_def)

theorem challenge_retry_bounded_witness:
  "let env = sample_client_env (answers (sample_response 503 [(''Server'', ''cloudflare'')] ''Just a moment''));
       r = fetch_with_challenge_retry env id (sample_url ''https'' ''b.test'' ''/'' 443) 3 sample_client
   in \<exists>hc' oc. r = Ret (hc', Inr oc) \<and> length (hc_sent hc') \<le> 3 \<and> co_challenge oc \<noteq> None"
proof -
  let ?env = "sample_client_env (answers (sample_response 503 [(''Server'', ''cloudflare'')] ''Just a moment''))"
  let ?u = "sample_url ''https'' ''b.test'' ''/'' 443"
  let ?w = "\<lparr>wr_method = ''GET'', wr_url = ?u, wr_headers = [], wr_body = None\<rparr>"
  let ?oc = "\<lparr>co_status = 503, co_body = ''Just a moment'',
    co_challenge = Some \<lparr>dc_vendor = Cloudflare, dc_kind = Managed, dc_clearance_cookie = ''cf_clearance'', dc_ray_id = None\<rparr>\<rparr>"
  have one: "challenge_attempt ?env id ?u hc = Ret (hc\<lparr>hc_sent := hc_sent hc @ [?w]\<rparr>, Inr ?oc)"
    if "hc_filter hc = sample_filter" "hc_max_body hc = 100" for hc
    using that by (rule sample_attempt)
  have run: "fetch_with_challenge_retry ?env id ?u 3 sample_client
      = Ret (sample_client\<lparr>hc_sent := [?w, ?w, ?w]\<rparr>, Inr ?oc)"
  proof -
    let ?loop = "\<lambda>k ws. challenge_loop ?env id ?u k 3 ?oc (sample_client\<lparr>hc_sent := ws\<rparr>)"
    have step: "challenge_loop ?env id ?u k 3 oc0 (sample_client\<lparr>hc_sent := ws\<rparr>) = ?loop (k + 1) (ws @ [?w])"
      if "k \<le> 3" for k ws oc0
      using one [of "sample_client\<lparr>hc_sent := ws\<rparr>"] that
      by (intro loop_again) (auto simp: sample_client_def clearable_def)
    have start: "sample_client = sample_client\<lparr>hc_sent := []\<rparr>" by (simp add: sample_client_def)
    have "fetch_with_challenge_retry ?env id ?u 3 sample_client = ?loop 2 [?w]"
      unfolding fetch_with_challenge_retry_def
      using step [of 1 "\<lparr>co_status = 0, co_body = [], co_challenge = None\<rparr>" "[]"] start by (simp add: numeral_2_eq_2 numeral_3_eq_3)
    also have "\<dots> = ?loop 3 [?w, ?w]" using step [of 2 ?oc "[?w]"] by simp
    also have "\<dots> = ?loop 4 [?w, ?w, ?w]" using step [of 3 ?oc "[?w, ?w]"] by simp
    also have "\<dots> = Ret (sample_client\<lparr>hc_sent := [?w, ?w, ?w]\<rparr>, Inr ?oc)" by (rule loop_end) simp
    finally show ?thesis .
  qed
  from challenge_retry_bounded [OF run] have "\<exists>ws. hc_sent (sample_client\<lparr>hc_sent := [?w, ?w, ?w]\<rparr>)
      = hc_sent sample_client @ ws" by blast
  with run show ?thesis by simp
qed

text \<open>
  The network cannot crash the client through cookies: when header values that read as text
  are ASCII, every operation but the challenge retry (whose classifier slices the body) returns,
  whatever the hops, the headers and the Set-Cookie values of the answers are.
\<close>
theorem network_cookies_never_panic:
  assumes "\<And>v s. cv_to_str env v = Some s \<Longrightarrow> is_ascii_str s"
    and "case x of OpRetry lossy u n \<Rightarrow> False | _ \<Rightarrow> True"
  shows "client_run env x hc \<noteq> Panic"
  using run_calm [of env x] assms by (simp add: calm_def ascii_values_def)

theorem network_cookies_never_panic_witness:
  "client_run (sample_client_env (answers (sample_response 200 [(''Set-Cookie'', ''a=b; Path'' @ [CHR 0xC3, CHR 0xA9])] [])))
     (OpFetch (sample_url ''https'' ''b.test'' ''/'' 443) None) sample_client \<noteq> Panic"
proof (rule network_cookies_never_panic)
  show "cv_to_str (sample_client_env y) v = Some s \<Longrightarrow> is_ascii_str s" for y v s
    by (simp add: sample_client_env_def split: if_splits)
qed simp

text \<open>
  Cookies of a redirect's target are stored for its source: the client stores the Set-Cookie
  headers of the final response under the URL it was asked for. Here \<open>a.test\<close> redirects to
  \<open>evil.test\<close>, which sets a cookie; afterwards it is in the jar for both, and the next request to
  \<open>a.test\<close> carries the value \<open>evil.test\<close> chose.
\<close>
theorem redirect_target_plants_cookie:
  "let resp = sample_response 200 [(''Set-Cookie'', ''sid=evil'')] [];
       env = sample_client_env \<lparr>ex_hops = [(''a.test'', []), (''evil.test'', [''sid=evil''])], ex_result = Inr resp\<rparr>
   in case fetch_with_overrides env (sample_url ''https'' ''a.test'' ''/'' 443) None sample_client of
        Panic \<Rightarrow> False
      | Ret (hc, r) \<Rightarrow> provider_cookies env ''a.test'' (hc_jar hc) = Some ''sid=evil''"
  by code_simp

text \<open>
  The cookie provider knows no initiator: it asks the jar with a same-origin context, so a cookie
  marked \<open>SameSite=Strict\<close> goes out with every request to its site, whoever caused it.
\<close>
theorem strict_cookie_always_sent:
  "let env = sample_client_env (answers (sample_response 200 [] []))
   in case store_cookie sample_env (sample_url ''https'' ''a.test'' ''/'' 443) ''sid=1; SameSite=Strict'' [] of
        Panic \<Rightarrow> False
      | Ret j \<Rightarrow> provider_cookies env ''a.test'' j = Some ''sid=1''
          \<and> cookies_for_url_with_context sample_env j (sample_url ''https'' ''a.test'' ''/'' 443) CrossSiteSafe = []"
  by code_simp

text \<open>
  Continuing a paused request loses it: with no method given in the answer the client sends a GET
  without a body, whatever the paused request was; and of the methods that can be given only POST
  is used, every other one becomes GET.
\<close>
theorem continue_keeps_only_post:
  assumes "intercept env u (ActContinue None m hs post) hc = Ret (hc', r)"
  shows "\<exists>ws. hc_sent hc' = hc_sent hc @ ws \<and>
    (\<forall>w \<in> set ws. if m = Some ''POST'' then wr_method w = ''POST'' else wr_method w = ''GET'' \<and> wr_body w = None)"
  using assms checked_send [of env u _ hc hc' r]
  by (fastforce simp: intercept_def Let_def sent_none_def sent_one_def split: option.splits)

end
