(* ===== verification/Redact.thy ===== *)
theory Redact
  imports Prelude
begin

text \<open>
  \<open>oxibrowser-core/src/security/redact.rs\<close>: what is replaced in headers, URLs and form bodies
  before they are persisted. The \<open>url\<close> crate (parsing, the decoded query pairs, replacing the
  query) is the record \<open>query_url\<close>; the standard library's replacement of ill-formed UTF-8 is the
  argument \<open>lossy\<close>, used on ill-formed text only.
\<close>

section \<open>Profiles\<close>

definition REDACTED :: string where
  "REDACTED = ''__REDACTED__''"

definition default_sensitive_headers :: "string list" where
  "default_sensitive_headers =
     [''authorization'', ''proxy-authorization'', ''cookie'', ''set-cookie'', ''x-api-key'', ''x-auth-token'',
      ''x-access-token'', ''x-refresh-token'', ''x-csrf-token'', ''x-xsrf-token'']"

definition default_sensitive_query_keys :: "string list" where
  "default_sensitive_query_keys =
     [''token'', ''access_token'', ''refresh_token'', ''id_token'', ''api_key'', ''apikey'', ''key'', ''secret'',
      ''signature'', ''sig'', ''code'', ''state'', ''password'', ''passwd'', ''pwd'', ''otp'', ''auth'', ''email'']"

definition default_sensitive_form_keys :: "string list" where
  "default_sensitive_form_keys =
     [''password'', ''passwd'', ''pass'', ''pwd'', ''secret'', ''token'', ''otp'', ''code'', ''auth'']"

record redaction_profile =
  rp_headers :: "string list"
  rp_query_keys :: "string list"
  rp_form_keys :: "string list"

definition profile_default :: redaction_profile where
  "profile_default =
     \<lparr>rp_headers = default_sensitive_headers, rp_query_keys = default_sensitive_query_keys,
      rp_form_keys = default_sensitive_form_keys\<rparr>"

definition with_extra_headers :: "string list \<Rightarrow> redaction_profile \<Rightarrow> redaction_profile" where
  "with_extra_headers hs p = p\<lparr>rp_headers := rp_headers p @ hs\<rparr>"

text \<open>The process-wide extension, written once.\<close>

definition set_extra_sensitive_headers :: "string list \<Rightarrow> string list option \<Rightarrow> string list option" where
  "set_extra_sensitive_headers hs cell = (case cell of None \<Rightarrow> Some hs | Some old \<Rightarrow> Some old)"

definition active_profile :: "string list option \<Rightarrow> redaction_profile" where
  "active_profile cell =
     (case cell of
        Some extra \<Rightarrow> if extra \<noteq> [] then with_extra_headers extra profile_default else profile_default
      | None \<Rightarrow> profile_default)"

section \<open>Headers\<close>

definition is_sensitive_header :: "string \<Rightarrow> redaction_profile \<Rightarrow> bool" where
  "is_sensitive_header name p = (\<exists>s \<in> set (rp_headers p). eq_ignore_ascii_case s (str_trim name))"

definition redact_headers :: "(string \<times> string) list \<Rightarrow> redaction_profile \<Rightarrow> (string \<times> string) list" where
  "redact_headers hs p = map (\<lambda>(name, v). if is_sensitive_header name p then (name, REDACTED) else (name, v)) hs"

section \<open>Components\<close>

definition is_sensitive_key :: "string \<Rightarrow> string list \<Rightarrow> bool" where
  "is_sensitive_key key keys = (\<exists>k \<in> set keys. eq_ignore_ascii_case k key)"

definition is_unreserved :: "char \<Rightarrow> bool" where
  "is_unreserved c \<longleftrightarrow> is_ascii_alnum c \<or> c \<in> {CHR ''-'', CHR ''_'', CHR ''.'', CHR 0x7E}"

definition hex_upper :: "int \<Rightarrow> char" where
  "hex_upper d = char_of (if d < 10 then 48 + d else 55 + d)"

definition urlencode_component :: "string \<Rightarrow> string" where
  "urlencode_component s =
     concat (map (\<lambda>c. if is_unreserved c then [c]
                       else [CHR ''%'', hex_upper (byte c div 16), hex_upper (byte c mod 16)]) s)"

definition hex_value :: "char \<Rightarrow> int option" where
  "hex_value c =
     (if is_ascii_digit c then Some (byte c - 48)
      else if 65 \<le> byte c \<and> byte c \<le> 70 then Some (byte c - 55)
      else if 97 \<le> byte c \<and> byte c \<le> 102 then Some (byte c - 87)
      else None)"

text \<open>\<open>u8::from_str_radix(_, 16)\<close> on two bytes: the standard library accepts a leading plus.\<close>

definition hex_pair :: "char \<Rightarrow> char \<Rightarrow> int option" where
  "hex_pair a b =
     (case hex_value b of
        None \<Rightarrow> None
      | Some y \<Rightarrow>
          if a = CHR ''+'' then Some y
          else (case hex_value a of Some x \<Rightarrow> Some (16 * x + y) | None \<Rightarrow> None))"

fun percent_bytes :: "string \<Rightarrow> string" where
  "percent_bytes [] = []"
| "percent_bytes (c # cs) =
     (if c = CHR ''%''
      then (case cs of
              a # b # rest \<Rightarrow>
                (case hex_pair a b of
                   Some n \<Rightarrow> char_of n # percent_bytes rest
                 | None \<Rightarrow> c # percent_bytes cs)
            | _ \<Rightarrow> c # percent_bytes cs)
      else if c = CHR ''+'' then CHR '' '' # percent_bytes cs
      else c # percent_bytes cs)"

definition percent_decode :: "(string \<Rightarrow> string) \<Rightarrow> string \<Rightarrow> string" where
  "percent_decode lossy s = (let bs = percent_bytes s in if is_utf8 bs then bs else lossy bs)"

definition redacted_value :: "string list \<Rightarrow> string \<times> string \<Rightarrow> string" where
  "redacted_value keys p = (if is_sensitive_key (fst p) keys then REDACTED else snd p)"

fun form_pairs_from :: "string list \<Rightarrow> (string \<times> string) list \<Rightarrow> string \<Rightarrow> string" where
  "form_pairs_from keys [] out = out"
| "form_pairs_from keys ((k, v) # ps) out =
     form_pairs_from keys ps
       ((if out \<noteq> [] then out @ ''&'' else out)
        @ urlencode_component k @ ''='' @ urlencode_component (redacted_value keys (k, v)))"

definition form_urlencoded :: "(string \<times> string) list \<Rightarrow> string list \<Rightarrow> string" where
  "form_urlencoded ps keys = form_pairs_from keys ps []"

section \<open>URLs and bodies\<close>

record 'u query_url =
  qu_parse :: "string \<Rightarrow> 'u option"
  qu_pairs :: "'u \<Rightarrow> (string \<times> string) list"
  qu_set_query :: "string option \<Rightarrow> 'u \<Rightarrow> 'u"
  qu_show :: "'u \<Rightarrow> string"

definition redact_url_query :: "('u, 'x) query_url_scheme \<Rightarrow> string \<Rightarrow> redaction_profile \<Rightarrow> string" where
  "redact_url_query q u p =
     (case qu_parse q u of
        None \<Rightarrow> u
      | Some parsed \<Rightarrow>
          (let rewritten = form_urlencoded (qu_pairs q parsed) (rp_query_keys p)
           in qu_show q (qu_set_query q (if rewritten = [] then None else Some rewritten) parsed)))"

datatype redacted_body = NoBody | Body string | Opaque

definition form_body_pairs :: "(string \<Rightarrow> string) \<Rightarrow> string \<Rightarrow> (string \<times> string) list" where
  "form_body_pairs lossy text =
     map (\<lambda>pair. let (k, v) = (case split_once (CHR ''='') pair of Some kv \<Rightarrow> kv | None \<Rightarrow> (pair, []))
                 in (percent_decode lossy k, percent_decode lossy v))
       (filter (\<lambda>p. p \<noteq> []) (split_on (CHR ''&'') text))"

definition is_form_type :: "string \<Rightarrow> bool" where
  "is_form_type content_type =
     eq_ignore_ascii_case (str_trim (hd (split_on (CHR '';'') content_type))) ''application/x-www-form-urlencoded''"

definition redact_post_body :: "(string \<Rightarrow> string) \<Rightarrow> string option \<Rightarrow> string \<Rightarrow> redaction_profile \<Rightarrow> redacted_body" where
  "redact_post_body lossy body content_type p =
     (case body of
        None \<Rightarrow> NoBody
      | Some bytes \<Rightarrow>
          if bytes = [] then NoBody
          else if \<not> is_form_type content_type then Opaque
          else if \<not> is_utf8 bytes then Opaque
          else Body (form_urlencoded (form_body_pairs lossy bytes) (rp_form_keys p)))"

section \<open>Lemmas\<close>

lemma urlencode_Cons:
  "urlencode_component (c # cs) =
     (if is_unreserved c then [c] else [CHR ''%'', hex_upper (byte c div 16), hex_upper (byte c mod 16)])
     @ urlencode_component cs"
  by (simp add: urlencode_component_def)

lemma byte_char_of: "0 \<le> n \<Longrightarrow> n < 256 \<Longrightarrow> byte (char_of n) = n"
  by simp

lemma hex_value_upper: "0 \<le> d \<Longrightarrow> d < 16 \<Longrightarrow> hex_value (hex_upper d) = Some d"
  by (auto simp: hex_value_def hex_upper_def is_ascii_digit_def)

lemma hex_upper_unreserved: "0 \<le> d \<Longrightarrow> d < 16 \<Longrightarrow> is_unreserved (hex_upper d)"
  by (auto simp: is_unreserved_def is_ascii_alnum_def hex_upper_def is_ascii_digit_def is_ascii_lowercase_def
      is_ascii_uppercase_def)

lemma byte_nibbles: "0 \<le> byte c div 16" "byte c div 16 < 16" "0 \<le> byte c mod 16" "byte c mod 16 < 16"
proof -
  have "0 \<le> byte c" "byte c < 256" using byte_range [of c] by auto
  then show "0 \<le> byte c div 16" "byte c div 16 < 16" "0 \<le> byte c mod 16" "byte c mod 16 < 16" by presburger+
qed

lemma hex_pair_upper: "hex_pair (hex_upper (byte c div 16)) (hex_upper (byte c mod 16)) = Some (byte c)"
proof -
  have b: "0 \<le> byte c div 16" "byte c div 16 < 16" "0 \<le> byte c mod 16" "byte c mod 16 < 16"
    by (rule byte_nibbles)+
  have "hex_upper (byte c div 16) \<noteq> CHR ''+''"
    using hex_upper_unreserved [OF b(1,2)]
    by (auto simp: is_unreserved_def is_ascii_alnum_def is_ascii_digit_def is_ascii_lowercase_def is_ascii_uppercase_def)
  then show ?thesis using b by (simp add: hex_pair_def hex_value_upper)
qed

lemma unreserved_char: "is_unreserved c \<Longrightarrow> c \<noteq> CHR ''%'' \<and> c \<noteq> CHR ''+'' \<and> c \<noteq> CHR ''&'' \<and> c \<noteq> CHR ''=''"
  by (auto simp: is_unreserved_def is_ascii_alnum_def is_ascii_digit_def is_ascii_lowercase_def is_ascii_uppercase_def)

lemma percent_urlencode: "percent_bytes (urlencode_component s) = s"
proof (induction s)
  case (Cons c cs)
  show ?case
  proof (cases "is_unreserved c")
    case True
    with unreserved_char [OF this] Cons show ?thesis by (simp add: urlencode_Cons)
  next
    case False
    with Cons show ?thesis by (simp add: urlencode_Cons hex_pair_upper)
  qed
qed (simp add: urlencode_component_def)

lemma urlencode_chars: "x \<in> set (urlencode_component s) \<Longrightarrow> x \<noteq> CHR ''&'' \<and> x \<noteq> CHR ''=''"
proof (induction s)
  case (Cons c cs)
  have "is_unreserved (hex_upper (byte c div 16))" "is_unreserved (hex_upper (byte c mod 16))"
    by (intro hex_upper_unreserved byte_nibbles)+
  with Cons show ?case using unreserved_char by (auto simp: urlencode_Cons split: if_splits)
qed (simp add: urlencode_component_def)

definition render_pair :: "string list \<Rightarrow> string \<times> string \<Rightarrow> string" where
  "render_pair keys kv = urlencode_component (fst kv) @ ''='' @ urlencode_component (redacted_value keys kv)"

lemma form_pairs_from_join:
  "form_pairs_from keys ps out =
     (if ps = [] then out else (if out \<noteq> [] then out @ ''&'' else out) @ join_with ''&'' (map (render_pair keys) ps))"
proof (induction keys ps out rule: form_pairs_from.induct)
  case (2 keys k v ps out)
  then show ?case by (cases ps) (simp_all add: render_pair_def)
qed simp

lemma form_urlencoded_join: "form_urlencoded ps keys = join_with ''&'' (map (render_pair keys) ps)"
  by (simp add: form_urlencoded_def form_pairs_from_join)

lemma split_join:
  "ws \<noteq> [] \<Longrightarrow> (\<And>w c. w \<in> set ws \<Longrightarrow> c \<in> set w \<Longrightarrow> c \<noteq> d) \<Longrightarrow> split_on d (join_with [d] ws) = ws"
proof (induction "[d]" ws rule: join_with.induct)
  case (2 x)
  then show ?case by (simp add: split_by_none)
next
  case (3 x y zs)
  then have "split_on d (x @ d # join_with [d] (y # zs)) = x # split_on d (join_with [d] (y # zs))"
    by (intro split_by_append_sep) auto
  moreover have "split_on d (join_with [d] (y # zs)) = y # zs" using 3 by (metis list.set_intros(2) list.simps(3))
  ultimately show ?case by simp
qed simp

lemma render_pair_chars: "c \<in> set (render_pair keys kv) \<Longrightarrow> c \<noteq> CHR ''&''"
  by (auto simp: render_pair_def dest: urlencode_chars)

lemma decode_pair:
  assumes "is_utf8 (fst kv)" and "is_utf8 (redacted_value keys kv)"
  shows "(let (k, v) = (case split_once (CHR ''='') (render_pair keys kv) of Some x \<Rightarrow> x | None \<Rightarrow> (render_pair keys kv, []))
          in (percent_decode lossy k, percent_decode lossy v)) = (fst kv, redacted_value keys kv)"
proof -
  have "CHR ''='' \<notin> set (urlencode_component (fst kv))" using urlencode_chars by blast
  then have "split_once (CHR ''='') (render_pair keys kv)
      = Some (urlencode_component (fst kv), urlencode_component (redacted_value keys kv))"
    using split_once_append by (simp add: render_pair_def)
  with assms show ?thesis by (simp add: percent_decode_def percent_urlencode)
qed

lemma is_utf8_REDACTED: "is_utf8 REDACTED"
  by code_simp

lemma form_pairs_roundtrip:
  assumes "\<And>k v. (k, v) \<in> set ps \<Longrightarrow> is_utf8 k \<and> is_utf8 v"
  shows "form_body_pairs lossy (form_urlencoded ps keys) = map (\<lambda>kv. (fst kv, redacted_value keys kv)) ps"
proof (cases "ps = []")
  case True
  then show ?thesis by (simp add: form_body_pairs_def form_urlencoded_join)
next
  case False
  have "split_on (CHR ''&'') (form_urlencoded ps keys) = map (render_pair keys) ps"
    unfolding form_urlencoded_join using False render_pair_chars by (intro split_join) auto
  moreover have "filter (\<lambda>p. p \<noteq> []) (map (render_pair keys) ps) = map (render_pair keys) ps"
    by (auto simp: filter_id_conv render_pair_def)
  moreover have "is_utf8 (redacted_value keys kv)" if "kv \<in> set ps" for kv
    using assms [of "fst kv" "snd kv"] that by (simp add: redacted_value_def is_utf8_REDACTED)
  moreover have "is_utf8 (fst kv)" if "kv \<in> set ps" for kv
    using assms [of "fst kv" "snd kv"] that by simp
  ultimately show ?thesis
    unfolding form_body_pairs_def by (simp only: list.map_comp map_eq_conv comp_apply) (use decode_pair in blast)
qed

lemma body_pairs_utf8:
  "(\<And>s. is_utf8 (lossy s)) \<Longrightarrow> (k, v) \<in> set (form_body_pairs lossy text) \<Longrightarrow> is_utf8 k \<and> is_utf8 v"
  by (auto simp: form_body_pairs_def percent_decode_def Let_def split: prod.splits)

section \<open>Properties\<close>

text \<open>
  C23: What survives of a form body: a body that is kept at all decodes to the same fields in the
  same order, with the value of every sensitive key, in whatever case and encoding it was
  written, replaced by the fixed marker and every other value unchanged.
\<close>
theorem redacted_form_fields:
  assumes "\<And>s. is_utf8 (lossy s)"
    and "redact_post_body lossy (Some b) ct p = Body out"
  shows "form_body_pairs lossy out =
    map (\<lambda>(k, v). (k, if is_sensitive_key k (rp_form_keys p) then REDACTED else v)) (form_body_pairs lossy b)"
proof -
  have out: "out = form_urlencoded (form_body_pairs lossy b) (rp_form_keys p)"
    using assms(2) by (auto simp: redact_post_body_def split: if_splits)
  show ?thesis
    unfolding out using form_pairs_roundtrip [of "form_body_pairs lossy b" lossy "rp_form_keys p"] body_pairs_utf8 [OF assms(1)]
    by (auto simp: redacted_value_def)
qed

theorem redacted_form_fields_witness:
  "form_body_pairs (\<lambda>_. []) ''user=a&Password=__REDACTED__'' = [(''user'', ''a''), (''Password'', ''__REDACTED__'')]"
proof -
  have run: "redact_post_body (\<lambda>_. []) (Some ''user=a&P%61ssword=hunter2'') ''application/x-www-form-urlencoded'' profile_default
      = Body ''user=a&Password=__REDACTED__''" by code_simp
  have pairs: "form_body_pairs (\<lambda>_. []) ''user=a&P%61ssword=hunter2'' = [(''user'', ''a''), (''Password'', ''hunter2'')]"
    by code_simp
  have keys: "is_sensitive_key ''user'' (rp_form_keys profile_default) = False"
    "is_sensitive_key ''Password'' (rp_form_keys profile_default) = True" by code_simp+
  have "is_utf8 []" by code_simp
  with redacted_form_fields [OF _ run] show ?thesis by (simp add: pairs keys REDACTED_def)
qed

text \<open>
  No secret in the output: two form bodies with the same fields that differ only in the values
  of sensitive keys are persisted as the same bytes.
\<close>
theorem redaction_hides_secrets:
  assumes "map fst (form_body_pairs lossy b1) = map fst (form_body_pairs lossy b2)"
    and "map (redacted_value (rp_form_keys p)) (form_body_pairs lossy b1)
       = map (redacted_value (rp_form_keys p)) (form_body_pairs lossy b2)"
    and "is_utf8 b1" and "is_utf8 b2" and "b1 \<noteq> []" and "b2 \<noteq> []"
  shows "redact_post_body lossy (Some b1) ct p = redact_post_body lossy (Some b2) ct p"
proof -
  have render: "map (render_pair keys) ps
      = map (\<lambda>(k, v). urlencode_component k @ ''='' @ urlencode_component v) (zip (map fst ps) (map (redacted_value keys) ps))"
    for keys ps by (induction ps) (auto simp: render_pair_def)
  show ?thesis using assms by (simp add: redact_post_body_def form_urlencoded_join render)
qed

theorem redaction_hides_secrets_witness:
  "redact_post_body id (Some ''user=a&password=one'') ''application/x-www-form-urlencoded'' profile_default
   = redact_post_body id (Some ''user=a&password=other'') ''application/x-www-form-urlencoded'' profile_default"
  by (rule redaction_hides_secrets; code_simp)

text \<open>
  Headers keep their names and their order; a value is replaced exactly when the trimmed name is
  in the profile's list in some case, and redacting twice changes nothing.
\<close>
theorem redact_headers_exact:
  "map fst (redact_headers hs p) = map fst hs
   \<and> map snd (redact_headers hs p) = map (\<lambda>(n, v). if is_sensitive_header n p then REDACTED else v) hs
   \<and> redact_headers (redact_headers hs p) p = redact_headers hs p"
  by (auto simp: redact_headers_def)

end
