(* ===== verification/SessionParser.thy ===== *)
theory SessionParser
  imports Prelude
begin

text \<open>
  \<open>oxibrowser/src/session/parser.rs\<close>: the command language of the interactive session. A
  command's floating-point argument is kept as the literal it was read from, which
  \<open>f64_syntax\<close> accepts as \<open>str::parse::<f64>\<close> does; \<open>usize\<close> has 64 bits.
\<close>

section \<open>Commands\<close>

datatype session_command =
    New
  | Goto string string "string option" "int option"
  | Back string
  | Forward string
  | Reload string
  | Click string string
  | Fill string string string
  | Press string string
  | TypeText string string string
  | Select string string string
  | Check string string
  | Uncheck string string
  | Scroll string string string
  | Eval string string bool
  | Extract string "string option" bool "string option" bool bool bool bool "int option"
  | Content string string "int option"
  | Screenshot string "string option" "int option"
  | Wait string string "int option"
  | Observe string "int option" "int option"
  | Close string
  | CloseAll
  | ListTabs
  | SaveState string
  | LoadState string
  | AccountList
  | AccountStatus string
  | AccountLogout string
  | AccountLogin string "string option" "string option" "string option" "string option"
  | Takeover "string option"
  | Help
  | Exit

type_synonym 'a parsed = "string + 'a"

definition strip_quotes :: "string \<Rightarrow> string" where
  "strip_quotes s =
     (let s = str_trim s
      in if 2 \<le> length s
            \<and> ((starts_with s [CHR 0x22] \<and> ends_with s [CHR 0x22])
                \<or> (starts_with s [CHR 0x27] \<and> ends_with s [CHR 0x27]))
         then take (length s - 2) (drop 1 s)
         else s)"

definition require_tab_id :: "string list \<Rightarrow> string \<Rightarrow> (string list \<times> string) parsed" where
  "require_tab_id args usage = (case args of [] \<Rightarrow> Inl usage | t # rest \<Rightarrow> Inr (rest, t))"

definition first_or :: "string list \<Rightarrow> string \<Rightarrow> string parsed" where
  "first_or pos usage = (case pos of [] \<Rightarrow> Inl usage | x # rest \<Rightarrow> Inr x)"

text \<open>The syntax of floating-point literals.\<close>

definition digits1 :: "string \<Rightarrow> bool" where
  "digits1 s \<longleftrightarrow> s \<noteq> [] \<and> list_all is_ascii_digit s"

definition mantissa_ok :: "string \<Rightarrow> bool" where
  "mantissa_ok s =
     (case split_once (CHR ''.'') s of
        None \<Rightarrow> digits1 s
      | Some (a, b) \<Rightarrow> list_all is_ascii_digit a \<and> list_all is_ascii_digit b \<and> (a \<noteq> [] \<or> b \<noteq> []))"

definition strip_sign :: "string \<Rightarrow> string" where
  "strip_sign s = (case s of c # cs \<Rightarrow> if c = CHR ''+'' \<or> c = CHR ''-'' then cs else s | [] \<Rightarrow> [])"

definition f64_syntax :: "string \<Rightarrow> bool" where
  "f64_syntax s =
     (let body = strip_sign s; lower = to_ascii_lowercase body
      in if lower \<in> {''inf'', ''infinity'', ''nan''} then True
         else case split_once (CHR ''e'') lower of
                None \<Rightarrow> mantissa_ok lower
              | Some (m, e) \<Rightarrow> mantissa_ok m \<and> digits1 (strip_sign e))"

section \<open>Flags\<close>

definition take_value :: "string list \<Rightarrow> string \<Rightarrow> (string \<times> string list) parsed" where
  "take_value rest err = (case rest of [] \<Rightarrow> Inl err | v # vs \<Rightarrow> Inr (v, vs))"

definition number_or :: "nat \<Rightarrow> string \<Rightarrow> string \<Rightarrow> int parsed" where
  "number_or w v err = (case parse_uint w v of Some n \<Rightarrow> Inr n | None \<Rightarrow> Inl err)"

fun goto_flags :: "string list \<Rightarrow> string option \<Rightarrow> int option \<Rightarrow> (string option \<times> int option) parsed" where
  "goto_flags [] w t = Inr (w, t)"
| "goto_flags [a] w t =
     (if a = ''--wait'' then Inl ''goto: --wait requires a selector''
      else if a = ''--timeout'' then Inl ''goto: --timeout requires a value''
      else Inl (''goto: unexpected argument: '' @ a))"
| "goto_flags (a # v # rest) w t =
     (if a = ''--wait'' then goto_flags rest (Some v) t
      else if a = ''--timeout''
      then res_bind (number_or 64 v ''goto: --timeout must be a number'') (\<lambda>n. goto_flags rest w (Some n))
      else Inl (''goto: unexpected argument: '' @ a))"

definition goto_usage :: string where
  "goto_usage = ''goto <tab_id> <url> [--wait <selector>] [--timeout <ms>]''"

definition parse_goto :: "string list \<Rightarrow> session_command parsed" where
  "parse_goto args =
     res_bind (require_tab_id args goto_usage) (\<lambda>(pos, tab_id).
     res_bind (first_or pos goto_usage) (\<lambda>url.
     res_bind (goto_flags (tl pos) None None) (\<lambda>(w, t). Inr (Goto tab_id url w t))))"

fun observe_flags :: "string list \<Rightarrow> int option \<Rightarrow> int option \<Rightarrow> (int option \<times> int option) parsed" where
  "observe_flags [] b m = Inr (b, m)"
| "observe_flags [a] b m =
     (if a = ''--budget'' then Inl ''observe: --budget requires a value''
      else if a = ''--max-actionable'' then Inl ''observe: --max-actionable requires a value''
      else Inl (''observe: unexpected argument: '' @ a))"
| "observe_flags (a # v # rest) b m =
     (if a = ''--budget''
      then res_bind (number_or 64 v ''observe: --budget must be a number'') (\<lambda>n. observe_flags rest (Some n) m)
      else if a = ''--max-actionable''
      then res_bind (number_or 64 v ''observe: --max-actionable must be a number'') (\<lambda>n. observe_flags rest b (Some n))
      else Inl (''observe: unexpected argument: '' @ a))"

definition parse_observe :: "string list \<Rightarrow> session_command parsed" where
  "parse_observe args =
     res_bind (require_tab_id args ''observe <tab_id> [--budget N] [--max-actionable N]'') (\<lambda>(pos, tab_id).
     res_bind (observe_flags pos None None) (\<lambda>(b, m). Inr (Observe tab_id b m)))"

definition parse_eval :: "string list \<Rightarrow> session_command parsed" where
  "parse_eval args =
     res_bind (require_tab_id args ''eval <tab_id> <expression> [--await]'') (\<lambda>(pos, tab_id).
       let await_promise = (''--await'' \<in> set pos);
           expr_parts = filter (\<lambda>p. p \<noteq> ''--await'') pos
       in if expr_parts = [] then Inl ''eval <tab_id> <expression> [--await]''
          else Inr (Eval tab_id (strip_quotes (join_with '' '' expr_parts)) await_promise))"

record extract_opts =
  xo_selector :: "string option"
  xo_all :: bool
  xo_attrs :: "string option"
  xo_links :: bool
  xo_title :: bool
  xo_text :: bool
  xo_markdown :: bool
  xo_max_bytes :: "int option"

definition extract_defaults :: extract_opts where
  "extract_defaults =
     \<lparr>xo_selector = None, xo_all = False, xo_attrs = None, xo_links = False, xo_title = False,
      xo_text = False, xo_markdown = False, xo_max_bytes = None\<rparr>"

fun extract_switch :: "string \<Rightarrow> extract_opts \<Rightarrow> extract_opts option" where
  "extract_switch a o' =
     (if a = ''--all'' then Some (o'\<lparr>xo_all := True\<rparr>)
      else if a = ''--links'' then Some (o'\<lparr>xo_links := True\<rparr>)
      else if a = ''--title'' then Some (o'\<lparr>xo_title := True\<rparr>)
      else if a = ''--text'' then Some (o'\<lparr>xo_text := True\<rparr>)
      else if a = ''--markdown'' then Some (o'\<lparr>xo_markdown := True\<rparr>)
      else None)"

function extract_flags :: "string list \<Rightarrow> extract_opts \<Rightarrow> extract_opts parsed" where
  "extract_flags [] o' = Inr o'"
| "extract_flags (a # rest) o' =
     (if a = ''--selector''
      then res_bind (take_value rest ''extract: --selector requires a value'')
             (\<lambda>(v, _). extract_flags (tl rest) (o'\<lparr>xo_selector := Some v\<rparr>))
      else if a = ''--attrs''
      then res_bind (take_value rest ''extract: --attrs requires a value'')
             (\<lambda>(v, _). extract_flags (tl rest) (o'\<lparr>xo_attrs := Some v\<rparr>))
      else if a = ''--max-bytes''
      then res_bind (take_value rest ''extract: --max-bytes requires a value'')
             (\<lambda>(v, _). res_bind (number_or 64 v ''extract: --max-bytes must be a number'')
               (\<lambda>n. extract_flags (tl rest) (o'\<lparr>xo_max_bytes := Some n\<rparr>)))
      else case extract_switch a o' of
             Some o'' \<Rightarrow> extract_flags rest o''
           | None \<Rightarrow> Inl (''extract: unexpected argument: '' @ a))"
  by pat_completeness auto
termination
  by (relation "measure (\<lambda>(xs, o'). length xs)") auto

definition extract_usage :: string where
  "extract_usage = ''extract <tab_id> [--selector <s>] [--all] [--attrs a,b] [--links] [--title] [--text] [--markdown] [--max-bytes N]''"

definition parse_extract :: "string list \<Rightarrow> session_command parsed" where
  "parse_extract args =
     res_bind (require_tab_id args extract_usage) (\<lambda>(pos, tab_id).
     res_bind (extract_flags pos extract_defaults) (\<lambda>x.
       Inr (Extract tab_id (xo_selector x) (xo_all x) (xo_attrs x) (xo_links x) (xo_title x) (xo_text x)
              (xo_markdown x) (xo_max_bytes x))))"

fun content_flags :: "string list \<Rightarrow> string \<Rightarrow> int option \<Rightarrow> (string \<times> int option) parsed" where
  "content_flags [] f m = Inr (f, m)"
| "content_flags [a] f m =
     (if a = ''--format'' then Inl ''content: --format requires a value''
      else if a = ''--max-bytes'' then Inl ''content: --max-bytes requires a value''
      else Inl (''content: unexpected argument: '' @ a))"
| "content_flags (a # v # rest) f m =
     (if a = ''--format'' then content_flags rest v m
      else if a = ''--max-bytes''
      then res_bind (number_or 64 v ''content: --max-bytes must be a number'') (\<lambda>n. content_flags rest f (Some n))
      else Inl (''content: unexpected argument: '' @ a))"

definition parse_content :: "string list \<Rightarrow> session_command parsed" where
  "parse_content args =
     res_bind (require_tab_id args ''content <tab_id> [--format markdown|html|text] [--max-bytes N]'') (\<lambda>(pos, tab_id).
     res_bind (content_flags pos ''markdown'' None) (\<lambda>(f, m). Inr (Content tab_id f m)))"

fun screenshot_flags :: "string list \<Rightarrow> string option \<Rightarrow> int option \<Rightarrow> (string option \<times> int option) parsed" where
  "screenshot_flags [] p w = Inr (p, w)"
| "screenshot_flags [a] p w =
     (if a = ''-o'' then Inl ''screenshot: -o requires a path''
      else if a = ''--width'' then Inl ''screenshot: --width requires a value''
      else Inl (''screenshot: unexpected argument: '' @ a))"
| "screenshot_flags (a # v # rest) p w =
     (if a = ''-o'' then screenshot_flags rest (Some v) w
      else if a = ''--width''
      then res_bind (number_or 32 v ''screenshot: --width must be a number'') (\<lambda>n. screenshot_flags rest p (Some n))
      else Inl (''screenshot: unexpected argument: '' @ a))"

definition parse_screenshot :: "string list \<Rightarrow> session_command parsed" where
  "parse_screenshot args =
     res_bind (require_tab_id args ''screenshot <tab_id> [-o path] [--width N]'') (\<lambda>(pos, tab_id).
     res_bind (screenshot_flags pos None None) (\<lambda>(p, w). Inr (Screenshot tab_id p w)))"

fun wait_flags :: "string list \<Rightarrow> int option \<Rightarrow> int option parsed" where
  "wait_flags [] t = Inr t"
| "wait_flags [a] t =
     (if a = ''--timeout'' then Inl ''wait: --timeout requires a value''
      else Inl (''wait: unexpected argument: '' @ a))"
| "wait_flags (a # v # rest) t =
     (if a = ''--timeout''
      then res_bind (number_or 64 v ''wait: --timeout must be a number'') (\<lambda>n. wait_flags rest (Some n))
      else Inl (''wait: unexpected argument: '' @ a))"

definition wait_usage :: string where
  "wait_usage = ''wait <tab_id> <selector> [--timeout <ms>]''"

definition parse_wait :: "string list \<Rightarrow> session_command parsed" where
  "parse_wait args =
     res_bind (require_tab_id args wait_usage) (\<lambda>(pos, tab_id).
     res_bind (first_or pos wait_usage) (\<lambda>sel.
     res_bind (wait_flags (tl pos) None) (\<lambda>t. Inr (Wait tab_id sel t))))"

record login_opts =
  lo_mode :: "string option"
  lo_storage_state :: "string option"
  lo_cookies :: "string option"
  lo_agent :: "string option"

text \<open>A flag at the end of the line has no value: it is taken as not given.\<close>

function login_flags :: "string list \<Rightarrow> string list \<Rightarrow> login_opts \<Rightarrow> string list \<times> login_opts" where
  "login_flags [] pos x = (pos, x)"
| "login_flags (a # rest) pos x =
     (let v = (case rest of [] \<Rightarrow> None | y # ys \<Rightarrow> Some y)
      in if a = ''--mode'' then login_flags (tl rest) pos (x\<lparr>lo_mode := v\<rparr>)
         else if a = ''--storage-state'' then login_flags (tl rest) pos (x\<lparr>lo_storage_state := v\<rparr>)
         else if a = ''--cookies'' then login_flags (tl rest) pos (x\<lparr>lo_cookies := v\<rparr>)
         else if a = ''--agent'' then login_flags (tl rest) pos (x\<lparr>lo_agent := v\<rparr>)
         else login_flags rest (pos @ [a]) x)"
  by pat_completeness auto
termination
  by (relation "measure (\<lambda>(xs, pos, x). length xs)") auto

definition login_usage :: string where
  "login_usage = ''account_login <id> [--mode user|agent|import] [--agent ID] [--storage-state F] [--cookies F]''"

definition parse_account_login :: "string list \<Rightarrow> session_command parsed" where
  "parse_account_login args =
     (let (pos, x) = login_flags args [] \<lparr>lo_mode = None, lo_storage_state = None, lo_cookies = None, lo_agent = None\<rparr>
      in res_bind (first_or pos login_usage) (\<lambda>i.
           Inr (AccountLogin i (lo_mode x) (lo_storage_state x) (lo_cookies x) (lo_agent x))))"

section \<open>The command line\<close>

definition with_tab :: "string \<Rightarrow> (string \<Rightarrow> session_command) \<Rightarrow> string list \<Rightarrow> session_command parsed" where
  "with_tab usage mk args = res_bind (first_or args usage) (\<lambda>t. Inr (mk t))"

definition with_target ::
  "string \<Rightarrow> (string \<Rightarrow> string \<Rightarrow> session_command) \<Rightarrow> string list \<Rightarrow> session_command parsed" where
  "with_target usage mk args =
     res_bind (require_tab_id args usage) (\<lambda>(pos, tab_id).
     res_bind (first_or pos usage) (\<lambda>x. Inr (mk tab_id x)))"

text \<open>Commands with two operands read the first two positional words; \<open>type\<close> joins the rest.\<close>

definition with_operands ::
  "string \<Rightarrow> (string \<Rightarrow> string \<Rightarrow> string list \<Rightarrow> session_command parsed) \<Rightarrow> string list \<Rightarrow> session_command parsed" where
  "with_operands usage mk args =
     res_bind (require_tab_id args usage) (\<lambda>(pos, tab_id).
       case pos of sel # v # vs \<Rightarrow> mk tab_id sel (v # vs) | _ \<Rightarrow> Inl usage)"

definition parse_scroll :: "string list \<Rightarrow> session_command parsed" where
  "parse_scroll =
     with_operands ''scroll <tab_id> <dx> <dy>'' (\<lambda>t dx vs.
       if \<not> f64_syntax dx then Inl ''scroll: dx must be a number''
       else if \<not> f64_syntax (hd vs) then Inl ''scroll: dy must be a number''
       else Inr (Scroll t dx (hd vs)))"

definition one_path :: "string \<Rightarrow> (string \<Rightarrow> session_command) \<Rightarrow> string list \<Rightarrow> session_command parsed" where
  "one_path usage mk args = (case args of [p] \<Rightarrow> Inr (mk p) | _ \<Rightarrow> Inl usage)"

definition parse_close :: "string list \<Rightarrow> session_command parsed" where
  "parse_close args =
     (case args of
        [] \<Rightarrow> Inl ''close <tab_id> | close --all''
      | a # _ \<Rightarrow> if a = ''--all'' then Inr CloseAll else Inr (Close a))"

definition dispatch :: "string \<Rightarrow> string list \<Rightarrow> session_command parsed" where
  "dispatch cmd args =
     (if cmd = ''new'' then Inr New
      else if cmd = ''goto'' then parse_goto args
      else if cmd = ''back'' then with_tab ''back <tab_id>'' Back args
      else if cmd = ''forward'' then with_tab ''forward <tab_id>'' Forward args
      else if cmd = ''reload'' then with_tab ''reload <tab_id>'' Reload args
      else if cmd = ''observe'' then parse_observe args
      else if cmd = ''click'' then with_target ''click <tab_id> <selector>'' Click args
      else if cmd = ''fill''
      then with_operands ''fill <tab_id> <selector> <value>'' (\<lambda>t sel vs. Inr (Fill t sel (hd vs))) args
      else if cmd = ''press'' then with_target ''press <tab_id> <key>'' Press args
      else if cmd = ''type''
      then with_operands ''type <tab_id> <selector> <text>'' (\<lambda>t sel vs. Inr (TypeText t sel (join_with '' '' vs))) args
      else if cmd = ''select''
      then with_operands ''select <tab_id> <selector> <value>'' (\<lambda>t sel vs. Inr (Select t sel (hd vs))) args
      else if cmd = ''check'' then with_target ''check <tab_id> <selector>'' Check args
      else if cmd = ''uncheck'' then with_target ''uncheck <tab_id> <selector>'' Uncheck args
      else if cmd = ''scroll'' then parse_scroll args
      else if cmd = ''eval'' then parse_eval args
      else if cmd = ''extract'' then parse_extract args
      else if cmd = ''content'' then parse_content args
      else if cmd = ''screenshot'' then parse_screenshot args
      else if cmd = ''wait'' then parse_wait args
      else if cmd = ''close'' then parse_close args
      else if cmd = ''list'' then Inr ListTabs
      else if cmd = ''save-state'' then one_path ''save-state <path>'' SaveState args
      else if cmd = ''load-state'' then one_path ''load-state <path>'' LoadState args
      else if cmd = ''help'' then Inr Help
      else if cmd = ''account_list'' then Inr AccountList
      else if cmd = ''account_status'' then with_tab ''account_status <id>'' AccountStatus args
      else if cmd = ''account_logout'' then with_tab ''account_logout <id>'' AccountLogout args
      else if cmd = ''account_login'' then parse_account_login args
      else if cmd = ''takeover'' then Inr (Takeover (case args of [] \<Rightarrow> None | a # _ \<Rightarrow> Some a))
      else if cmd = ''exit'' \<or> cmd = ''quit'' then Inr Exit
      else Inl (''unknown command: '' @ cmd))"

definition parse_session_command :: "string \<Rightarrow> session_command parsed" where
  "parse_session_command s =
     (let line = str_trim s
      in if line = [] \<or> starts_with line ''#'' then Inl ''empty''
         else case split_whitespace line of
                [] \<Rightarrow> Inl ''empty''
              | cmd # args \<Rightarrow> dispatch cmd args)"

section \<open>Rendering a command\<close>

text \<open>The inverse the parser promises: the words of a command line that stands for a command.\<close>

definition opt_flag :: "string \<Rightarrow> string option \<Rightarrow> string list" where
  "opt_flag name v = (case v of None \<Rightarrow> [] | Some x \<Rightarrow> [name, x])"

definition num_flag :: "string \<Rightarrow> int option \<Rightarrow> string list" where
  "num_flag name v = opt_flag name (map_option show_uint v)"

definition switch :: "string \<Rightarrow> bool \<Rightarrow> string list" where
  "switch name b = (if b then [name] else [])"

fun command_words :: "session_command \<Rightarrow> string list" where
  "command_words New = [''new'']"
| "command_words (Goto t url w ms) = [''goto'', t, url] @ opt_flag ''--wait'' w @ num_flag ''--timeout'' ms"
| "command_words (Back t) = [''back'', t]"
| "command_words (Forward t) = [''forward'', t]"
| "command_words (Reload t) = [''reload'', t]"
| "command_words (Click t sel) = [''click'', t, sel]"
| "command_words (Fill t sel v) = [''fill'', t, sel, v]"
| "command_words (Press t k) = [''press'', t, k]"
| "command_words (TypeText t sel v) = [''type'', t, sel] @ split_on (CHR '' '') v"
| "command_words (Select t sel v) = [''select'', t, sel, v]"
| "command_words (Check t sel) = [''check'', t, sel]"
| "command_words (Uncheck t sel) = [''uncheck'', t, sel]"
| "command_words (Scroll t dx dy) = [''scroll'', t, dx, dy]"
| "command_words (Eval t e aw) = [''eval'', t] @ split_on (CHR '' '') e @ switch ''--await'' aw"
| "command_words (Extract t sel al attrs links title tx md mb) =
     [''extract'', t] @ opt_flag ''--selector'' sel @ switch ''--all'' al @ opt_flag ''--attrs'' attrs
     @ switch ''--links'' links @ switch ''--title'' title @ switch ''--text'' tx
     @ switch ''--markdown'' md @ num_flag ''--max-bytes'' mb"
| "command_words (Content t f mb) = [''content'', t, ''--format'', f] @ num_flag ''--max-bytes'' mb"
| "command_words (Screenshot t p w) = [''screenshot'', t] @ opt_flag ''-o'' p @ num_flag ''--width'' w"
| "command_words (Wait t sel ms) = [''wait'', t, sel] @ num_flag ''--timeout'' ms"
| "command_words (Observe t b m) = [''observe'', t] @ num_flag ''--budget'' b @ num_flag ''--max-actionable'' m"
| "command_words (Close t) = [''close'', t]"
| "command_words CloseAll = [''close'', ''--all'']"
| "command_words ListTabs = [''list'']"
| "command_words (SaveState p) = [''save-state'', p]"
| "command_words (LoadState p) = [''load-state'', p]"
| "command_words AccountList = [''account_list'']"
| "command_words (AccountStatus i) = [''account_status'', i]"
| "command_words (AccountLogout i) = [''account_logout'', i]"
| "command_words (AccountLogin i md ss ck ag) =
     [''account_login'', i] @ opt_flag ''--mode'' md @ opt_flag ''--storage-state'' ss
     @ opt_flag ''--cookies'' ck @ opt_flag ''--agent'' ag"
| "command_words (Takeover a) = ''takeover'' # (case a of None \<Rightarrow> [] | Some x \<Rightarrow> [x])"
| "command_words Help = [''help'']"
| "command_words Exit = [''exit'']"

definition num_ok :: "nat \<Rightarrow> int option \<Rightarrow> bool" where
  "num_ok w v = (case v of None \<Rightarrow> True | Some n \<Rightarrow> 0 \<le> n \<and> n < 2 ^ w)"

fun operands_ok :: "session_command \<Rightarrow> bool" where
  "operands_ok (Goto t url w ms) = num_ok 64 ms"
| "operands_ok (Scroll t dx dy) = (f64_syntax dx \<and> f64_syntax dy)"
| "operands_ok (Eval t e aw) = (''--await'' \<notin> set (split_on (CHR '' '') e) \<and> strip_quotes e = e)"
| "operands_ok (Extract t sel al attrs links title tx md mb) = num_ok 64 mb"
| "operands_ok (Content t f mb) = num_ok 64 mb"
| "operands_ok (Screenshot t p w) = num_ok 32 w"
| "operands_ok (Wait t sel ms) = num_ok 64 ms"
| "operands_ok (Observe t b m) = (num_ok 64 b \<and> num_ok 64 m)"
| "operands_ok (Close t) = (t \<noteq> ''--all'')"
| "operands_ok (AccountLogin i md ss ck ag) =
     (i \<notin> {''--mode'', ''--storage-state'', ''--cookies'', ''--agent''})"
| "operands_ok c = True"

definition command_ok :: "session_command \<Rightarrow> bool" where
  "command_ok c \<longleftrightarrow> list_all word_ok (command_words c) \<and> operands_ok c"

section \<open>Lemmas: words\<close>

lemma str_trim_join:
  assumes ws: "list_all word_ok ws" and ne: "ws \<noteq> []"
  shows "str_trim (join_with '' '' ws) = join_with '' '' ws"
proof (rule str_trim_id)
  have all: "word_ok w" if "w \<in> set ws" for w using ws that by (simp add: list_all_iff)
  have "list_all is_ascii_str ws" using ws by (auto simp: list_all_iff word_ok_def)
  then show "is_ascii_str (join_with '' '' ws)" by (rule is_ascii_join)
  have hd: "word_ok (hd ws)" and last: "word_ok (last ws)" using all ne by simp_all
  then have "hd ws \<noteq> []" "last ws \<noteq> []" by (simp_all add: word_ok_def)
  then have "hd (join_with '' '' ws) = hd (hd ws)" "last (join_with '' '' ws) = last (last ws)"
    using join_with_hd [of ws "'' ''"] join_with_last [of ws "'' ''"] ne by simp_all
  moreover have "\<not> is_whitespace [hd (hd ws)]" "\<not> is_whitespace [last (last ws)]"
    using hd last by (simp_all add: word_ok_def list_all_iff)
  ultimately show "join_with '' '' ws = [] \<or> \<not> is_whitespace [hd (join_with '' '' ws)]
      \<and> \<not> is_whitespace [last (join_with '' '' ws)]" by simp
qed

lemma parse_words:
  assumes "list_all word_ok (cmd # args)" and "hd cmd \<noteq> CHR ''#''"
  shows "parse_session_command (join_with '' '' (cmd # args)) = dispatch cmd args"
proof -
  let ?s = "join_with '' '' (cmd # args)"
  have "cmd \<noteq> []" using assms by (simp add: word_ok_def)
  then have s: "?s \<noteq> []" "hd ?s = hd cmd"
    using join_with_hd [of "cmd # args" "'' ''"] by simp_all
  then have "\<not> starts_with ?s ''#''" using assms(2) by (auto simp: str_iff)
  with s show ?thesis
    using str_trim_join [OF assms(1)] split_whitespace_join [OF assms(1)]
    by (simp add: parse_session_command_def Let_def)
qed

section \<open>Lemmas: flags\<close>

lemma number_or_show [simp]: "num_ok w (Some n) \<Longrightarrow> number_or w (show_uint n) err = Inr n"
  by (simp add: number_or_def num_ok_def parse_uint_show_uint)

lemma goto_flags_words:
  "num_ok 64 ms \<Longrightarrow> goto_flags (opt_flag ''--wait'' w @ num_flag ''--timeout'' ms) None None = Inr (w, ms)"
  by (cases w; cases ms) (simp_all add: opt_flag_def num_flag_def)

lemma observe_flags_words:
  "num_ok 64 b \<Longrightarrow> num_ok 64 m \<Longrightarrow>
     observe_flags (num_flag ''--budget'' b @ num_flag ''--max-actionable'' m) None None = Inr (b, m)"
  by (cases b; cases m) (simp_all add: opt_flag_def num_flag_def)

lemma content_flags_words:
  "num_ok 64 m \<Longrightarrow>
     content_flags ([''--format'', f] @ num_flag ''--max-bytes'' m) ''markdown'' None = Inr (f, m)"
  by (cases m) (simp_all add: opt_flag_def num_flag_def)

lemma screenshot_flags_words:
  "num_ok 32 w \<Longrightarrow> screenshot_flags (opt_flag ''-o'' p @ num_flag ''--width'' w) None None = Inr (p, w)"
  by (cases p; cases w) (simp_all add: opt_flag_def num_flag_def)

lemma wait_flags_words: "num_ok 64 ms \<Longrightarrow> wait_flags (num_flag ''--timeout'' ms) None = Inr ms"
  by (cases ms) (simp_all add: opt_flag_def num_flag_def)

lemma login_flags_words:
  "login_flags (opt_flag ''--mode'' md @ opt_flag ''--storage-state'' ss @ opt_flag ''--cookies'' ck
       @ opt_flag ''--agent'' ag) pos \<lparr>lo_mode = None, lo_storage_state = None, lo_cookies = None, lo_agent = None\<rparr>
     = (pos, \<lparr>lo_mode = md, lo_storage_state = ss, lo_cookies = ck, lo_agent = ag\<rparr>)"
  by (cases md; cases ss; cases ck; cases ag) (simp_all add: opt_flag_def)

lemma extract_flag_steps:
  "extract_flags (opt_flag ''--selector'' sel @ ws) x =
     extract_flags ws (case sel of None \<Rightarrow> x | Some v \<Rightarrow> x\<lparr>xo_selector := Some v\<rparr>)"
  "extract_flags (opt_flag ''--attrs'' sel @ ws) x =
     extract_flags ws (case sel of None \<Rightarrow> x | Some v \<Rightarrow> x\<lparr>xo_attrs := Some v\<rparr>)"
  "extract_flags (switch ''--all'' b @ ws) x = extract_flags ws (if b then x\<lparr>xo_all := True\<rparr> else x)"
  "extract_flags (switch ''--links'' b @ ws) x = extract_flags ws (if b then x\<lparr>xo_links := True\<rparr> else x)"
  "extract_flags (switch ''--title'' b @ ws) x = extract_flags ws (if b then x\<lparr>xo_title := True\<rparr> else x)"
  "extract_flags (switch ''--text'' b @ ws) x = extract_flags ws (if b then x\<lparr>xo_text := True\<rparr> else x)"
  "extract_flags (switch ''--markdown'' b @ ws) x = extract_flags ws (if b then x\<lparr>xo_markdown := True\<rparr> else x)"
  "num_ok 64 mb \<Longrightarrow> extract_flags (num_flag ''--max-bytes'' mb) x =
     Inr (case mb of None \<Rightarrow> x | Some n \<Rightarrow> x\<lparr>xo_max_bytes := Some n\<rparr>)"
  by (auto simp: opt_flag_def num_flag_def switch_def take_value_def split: option.splits)

section \<open>The round trip\<close>

lemmas parser_ops =
  parse_goto_def parse_observe_def parse_content_def parse_screenshot_def parse_wait_def
  parse_account_login_def parse_scroll_def parse_close_def with_tab_def with_target_def
  with_operands_def one_path_def require_tab_id_def first_or_def

lemma filter_await: "''--await'' \<notin> set ps \<Longrightarrow> filter (\<lambda>p. p \<noteq> ''--await'') ps = ps"
  by (induction ps) auto

lemma parse_eval_words:
  assumes "''--await'' \<notin> set (split_on (CHR '' '') e)" and "strip_quotes e = e"
  shows "parse_eval (t # split_on (CHR '' '') e @ switch ''--await'' aw) = Inr (Eval t e aw)"
  using assms by (simp add: parse_eval_def require_tab_id_def switch_def filter_await join_split)

lemma parse_extract_words:
  assumes "num_ok 64 mb"
  shows "parse_extract (tl (command_words (Extract t sel al attrs links title tx md mb)))
           = Inr (Extract t sel al attrs links title tx md mb)"
  using assms
  by (cases sel; cases attrs; cases mb)
    (simp_all add: parse_extract_def require_tab_id_def extract_flag_steps extract_defaults_def)

lemma login_flags_id:
  "i \<notin> {''--mode'', ''--storage-state'', ''--cookies'', ''--agent''} \<Longrightarrow>
     login_flags (i # rest) [] x = login_flags rest [i] x"
  by simp

lemma parse_account_login_words:
  assumes "i \<notin> {''--mode'', ''--storage-state'', ''--cookies'', ''--agent''}"
  shows "parse_account_login (tl (command_words (AccountLogin i md ss ck ag))) = Inr (AccountLogin i md ss ck ag)"
proof -
  have "login_flags (tl (command_words (AccountLogin i md ss ck ag))) []
          \<lparr>lo_mode = None, lo_storage_state = None, lo_cookies = None, lo_agent = None\<rparr>
        = ([i], \<lparr>lo_mode = md, lo_storage_state = ss, lo_cookies = ck, lo_agent = ag\<rparr>)"
    using login_flags_id [OF assms] login_flags_words by (simp only: command_words.simps append_Cons append_Nil list.sel)
  then show ?thesis by (simp only: parse_account_login_def) (simp add: first_or_def)
qed

lemma typed_words: "split_on (CHR '' '') v = w # ws \<Longrightarrow> join_with '' '' (w # ws) = v"
  using join_split [of "CHR '' ''" v] by simp

lemma dispatch_words:
  assumes "operands_ok c"
  shows "dispatch (hd (command_words c)) (tl (command_words c)) = Inr c"
  using assms
proof (cases c)
  case (TypeText t sel v)
  then show ?thesis
    by (cases "split_on (CHR '' '') v") (simp_all add: dispatch_def parser_ops typed_words)
next
  case (Eval t e aw)
  then show ?thesis using assms by (simp add: dispatch_def parse_eval_words)
next
  case (Extract t sel al attrs links title tx md mb)
  then have "parse_extract (tl (command_words c)) = Inr c"
    using assms parse_extract_words by simp
  moreover have "hd (command_words c) = ''extract''" using Extract by simp
  ultimately show ?thesis by (simp add: dispatch_def)
next
  case (AccountLogin i md ss ck ag)
  then have "parse_account_login (tl (command_words c)) = Inr c"
    using assms parse_account_login_words [of i md ss ck ag] by simp
  moreover have "hd (command_words c) = ''account_login''" using AccountLogin by simp
  ultimately show ?thesis by (simp add: dispatch_def)
next
  case (Content t f mb)
  then show ?thesis
    using assms content_flags_words [of mb f] by (simp add: dispatch_def parser_ops)
next
  case (Takeover a)
  then show ?thesis by (cases a) (simp_all add: dispatch_def)
qed (simp_all add: dispatch_def parser_ops goto_flags_words observe_flags_words screenshot_flags_words wait_flags_words)

lemma command_words_hd:
  "command_words c = hd (command_words c) # tl (command_words c) \<and> hd (hd (command_words c)) \<noteq> CHR ''#''"
  by (cases c) simp_all



text \<open>
  Operands after the value. A \<open>fill\<close> line with further words after the value parses like the
  line without them, whatever they are, and keeps the quotes of its value: a value of several
  words cannot be given to \<open>fill\<close>, where \<open>type\<close> takes it whole.
\<close>
theorem fill_drops_tail:
  assumes "list_all word_ok ([''fill'', t, sel, v] @ more_words)"
  shows "parse_session_command (join_with '' '' ([''fill'', t, sel, v] @ more_words)) = Inr (Fill t sel v)"
  using parse_words [of "''fill''" "[t, sel, v] @ more_words"] assms
  by (simp add: dispatch_def parser_ops)

lemma fill_drops_tail_witness:
  "parse_session_command (join_with '' '' ([''fill'', ''t1'', ''#q'', [CHR 0x22, CHR ''R'']] @ [[CHR ''C'', CHR 0x22]]))
     = Inr (Fill ''t1'' ''#q'' [CHR 0x22, CHR ''R''])"
proof -
  have "list_all word_ok ([''fill'', ''t1'', ''#q'', [CHR 0x22, CHR ''R'']] @ [[CHR ''C'', CHR 0x22]])" by code_simp
  then show ?thesis by (rule fill_drops_tail)
qed

end
