(* ===== verification/Dom.thy ===== *)
theory Dom
  imports UnicodeCase
begin

text \<open>
  The data of \<open>oxibrowser-core/src/js/dom_snapshot.rs\<close>: a snapshot is a table of nodes keyed by
  id, linked through child lists and parent fields, with three indices and the revision they
  were built at. The table and the attributes are Rust \<open>HashMap\<close>s: dictionaries whose list order
  stands for the unspecified iteration order. The cache of computed styles is left out (it holds
  what the layout engine returns and is dropped on every change).

  Nothing in the type forces the links to be a tree, and the code walks them with an explicit
  stack. A walk is a partial function whose value \<open>None\<close> means that the loop never ends. What a
  document is, abstractly, is a rose tree: \<open>holds\<close> relates the table to it, and on such a table
  every walk ends and visits the nodes in document order.
\<close>

section \<open>Nodes and snapshots\<close>

record dom_node =
  nd_id :: nat
  nd_tag :: string
  nd_attributes :: "(string, string) dict"
  nd_text :: string
  nd_children :: "nat list"
  nd_parent :: "nat option"
  nd_type :: nat

type_synonym dom_nodes = "(nat, dom_node) dict"

record dom_snapshot =
  sn_url :: string
  sn_title :: string
  sn_nodes :: dom_nodes
  sn_root :: nat
  sn_body :: "nat option"
  sn_head :: "nat option"
  sn_revision :: "64 word"
  sn_index_revision :: "64 word"
  sn_id_index :: "(string, nat) dict"
  sn_class_index :: "(string, nat list) dict"
  sn_tag_index :: "(string, nat list) dict"

definition snapshot_empty :: dom_snapshot where
  "snapshot_empty =
     \<lparr>sn_url = [], sn_title = [], sn_nodes = [], sn_root = 0, sn_body = None, sn_head = None,
      sn_revision = 0, sn_index_revision = 0, sn_id_index = [], sn_class_index = [], sn_tag_index = []\<rparr>"

definition node_of :: "dom_snapshot \<Rightarrow> nat \<Rightarrow> dom_node option" where
  "node_of sn i = dict_get (sn_nodes sn) i"

definition node_attr :: "dom_node \<Rightarrow> string \<Rightarrow> string option" where
  "node_attr n a = dict_get (nd_attributes n) a"

definition has_attr :: "dom_node \<Rightarrow> string \<Rightarrow> bool" where
  "has_attr n a \<longleftrightarrow> node_attr n a \<noteq> None"

definition is_element :: "dom_node \<Rightarrow> bool" where
  "is_element n \<longleftrightarrow> nd_type n = 1"

definition bump_revision :: "dom_snapshot \<Rightarrow> dom_snapshot" where
  "bump_revision sn = sn\<lparr>sn_revision := sn_revision sn + 1\<rparr>"

definition indices_fresh :: "dom_snapshot \<Rightarrow> bool" where
  "indices_fresh sn \<longleftrightarrow> sn_index_revision sn = sn_revision sn"

section \<open>Walks\<close>

text \<open>
  The loop \<open>while let Some(id) = stack.pop()\<close>; the head of the list is the top of the stack.
  \<open>kids\<close> gives the children in the order in which they are popped (pushing them reversed pops
  them in document order).
\<close>

partial_function (option) walk ::
  "(dom_node \<Rightarrow> nat list) \<Rightarrow> dom_nodes \<Rightarrow> nat list \<Rightarrow> (nat \<times> dom_node) list option" where
  "walk kids nodes stack =
     (case stack of
        [] \<Rightarrow> Some []
      | i # rest \<Rightarrow>
          (case dict_get nodes i of
             None \<Rightarrow> walk kids nodes rest
           | Some n \<Rightarrow> Option.bind (walk kids nodes (kids n @ rest)) (\<lambda>visited. Some ((i, n) # visited))))"

text \<open>The same loop with an early return at the first node the test accepts.\<close>

partial_function (option) walk_find ::
  "(nat \<Rightarrow> dom_node \<Rightarrow> bool option) \<Rightarrow> dom_nodes \<Rightarrow> nat list \<Rightarrow> nat option option" where
  "walk_find test nodes stack =
     (case stack of
        [] \<Rightarrow> Some None
      | i # rest \<Rightarrow>
          (case dict_get nodes i of
             None \<Rightarrow> walk_find test nodes rest
           | Some n \<Rightarrow>
               Option.bind (test i n) (\<lambda>hit.
                 if hit then Some (Some i) else walk_find test nodes (nd_children n @ rest))))"

declare walk.simps [code] walk_find.simps [code]

definition elements_in_order :: "dom_snapshot \<Rightarrow> (nat \<times> dom_node) list option" where
  "elements_in_order sn =
     map_option (filter (\<lambda>(i, n). is_element n)) (walk nd_children (sn_nodes sn) [sn_root sn])"

section \<open>Documents as trees\<close>

datatype dom_tree = DTree nat "dom_tree list"

fun tree_root :: "dom_tree \<Rightarrow> nat" where
  "tree_root (DTree i ts) = i"

fun tree_kids :: "dom_tree \<Rightarrow> dom_tree list" where
  "tree_kids (DTree i ts) = ts"

fun tree_ids :: "dom_tree \<Rightarrow> nat list" where
  "tree_ids (DTree i ts) = i # concat (map tree_ids ts)"

fun holds :: "dom_nodes \<Rightarrow> nat option \<Rightarrow> dom_tree \<Rightarrow> bool" where
  "holds nodes par (DTree i ts) =
     (case dict_get nodes i of
        None \<Rightarrow> False
      | Some n \<Rightarrow> nd_id n = i \<and> nd_parent n = par \<and> nd_children n = map tree_root ts
          \<and> list_all (holds nodes (Some i)) ts)"

definition visit :: "dom_nodes \<Rightarrow> nat \<Rightarrow> nat \<times> dom_node" where
  "visit nodes i = (i, the (dict_get nodes i))"

definition document :: "dom_snapshot \<Rightarrow> dom_tree \<Rightarrow> bool" where
  "document sn t \<longleftrightarrow> holds (sn_nodes sn) None t \<and> tree_root t = sn_root sn \<and> distinct (tree_ids t)"

lemma holds_iff:
  "holds nodes par t \<longleftrightarrow>
     (\<exists>n. dict_get nodes (tree_root t) = Some n \<and> nd_id n = tree_root t \<and> nd_parent n = par
       \<and> nd_children n = map tree_root (tree_kids t) \<and> (\<forall>u \<in> set (tree_kids t). holds nodes (Some (tree_root t)) u))"
  by (cases t) (auto simp: list_all_iff split: option.splits)

lemma tree_ids_unfold: "tree_ids t = tree_root t # concat (map tree_ids (tree_kids t))"
  by (cases t) simp

lemma tree_root_in: "tree_root t \<in> set (tree_ids t)"
  by (cases t) simp

lemma holds_present: "holds nodes par t \<Longrightarrow> i \<in> set (tree_ids t) \<Longrightarrow> \<exists>n. dict_get nodes i = Some n \<and> nd_id n = i"
proof (induction t arbitrary: par)
  case (DTree j ts)
  then show ?case by (auto simp: list_all_iff split: option.splits)
qed

subsection \<open>Walks over a tree\<close>

lemma walk_append:
  "walk kids nodes a = Some ra \<Longrightarrow>
     walk kids nodes (a @ b) = Option.bind (walk kids nodes b) (\<lambda>rb. Some (ra @ rb))"
proof (induction ra arbitrary: a)
  case Nil
  then show ?case
  proof (induction a)
    case (Cons i rest)
    then show ?case
      by (auto simp: walk.simps [of _ _ "i # rest"] walk.simps [of _ _ "i # rest @ b"] bind_eq_Some_conv
          split: option.splits)
  qed (simp add: bind_eq_Some_conv)
next
  case (Cons v ra)
  then show ?case
  proof (induction a)
    case Nil
    then show ?case by (simp add: walk.simps)
  next
    case (Cons i rest)
    show ?case
    proof (cases "dict_get nodes i")
      case None
      with Cons show ?thesis
        by (simp add: walk.simps [of _ _ "i # rest"] walk.simps [of _ _ "i # rest @ b"])
    next
      case (Some n)
      with Cons.prems(2) have v: "v = (i, n)" "walk kids nodes (kids n @ rest) = Some ra"
        by (auto simp: walk.simps [of _ _ "i # rest"] bind_eq_Some_conv)
      from Cons.prems(1) [OF v(2)] Some v(1) show ?thesis
        by (cases "walk kids nodes b") (simp_all add: walk.simps [of _ _ "i # rest @ b"])
    qed
  qed
qed

lemma walk_Nil [simp]: "walk kids nodes [] = Some []"
  by (simp add: walk.simps)

lemma walk_list:
  assumes "\<And>i. i \<in> set is \<Longrightarrow> walk kids nodes [i] = Some (f i)"
  shows "walk kids nodes is = Some (concat (map f is))"
  using assms
proof (induction "is")
  case (Cons i js)
  from walk_append [of kids nodes "[i]" "f i" js] Cons show ?case by simp
qed simp

lemma walk_one:
  assumes "dict_get nodes i = Some n"
    and "\<And>k. k \<in> set (kids n) \<Longrightarrow> walk kids nodes [k] = Some (f k)"
  shows "walk kids nodes [i] = Some ((i, n) # concat (map f (kids n)))"
  using walk_list [of "kids n" kids nodes f] assms by (simp add: walk.simps [of kids nodes "[i]"])

text \<open>Any walk along child links ends on a tree.\<close>

lemma walk_ends:
  assumes "\<And>n. set (kids n) \<subseteq> set (nd_children n)"
  shows "holds nodes par t \<Longrightarrow> \<exists>r. walk kids nodes [tree_root t] = Some r"
proof (induction t arbitrary: par)
  case (DTree i ts)
  then obtain n where n: "dict_get nodes i = Some n" "nd_children n = map tree_root ts"
    and ts: "\<And>t. t \<in> set ts \<Longrightarrow> holds nodes (Some i) t"
    by (auto simp: list_all_iff split: option.splits)
  have "\<exists>r. walk kids nodes [k] = Some r" if "k \<in> set (kids n)" for k
  proof -
    from that assms [of n] n(2) obtain t where "t \<in> set ts" "k = tree_root t" by auto
    then show ?thesis using DTree.IH ts by blast
  qed
  then obtain f where "\<And>k. k \<in> set (kids n) \<Longrightarrow> walk kids nodes [k] = Some (f k)" by metis
  from walk_one [OF n(1) this] show ?case by simp
qed

lemma walk_tree: "holds nodes par t \<Longrightarrow> walk nd_children nodes [tree_root t] = Some (map (visit nodes) (tree_ids t))"
proof (induction t arbitrary: par)
  case (DTree i ts)
  then obtain n where n: "dict_get nodes i = Some n" "nd_children n = map tree_root ts"
    and ts: "\<And>t. t \<in> set ts \<Longrightarrow> holds nodes (Some i) t"
    by (auto simp: list_all_iff split: option.splits)
  have IH: "walk nd_children nodes [tree_root t] = Some (map (visit nodes) (tree_ids t))" if "t \<in> set ts" for t
    using DTree.IH that ts by blast
  have "walk nd_children nodes (map tree_root ts) = Some (concat (map (\<lambda>t. map (visit nodes) (tree_ids t)) ts))"
    using IH
  proof (induction ts)
    case (Cons t us)
    from walk_append [of nd_children nodes "[tree_root t]" _ "map tree_root us"] Cons show ?case by simp
  qed simp
  with n show ?case by (simp add: walk.simps [of _ _ "[i]"] visit_def [of _ i] map_concat comp_def)
qed

text \<open>A search by the early-returning loop is a search in the list the full walk gives.\<close>

lemma walk_find_walk:
  "walk nd_children nodes stack = Some visited \<Longrightarrow> (\<And>i n. (i, n) \<in> set visited \<Longrightarrow> test i n = Some (P i n)) \<Longrightarrow>
     walk_find test nodes stack = Some (map_option fst (find (\<lambda>(i, n). P i n) visited))"
proof (induction visited arbitrary: stack)
  case Nil
  then show ?case
  proof (induction stack)
    case (Cons i rest)
    then show ?case
      by (auto simp: walk.simps [of _ _ "i # rest"] walk_find.simps [of _ _ "i # rest"] bind_eq_Some_conv split: option.splits)
  qed (simp add: walk_find.simps)
next
  case (Cons v visited)
  then show ?case
  proof (induction stack)
    case (Cons i rest)
    show ?case
    proof (cases "dict_get nodes i")
      case None
      with Cons show ?thesis
        by (simp add: walk.simps [of _ _ "i # rest"] walk_find.simps [of _ _ "i # rest"])
    next
      case (Some n)
      with Cons.prems(2) have v: "v = (i, n)" "walk nd_children nodes (nd_children n @ rest) = Some visited"
        by (auto simp: walk.simps [of _ _ "i # rest"] bind_eq_Some_conv)
      have "walk_find test nodes (nd_children n @ rest) = Some (map_option fst (find (\<lambda>(i, n). P i n) visited))"
        using Cons.prems(1) [OF v(2)] Cons.prems(3) by simp
      then show ?thesis
        using Cons.prems(3) [of i n] Some v(1) by (simp add: walk_find.simps [of _ _ "i # rest"])
    qed
  qed simp
qed

end
