(* ===== verification/DomSelect.thy ===== *)
theory DomSelect
  imports Dom "HOL-Library.Multiset"
begin

text \<open>
  Queries over a snapshot (\<open>dom_snapshot.rs\<close>): the three indices and their fast path, the
  selector matcher, and the query operations in the order in which each returns its nodes.
\<close>

section \<open>Indices\<close>

record dom_indices =
  ix_id :: "(string, nat) dict"
  ix_class :: "(string, nat list) dict"
  ix_tag :: "(string, nat list) dict"

definition push_entry :: "string \<Rightarrow> nat \<Rightarrow> (string, nat list) dict \<Rightarrow> (string, nat list) dict" where
  "push_entry k i ix = dict_insert k ((case dict_get ix k of Some is \<Rightarrow> is | None \<Rightarrow> []) @ [i]) ix"

definition index_node :: "nat \<Rightarrow> dom_node \<Rightarrow> dom_indices \<Rightarrow> dom_indices" where
  "index_node i n ix =
     \<lparr>ix_id = (case node_attr n ''id'' of
                 Some v \<Rightarrow> if v \<noteq> [] \<and> dict_get (ix_id ix) v = None then dict_insert v i (ix_id ix) else ix_id ix
               | None \<Rightarrow> ix_id ix),
      ix_class = (case node_attr n ''class'' of
                    Some cls \<Rightarrow> fold (\<lambda>token. push_entry token i) (split_whitespace cls) (ix_class ix)
                  | None \<Rightarrow> ix_class ix),
      ix_tag = (if to_lowercase (nd_tag n) \<noteq> [] then push_entry (to_lowercase (nd_tag n)) i (ix_tag ix) else ix_tag ix)\<rparr>"

fun build_indices_from :: "dom_nodes \<Rightarrow> nat list \<Rightarrow> dom_indices \<Rightarrow> dom_indices" where
  "build_indices_from nodes [] ix = ix"
| "build_indices_from nodes (i # is) ix =
     build_indices_from nodes is
       (case dict_get nodes i of
          Some n \<Rightarrow> if is_element n then index_node i n ix else ix
        | None \<Rightarrow> ix)"

definition build_indices :: "dom_nodes \<Rightarrow> nat list \<Rightarrow> dom_indices" where
  "build_indices nodes order = build_indices_from nodes order \<lparr>ix_id = [], ix_class = [], ix_tag = []\<rparr>"

definition rebuild_indices :: "dom_snapshot \<Rightarrow> dom_snapshot option" where
  "rebuild_indices sn =
     map_option
       (\<lambda>order. let ix = build_indices (sn_nodes sn) (map fst order)
                in sn\<lparr>sn_id_index := ix_id ix, sn_class_index := ix_class ix, sn_tag_index := ix_tag ix,
                      sn_index_revision := sn_revision sn\<rparr>)
       (walk nd_children (sn_nodes sn) [sn_root sn])"

section \<open>Matching one node\<close>

definition class_has :: "dom_node \<Rightarrow> string \<Rightarrow> bool" where
  "class_has n c =
     (case node_attr n ''class'' of Some cls \<Rightarrow> c \<in> set (split_whitespace cls) | None \<Rightarrow> False)"

definition trim_char :: "char \<Rightarrow> string \<Rightarrow> string" where
  "trim_char d s = trim_end_char d (trim_start_char d s)"

definition attr_test :: "dom_node \<Rightarrow> string \<Rightarrow> bool" where
  "attr_test n part =
     (case split_once (CHR ''='') part of
        Some (name, raw) \<Rightarrow>
          has_attr n name \<and> node_attr n name = Some (trim_char (CHR 0x22) (trim_char (CHR 0x27) raw))
      | None \<Rightarrow> has_attr n part)"

definition matches_plain :: "dom_node \<Rightarrow> string \<Rightarrow> bool" where
  "matches_plain n sel =
     (case strip_prefix sel ''#'' of
        Some v \<Rightarrow> node_attr n ''id'' = Some v
      | None \<Rightarrow>
     (case strip_prefix sel ''.'' of
        Some c \<Rightarrow> class_has n c
      | None \<Rightarrow>
     (case split_once (CHR ''.'') sel of
        Some (tag, c) \<Rightarrow> eq_ignore_ascii_case (nd_tag n) tag \<and> class_has n c
      | None \<Rightarrow>
     (case split_once (CHR ''#'') sel of
        Some (tag, v) \<Rightarrow> eq_ignore_ascii_case (nd_tag n) tag \<and> node_attr n ''id'' = Some v
      | None \<Rightarrow> eq_ignore_ascii_case (nd_tag n) sel))))"

definition matches_simple :: "dom_node \<Rightarrow> string \<Rightarrow> bool" where
  "matches_simple n sel =
     (if \<not> is_element n then False
      else if sel = ''*'' then True
      else (case (find_sub ''['' sel, find_sub '']'' sel) of
              (Some a, Some b) \<Rightarrow>
                if a < b
                then (let tag = take a sel; part = take (b - (a + 1)) (drop (a + 1) sel)
                      in if tag \<noteq> [] \<and> \<not> eq_ignore_ascii_case (nd_tag n) tag then False else attr_test n part)
                else matches_plain n sel
            | _ \<Rightarrow> matches_plain n sel))"

text \<open>
  The walk over the ancestors; the list holds the parts still to be matched, the last one first.
\<close>

partial_function (option) ancestors_match :: "dom_nodes \<Rightarrow> string list \<Rightarrow> nat option \<Rightarrow> bool option" where
  "ancestors_match nodes parts current =
     (case current of
        None \<Rightarrow> Some (parts = [])
      | Some p \<Rightarrow>
          (case parts of
             [] \<Rightarrow> Some True
           | part # rest \<Rightarrow>
               (case dict_get nodes p of
                  None \<Rightarrow> Some False
                | Some a \<Rightarrow> ancestors_match nodes (if matches_simple a part then rest else parts) (nd_parent a))))"

definition node_matches_single :: "dom_nodes \<Rightarrow> dom_node \<Rightarrow> string \<Rightarrow> bool option" where
  "node_matches_single nodes n sel =
     (if sel = ''*'' then Some True
      else (let parts = split_whitespace sel
            in if length parts > 1
               then (if \<not> matches_simple n (last parts) then Some False
                     else ancestors_match nodes (rev (butlast parts)) (nd_parent n))
               else Some (matches_simple n sel)))"

fun any_single :: "dom_nodes \<Rightarrow> dom_node \<Rightarrow> string list \<Rightarrow> bool option" where
  "any_single nodes n [] = Some False"
| "any_single nodes n (sel # sels) =
     Option.bind (node_matches_single nodes n (str_trim sel))
       (\<lambda>hit. if hit then Some True else any_single nodes n sels)"

definition node_matches_selector :: "dom_nodes \<Rightarrow> dom_node \<Rightarrow> string \<Rightarrow> bool option" where
  "node_matches_selector nodes n sel =
     (if \<not> is_element n then Some False else any_single nodes n (split_on (CHR '','') sel))"

section \<open>Queries\<close>

definition bare_tag :: "string \<Rightarrow> bool" where
  "bare_tag sel \<longleftrightarrow>
     sel \<noteq> [] \<and> (\<forall>c \<in> set sel. byte c \<notin> {32, 9, 10, 46, 35, 91, 44, 62, 43, 126, 58, 42})"

text \<open>The fast path: \<open>None\<close> sends the caller to the walk.\<close>

definition simple_selector_first :: "dom_snapshot \<Rightarrow> string \<Rightarrow> nat option" where
  "simple_selector_first sn sel =
     (if \<not> indices_fresh sn then None
      else (case strip_prefix sel ''#'' of
              Some v \<Rightarrow> if v = [] then None else dict_get (sn_id_index sn) v
            | None \<Rightarrow>
           (case strip_prefix sel ''.'' of
              Some c \<Rightarrow>
                if c = [] then None
                else (case dict_get (sn_class_index sn) c of Some (i # is) \<Rightarrow> Some i | _ \<Rightarrow> None)
            | None \<Rightarrow>
                if bare_tag sel
                then (case dict_get (sn_tag_index sn) (to_lowercase sel) of Some (i # is) \<Rightarrow> Some i | _ \<Rightarrow> None)
                else None)))"

definition simple_selector_all :: "dom_snapshot \<Rightarrow> string \<Rightarrow> nat list option" where
  "simple_selector_all sn sel =
     (if \<not> indices_fresh sn then None
      else (case strip_prefix sel ''#'' of
              Some v \<Rightarrow> if v = [] then None else map_option (\<lambda>i. [i]) (dict_get (sn_id_index sn) v)
            | None \<Rightarrow>
           (case strip_prefix sel ''.'' of
              Some c \<Rightarrow> if c = [] then None else dict_get (sn_class_index sn) c
            | None \<Rightarrow> if bare_tag sel then dict_get (sn_tag_index sn) (to_lowercase sel) else None)))"

definition query_selector :: "dom_snapshot \<Rightarrow> string \<Rightarrow> nat option option" where
  "query_selector sn sel =
     (case simple_selector_first sn sel of
        Some i \<Rightarrow> Some (Some i)
      | None \<Rightarrow> walk_find (\<lambda>i n. node_matches_selector (sn_nodes sn) n sel) (sn_nodes sn) [sn_root sn])"

text \<open>The walk of \<open>query_selector_all\<close> takes from the front of a queue: breadth first.\<close>

partial_function (option) bfs_matches ::
  "(dom_node \<Rightarrow> bool option) \<Rightarrow> dom_nodes \<Rightarrow> nat list \<Rightarrow> nat list option" where
  "bfs_matches test nodes queue =
     (case queue of
        [] \<Rightarrow> Some []
      | i # rest \<Rightarrow>
          (case dict_get nodes i of
             None \<Rightarrow> bfs_matches test nodes rest
           | Some n \<Rightarrow>
               Option.bind (test n) (\<lambda>hit.
               Option.bind (bfs_matches test nodes (rest @ nd_children n)) (\<lambda>found.
                 Some (if hit then i # found else found)))))"

definition query_selector_all :: "dom_snapshot \<Rightarrow> string \<Rightarrow> nat list option" where
  "query_selector_all sn sel =
     (case simple_selector_all sn sel of
        Some found \<Rightarrow> Some found
      | None \<Rightarrow> bfs_matches (\<lambda>n. node_matches_selector (sn_nodes sn) n sel) (sn_nodes sn) [sn_root sn])"

definition query_selector_from :: "dom_snapshot \<Rightarrow> nat \<Rightarrow> string \<Rightarrow> nat option option" where
  "query_selector_from sn root sel =
     walk_find (\<lambda>i n. if i = root then Some False else node_matches_selector (sn_nodes sn) n sel)
       (sn_nodes sn) [root]"

fun keep_matches :: "(nat \<Rightarrow> dom_node \<Rightarrow> bool option) \<Rightarrow> (nat \<times> dom_node) list \<Rightarrow> nat list option" where
  "keep_matches test [] = Some []"
| "keep_matches test ((i, n) # visited) =
     Option.bind (test i n) (\<lambda>hit.
       map_option (\<lambda>found. if hit then i # found else found) (keep_matches test visited))"

text \<open>The three collecting walks reverse what they found before they return it.\<close>

definition query_selector_all_from :: "dom_snapshot \<Rightarrow> nat \<Rightarrow> string \<Rightarrow> nat list option" where
  "query_selector_all_from sn root sel =
     map_option rev
       (Option.bind (walk nd_children (sn_nodes sn) [root])
         (keep_matches (\<lambda>i n. if i = root then Some False else node_matches_selector (sn_nodes sn) n sel)))"

definition element_matches :: "dom_snapshot \<Rightarrow> nat \<Rightarrow> string \<Rightarrow> bool option" where
  "element_matches sn i sel =
     (case node_of sn i of Some n \<Rightarrow> node_matches_selector (sn_nodes sn) n sel | None \<Rightarrow> Some False)"

partial_function (option) closest_from :: "dom_snapshot \<Rightarrow> string \<Rightarrow> nat option \<Rightarrow> nat option option" where
  "closest_from sn sel current =
     (case current of
        None \<Rightarrow> Some None
      | Some i \<Rightarrow>
          (case node_of sn i of
             None \<Rightarrow> Some None
           | Some n \<Rightarrow>
               if is_element n
               then Option.bind (node_matches_selector (sn_nodes sn) n sel) (\<lambda>hit.
                      if hit then Some (Some i) else closest_from sn sel (nd_parent n))
               else closest_from sn sel (nd_parent n)))"

definition element_closest :: "dom_snapshot \<Rightarrow> nat \<Rightarrow> string \<Rightarrow> nat option option" where
  "element_closest sn i sel = closest_from sn sel (Some i)"

definition get_element_by_id :: "dom_snapshot \<Rightarrow> string \<Rightarrow> nat option" where
  "get_element_by_id sn v =
     (case (if indices_fresh sn then dict_get (sn_id_index sn) v else None) of
        Some i \<Rightarrow> Some i
      | None \<Rightarrow>
          map_option nd_id (find (\<lambda>n. is_element n \<and> node_attr n ''id'' = Some v) (map snd (sn_nodes sn))))"

definition get_elements_by_tag_name :: "dom_snapshot \<Rightarrow> string \<Rightarrow> nat list option" where
  "get_elements_by_tag_name sn tag =
     (case (if indices_fresh sn then dict_get (sn_tag_index sn) (to_lowercase tag) else None) of
        Some found \<Rightarrow> Some found
      | None \<Rightarrow>
          map_option
            (\<lambda>visited. rev (map fst (filter (\<lambda>(i, n). is_element n \<and> to_lowercase (nd_tag n) = to_lowercase tag) visited)))
            (walk nd_children (sn_nodes sn) [sn_root sn]))"

definition get_elements_by_class_name :: "dom_snapshot \<Rightarrow> string \<Rightarrow> nat list option" where
  "get_elements_by_class_name sn c =
     (case (if indices_fresh sn then dict_get (sn_class_index sn) c else None) of
        Some found \<Rightarrow> Some found
      | None \<Rightarrow>
          map_option
            (\<lambda>visited. rev (map fst (filter (\<lambda>(i, n). is_element n \<and> class_has n c) visited)))
            (walk nd_children (sn_nodes sn) [sn_root sn]))"

declare ancestors_match.simps [code] bfs_matches.simps [code] closest_from.simps [code]

section \<open>Neighbours\<close>

definition first_child :: "dom_snapshot \<Rightarrow> nat \<Rightarrow> nat option" where
  "first_child sn i =
     (case node_of sn i of Some n \<Rightarrow> (case nd_children n of c # cs \<Rightarrow> Some c | [] \<Rightarrow> None) | None \<Rightarrow> None)"

definition last_child :: "dom_snapshot \<Rightarrow> nat \<Rightarrow> nat option" where
  "last_child sn i =
     (case node_of sn i of
        Some n \<Rightarrow> if nd_children n = [] then None else Some (last (nd_children n))
      | None \<Rightarrow> None)"

fun position_of :: "nat \<Rightarrow> nat list \<Rightarrow> nat option" where
  "position_of x [] = None"
| "position_of x (y # ys) = (if x = y then Some 0 else map_option Suc (position_of x ys))"

definition siblings_at :: "dom_snapshot \<Rightarrow> nat \<Rightarrow> (nat list \<times> nat) option" where
  "siblings_at sn i =
     Option.bind (node_of sn i) (\<lambda>n.
     Option.bind (nd_parent n) (\<lambda>p.
     Option.bind (node_of sn p) (\<lambda>parent.
     Option.bind (position_of i (nd_children parent)) (\<lambda>k. Some (nd_children parent, k)))))"

definition next_sibling :: "dom_snapshot \<Rightarrow> nat \<Rightarrow> nat option" where
  "next_sibling sn i =
     Option.bind (siblings_at sn i) (\<lambda>(cs, k). if k + 1 < length cs then Some (cs ! (k + 1)) else None)"

definition previous_sibling :: "dom_snapshot \<Rightarrow> nat \<Rightarrow> nat option" where
  "previous_sibling sn i =
     Option.bind (siblings_at sn i) (\<lambda>(cs, k). if k > 0 then Some (cs ! (k - 1)) else None)"

section \<open>Lemmas: selectors\<close>

datatype simple_selector = ByTag string | ById string | ByClass string

fun selector_name :: "simple_selector \<Rightarrow> string" where
  "selector_name (ByTag x) = x"
| "selector_name (ById x) = x"
| "selector_name (ByClass x) = x"

fun selector_text :: "simple_selector \<Rightarrow> string" where
  "selector_text (ByTag x) = x"
| "selector_text (ById x) = CHR ''#'' # x"
| "selector_text (ByClass x) = CHR ''.'' # x"

fun selects :: "simple_selector \<Rightarrow> dom_node \<Rightarrow> bool" where
  "selects (ByTag x) n = (is_element n \<and> eq_ignore_ascii_case (nd_tag n) x)"
| "selects (ById x) n = (is_element n \<and> node_attr n ''id'' = Some x)"
| "selects (ByClass x) n = (is_element n \<and> class_has n x)"

definition css_name :: "string \<Rightarrow> bool" where
  "css_name x \<longleftrightarrow> x \<noteq> [] \<and> list_all (\<lambda>c. is_ascii_alnum c \<or> c = CHR ''-'' \<or> c = CHR ''_'') x"

lemma css_name_char:
  assumes "css_name x" and "c \<in> set x"
  shows "c \<notin> {CHR ''#'', CHR ''.'', CHR '','', CHR ''['', CHR '']'', CHR ''*''}" "byte c < 128" "\<not> is_whitespace [c]"
    "byte c \<notin> {32, 9, 10, 46, 35, 91, 44, 62, 43, 126, 58, 42}"
  using assms
  by (auto simp: css_name_def list_all_iff is_ascii_alnum_def is_ascii_digit_def is_ascii_lowercase_def
      is_ascii_uppercase_def is_whitespace_def)

lemma selector_text_word: "css_name (selector_name s) \<Longrightarrow> word_ok (selector_text s)"
  using css_name_char [of "selector_name s"]
  by (cases s) (auto simp: word_ok_def is_ascii_str_def list_all_iff css_name_def is_whitespace_def)

lemma selector_text_chars:
  "css_name (selector_name s) \<Longrightarrow> c \<in> set (selector_text s) \<Longrightarrow> c \<noteq> CHR '','' \<and> c \<noteq> CHR ''['' \<and> c \<noteq> CHR ''*''"
  using css_name_char(1) [of "selector_name s" c] by (cases s) auto

lemma strip_prefix_single: "strip_prefix s [d] = (case s of c # cs \<Rightarrow> if c = d then Some cs else None | [] \<Rightarrow> None)"
  by (cases s) (auto simp: strip_prefix_def starts_with_def)

lemma matches_selector_text:
  assumes "css_name (selector_name s)"
  shows "matches_simple n (selector_text s) = selects s n"
proof -
  have none: "CHR ''#'' \<notin> set (selector_name s)" "CHR ''.'' \<notin> set (selector_name s)"
    "CHR ''['' \<notin> set (selector_name s)" "CHR ''*'' \<notin> set (selector_name s)"
    using css_name_char(1) [OF assms] by auto
  obtain c cs where name: "selector_name s = c # cs" using assms by (auto simp: css_name_def neq_Nil_conv)
  have "find_sub ''['' (selector_text s) = None" using none by (cases s) (auto simp: find_sub_single starts_with_def)
  moreover have "selector_text s \<noteq> ''*''" using none by (cases s) auto
  moreover have "matches_plain n (selector_text s) = selects s n" if "is_element n"
  proof (cases s)
    case (ByTag x)
    with none name have "c \<noteq> CHR ''#''" "c \<noteq> CHR ''.''" "split_once (CHR ''.'') x = None" "split_once (CHR ''#'') x = None"
      by (auto simp: split_once_None)
    with ByTag name that show ?thesis by (simp add: matches_plain_def strip_prefix_single)
  qed (use that in \<open>simp_all add: matches_plain_def strip_prefix_single\<close>)
  ultimately show ?thesis by (cases s) (simp_all add: matches_simple_def)
qed

lemma node_matches_text:
  assumes "css_name (selector_name s)"
  shows "node_matches_selector nodes n (selector_text s) = Some (selects s n)"
proof -
  have w: "word_ok (selector_text s)" using assms by (rule selector_text_word)
  have "split_on (CHR '','') (selector_text s) = [selector_text s]"
    using selector_text_chars [OF assms] by (intro split_by_none) auto
  moreover have "selector_text s \<noteq> ''*''" using selector_text_chars [OF assms] by auto
  ultimately show ?thesis
    using w matches_selector_text [OF assms]
    by (cases s) (auto simp: node_matches_selector_def node_matches_single_def word_ok_trim word_ok_split)
qed

section \<open>Lemmas: indices\<close>

text \<open>What an index says of a document, given as the list of its nodes in document order.\<close>

definition first_with :: "(dom_node \<Rightarrow> bool) \<Rightarrow> (nat \<times> dom_node) list \<Rightarrow> nat option" where
  "first_with P visited = map_option fst (find (\<lambda>(i, n). P n) visited)"

definition all_with :: "(dom_node \<Rightarrow> bool) \<Rightarrow> (nat \<times> dom_node) list \<Rightarrow> nat list" where
  "all_with P visited = map fst (filter (\<lambda>(i, n). P n) visited)"

lemma all_with_simps [simp]:
  "all_with P [] = []"
  "all_with P ((i, n) # v) = (if P n then [i] else []) @ all_with P v"
  "all_with P (v @ w) = all_with P v @ all_with P w"
  by (simp_all add: all_with_def)

lemma first_with_simps [simp]:
  "first_with P [] = None"
  "first_with P ((i, n) # v) = (if P n then Some i else first_with P v)"
  by (simp_all add: first_with_def)

lemma first_with_append: "first_with P (v @ w) = (case first_with P v of None \<Rightarrow> first_with P w | Some i \<Rightarrow> Some i)"
  by (induction v) auto

lemma first_with_all: "first_with P v = (case all_with P v of [] \<Rightarrow> None | i # is \<Rightarrow> Some i)"
  by (induction v) auto

lemma push_entry_get:
  "dict_get (push_entry k i ix) j =
     (if j = k then Some ((case dict_get ix k of Some is \<Rightarrow> is | None \<Rightarrow> []) @ [i]) else dict_get ix j)"
  by (simp add: push_entry_def dict_get_insert)

definition entries :: "(string, nat list) dict \<Rightarrow> string \<Rightarrow> nat list" where
  "entries ix k = (case dict_get ix k of Some is \<Rightarrow> is | None \<Rightarrow> [])"

lemma entries_push: "entries (push_entry k i ix) j = entries ix j @ (if j = k then [i] else [])"
  by (simp add: entries_def push_entry_get)

lemma entries_fold: "entries (fold (\<lambda>k. push_entry k i) ks ix) j = entries ix j @ replicate (count_list ks j) i"
  by (induction ks arbitrary: ix) (auto simp: entries_push replicate_app_Cons_same)

lemma push_not_Nil: "(\<And>k. dict_get ix k \<noteq> Some []) \<Longrightarrow> dict_get (push_entry k i ix) j \<noteq> Some []"
  by (simp add: push_entry_get)

lemma fold_not_Nil: "(\<And>k. dict_get ix k \<noteq> Some []) \<Longrightarrow> dict_get (fold (\<lambda>k. push_entry k i) ks ix) j \<noteq> Some []"
  by (induction ks arbitrary: ix) (auto simp: push_not_Nil)

definition class_entries :: "string \<Rightarrow> (nat \<times> dom_node) list \<Rightarrow> nat list" where
  "class_entries c visited =
     concat (map (\<lambda>(i, n). if is_element n
                           then (case node_attr n ''class'' of
                                   Some cls \<Rightarrow> replicate (count_list (split_whitespace cls) c) i | None \<Rightarrow> [])
                           else []) visited)"

lemma build_indices_snoc:
  "build_indices_from nodes (is @ [i]) ix =
     (case dict_get nodes i of
        Some n \<Rightarrow> if is_element n then index_node i n (build_indices_from nodes is ix) else build_indices_from nodes is ix
      | None \<Rightarrow> build_indices_from nodes is ix)"
  by (induction "is" arbitrary: ix) (auto split: option.splits)

definition present :: "dom_nodes \<Rightarrow> nat list \<Rightarrow> bool" where
  "present nodes order \<longleftrightarrow> (\<forall>i \<in> set order. dict_get nodes i \<noteq> None)"

lemma index_node_simps [simp]:
  "ix_id (index_node i n ix) = (case node_attr n ''id'' of
     Some v \<Rightarrow> if v \<noteq> [] \<and> dict_get (ix_id ix) v = None then dict_insert v i (ix_id ix) else ix_id ix | None \<Rightarrow> ix_id ix)"
  "ix_class (index_node i n ix) = (case node_attr n ''class'' of
     Some cls \<Rightarrow> fold (\<lambda>token. push_entry token i) (split_whitespace cls) (ix_class ix) | None \<Rightarrow> ix_class ix)"
  "ix_tag (index_node i n ix) =
     (if to_lowercase (nd_tag n) \<noteq> [] then push_entry (to_lowercase (nd_tag n)) i (ix_tag ix) else ix_tag ix)"
  by (simp_all add: index_node_def)

lemma id_index:
  assumes "present nodes order" and "v \<noteq> []"
  shows "dict_get (ix_id (build_indices nodes order)) v
    = first_with (\<lambda>n. is_element n \<and> node_attr n ''id'' = Some v) (map (visit nodes) order)"
  using assms(1)
proof (induction order rule: rev_induct)
  case (snoc i order)
  then obtain n where "dict_get nodes i = Some n" by (auto simp: present_def)
  with snoc assms(2) show ?case
    by (auto simp: present_def build_indices_def build_indices_snoc first_with_append visit_def dict_get_insert
        split: option.splits)
qed (simp add: build_indices_def)

lemma tag_index:
  assumes "present nodes order" and "k \<noteq> []"
  shows "entries (ix_tag (build_indices nodes order)) k
    = all_with (\<lambda>n. is_element n \<and> to_lowercase (nd_tag n) = k) (map (visit nodes) order)"
  using assms(1)
proof (induction order rule: rev_induct)
  case (snoc i order)
  then obtain n where "dict_get nodes i = Some n" by (auto simp: present_def)
  with snoc assms(2) show ?case
    by (auto simp: present_def build_indices_def build_indices_snoc visit_def entries_push)
qed (simp add: build_indices_def entries_def)

lemma class_index:
  assumes "present nodes order"
  shows "entries (ix_class (build_indices nodes order)) c = class_entries c (map (visit nodes) order)"
  using assms
proof (induction order rule: rev_induct)
  case (snoc i order)
  then obtain n where "dict_get nodes i = Some n" by (auto simp: present_def)
  with snoc show ?case
    by (auto simp: present_def build_indices_def build_indices_snoc visit_def entries_fold class_entries_def
        split: option.splits)
qed (simp add: build_indices_def entries_def class_entries_def)

lemma index_not_Nil:
  "dict_get (ix_tag (build_indices nodes order)) k \<noteq> Some []"
  "dict_get (ix_class (build_indices nodes order)) k \<noteq> Some []"
proof -
  have "(\<forall>k. dict_get (ix_tag (build_indices nodes order)) k \<noteq> Some [])
      \<and> (\<forall>k. dict_get (ix_class (build_indices nodes order)) k \<noteq> Some [])"
  proof (induction order rule: rev_induct)
    case (snoc i order)
    then show ?case
      by (auto simp: build_indices_def build_indices_snoc push_not_Nil fold_not_Nil split: option.splits)
  qed (simp add: build_indices_def)
  then show "dict_get (ix_tag (build_indices nodes order)) k \<noteq> Some []"
    "dict_get (ix_class (build_indices nodes order)) k \<noteq> Some []" by auto
qed

lemma entries_Cons: "(\<And>k. dict_get ix k \<noteq> Some []) \<Longrightarrow>
  (case dict_get ix k of Some (i # is) \<Rightarrow> Some i | _ \<Rightarrow> None) = (case entries ix k of [] \<Rightarrow> None | i # is \<Rightarrow> Some i)"
  by (simp add: entries_def split: option.splits list.splits)

lemma entries_get: "(\<And>k. dict_get ix k \<noteq> Some []) \<Longrightarrow>
  dict_get ix k = (if entries ix k = [] then None else Some (entries ix k))"
  by (auto simp: entries_def split: option.splits)

lemma hd_class_entries:
  "(case class_entries c v of [] \<Rightarrow> None | i # is \<Rightarrow> Some i) = first_with (\<lambda>n. is_element n \<and> class_has n c) v"
proof (induction v)
  case (Cons w v)
  obtain i n where w: "w = (i, n)" by force
  have count: "count_list cs c = 0 \<longleftrightarrow> c \<notin> set cs" for cs by (induction cs) auto
  show ?case
  proof (cases "is_element n \<and> class_has n c")
    case True
    then obtain cls where cls: "node_attr n ''class'' = Some cls" "c \<in> set (split_whitespace cls)"
      by (auto simp: class_has_def split: option.splits)
    with count have "count_list (split_whitespace cls) c \<noteq> 0" by blast
    then obtain m where "count_list (split_whitespace cls) c = Suc m" by (metis not0_implies_Suc)
    with True w cls show ?thesis by (simp add: class_entries_def)
  next
    case False
    then have "(if is_element n then (case node_attr n ''class'' of
        Some cls \<Rightarrow> replicate (count_list (split_whitespace cls) c) i | None \<Rightarrow> []) else []) = []"
      by (auto simp: class_has_def count split: option.splits)
    with w have "class_entries c (w # v) = class_entries c v" unfolding class_entries_def by simp
    with False w Cons show ?thesis by auto
  qed
qed (simp add: class_entries_def)

text \<open>The indices of a snapshot, when fresh, are those of its document.\<close>

definition indexed :: "dom_snapshot \<Rightarrow> dom_tree \<Rightarrow> bool" where
  "indexed sn t \<longleftrightarrow> document sn t \<and>
     (indices_fresh sn \<longrightarrow>
        (let ix = build_indices (sn_nodes sn) (tree_ids t)
         in sn_id_index sn = ix_id ix \<and> sn_class_index sn = ix_class ix \<and> sn_tag_index sn = ix_tag ix))"

lemma document_present: "document sn t \<Longrightarrow> present (sn_nodes sn) (tree_ids t)"
  using holds_present by (fastforce simp: document_def present_def)

lemma document_walk:
  "document sn t \<Longrightarrow> walk nd_children (sn_nodes sn) [sn_root sn] = Some (map (visit (sn_nodes sn)) (tree_ids t))"
  using walk_tree by (fastforce simp: document_def)

definition nodes_of :: "dom_snapshot \<Rightarrow> dom_tree \<Rightarrow> (nat \<times> dom_node) list" where
  "nodes_of sn t = map (visit (sn_nodes sn)) (tree_ids t)"

lemma bare_css: "css_name x \<Longrightarrow> bare_tag x"
  using css_name_char(4) by (auto simp: bare_tag_def css_name_def)

lemma css_name_ascii: "css_name x \<Longrightarrow> is_ascii_str x"
  using css_name_char(2) by (auto simp: is_ascii_str_def)

text \<open>
  The index keeps tags lowered as Unicode text and the matcher compares ASCII letters only. The two
  agree on every tag that does not hold a Kelvin sign.
\<close>

definition plain_tags :: "dom_nodes \<Rightarrow> bool" where
  "plain_tags nodes \<longleftrightarrow> list_all (\<lambda>(i, n). kelvin_sign \<notin> set (utf8_chars (nd_tag n))) nodes"

lemma plain_tags_get: "plain_tags nodes \<Longrightarrow> dict_get nodes i = Some n \<Longrightarrow> kelvin_sign \<notin> set (utf8_chars (nd_tag n))"
  by (auto simp: plain_tags_def list_all_iff dest: map_of_SomeD)

lemma all_with_cong: "(\<And>i n. (i, n) \<in> set v \<Longrightarrow> P n = Q n) \<Longrightarrow> all_with P v = all_with Q v"
  by (induction v) (auto simp: all_with_def)

lemma all_with_tag:
  assumes "plain_tags nodes" and "present nodes order" and "css_name x"
  shows "all_with (\<lambda>n. is_element n \<and> to_lowercase (nd_tag n) = to_lowercase x) (map (visit nodes) order)
    = all_with (selects (ByTag x)) (map (visit nodes) order)"
proof (rule all_with_cong)
  fix i n assume "(i, n) \<in> set (map (visit nodes) order)"
  with assms(2) have "dict_get nodes i = Some n" by (auto simp: present_def visit_def)
  with plain_tags_get [OF assms(1)] lower_eq_ascii [OF css_name_ascii [OF assms(3)], of "nd_tag n"]
  show "(is_element n \<and> to_lowercase (nd_tag n) = to_lowercase x) = selects (ByTag x) n" by auto
qed

lemma selects_fun:
  "selects (ById x) = (\<lambda>n. is_element n \<and> node_attr n ''id'' = Some x)"
  "selects (ByClass x) = (\<lambda>n. is_element n \<and> class_has n x)"
  by auto

lemma simple_first_fresh:
  assumes "indexed sn t" and "css_name (selector_name s)" and "plain_tags (sn_nodes sn)"
  shows "simple_selector_first sn (selector_text s) = (if indices_fresh sn then first_with (selects s) (nodes_of sn t) else None)"
proof (cases "indices_fresh sn")
  case True
  define ix where "ix = build_indices (sn_nodes sn) (tree_ids t)"
  have ixs: "sn_id_index sn = ix_id ix" "sn_class_index sn = ix_class ix" "sn_tag_index sn = ix_tag ix"
    using assms(1) True by (simp_all add: indexed_def ix_def Let_def)
  have pr: "present (sn_nodes sn) (tree_ids t)" using assms(1) document_present by (simp add: indexed_def)
  obtain c cs where name: "selector_name s = c # cs" using assms(2) by (auto simp: css_name_def neq_Nil_conv)
  have c: "c \<noteq> CHR ''#''" "c \<noteq> CHR ''.''" using css_name_char(1) [OF assms(2), of c] name by auto
  note not_Nil = index_not_Nil [of "sn_nodes sn" "tree_ids t", folded ix_def]
  show ?thesis
  proof (cases s)
    case (ByTag x)
    have "to_lowercase x \<noteq> []" using ByTag name by simp
    moreover have "css_name x" using assms(2) ByTag by simp
    ultimately show ?thesis
      using tag_index [OF pr, of "to_lowercase x"] all_with_tag [OF assms(3) pr, of x] True ixs ByTag name c
        bare_css [OF assms(2)] not_Nil
      by (simp add: simple_selector_first_def strip_prefix_single entries_Cons first_with_all nodes_of_def ix_def
          del: selects.simps)
  next
    case (ById x)
    with id_index [OF pr, of x] True ixs name show ?thesis
      by (simp add: simple_selector_first_def strip_prefix_single nodes_of_def ix_def selects_fun del: selects.simps)
  next
    case (ByClass x)
    with class_index [OF pr, of x] True ixs name not_Nil show ?thesis
      by (simp add: simple_selector_first_def strip_prefix_single nodes_of_def ix_def entries_Cons hd_class_entries
          selects_fun del: selects.simps)
  qed
qed (simp add: simple_selector_first_def)

lemma query_walk:
  assumes "document sn t" and "\<And>n. test n = Some (P n)"
  shows "walk_find (\<lambda>i. test) (sn_nodes sn) [sn_root sn] = Some (first_with P (nodes_of sn t))"
  using walk_find_walk [OF document_walk [OF assms(1)], where test = "\<lambda>i. test" and P = "\<lambda>i. P"] assms(2)
  by (simp add: first_with_def nodes_of_def)

section \<open>Lemmas: the breadth-first walk\<close>

text \<open>
  The levels of a tree: the nodes at a depth, in document order. \<open>breadth_first\<close> lists the levels from
  the root down; it does not mention a queue.
\<close>

fun level :: "nat \<Rightarrow> dom_tree \<Rightarrow> nat list" where
  "level 0 (DTree i ts) = [i]"
| "level (Suc d) (DTree i ts) = concat (map (level d) ts)"

definition breadth_first :: "dom_tree \<Rightarrow> nat list" where
  "breadth_first t = concat (map (\<lambda>d. level d t) [0..<length (tree_ids t)])"

abbreviation forest_level :: "nat \<Rightarrow> dom_tree list \<Rightarrow> nat list" where
  "forest_level d ts \<equiv> concat (map (level d) ts)"

abbreviation forest_size :: "dom_tree list \<Rightarrow> nat" where
  "forest_size ts \<equiv> sum_list (map (\<lambda>t. length (tree_ids t)) ts)"

lemma level_beyond: "length (tree_ids t) \<le> d \<Longrightarrow> level d t = []"
proof (induction d t rule: level.induct)
  case (2 d i ts)
  have "length (tree_ids u) \<le> d" if "u \<in> set ts" for u
  proof -
    have "length (tree_ids u) \<le> forest_size ts" using that by (induction ts) auto
    with "2.prems" show ?thesis by (simp add: length_concat comp_def)
  qed
  with "2.IH" show ?case by simp
qed simp

lemma forest_level_beyond: "forest_size ts \<le> d \<Longrightarrow> forest_level d ts = []"
proof (induction ts)
  case (Cons t ts)
  then show ?case using level_beyond [of t d] by simp
qed simp

text \<open>A queue as a list of trees: what is left of one level, then what is known of the next.\<close>

function dequeue_order :: "dom_tree list \<Rightarrow> nat list" where
  "dequeue_order [] = []"
| "dequeue_order (DTree i ks # ts) = i # dequeue_order (ts @ ks)"
  by pat_completeness auto
termination by (relation "measure forest_size") (simp_all add: length_concat comp_def)

lemma interleave_concat:
  "concat (map (\<lambda>d. f d @ g (Suc d)) [0..<N]) @ f N = f 0 @ concat (map (\<lambda>d. g (Suc d) @ f (Suc d)) [0..<N])"
  by (induction N) auto

lemma dequeue_levels:
  "forest_size ts + forest_size us \<le> N \<Longrightarrow>
     dequeue_order (ts @ us) = forest_level 0 ts @ concat (map (\<lambda>d. forest_level d us @ forest_level (Suc d) ts) [0..<N])"
proof (induction "forest_size (ts @ us) * 2 + (if ts = [] then 1 else 0)" arbitrary: ts us N rule: less_induct)
  case less
  show ?case
  proof (cases ts)
    case Nil
    show ?thesis
    proof (cases us)
      case us: Nil
      with Nil show ?thesis by simp
    next
      case (Cons u us')
      have "dequeue_order (us @ []) =
          forest_level 0 us @ concat (map (\<lambda>d. forest_level d [] @ forest_level (Suc d) us) [0..<N])"
        by (rule less.hyps) (use less.prems Nil Cons in simp_all)
      also have "\<dots> = concat (map (\<lambda>d. forest_level d us) [0..<Suc N])"
        by (subst (2) upt_conv_Cons) (simp_all add: map_Suc_upt [symmetric] comp_def del: upt_Suc)
      also have "\<dots> = concat (map (\<lambda>d. forest_level d us) [0..<N])"
        using forest_level_beyond [of us N] less.prems Nil by simp
      finally show ?thesis using Nil by simp
    qed
  next
    case (Cons t ts')
    obtain i ks where t: "t = DTree i ks" by (cases t)
    have "dequeue_order (ts' @ (us @ ks)) =
        forest_level 0 ts' @ concat (map (\<lambda>d. forest_level d (us @ ks) @ forest_level (Suc d) ts') [0..<N])"
      by (rule less.hyps) (use less.prems Cons t in \<open>simp_all add: length_concat comp_def\<close>)
    with Cons t show ?thesis by simp
  qed
qed

lemma dequeue_breadth_first: "dequeue_order [t] = breadth_first t"
proof -
  have "dequeue_order ([] @ [t]) = concat (map (\<lambda>d. level d t) [0..<length (tree_ids t)])"
    by (subst dequeue_levels [of "[]" "[t]" "length (tree_ids t)"]) simp_all
  then show ?thesis by (simp add: breadth_first_def)
qed

lemma dequeue_mset: "mset (dequeue_order ts) = mset (concat (map tree_ids ts))"
  by (induction ts rule: dequeue_order.induct) (simp_all add: ac_simps)

lemma breadth_first_mset: "mset (breadth_first t) = mset (tree_ids t)"
  using dequeue_mset [of "[t]"] by (simp add: dequeue_breadth_first)

lemma bfs_forest:
  assumes "\<And>t. t \<in> set ts \<Longrightarrow> (\<exists>par. holds nodes par t)
      \<and> (\<forall>i \<in> set (tree_ids t). \<forall>n. dict_get nodes i = Some n \<longrightarrow> test n = Some (P n))"
  shows "bfs_matches test nodes (map tree_root ts)
    = Some (filter (\<lambda>i. \<exists>n. dict_get nodes i = Some n \<and> P n) (dequeue_order ts))"
  using assms
proof (induction ts rule: dequeue_order.induct)
  case 1
  then show ?case by (simp add: bfs_matches.simps)
next
  case (2 i ks us)
  from "2.prems" [of "DTree i ks"] obtain n where n: "dict_get nodes i = Some n" "nd_children n = map tree_root ks"
    and ks: "\<And>k. k \<in> set ks \<Longrightarrow> holds nodes (Some i) k" and test: "test n = Some (P n)"
    by (fastforce simp: list_all_iff split: option.splits)
  have "bfs_matches test nodes (map tree_root (us @ ks))
      = Some (filter (\<lambda>i. \<exists>n. dict_get nodes i = Some n \<and> P n) (dequeue_order (us @ ks)))"
  proof (rule "2.IH")
    fix t assume "t \<in> set (us @ ks)"
    then show "(\<exists>par. holds nodes par t)
      \<and> (\<forall>i \<in> set (tree_ids t). \<forall>n. dict_get nodes i = Some n \<longrightarrow> test n = Some (P n))"
      using "2.prems" [of t] "2.prems" [of "DTree i ks"] ks by auto
  qed
  with n test show ?case by (simp add: bfs_matches.simps [of _ _ "i # map tree_root us"])
qed

section \<open>Lemmas: ancestors\<close>

text \<open>The chain of ancestors a parent link leads to, nearest first.\<close>

inductive ancestry :: "dom_nodes \<Rightarrow> nat option \<Rightarrow> dom_node list \<Rightarrow> bool" where
  top_node: "ancestry nodes None []"
| lost_node: "dict_get nodes p = None \<Longrightarrow> ancestry nodes (Some p) []"
| up_node: "dict_get nodes p = Some a \<Longrightarrow> ancestry nodes (nd_parent a) as \<Longrightarrow> ancestry nodes (Some p) (a # as)"

fun embeds :: "('a \<Rightarrow> 'b \<Rightarrow> bool) \<Rightarrow> 'b list \<Rightarrow> 'a list \<Rightarrow> bool" where
  "embeds match [] as = True"
| "embeds match (p # ps) [] = False"
| "embeds match (p # ps) (a # as) = (if match a p then embeds match ps as else embeds match (p # ps) as)"

lemma ancestors_match_embeds:
  "ancestry nodes current as \<Longrightarrow> ancestors_match nodes parts current = Some (embeds matches_simple parts as)"
proof (induction arbitrary: parts rule: ancestry.induct)
  case (top_node nodes)
  then show ?case by (cases parts) (simp_all add: ancestors_match.simps)
next
  case (lost_node nodes p)
  then show ?case by (cases parts) (simp_all add: ancestors_match.simps)
next
  case (up_node nodes p a as)
  then show ?case by (cases parts) (simp_all add: ancestors_match.simps [of _ _ "Some p"])
qed

lemma embeds_fewer: "embeds match (p # ps) as \<Longrightarrow> embeds match ps as"
proof (induction as arbitrary: p ps)
  case (Cons a as)
  then have ps: "embeds match ps as" by (auto split: if_splits)
  show ?case
  proof (cases ps)
    case (Cons q qs)
    with ps Cons.IH show ?thesis by auto
  qed simp
qed simp

lemma embeds_more: "embeds match ps as \<Longrightarrow> embeds match ps (a # as)"
  by (cases ps) (auto dest: embeds_fewer)

text \<open>Taking the nearest ancestor at each part loses nothing.\<close>

lemma embeds_subseqs:
  "embeds match ps as \<longleftrightarrow> (\<exists>bs \<in> set (subseqs as). list_all2 match bs ps)"
proof (induction as arbitrary: ps)
  case (Cons a as)
  have "embeds match ps (a # as) \<longleftrightarrow>
      embeds match ps as \<or> (\<exists>q qs. ps = q # qs \<and> match a q \<and> embeds match qs as)"
    using embeds_fewer embeds_more by (cases ps) auto
  also have "\<dots> \<longleftrightarrow> (\<exists>bs \<in> set (subseqs as). list_all2 match bs ps)
      \<or> (\<exists>bs \<in> set (subseqs as). list_all2 match (a # bs) ps)"
    unfolding Cons.IH by (auto simp: list_all2_Cons1)
  also have "\<dots> \<longleftrightarrow> (\<exists>bs \<in> set (subseqs (a # as)). list_all2 match bs ps)"
    by (auto simp: Let_def)
  finally show ?case .
next
  case Nil
  then show ?case by (cases ps) simp_all
qed

lemma tree_ancestry:
  "holds nodes par t \<Longrightarrow> ancestry nodes par as \<Longrightarrow> i \<in> set (tree_ids t) \<Longrightarrow>
     \<exists>n bs. dict_get nodes i = Some n \<and> ancestry nodes (nd_parent n) bs"
proof (induction t arbitrary: par as)
  case (DTree j ts)
  then obtain n where n: "dict_get nodes j = Some n" "nd_parent n = par"
    and ts: "\<And>t. t \<in> set ts \<Longrightarrow> holds nodes (Some j) t"
    by (auto simp: list_all_iff split: option.splits)
  have up: "ancestry nodes (Some j) (n # as)" using n DTree.prems(2) by (auto intro: up_node)
  show ?case
  proof (cases "i = j")
    case True
    with n DTree.prems(2) show ?thesis by blast
  next
    case False
    with DTree.prems(3) obtain t where "t \<in> set ts" "i \<in> set (tree_ids t)" by auto
    with DTree.IH ts up show ?thesis by blast
  qed
qed

lemma document_ancestry:
  "document sn t \<Longrightarrow> i \<in> set (tree_ids t) \<Longrightarrow>
     \<exists>n as. node_of sn i = Some n \<and> ancestry (sn_nodes sn) (nd_parent n) as"
  using tree_ancestry [OF _ top_node] by (fastforce simp: document_def node_of_def)

lemma any_single_total:
  "ancestry nodes (nd_parent n) as \<Longrightarrow> \<exists>b. any_single nodes n sels = Some b"
  by (induction sels) (auto simp: node_matches_single_def ancestors_match_embeds Let_def)

lemma document_matches_total:
  assumes "document sn t" and "i \<in> set (tree_ids t)" and "dict_get (sn_nodes sn) i = Some n"
  shows "\<exists>b. node_matches_selector (sn_nodes sn) n sel = Some b"
  using document_ancestry [OF assms(1,2)] assms(3) any_single_total
  by (fastforce simp: node_matches_selector_def node_of_def)

section \<open>Lemmas: links\<close>

lemma tree_links:
  assumes "holds nodes par t" and "distinct (tree_ids t)" and "i \<in> set (tree_ids t)" and "dict_get nodes i = Some n"
  shows "distinct (nd_children n)
    \<and> (\<forall>c \<in> set (nd_children n). c \<in> set (tree_ids t) \<and> (\<exists>m. dict_get nodes c = Some m \<and> nd_parent m = Some i))
    \<and> (nd_parent n = par \<or> (\<exists>p \<in> set (tree_ids t). nd_parent n = Some p))"
  using assms(1-3)
proof (induction t arbitrary: par)
  case (DTree j ts)
  then obtain m where m: "dict_get nodes j = Some m" "nd_parent m = par" "nd_children m = map tree_root ts"
    and ts: "\<And>t. t \<in> set ts \<Longrightarrow> holds nodes (Some j) t"
    by (auto simp: list_all_iff split: option.splits)
  have d: "distinct (concat (map tree_ids ts))" using DTree.prems(2) by simp
  then have dt: "distinct (tree_ids t)" if "t \<in> set ts" for t using that by (simp add: distinct_concat_iff)
  show ?case
  proof (cases "i = j")
    case True
    have "distinct (map tree_root ts)" using d
    proof (induction ts)
      case (Cons u us)
      have "tree_root v \<in> set (concat (map tree_ids us))" if "v \<in> set us" for v using that tree_root_in by auto
      with Cons tree_root_in [of u] show ?case by fastforce
    qed simp
    moreover have "c \<in> set (tree_ids (DTree j ts)) \<and> (\<exists>m. dict_get nodes c = Some m \<and> nd_parent m = Some j)"
      if "c \<in> tree_root ` set ts" for c
    proof -
      from that obtain u where "u \<in> set ts" "c = tree_root u" by auto
      with ts [of u] tree_root_in [of u] show ?thesis by (auto simp: holds_iff [of _ _ u])
    qed
    ultimately show ?thesis using True m assms(4) by simp
  next
    case False
    with DTree.prems(3) obtain u where u: "u \<in> set ts" "i \<in> set (tree_ids u)" by auto
    from DTree.IH [OF u(1) ts [OF u(1)] dt [OF u(1)] u(2)] u(1) show ?thesis by auto
  qed
qed

lemma position_of_Some: "position_of x ys = Some k \<Longrightarrow> k < length ys \<and> ys ! k = x"
  by (induction ys arbitrary: k) (auto split: if_splits)

lemma position_of_nth: "distinct ys \<Longrightarrow> k < length ys \<Longrightarrow> position_of (ys ! k) ys = Some k"
proof (induction ys arbitrary: k)
  case (Cons y ys)
  then show ?case by (cases k) auto
qed simp

lemma siblings_at_document:
  assumes "document sn t" and "i \<in> set (tree_ids t)" and "siblings_at sn i = Some (cs, k)"
  shows "distinct cs \<and> k < length cs \<and> cs ! k = i \<and> (\<forall>l < length cs. siblings_at sn (cs ! l) = Some (cs, l))"
proof -
  have h: "holds (sn_nodes sn) None t" "distinct (tree_ids t)" using assms(1) by (simp_all add: document_def)
  from assms(3) obtain n p pn where n: "node_of sn i = Some n" "nd_parent n = Some p" "node_of sn p = Some pn"
    "position_of i (nd_children pn) = Some k" "cs = nd_children pn"
    by (auto simp: siblings_at_def bind_eq_Some_conv)
  have "p \<in> set (tree_ids t)"
    using tree_links [OF h assms(2), of n] n(1,2) by (simp add: node_of_def)
  from tree_links [OF h this, of pn] n(3)
  have d: "distinct cs" and m: "\<And>c. c \<in> set cs \<Longrightarrow> \<exists>m. dict_get (sn_nodes sn) c = Some m \<and> nd_parent m = Some p"
    by (auto simp: node_of_def n(5))
  have "siblings_at sn (cs ! l) = Some (cs, l)" if "l < length cs" for l
    using m [of "cs ! l"] that position_of_nth [OF d that] n(3,5) by (auto simp: siblings_at_def node_of_def)
  with d position_of_Some [OF n(4)] n(5) show ?thesis by simp
qed

section \<open>Properties\<close>

lemma rebuilt_indexed:
  assumes "document sn t"
  shows "\<exists>sn'. rebuild_indices sn = Some sn' \<and> indexed sn' t \<and> indices_fresh sn'"
  using assms document_walk [OF assms]
  by (auto simp: rebuild_indices_def indexed_def document_def indices_fresh_def Let_def visit_def comp_def)

lemma bumped_stale: "indices_fresh sn \<Longrightarrow> \<not> indices_fresh (bump_revision sn)"
  by (simp add: indices_fresh_def bump_revision_def)


text \<open>
  \<open>getElementsByTagName\<close> and \<open>getElementsByClassName\<close> without duplicates: the tag query gives
  exactly the elements with the tag, in document order from the indices and in the reverse
  order once a change has made them stale.
\<close>
theorem tag_query_order:
  assumes "indexed sn t" and "tag \<noteq> []"
  shows "get_elements_by_tag_name sn tag =
    Some ((if indices_fresh sn then id else rev)
      (all_with (\<lambda>n. is_element n \<and> to_lowercase (nd_tag n) = to_lowercase tag) (nodes_of sn t)))"
proof -
  define ix where "ix = build_indices (sn_nodes sn) (tree_ids t)"
  define P where "P = (\<lambda>n. is_element n \<and> to_lowercase (nd_tag n) = to_lowercase tag)"
  have doc: "document sn t" using assms(1) by (simp add: indexed_def)
  have "to_lowercase tag \<noteq> []" using assms(2) by simp
  note index = tag_index [OF document_present [OF doc] this, folded ix_def]
  have slow: "map_option (\<lambda>visited. rev (map fst (filter (\<lambda>(i, n). P n) visited)))
      (walk nd_children (sn_nodes sn) [sn_root sn]) = Some (rev (all_with P (nodes_of sn t)))"
    using document_walk [OF doc] by (simp add: all_with_def nodes_of_def)
  show ?thesis
  proof (cases "indices_fresh sn")
    case True
    then have "sn_tag_index sn = ix_tag ix" using assms(1) by (simp add: indexed_def ix_def Let_def)
    with True slow index index_not_Nil(1) [of "sn_nodes sn" "tree_ids t", folded ix_def] show ?thesis
      by (auto simp: get_elements_by_tag_name_def entries_get P_def nodes_of_def)
  qed (use slow in \<open>simp add: get_elements_by_tag_name_def P_def\<close>)
qed

text \<open>
  A selector with blanks matches a node exactly when its last part matches the node and the
  others match, in order, some of its ancestors: taking the nearest ancestor for each part
  loses no match, and the climb ends.
\<close>
theorem descendant_selector_exact:
  assumes "document sn t" and "i \<in> set (tree_ids t)" and "node_of sn i = Some n"
    and "ancestry (sn_nodes sn) (nd_parent n) as"
    and "split_whitespace sel = parts @ [part]" and "parts \<noteq> []" and "sel \<noteq> ''*''"
  shows "node_matches_single (sn_nodes sn) n sel = Some (matches_simple n part
    \<and> (\<exists>bs \<in> set (subseqs as). list_all2 matches_simple bs (rev parts)))"
  using assms(5-7) ancestors_match_embeds [OF assms(4)]
  by (simp add: node_matches_single_def embeds_subseqs)

text \<open>
  C38: \<open>querySelectorAll\<close> without the indices ends on a document and returns the matching elements
  breadth first: level by level from the root, each level in document order (\<open>breadth_first\<close>, a
  listing of the document that holds each node once), and exactly those that match.
\<close>
theorem query_all_complete:
  assumes "document sn t" and "\<not> indices_fresh sn"
  shows "query_selector_all sn sel = Some (filter (\<lambda>i. \<exists>n. node_of sn i = Some n
      \<and> node_matches_selector (sn_nodes sn) n sel = Some True) (breadth_first t))
    \<and> mset (breadth_first t) = mset (tree_ids t)"
proof -
  have "\<exists>par. holds (sn_nodes sn) par t" "tree_root t = sn_root sn" using assms(1) by (auto simp: document_def)
  moreover have "node_matches_selector (sn_nodes sn) n sel = Some (node_matches_selector (sn_nodes sn) n sel = Some True)"
    if "i \<in> set (tree_ids t)" "dict_get (sn_nodes sn) i = Some n" for i n
    using document_matches_total [OF assms(1) that, of sel] by (metis (full_types) option.inject)
  ultimately show ?thesis
    using bfs_forest [of "[t]" "sn_nodes sn" "\<lambda>n. node_matches_selector (sn_nodes sn) n sel"
        "\<lambda>n. node_matches_selector (sn_nodes sn) n sel = Some True"] assms(2) breadth_first_mset [of t]
    by (simp add: query_selector_all_def simple_selector_all_def node_of_def dequeue_breadth_first)
qed

text \<open>
  Siblings are linked both ways: a node of the document is the next sibling of another exactly
  when that one is its previous sibling.
\<close>
theorem sibling_links:
  assumes "document sn t" and "i \<in> set (tree_ids t)" and "j \<in> set (tree_ids t)"
  shows "next_sibling sn i = Some j \<longleftrightarrow> previous_sibling sn j = Some i"
proof
  assume "next_sibling sn i = Some j"
  then obtain cs k where "siblings_at sn i = Some (cs, k)" "k + 1 < length cs" "cs ! (k + 1) = j"
    by (auto simp: next_sibling_def bind_eq_Some_conv split: if_splits)
  with siblings_at_document [OF assms(1,2), of cs k] show "previous_sibling sn j = Some i"
    by (auto simp: previous_sibling_def)
next
  assume "previous_sibling sn j = Some i"
  then obtain cs k where s: "siblings_at sn j = Some (cs, k)" "k > 0" "cs ! (k - 1) = i"
    by (auto simp: previous_sibling_def bind_eq_Some_conv split: if_splits)
  with siblings_at_document [OF assms(1,3), of cs k] have "siblings_at sn i = Some (cs, k - 1)" "k < length cs" "cs ! k = j"
    by auto
  with s(2) show "next_sibling sn i = Some j" by (simp add: next_sibling_def)
qed

subsection \<open>A document\<close>

definition sample_node :: "nat \<Rightarrow> string \<Rightarrow> (string \<times> string) list \<Rightarrow> nat list \<Rightarrow> nat option \<Rightarrow> dom_node" where
  "sample_node i tag attrs kids par =
     \<lparr>nd_id = i, nd_tag = tag, nd_attributes = attrs, nd_text = [], nd_children = kids, nd_parent = par,
      nd_type = (if tag = [] then 9 else 1)\<rparr>"

definition sample_nodes :: dom_nodes where
  "sample_nodes =
     [(0, sample_node 0 [] [] [1] None),
      (1, sample_node 1 ''div'' [(''id'', ''main'')] [2, 3] (Some 0)),
      (2, sample_node 2 ''p'' [(''class'', ''x x'')] [4] (Some 1)),
      (3, sample_node 3 ''p'' [] [] (Some 1)),
      (4, sample_node 4 ''p'' [(''class'', ''x'')] [] (Some 2))]"

definition sample_tree :: dom_tree where
  "sample_tree = DTree 0 [DTree 1 [DTree 2 [DTree 4 []], DTree 3 []]]"

definition sample_snapshot :: dom_snapshot where
  "sample_snapshot =
     snapshot_empty\<lparr>sn_nodes := sample_nodes,
       sn_id_index := ix_id (build_indices sample_nodes [0, 1, 2, 4, 3]),
       sn_class_index := ix_class (build_indices sample_nodes [0, 1, 2, 4, 3]),
       sn_tag_index := ix_tag (build_indices sample_nodes [0, 1, 2, 4, 3])\<rparr>"

lemmas sample_dom = sample_snapshot_def sample_nodes_def sample_node_def sample_tree_def snapshot_empty_def

lemma sample_document: "document sample_snapshot sample_tree" "document (bump_revision sample_snapshot) sample_tree"
  by (simp_all add: document_def sample_dom bump_revision_def)

lemma sample_indexed: "indexed sample_snapshot sample_tree" "indexed (bump_revision sample_snapshot) sample_tree"
proof -
  have "tree_ids sample_tree = [0, 1, 2, 4, 3]" by (simp add: sample_tree_def)
  then show "indexed sample_snapshot sample_tree" "indexed (bump_revision sample_snapshot) sample_tree"
    using sample_document unfolding indexed_def
    by (simp_all add: Let_def) (simp_all add: sample_snapshot_def snapshot_empty_def bump_revision_def indices_fresh_def)
qed


theorem sibling_links_witness:
  "previous_sibling sample_snapshot 3 = Some 2"
proof -
  have "next_sibling sample_snapshot 2 = Some 3" by code_simp
  then show ?thesis using sibling_links [OF sample_document(1), of 2 3] by (simp add: sample_tree_def)
qed

theorem tag_query_order_witness:
  "get_elements_by_tag_name sample_snapshot ''P'' = Some [2, 4, 3]
   \<and> get_elements_by_tag_name (bump_revision sample_snapshot) ''P'' = Some [3, 4, 2]"
proof -
  have "all_with (\<lambda>n. is_element n \<and> to_lowercase (nd_tag n) = to_lowercase ''P'') (nodes_of sample_snapshot sample_tree) = [2, 4, 3]"
    "all_with (\<lambda>n. is_element n \<and> to_lowercase (nd_tag n) = to_lowercase ''P'')
      (nodes_of (bump_revision sample_snapshot) sample_tree) = [2, 4, 3]"
    "indices_fresh sample_snapshot" "\<not> indices_fresh (bump_revision sample_snapshot)" by code_simp+
  then show ?thesis
    using tag_query_order [OF sample_indexed(1), of "''P''"] tag_query_order [OF sample_indexed(2), of "''P''"] by simp
qed

theorem descendant_selector_exact_witness:
  "node_matches_single sample_nodes (sample_node 4 ''p'' [(''class'', ''x'')] [] (Some 2)) ''div .x'' = Some True"
proof -
  have "ancestry sample_nodes (Some 2)
      [sample_node 2 ''p'' [(''class'', ''x x'')] [4] (Some 1), sample_node 1 ''div'' [(''id'', ''main'')] [2, 3] (Some 0),
       sample_node 0 [] [] [1] None]" (is "ancestry _ _ ?as")
    by (auto intro!: ancestry.intros simp: sample_nodes_def sample_node_def)
  moreover have "split_whitespace ''div .x'' = [''div''] @ [''.x'']" by code_simp
  moreover have "sn_nodes sample_snapshot = sample_nodes" by (simp add: sample_snapshot_def)
  moreover have "\<exists>bs \<in> set (subseqs ?as). list_all2 matches_simple bs (rev [''div''])" by code_simp
  moreover have "matches_simple (sample_node 4 ''p'' [(''class'', ''x'')] [] (Some 2)) ''.x''" by code_simp
  ultimately show ?thesis
    using descendant_selector_exact [OF sample_document(1), of 4 "sample_node 4 ''p'' [(''class'', ''x'')] [] (Some 2)" ?as
        "''div .x''" "[''div'']" "''.x''"]
    by (simp add: node_of_def sample_nodes_def sample_tree_def) (simp add: sample_node_def)
qed

theorem query_all_complete_witness:
  "query_selector_all (bump_revision sample_snapshot) ''p, .x'' = Some [2, 3, 4]"
proof -
  have "\<not> indices_fresh (bump_revision sample_snapshot)" by code_simp
  moreover have "breadth_first sample_tree = [0, 1, 2, 3, 4]" by code_simp
  moreover have "node_of (bump_revision sample_snapshot) i = node_of sample_snapshot i"
    "sn_nodes (bump_revision sample_snapshot) = sn_nodes sample_snapshot" for i
    by (simp_all add: node_of_def bump_revision_def)
  moreover have "map (\<lambda>i. case node_of sample_snapshot i of
        Some n \<Rightarrow> node_matches_selector (sn_nodes sample_snapshot) n ''p, .x'' = Some True | None \<Rightarrow> False) [0, 1, 2, 3, 4]
      = [False, False, True, True, True]" by code_simp
  ultimately show ?thesis
    using query_all_complete [OF sample_document(2), of "''p, .x''"] by (auto split: option.splits)
qed

text \<open>
  An element may be named with a Kelvin sign (U+212A). The index files it under the letter k, so the
  query \<open>k\<close> finds it while the indices are fresh and no longer once the document has changed.
\<close>
theorem kelvin_tag_found_by_index:
  "(let nodes = [(0, sample_node 0 [] [] [1] None), (1, sample_node 1 kelvin_sign [] [] (Some 0))];
        sn = snapshot_empty\<lparr>sn_nodes := nodes, sn_tag_index := ix_tag (build_indices nodes [0, 1])\<rparr>
    in query_selector sn ''k'' = Some (Some 1) \<and> query_selector (bump_revision sn) ''k'' = Some None)"
  by code_simp

text \<open>
  The same query has three orders: document order from the indices, breadth first without them,
  and reverse document order when it is scoped; and an element that names a class twice is
  listed twice by the index.
\<close>
theorem query_orders_differ:
  "query_selector_all sample_snapshot ''p'' = Some [2, 4, 3]
   \<and> query_selector_all (bump_revision sample_snapshot) ''p'' = Some [2, 3, 4]
   \<and> query_selector_all_from sample_snapshot 1 ''p'' = Some [3, 4, 2]
   \<and> get_elements_by_class_name sample_snapshot ''x'' = Some [2, 2, 4]"
  by code_simp

text \<open>
  The selector the snapshot gives out for elements without an id uses \<open>>\<close> between its steps; the
  matcher reads that as the name of an ancestor, so nothing matches.
\<close>
theorem child_combinator_never_matches:
  "query_selector sample_snapshot ''div > p'' = Some None \<and> query_selector sample_snapshot ''div p'' = Some (Some 2)"
  by code_simp

end
