(* ===== verification/DomBuild.thy ===== *)
theory DomBuild
  imports DomSelect Redact
begin

text \<open>
  How a snapshot is made and changed (\<open>dom_snapshot.rs\<close>): collection from the render document,
  flattening of shadow trees and slots, the text of elements, masking of password values, and
  the replacement of an element's children by a parsed fragment. The render document (Blitz) is
  the record \<open>render_doc\<close>; parsing a fragment is the argument \<open>parse\<close>.
\<close>

section \<open>Collection\<close>

datatype render_data = RDocument | RElement string "(string \<times> string) list" | RText string | RComment | RAnonymous

record render_node =
  rn_data :: render_data
  rn_children :: "nat list"

record render_doc =
  rd_node :: "nat \<Rightarrow> render_node option"
  rd_html :: nat
  rd_html_parent :: "nat option"

definition as_u32 :: "nat \<Rightarrow> nat" where
  "as_u32 n = nat (int n mod 4294967296)"

lemma as_u32_id: "n \<le> 4294967295 \<Longrightarrow> as_u32 n = n"
  by (simp add: as_u32_def)

record collected =
  cl_nodes :: dom_nodes
  cl_order :: "nat list"
  cl_body :: "nat option"
  cl_head :: "nat option"

definition note_landmark :: "nat \<Rightarrow> string \<Rightarrow> collected \<Rightarrow> collected" where
  "note_landmark i tag st =
     (if tag = ''body'' \<and> cl_body st = None then st\<lparr>cl_body := Some i\<rparr>
      else if tag = ''head'' \<and> cl_head st = None then st\<lparr>cl_head := Some i\<rparr>
      else st)"

definition render_parts :: "render_data \<Rightarrow> (string \<times> (string, string) dict \<times> nat \<times> string) option" where
  "render_parts d =
     (case d of
        RDocument \<Rightarrow> Some ([], [], 9, [])
      | RElement tag attrs \<Rightarrow> Some (tag, fold (\<lambda>(k, v). dict_insert k v) attrs [], 1, [])
      | RText content \<Rightarrow> Some ([], [], 3, content)
      | RComment \<Rightarrow> Some ([], [], 8, [])
      | RAnonymous \<Rightarrow> None)"

definition collect_node :: "nat \<Rightarrow> nat option \<Rightarrow> render_node \<Rightarrow> collected \<Rightarrow> collected option" where
  "collect_node i parent r st =
     (case render_parts (rn_data r) of
        None \<Rightarrow> None
      | Some (tag, attrs, ty, content) \<Rightarrow>
          (let st' = (if ty = 1 then note_landmark i tag st else st)
           in Some (st'\<lparr>cl_nodes := dict_insert i
                 \<lparr>nd_id = i, nd_tag = tag, nd_attributes = attrs, nd_text = content,
                  nd_children = map as_u32 (rn_children r), nd_parent = parent, nd_type = ty\<rparr> (cl_nodes st'),
               cl_order := cl_order st' @ [i]\<rparr>)))"

text \<open>
  The recursion visits a node, then its children in order; the list holds the nodes still to be
  visited with their parents.
\<close>

partial_function (option) collect_from_render ::
  "render_doc \<Rightarrow> (nat \<times> nat option) list \<Rightarrow> collected \<Rightarrow> collected option" where
  "collect_from_render doc work st =
     (case work of
        [] \<Rightarrow> Some st
      | v # rest \<Rightarrow>
          (case rd_node doc (fst v) of
             None \<Rightarrow> collect_from_render doc rest st
           | Some r \<Rightarrow>
               (case collect_node (as_u32 (fst v)) (snd v) r st of
                  None \<Rightarrow> collect_from_render doc rest st
                | Some st' \<Rightarrow>
                    collect_from_render doc (map (\<lambda>c. (c, Some (as_u32 (fst v)))) (rn_children r) @ rest) st')))"

section \<open>Shadow trees\<close>

datatype shadow_mode = ShadowOpen | ShadowClosed

record shadow_host =
  sh_children :: "nat list"
  sh_mode :: shadow_mode

text \<open>The three thread-local tables.\<close>

record shadow_registry =
  sr_roots :: "(nat, shadow_host) dict"
  sr_assignments :: "(nat, nat list) dict"
  sr_assigned :: "(nat, nat) dict"

definition register_shadow_host :: "nat \<Rightarrow> shadow_mode \<Rightarrow> shadow_registry \<Rightarrow> shadow_registry" where
  "register_shadow_host h m sr =
     sr\<lparr>sr_roots := dict_insert h \<lparr>sh_children = [], sh_mode = m\<rparr> (sr_roots sr)\<rparr>"

definition push_shadow_child :: "nat \<Rightarrow> nat \<Rightarrow> shadow_registry \<Rightarrow> shadow_registry" where
  "push_shadow_child h c sr =
     (case dict_get (sr_roots sr) h of
        None \<Rightarrow> sr
      | Some host \<Rightarrow> sr\<lparr>sr_roots := dict_insert h (host\<lparr>sh_children := sh_children host @ [c]\<rparr>) (sr_roots sr)\<rparr>)"

definition clear_shadow_roots :: "shadow_registry \<Rightarrow> shadow_registry" where
  "clear_shadow_roots sr = \<lparr>sr_roots = [], sr_assignments = [], sr_assigned = []\<rparr>"

definition has_shadow_roots :: "shadow_registry \<Rightarrow> bool" where
  "has_shadow_roots sr \<longleftrightarrow> sr_roots sr \<noteq> []"

definition slot_assigned_nodes :: "shadow_registry \<Rightarrow> nat \<Rightarrow> nat list" where
  "slot_assigned_nodes sr i = (case dict_get (sr_assignments sr) i of Some ns \<Rightarrow> ns | None \<Rightarrow> [])"

definition assigned_slot_of :: "shadow_registry \<Rightarrow> nat \<Rightarrow> nat option" where
  "assigned_slot_of sr c = dict_get (sr_assigned sr) c"

definition slot_kids :: "dom_node \<Rightarrow> nat list" where
  "slot_kids n = (if nd_tag n = ''slot'' then [] else nd_children n)"

definition collect_slot_ids :: "dom_nodes \<Rightarrow> nat list \<Rightarrow> nat list option" where
  "collect_slot_ids nodes tops =
     map_option (\<lambda>visited. map fst (filter (\<lambda>(i, n). nd_tag n = ''slot'') visited)) (walk slot_kids nodes tops)"

definition slot_attr :: "dom_nodes \<Rightarrow> nat \<Rightarrow> string option" where
  "slot_attr nodes c = Option.bind (dict_get nodes c) (\<lambda>n. node_attr n ''slot'')"

text \<open>The light children by slot name, and those without one.\<close>

definition named_kids :: "dom_nodes \<Rightarrow> nat list \<Rightarrow> (string, nat list) dict" where
  "named_kids nodes light =
     fold (\<lambda>c named. case slot_attr nodes c of Some name \<Rightarrow> push_entry name c named | None \<Rightarrow> named) light []"

definition default_kids :: "dom_nodes \<Rightarrow> nat list \<Rightarrow> nat list" where
  "default_kids nodes light = filter (\<lambda>c. slot_attr nodes c = None) light"

definition slot_parts :: "dom_nodes \<Rightarrow> nat \<Rightarrow> string \<times> nat list" where
  "slot_parts nodes i =
     (case dict_get nodes i of
        Some n \<Rightarrow> (case node_attr n ''name'' of Some name \<Rightarrow> name | None \<Rightarrow> [], nd_children n)
      | None \<Rightarrow> ([], []))"

definition record_assignment :: "shadow_mode \<Rightarrow> nat \<Rightarrow> nat list \<Rightarrow> shadow_registry \<Rightarrow> shadow_registry" where
  "record_assignment m slot assigned sr =
     (if assigned = [] then sr
      else (let sr' = sr\<lparr>sr_assignments := dict_insert slot assigned (sr_assignments sr)\<rparr>
            in if m = ShadowOpen
               then sr'\<lparr>sr_assigned := fold (\<lambda>c. dict_insert c slot) assigned (sr_assigned sr')\<rparr>
               else sr'))"

text \<open>One plan per slot: the parent, what replaces the slot, the slot.\<close>

fun slot_plans ::
  "dom_nodes \<Rightarrow> shadow_mode \<Rightarrow> nat list \<Rightarrow> (string, nat list) dict \<Rightarrow> nat list \<Rightarrow> shadow_registry
    \<Rightarrow> (nat \<times> nat list \<times> nat) list \<times> shadow_registry" where
  "slot_plans nodes m [] named rest sr = ([], sr)"
| "slot_plans nodes m (s # ss) named rest sr =
     (let (name, fallback) = slot_parts nodes s;
          assigned = (if name = [] then rest else (case dict_get named name of Some cs \<Rightarrow> cs | None \<Rightarrow> []));
          named' = (if name = [] then named else dict_remove name named);
          rest' = (if name = [] then [] else rest);
          (plans, sr') = slot_plans nodes m ss named' rest' (record_assignment m s assigned sr)
      in (case Option.bind (dict_get nodes s) nd_parent of
            Some p \<Rightarrow> ((p, if assigned = [] then fallback else assigned, s) # plans, sr')
          | None \<Rightarrow> (plans, sr')))"

definition update_node :: "nat \<Rightarrow> (dom_node \<Rightarrow> dom_node) \<Rightarrow> dom_nodes \<Rightarrow> dom_nodes" where
  "update_node i f nodes = (case dict_get nodes i of Some n \<Rightarrow> dict_insert i (f n) nodes | None \<Rightarrow> nodes)"

definition splice_slot :: "nat \<Rightarrow> nat list \<Rightarrow> nat list \<Rightarrow> nat list" where
  "splice_slot s replacement kids =
     (case position_of s kids of
        Some k \<Rightarrow> take k kids @ replacement @ drop (k + 1) kids
      | None \<Rightarrow> kids)"

definition apply_plan :: "nat \<times> nat list \<times> nat \<Rightarrow> dom_nodes \<Rightarrow> dom_nodes" where
  "apply_plan plan nodes =
     (let (p, replacement, s) = plan;
          reparented = fold (\<lambda>r. update_node r (\<lambda>n. n\<lparr>nd_parent := Some p\<rparr>)) replacement nodes
      in update_node p (\<lambda>n. n\<lparr>nd_children := splice_slot s replacement (nd_children n)\<rparr>) reparented)"

definition distribute_slots ::
  "dom_nodes \<Rightarrow> nat list \<Rightarrow> nat list \<Rightarrow> shadow_mode \<Rightarrow> shadow_registry \<Rightarrow> (dom_nodes \<times> shadow_registry) option" where
  "distribute_slots nodes shadow_top light m sr =
     map_option
       (\<lambda>slots.
          if slots = [] then (nodes, sr)
          else (let (plans, sr') = slot_plans nodes m slots (named_kids nodes light) (default_kids nodes light) sr
                in (fold dict_remove slots (fold apply_plan plans nodes), sr')))
       (collect_slot_ids nodes shadow_top)"

text \<open>The shadow children of one host are merged; those that brought new nodes become its children.\<close>

fun merge_shadow ::
  "render_doc \<Rightarrow> nat \<Rightarrow> nat list \<Rightarrow> dom_nodes \<times> nat list \<Rightarrow> ((dom_nodes \<times> nat list) \<times> nat list) option" where
  "merge_shadow doc h [] st = Some (st, [])"
| "merge_shadow doc h (c # cs) st =
     Option.bind
       (collect_from_render doc [(c, Some h)] \<lparr>cl_nodes = fst st, cl_order = snd st, cl_body = None, cl_head = None\<rparr>)
       (\<lambda>cl.
         map_option (\<lambda>(st', tops). (st', if length (cl_nodes cl) > length (fst st) then c # tops else tops))
           (merge_shadow doc h cs (cl_nodes cl, cl_order cl)))"

definition compose_host ::
  "render_doc \<Rightarrow> nat \<times> shadow_host \<Rightarrow> (dom_nodes \<times> nat list) \<times> shadow_registry
    \<Rightarrow> ((dom_nodes \<times> nat list) \<times> shadow_registry) option" where
  "compose_host doc host st =
     (if sh_children (snd host) = [] then Some st
      else Option.bind (merge_shadow doc (fst host) (sh_children (snd host)) (fst st)) (\<lambda>(st', tops).
        if tops = [] then Some (st', snd st)
        else (let light = (case dict_get (fst st') (fst host) of Some n \<Rightarrow> nd_children n | None \<Rightarrow> []);
                  nodes = update_node (fst host) (\<lambda>n. n\<lparr>nd_children := tops\<rparr>) (fst st')
              in map_option (\<lambda>(nodes', sr'). ((nodes', snd st'), sr'))
                   (distribute_slots nodes tops light (sh_mode (snd host)) (snd st)))))"

fun compose_hosts ::
  "render_doc \<Rightarrow> (nat \<times> shadow_host) list \<Rightarrow> (dom_nodes \<times> nat list) \<times> shadow_registry
    \<Rightarrow> ((dom_nodes \<times> nat list) \<times> shadow_registry) option" where
  "compose_hosts doc [] st = Some st"
| "compose_hosts doc (h # hs) st = Option.bind (compose_host doc h st) (compose_hosts doc hs)"

definition compose_shadow_trees ::
  "render_doc \<Rightarrow> dom_nodes \<times> nat list \<Rightarrow> shadow_registry \<Rightarrow> ((dom_nodes \<times> nat list) \<times> shadow_registry) option" where
  "compose_shadow_trees doc st sr =
     compose_hosts doc (filter (\<lambda>h. dict_get (fst st) (fst h) \<noteq> None) (sr_roots sr))
       (st, sr\<lparr>sr_assignments := [], sr_assigned := []\<rparr>)"

section \<open>Text of elements\<close>

datatype text_task = Enter nat | Assemble nat "nat list"

definition child_text :: "dom_nodes \<Rightarrow> nat \<Rightarrow> string" where
  "child_text nodes c =
     (case dict_get nodes c of
        Some n \<Rightarrow> if nd_type n = 1 \<or> nd_type n = 3 then nd_text n else []
      | None \<Rightarrow> [])"

partial_function (option) fill_text :: "text_task list \<Rightarrow> dom_nodes \<Rightarrow> dom_nodes option" where
  "fill_text stack nodes =
     (case stack of
        [] \<Rightarrow> Some nodes
      | task # rest \<Rightarrow>
          (case task of
             Enter i \<Rightarrow>
               (case dict_get nodes i of
                  None \<Rightarrow> fill_text rest nodes
                | Some n \<Rightarrow>
                    if nd_type n = 3 then fill_text rest nodes
                    else if nd_type n = 1
                    then fill_text (map Enter (nd_children n) @ Assemble i (nd_children n) # rest) nodes
                    else fill_text (map Enter (nd_children n) @ rest) nodes)
           | Assemble i cs \<Rightarrow>
               fill_text rest
                 (update_node i (\<lambda>n. n\<lparr>nd_text := concat (map (child_text nodes) cs)\<rparr>) nodes)))"

definition fill_element_text :: "dom_nodes \<Rightarrow> nat \<Rightarrow> dom_nodes option" where
  "fill_element_text nodes root = fill_text [Enter root] nodes"

declare collect_from_render.simps [code] fill_text.simps [code]

section \<open>Password values\<close>

definition is_password_input :: "dom_node \<Rightarrow> bool" where
  "is_password_input n \<longleftrightarrow>
     is_element n \<and> eq_ignore_ascii_case (nd_tag n) ''input''
     \<and> (case node_attr n ''type'' of Some ty \<Rightarrow> eq_ignore_ascii_case (str_trim ty) ''password'' | None \<Rightarrow> False)"

definition mask_node :: "dom_node \<Rightarrow> dom_node" where
  "mask_node n =
     (if is_password_input n \<and> has_attr n ''value''
      then n\<lparr>nd_attributes := dict_insert ''value'' REDACTED (nd_attributes n)\<rparr> else n)"

definition mask_password_inputs :: "dom_nodes \<Rightarrow> dom_nodes" where
  "mask_password_inputs nodes = map (\<lambda>(i, n). (i, mask_node n)) nodes"

section \<open>Building a snapshot\<close>

definition build_from_render ::
  "render_doc \<Rightarrow> string \<Rightarrow> string \<Rightarrow> bool \<Rightarrow> shadow_registry \<Rightarrow> (dom_snapshot \<times> shadow_registry) option" where
  "build_from_render doc u title mask_passwords sr =
     (let root = (case rd_html_parent doc of Some p \<Rightarrow> p | None \<Rightarrow> rd_html doc)
      in Option.bind
           (collect_from_render doc [(root, None)] \<lparr>cl_nodes = [], cl_order = [], cl_body = None, cl_head = None\<rparr>) (\<lambda>cl.
         Option.bind (compose_shadow_trees doc (cl_nodes cl, cl_order cl) sr) (\<lambda>(st, sr').
         map_option
           (\<lambda>filled.
              let nodes = (if mask_passwords then mask_password_inputs filled else filled);
                  ix = build_indices nodes (snd st)
              in (\<lparr>sn_url = u, sn_title = title, sn_nodes = nodes, sn_root = as_u32 root, sn_body = cl_body cl,
                   sn_head = cl_head cl, sn_revision = 0, sn_index_revision = 0, sn_id_index = ix_id ix,
                   sn_class_index = ix_class ix, sn_tag_index = ix_tag ix\<rparr>, sr'))
           (fill_element_text (fst st) (as_u32 root)))))"

section \<open>Replacing the children of an element\<close>

text \<open>The first stack is the child list as it is, so its last child is on top.\<close>

partial_function (option) subtree_ids :: "dom_nodes \<Rightarrow> nat list \<Rightarrow> nat list option" where
  "subtree_ids nodes stack =
     (case stack of
        [] \<Rightarrow> Some []
      | i # rest \<Rightarrow>
          Option.bind
            (subtree_ids nodes ((case dict_get nodes i of Some n \<Rightarrow> nd_children n | None \<Rightarrow> []) @ rest))
            (\<lambda>is. Some (i # is)))"

definition collect_subtree_ids :: "dom_nodes \<Rightarrow> nat \<Rightarrow> nat list option" where
  "collect_subtree_ids nodes i =
     subtree_ids nodes (rev (case dict_get nodes i of Some n \<Rightarrow> nd_children n | None \<Rightarrow> []))"

definition remove_subtree :: "nat \<Rightarrow> dom_nodes \<Rightarrow> dom_nodes option" where
  "remove_subtree i nodes =
     (case dict_get nodes i of
        None \<Rightarrow> Some nodes
      | Some n \<Rightarrow>
          map_option
            (\<lambda>below.
               fold dict_remove (i # below)
                 (case nd_parent n of
                    Some p \<Rightarrow> update_node p (\<lambda>m. m\<lparr>nd_children := filter (\<lambda>c. c \<noteq> i) (nd_children m)\<rparr>) nodes
                  | None \<Rightarrow> nodes))
            (collect_subtree_ids nodes i))"

fun remove_subtrees :: "nat list \<Rightarrow> dom_nodes \<Rightarrow> dom_nodes option" where
  "remove_subtrees [] nodes = Some nodes"
| "remove_subtrees (i # is) nodes = Option.bind (remove_subtree i nodes) (remove_subtrees is)"

text \<open>Ids are 32-bit; adding one wraps, as in a release build.\<close>

definition next_u32 :: "nat \<Rightarrow> nat" where
  "next_u32 n = as_u32 (n + 1)"

partial_function (option) copy_node_ids ::
  "dom_nodes \<Rightarrow> nat list \<Rightarrow> nat \<Rightarrow> (nat, nat) dict \<Rightarrow> (nat, nat) dict option" where
  "copy_node_ids source stack next_id id_map =
     (case stack of
        [] \<Rightarrow> Some id_map
      | i # rest \<Rightarrow>
          if dict_get id_map i \<noteq> None then copy_node_ids source rest next_id id_map
          else copy_node_ids source
                 ((case dict_get source i of Some n \<Rightarrow> nd_children n | None \<Rightarrow> []) @ rest)
                 (next_u32 next_id) (dict_insert i next_id id_map))"

declare subtree_ids.simps [code] copy_node_ids.simps [code]

definition graft_node :: "dom_nodes \<Rightarrow> nat \<Rightarrow> (nat, nat) dict \<Rightarrow> nat \<times> nat \<Rightarrow> dom_nodes \<Rightarrow> dom_nodes" where
  "graft_node source parent id_map pair nodes =
     (case dict_get source (fst pair) of
        None \<Rightarrow> nodes
      | Some n \<Rightarrow>
          dict_insert (snd pair)
            (n\<lparr>nd_id := snd pair,
               nd_children := List.map_filter (dict_get id_map) (nd_children n),
               nd_parent := Some parent\<rparr>) nodes)"

definition graft_subtree_from_snapshot ::
  "dom_nodes \<Rightarrow> nat \<Rightarrow> nat \<Rightarrow> nat \<Rightarrow> dom_nodes \<Rightarrow> dom_nodes option" where
  "graft_subtree_from_snapshot source src_root parent id_offset nodes =
     map_option
       (\<lambda>id_map.
          (let grafted = fold (graft_node source parent id_map) id_map nodes
           in case dict_get id_map src_root of
                Some new \<Rightarrow> update_node parent (\<lambda>n. n\<lparr>nd_children := nd_children n @ [new]\<rparr>) grafted
              | None \<Rightarrow> grafted))
       (copy_node_ids source [src_root] id_offset [])"

definition set_inner_html :: "(string \<Rightarrow> dom_snapshot) \<Rightarrow> nat \<Rightarrow> string \<Rightarrow> dom_snapshot \<Rightarrow> dom_snapshot option" where
  "set_inner_html parse i html sn =
     (let frag = parse html;
          frag_root = (case sn_body frag of Some b \<Rightarrow> b | None \<Rightarrow> sn_root frag)
      in case node_of sn i of
           None \<Rightarrow> Some sn
         | Some n \<Rightarrow>
             Option.bind (remove_subtrees (nd_children n) (sn_nodes sn)) (\<lambda>nodes.
               let next_id = (if nodes = [] then 0 else next_u32 (Max (set (map fst nodes))))
               in map_option (\<lambda>nodes'. bump_revision (sn\<lparr>sn_nodes := nodes'\<rparr>))
                    (graft_subtree_from_snapshot (sn_nodes frag) frag_root i next_id nodes)))"

section \<open>Lemmas: text\<close>

fun subtrees :: "dom_tree \<Rightarrow> dom_tree list" where
  "subtrees (DTree i ts) = DTree i ts # concat (map subtrees ts)"

text \<open>The text of a subtree: what its text leaves say, in document order, through elements only.\<close>

fun tree_text :: "dom_nodes \<Rightarrow> dom_tree \<Rightarrow> string" where
  "tree_text nodes (DTree i ts) =
     (case dict_get nodes i of
        None \<Rightarrow> []
      | Some n \<Rightarrow>
          if nd_type n = 3 then nd_text n
          else if nd_type n = 1 then concat (map (tree_text nodes) ts) else [])"

definition text_leaves :: "dom_nodes \<Rightarrow> dom_tree \<Rightarrow> bool" where
  "text_leaves nodes t \<longleftrightarrow>
     (\<forall>u \<in> set (subtrees t). \<forall>n. dict_get nodes (tree_root u) = Some n \<longrightarrow> nd_type n = 3 \<longrightarrow> tree_kids u = [])"

definition fill_node :: "dom_nodes \<Rightarrow> dom_tree \<Rightarrow> dom_node \<Rightarrow> dom_node" where
  "fill_node nodes u n = (if nd_type n = 1 then n\<lparr>nd_text := tree_text nodes u\<rparr> else n)"

lemma subtrees_ids: "u \<in> set (subtrees t) \<Longrightarrow> set (tree_ids u) \<subseteq> set (tree_ids t)"
  by (induction t) auto

lemma subtree_root: "u \<in> set (subtrees t) \<Longrightarrow> tree_root u \<in> set (tree_ids t)"
  using subtrees_ids tree_root_in by blast

lemma subtree_self: "t \<in> set (subtrees t)"
  by (cases t) simp

lemma update_node_get: "dict_get (update_node i f nodes) j = (if j = i then map_option f (dict_get nodes i) else dict_get nodes j)"
  by (simp add: update_node_def dict_get_insert split: option.splits)

text \<open>
  \<open>base\<close> is the table before the loop, \<open>cur\<close> the table when the loop reaches the subtree: they
  agree on the subtree, and afterwards exactly its elements carry their text.
\<close>

definition filled :: "dom_nodes \<Rightarrow> dom_tree list \<Rightarrow> dom_nodes \<Rightarrow> dom_nodes \<Rightarrow> bool" where
  "filled base ts cur cur' \<longleftrightarrow>
     (\<forall>t \<in> set ts. \<forall>u \<in> set (subtrees t). dict_get cur' (tree_root u) = map_option (fill_node base u) (dict_get base (tree_root u)))
     \<and> (\<forall>i. i \<notin> set (concat (map tree_ids ts)) \<longrightarrow> dict_get cur' i = dict_get cur i)"

lemma fill_forest:
  assumes "\<And>t cur. t \<in> set ts \<Longrightarrow> (\<And>i. i \<in> set (tree_ids t) \<Longrightarrow> dict_get cur i = dict_get base i) \<Longrightarrow>
      \<exists>cur'. filled base [t] cur cur' \<and> (\<forall>stack. fill_text (Enter (tree_root t) # stack) cur = fill_text stack cur')"
    and "\<And>i. i \<in> set (concat (map tree_ids ts)) \<Longrightarrow> dict_get cur i = dict_get base i"
    and "distinct (concat (map tree_ids ts))"
  shows "\<exists>cur'. filled base ts cur cur'
    \<and> (\<forall>stack. fill_text (map (\<lambda>t. Enter (tree_root t)) ts @ stack) cur = fill_text stack cur')"
  using assms
proof (induction ts arbitrary: cur)
  case Nil
  then show ?case by (auto simp: filled_def)
next
  case (Cons t ts)
  obtain mid where mid: "filled base [t] cur mid"
      "\<And>stack. fill_text (Enter (tree_root t) # stack) cur = fill_text stack mid"
    using Cons.prems(1) [of t cur] Cons.prems(2) by auto
  have out: "i \<notin> set (tree_ids t)" if "i \<in> set (concat (map tree_ids ts))" for i
    using Cons.prems(3) that by auto
  have "dict_get mid i = dict_get base i" if "i \<in> set (concat (map tree_ids ts))" for i
    using mid(1) out [OF that] Cons.prems(2) that by (auto simp: filled_def)
  then obtain cur' where cur': "filled base ts mid cur'"
      "\<And>stack. fill_text (map (\<lambda>t. Enter (tree_root t)) ts @ stack) mid = fill_text stack cur'"
    using Cons.IH [of mid] Cons.prems(1,3) by auto
  have "dict_get cur' (tree_root u) = dict_get mid (tree_root u)" if "u \<in> set (subtrees t)" for u
  proof -
    have "tree_root u \<notin> set (concat (map tree_ids ts))" using subtree_root [OF that] out by blast
    with cur'(1) show ?thesis unfolding filled_def by blast
  qed
  then have "filled base (t # ts) cur cur'"
    using mid(1) cur'(1) by (auto simp: filled_def)
  with mid(2) cur'(2) show ?case by auto
qed

lemma child_text_filled:
  assumes "holds base par t" and "filled base ts cur cur'" and "t \<in> set ts"
  shows "child_text cur' (tree_root t) = tree_text base t"
proof -
  obtain n where "dict_get base (tree_root t) = Some n" using assms(1) holds_iff by blast
  moreover have "dict_get cur' (tree_root t) = map_option (fill_node base t) (dict_get base (tree_root t))"
    using assms(2,3) subtree_self by (auto simp: filled_def)
  ultimately show ?thesis by (cases t) (auto simp: child_text_def fill_node_def)
qed

lemma fill_tree:
  assumes "holds base par t" and "distinct (tree_ids t)" and "text_leaves base t"
    and "\<And>i. i \<in> set (tree_ids t) \<Longrightarrow> dict_get cur i = dict_get base i"
  shows "\<exists>cur'. filled base [t] cur cur' \<and> (\<forall>stack. fill_text (Enter (tree_root t) # stack) cur = fill_text stack cur')"
  using assms
proof (induction t arbitrary: par cur)
  case (DTree i ts)
  then obtain n where n: "dict_get base i = Some n" "nd_children n = map tree_root ts"
    and ts: "\<And>t. t \<in> set ts \<Longrightarrow> holds base (Some i) t"
    by (auto simp: list_all_iff split: option.splits)
  have ci: "dict_get cur i = Some n" using DTree.prems(4) n(1) by simp
  have d: "distinct (concat (map tree_ids ts))" "i \<notin> set (concat (map tree_ids ts))" using DTree.prems(2) by simp_all
  have leaves: "text_leaves base t" if "t \<in> set ts" for t
    using DTree.prems(3) that by (auto simp: text_leaves_def)
  have dt: "distinct (tree_ids t)" if "t \<in> set ts" for t using d(1) that by (simp add: distinct_concat_iff)
  obtain cur' where cur': "filled base ts cur cur'"
      "\<And>stack. fill_text (map (\<lambda>t. Enter (tree_root t)) ts @ stack) cur = fill_text stack cur'"
    using fill_forest [of ts base cur] DTree.IH [OF _ ts dt leaves] DTree.prems(4) d(1) by auto
  have ci': "dict_get cur' i = Some n" using cur'(1) d(2) ci by (simp add: filled_def)
  have kids: "concat (map (child_text cur') (nd_children n)) = concat (map (tree_text base) ts)"
    using child_text_filled [OF ts cur'(1)] n(2) by (simp add: comp_def cong: map_cong)
  have root: "u \<in> set (subtrees t) \<Longrightarrow> t \<in> set ts \<Longrightarrow> tree_root u \<noteq> i" for t u
    using subtree_root [of u t] d(2) by auto
  consider (leaf) "nd_type n = 3" | (element) "nd_type n = 1" | (other) "nd_type n \<noteq> 3" "nd_type n \<noteq> 1" by blast
  then show ?case
  proof cases
    case leaf
    then have "ts = []" using DTree.prems(3) n(1) by (auto simp: text_leaves_def)
    with leaf ci n(1) show ?thesis
      by (intro exI [of _ cur]) (simp add: filled_def fill_text.simps [of "Enter i # _"] fill_node_def)
  next
    case element
    let ?done = "update_node i (\<lambda>n. n\<lparr>nd_text := concat (map (tree_text base) ts)\<rparr>) cur'"
    have "filled base [DTree i ts] cur ?done"
      using cur'(1) element n(1) ci' root by (auto simp: filled_def update_node_get fill_node_def)
    moreover have "fill_text (Enter i # stack) cur = fill_text stack ?done" for stack
      using cur'(2) [of "Assemble i (nd_children n) # stack"] ci element n(2) kids
      by (simp add: fill_text.simps [of "Enter i # _"] fill_text.simps [of "Assemble i _ # _"] comp_def)
    ultimately show ?thesis by auto
  next
    case other
    have "filled base [DTree i ts] cur cur'"
      using cur'(1) other n(1) ci' by (auto simp: filled_def fill_node_def)
    moreover have "fill_text (Enter i # stack) cur = fill_text stack cur'" for stack
      using cur'(2) [of stack] ci other n(2) by (simp add: fill_text.simps [of "Enter i # _"] comp_def)
    ultimately show ?thesis by auto
  qed
qed

section \<open>Lemmas: slots\<close>

lemma named_kids_get:
  "dict_get (named_kids nodes light) name
     = (let cs = filter (\<lambda>c. slot_attr nodes c = Some name) light in if cs = [] then None else Some cs)"
proof -
  have "dict_get (fold (\<lambda>c named. case slot_attr nodes c of Some n \<Rightarrow> push_entry n c named | None \<Rightarrow> named) light named0) name
      = (let cs = filter (\<lambda>c. slot_attr nodes c = Some name) light
         in if cs = [] then dict_get named0 name
            else Some ((case dict_get named0 name of Some is \<Rightarrow> is | None \<Rightarrow> []) @ cs))" for named0
    by (induction light arbitrary: named0) (auto simp: push_entry_get Let_def split: option.splits)
  from this [of "[]"] show ?thesis by (simp add: named_kids_def Let_def)
qed

definition slot_name :: "dom_nodes \<Rightarrow> nat \<Rightarrow> string" where
  "slot_name nodes s = fst (slot_parts nodes s)"

definition slot_wants :: "dom_nodes \<Rightarrow> nat \<Rightarrow> nat \<Rightarrow> bool" where
  "slot_wants nodes s c \<longleftrightarrow> slot_attr nodes c = (if slot_name nodes s = [] then None else Some (slot_name nodes s))"

text \<open>What is still to be handed out: to each name not served yet all its children, to the others none.\<close>

lemma slot_plans_assign:
  assumes "slot_plans nodes m slots named rest sr = (plans, sr')"
    and "\<And>name. name \<noteq> [] \<Longrightarrow> dict_get named name = None
      \<or> dict_get named name = Some (filter (\<lambda>c. slot_attr nodes c = Some name) light)"
    and "rest = [] \<or> rest = filter (\<lambda>c. slot_attr nodes c = None) light"
    and "\<And>s cs. dict_get (sr_assignments sr) s = Some cs \<Longrightarrow> cs = filter (slot_wants nodes s) light"
  shows "dict_get (sr_assignments sr') s = Some cs \<Longrightarrow> cs = filter (slot_wants nodes s) light"
  using assms
proof (induction slots arbitrary: named rest sr plans sr')
  case (Cons s' ss)
  obtain name fallback where parts: "slot_parts nodes s' = (name, fallback)" by force
  define assigned where "assigned = (if name = [] then rest else (case dict_get named name of Some cs \<Rightarrow> cs | None \<Rightarrow> []))"
  define sr1 where "sr1 = record_assignment m s' assigned sr"
  obtain plans1 sr2 where later: "slot_plans nodes m ss (if name = [] then named else dict_remove name named)
      (if name = [] then [] else rest) sr1 = (plans1, sr2)" by force
  have same: "sr' = sr2"
    using Cons.prems(2) parts later by (auto simp: Let_def assigned_def sr1_def split: option.splits prod.splits)
  have nm: "slot_name nodes s' = name" by (simp add: slot_name_def parts)
  have served: "assigned = [] \<or> assigned = filter (slot_wants nodes s') light"
    using Cons.prems(3) [of name] Cons.prems(4) by (auto simp: assigned_def slot_wants_def nm cong: filter_cong)
  have kept: "cs = filter (slot_wants nodes s) light" if "dict_get (sr_assignments sr1) s = Some cs" for s cs
    using that Cons.prems(5) [of s cs] served
    by (auto simp: sr1_def record_assignment_def Let_def dict_get_insert split: if_splits)
  show ?case
  proof (rule Cons.IH [OF _ later])
    show "dict_get (sr_assignments sr2) s = Some cs" using Cons.prems(1) same by simp
    show "dict_get (if name = [] then named else dict_remove name named) x = None
        \<or> dict_get (if name = [] then named else dict_remove name named) x
          = Some (filter (\<lambda>c. slot_attr nodes c = Some x) light)" if "x \<noteq> []" for x
      using Cons.prems(3) [OF that] by (auto simp: dict_get_remove)
    show "(if name = [] then [] else rest) = [] \<or> (if name = [] then [] else rest) = filter (\<lambda>c. slot_attr nodes c = None) light"
      using Cons.prems(4) by simp
  qed (rule kept)
qed simp

section \<open>Lemmas: fresh ids\<close>

lemma copy_node_ids_extends:
  assumes "copy_node_ids source stack next_id id_map = Some result" and "dict_ok id_map"
  shows "\<exists>ext. result = id_map @ ext \<and> dict_ok result
       \<and> (next_id + length ext \<le> 4294967295 \<longrightarrow> map snd ext = [next_id ..< next_id + length ext])"
  using assms
proof (induction source stack next_id id_map result rule: copy_node_ids.raw_induct)
  case (1 f source stack next_id id_map result)
  show ?case
  proof (cases stack)
    case Nil
    with 1 show ?thesis by simp
  next
    case (Cons i rest)
    show ?thesis
    proof (cases "dict_get id_map i")
      case (Some x)
      then have "f source rest next_id id_map = Some result" using 1(2) Cons by simp
      moreover have "copy_node_ids source rest next_id id_map = Some result"
        using 1(3) Cons Some by (simp add: copy_node_ids.simps [of _ "i # rest"])
      ultimately show ?thesis using 1(1) 1(4) by blast
    next
      case None
      then have new: "dict_insert i next_id id_map = id_map @ [(i, next_id)]" "dict_ok (id_map @ [(i, next_id)])"
        using 1(4) by (auto simp: map_of_eq_None_iff intro!: dict_insert_new)
      have "f source ((case dict_get source i of Some n \<Rightarrow> nd_children n | None \<Rightarrow> []) @ rest)
          (next_u32 next_id) (id_map @ [(i, next_id)]) = Some result"
        using 1(2) Cons None new(1) by simp
      moreover have "copy_node_ids source ((case dict_get source i of Some n \<Rightarrow> nd_children n | None \<Rightarrow> []) @ rest)
          (next_u32 next_id) (id_map @ [(i, next_id)]) = Some result"
        using 1(3) Cons None new(1) by (simp add: copy_node_ids.simps [of _ "i # rest"])
      ultimately obtain ext where ext: "result = (id_map @ [(i, next_id)]) @ ext" "dict_ok result"
        "next_u32 next_id + length ext \<le> 4294967295 \<longrightarrow> map snd ext = [next_u32 next_id ..< next_u32 next_id + length ext]"
        using 1(1) new(2) by blast
      have "map snd ((i, next_id) # ext) = [next_id ..< next_id + length ((i, next_id) # ext)]"
        if "next_id + length ((i, next_id) # ext) \<le> 4294967295"
        using that ext(3) by (simp add: next_u32_def as_u32_id upt_conv_Cons del: upt_Suc)
      with ext(1,2) show ?thesis by (intro exI [of _ "(i, next_id) # ext"]) simp
    qed
  qed
qed (rule assms)

lemma copy_node_ids_fresh:
  assumes "copy_node_ids source stack next_id [] = Some id_map" and "next_id + length id_map \<le> 4294967295"
  shows "distinct (map fst id_map)" and "map snd id_map = [next_id ..< next_id + length id_map]"
  using copy_node_ids_extends [OF assms(1)] assms(2) by auto

lemma graft_node_get:
  "j \<noteq> snd pair \<Longrightarrow> dict_get (graft_node source parent id_map pair nodes) j = dict_get nodes j"
  by (simp add: graft_node_def dict_get_insert split: option.splits)

lemma graft_fold_get:
  "j \<notin> snd ` set pairs \<Longrightarrow> dict_get (fold (graft_node source parent id_map) pairs nodes) j = dict_get nodes j"
  by (induction pairs arbitrary: nodes) (auto simp: graft_node_get)

lemma graft_fold_new:
  assumes "distinct (map snd pairs)" and "(old, new) \<in> set pairs" and "dict_get source old = Some n"
  shows "dict_get (fold (graft_node source parent id_map) pairs nodes) new
    = Some (n\<lparr>nd_id := new, nd_children := List.map_filter (dict_get id_map) (nd_children n), nd_parent := Some parent\<rparr>)"
  using assms
proof (induction pairs arbitrary: nodes)
  case (Cons p pairs)
  show ?case
  proof (cases "p = (old, new)")
    case True
    with Cons.prems have "new \<notin> snd ` set pairs" by auto
    then have "dict_get (fold (graft_node source parent id_map) pairs (graft_node source parent id_map p nodes)) new
        = dict_get (graft_node source parent id_map p nodes) new" by (rule graft_fold_get)
    also have "\<dots> = Some (n\<lparr>nd_id := new, nd_children := List.map_filter (dict_get id_map) (nd_children n), nd_parent := Some parent\<rparr>)"
      using True Cons.prems(3) by (simp add: graft_node_def dict_get_insert)
    finally show ?thesis by simp
  next
    case False
    with Cons show ?thesis by simp
  qed
qed simp

lemma key_max: "dict_get nodes j = Some n \<Longrightarrow> j \<le> Max (set (map fst nodes))"
  by (intro Max_ge) (auto dest: map_of_SomeD intro: rev_image_eqI)

lemma graft_Some:
  "graft_subtree_from_snapshot source src_root parent off nodes = Some nodes' \<Longrightarrow>
     \<exists>id_map. copy_node_ids source [src_root] off [] = Some id_map
       \<and> (\<forall>j. j \<noteq> parent \<longrightarrow> j \<notin> snd ` set id_map \<longrightarrow> dict_get nodes' j = dict_get nodes j)"
  by (auto simp: graft_subtree_from_snapshot_def Let_def update_node_get graft_fold_get split: option.splits)

section \<open>Lemmas: removal\<close>

lemma fold_remove_get: "dict_get (fold dict_remove is nodes) j = (if j \<in> set is then None else dict_get nodes j)"
  by (induction "is" arbitrary: nodes) (auto simp: dict_get_remove)

lemma subtree_ids_tree:
  "holds nodes par t \<Longrightarrow> \<exists>r. set r = set (tree_ids t)
     \<and> (\<forall>stack. subtree_ids nodes (tree_root t # stack) = Option.bind (subtree_ids nodes stack) (\<lambda>is. Some (r @ is)))"
proof (induction t arbitrary: par)
  case (DTree i ts)
  then obtain n where n: "dict_get nodes i = Some n" "nd_children n = map tree_root ts"
    and ts: "\<And>t. t \<in> set ts \<Longrightarrow> holds nodes (Some i) t"
    by (auto simp: list_all_iff split: option.splits)
  have "\<exists>r. set r = set (concat (map tree_ids ts))
      \<and> (\<forall>stack. subtree_ids nodes (map tree_root ts @ stack) = Option.bind (subtree_ids nodes stack) (\<lambda>is. Some (r @ is)))"
    using DTree.IH ts
  proof (induction ts)
    case Nil
    then show ?case by (intro exI [of _ "[]"]) simp
  next
    case (Cons t ts)
    from Cons.prems(1) [of t "Some i"] Cons.prems(2) [of t] obtain r where r: "set r = set (tree_ids t)"
      "\<And>stack. subtree_ids nodes (tree_root t # stack) = Option.bind (subtree_ids nodes stack) (\<lambda>is. Some (r @ is))"
      by (metis list.set_intros(1))
    from Cons obtain q where q: "set q = set (concat (map tree_ids ts))"
      "\<And>stack. subtree_ids nodes (map tree_root ts @ stack) = Option.bind (subtree_ids nodes stack) (\<lambda>is. Some (q @ is))"
      by auto
    have "set (r @ q) = set (concat (map tree_ids (t # ts)))" using r(1) q(1) by simp
    then show ?case
      by (intro exI [of _ "r @ q"]) (simp add: r(2) q(2) bind_assoc)
  qed
  then obtain r where r: "set r = set (concat (map tree_ids ts))"
    "\<And>stack. subtree_ids nodes (map tree_root ts @ stack) = Option.bind (subtree_ids nodes stack) (\<lambda>is. Some (r @ is))"
    by blast
  show ?case
    using n r by (intro exI [of _ "i # r"]) (simp add: subtree_ids.simps [of _ "i # _"] bind_assoc)
qed

lemma subtree_ids_forest:
  assumes "\<And>t. t \<in> set ts \<Longrightarrow> \<exists>par. holds nodes par t"
  shows "\<exists>r. subtree_ids nodes (map tree_root ts) = Some r \<and> set r = set (concat (map tree_ids ts))"
  using assms
proof (induction ts)
  case Nil
  then show ?case by (simp add: subtree_ids.simps)
next
  case (Cons t ts)
  from Cons.prems [of t] obtain par where "holds nodes par t" by auto
  from subtree_ids_tree [OF this] Cons show ?case by fastforce
qed

section \<open>Properties\<close>

text \<open>
  After the text pass every element of the tree carries exactly the text of its descendant text
  nodes, in document order, and nothing else of the table has changed; the pass ends.
\<close>
theorem element_text_exact:
  assumes "holds nodes par t" and "distinct (tree_ids t)" and "text_leaves nodes t"
  shows "\<exists>nodes'. fill_element_text nodes (tree_root t) = Some nodes'
    \<and> (\<forall>u \<in> set (subtrees t). dict_get nodes' (tree_root u) = map_option (fill_node nodes u) (dict_get nodes (tree_root u)))
    \<and> (\<forall>i \<in> - set (tree_ids t). dict_get nodes' i = dict_get nodes i)"
proof -
  obtain nodes' where "filled nodes [t] nodes nodes'" "fill_text [Enter (tree_root t)] nodes = fill_text [] nodes'"
    using fill_tree [OF assms] by blast
  then show ?thesis by (auto simp: fill_element_text_def filled_def fill_text.simps [of "[]"])
qed

text \<open>
  A password field, by the letters: an element named \<open>input\<close>, in capital or small letters, whose
  \<open>type\<close> spells \<open>password\<close>, in capital or small letters, between white space. A small letter of ASCII is
  32 above its capital.
\<close>

definition spells :: "string \<Rightarrow> string \<Rightarrow> bool" where
  "spells w s \<longleftrightarrow> list_all2 (\<lambda>d c. c = d \<or> byte c + 32 = byte d) w s"

definition password_type :: "string \<Rightarrow> bool" where
  "password_type v \<longleftrightarrow>
     (\<exists>a m b. utf8_chars v = a @ m @ b \<and> list_all is_whitespace (a @ b) \<and> spells ''password'' (concat m))"

definition password_field :: "dom_node \<Rightarrow> bool" where
  "password_field n \<longleftrightarrow>
     nd_type n = 1 \<and> spells ''input'' (nd_tag n)
     \<and> (\<exists>v. dict_get (nd_attributes n) ''type'' = Some v \<and> password_type v)"

lemma spells_lower:
  assumes "list_all is_ascii_lowercase w"
  shows "spells w s \<longleftrightarrow> to_ascii_lowercase s = w"
proof -
  have "(c = d \<or> byte c + 32 = byte d) \<longleftrightarrow> ascii_lower c = d" if "is_ascii_lowercase d" for c d
  proof -
    have "c = d \<longleftrightarrow> byte c = byte d" by simp
    moreover have "ascii_lower c = d \<longleftrightarrow> byte (ascii_lower c) = byte d" by simp
    ultimately show ?thesis
      using that by (auto simp: byte_ascii_lower is_ascii_lowercase_def is_ascii_uppercase_def split: if_split_asm)
  qed
  then show ?thesis
    using assms unfolding spells_def to_ascii_lowercase_def
    by (induction w arbitrary: s) (auto simp: list_all2_Cons1 map_eq_Cons_conv)
qed

lemma whitespace_ends: "is_whitespace u \<Longrightarrow> u \<noteq> [] \<and> \<not> is_ascii_alnum (hd u) \<and> \<not> is_ascii_alnum (last u)"
  by (auto simp: is_whitespace_def is_ascii_alnum_def is_ascii_digit_def is_ascii_lowercase_def is_ascii_uppercase_def
      map_eq_Cons_conv split: list.split_asm)

lemma trim_units:
  assumes "utf8_chars v = a @ m @ b" and "list_all is_whitespace (a @ b)"
    and "m \<noteq> []" and "\<not> is_whitespace (hd m)" and "\<not> is_whitespace (last m)"
  shows "str_trim v = concat m"
proof -
  have "dropWhile is_whitespace (a @ m @ b) = m @ b"
    using assms(2-4) by (cases m) (simp_all add: dropWhile_append2 list_all_iff)
  moreover have "dropWhile is_whitespace (rev b @ us) = dropWhile is_whitespace us" for us
    by (rule dropWhile_append2) (use assms(2) in \<open>auto simp: list_all_iff\<close>)
  then have "dropWhile_end is_whitespace (m @ b) = m"
    using assms(3,5) by (cases m rule: rev_cases) (simp_all add: dropWhile_end_def)
  ultimately show ?thesis using assms(1) by (simp add: str_trim_def)
qed

lemma dropWhile_end_split: "\<exists>b. xs = dropWhile_end P xs @ b \<and> list_all P b"
  unfolding dropWhile_end_def
  by (rule exI [of _ "rev (takeWhile P (rev xs))"])
    (metis list_all_iff rev_append rev_rev_ident set_rev set_takeWhileD takeWhile_dropWhile_id)

lemma password_type_trim: "password_type v \<longleftrightarrow> spells ''password'' (str_trim v)"
proof
  assume "password_type v"
  then obtain a m b where v: "utf8_chars v = a @ m @ b" "list_all is_whitespace (a @ b)" "spells ''password'' (concat m)"
    by (auto simp: password_type_def)
  have units: "u \<noteq> []" if "u \<in> set m" for u using v(1) that utf8_chars_nonempty [of u v] by auto
  have low: "to_ascii_lowercase (concat m) = ''password''"
    using v(3) spells_lower [of "''password''"] by (simp add: is_ascii_lowercase_def)
  have "list_all is_ascii_alnum ''password''" by code_simp
  then have letters: "\<forall>c \<in> set (concat m). is_ascii_alnum (ascii_lower c)"
    unfolding low [symmetric] to_ascii_lowercase_def list_all_iff by simp
  have alnum: "is_ascii_alnum (ascii_lower c) \<Longrightarrow> is_ascii_alnum c" for c
    by (auto simp: is_ascii_alnum_def is_ascii_digit_def is_ascii_lowercase_def is_ascii_uppercase_def byte_ascii_lower
        split: if_split_asm)
  have "m \<noteq> []" using low by (auto simp: to_ascii_lowercase_def)
  moreover have "\<not> is_whitespace u" if "u \<in> set m" for u
  proof
    assume "is_whitespace u"
    then have "u \<noteq> []" "\<not> is_ascii_alnum (hd u)" using whitespace_ends by auto
    with letters alnum that show False by (metis hd_in_set set_concat UN_I)
  qed
  ultimately have "str_trim v = concat m" using trim_units [OF v(1,2)] by simp
  with v(3) show "spells ''password'' (str_trim v)" by simp
next
  assume "spells ''password'' (str_trim v)"
  moreover obtain b where "dropWhile is_whitespace (utf8_chars v)
      = dropWhile_end is_whitespace (dropWhile is_whitespace (utf8_chars v)) @ b" "list_all is_whitespace b"
    using dropWhile_end_split by blast
  moreover have "utf8_chars v = takeWhile is_whitespace (utf8_chars v) @ dropWhile is_whitespace (utf8_chars v)" by simp
  moreover have "list_all is_whitespace (takeWhile is_whitespace (utf8_chars v))"
    by (auto simp: list_all_iff dest: set_takeWhileD)
  ultimately show "password_type v" unfolding password_type_def str_trim_def by (metis list_all_append)
qed

lemma password_field_iff: "password_field n \<longleftrightarrow> is_password_input n"
  using spells_lower [of "''input''"] spells_lower [of "''password''"]
  by (auto simp: password_field_def is_password_input_def is_element_def node_attr_def eq_ignore_ascii_case_def
      password_type_trim is_ascii_lowercase_def to_ascii_lowercase_def ascii_lower_def is_ascii_uppercase_def
      split: option.splits)

lemma mask_get: "dict_get (mask_password_inputs nodes) i = map_option mask_node (dict_get nodes i)"
  by (induction nodes) (auto simp: mask_password_inputs_def)


text \<open>
  A slot that is assigned anything is assigned exactly the light children that name it, in
  document order; an unnamed slot those without a slot attribute.
\<close>
theorem slot_assignment_exact:
  assumes "distribute_slots nodes tops light m sr = Some (nodes', sr')" and "sr_assignments sr = []"
    and "dict_get (sr_assignments sr') s = Some cs"
  shows "cs = filter (slot_wants nodes s) light"
proof -
  from assms(1) obtain slots where
    "slots = [] \<and> sr' = sr \<or> (\<exists>plans. slot_plans nodes m slots (named_kids nodes light) (default_kids nodes light) sr = (plans, sr'))"
    by (auto simp: distribute_slots_def Let_def split: if_splits prod.splits)
  then show ?thesis
  proof
    assume "slots = [] \<and> sr' = sr"
    with assms(2,3) show ?thesis by simp
  next
    assume "\<exists>plans. slot_plans nodes m slots (named_kids nodes light) (default_kids nodes light) sr = (plans, sr')"
    then obtain plans where "slot_plans nodes m slots (named_kids nodes light) (default_kids nodes light) sr = (plans, sr')" ..
    from slot_plans_assign [OF this _ _ _ assms(3)] assms(2) show ?thesis
      by (simp add: named_kids_get default_kids_def Let_def)
  qed
qed

text \<open>
  Removing a subtree removes exactly its nodes, takes it off its parent's children and leaves
  every other node as it was; the walk that finds the nodes ends.
\<close>
theorem remove_subtree_exact:
  assumes "holds nodes par t"
  shows "\<exists>nodes'. remove_subtree (tree_root t) nodes = Some nodes'
    \<and> (\<forall>j. dict_get nodes' j =
          (if j \<in> set (tree_ids t) then None
           else map_option (\<lambda>m. if par = Some j then m\<lparr>nd_children := filter (\<lambda>c. c \<noteq> tree_root t) (nd_children m)\<rparr> else m)
                  (dict_get nodes j)))"
proof -
  from holds_iff [THEN iffD1, OF assms] obtain n where n: "dict_get nodes (tree_root t) = Some n" "nd_parent n = par"
    "nd_children n = map tree_root (tree_kids t)" "\<And>u. u \<in> set (tree_kids t) \<Longrightarrow> holds nodes (Some (tree_root t)) u"
    by blast
  have "\<exists>r. subtree_ids nodes (map tree_root (rev (tree_kids t))) = Some r \<and> set r = set (concat (map tree_ids (rev (tree_kids t))))"
    using n(4) by (intro subtree_ids_forest) auto
  then obtain below where below: "collect_subtree_ids nodes (tree_root t) = Some below"
      "set below = set (concat (map tree_ids (tree_kids t)))"
    using n(1,3) by (auto simp: collect_subtree_ids_def rev_map)
  have ids: "set (tree_root t # below) = set (tree_ids t)" using below(2) tree_ids_unfold [of t] by simp
  define base where "base = (case par of
      Some p \<Rightarrow> update_node p (\<lambda>m. m\<lparr>nd_children := filter (\<lambda>c. c \<noteq> tree_root t) (nd_children m)\<rparr>) nodes
    | None \<Rightarrow> nodes)"
  have base: "dict_get base j =
      map_option (\<lambda>m. if par = Some j then m\<lparr>nd_children := filter (\<lambda>c. c \<noteq> tree_root t) (nd_children m)\<rparr> else m)
        (dict_get nodes j)" for j
    by (cases par; cases "dict_get nodes j") (auto simp: base_def update_node_get)
  have "remove_subtree (tree_root t) nodes = Some (fold dict_remove (tree_root t # below) base)"
    by (simp add: remove_subtree_def n(1,2) below(1) base_def del: fold.simps)
  then show ?thesis
    by (intro exI [of _ "fold dict_remove (tree_root t # below) base"]) (simp only: fold_remove_get ids base simp_thms)
qed

text \<open>
  Replacing the children of an element keeps every node that was not below it: the grafted nodes
  take fresh ids, one counter for the whole fragment, as long as the 32-bit ids last.
\<close>
theorem inner_html_keeps_rest:
  assumes "set_inner_html parse i html sn = Some sn'" and "node_of sn i = Some n"
    and "remove_subtrees (nd_children n) (sn_nodes sn) = Some kept"
    and "dict_get kept j = Some m" and "j \<noteq> i"
    and "copy_node_ids (sn_nodes (parse html)) [case sn_body (parse html) of Some b \<Rightarrow> b | None \<Rightarrow> sn_root (parse html)]
           (Max (set (map fst kept)) + 1) [] = Some id_map"
    and "Max (set (map fst kept)) + 1 + length id_map \<le> 4294967295"
  shows "node_of sn' j = Some m \<and> distinct (map fst id_map) \<and> j \<notin> snd ` set id_map"
proof -
  have next_id: "next_u32 (Max (set (map fst kept))) = Max (set (map fst kept)) + 1"
    using assms(7) by (simp add: next_u32_def as_u32_id)
  have ne: "kept \<noteq> []" using assms(4) by auto
  note fresh = copy_node_ids_fresh [OF assms(6,7)]
  have "j \<notin> set (map snd id_map)" using key_max [OF assms(4)] unfolding fresh(2) by simp
  then have j: "j \<notin> snd ` set id_map" by simp
  have result: "set_inner_html parse i html sn = map_option (\<lambda>nodes'. bump_revision (sn\<lparr>sn_nodes := nodes'\<rparr>))
      (graft_subtree_from_snapshot (sn_nodes (parse html))
        (case sn_body (parse html) of Some b \<Rightarrow> b | None \<Rightarrow> sn_root (parse html)) i (next_u32 (Max (set (map fst kept)))) kept)"
    unfolding set_inner_html_def Let_def assms(2) option.case assms(3) bind.bind_lunit using ne by simp
  obtain nodes' where nodes':
    "graft_subtree_from_snapshot (sn_nodes (parse html)) (case sn_body (parse html) of Some b \<Rightarrow> b | None \<Rightarrow> sn_root (parse html))
       i (next_u32 (Max (set (map fst kept)))) kept = Some nodes'" "sn' = bump_revision (sn\<lparr>sn_nodes := nodes'\<rparr>)"
    using assms(1) unfolding result map_option_eq_Some by blast
  have "dict_get nodes' j = dict_get kept j"
    using graft_Some [OF nodes'(1)] assms(5,6) j next_id by auto
  with assms(4) nodes'(2) j fresh(1) show ?thesis by (simp add: node_of_def bump_revision_def)
qed

subsection \<open>Concrete documents\<close>

definition text_node :: "nat \<Rightarrow> string \<Rightarrow> nat \<Rightarrow> dom_node" where
  "text_node i s par = \<lparr>nd_id = i, nd_tag = [], nd_attributes = [], nd_text = s, nd_children = [], nd_parent = Some par, nd_type = 3\<rparr>"

definition page_nodes :: dom_nodes where
  "page_nodes =
     [(0, sample_node 0 [] [] [1] None), (1, sample_node 1 ''p'' [] [2, 3, 5] (Some 0)),
      (2, text_node 2 ''a'' 1), (3, sample_node 3 ''b'' [] [4] (Some 1)), (4, text_node 4 ''b'' 3), (5, text_node 5 ''c'' 1)]"

definition page_tree :: dom_tree where
  "page_tree = DTree 0 [DTree 1 [DTree 2 [], DTree 3 [DTree 4 []], DTree 5 []]]"

theorem element_text_exact_witness:
  "\<exists>nodes'. fill_element_text page_nodes 0 = Some nodes' \<and> map_option nd_text (dict_get nodes' 1) = Some ''abc''"
proof -
  have "holds page_nodes None page_tree" "distinct (tree_ids page_tree)" by code_simp+
  moreover have "text_leaves page_nodes page_tree"
    by (simp add: text_leaves_def page_tree_def page_nodes_def sample_node_def text_node_def)
  ultimately obtain nodes' where nodes': "fill_element_text page_nodes (tree_root page_tree) = Some nodes'"
    "\<forall>u \<in> set (subtrees page_tree). dict_get nodes' (tree_root u) = map_option (fill_node page_nodes u) (dict_get page_nodes (tree_root u))"
    using element_text_exact [of page_nodes None page_tree] by blast
  have "DTree 1 [DTree 2 [], DTree 3 [DTree 4 []], DTree 5 []] \<in> set (subtrees page_tree)" by (simp add: page_tree_def)
  with nodes'(2) have "dict_get nodes' 1 = map_option (fill_node page_nodes (DTree 1 [DTree 2 [], DTree 3 [DTree 4 []], DTree 5 []]))
      (dict_get page_nodes 1)" by fastforce
  moreover have "map_option nd_text (map_option (fill_node page_nodes (DTree 1 [DTree 2 [], DTree 3 [DTree 4 []], DTree 5 []]))
      (dict_get page_nodes 1)) = Some ''abc''" by code_simp
  ultimately show ?thesis using nodes'(1) by (auto simp: page_tree_def)
qed

definition password_page :: render_doc where
  "password_page =
     \<lparr>rd_node = (\<lambda>i. if i = 0 then Some \<lparr>rn_data = RDocument, rn_children = [1]\<rparr>
        else if i = 1 then Some \<lparr>rn_data = RElement ''html'' [], rn_children = [2]\<rparr>
        else if i = 2 then Some \<lparr>rn_data = RElement ''input'' [(''type'', '' Password''), (''value'', ''one'')], rn_children = []\<rparr>
        else None),
      rd_html = 1, rd_html_parent = Some 0\<rparr>"


theorem slot_assignment_exact_witness:
  "[2, 3] = filter (slot_wants
     [(1, sample_node 1 ''slot'' [(''name'', ''x'')] [] (Some 0)), (2, sample_node 2 ''i'' [(''slot'', ''x'')] [] (Some 0)),
      (3, sample_node 3 ''b'' [(''slot'', ''x'')] [] (Some 0)), (4, sample_node 4 ''u'' [] [] (Some 0))] 1) [2, 4, 3]"
proof -
  let ?nodes = "[(1, sample_node 1 ''slot'' [(''name'', ''x'')] [] (Some 0)), (2, sample_node 2 ''i'' [(''slot'', ''x'')] [] (Some 0)),
      (3, sample_node 3 ''b'' [(''slot'', ''x'')] [] (Some 0)), (4, sample_node 4 ''u'' [] [] (Some 0))]"
  let ?sr = "\<lparr>sr_roots = [], sr_assignments = [], sr_assigned = []\<rparr>"
  have "distribute_slots ?nodes [1] [2, 4, 3] ShadowOpen ?sr
      = Some ([(2, sample_node 2 ''i'' [(''slot'', ''x'')] [] (Some 0)), (3, sample_node 3 ''b'' [(''slot'', ''x'')] [] (Some 0)),
               (4, sample_node 4 ''u'' [] [] (Some 0))],
              \<lparr>sr_roots = [], sr_assignments = [(1, [2, 3])], sr_assigned = [(2, 1), (3, 1)]\<rparr>)"
    by code_simp
  from slot_assignment_exact [OF this] show ?thesis by simp
qed

theorem remove_subtree_exact_witness:
  "\<exists>nodes'. remove_subtree 3 page_nodes = Some nodes' \<and> dict_get nodes' 4 = None
     \<and> map_option nd_children (dict_get nodes' 1) = Some [2, 5]"
proof -
  have "holds page_nodes (Some 1) (DTree 3 [DTree 4 []])" by code_simp
  from remove_subtree_exact [OF this] obtain nodes' where nodes':
    "remove_subtree (tree_root (DTree 3 [DTree 4 []])) page_nodes = Some nodes'"
    "\<And>j. dict_get nodes' j = (if j \<in> set (tree_ids (DTree 3 [DTree 4 []])) then None
       else map_option (\<lambda>m. if Some 1 = Some j
                             then m\<lparr>nd_children := filter (\<lambda>c. c \<noteq> tree_root (DTree 3 [DTree 4 []])) (nd_children m)\<rparr> else m)
              (dict_get page_nodes j))" by blast
  have "map_option nd_children (map_option (\<lambda>m. m\<lparr>nd_children := filter (\<lambda>c. c \<noteq> 3) (nd_children m)\<rparr>) (dict_get page_nodes 1)) = Some [2, 5]"
    by code_simp
  with nodes'(1) nodes'(2) [of 4] nodes'(2) [of 1] show ?thesis by simp
qed

text \<open>The fragment \<open><div><p></p></div>\<close>, as the render document's parser gives it.\<close>

definition parsed_fragment :: "string \<Rightarrow> dom_snapshot" where
  "parsed_fragment html =
     snapshot_empty\<lparr>sn_nodes := [(0, sample_node 0 ''html'' [] [1] None), (1, sample_node 1 ''body'' [] [2] (Some 0)),
       (2, sample_node 2 ''div'' [] [3] (Some 1)), (3, sample_node 3 ''p'' [] [] (Some 2))], sn_body := Some 1\<rparr>"

theorem inner_html_keeps_rest_witness:
  "\<exists>sn'. set_inner_html parsed_fragment 2 ''<div><p></p></div>'' sample_snapshot = Some sn'
     \<and> node_of sn' 3 = Some (sample_node 3 ''p'' [] [] (Some 1))"
proof -
  let ?html = "''<div><p></p></div>''"
  let ?kept = "[(0 :: nat, sample_node 0 [] [] [1] None), (1, sample_node 1 ''div'' [(''id'', ''main'')] [2, 3] (Some 0)),
      (2, sample_node 2 ''p'' [(''class'', ''x x'')] [] (Some 1)), (3, sample_node 3 ''p'' [] [] (Some 1))]"
  have "map_option sn_root (set_inner_html parsed_fragment 2 ?html sample_snapshot) = Some 0" by code_simp
  then obtain sn' where sn': "set_inner_html parsed_fragment 2 ?html sample_snapshot = Some sn'" by blast
  have "node_of sample_snapshot 2 = Some (sample_node 2 ''p'' [(''class'', ''x x'')] [4] (Some 1))" by code_simp
  moreover have "remove_subtrees (nd_children (sample_node 2 ''p'' [(''class'', ''x x'')] [4] (Some 1))) (sn_nodes sample_snapshot)
      = Some ?kept" by code_simp
  moreover have "dict_get ?kept 3 = Some (sample_node 3 ''p'' [] [] (Some 1))" by simp
  moreover have "Max (set (map fst ?kept)) = 3" by simp
  moreover have "copy_node_ids (sn_nodes (parsed_fragment ?html)) [1] 4 [] = Some [(1, 4), (2, 5), (3, 6)]" by code_simp
  moreover have "sn_body (parsed_fragment ?html) = Some 1" by (simp add: parsed_fragment_def)
  ultimately show ?thesis
    using inner_html_keeps_rest [OF sn', of _ ?kept 3 _ "[(1, 4), (2, 5), (3, 6)]"] sn' by simp
qed

text \<open>
  Every grafted node is given the target as its parent, whatever its place in the fragment, and
  the fragment's body element is grafted with it: the climb from a node in the new content misses
  the elements around it.
\<close>
theorem inner_html_parents_collapse:
  "map_option (\<lambda>sn'. (map_option nd_children (node_of sn' 3), map_option nd_tag (node_of sn' 5),
       map_option nd_children (node_of sn' 6), map_option nd_parent (node_of sn' 7), element_closest sn' 7 ''div''))
     (set_inner_html parsed_fragment 3 ''<div><p></p></div>'' sample_snapshot)
   = Some (Some [5], Some ''body'', Some [7], Some (Some 3), Some (Some 1))"
  by code_simp

end
