(* ===== verification/DomRead.thy ===== *)
theory DomRead
  imports DomBuild
begin

text \<open>
  What is read off a snapshot (\<open>dom_snapshot.rs\<close>): serialization to HTML, text content,
  headings, links, meta tags, sub-resources, frames and scripts.
\<close>

section \<open>Serialization\<close>

definition escape_text_char :: "char \<Rightarrow> string" where
  "escape_text_char c =
     (if c = CHR ''&'' then ''&amp;'' else if c = CHR ''<'' then ''&lt;'' else if c = CHR ''>'' then ''&gt;'' else [c])"

definition escape_text :: "string \<Rightarrow> string" where
  "escape_text s = concat (map escape_text_char s)"

definition escape_attr_char :: "char \<Rightarrow> string" where
  "escape_attr_char c =
     (if c = CHR ''&'' then ''&amp;'' else if c = CHR 0x22 then ''&quot;'' else if c = CHR 0x0A then ''&#10;'' else [c])"

definition escape_attr :: "string \<Rightarrow> string" where
  "escape_attr s = concat (map escape_attr_char s)"

definition is_void_element :: "string \<Rightarrow> bool" where
  "is_void_element tag \<longleftrightarrow>
     tag \<in> set [''area'', ''base'', ''br'', ''col'', ''embed'', ''hr'', ''img'', ''input'', ''link'', ''meta'', ''param'',
               ''source'', ''track'', ''wbr'']"

definition is_raw_text_element :: "string \<Rightarrow> bool" where
  "is_raw_text_element tag \<longleftrightarrow> tag \<in> set [''script'', ''style'']"

definition open_tag :: "dom_node \<Rightarrow> string" where
  "open_tag n =
     ''<'' @ nd_tag n
     @ concat (map (\<lambda>(name, v). '' '' @ name @ ''='' @ [CHR 0x22] @ escape_attr v @ [CHR 0x22]) (nd_attributes n)) @ ''>''"

definition close_tag :: "dom_node \<Rightarrow> string" where
  "close_tag n = ''</'' @ nd_tag n @ ''>''"

definition raw_kids :: "dom_node \<Rightarrow> nat list" where
  "raw_kids n = (if nd_type n = 3 then [] else nd_children n)"

definition collect_raw_text :: "dom_nodes \<Rightarrow> nat \<Rightarrow> string option" where
  "collect_raw_text nodes i =
     map_option (\<lambda>visited. concat (map (\<lambda>(i, n). if nd_type n = 3 then nd_text n else []) visited))
       (walk raw_kids nodes [i])"

text \<open>The recursion appends to \<open>out\<close>; what is still to be written is the list of tasks.\<close>

datatype write_task = WriteNode nat | WriteText string

partial_function (option) serialize_nodes :: "dom_nodes \<Rightarrow> write_task list \<Rightarrow> string \<Rightarrow> string option" where
  "serialize_nodes nodes work out =
     (case work of
        [] \<Rightarrow> Some out
      | task # rest \<Rightarrow>
          (case task of
             WriteText s \<Rightarrow> serialize_nodes nodes rest (out @ s)
           | WriteNode i \<Rightarrow>
               (case dict_get nodes i of
                  None \<Rightarrow> serialize_nodes nodes rest out
                | Some n \<Rightarrow>
                    if nd_type n = 3 then serialize_nodes nodes rest (out @ escape_text (nd_text n))
                    else if nd_type n = 8 then serialize_nodes nodes rest out
                    else if nd_type n = 9 \<or> nd_tag n = []
                    then serialize_nodes nodes (map WriteNode (nd_children n) @ rest) out
                    else if is_void_element (nd_tag n) then serialize_nodes nodes rest (out @ open_tag n)
                    else if is_raw_text_element (nd_tag n)
                    then Option.bind (collect_raw_text nodes i)
                           (\<lambda>raw. serialize_nodes nodes rest (out @ open_tag n @ raw @ close_tag n))
                    else serialize_nodes nodes (map WriteNode (nd_children n) @ WriteText (close_tag n) # rest)
                           (out @ open_tag n))))"

declare serialize_nodes.simps [code]

definition serialize_node :: "dom_nodes \<Rightarrow> nat \<Rightarrow> string option" where
  "serialize_node nodes i = serialize_nodes nodes [WriteNode i] []"

definition to_html :: "dom_snapshot \<Rightarrow> string option" where
  "to_html sn =
     (let tops = (case node_of sn (sn_root sn) of
                    Some n \<Rightarrow> if nd_type n = 9 then nd_children n else [sn_root sn]
                  | None \<Rightarrow> [sn_root sn])
      in serialize_nodes (sn_nodes sn) (map WriteNode tops) (''<!DOCTYPE html>'' @ [CHR 0x0A]))"

section \<open>Text and structure\<close>

definition deep_kids :: "dom_node \<Rightarrow> nat list" where
  "deep_kids n = (if nd_type n = 1 then nd_children n else [])"

definition deep_text_content :: "dom_nodes \<Rightarrow> nat \<Rightarrow> string option" where
  "deep_text_content nodes i =
     map_option (\<lambda>visited. str_trim (concat (map (\<lambda>(i, n). if nd_type n = 3 then nd_text n @ '' '' else []) visited)))
       (walk deep_kids nodes [i])"

fun collect_some :: "('a \<Rightarrow> 'b option option) \<Rightarrow> 'a list \<Rightarrow> 'b list option" where
  "collect_some f [] = Some []"
| "collect_some f (x # xs) =
     Option.bind (f x) (\<lambda>found.
       map_option (\<lambda>ys. case found of Some y \<Rightarrow> y # ys | None \<Rightarrow> ys) (collect_some f xs))"

definition heading_tags :: "string list" where
  "heading_tags = [''h1'', ''h2'', ''h3'', ''h4'', ''h5'', ''h6'']"

fun index_of :: "string \<Rightarrow> string list \<Rightarrow> nat option" where
  "index_of x [] = None"
| "index_of x (y # ys) = (if x = y then Some 0 else map_option Suc (index_of x ys))"

definition clamp :: "int \<Rightarrow> int \<Rightarrow> int \<Rightarrow> int" where
  "clamp lo hi v = (if v < lo then lo else if v > hi then hi else v)"

definition heading_level :: "dom_node \<Rightarrow> int option" where
  "heading_level n =
     (if \<not> is_element n then None
      else (case index_of (to_lowercase (nd_tag n)) heading_tags of
              Some k \<Rightarrow> Some (int k + 1)
            | None \<Rightarrow>
                if node_attr n ''role'' = Some ''heading''
                then Some (clamp 1 6 (case Option.bind (node_attr n ''aria-level'') (parse_uint 8) of
                                        Some l \<Rightarrow> l | None \<Rightarrow> 2))
                else None))"

definition headings :: "dom_snapshot \<Rightarrow> (int \<times> string) list option" where
  "headings sn =
     Option.bind (walk nd_children (sn_nodes sn) [sn_root sn])
       (collect_some (\<lambda>(i, n). case heading_level n of
            None \<Rightarrow> Some None
          | Some l \<Rightarrow> map_option (\<lambda>txt. Some (l, txt)) (deep_text_content (sn_nodes sn) (nd_id n))))"

definition links :: "dom_snapshot \<Rightarrow> (string \<times> string) list option" where
  "links sn =
     Option.bind (walk nd_children (sn_nodes sn) [sn_root sn])
       (collect_some (\<lambda>(i, n).
          if is_element n \<and> to_lowercase (nd_tag n) = ''a''
          then map_option (\<lambda>txt. Some (txt, case node_attr n ''href'' of Some h \<Rightarrow> h | None \<Rightarrow> []))
                 (deep_text_content (sn_nodes sn) (nd_id n))
          else Some None))"

definition meta_tags :: "dom_snapshot \<Rightarrow> (string, string) dict" where
  "meta_tags sn =
     fold (\<lambda>(i, n) found.
        if is_element n \<and> to_lowercase (nd_tag n) = ''meta''
        then (case (case node_attr n ''name'' of Some v \<Rightarrow> Some v | None \<Rightarrow> node_attr n ''property'', node_attr n ''content'') of
                (Some name, Some content) \<Rightarrow> dict_insert name content found
              | _ \<Rightarrow> found)
        else found) (sn_nodes sn) []"

definition text_content :: "dom_snapshot \<Rightarrow> nat \<Rightarrow> string option" where
  "text_content sn i = map_option nd_text (node_of sn i)"

section \<open>Sub-resources, frames, scripts\<close>

datatype resource_kind = ScriptResource | StylesheetResource | ImageResource | IframeResource

record resource_url =
  ru_url :: string
  ru_kind :: resource_kind

definition resource_of :: "dom_node \<Rightarrow> resource_url option" where
  "resource_of n =
     (let tag = to_lowercase (nd_tag n);
          at = (\<lambda>a k. map_option (\<lambda>u. \<lparr>ru_url = u, ru_kind = k\<rparr>) (node_attr n a))
      in if \<not> is_element n then None
         else if tag = ''script'' then at ''src'' ScriptResource
         else if tag = ''link''
         then (case node_attr n ''rel'' of
                 Some r \<Rightarrow> if eq_ignore_ascii_case r ''stylesheet'' then at ''href'' StylesheetResource else None
               | None \<Rightarrow> None)
         else if tag = ''img'' then at ''src'' ImageResource
         else if tag = ''iframe'' then at ''src'' IframeResource
         else None)"

definition extract_resource_urls :: "dom_snapshot \<Rightarrow> resource_url list" where
  "extract_resource_urls sn = List.map_filter (\<lambda>(i, n). resource_of n) (sn_nodes sn)"

record iframe_element =
  if_src :: "string option"
  if_srcdoc :: "string option"

definition collect_iframes :: "dom_snapshot \<Rightarrow> nat list option" where
  "collect_iframes sn =
     map_option (\<lambda>visited. map fst (filter (\<lambda>(i, n). is_element n \<and> eq_ignore_ascii_case (nd_tag n) ''iframe'') visited))
       (walk nd_children (sn_nodes sn) [sn_root sn])"

definition extract_iframes :: "dom_snapshot \<Rightarrow> iframe_element list option" where
  "extract_iframes sn =
     map_option
       (List.map_filter (\<lambda>i. map_option (\<lambda>n. \<lparr>if_src = node_attr n ''src'', if_srcdoc = node_attr n ''srcdoc''\<rparr>) (node_of sn i)))
       (collect_iframes sn)"

definition iframe_srcs :: "dom_snapshot \<Rightarrow> string list option" where
  "iframe_srcs sn =
     map_option (List.map_filter (\<lambda>i. Option.bind (node_of sn i) (\<lambda>n. node_attr n ''src''))) (collect_iframes sn)"

datatype script_kind = ClassicScript | ModuleScript

datatype execute_timing = DeferScript | AsyncScript

record script_source =
  ss_source :: string
  ss_src_url :: "string option"
  ss_kind :: script_kind
  ss_execute :: execute_timing

definition classify_script_type :: "string \<Rightarrow> script_kind option" where
  "classify_script_type ty =
     (let t = to_ascii_lowercase (str_trim ty)
      in if t \<in> set [[], ''text/javascript'', ''application/javascript'', ''text/ecmascript'', ''application/ecmascript'']
         then Some ClassicScript
         else if t = ''module'' then Some ModuleScript
         else None)"

definition script_of :: "dom_node \<Rightarrow> script_source option" where
  "script_of n =
     (if \<not> is_element n \<or> \<not> eq_ignore_ascii_case (nd_tag n) ''script'' then None
      else (case classify_script_type (case node_attr n ''type'' of Some ty \<Rightarrow> ty | None \<Rightarrow> []) of
              None \<Rightarrow> None
            | Some k \<Rightarrow>
                if has_attr n ''nomodule'' then None
                else Some \<lparr>ss_source = (case node_attr n ''src'' of Some u \<Rightarrow> [] | None \<Rightarrow> nd_text n),
                           ss_src_url = node_attr n ''src'', ss_kind = k,
                           ss_execute = (if has_attr n ''async'' then AsyncScript else DeferScript)\<rparr>))"

definition extract_scripts :: "dom_snapshot \<Rightarrow> script_source list option" where
  "extract_scripts sn =
     map_option (List.map_filter (\<lambda>(i, n). script_of n)) (walk nd_children (sn_nodes sn) [sn_root sn])"

section \<open>Lemmas: trees\<close>

fun tree_raw :: "dom_nodes \<Rightarrow> dom_tree \<Rightarrow> string" where
  "tree_raw nodes (DTree i ts) =
     (case dict_get nodes i of
        None \<Rightarrow> []
      | Some n \<Rightarrow> if nd_type n = 3 then nd_text n else concat (map (tree_raw nodes) ts))"

fun tree_deep :: "dom_nodes \<Rightarrow> dom_tree \<Rightarrow> string" where
  "tree_deep nodes (DTree i ts) =
     (case dict_get nodes i of
        None \<Rightarrow> []
      | Some n \<Rightarrow>
          if nd_type n = 3 then nd_text n @ '' ''
          else if nd_type n = 1 then concat (map (tree_deep nodes) ts) else [])"

fun tree_html :: "dom_nodes \<Rightarrow> dom_tree \<Rightarrow> string" where
  "tree_html nodes (DTree i ts) =
     (case dict_get nodes i of
        None \<Rightarrow> []
      | Some n \<Rightarrow>
          if nd_type n = 3 then escape_text (nd_text n)
          else if nd_type n = 8 then []
          else if nd_type n = 9 \<or> nd_tag n = [] then concat (map (tree_html nodes) ts)
          else if is_void_element (nd_tag n) then open_tag n
          else if is_raw_text_element (nd_tag n) then open_tag n @ tree_raw nodes (DTree i ts) @ close_tag n
          else open_tag n @ concat (map (tree_html nodes) ts) @ close_tag n)"

text \<open>A walk whose children are all the children of a node or none, and what is read on the way.\<close>

lemma walk_text:
  assumes "\<And>n. kids n = nd_children n \<or> kids n = []"
    and "\<And>i ts n. dict_get nodes i = Some n \<Longrightarrow> nd_children n = map tree_root ts \<Longrightarrow> kids n = nd_children n \<Longrightarrow>
      spec (DTree i ts) = read n @ concat (map spec ts)"
    and "\<And>i ts n. dict_get nodes i = Some n \<Longrightarrow> kids n = [] \<Longrightarrow> kids n \<noteq> nd_children n \<Longrightarrow> spec (DTree i ts) = read n"
  shows "holds nodes par t \<Longrightarrow>
    \<exists>visited. walk kids nodes [tree_root t] = Some visited \<and> concat (map (\<lambda>(i, n). read n) visited) = spec t"
proof (induction t arbitrary: par)
  case (DTree i ts)
  then obtain n where n: "dict_get nodes i = Some n" "nd_children n = map tree_root ts"
    and ts: "\<And>t. t \<in> set ts \<Longrightarrow> holds nodes (Some i) t"
    by (auto simp: list_all_iff split: option.splits)
  have forest: "\<exists>visited. walk kids nodes (map tree_root ts) = Some visited
      \<and> concat (map (\<lambda>(i, n). read n) visited) = concat (map spec ts)"
    using DTree.IH ts
  proof (induction ts)
    case (Cons t us)
    from Cons.prems(1) [of t "Some i"] Cons.prems(2) [of t] obtain v where v:
      "walk kids nodes [tree_root t] = Some v" "concat (map (\<lambda>(i, n). read n) v) = spec t" by auto
    from Cons obtain w where "walk kids nodes (map tree_root us) = Some w"
      "concat (map (\<lambda>(i, n). read n) w) = concat (map spec us)" by auto
    with v walk_append [OF v(1), of "map tree_root us"] show ?case by simp
  qed simp
  show ?case
  proof (cases "kids n = nd_children n")
    case True
    with forest n assms(2) [OF n True] show ?thesis by (auto simp: walk.simps [of _ _ "[i]"])
  next
    case False
    then have "kids n = []" using assms(1) by blast
    with n assms(3) [OF n(1) this False, of ts] show ?thesis by (simp add: walk.simps [of _ _ "[i]"])
  qed
qed

lemma raw_text_tree:
  assumes "holds nodes par t"
  shows "collect_raw_text nodes (tree_root t) = Some (tree_raw nodes t)"
proof -
  have "\<exists>visited. walk raw_kids nodes [tree_root t] = Some visited
      \<and> concat (map (\<lambda>(i, n). if nd_type n = 3 then nd_text n else []) visited) = tree_raw nodes t"
    by (rule walk_text [OF _ _ _ assms]) (auto simp: raw_kids_def split: if_splits)
  then show ?thesis by (auto simp: collect_raw_text_def)
qed

lemma deep_text_tree:
  assumes "holds nodes par t"
  shows "deep_text_content nodes (tree_root t) = Some (str_trim (tree_deep nodes t))"
proof -
  have "\<exists>visited. walk deep_kids nodes [tree_root t] = Some visited
      \<and> concat (map (\<lambda>(i, n). if nd_type n = 3 then nd_text n @ '' '' else []) visited) = tree_deep nodes t"
    by (rule walk_text [OF _ _ _ assms]) (auto simp: deep_kids_def split: if_splits)
  then show ?thesis by (auto simp: deep_text_content_def)
qed

lemma serialize_tree:
  "holds nodes par t \<Longrightarrow>
     serialize_nodes nodes (WriteNode (tree_root t) # rest) out = serialize_nodes nodes rest (out @ tree_html nodes t)"
proof (induction t arbitrary: par rest out)
  case (DTree i ts)
  then obtain n where n: "dict_get nodes i = Some n" "nd_children n = map tree_root ts"
    and ts: "\<And>t. t \<in> set ts \<Longrightarrow> holds nodes (Some i) t"
    by (auto simp: list_all_iff split: option.splits)
  have kids: "serialize_nodes nodes (map WriteNode (map tree_root ts) @ rest) out
      = serialize_nodes nodes rest (out @ concat (map (tree_html nodes) ts))" for rest out
    using DTree.IH ts by (induction ts arbitrary: out) fastforce+
  have raw: "collect_raw_text nodes i = Some (tree_raw nodes (DTree i ts))"
    using raw_text_tree [OF DTree.prems] by simp
  show ?case
    using n kids [of rest out] kids [of "WriteText (close_tag n) # rest" "out @ open_tag n"] raw
    by (simp add: serialize_nodes.simps [of _ "WriteNode i # _"] serialize_nodes.simps [of _ "WriteText (close_tag n) # _"]
        del: tree_raw.simps)
qed

lemma serialize_forest:
  "(\<And>t. t \<in> set ts \<Longrightarrow> \<exists>par. holds nodes par t) \<Longrightarrow>
     serialize_nodes nodes (map WriteNode (map tree_root ts)) out = Some (out @ concat (map (tree_html nodes) ts))"
proof (induction ts arbitrary: out)
  case Nil
  then show ?case by (simp add: serialize_nodes.simps)
next
  case (Cons t ts)
  from Cons.prems [of t] obtain par where "holds nodes par t" by auto
  from serialize_tree [OF this] Cons show ?case by simp
qed

section \<open>Reading HTML back\<close>

text \<open>
  A reference reader: text characters, and the inside of each tag; a tag ends at the first \<open>>\<close>
  outside double quotes.
\<close>

datatype html_event = TextChar char | Tag string

datatype html_mode = InText | InTag string | InQuotes string

fun scan_html :: "html_mode \<Rightarrow> string \<Rightarrow> html_event list" where
  "scan_html m [] = []"
| "scan_html InText (c # cs) = (if c = CHR ''<'' then scan_html (InTag []) cs else TextChar c # scan_html InText cs)"
| "scan_html (InTag acc) (c # cs) =
     (if c = CHR ''>'' then Tag acc # scan_html InText cs
      else if c = CHR 0x22 then scan_html (InQuotes (acc @ [c])) cs
      else scan_html (InTag (acc @ [c])) cs)"
| "scan_html (InQuotes acc) (c # cs) =
     (if c = CHR 0x22 then scan_html (InTag (acc @ [c])) cs else scan_html (InQuotes (acc @ [c])) cs)"

definition tag_inside :: "dom_node \<Rightarrow> string" where
  "tag_inside n =
     nd_tag n @ concat (map (\<lambda>(name, v). '' '' @ name @ ''='' @ [CHR 0x22] @ escape_attr v @ [CHR 0x22]) (nd_attributes n))"

fun tree_events :: "dom_nodes \<Rightarrow> dom_tree \<Rightarrow> html_event list" where
  "tree_events nodes (DTree i ts) =
     (case dict_get nodes i of
        None \<Rightarrow> []
      | Some n \<Rightarrow>
          if nd_type n = 3 then map TextChar (escape_text (nd_text n))
          else if nd_type n = 8 then []
          else if nd_type n = 9 \<or> nd_tag n = [] then concat (map (tree_events nodes) ts)
          else if is_void_element (nd_tag n) then [Tag (tag_inside n)]
          else Tag (tag_inside n) # concat (map (tree_events nodes) ts) @ [Tag (CHR ''/'' # nd_tag n)])"

definition plain_markup :: "string \<Rightarrow> bool" where
  "plain_markup s \<longleftrightarrow> (\<forall>c \<in> set s. c \<noteq> CHR ''<'' \<and> c \<noteq> CHR ''>'' \<and> c \<noteq> CHR 0x22)"

definition plain_names :: "dom_nodes \<Rightarrow> dom_tree \<Rightarrow> bool" where
  "plain_names nodes t \<longleftrightarrow>
     (\<forall>u \<in> set (subtrees t). \<forall>n. dict_get nodes (tree_root u) = Some n \<longrightarrow>
        plain_markup (nd_tag n) \<and> (\<forall>(name, v) \<in> set (nd_attributes n). plain_markup name) \<and> \<not> is_raw_text_element (nd_tag n))"

lemma scan_text_plain: "(\<And>c. c \<in> set s \<Longrightarrow> c \<noteq> CHR ''<'') \<Longrightarrow> scan_html InText (s @ rest) = map TextChar s @ scan_html InText rest"
  by (induction s) auto

lemma scan_tag_plain: "plain_markup s \<Longrightarrow> scan_html (InTag acc) (s @ rest) = scan_html (InTag (acc @ s)) rest"
  by (induction s arbitrary: acc) (auto simp: plain_markup_def)

lemma scan_quotes_plain:
  "(\<And>c. c \<in> set s \<Longrightarrow> c \<noteq> CHR 0x22) \<Longrightarrow> scan_html (InQuotes acc) (s @ rest) = scan_html (InQuotes (acc @ s)) rest"
  by (induction s arbitrary: acc) auto

lemma escape_text_chars: "c \<in> set (escape_text s) \<Longrightarrow> c \<noteq> CHR ''<'' \<and> c \<noteq> CHR ''>''"
  by (auto simp: escape_text_def escape_text_char_def split: if_splits)

lemma escape_attr_chars: "c \<in> set (escape_attr s) \<Longrightarrow> c \<noteq> CHR 0x22"
  by (auto simp: escape_attr_def escape_attr_char_def split: if_splits)

lemma scan_attributes:
  "(\<forall>(name, v) \<in> set attrs. plain_markup name) \<Longrightarrow>
     scan_html (InTag acc)
       (concat (map (\<lambda>(name, v). '' '' @ name @ ''='' @ [CHR 0x22] @ escape_attr v @ [CHR 0x22]) attrs) @ rest)
     = scan_html (InTag (acc @ concat (map (\<lambda>(name, v). '' '' @ name @ ''='' @ [CHR 0x22] @ escape_attr v @ [CHR 0x22]) attrs))) rest"
proof (induction attrs arbitrary: acc)
  case (Cons a attrs)
  obtain name v where a: "a = (name, v)" by force
  with Cons.prems have "plain_markup name" by simp
  with Cons a escape_attr_chars [of _ v] show ?case by (simp add: scan_tag_plain scan_quotes_plain)
qed simp

lemma scan_open_tag:
  assumes "plain_markup (nd_tag n)" and "\<forall>(name, v) \<in> set (nd_attributes n). plain_markup name"
  shows "scan_html InText (open_tag n @ rest) = Tag (tag_inside n) # scan_html InText rest"
  using scan_tag_plain [OF assms(1)] scan_attributes [OF assms(2)] by (simp add: open_tag_def tag_inside_def)

lemma scan_close_tag:
  "plain_markup (nd_tag n) \<Longrightarrow> scan_html InText (close_tag n @ rest) = Tag (CHR ''/'' # nd_tag n) # scan_html InText rest"
  using scan_tag_plain [of "nd_tag n" "''/''"] by (simp add: close_tag_def)

lemma scan_tree:
  "plain_names nodes t \<Longrightarrow> scan_html InText (tree_html nodes t @ rest) = tree_events nodes t @ scan_html InText rest"
proof (induction t arbitrary: rest)
  case (DTree i ts)
  show ?case
  proof (cases "dict_get nodes i")
    case (Some n)
    with DTree.prems have n: "plain_markup (nd_tag n)" "\<forall>(name, v) \<in> set (nd_attributes n). plain_markup name"
      "\<not> is_raw_text_element (nd_tag n)" by (auto simp: plain_names_def)
    have "plain_names nodes t" if "t \<in> set ts" for t
      using DTree.prems that by (auto simp: plain_names_def)
    then have kids: "scan_html InText (concat (map (tree_html nodes) ts) @ rest)
        = concat (map (tree_events nodes) ts) @ scan_html InText rest" for rest
      using DTree.IH by (induction ts) auto
    show ?thesis
      using Some n kids scan_open_tag [OF n(1,2)] scan_close_tag [OF n(1)] escape_text_chars
      by (simp add: scan_text_plain)
  qed simp
qed

definition entities :: "(string \<times> char) list" where
  "entities = [(''amp;'', CHR ''&''), (''lt;'', CHR ''<''), (''gt;'', CHR ''>''), (''quot;'', CHR 0x22), (''#10;'', CHR 0x0A)]"

fun find_entity :: "(string \<times> char) list \<Rightarrow> string \<Rightarrow> (char \<times> string) option" where
  "find_entity [] s = None"
| "find_entity ((e, c) # es) s = (if take (length e) s = e then Some (c, drop (length e) s) else find_entity es s)"

lemma find_entity_shorter: "find_entity es s = Some (c, rest) \<Longrightarrow> length rest \<le> length s"
  by (induction es s rule: find_entity.induct) (auto split: if_splits)

function unescape :: "string \<Rightarrow> string" where
  "unescape [] = []"
| "unescape (c # cs) =
     (if c = CHR ''&''
      then (case find_entity entities cs of Some (d, rest) \<Rightarrow> d # unescape rest | None \<Rightarrow> c # unescape cs)
      else c # unescape cs)"
  by pat_completeness auto
termination
  by (relation "measure length") (auto dest: find_entity_shorter)

lemma unescape_text: "unescape (escape_text s) = s"
  by (induction s) (auto simp: escape_text_def escape_text_char_def entities_def)

lemma unescape_attr: "unescape (escape_attr s) = s"
  by (induction s) (auto simp: escape_attr_def escape_attr_char_def entities_def)

lemma to_html_tree:
  assumes "document sn t"
  shows "to_html sn = Some (''<!DOCTYPE html>'' @ [CHR 0x0A] @ tree_html (sn_nodes sn) t)"
proof -
  obtain i ts where t: "t = DTree i ts" by (cases t)
  have h: "holds (sn_nodes sn) None t" and root: "sn_root sn = i" using assms t by (auto simp: document_def)
  from h [unfolded t] obtain n where "dict_get (sn_nodes sn) i = Some n" "nd_children n = map tree_root ts"
    and ts: "\<And>u. u \<in> set ts \<Longrightarrow> holds (sn_nodes sn) (Some i) u"
    by (auto simp: list_all_iff split: option.splits)
  with root have n: "dict_get (sn_nodes sn) i = Some n" "nd_children n = map tree_root ts" "sn_root sn = i" by auto
  show ?thesis
  proof (cases "nd_type n = 9")
    case True
    have "serialize_nodes (sn_nodes sn) (map WriteNode (map tree_root ts)) out = Some (out @ concat (map (tree_html (sn_nodes sn)) ts))"
      for out using ts by (intro serialize_forest) auto
    with True n t show ?thesis by (simp add: to_html_def node_of_def)
  next
    case False
    have "serialize_nodes (sn_nodes sn) (map WriteNode (map tree_root [t])) out = Some (out @ concat (map (tree_html (sn_nodes sn)) [t]))"
      for out using h by (intro serialize_forest) auto
    with False n t show ?thesis by (simp add: to_html_def node_of_def del: tree_html.simps)
  qed
qed

section \<open>Properties\<close>


definition markup_nodes :: dom_nodes where
  "markup_nodes =
     [(0, sample_node 0 [] [] [1] None), (1, sample_node 1 ''p'' [(''title'', ''>'' @ [CHR 0x22] @ ''<b>'')] [2] (Some 0)),
      (2, text_node 2 ''</p><i>'' 1)]"


text \<open>The text of a script or style element is written as it is: a closing tag in it ends the element.\<close>

theorem raw_text_breaks_out:
  "map_option (scan_html InText)
     (serialize_node [(1, sample_node 1 ''style'' [] [2] None), (2, text_node 2 ''</style><b>'' 1)] 1)
   = Some [Tag ''style'', Tag ''/style'', Tag ''b'', Tag ''/style'']"
  by code_simp

text \<open>
  The executable scripts of a document are returned in document order: every script element of a
  JavaScript type without nomodule, and nothing else.
\<close>
theorem scripts_in_document_order:
  assumes "document sn t"
  shows "extract_scripts sn = Some (List.map_filter (\<lambda>i. Option.bind (node_of sn i) script_of) (tree_ids t))"
proof -
  have "Option.bind (node_of sn i) script_of = script_of (the (dict_get (sn_nodes sn) i))" if "i \<in> set (tree_ids t)" for i
    using document_present [OF assms] that by (auto simp: present_def node_of_def)
  then have "List.map_filter (\<lambda>(i, n). script_of n) (map (visit (sn_nodes sn)) is)
      = List.map_filter (\<lambda>i. Option.bind (node_of sn i) script_of) is" if "set is \<subseteq> set (tree_ids t)" for "is"
    using that by (induction "is") (auto simp: List.map_filter_def visit_def)
  then show ?thesis using document_walk [OF assms] by (simp add: extract_scripts_def)
qed

definition script_page :: dom_snapshot where
  "script_page = snapshot_empty\<lparr>sn_nodes :=
      [(0, sample_node 0 [] [] [1, 2] None), (1, sample_node 1 ''script'' [(''type'', ''application/json'')] [] (Some 0)),
       (2, sample_node 2 ''SCRIPT'' [(''src'', ''a.js''), (''async'', [])] [] (Some 0))]\<rparr>"

theorem scripts_in_document_order_witness:
  "extract_scripts script_page
   = Some [\<lparr>ss_source = [], ss_src_url = Some ''a.js'', ss_kind = ClassicScript, ss_execute = AsyncScript\<rparr>]"
proof -
  have "document script_page (DTree 0 [DTree 1 [], DTree 2 []])"
    by (simp add: document_def script_page_def snapshot_empty_def sample_node_def)
  note scripts = scripts_in_document_order [OF this]
  have "List.map_filter (\<lambda>i. Option.bind (node_of script_page i) script_of) (tree_ids (DTree 0 [DTree 1 [], DTree 2 []]))
      = [\<lparr>ss_source = [], ss_src_url = Some ''a.js'', ss_kind = ClassicScript, ss_execute = AsyncScript\<rparr>]" by code_simp
  with scripts show ?thesis by (simp only:)
qed

end
