(* ===== verification/DomAccess.thy ===== *)
theory DomAccess
  imports DomRead "HOL-Library.Char_ord" "HOL-Library.List_Lexorder"
begin

text \<open>
  Interactive elements, accessible names, selectors and fingerprints (\<open>dom_snapshot.rs\<close>), and the
  stable references that the remote interface hands out for them
  (\<open>oxibrowser-cdp/src/refs.rs\<close>, \<open>domains/oxi.rs\<close>). Whether an element is visible is the layout
  engine's answer, the argument \<open>visible\<close>.
\<close>

section \<open>Roles\<close>

definition max_interactive_text_chars :: nat where
  "max_interactive_text_chars = 80"

definition take_chars :: "nat \<Rightarrow> string \<Rightarrow> string" where
  "take_chars k s = concat (take k (utf8_chars s))"

definition cap_accessible_name :: "string \<Rightarrow> string option" where
  "cap_accessible_name raw =
     (if str_trim raw = [] then None else Some (take_chars max_interactive_text_chars (str_trim raw)))"

definition is_interactive_tag :: "string \<Rightarrow> bool" where
  "is_interactive_tag tag \<longleftrightarrow> tag \<in> set [''a'', ''button'', ''input'', ''select'', ''textarea'']"

definition is_interactive_role :: "string \<Rightarrow> bool" where
  "is_interactive_role r \<longleftrightarrow> r \<in> set [''button'', ''link'', ''tab'', ''checkbox'', ''radio'']"

definition is_interactive_element :: "dom_node \<Rightarrow> bool" where
  "is_interactive_element n =
     (if \<not> is_element n then False
      else if is_interactive_tag (to_lowercase (nd_tag n)) then True
      else if has_attr n ''onclick'' then True
      else if (case node_attr n ''role'' of Some r \<Rightarrow> is_interactive_role (to_lowercase (str_trim r)) | None \<Rightarrow> False) then True
      else (case Option.bind (node_attr n ''tabindex'') (\<lambda>v. parse_sint 32 (str_trim v)) of
              Some k \<Rightarrow> k \<ge> 0
            | None \<Rightarrow> False))"

definition explicit_role :: "dom_node \<Rightarrow> string option" where
  "explicit_role n =
     (case node_attr n ''role'' of
        Some r \<Rightarrow> if str_trim r \<noteq> [] then Some (str_trim r) else None
      | None \<Rightarrow> None)"

definition compute_interactive_role :: "dom_node \<Rightarrow> string" where
  "compute_interactive_role n =
     (case explicit_role n of
        Some r \<Rightarrow> r
      | None \<Rightarrow>
          (let tag = to_lowercase (nd_tag n);
               ty = (case node_attr n ''type'' of Some v \<Rightarrow> to_lowercase (str_trim v) | None \<Rightarrow> [])
           in if tag = ''a'' then ''link''
              else if tag = ''button'' then ''button''
              else if tag = ''select'' then ''listbox''
              else if tag = ''textarea'' then ''textbox''
              else if tag = ''input''
              then (if ty = ''checkbox'' then ''checkbox''
                    else if ty = ''radio'' then ''radio''
                    else if ty \<in> {''button'', ''submit'', ''reset''} then ''button''
                    else ''textbox'')
              else ''generic''))"

section \<open>Accessible names\<close>

definition trimmed_attr :: "dom_node \<Rightarrow> string \<Rightarrow> string option" where
  "trimmed_attr n a =
     (case node_attr n a of
        Some v \<Rightarrow> if str_trim v \<noteq> [] then Some (str_trim v) else None
      | None \<Rightarrow> None)"

text \<open>This walk pushes the children as they are, so the last child is visited first.\<close>

definition note_id :: "nat \<times> dom_node \<Rightarrow> (string, nat) dict \<Rightarrow> (string, nat) dict" where
  "note_id v found =
     (case (if is_element (snd v) then trimmed_attr (snd v) ''id'' else None) of
        Some name \<Rightarrow> if dict_get found name = None then dict_insert name (nd_id (snd v)) found else found
      | None \<Rightarrow> found)"

definition element_id_map :: "dom_snapshot \<Rightarrow> (string, nat) dict option" where
  "element_id_map sn =
     map_option
       (\<lambda>visited. fold note_id visited [])
       (walk (\<lambda>n. rev (nd_children n)) (sn_nodes sn) [sn_root sn])"

definition labelled_text :: "dom_snapshot \<Rightarrow> (string, nat) dict \<Rightarrow> string \<Rightarrow> string option" where
  "labelled_text sn ids refs =
     map_option (join_with '' '')
       (collect_some (\<lambda>i. map_option (\<lambda>txt. if str_trim txt = [] then None else Some (str_trim txt))
            (deep_text_content (sn_nodes sn) i))
          (List.map_filter (dict_get ids) (split_whitespace refs)))"

fun first_name :: "string option list \<Rightarrow> string option" where
  "first_name [] = None"
| "first_name (raw # rest) =
     (case Option.bind raw cap_accessible_name of Some name \<Rightarrow> Some name | None \<Rightarrow> first_name rest)"

definition accessible_name_with_id_map ::
  "dom_snapshot \<Rightarrow> nat \<Rightarrow> (string, nat) dict \<Rightarrow> string option option" where
  "accessible_name_with_id_map sn i ids =
     (case node_of sn i of
        None \<Rightarrow> Some None
      | Some n \<Rightarrow>
          Option.bind (case trimmed_attr n ''aria-labelledby'' of
                         Some refs \<Rightarrow> map_option Some (labelled_text sn ids refs) | None \<Rightarrow> Some None) (\<lambda>labelled.
          case first_name
                 [labelled,
                  trimmed_attr n ''aria-label'',
                  if eq_ignore_ascii_case (nd_tag n) ''img'' then trimmed_attr n ''alt'' else None,
                  if to_lowercase (nd_tag n) \<in> {''input'', ''select'', ''textarea''}
                  then trimmed_attr n ''placeholder'' else None,
                  if is_password_input n then None else trimmed_attr n ''value''] of
            Some name \<Rightarrow> Some (Some name)
          | None \<Rightarrow> map_option cap_accessible_name (deep_text_content (sn_nodes sn) i)))"

definition accessible_name :: "dom_snapshot \<Rightarrow> nat \<Rightarrow> string option option" where
  "accessible_name sn i = Option.bind (element_id_map sn) (accessible_name_with_id_map sn i)"

section \<open>Selectors\<close>

definition is_css_ident_char :: "char \<Rightarrow> bool" where
  "is_css_ident_char c \<longleftrightarrow> is_ascii_alnum c \<or> c = CHR ''_'' \<or> c = CHR ''-''"

definition is_valid_css_identifier :: "string \<Rightarrow> bool" where
  "is_valid_css_identifier v =
     (case strip_prefix v ''--'' of
        Some rest \<Rightarrow> list_all is_css_ident_char rest
      | None \<Rightarrow>
          (case v of
             c # cs \<Rightarrow> (is_ascii_lowercase c \<or> is_ascii_uppercase c) \<and> list_all is_css_ident_char cs
           | [] \<Rightarrow> False))"

definition escape_css_attr_value :: "string \<Rightarrow> string" where
  "escape_css_attr_value v =
     concat (map (\<lambda>c. if c = CHR 0x5C then [CHR 0x5C, CHR 0x5C] else if c = CHR 0x22 then [CHR 0x5C, CHR 0x22] else [c]) v)"

definition id_step :: "string \<Rightarrow> string" where
  "id_step v =
     (if is_valid_css_identifier (str_trim v) then ''#'' @ str_trim v
      else ''[id='' @ [CHR 0x22] @ escape_css_attr_value v @ [CHR 0x22] @ '']'')"

definition same_tag_siblings :: "dom_snapshot \<Rightarrow> dom_node \<Rightarrow> dom_node list" where
  "same_tag_siblings sn n =
     (case Option.bind (nd_parent n) (node_of sn) of
        None \<Rightarrow> []
      | Some p \<Rightarrow> filter (\<lambda>s. is_element s \<and> eq_ignore_ascii_case (nd_tag s) (nd_tag n))
                    (List.map_filter (node_of sn) (nd_children p)))"

fun last_position :: "nat \<Rightarrow> dom_node list \<Rightarrow> nat \<Rightarrow> nat \<Rightarrow> nat" where
  "last_position i [] seen pos = pos"
| "last_position i (s # ss) seen pos =
     last_position i ss (seen + 1) (if nd_id s = i then seen + 1 else pos)"

definition tag_step :: "dom_snapshot \<Rightarrow> dom_node \<Rightarrow> string" where
  "tag_step sn n =
     (let same = same_tag_siblings sn n; tag = to_lowercase (nd_tag n)
      in if length same \<le> 1 then tag
         else tag @ '':nth-of-type('' @ show_uint (int (last_position (nd_id n) same 0 0)) @ '')'')"

text \<open>The steps from the node upwards; the caller reverses them.\<close>

partial_function (option) path_steps :: "dom_snapshot \<Rightarrow> nat option \<Rightarrow> string list option" where
  "path_steps sn current =
     (case current of
        None \<Rightarrow> Some []
      | Some i \<Rightarrow>
          (case node_of sn i of
             None \<Rightarrow> Some []
           | Some n \<Rightarrow>
               if nd_type n = 9 then Some []
               else (case node_attr n ''id'' of
                       Some v \<Rightarrow>
                         if str_trim v \<noteq> [] then Some [id_step v]
                         else Option.bind (path_steps sn (nd_parent n)) (\<lambda>steps. Some (tag_step sn n # steps))
                     | None \<Rightarrow> Option.bind (path_steps sn (nd_parent n)) (\<lambda>steps. Some (tag_step sn n # steps)))))"

declare path_steps.simps [code]

definition css_selector_path :: "dom_snapshot \<Rightarrow> nat \<Rightarrow> string option" where
  "css_selector_path sn i = map_option (\<lambda>steps. join_with '' > '' (rev steps)) (path_steps sn (Some i))"

section \<open>Interactive elements\<close>

record interactive_element =
  ie_node_id :: nat
  ie_index :: nat
  ie_tag :: string
  ie_role :: string
  ie_text :: string
  ie_href :: "string option"
  ie_input_type :: "string option"
  ie_name_attr :: "string option"
  ie_name :: "string option"
  ie_aria_label :: "string option"
  ie_placeholder :: "string option"
  ie_disabled :: bool
  ie_selector :: string

definition nonblank_attr :: "dom_node \<Rightarrow> string \<Rightarrow> string option" where
  "nonblank_attr n a =
     (case node_attr n a of Some v \<Rightarrow> if str_trim v \<noteq> [] then Some v else None | None \<Rightarrow> None)"

definition build_interactive_element ::
  "dom_snapshot \<Rightarrow> (string, nat) dict \<Rightarrow> dom_node \<Rightarrow> nat \<Rightarrow> interactive_element option" where
  "build_interactive_element sn ids n idx =
     Option.bind (deep_text_content (sn_nodes sn) (nd_id n)) (\<lambda>full.
     Option.bind (accessible_name_with_id_map sn (nd_id n) ids) (\<lambda>name.
     Option.bind (css_selector_path sn (nd_id n)) (\<lambda>selector.
       Some \<lparr>ie_node_id = nd_id n, ie_index = idx, ie_tag = to_lowercase (nd_tag n),
             ie_role = compute_interactive_role n, ie_text = take_chars max_interactive_text_chars full,
             ie_href = nonblank_attr n ''href'', ie_input_type = nonblank_attr n ''type'',
             ie_name_attr = nonblank_attr n ''name'', ie_name = name,
             ie_aria_label = nonblank_attr n ''aria-label'', ie_placeholder = nonblank_attr n ''placeholder'',
             ie_disabled = has_attr n ''disabled'', ie_selector = selector\<rparr>)))"

fun build_elements ::
  "dom_snapshot \<Rightarrow> (string, nat) dict \<Rightarrow> (nat \<times> dom_node) list \<Rightarrow> nat \<Rightarrow> interactive_element list option" where
  "build_elements sn ids [] idx = Some []"
| "build_elements sn ids ((i, n) # visited) idx =
     (if is_element n \<and> is_interactive_element n
      then Option.bind (build_interactive_element sn ids n idx)
             (\<lambda>e. map_option ((#) e) (build_elements sn ids visited (idx + 1)))
      else build_elements sn ids visited idx)"

definition interactive_elements :: "dom_snapshot \<Rightarrow> interactive_element list option" where
  "interactive_elements sn =
     Option.bind (element_id_map sn) (\<lambda>ids.
     Option.bind (walk nd_children (sn_nodes sn) [sn_root sn]) (\<lambda>visited. build_elements sn ids visited 0))"

section \<open>Fingerprints and the accessibility outline\<close>

definition fingerprint :: "dom_snapshot \<Rightarrow> nat \<Rightarrow> string option" where
  "fingerprint sn i =
     (case node_of sn i of
        None \<Rightarrow> Some []
      | Some n \<Rightarrow>
          map_option
            (\<lambda>txt. to_lowercase (nd_tag n) @ ''|''
               @ join_with '','' (sort (map (\<lambda>(k, v). k @ ''='' @ v) (nd_attributes n))) @ ''|'' @ take_chars 80 txt)
            (deep_text_content (sn_nodes sn) i))"

definition aria_role :: "dom_snapshot \<Rightarrow> nat \<Rightarrow> string" where
  "aria_role sn i =
     (case node_of sn i of
        None \<Rightarrow> ''generic''
      | Some n \<Rightarrow>
          if \<not> is_element n then ''text''
          else (case explicit_role n of
                  Some r \<Rightarrow> r
                | None \<Rightarrow>
                    (let tag = to_lowercase (nd_tag n)
                     in if tag = ''img'' then ''img''
                        else if tag = ''nav'' then ''navigation''
                        else if tag = ''header'' then ''banner''
                        else if tag = ''footer'' then ''contentinfo''
                        else if tag = ''main'' then ''main''
                        else if tag = ''aside'' then ''complementary''
                        else if is_interactive_tag tag then compute_interactive_role n
                        else ''generic'')))"

definition aria_yaml_renders :: "(nat \<Rightarrow> bool) \<Rightarrow> dom_snapshot \<Rightarrow> nat \<Rightarrow> bool" where
  "aria_yaml_renders visible sn i =
     (case node_of sn i of
        None \<Rightarrow> False
      | Some n \<Rightarrow>
          if \<not> is_element n then False
          else if to_lowercase (nd_tag n) \<in> {''script'', ''style'', ''head''} then False
          else visible i)"

definition aria_yaml_children :: "(nat \<Rightarrow> bool) \<Rightarrow> dom_snapshot \<Rightarrow> nat \<Rightarrow> nat list" where
  "aria_yaml_children visible sn i =
     (case node_of sn i of Some n \<Rightarrow> filter (aria_yaml_renders visible sn) (nd_children n) | None \<Rightarrow> [])"

text \<open>One line; \<open>allocate\<close> threads its own state, as the caller's closure does.\<close>

definition aria_line ::
  "dom_snapshot \<Rightarrow> nat \<Rightarrow> dom_node \<Rightarrow> nat \<Rightarrow> nat list \<Rightarrow> string option \<Rightarrow> string option" where
  "aria_line sn i n depth kids r =
     map_option
       (\<lambda>name.
          concat (replicate depth ''  '') @ ''- '' @ aria_role sn i
          @ (case name of Some nm \<Rightarrow> '' '' @ [CHR 0x22] @ nm @ [CHR 0x22] | None \<Rightarrow> [])
          @ (if eq_ignore_ascii_case (nd_tag n) ''input''
                \<and> map_option str_trim (node_attr n ''type'') = Some ''checkbox'' \<and> has_attr n ''checked''
             then '' [checked]'' else [])
          @ (case r of Some x \<Rightarrow> '' [ref='' @ x @ '']'' | None \<Rightarrow> [])
          @ (if kids \<noteq> [] then '':'' else []) @ [CHR 0x0A])
       (if kids = [] then accessible_name sn i else Some None)"

partial_function (option) render_aria_yaml_nodes ::
  "(nat \<Rightarrow> bool) \<Rightarrow> (nat \<Rightarrow> 's \<Rightarrow> string option \<times> 's) \<Rightarrow> dom_snapshot \<Rightarrow> (nat \<times> nat) list \<Rightarrow> 's \<Rightarrow> string \<Rightarrow> (string \<times> 's) option"
where
  "render_aria_yaml_nodes visible allocate sn work st out =
     (case work of
        [] \<Rightarrow> Some (out, st)
      | v # rest \<Rightarrow>
          (case node_of sn (fst v) of
             None \<Rightarrow> render_aria_yaml_nodes visible allocate sn rest st out
           | Some n \<Rightarrow>
               (let kids = aria_yaml_children visible sn (fst v)
                in Option.bind (aria_line sn (fst v) n (snd v) kids (fst (allocate (fst v) st))) (\<lambda>line.
                     render_aria_yaml_nodes visible allocate sn (map (\<lambda>c. (c, snd v + 1)) kids @ rest)
                       (snd (allocate (fst v) st)) (out @ line)))))"

definition render_aria_yaml ::
  "(nat \<Rightarrow> bool) \<Rightarrow> (nat \<Rightarrow> 's \<Rightarrow> string option \<times> 's) \<Rightarrow> dom_snapshot \<Rightarrow> 's \<Rightarrow> (string \<times> 's) option" where
  "render_aria_yaml visible allocate sn st =
     (let start = (case sn_body sn of Some b \<Rightarrow> b | None \<Rightarrow> sn_root sn)
      in render_aria_yaml_nodes visible allocate sn (map (\<lambda>c. (c, 0)) (aria_yaml_children visible sn start)) st [])"

section \<open>Stable references\<close>

record ref_entry =
  re_node_id :: nat
  re_generation :: "64 word"
  re_fingerprint :: string
  re_selector :: string

record ref_session =
  rs_map :: "(string, ref_entry) dict"
  rs_counter :: nat

type_synonym ref_registry = "(string, ref_session) dict"

definition ref_session_of :: "ref_registry \<Rightarrow> string \<Rightarrow> ref_session" where
  "ref_session_of rr k = (case dict_get rr k of Some s \<Rightarrow> s | None \<Rightarrow> \<lparr>rs_map = [], rs_counter = 0\<rparr>)"

definition ref_allocate ::
  "string \<Rightarrow> nat \<Rightarrow> 64 word \<Rightarrow> string \<Rightarrow> string \<Rightarrow> ref_registry \<Rightarrow> string \<times> ref_registry" where
  "ref_allocate k i generation fp selector rr =
     (let s = ref_session_of rr k;
          r = ''e'' @ show_uint (int (rs_counter s + 1));
          e = \<lparr>re_node_id = i, re_generation = generation, re_fingerprint = fp, re_selector = selector\<rparr>
      in (r, dict_insert k \<lparr>rs_map = dict_insert r e (rs_map s), rs_counter = rs_counter s + 1\<rparr> rr))"

definition ref_resolve :: "string \<Rightarrow> string \<Rightarrow> ref_registry \<Rightarrow> string + ref_entry" where
  "ref_resolve k r rr =
     (case Option.bind (dict_get rr k) (\<lambda>s. dict_get (rs_map s) r) of
        Some e \<Rightarrow> Inr e
      | None \<Rightarrow> Inl (''unknown ref: '' @ r))"

definition ref_clear_session :: "string \<Rightarrow> ref_registry \<Rightarrow> ref_registry" where
  "ref_clear_session k rr = dict_remove k rr"

text \<open>The check before a reference is used: generation, content and selector must still agree.\<close>

definition stale_ref :: "int \<times> string" where
  "stale_ref = (-32000, ''stale ref '' @ em_dash @ '' re-observe'')"

definition resolve_and_validate ::
  "string \<Rightarrow> string \<Rightarrow> ref_registry \<Rightarrow> 64 word \<Rightarrow> dom_snapshot option \<Rightarrow> (int \<times> string + ref_entry \<times> dom_snapshot) option" where
  "resolve_and_validate k r rr generation current =
     (case ref_resolve k r rr of
        Inl e \<Rightarrow> Some (Inl (-32602, e))
      | Inr e \<Rightarrow>
          (case current of
             None \<Rightarrow> Some (Inl stale_ref)
           | Some sn \<Rightarrow>
               if generation \<noteq> re_generation e then Some (Inl stale_ref)
               else Option.bind (fingerprint sn (re_node_id e)) (\<lambda>fp.
                      if fp \<noteq> re_fingerprint e then Some (Inl stale_ref)
                      else map_option (\<lambda>found. if found \<noteq> Some (re_node_id e) then Inl stale_ref else Inr (e, sn))
                             (query_selector sn (re_selector e)))))"

section \<open>Lemmas: every reading ends on a document\<close>

lemma subtree_at:
  "holds nodes par t \<Longrightarrow> i \<in> set (tree_ids t) \<Longrightarrow> \<exists>u q. holds nodes q u \<and> tree_root u = i"
proof (induction t arbitrary: par)
  case (DTree j ts)
  show ?case
  proof (cases "i = j")
    case True
    with DTree.prems(1) show ?thesis by (metis tree_root.simps)
  next
    case False
    with DTree.prems(2) obtain u where u: "u \<in> set ts" "i \<in> set (tree_ids u)" by auto
    with DTree.prems(1) have "holds nodes (Some j) u" by (auto simp: list_all_iff split: option.splits)
    with DTree.IH u show ?thesis by blast
  qed
qed

lemma deep_text_ends:
  assumes "document sn t" and "i \<in> set (tree_ids t)"
  shows "\<exists>txt. deep_text_content (sn_nodes sn) i = Some txt"
  using subtree_at [of "sn_nodes sn" None t i] deep_text_tree assms by (metis document_def)

lemma collect_some_total: "(\<And>x. x \<in> set xs \<Longrightarrow> \<exists>y. f x = Some y) \<Longrightarrow> \<exists>ys. collect_some f xs = Some ys"
  by (induction xs) (auto simp: bind_eq_Some_conv)

lemma element_id_map_ends:
  assumes "document sn t"
  shows "\<exists>ids. element_id_map sn = Some ids"
  using walk_ends [of "\<lambda>n. rev (nd_children n)" "sn_nodes sn" None t] assms
  by (auto simp: element_id_map_def document_def)

text \<open>A walk along child links stays in the tree.\<close>

lemma walk_inside:
  assumes "document sn t" and "\<And>n. set (kids n) \<subseteq> set (nd_children n)"
  shows "walk kids (sn_nodes sn) stack = Some visited \<Longrightarrow> set stack \<subseteq> set (tree_ids t) \<Longrightarrow>
    (i, n) \<in> set visited \<Longrightarrow> i \<in> set (tree_ids t) \<and> dict_get (sn_nodes sn) i = Some n"
proof (induction visited arbitrary: stack)
  case (Cons v visited)
  then show ?case
  proof (induction stack)
    case (Cons j rest)
    have h: "holds (sn_nodes sn) None t" "distinct (tree_ids t)" using assms(1) by (simp_all add: document_def)
    from Cons.prems(3) have j: "j \<in> set (tree_ids t)" by simp
    then obtain m where m: "dict_get (sn_nodes sn) j = Some m" using holds_present [OF h(1)] by blast
    with Cons.prems(2) have w: "v = (j, m)" "walk kids (sn_nodes sn) (kids m @ rest) = Some visited"
      by (auto simp: walk.simps [of _ _ "j # rest"] bind_eq_Some_conv)
    have "set (kids m @ rest) \<subseteq> set (tree_ids t)"
      using tree_links [OF h j m] assms(2) [of m] Cons.prems(3) by auto
    with Cons.prems(1) [OF w(2) this] Cons.prems(4) w(1) j m show ?case by auto
  qed simp
qed simp

lemma element_id_map_targets:
  assumes "document sn t" and "element_id_map sn = Some ids" and "dict_get ids v = Some i"
  shows "i \<in> set (tree_ids t)"
proof -
  obtain visited where visited: "walk (\<lambda>n. rev (nd_children n)) (sn_nodes sn) [sn_root sn] = Some visited"
    and ids: "ids = fold note_id visited []"
    using assms(2) by (auto simp: element_id_map_def)
  have root: "set [sn_root sn] \<subseteq> set (tree_ids t)" using assms(1) tree_root_in [of t] by (simp add: document_def)
  have h: "holds (sn_nodes sn) None t" using assms(1) by (simp add: document_def)
  have "nd_id n \<in> set (tree_ids t)" if "(i, n) \<in> set visited" for i n
    using walk_inside [OF assms(1) _ visited root that] holds_present [OF h, of i] by fastforce
  then have "dict_get (fold note_id visited found) v = Some i \<Longrightarrow> (dict_get found v = Some i \<Longrightarrow> i \<in> set (tree_ids t)) \<Longrightarrow>
      i \<in> set (tree_ids t)" for found
  proof (induction visited arbitrary: found)
    case (Cons w visited)
    have "dict_get (note_id w found) v = Some i \<Longrightarrow> i \<in> set (tree_ids t)"
      using Cons.prems(2) Cons.prems(3) [of "fst w" "snd w"]
      by (auto simp: note_id_def dict_get_insert split: option.splits if_splits)
    from Cons.IH [OF _ this] Cons.prems(1,3) show ?case by auto
  qed simp
  from this [of "[]"] assms(3) ids show ?thesis by simp
qed

lemma accessible_name_ends:
  assumes "document sn t" and "i \<in> set (tree_ids t)" and "element_id_map sn = Some ids"
  shows "\<exists>name. accessible_name_with_id_map sn i ids = Some name"
proof -
  have "\<exists>txt. labelled_text sn ids refs = Some txt" for refs
  proof -
    have "\<exists>y. map_option (\<lambda>txt. if str_trim txt = [] then None else Some (str_trim txt)) (deep_text_content (sn_nodes sn) j) = Some y"
      if "j \<in> set (List.map_filter (dict_get ids) (split_whitespace refs))" for j
    proof -
      from that obtain v where "dict_get ids v = Some j" by (auto simp: List.map_filter_def)
      from deep_text_ends [OF assms(1) element_id_map_targets [OF assms(1,3) this]] show ?thesis by auto
    qed
    from collect_some_total [OF this] show ?thesis by (auto simp: labelled_text_def)
  qed
  moreover obtain content where "deep_text_content (sn_nodes sn) i = Some content" using deep_text_ends [OF assms(1,2)] ..
  moreover obtain n where "node_of sn i = Some n" using document_ancestry [OF assms(1,2)] by blast
  moreover from calculation(1) obtain labelled where
    "(case trimmed_attr n ''aria-labelledby'' of Some refs \<Rightarrow> map_option Some (labelled_text sn ids refs) | None \<Rightarrow> Some None)
     = Some labelled" by (cases "trimmed_attr n ''aria-labelledby''") fastforce+
  ultimately show ?thesis
    unfolding accessible_name_with_id_map_def option.case bind.bind_lunit by (simp split: option.split)
qed

lemma path_steps_ends:
  "ancestry (sn_nodes sn) current as \<Longrightarrow> \<exists>steps. path_steps sn current = Some steps"
proof (induction "sn_nodes sn" current as rule: ancestry.induct)
  case (up_node p a as)
  then obtain steps where "path_steps sn (nd_parent a) = Some steps" by blast
  with up_node(1) show ?case
    by (cases "node_attr a ''id''") (auto simp: path_steps.simps [of _ "Some p"] node_of_def)
qed (simp_all add: path_steps.simps [of _ None] path_steps.simps [of _ "Some _"] node_of_def)

lemma selector_ends:
  assumes "document sn t" and "i \<in> set (tree_ids t)"
  shows "\<exists>sel. css_selector_path sn i = Some sel"
proof -
  from document_ancestry [OF assms] obtain n as where "node_of sn i = Some n" "ancestry (sn_nodes sn) (nd_parent n) as"
    by blast
  then have "ancestry (sn_nodes sn) (Some i) (n # as)" by (auto simp: node_of_def intro: up_node)
  from path_steps_ends [OF this] show ?thesis by (auto simp: css_selector_path_def)
qed

lemma build_elements_ends:
  assumes "document sn t" and "element_id_map sn = Some ids"
    and "\<And>i n. (i, n) \<in> set visited \<Longrightarrow> i \<in> set (tree_ids t) \<and> nd_id n = i"
  shows "\<exists>es. build_elements sn ids visited idx = Some es
    \<and> map ie_node_id es = all_with (\<lambda>n. is_element n \<and> is_interactive_element n) visited
    \<and> map ie_index es = [idx ..< idx + length es]"
  using assms(3)
proof (induction visited arbitrary: idx)
  case (Cons v visited)
  obtain i n where v: "v = (i, n)" by force
  then have i: "i \<in> set (tree_ids t)" "nd_id n = i" using Cons.prems [of i n] by simp_all
  obtain full name sel where "deep_text_content (sn_nodes sn) i = Some full"
      "accessible_name_with_id_map sn i ids = Some name" "css_selector_path sn i = Some sel"
    using deep_text_ends [OF assms(1) i(1)] accessible_name_ends [OF assms(1) i(1) assms(2)] selector_ends [OF assms(1) i(1)]
    by blast
  then have "\<exists>e. build_interactive_element sn ids n idx = Some e \<and> ie_node_id e = i \<and> ie_index e = idx"
    by (simp add: build_interactive_element_def i(2))
  then obtain e where "build_interactive_element sn ids n idx = Some e" "ie_node_id e = i" "ie_index e = idx" by blast
  moreover have "i \<in> set (tree_ids t) \<and> nd_id n = i" if "(i, n) \<in> set visited" for i n using Cons.prems [of i n] that by simp
  from Cons.IH [OF this] obtain es where "build_elements sn ids visited (if is_element n \<and> is_interactive_element n then idx + 1 else idx) = Some es"
    "map ie_node_id es = all_with (\<lambda>n. is_element n \<and> is_interactive_element n) visited"
    "map ie_index es = [(if is_element n \<and> is_interactive_element n then idx + 1 else idx)
       ..< (if is_element n \<and> is_interactive_element n then idx + 1 else idx) + length es]" by blast
  ultimately show ?case by (auto simp: v upt_conv_Cons simp del: upt_Suc)
qed (simp add: all_with_def)

section \<open>Lemmas: paths of several steps\<close>

definition step_ok :: "string \<Rightarrow> bool" where
  "step_ok w \<longleftrightarrow> word_ok w \<and> CHR '','' \<notin> set w \<and> hd w \<noteq> CHR ''.''"

text \<open>No tag is the text \<open>>\<close> and no id holds a space.\<close>

definition ordinary :: "dom_nodes \<Rightarrow> bool" where
  "ordinary nodes \<longleftrightarrow>
     (\<forall>i n. dict_get nodes i = Some n \<longrightarrow>
        nd_tag n \<noteq> ''>'' \<and> (\<forall>v. node_attr n ''id'' = Some v \<longrightarrow> CHR '' '' \<notin> set v))"

lemma join_steps: "join_with '' > '' (w # ws) = join_with '' '' (w # concat (map (\<lambda>x. [''>'', x]) ws))"
proof (induction ws arbitrary: w)
  case (Cons x ws)
  then show ?case by (cases ws) simp_all
qed simp

lemma gt_upper: "list_all (\<lambda>d. ascii_lower d = CHR ''>'' \<longrightarrow> d = CHR ''>'') Enum.enum"
  by code_simp

lemma lower_gt: "to_ascii_lowercase s = ''>'' \<longleftrightarrow> s = ''>''"
proof
  assume "to_ascii_lowercase s = ''>''"
  then obtain c where s: "s = [c]" "ascii_lower c = CHR ''>''" by (auto simp: to_ascii_lowercase_def)
  moreover have "ascii_lower d = CHR ''>'' \<longrightarrow> d = CHR ''>''" for d
    using gt_upper [unfolded list_all_iff] by (simp add: enum_UNIV)
  ultimately show "s = ''>''" by simp
qed (simp add: to_ascii_lowercase_def ascii_lower_def is_ascii_uppercase_def)

lemma gt_never_matches:
  assumes "nd_tag n \<noteq> ''>''"
  shows "\<not> matches_simple n ''>''"
proof -
  have "\<not> eq_ignore_ascii_case (nd_tag n) ''>''"
    using assms lower_gt [of "nd_tag n"] lower_gt [of "''>''"] by (simp add: eq_ignore_ascii_case_def)
  then show ?thesis
    by (simp add: matches_simple_def matches_plain_def strip_prefix_single split_once_def find_sub_single starts_with_def)
qed

lemma ancestry_nodes: "ancestry nodes current as \<Longrightarrow> a \<in> set as \<Longrightarrow> \<exists>i. dict_get nodes i = Some a"
  by (induction rule: ancestry.induct) auto

lemma embeds_mem: "embeds match ps as \<Longrightarrow> p \<in> set ps \<Longrightarrow> \<exists>a \<in> set as. match a p"
  by (induction match ps as rule: embeds.induct) (auto split: if_splits)

lemma steps_words:
  assumes "list_all step_ok (w # x # ws)"
  shows "list_all word_ok (w # concat (map (\<lambda>x. [''>'', x]) (x # ws)))"
    and "CHR '','' \<notin> set (join_with '' > '' (w # x # ws))"
proof -
  have gt: "word_ok ''>''" by code_simp
  have "list_all word_ok (concat (map (\<lambda>x. [''>'', x]) ys))" if "list_all step_ok ys" for ys
    using that gt by (induction ys) (auto simp: step_ok_def)
  with assms show "list_all word_ok (w # concat (map (\<lambda>x. [''>'', x]) (x # ws)))"
    by (simp add: step_ok_def gt)
  have "CHR '','' \<notin> set (join_with '' > '' ys)" if "list_all step_ok ys" for ys
    using that by (induction "'' > ''" ys rule: join_with.induct) (auto simp: step_ok_def)
  with assms show "CHR '','' \<notin> set (join_with '' > '' (w # x # ws))" by blast
qed

lemma single_gap:
  assumes "split_whitespace sel = ps" and "ancestors_match nodes (rev (butlast ps)) (nd_parent n) = Some False"
    and "length ps > 1"
  shows "node_matches_single nodes n sel = Some False"
proof -
  have "split_whitespace ''*'' = [''*'']" by code_simp
  with assms(1,3) have "sel \<noteq> ''*''" by auto
  with assms show ?thesis by (simp add: node_matches_single_def Let_def)
qed

lemma path_never_matches:
  assumes steps: "list_all step_ok (w # x # ws)" and "ordinary nodes" and "ancestry nodes (nd_parent n) as"
  shows "node_matches_selector nodes n (join_with '' > '' (w # x # ws)) = Some False"
proof -
  let ?sel = "join_with '' > '' (w # x # ws)" and ?words = "w # concat (map (\<lambda>x. [''>'', x]) (x # ws))"
  have sel: "?sel = join_with '' '' ?words" by (rule join_steps)
  have words: "split_whitespace ?sel = ?words" unfolding sel using steps_words(1) [OF steps] by (rule split_whitespace_join)
  have comma: "split_on (CHR '','') ?sel = [?sel]" using steps_words(2) [OF steps] by (intro split_by_none) auto
  have trim: "str_trim ?sel = ?sel"
  proof -
    have all: "word_ok u" if "u \<in> set ?words" for u using steps_words(1) [OF steps] that unfolding list_all_iff by blast
    have ascii: "is_ascii_str ?sel" unfolding sel using all by (intro is_ascii_join) (simp only: list_all_iff word_ok_def, blast)
    have "last ?words \<in> set ?words" by (rule last_in_set) simp
    then have ends: "w \<noteq> []" "last ?words \<noteq> []" "word_ok w" "word_ok (last ?words)"
      using all [of w] all [of "last ?words"] by (auto simp: word_ok_def)
    have "hd ?sel = hd w" "?sel \<noteq> []" unfolding sel using join_with_hd [of ?words "'' ''"] ends(1) by (simp_all del: join_with.simps)
    moreover have "last ?sel = last (last ?words)"
      unfolding sel using join_with_last [of ?words "'' ''"] ends(2) by (simp del: join_with.simps)
    ultimately show ?thesis
      using ascii ends(3,4) by (intro str_trim_id) (auto simp: word_ok_def list_all_iff)
  qed
  have inner: "''>'' \<in> set (butlast ?words)" by (cases ws rule: rev_cases) (simp_all add: butlast_append)
  have "\<not> embeds matches_simple (rev (butlast ?words)) as"
  proof
    assume e: "embeds matches_simple (rev (butlast ?words)) as"
    have "''>'' \<in> set (rev (butlast ?words))" using inner unfolding set_rev .
    from embeds_mem [OF e this] obtain a where a: "a \<in> set as" "matches_simple a ''>''" by blast
    from ancestry_nodes [OF assms(3) a(1)] assms(2) have "nd_tag a \<noteq> ''>''" by (auto simp: ordinary_def)
    from gt_never_matches [OF this] a(2) show False by simp
  qed
  then have "ancestors_match nodes (rev (butlast ?words)) (nd_parent n) = Some False"
    using ancestors_match_embeds [OF assms(3)] by simp
  with words have single: "node_matches_single nodes n ?sel = Some False" by (rule single_gap) simp
  show ?thesis unfolding node_matches_selector_def comma by (simp only: any_single.simps trim single) simp
qed

lemma path_never_found:
  assumes "indexed sn t" and "ordinary (sn_nodes sn)" and steps: "list_all step_ok (w # x # ws)"
  shows "query_selector sn (join_with '' > '' (w # x # ws)) = Some None"
proof -
  let ?sel = "join_with '' > '' (w # x # ws)"
  have doc: "document sn t" using assms(1) by (simp add: indexed_def)
  obtain c cs where w: "w = c # cs" "c \<noteq> CHR ''.''" using steps by (cases w) (auto simp: step_ok_def word_ok_def)
  obtain rest where sel: "?sel = c # cs @ CHR '' '' # rest" by (simp add: w)
  have "matched (visit (sn_nodes sn) i) = Some False"
    if "matched = (\<lambda>v. node_matches_selector (sn_nodes sn) (snd v) ?sel)" "i \<in> set (tree_ids t)" for matched i
  proof -
    from document_ancestry [OF doc that(2)] obtain n as where "node_of sn i = Some n" "ancestry (sn_nodes sn) (nd_parent n) as"
      by blast
    with path_never_matches [OF steps assms(2)] show ?thesis by (simp add: that(1) visit_def node_of_def)
  qed
  then have "walk_find (\<lambda>i n. node_matches_selector (sn_nodes sn) n ?sel) (sn_nodes sn) [sn_root sn]
      = Some (map_option fst (find (\<lambda>(i, n). False) (map (visit (sn_nodes sn)) (tree_ids t))))"
    by (intro walk_find_walk [OF document_walk [OF doc]]) (auto simp: visit_def simp del: join_with.simps)
  moreover have "find (\<lambda>(i, n). False) vs = None" for vs :: "(nat \<times> dom_node) list" by (induction vs) auto
  moreover have "dict_get (sn_id_index sn) v = None" if "indices_fresh sn" "CHR '' '' \<in> set v" for v
  proof -
    have "v \<noteq> []" using that(2) by auto
    moreover have "present (sn_nodes sn) (tree_ids t)" using doc by (rule document_present)
    moreover have "first_with (\<lambda>n. is_element n \<and> node_attr n ''id'' = Some v) (map (visit (sn_nodes sn)) is) = None"
      if "present (sn_nodes sn) is" for "is"
      using that \<open>CHR '' '' \<in> set v\<close> assms(2)
      by (induction "is") (fastforce simp: present_def visit_def ordinary_def)+
    ultimately show ?thesis using id_index [of "sn_nodes sn" "tree_ids t" v] assms(1) that(1) by (simp add: indexed_def Let_def)
  qed
  from this [of "cs @ CHR '' '' # rest"] have "simple_selector_first sn ?sel = None"
    unfolding sel using w(2) by (auto simp: simple_selector_first_def strip_prefix_single bare_tag_def)
  ultimately show ?thesis unfolding query_selector_def by simp
qed

lemma dict_get_ref:
  "ref_resolve k (fst (ref_allocate k i generation fp sel rr)) (snd (ref_allocate k i generation fp sel rr))
     = Inr \<lparr>re_node_id = i, re_generation = generation, re_fingerprint = fp, re_selector = sel\<rparr>"
  by (simp add: ref_resolve_def ref_allocate_def Let_def dict_get_insert)

lemma interactive_elements_ends:
  assumes "document sn t"
  shows "\<exists>es. interactive_elements sn = Some es
    \<and> map ie_node_id es = all_with (\<lambda>n. is_element n \<and> is_interactive_element n) (nodes_of sn t)
    \<and> map ie_index es = [0 ..< length es]"
proof -
  obtain ids where ids: "element_id_map sn = Some ids" using element_id_map_ends [OF assms] by blast
  have "i \<in> set (tree_ids t) \<and> nd_id n = i" if "(i, n) \<in> set (nodes_of sn t)" for i n
    using that assms holds_present [of "sn_nodes sn" None t] by (fastforce simp: nodes_of_def visit_def document_def)
  from build_elements_ends [OF assms ids this] document_walk [OF assms] ids show ?thesis
    by (fastforce simp: interactive_elements_def nodes_of_def)
qed

section \<open>Properties\<close>

text \<open>
  C37: \<open>interactive_elements\<close> lists exactly the interactive elements of a document, in document order,
  numbered from 0, and always ends.
\<close>
theorem interactive_elements_exact:
  assumes "document sn t"
  shows "\<exists>es. interactive_elements sn = Some es
    \<and> map ie_node_id es = all_with (\<lambda>n. is_element n \<and> is_interactive_element n) (nodes_of sn t)
    \<and> map ie_index es = [0 ..< length es]"
  by (rule interactive_elements_ends [OF assms])

text \<open>
  A reference whose selector has more than one step is reported as stale the moment it is
  handed out, on the unchanged document: the recorded selector joins its steps with \<open>>\<close>, which
  the selector engine reads as a tag name.
\<close>
theorem multi_step_ref_is_stale:
  assumes "indexed sn t" and "ordinary (sn_nodes sn)"
    and "path_steps sn (Some i) = Some (rev (w # x # ws))" and "list_all step_ok (w # x # ws)"
    and "css_selector_path sn i = Some selector" and "fingerprint sn i = Some fp"
    and "ref_allocate k i generation fp selector rr = (r, rr')"
  shows "resolve_and_validate k r rr' generation (Some sn) = Some (Inl stale_ref)"
proof -
  have "selector = join_with '' > '' (w # x # ws)" using assms(3,5) unfolding css_selector_path_def by simp
  with path_never_found [OF assms(1,2,4)] have "query_selector sn selector = Some None" by simp
  moreover have "ref_resolve k r rr' = Inr \<lparr>re_node_id = i, re_generation = generation, re_fingerprint = fp, re_selector = selector\<rparr>"
    using dict_get_ref [of k i generation fp selector rr] assms(7) by simp
  ultimately show ?thesis using assms(6) by (simp add: resolve_and_validate_def)
qed

text \<open>
  A registry built by allocations and clearings: the references of a session are \<open>e1\<close> up to its
  counter.
\<close>
inductive ref_run :: "ref_registry \<Rightarrow> bool" where
  ref_start: "ref_run []"
| ref_step: "ref_run rr \<Longrightarrow> ref_run (snd (ref_allocate k i generation fp selector rr))"
| ref_clear: "ref_run rr \<Longrightarrow> ref_run (ref_clear_session k rr)"

lemma ref_run_numbered:
  "ref_run rr \<Longrightarrow> dict_get rr k = Some s \<Longrightarrow> dict_get (rs_map s) r = Some e \<Longrightarrow>
     \<exists>m. r = ''e'' @ show_uint (int m) \<and> 0 < m \<and> m \<le> rs_counter s"
proof (induction arbitrary: s r e rule: ref_run.induct)
  case (ref_step rr k' i generation fp selector)
  show ?case
  proof (cases "k = k'")
    case True
    define s' where "s' = ref_session_of rr k"
    have s: "s = \<lparr>rs_map = dict_insert (''e'' @ show_uint (int (rs_counter s' + 1)))
        \<lparr>re_node_id = i, re_generation = generation, re_fingerprint = fp, re_selector = selector\<rparr> (rs_map s'),
        rs_counter = rs_counter s' + 1\<rparr>"
      using ref_step.prems(1) True by (simp add: ref_allocate_def Let_def dict_get_insert s'_def)
    show ?thesis
    proof (cases "r = ''e'' @ show_uint (int (rs_counter s' + 1))")
      case True
      with s show ?thesis by (intro exI [of _ "rs_counter s' + 1"]) simp
    next
      case False
      with ref_step.prems(2) s have "dict_get (rs_map s') r = Some e" by (simp add: dict_get_insert)
      moreover from this have "dict_get rr k = Some s'" by (auto simp: s'_def ref_session_of_def split: option.splits)
      ultimately obtain m where "r = ''e'' @ show_uint (int m) \<and> 0 < m \<and> m \<le> rs_counter s'" using ref_step.IH by blast
      with s show ?thesis by (intro exI [of _ m]) simp
    qed
  next
    case False
    with ref_step show ?thesis by (simp add: ref_allocate_def Let_def dict_get_insert)
  qed
next
  case (ref_clear rr k')
  then show ?case by (cases "k = k'") (auto simp: ref_clear_session_def dict_get_remove)
qed simp

lemma ref_allocate_stable:
  assumes "ref_run rr" and "ref_allocate k' i generation fp selector rr = (r', rr')"
  shows "(\<forall>k r e. ref_resolve k r rr = Inr e \<longrightarrow> ref_resolve k r rr' = Inr e)
    \<and> (\<exists>msg. ref_resolve k' r' rr = Inl msg)
    \<and> ref_resolve k' r' rr' = Inr \<lparr>re_node_id = i, re_generation = generation, re_fingerprint = fp, re_selector = selector\<rparr>"
proof -
  have new: "Option.bind (dict_get rr k') (\<lambda>s. dict_get (rs_map s) r') = None"
  proof (rule ccontr)
    assume "\<not> ?thesis"
    then obtain s e where s: "dict_get rr k' = Some s" "dict_get (rs_map s) r' = Some e"
      by (auto simp: bind_eq_None_conv)
    from ref_run_numbered [OF assms(1) s] obtain m where m: "r' = ''e'' @ show_uint (int m)" "m \<le> rs_counter s" by blast
    moreover have "r' = ''e'' @ show_uint (int (rs_counter s + 1))"
      using assms(2) s(1) by (auto simp: ref_allocate_def Let_def ref_session_of_def)
    ultimately have "int m = int (rs_counter s + 1)" using inj_show_uint [of "int m" "int (rs_counter s + 1)"] by simp
    with m(2) show False by simp
  qed
  have "ref_resolve k r rr' = Inr e" if "ref_resolve k r rr = Inr e" for k r e
  proof (cases "k = k' \<and> r = r'")
    case True
    with that new show ?thesis by (simp add: ref_resolve_def)
  next
    case False
    with that assms(2) show ?thesis
      by (auto simp: ref_resolve_def ref_allocate_def Let_def dict_get_insert ref_session_of_def split: option.splits if_splits)
  qed
  with new dict_get_ref [of k' i generation fp selector rr] assms(2) show ?thesis by (simp add: ref_resolve_def)
qed

text \<open>
  A reference once handed out keeps its entry through every later allocation, and a new one is
  never among the old ones.
\<close>
theorem refs_are_stable:
  assumes "ref_run rr" and "ref_allocate k' i generation fp selector rr = (r', rr')"
  shows "(\<forall>k r e. ref_resolve k r rr = Inr e \<longrightarrow> ref_resolve k r rr' = Inr e)
    \<and> (\<exists>msg. ref_resolve k' r' rr = Inl msg)
    \<and> ref_resolve k' r' rr' = Inr \<lparr>re_node_id = i, re_generation = generation, re_fingerprint = fp, re_selector = selector\<rparr>"
  by (rule ref_allocate_stable [OF assms])

subsection \<open>Witnesses\<close>

definition link_nodes :: dom_nodes where
  "link_nodes =
     [(0, sample_node 0 [] [] [1] None),
      (1, sample_node 1 ''main'' [] [2, 3] (Some 0)),
      (2, sample_node 2 ''a'' [(''href'', ''/'')] [] (Some 1)),
      (3, sample_node 3 ''p'' [] [] (Some 1))]"

definition link_tree :: dom_tree where
  "link_tree = DTree 0 [DTree 1 [DTree 2 [], DTree 3 []]]"

definition link_snapshot :: dom_snapshot where
  "link_snapshot = bump_revision (snapshot_empty\<lparr>sn_nodes := link_nodes\<rparr>)"

lemma link_document: "document link_snapshot link_tree" "indexed link_snapshot link_tree"
  by (simp_all add: document_def indexed_def indices_fresh_def link_snapshot_def link_nodes_def link_tree_def sample_node_def
      snapshot_empty_def bump_revision_def)

theorem interactive_elements_exact_witness:
  "\<exists>es. interactive_elements link_snapshot = Some es \<and> map ie_node_id es = [2] \<and> map ie_index es = [0]"
proof -
  have "all_with (\<lambda>n. is_element n \<and> is_interactive_element n) (nodes_of link_snapshot link_tree) = [2]" by code_simp
  with interactive_elements_exact [OF link_document(1)] obtain es where
    es: "interactive_elements link_snapshot = Some es" "map ie_node_id es = [2]" "map ie_index es = [0 ..< length es]" by auto
  then have "length es = 1" by (metis length_map list.size(3,4) One_nat_def add.left_neutral)
  with es show ?thesis by simp
qed

theorem multi_step_ref_is_stale_witness:
  "resolve_and_validate ''s'' ''e1'' (snd (ref_allocate ''s'' 2 0 ''a|href=/|'' ''main > a'' [])) 0 (Some link_snapshot)
   = Some (Inl stale_ref)"
proof -
  have "ordinary (sn_nodes link_snapshot)"
    by (auto simp: ordinary_def link_snapshot_def link_nodes_def snapshot_empty_def bump_revision_def sample_node_def
        node_attr_def split: if_splits)
  moreover have "path_steps link_snapshot (Some 2) = Some (rev [''main'', ''a''])"
    "list_all step_ok [''main'', ''a'']" "css_selector_path link_snapshot 2 = Some ''main > a''"
    "fingerprint link_snapshot 2 = Some ''a|href=/|''"
    "fst (ref_allocate ''s'' 2 0 ''a|href=/|'' ''main > a'' []) = ''e1''" by code_simp+
  ultimately show ?thesis
    using multi_step_ref_is_stale [OF link_document(2), of 2 "''main''" "''a''" "[]" "''main > a''" "''a|href=/|''" "''s''" 0 "[]"
        "''e1''" "snd (ref_allocate ''s'' 2 0 ''a|href=/|'' ''main > a'' [])"]
    by (metis prod.collapse)
qed

theorem refs_are_stable_witness:
  "ref_resolve ''s'' ''e1'' (snd (ref_allocate ''s'' 3 0 ''p||'' ''p'' (snd (ref_allocate ''s'' 2 0 ''a||'' ''a'' []))))
   = Inr \<lparr>re_node_id = 2, re_generation = 0, re_fingerprint = ''a||'', re_selector = ''a''\<rparr>"
proof -
  let ?rr = "snd (ref_allocate ''s'' 2 0 ''a||'' ''a'' [])"
  have "ref_run ?rr" by (intro ref_step ref_start)
  moreover have "ref_resolve ''s'' ''e1'' ?rr
      = Inr \<lparr>re_node_id = 2, re_generation = 0, re_fingerprint = ''a||'', re_selector = ''a''\<rparr>" by code_simp
  ultimately show ?thesis
    using refs_are_stable [of ?rr "''s''" 3 0 "''p||''" "''p''" "fst (ref_allocate ''s'' 3 0 ''p||'' ''p'' ?rr)"
        "snd (ref_allocate ''s'' 3 0 ''p||'' ''p'' ?rr)"] by simp
qed

end
