(* ===== verification/LoginForm.thy ===== *)
theory LoginForm
  imports DomAccess Account
begin

text \<open>
  The pure part of \<open>oxibrowser-core/src/account/agent_login.rs\<close>: the login form and the second
  factor found in a snapshot, and the pages tried for a login. \<open>None\<close> on the outside means that a
  loop over the snapshot never ends, which a document rules out. The URL library is the record
  \<open>url_lib\<close>.
\<close>

section \<open>Fields of a page\<close>

record field_input =
  fi_selector :: string
  fi_field_name :: string

record login_form =
  lf_username :: field_input
  lf_password :: field_input
  lf_submit :: field_input
  lf_action :: "string option"

datatype mfa_forbidden = Sms | Email

datatype mfa_step = MfaNone | MfaTotp field_input "field_input option" "string option" | MfaEscalate mfa_forbidden

fun forbidden_as_str :: "mfa_forbidden \<Rightarrow> string" where
  "forbidden_as_str Sms = ''sms''"
| "forbidden_as_str Email = ''email''"

definition otp_tokens :: "string list" where
  "otp_tokens =
     [''otp'', ''totp'', ''one-time'', ''one_time'', ''one time'', ''two-factor'', ''two_factor'', ''two factor'',
      ''2fa'', ''verification code'', ''authenticator'']"

definition sms_tokens :: "string list" where
  "sms_tokens = [''sms'', ''text message'', ''texted'', ''phone'', ''mobile'']"

definition email_tokens :: "string list" where
  "email_tokens = [''email'', ''e-mail'']"

definition mentions :: "string list \<Rightarrow> string \<Rightarrow> bool" where
  "mentions tokens haystack \<longleftrightarrow> list_ex (contains_str haystack) tokens"

definition type_or :: "string \<Rightarrow> interactive_element \<Rightarrow> string" where
  "type_or d e = to_ascii_lowercase (case ie_input_type e of Some ty \<Rightarrow> ty | None \<Rightarrow> d)"

text \<open>Enabled text-like inputs with their name, id, placeholder and label in lower case.\<close>

definition haystack :: "interactive_element \<Rightarrow> dom_node \<Rightarrow> string" where
  "haystack e n =
     to_ascii_lowercase
       (join_with '' '' (List.map_filter id [ie_name_attr e, node_attr n ''id'', ie_placeholder e, ie_aria_label e]))"

definition text_inputs_in :: "dom_snapshot \<Rightarrow> interactive_element list \<Rightarrow> (interactive_element \<times> string) list" where
  "text_inputs_in sn es =
     List.map_filter
       (\<lambda>e. if ie_tag e \<noteq> ''input'' \<or> ie_disabled e then None
            else if type_or ''text'' e \<notin> {''text'', ''email'', ''tel'', ''number'', []} then None
            else map_option (\<lambda>n. (e, haystack e n)) (node_of sn (ie_node_id e)))
       es"

definition text_inputs :: "dom_snapshot \<Rightarrow> (interactive_element \<times> string) list option" where
  "text_inputs sn = map_option (text_inputs_in sn) (interactive_elements sn)"

definition field_name :: "dom_snapshot \<Rightarrow> interactive_element \<Rightarrow> string" where
  "field_name sn e =
     (case ie_name_attr e of
        Some name \<Rightarrow> name
      | None \<Rightarrow>
          (case Option.bind (node_of sn (ie_node_id e)) (\<lambda>n. node_attr n ''id'') of
             Some i \<Rightarrow> i
           | None \<Rightarrow> ie_selector e))"

definition field_of :: "dom_snapshot \<Rightarrow> interactive_element \<Rightarrow> field_input" where
  "field_of sn e = \<lparr>fi_selector = ie_selector e, fi_field_name = field_name sn e\<rparr>"

section \<open>The login form\<close>

definition is_password_field :: "interactive_element \<Rightarrow> bool" where
  "is_password_field e \<longleftrightarrow> ie_tag e = ''input'' \<and> \<not> ie_disabled e \<and> ie_input_type e = Some ''password''"

definition is_username_field :: "interactive_element \<Rightarrow> bool" where
  "is_username_field e \<longleftrightarrow>
     ie_tag e = ''input'' \<and> \<not> ie_disabled e \<and> type_or ''text'' e \<in> {''text'', ''email'', ''tel'', []}"

definition password_indices :: "interactive_element list \<Rightarrow> nat list" where
  "password_indices es = map fst (filter (\<lambda>(i, e). is_password_field e) (enumerate 0 es))"

text \<open>The closest companion before the password field, else the first one anywhere.\<close>

definition find_username :: "interactive_element list \<Rightarrow> nat \<Rightarrow> interactive_element option" where
  "find_username es k =
     (case find is_username_field (rev (take k es)) of
        Some e \<Rightarrow> Some e
      | None \<Rightarrow> map_option snd (find (\<lambda>(i, e). i \<noteq> k \<and> is_username_field e) (enumerate 0 es)))"

definition submit_field :: "interactive_element \<Rightarrow> field_input" where
  "submit_field e =
     \<lparr>fi_selector = ie_selector e, fi_field_name = (case ie_name_attr e of Some name \<Rightarrow> name | None \<Rightarrow> [])\<rparr>"

definition is_submit_input :: "interactive_element \<Rightarrow> bool" where
  "is_submit_input e \<longleftrightarrow> ie_tag e = ''input'' \<and> type_or [] e = ''submit''"

definition is_submit_button :: "interactive_element \<Rightarrow> bool" where
  "is_submit_button e \<longleftrightarrow>
     ie_tag e = ''button''
     \<and> (type_or [] e = ''submit'' \<or> ie_role e = ''button''
        \<or> mentions [''sign in'', ''log in'', ''login'', ''submit'', ''continue''] (to_ascii_lowercase (ie_text e)))"

fun submit_from :: "field_input option \<Rightarrow> interactive_element list \<Rightarrow> field_input option" where
  "submit_from fallback [] = fallback"
| "submit_from fallback (e # es) =
     (if ie_disabled e then submit_from fallback es
      else if is_submit_input e then Some (submit_field e)
      else if fallback = None \<and> is_submit_button e then submit_from (Some (submit_field e)) es
      else submit_from fallback es)"

definition detect_submit :: "interactive_element list \<Rightarrow> field_input option" where
  "detect_submit es = submit_from None es"

partial_function (option) form_action_from :: "dom_nodes \<Rightarrow> nat option \<Rightarrow> string option option" where
  "form_action_from nodes current =
     (case current of
        None \<Rightarrow> Some None
      | Some i \<Rightarrow>
          (case dict_get nodes i of
             None \<Rightarrow> Some None
           | Some n \<Rightarrow>
               if eq_ignore_ascii_case (nd_tag n) ''form'' then Some (nonblank_attr n ''action'')
               else form_action_from nodes (nd_parent n)))"

declare form_action_from.simps [code]

definition enclosing_form_action_of :: "dom_snapshot \<Rightarrow> nat \<Rightarrow> string option option" where
  "enclosing_form_action_of sn i =
     (case node_of sn i of None \<Rightarrow> Some None | Some n \<Rightarrow> form_action_from (sn_nodes sn) (nd_parent n))"

definition login_form_in :: "dom_snapshot \<Rightarrow> interactive_element list \<Rightarrow> login_form option option" where
  "login_form_in sn es =
     (case password_indices es of
        [k] \<Rightarrow>
          (case find_username es k of
             None \<Rightarrow> Some None
           | Some u \<Rightarrow>
               (case detect_submit es of
                  None \<Rightarrow> Some None
                | Some submit \<Rightarrow>
                    map_option
                      (\<lambda>action. Some \<lparr>lf_username = field_of sn u, lf_password = field_of sn (es ! k),
                                       lf_submit = submit, lf_action = action\<rparr>)
                      (enclosing_form_action_of sn (ie_node_id (es ! k)))))
      | _ \<Rightarrow> Some None)"

definition detect_login_form :: "dom_snapshot \<Rightarrow> login_form option option" where
  "detect_login_form sn = Option.bind (interactive_elements sn) (login_form_in sn)"

section \<open>The second factor\<close>

fun mfa_step_in ::
  "dom_snapshot \<Rightarrow> interactive_element list \<Rightarrow> (interactive_element \<times> string) list \<Rightarrow> mfa_step option" where
  "mfa_step_in sn es [] = Some MfaNone"
| "mfa_step_in sn es ((e, h) # rest) =
     (if mentions sms_tokens h then Some (MfaEscalate Sms)
      else if mentions email_tokens h then Some (MfaEscalate Email)
      else if mentions otp_tokens h
      then map_option (\<lambda>action. MfaTotp (field_of sn e) (detect_submit es) action)
             (enclosing_form_action_of sn (ie_node_id e))
      else mfa_step_in sn es rest)"

definition detect_mfa_step :: "dom_snapshot \<Rightarrow> mfa_step option" where
  "detect_mfa_step sn =
     Option.bind (interactive_elements sn) (\<lambda>es. Option.bind (text_inputs sn) (mfa_step_in sn es))"

section \<open>Where to look\<close>

record url_lib =
  ul_parse :: "string \<Rightarrow> string + url"
  ul_join :: "url \<Rightarrow> string \<Rightarrow> string + url"
  ul_set_path :: "string \<Rightarrow> url \<Rightarrow> url"
  ul_drop_query :: "url \<Rightarrow> url"
  ul_drop_fragment :: "url \<Rightarrow> url"
  ul_form :: "(string \<times> string) list \<Rightarrow> string"

definition form_post_url :: "url_lib \<Rightarrow> url \<Rightarrow> string option \<Rightarrow> core_error + url" where
  "form_post_url ul page action =
     (case action of
        None \<Rightarrow> Inr page
      | Some raw \<Rightarrow>
          map_err (\<lambda>e. account_error (''form action '' @ debug_str raw @ '' does not resolve: '' @ e)) (ul_join ul page raw))"

definition form_body :: "url_lib \<Rightarrow> (string \<times> string) list \<Rightarrow> string" where
  "form_body ul pairs = ul_form ul pairs"

definition login_paths :: "string list" where
  "login_paths = [''login'', ''signin'', ''session'', ''auth'']"

definition base_of :: "url_lib \<Rightarrow> url \<Rightarrow> url" where
  "base_of ul u = ul_drop_fragment ul (ul_drop_query ul (ul_set_path ul [] u))"

text \<open>\<open>push\<close> of the closure: nothing is listed twice.\<close>

definition push_url :: "url \<Rightarrow> url list \<Rightarrow> url list" where
  "push_url u out = (if list_ex (\<lambda>e. url_as_str e = url_as_str u) out then out else out @ [u])"

definition push_with_paths :: "url_lib \<Rightarrow> url \<Rightarrow> url list \<Rightarrow> url list" where
  "push_with_paths ul u out = fold (\<lambda>p. push_url (ul_set_path ul (''/'' @ p) u)) login_paths (push_url u out)"

definition login_candidates :: "url_lib \<Rightarrow> account_record \<Rightarrow> string list \<Rightarrow> url list" where
  "login_candidates ul r hints =
     (let probe_url = Option.bind (ac_probe r) (\<lambda>p. result_ok (ul_parse ul (pc_url p)));
          hint_urls = map (base_of ul) (List.map_filter (\<lambda>h. result_ok (ul_parse ul h)) hints);
          base = (case probe_url of
                    Some u \<Rightarrow> Some (base_of ul u)
                  | None \<Rightarrow> result_ok (ul_parse ul (''https://'' @ ac_scope r @ ''/'')))
      in case base of
           None \<Rightarrow> []
         | Some b \<Rightarrow>
             push_with_paths ul b
               (fold (push_with_paths ul) hint_urls (case probe_url of Some u \<Rightarrow> push_url u [] | None \<Rightarrow> [])))"

section \<open>Lemmas\<close>

lemma form_action_ends: "ancestry nodes current as \<Longrightarrow> \<exists>action. form_action_from nodes current = Some action"
proof (induction rule: ancestry.induct)
  case (up_node nodes p a as)
  then show ?case by (simp add: form_action_from.simps [of _ "Some p"])
qed (simp_all add: form_action_from.simps [of _ None] form_action_from.simps [of _ "Some _"])

lemma enclosing_action_ends:
  assumes "document sn t" and "i \<in> set (tree_ids t)"
  shows "\<exists>action. enclosing_form_action_of sn i = Some action"
  using document_ancestry [OF assms] form_action_ends by (fastforce simp: enclosing_form_action_of_def)

lemma password_indices_Cons:
  "map fst (filter (\<lambda>(i, e). P e) (enumerate k (e # es)))
     = (if P e then [k] else []) @ map fst (filter (\<lambda>(i, e). P e) (enumerate (Suc k) es))"
  by simp

lemma password_indices_length: "length (password_indices es) = length (filter is_password_field es)"
proof -
  have "length (filter (\<lambda>(i, e). P e) (enumerate k es)) = length (filter P es)" for k and P :: "interactive_element \<Rightarrow> bool"
    by (induction es arbitrary: k) auto
  then show ?thesis by (simp add: password_indices_def)
qed

lemma password_index:
  assumes "k \<in> set (password_indices es)"
  shows "k < length es \<and> is_password_field (es ! k)"
  using assms by (auto simp: password_indices_def in_set_enumerate_eq)

text \<open>A companion is never the password field: the types exclude each other.\<close>

lemma username_not_password: "is_username_field e \<Longrightarrow> \<not> is_password_field e"
proof
  assume "is_username_field e" "is_password_field e"
  moreover have "to_ascii_lowercase ''password'' \<notin> {''text'', ''email'', ''tel'', []}" by code_simp
  ultimately show False by (simp add: is_username_field_def is_password_field_def type_or_def)
qed

lemma find_username_Some: "find_username es k = Some e \<Longrightarrow> e \<in> set es \<and> is_username_field e"
proof -
  assume u: "find_username es k = Some e"
  have find: "find P xs = Some x \<Longrightarrow> x \<in> set xs \<and> P x" for P :: "'b \<Rightarrow> bool" and xs x
    by (auto simp: find_Some_iff)
  show "e \<in> set es \<and> is_username_field e"
  proof (cases "find is_username_field (rev (take k es))")
    case (Some e')
    with u find [OF Some] show ?thesis by (auto simp: find_username_def dest: in_set_takeD)
  next
    case None
    with u obtain i where "find (\<lambda>(i, e). i \<noteq> k \<and> is_username_field e) (enumerate 0 es) = Some (i, e)"
      by (auto simp: find_username_def)
    from find [OF this] show ?thesis by (auto simp: in_set_enumerate_eq)
  qed
qed

lemma find_username_None:
  assumes "k < length es" and "is_password_field (es ! k)"
  shows "find_username es k = None \<longleftrightarrow> (\<forall>e \<in> set es. \<not> is_username_field e)"
proof
  assume none: "find_username es k = None"
  show "\<forall>e \<in> set es. \<not> is_username_field e"
  proof (intro ballI notI)
    fix e assume e: "e \<in> set es" "is_username_field e"
    then obtain j where j: "j < length es" "es ! j = e" by (auto simp: in_set_conv_nth)
    with e assms username_not_password have "j \<noteq> k" by auto
    with j e none show False
      by (auto simp: find_username_def find_None_iff in_set_enumerate_eq split: option.splits)
  qed
next
  assume "\<forall>e \<in> set es. \<not> is_username_field e"
  then show "find_username es k = None" using find_username_Some by (cases "find_username es k") fastforce+
qed

definition is_submit :: "interactive_element \<Rightarrow> bool" where
  "is_submit e \<longleftrightarrow> \<not> ie_disabled e \<and> (is_submit_input e \<or> is_submit_button e)"

lemma submit_from_None: "submit_from f es = None \<longleftrightarrow> f = None \<and> (\<forall>e \<in> set es. \<not> is_submit e)"
  by (induction f es rule: submit_from.induct) (auto simp: is_submit_def)

lemma submit_from_Some:
  "submit_from f es = Some s \<Longrightarrow> f = Some s \<or> (\<exists>e \<in> set es. is_submit e \<and> s = submit_field e)"
  by (induction f es rule: submit_from.induct) (auto simp: is_submit_def split: if_splits)

lemma interactive_in_document:
  assumes "document sn t" and "interactive_elements sn = Some es" and "e \<in> set es"
  shows "ie_node_id e \<in> set (tree_ids t)"
proof -
  from interactive_elements_ends [OF assms(1)] assms(2)
  have "map ie_node_id es = all_with (\<lambda>n. is_element n \<and> is_interactive_element n) (nodes_of sn t)" by simp
  moreover from assms(3) have "ie_node_id e \<in> set (map ie_node_id es)" by simp
  ultimately show ?thesis by (auto simp: all_with_def nodes_of_def visit_def)
qed

lemma mfa_step_cases:
  "mfa_step_in sn es hs = Some (MfaTotp i s a) \<Longrightarrow>
     \<exists>before e h after. hs = before @ (e, h) # after \<and> i = field_of sn e
       \<and> (\<forall>(e', h') \<in> set before. \<not> mentions (sms_tokens @ email_tokens @ otp_tokens) h')
       \<and> \<not> mentions (sms_tokens @ email_tokens) h \<and> mentions otp_tokens h"
proof (induction sn es hs rule: mfa_step_in.induct)
  case (2 sn es e h rest)
  show ?case
  proof (cases "mentions (sms_tokens @ email_tokens @ otp_tokens) h")
    case True
    with "2.prems" have "i = field_of sn e \<and> \<not> mentions (sms_tokens @ email_tokens) h \<and> mentions otp_tokens h"
      by (auto simp: mentions_def split: if_splits)
    then show ?thesis by (intro exI [of _ "[]"]) auto
  next
    case False
    with "2.IH" "2.prems" obtain before e' h' after where
      "rest = before @ (e', h') # after \<and> i = field_of sn e'
       \<and> (\<forall>(e', h') \<in> set before. \<not> mentions (sms_tokens @ email_tokens @ otp_tokens) h')
       \<and> \<not> mentions (sms_tokens @ email_tokens) h' \<and> mentions otp_tokens h'"
      by (auto simp: mentions_def)
    with False show ?thesis by (intro exI [of _ "(e, h) # before"]) auto
  qed
qed simp

lemma push_url_distinct: "distinct (map url_as_str out) \<Longrightarrow> distinct (map url_as_str (push_url u out))"
  by (auto simp: push_url_def list_ex_iff)

lemma fold_push_distinct:
  "distinct (map url_as_str out) \<Longrightarrow> distinct (map url_as_str (fold (\<lambda>p. push_url (f p)) ps out))"
  by (induction ps arbitrary: out) (simp_all add: push_url_distinct)

lemma push_with_paths_distinct:
  "distinct (map url_as_str out) \<Longrightarrow> distinct (map url_as_str (push_with_paths ul u out))"
  by (simp add: push_with_paths_def fold_push_distinct push_url_distinct)

lemma push_url_keeps: "\<exists>more. push_url u out = out @ more"
  by (simp add: push_url_def)

lemma fold_push_keeps: "\<exists>more. fold (\<lambda>p. push_url (f p)) ps out = out @ more"
proof (induction ps arbitrary: out)
  case (Cons p ps)
  from push_url_keeps [of "f p" out] Cons [of "push_url (f p) out"] show ?case by auto
qed simp

lemma push_with_paths_keeps: "\<exists>more. push_with_paths ul u out = out @ more"
  using fold_push_keeps [of "\<lambda>p. ul_set_path ul (''/'' @ p) u" login_paths "push_url u out"] push_url_keeps [of u out]
  by (auto simp: push_with_paths_def)

lemma fold_paths_keeps: "\<exists>more. fold (push_with_paths ul) us out = out @ more"
proof (induction us arbitrary: out)
  case (Cons u us)
  from push_with_paths_keeps [of ul u out] Cons [of "push_with_paths ul u out"] show ?case by auto
qed simp

lemma fold_paths_distinct:
  "distinct (map url_as_str out) \<Longrightarrow> distinct (map url_as_str (fold (push_with_paths ul) us out))"
  by (induction us arbitrary: out) (simp_all add: push_with_paths_distinct)

section \<open>Properties\<close>

text \<open>
  On a document the search for a login form ends, and it finds one exactly when there is a single
  enabled password input, an enabled text-like companion and a submit control; its password
  field is that input and its companion is another element. Two password inputs fail closed.
\<close>
theorem login_form_exact:
  assumes "document sn t" and "interactive_elements sn = Some es"
  shows "\<exists>r. detect_login_form sn = Some r
    \<and> (r \<noteq> None \<longleftrightarrow> length (filter is_password_field es) = 1
         \<and> (\<exists>e \<in> set es. is_username_field e) \<and> (\<exists>e \<in> set es. is_submit e))
    \<and> (\<forall>f. r = Some f \<longrightarrow>
         (\<exists>p u s. filter is_password_field es = [p] \<and> u \<in> set es \<and> is_username_field u \<and> u \<noteq> p
            \<and> s \<in> set es \<and> is_submit s \<and> lf_password f = field_of sn p \<and> lf_username f = field_of sn u
            \<and> lf_submit f = submit_field s))"
proof (cases "length (filter is_password_field es) = 1")
  case False
  with password_indices_length [of es] have "login_form_in sn es = Some None"
    by (auto simp: login_form_in_def split: list.splits)
  with False assms(2) show ?thesis by (simp add: detect_login_form_def)
next
  case True
  then have "length (password_indices es) = 1" by (simp add: password_indices_length)
  then obtain k where k: "password_indices es = [k]" by (auto simp: length_Suc_conv)
  then have kth: "k < length es" "is_password_field (es ! k)" using password_index [of k es] by simp_all
  have only: "filter is_password_field es = [es ! k]"
  proof -
    have "es ! k \<in> set (filter is_password_field es)" using kth by simp
    moreover from True obtain y where "filter is_password_field es = [y]" by (auto simp: length_Suc_conv)
    ultimately show ?thesis by (metis list.set_intros(1) set_ConsD empty_iff empty_set)
  qed
  obtain action where action: "enclosing_form_action_of sn (ie_node_id (es ! k)) = Some action"
    using enclosing_action_ends [OF assms(1) interactive_in_document [OF assms nth_mem [OF kth(1)]]] by blast
  show ?thesis
  proof (cases "find_username es k")
    case None
    with k find_username_None [OF kth] assms(2) show ?thesis by (simp add: detect_login_form_def login_form_in_def)
  next
    case u: (Some u)
    note u' = find_username_Some [OF u]
    show ?thesis
    proof (cases "detect_submit es")
      case None
      then have "\<forall>e \<in> set es. \<not> is_submit e" by (simp add: detect_submit_def submit_from_None)
      with None k u assms(2) show ?thesis by (simp add: detect_login_form_def login_form_in_def)
    next
      case s: (Some sub)
      then obtain e where e: "e \<in> set es" "is_submit e" "sub = submit_field e"
        using submit_from_Some by (fastforce simp: detect_submit_def)
      have "u \<noteq> es ! k" using u' kth username_not_password by auto
      with k u s e u' action only assms(2) show ?thesis
        by (auto simp: detect_login_form_def login_form_in_def)
    qed
  qed
qed

text \<open>
  The engine types a one-time code only into a field that asks for one and for no factor of the
  forbidden list, and only when no earlier text field speaks of any factor.
\<close>
theorem totp_field_is_not_forbidden:
  assumes "detect_mfa_step sn = Some (MfaTotp input submit action)" and "text_inputs sn = Some hs"
  shows "\<exists>before e h after. hs = before @ (e, h) # after \<and> input = field_of sn e
    \<and> mentions otp_tokens h \<and> \<not> mentions (sms_tokens @ email_tokens) h
    \<and> (\<forall>(e', h') \<in> set before. \<not> mentions (sms_tokens @ email_tokens @ otp_tokens) h')"
  using assms mfa_step_cases [of sn _ hs] by (fastforce simp: detect_mfa_step_def bind_eq_Some_conv)

text \<open>
  The pages tried for a login are pairwise different, and the probe's page comes first.
\<close>
theorem login_candidates_distinct:
  "distinct (map url_as_str (login_candidates ul r hints))
   \<and> (\<forall>p u. ac_probe r = Some p \<and> ul_parse ul (pc_url p) = Inr u \<longrightarrow>
        (\<exists>rest. login_candidates ul r hints = u # rest))"
proof -
  have "distinct (map url_as_str (login_candidates ul r hints))"
    by (auto simp: login_candidates_def Let_def push_with_paths_distinct fold_paths_distinct push_url_def split: option.split)
  moreover have "\<exists>rest. login_candidates ul r hints = u # rest"
    if "ac_probe r = Some p" "ul_parse ul (pc_url p) = Inr u" for p u
  proof -
    let ?hints = "map (base_of ul) (List.map_filter (\<lambda>h. result_ok (ul_parse ul h)) hints)"
    obtain more where "fold (push_with_paths ul) ?hints [u] = [u] @ more" using fold_paths_keeps by blast
    moreover obtain more' where "push_with_paths ul (base_of ul u) ([u] @ more) = ([u] @ more) @ more'"
      using push_with_paths_keeps by blast
    ultimately show ?thesis using that by (simp add: login_candidates_def push_url_def)
  qed
  ultimately show ?thesis by blast
qed

subsection \<open>A login page\<close>

definition login_nodes :: dom_nodes where
  "login_nodes =
     [(0, sample_node 0 [] [] [1] None),
      (1, sample_node 1 ''form'' [(''action'', ''https://evil.test/take'')] [2, 3, 4] (Some 0)),
      (2, sample_node 2 ''input'' [(''name'', ''email''), (''id'', ''who''), (''type'', ''email'')] [] (Some 1)),
      (3, sample_node 3 ''input'' [(''name'', ''pw''), (''id'', ''pw''), (''type'', ''password'')] [] (Some 1)),
      (4, sample_node 4 ''button'' [(''id'', ''go'')] [] (Some 1))]"

definition login_tree :: dom_tree where
  "login_tree = DTree 0 [DTree 1 [DTree 2 [], DTree 3 [], DTree 4 []]]"

definition login_page :: dom_snapshot where
  "login_page = snapshot_empty\<lparr>sn_nodes := login_nodes\<rparr>"

lemma login_document: "document login_page login_tree"
  by (simp add: document_def login_page_def login_nodes_def login_tree_def sample_node_def snapshot_empty_def)

lemma login_page_form:
  "detect_login_form login_page
   = Some (Some \<lparr>lf_username = \<lparr>fi_selector = ''#who'', fi_field_name = ''email''\<rparr>,
      lf_password = \<lparr>fi_selector = ''#pw'', fi_field_name = ''pw''\<rparr>,
      lf_submit = \<lparr>fi_selector = ''#go'', fi_field_name = []\<rparr>, lf_action = Some ''https://evil.test/take''\<rparr>)"
  by code_simp

theorem login_form_exact_witness:
  "\<exists>es r. interactive_elements login_page = Some es \<and> detect_login_form login_page = Some r
    \<and> (r \<noteq> None \<longleftrightarrow> length (filter is_password_field es) = 1
         \<and> (\<exists>e \<in> set es. is_username_field e) \<and> (\<exists>e \<in> set es. is_submit e))"
proof -
  obtain es where "interactive_elements login_page = Some es" using interactive_elements_ends [OF login_document] by blast
  with login_form_exact [OF login_document this] show ?thesis by blast
qed

text \<open>
  A login page shown again after a wrong password counts as a forbidden second factor as soon as
  its user name field speaks of an email address or a phone, so the flow escalates instead of
  making its second attempt.
\<close>
theorem login_page_shown_again_escalates:
  "detect_login_form login_page \<noteq> Some None \<and> detect_mfa_step login_page = Some (MfaEscalate Email)"
  by (rule conjI) (simp add: login_page_form, code_simp)

definition code_page :: dom_snapshot where
  "code_page = snapshot_empty\<lparr>sn_nodes :=
     [(0, sample_node 0 [] [] [1] None),
      (1, sample_node 1 ''form'' [] [2, 3] (Some 0)),
      (2, sample_node 2 ''input'' [(''name'', ''q''), (''id'', ''q'')] [] (Some 1)),
      (3, sample_node 3 ''input'' [(''name'', ''OTP''), (''id'', ''code'')] [] (Some 1))]\<rparr>"

theorem totp_field_is_not_forbidden_witness:
  "\<exists>e h. (e, h) \<in> set (the (text_inputs code_page)) \<and> field_of code_page e = \<lparr>fi_selector = ''#code'', fi_field_name = ''OTP''\<rparr>
     \<and> mentions otp_tokens h \<and> \<not> mentions (sms_tokens @ email_tokens) h"
proof -
  have "detect_mfa_step code_page = Some (MfaTotp \<lparr>fi_selector = ''#code'', fi_field_name = ''OTP''\<rparr> None None)" by code_simp
  moreover have "text_inputs code_page \<noteq> None" by code_simp
  ultimately show ?thesis using totp_field_is_not_forbidden [of code_page] by fastforce
qed

end
