(* ===== verification/LoginSession.thy ===== *)
theory LoginSession
  imports LoginForm Manager Detector
begin

text \<open>
  What the login flows of \<open>oxibrowser-core/src/account\<close> share: the live page they drive, as a
  record of its operations on an abstract state (\<open>session_ops\<close>); the events they publish
  (\<open>orchestrator.rs\<close>); the evidence the detector reads from the page (\<open>detector.rs\<close>). A flow is a
  function from the state to its value and the state after it, or one of the two ways not to
  return: a panic, or a loop that never ends.
\<close>

section \<open>Flows\<close>

datatype 'a flow = Value 'a | Panicked | Endless

type_synonym ('a, 'st) act = "'st \<Rightarrow> ('a \<times> 'st) flow"

definition give :: "'a \<Rightarrow> ('a, 'st) act" where
  "give a st = Value (a, st)"

definition then_do :: "('a, 'st) act \<Rightarrow> ('a \<Rightarrow> ('b, 'st) act) \<Rightarrow> ('b, 'st) act" where
  "then_do m f st = (case m st of Value (a, st') \<Rightarrow> f a st' | Panicked \<Rightarrow> Panicked | Endless \<Rightarrow> Endless)"

text \<open>The operator \<open>?\<close>: an error returns at once.\<close>

definition try_do :: "('e + 'a, 'st) act \<Rightarrow> ('a \<Rightarrow> ('e + 'b, 'st) act) \<Rightarrow> ('e + 'b, 'st) act" where
  "try_do m f = then_do m (\<lambda>res. case res of Inl e \<Rightarrow> give (Inl e) | Inr a \<Rightarrow> f a)"

definition change :: "('st \<Rightarrow> 'st) \<Rightarrow> (unit, 'st) act" where
  "change f st = Value ((), f st)"

definition look :: "('st \<Rightarrow> 'a) \<Rightarrow> ('a, 'st) act" where
  "look f st = Value (f st, st)"

definition loop_result :: "'a option \<Rightarrow> ('a, 'st) act" where
  "loop_result r st = (case r of Some a \<Rightarrow> Value (a, st) | None \<Rightarrow> Endless)"

definition run_result :: "'a run \<Rightarrow> ('a, 'st) act" where
  "run_result r st = (case r of Ret a \<Rightarrow> Value (a, st) | Panic \<Rightarrow> Panicked)"

section \<open>The page\<close>

record 's session_ops =
  so_navigate :: "string \<Rightarrow> 's \<Rightarrow> (core_error + unit) \<times> 's"
  so_snapshot :: "'s \<Rightarrow> dom_snapshot option \<times> 's"
  so_evaluate :: "string \<Rightarrow> 's \<Rightarrow> (core_error + unit) \<times> 's"
  so_post :: "string \<Rightarrow> string \<Rightarrow> string \<Rightarrow> 's \<Rightarrow> (core_error + unit) \<times> 's"
  so_http :: "url \<Rightarrow> 's \<Rightarrow> http_answer \<times> 's"
  so_fetch_challenge :: "url \<Rightarrow> nat \<Rightarrow> 's \<Rightarrow> (core_error + detected_challenge option) \<times> 's"
  so_import :: "storage_state \<Rightarrow> 's \<Rightarrow> (core_error + unit) \<times> 's"
  so_export_scope :: "'s \<Rightarrow> string \<Rightarrow> storage_state"
  so_effective_ua :: "'s \<Rightarrow> string"
  so_cookies :: "'s \<Rightarrow> cookie_entry list"
  so_current_url :: "'s \<Rightarrow> url option"
  so_history :: "'s \<Rightarrow> url list"
  so_expired :: "'s \<Rightarrow> bool \<times> 's"
  so_sleep :: "'s \<Rightarrow> 's"

section \<open>Evidence from the page\<close>

record pre_login_snapshot =
  pl_cookie_keys :: "string list"
  pl_storage_keys :: "string list"

definition pre_login_default :: pre_login_snapshot where
  "pre_login_default = \<lparr>pl_cookie_keys = [], pl_storage_keys = []\<rparr>"

definition detector_new :: "web_env \<Rightarrow> string \<Rightarrow> core_error + string" where
  "detector_new env scope = res_bind (validate_scope env scope) (\<lambda>_. Inr scope)"

text \<open>A \<open>BTreeSet\<close> of strings: sorted, without repetition.\<close>

definition btree_set :: "string list \<Rightarrow> string list" where
  "btree_set xs = sort (remdups xs)"

definition scope_storage_keys :: "'s session_ops \<Rightarrow> string \<Rightarrow> 's \<Rightarrow> string list" where
  "scope_storage_keys ops scope s =
     btree_set (concat (map (\<lambda>o'. map fst (os_local_storage o')) (ss_origins (so_export_scope ops s scope))))"

definition snapshot_session :: "'s session_ops \<Rightarrow> string \<Rightarrow> 's \<Rightarrow> pre_login_snapshot" where
  "snapshot_session ops scope s =
     \<lparr>pl_cookie_keys = btree_set (map cookie_key (so_cookies ops s)),
      pl_storage_keys = scope_storage_keys ops scope s\<rparr>"

definition input_from_session ::
  "'s session_ops \<Rightarrow> string \<Rightarrow> pre_login_snapshot \<Rightarrow> string option \<Rightarrow> bool \<Rightarrow> 's \<Rightarrow> detection_input" where
  "input_from_session ops scope baseline dom_html explicit s =
     \<lparr>di_cookies = so_cookies ops s,
      di_baseline_cookie_keys = pl_cookie_keys baseline,
      di_current_path = map_option url_path (so_current_url ops s),
      di_history_paths = map url_path (so_history ops s),
      di_dom_html = dom_html,
      di_local_storage_keys = scope_storage_keys ops scope s,
      di_baseline_storage_keys = pl_storage_keys baseline,
      di_explicit_success = explicit\<rparr>"

section \<open>Events\<close>

datatype account_event =
    StateChanged string string string "string option" \<comment> \<open>account, from, to, detail\<close>
  | LoginChanged string string string \<comment> \<open>login id, account, state\<close>
  | AgentLogin string string string string "string option" \<comment> \<open>login id, account, agent, state, detail\<close>

text \<open>The script that types a value into a field; \<open>quote\<close> is \<open>serde_json::to_string\<close>.\<close>

definition script_line :: "string \<Rightarrow> string" where
  "script_line l = CHR 0x0A # ''            '' @ l"

definition js_fill :: "(string \<Rightarrow> string) \<Rightarrow> string \<Rightarrow> string \<Rightarrow> string" where
  "js_fill quote selector v =
     ''(function() {''
     @ concat (map script_line
         [''var el = document.querySelector('' @ quote selector @ '');'',
          ''if (!el) return null;'',
          ''if (el.tagName === 'INPUT' || el.tagName === 'TEXTAREA') {'',
          ''    el.focus();'',
          ''    var proto = el.tagName === 'TEXTAREA'' @ [CHR 0x27],
          ''        ? window.HTMLTextAreaElement && window.HTMLTextAreaElement.prototype'',
          ''        : window.HTMLInputElement && window.HTMLInputElement.prototype;'',
          ''    var setter = proto && Object.getOwnPropertyDescriptor(proto, 'value');'',
          ''    if (setter && setter.set) {'',
          ''        setter.set.call(el, '' @ quote v @ '');'',
          ''    } else {'',
          ''        el.value = '' @ quote v @ '';'',
          ''    }'',
          ''    el.dispatchEvent(new Event('input', { bubbles: true, cancelable: true }));'',
          ''    el.dispatchEvent(new Event('change', { bubbles: true, cancelable: true }));'',
          ''} else {'',
          ''    el.textContent = '' @ quote v @ '';'',
          ''    el.dispatchEvent(new Event('input', { bubbles: true, cancelable: true }));'',
          ''    el.dispatchEvent(new Event('change', { bubbles: true, cancelable: true }));'',
          ''}'',
          ''return el.tagName;''])
     @ CHR 0x0A # ''        })()''"

section \<open>Reasoning about flows\<close>

text \<open>What holds of the value and the state when a flow returns.\<close>

definition wp :: "('a, 'st) act \<Rightarrow> ('a \<Rightarrow> 'st \<Rightarrow> bool) \<Rightarrow> 'st \<Rightarrow> bool" where
  "wp m Q st = (case m st of Value (a, st') \<Rightarrow> Q a st' | _ \<Rightarrow> True)"

named_theorems wp_simps

lemma wp_give [wp_simps]: "wp (give a) Q st = Q a st"
  by (simp add: wp_def give_def)

lemma wp_then [wp_simps]: "wp (then_do m f) Q st = wp m (\<lambda>a. wp (f a) Q) st"
  by (simp add: wp_def then_do_def split: flow.split)

lemma wp_try [wp_simps]: "wp (try_do m f) Q st = wp m (\<lambda>res. case res of Inl e \<Rightarrow> Q (Inl e) | Inr a \<Rightarrow> wp (f a) Q) st"
proof -
  have "wp (case res of Inl e \<Rightarrow> give (Inl e) | Inr a \<Rightarrow> f a) Q = (case res of Inl e \<Rightarrow> Q (Inl e) | Inr a \<Rightarrow> wp (f a) Q)" for res
    by (rule ext) (simp add: wp_give split: sum.split)
  then show ?thesis by (simp add: try_do_def wp_then)
qed

lemma wp_change [wp_simps]: "wp (change f) Q st = Q () (f st)"
  by (simp add: wp_def change_def)

lemma wp_look [wp_simps]: "wp (look f) Q st = Q (f st) st"
  by (simp add: wp_def look_def)

lemma wp_loop_result [wp_simps]: "wp (loop_result r) Q st = (case r of Some a \<Rightarrow> Q a st | None \<Rightarrow> True)"
  by (simp add: wp_def loop_result_def split: option.split)

lemma wp_run_result [wp_simps]: "wp (run_result r) Q st = (case r of Ret a \<Rightarrow> Q a st | Panic \<Rightarrow> True)"
  by (simp add: wp_def run_result_def split: run.split)

lemma wp_mono: "wp m Q st \<Longrightarrow> (\<And>a st'. Q a st' \<Longrightarrow> R a st') \<Longrightarrow> wp m R st"
  by (auto simp: wp_def split: flow.splits)

lemma wp_Value: "wp m Q st \<Longrightarrow> m st = Value (a, st') \<Longrightarrow> Q a st'"
  by (simp add: wp_def)

lemma wp_both: "wp m Q st \<Longrightarrow> wp m R st \<Longrightarrow> wp m (\<lambda>a st'. Q a st' \<and> R a st') st"
  by (auto simp: wp_def split: flow.splits)

text \<open>A flow that keeps an invariant.\<close>

definition keeps :: "('st \<Rightarrow> bool) \<Rightarrow> ('a, 'st) act \<Rightarrow> bool" where
  "keeps I m \<longleftrightarrow> (\<forall>st. I st \<longrightarrow> wp m (\<lambda>a. I) st)"

lemma keepsD: "keeps I m \<Longrightarrow> I st \<Longrightarrow> wp m (\<lambda>a. I) st"
  by (simp add: keeps_def)

lemma keeps_then: "keeps I m \<Longrightarrow> (\<And>a. keeps I (f a)) \<Longrightarrow> keeps I (then_do m f)"
  unfolding keeps_def wp_then by (metis (no_types, lifting) wp_mono)

lemma keeps_give: "keeps I (give a)"
  by (simp add: keeps_def wp_give)

section \<open>The login window in the registry\<close>

definition in_state :: "string \<Rightarrow> account_state \<Rightarrow> manager \<Rightarrow> bool" where
  "in_state i s mg \<longleftrightarrow> reg_ok (mg_registry mg) \<and> (\<exists>r. record_of i (mg_registry mg) = Some r \<and> ac_state r = s)"

definition stored :: "string \<Rightarrow> account_record \<Rightarrow> manager \<Rightarrow> bool" where
  "stored i r mg \<longleftrightarrow> reg_ok (mg_registry mg) \<and> record_of i (mg_registry mg) = Some r"

lemma registry_save_Inl: "registry_save r rg = (Inl e, rg') \<Longrightarrow> rg' = rg"
  using registry_save_cases [of r rg "Inl e" rg'] by simp

lemma registry_save_writable [simp]: "rg_writable (snd (registry_save r rg)) = rg_writable rg"
  by (auto simp: registry_save_def write_record_def split: sum.split option.split)

lemma set_state_writable [simp]: "rg_writable (snd (set_state i to detail rg)) = rg_writable rg"
proof (cases "registry_get i rg")
  case (Inr r)
  then show ?thesis
  proof (cases "account_transition to detail r")
    case r': (Inr r')
    obtain res rg' where save: "registry_save r' rg = (res, rg')" by fastforce
    then have "rg_writable rg' = rg_writable rg" using registry_save_writable [of r' rg] by simp
    with Inr r' save show ?thesis by (cases res) (simp_all add: set_state_def)
  qed (simp add: set_state_def)
qed (simp add: set_state_def)

lemma set_state_locked_writable [simp]:
  "rg_writable (mg_registry (snd (set_state_locked env i to detail mg))) = rg_writable (mg_registry mg)"
  using set_state_writable [of i to detail "mg_registry mg"]
  by (cases "set_state i to detail (mg_registry mg)") (simp add: set_state_locked_def split: sum.split)

lemma set_state_Inl: "set_state i to detail rg = (Inl e, rg') \<Longrightarrow> rg' = rg"
  by (auto simp: set_state_def registry_save_Inl split: sum.splits prod.splits)

lemma set_state_changes:
  assumes "set_state i to detail rg = (Inr r, rg')" and "reg_ok rg"
  obtains r0 where "record_of i rg = Some r0" "can_transition_to (ac_state r0) to" "ac_state r = to"
    "record_of i rg' = Some r" "ac_account_id r = i" "ac_scope r = ac_scope r0" "reg_ok rg'"
proof -
  from assms(1) obtain r0 where get: "registry_get i rg = Inr r0" by (auto simp: set_state_def split: sum.splits)
  moreover from assms(1) get obtain r' where tr: "account_transition to detail r0 = Inr r'"
    by (auto simp: set_state_def split: sum.splits)
  moreover from assms(1) get tr have save: "registry_save r' rg = (Inr (), rg')" and "r' = r"
    by (auto simp: set_state_def split: sum.splits prod.splits)
  moreover from registry_get_Inr [OF get] have r0: "record_of i rg = Some r0" by simp
  moreover from r0 assms(2) have "ac_account_id r0 = i" by (simp add: reg_ok_def)
  moreover have "reg_ok rg'" using legal_ok [OF set_state_legal [OF assms(2), of i to detail]] assms(1) by simp
  ultimately show thesis using that transition_Inr [OF tr] registry_save_cases [OF save, of i] by auto
qed

lemma set_state_works:
  assumes "reg_ok rg" "record_of i rg = Some r" "validate_account_id i = Inr ()" "can_transition_to (ac_state r) to" "rg_writable rg"
  shows "\<exists>r'. fst (set_state i to detail rg) = Inr r'"
proof -
  have id: "ac_account_id r = i" using assms(1,2) by (simp add: reg_ok_def)
  have get: "registry_get i rg = Inr r"
    using assms(2,3) by (auto simp: registry_get_def record_of_def split: option.splits account_file.splits)
  obtain r' where tr: "account_transition to detail r = Inr r'" using assms(4) by (auto simp: account_transition_def)
  obtain d where "dict_get (rg_dirs rg) i = Some d" using assms(2) by (auto simp: record_of_def split: option.splits)
  then have "fst (registry_save r' rg) = Inr ()"
    using assms(3,5) transition_Inr [OF tr] id by (simp add: registry_save_def write_record_def)
  then show ?thesis using get tr by (cases "registry_save r' rg") (auto simp: set_state_def)
qed

lemma set_state_locked_Inl: "set_state_locked env i to detail mg = (Inl e, mg') \<Longrightarrow> mg_registry mg' = mg_registry mg"
  by (auto simp: set_state_locked_def set_state_Inl split: sum.splits prod.splits)

lemma set_state_locked_Inr:
  assumes "set_state_locked env i to detail mg = (Inr r, mg')" and "in_state i s mg"
  shows "can_transition_to s to \<and> ac_state r = to \<and> stored i r mg'"
proof -
  from assms(1) obtain rg' where "set_state i to detail (mg_registry mg) = (Inr r, rg')" "mg_registry mg' = rg'"
    by (auto simp: set_state_locked_def split: sum.splits prod.splits)
  with assms(2) show ?thesis by (auto simp: in_state_def stored_def elim!: set_state_changes)
qed

lemma set_state_locked_works:
  assumes "in_state i s mg" "validate_account_id i = Inr ()" "can_transition_to s to" "rg_writable (mg_registry mg)"
    and "me_lock env = Inr ()"
  shows "\<exists>r. fst (set_state_locked env i to detail mg) = Inr r"
  using set_state_works [of "mg_registry mg" i _ to detail] assms
  by (auto simp: in_state_def set_state_locked_def split: prod.split)

lemma capture_session_post:
  assumes "capture_session env i ex ua mg = (res, mg')" and "reg_ok (mg_registry mg)"
  shows "reg_ok (mg_registry mg') \<and> (case res of
      Inl e \<Rightarrow> \<forall>j. record_of j (mg_registry mg') = record_of j (mg_registry mg)
    | Inr r \<Rightarrow> stored i r mg' \<and> ac_state r = Valid)"
proof -
  have ok: "reg_ok (mg_registry mg')" using legal_ok [OF capture_legal [OF assms(2), of env i ex ua]] assms(1) by simp
  show ?thesis
  proof (cases "me_lock env")
    case (Inl e)
    with assms ok show ?thesis by (auto simp: capture_session_def)
  next
    case lock: (Inr u)
    show ?thesis
    proof (cases "registry_get i (mg_registry mg)")
      case (Inl e)
      with assms(1) lock have "res = Inl e \<and> mg' = mg" by (simp add: capture_session_def)
      with ok show ?thesis by simp
    next
      case get: (Inr r)
      note r = registry_get_Inr [OF get]
      then have id: "ac_account_id r = i" using assms(2) by (auto simp: reg_ok_def)
      define envl where "envl = envelope_new (me_now env) (ac_scope r) (current_fingerprint ua) (ac_egress r) (ex (ac_scope r))"
      obtain sres fs where save: "store_save (me_seal env) (me_keys env) (me_nonce env) envl (sessions_of i mg) = (sres, fs)"
        by fastforce
      define r' where "r' = r\<lparr>ac_session_summary := \<lparr>sm_updated_at = Some (me_now env),
          sm_cookie_count = length (ss_cookies (se_state envl)),
          sm_earliest_expiry = earliest_expiry_rfc3339 env envl,
          sm_origins = map os_origin (ss_origins (se_state envl))\<rparr>\<rparr>"
      note def = capture_session_def [of env i ex ua mg, unfolded lock get sum.case Let_def,
          folded envl_def, unfolded save prod.case, folded r'_def]
      show ?thesis
      proof (cases sres)
        case (Inl e)
        with assms ok show ?thesis unfolding def by auto
      next
        case sv: (Inr u')
        show ?thesis
        proof (cases "account_transition Valid (Some ''captured'') r'")
          case (Inl e)
          with sv assms(1) have "res = Inl e \<and> mg' = set_sessions i fs mg" unfolding def by simp
          with ok show ?thesis by simp
        next
          case tr: (Inr r'')
          obtain sres' rg where reg: "registry_save r'' (mg_registry (set_sessions i fs mg)) = (sres', rg)" by fastforce
          have id': "ac_account_id r'' = i" using transition_Inr [OF tr] id by (simp add: r'_def)
          show ?thesis
          proof (cases sres')
            case (Inl e)
            with reg registry_save_Inl have "rg = mg_registry (set_sessions i fs mg)" by blast
            with Inl reg sv tr assms ok show ?thesis unfolding def by auto
          next
            case (Inr u'')
            with registry_save_cases [OF reg, of i] id' have "record_of i rg = Some r''" by auto
            moreover from assms(1) Inr reg sv tr have "res = Inr r''" "mg_registry mg' = rg" unfolding def by auto
            ultimately show ?thesis using ok transition_Inr [OF tr] by (simp add: stored_def)
          qed
        qed
      qed
    qed
  qed
qed

end
