(* ===== verification/AgentLogin.thy ===== *)
theory AgentLogin
  imports LoginSession Broker
begin

text \<open>
  The unattended login of \<open>oxibrowser-core/src/account/agent_login.rs\<close>: restore, search for the
  login page, resolution of the credential, injection and submit with at most one retry, the
  one-time code, the judgement, the redirect verdict and the capture. The credential source is
  the record \<open>source_ops\<close> (the trait \<open>CredentialSource\<close>); theory Broker is one. Beside the state of
  the parts the flow keeps \<open>gs_effects\<close>: what it did to the page, in order.
\<close>

section \<open>Outcome and progress\<close>

datatype agent_login_outcome =
    Captured account_record "int option"
  | MfaEscalation account_record string
  | ChallengeFound account_record string
  | LeftAllowlist account_record string
  | BackToNeedsLogin account_record string

fun outcome_state :: "agent_login_outcome \<Rightarrow> string" where
  "outcome_state (Captured r score) = ''captured''"
| "outcome_state (MfaEscalation r kind) = ''mfa_escalation''"
| "outcome_state (ChallengeFound r detail) = ''challenge''"
| "outcome_state (LeftAllowlist r orig) = ''policy_violation''"
| "outcome_state (BackToNeedsLogin r reason) = ''needs_login''"

fun retryable :: "agent_login_outcome \<Rightarrow> bool" where
  "retryable (BackToNeedsLogin r reason) = True"
| "retryable _ = False"

fun outcome_detail :: "agent_login_outcome \<Rightarrow> string option" where
  "outcome_detail (Captured r score) = map_option (\<lambda>s. ''score:'' @ show_uint s) score"
| "outcome_detail (MfaEscalation r kind) = Some kind"
| "outcome_detail (ChallengeFound r detail) = Some detail"
| "outcome_detail (LeftAllowlist r orig) = Some orig"
| "outcome_detail (BackToNeedsLogin r reason) = Some reason"

datatype login_progress =
    Started | Restored | Fresh | Navigating string | FormFound string | CredentialsResolved string
  | Injected | Submitted | TotpInjected

fun progress_state :: "login_progress \<Rightarrow> string" where
  "progress_state Started = ''started''"
| "progress_state Restored = ''restored''"
| "progress_state Fresh = ''fresh''"
| "progress_state (Navigating u) = ''navigating''"
| "progress_state (FormFound u) = ''form_found''"
| "progress_state (CredentialsResolved h) = ''credentials_resolved''"
| "progress_state Injected = ''injected''"
| "progress_state Submitted = ''submitted''"
| "progress_state TotpInjected = ''totp_injected''"

fun progress_detail :: "login_progress \<Rightarrow> string option" where
  "progress_detail (Navigating u) = Some u"
| "progress_detail (FormFound u) = Some u"
| "progress_detail (CredentialsResolved h) = Some h"
| "progress_detail _ = None"

section \<open>The engine\<close>

record 'c source_ops =
  sc_resolve_login :: "string list \<Rightarrow> string \<Rightarrow> origin \<Rightarrow> 'c \<Rightarrow> (source_error + resolved_login) \<times> 'c"
  sc_resolve_totp :: "string list \<Rightarrow> string \<Rightarrow> origin \<Rightarrow> 'c \<Rightarrow> ((source_error + string) \<times> 'c) run"
  sc_origin_hints :: "string list \<Rightarrow> string \<Rightarrow> 'c \<Rightarrow> string list"

record ('s, 'c) login_engine =
  en_login_id :: string
  en_agent_id :: string
  en_session :: "'s session_ops"
  en_source :: "'c source_ops"
  en_manager :: manager_env
  en_web :: web_env
  en_probe_rx :: probe_regex
  en_dom_rx :: dom_regex
  en_urls :: url_lib
  en_quote :: "string \<Rightarrow> string"
  en_checked :: bool \<comment> \<open>overflow checks compiled in\<close>
  en_listening :: bool \<comment> \<open>an event sink is attached\<close>

datatype page_effect =
    EffNavigate url
  | EffFill string string \<comment> \<open>selector, value\<close>
  | EffSubmit url string \<comment> \<open>the login form\<close>
  | EffCode url string \<comment> \<open>the form of the one-time code\<close>

record ('s, 'c) login_state =
  gs_session :: 's
  gs_source :: 'c
  gs_manager :: manager
  gs_events :: "account_event list"
  gs_effects :: "page_effect list"

type_synonym ('a, 's, 'c) login_act = "('a, ('s, 'c) login_state) act"

definition on_session :: "('s \<Rightarrow> 'a \<times> 's) \<Rightarrow> ('a, 's, 'c) login_act" where
  "on_session f st = Value (fst (f (gs_session st)), st\<lparr>gs_session := snd (f (gs_session st))\<rparr>)"

definition on_manager :: "(manager \<Rightarrow> 'a \<times> manager) \<Rightarrow> ('a, 's, 'c) login_act" where
  "on_manager f st = Value (fst (f (gs_manager st)), st\<lparr>gs_manager := snd (f (gs_manager st))\<rparr>)"

definition effect :: "page_effect \<Rightarrow> (unit, 's, 'c) login_act" where
  "effect e = change (\<lambda>st. st\<lparr>gs_effects := gs_effects st @ [e]\<rparr>)"

definition origin_parser :: "('s, 'c) login_engine \<Rightarrow> url_parser" where
  "origin_parser en s = result_ok (ul_parse (en_urls en) s)"

definition publish :: "('s, 'c) login_engine \<Rightarrow> account_event \<Rightarrow> (unit, 's, 'c) login_act" where
  "publish en ev = change (\<lambda>st. if en_listening en then st\<lparr>gs_events := gs_events st @ [ev]\<rparr> else st)"

definition report :: "('s, 'c) login_engine \<Rightarrow> string \<Rightarrow> login_progress \<Rightarrow> (unit, 's, 'c) login_act" where
  "report en i p = publish en (AgentLogin (en_login_id en) i (en_agent_id en) (progress_state p) (progress_detail p))"

subsection \<open>Audit\<close>

definition audit_global :: "audit_event \<Rightarrow> (unit, 's, 'c) login_act" where
  "audit_global ev =
     change (\<lambda>st. st\<lparr>gs_manager := (gs_manager st)\<lparr>mg_global := audit_record ev (mg_global (gs_manager st))\<rparr>\<rparr>)"

definition audit_flow :: "('s, 'c) login_engine \<Rightarrow> string \<Rightarrow> string \<Rightarrow> string \<Rightarrow> (unit, 's, 'c) login_act" where
  "audit_flow en i action reason =
     audit_global ((audit_event_new (me_now (en_manager en)) AccountUse ADAllow (''account='' @ i @ '' '' @ reason))
       \<lparr>ev_action := Some (''agent_login_'' @ action)\<rparr>)"

definition audit_credential ::
  "('s, 'c) login_engine \<Rightarrow> string \<Rightarrow> resolved_login \<Rightarrow> string \<Rightarrow> string \<Rightarrow> (unit, 's, 'c) login_act" where
  "audit_credential en i cred stage reason =
     audit_global ((audit_event_new (me_now (en_manager en)) CredentialUse ADAllow (''account='' @ i @ '' '' @ reason))
       \<lparr>ev_credential := Some \<lparr>ref_id = rl_handle cred, ref_fingerprint = rl_fingerprint cred\<rparr>,
        ev_action := Some (''agent_login_'' @ stage)\<rparr>)"

definition audit_policy_violation ::
  "('s, 'c) login_engine \<Rightarrow> string \<Rightarrow> resolved_login \<Rightarrow> string \<Rightarrow> (unit, 's, 'c) login_act" where
  "audit_policy_violation en i cred reason =
     audit_global ((audit_event_new (me_now (en_manager en)) PolicyViolation ADDeny (''account='' @ i @ '' '' @ reason))
       \<lparr>ev_credential := Some \<lparr>ref_id = rl_handle cred, ref_fingerprint = []\<rparr>,
        ev_action := Some ''agent_login''\<rparr>)"

subsection \<open>State of the account\<close>

text \<open>A change out of \<open>logging_in\<close>: stored, audited, published.\<close>

definition leave_logging_in ::
  "('s, 'c) login_engine \<Rightarrow> string \<Rightarrow> account_state \<Rightarrow> string \<Rightarrow> (core_error + account_record, 's, 'c) login_act" where
  "leave_logging_in en i to detail =
     try_do (on_manager (set_state_locked (en_manager en) i to (Some detail))) (\<lambda>r.
     then_do (on_manager (\<lambda>mg. ((), emit_state (en_manager en) i LoggingIn (ac_state r) detail mg))) (\<lambda>_.
     then_do (publish en (StateChanged i (state_as_str LoggingIn) (state_as_str (ac_state r)) (Some detail))) (\<lambda>_.
     give (Inr r))))"

definition revert_to_needs_login ::
  "('s, 'c) login_engine \<Rightarrow> string \<Rightarrow> string \<Rightarrow> (core_error + account_record, 's, 'c) login_act" where
  "revert_to_needs_login en i detail = leave_logging_in en i NeedsLogin detail"

definition mark_challenge ::
  "('s, 'c) login_engine \<Rightarrow> string \<Rightarrow> string \<Rightarrow> (core_error + account_record, 's, 'c) login_act" where
  "mark_challenge en i detail = leave_logging_in en i Challenge detail"

definition enter_logging_in ::
  "('s, 'c) login_engine \<Rightarrow> string \<Rightarrow> account_record \<Rightarrow> (core_error + unit, 's, 'c) login_act" where
  "enter_logging_in en i r =
     (let detail = ''login_started:agent:'' @ en_agent_id en
      in try_do (on_manager (set_state_locked (en_manager en) i LoggingIn (Some detail))) (\<lambda>r'.
         then_do (on_manager (\<lambda>mg. ((), emit_state (en_manager en) i (ac_state r) (ac_state r') ''login_started:agent'' mg))) (\<lambda>_.
         then_do (publish en (StateChanged i (state_as_str (ac_state r)) (state_as_str (ac_state r')) (Some detail))) (\<lambda>_.
         give (Inr ())))))"

definition capture ::
  "('s, 'c) login_engine \<Rightarrow> string \<Rightarrow> (core_error + account_record, 's, 'c) login_act" where
  "capture en i =
     then_do (look gs_session) (\<lambda>s.
     try_do (on_manager (capture_session (en_manager en) i (so_export_scope (en_session en) s)
              (so_effective_ua (en_session en) s))) (\<lambda>r.
     then_do (audit_flow en i ''capture''
        (''agent='' @ en_agent_id en @ '' cookies='' @ show_uint (int (sm_cookie_count (ac_session_summary r)))
          @ '' origins='' @ show_uint (int (length (sm_origins (ac_session_summary r)))))) (\<lambda>_.
     then_do (publish en (StateChanged i (state_as_str LoggingIn) (state_as_str (ac_state r))
        (Some (''agent_login_captured:'' @ en_agent_id en)))) (\<lambda>_.
     give (Inr r)))))"

section \<open>Phases\<close>

text \<open>
  A phase ends the flow with an error (\<open>Inl\<close>) or an outcome (\<open>Inr (Inl _)\<close>), or goes on with a
  value.
\<close>

type_synonym 'a phase = "core_error + (agent_login_outcome + 'a)"

definition phase_do ::
  "('a phase, 's, 'c) login_act \<Rightarrow> ('a \<Rightarrow> ('b phase, 's, 'c) login_act) \<Rightarrow> ('b phase, 's, 'c) login_act" where
  "phase_do m f =
     try_do m (\<lambda>r. case r of Inl outcome \<Rightarrow> give (Inr (Inl outcome)) | Inr a \<Rightarrow> f a)"

definition proceed :: "'a \<Rightarrow> ('a phase, 's, 'c) login_act" where
  "proceed a = give (Inr (Inr a))"

definition finish_with :: "agent_login_outcome \<Rightarrow> ('a phase, 's, 'c) login_act" where
  "finish_with outcome = give (Inr (Inl outcome))"

text \<open>\<open>let record = self.revert_to_needs_login(..)?; return Ok(NeedsLogin { record, reason })\<close>\<close>

definition give_up :: "('s, 'c) login_engine \<Rightarrow> string \<Rightarrow> string \<Rightarrow> ('a phase, 's, 'c) login_act" where
  "give_up en i reason =
     try_do (revert_to_needs_login en i reason) (\<lambda>r. finish_with (BackToNeedsLogin r reason))"

definition escalate :: "('s, 'c) login_engine \<Rightarrow> string \<Rightarrow> string \<Rightarrow> string \<Rightarrow> ('a phase, 's, 'c) login_act" where
  "escalate en i reason kind =
     try_do (revert_to_needs_login en i reason) (\<lambda>r. finish_with (MfaEscalation r kind))"

fun source_reason :: "source_error \<Rightarrow> string" where
  "source_reason (SrcConsentRequired reason) = ''consent_required:'' @ reason"
| "source_reason (SrcOriginMismatch reason) = ''origin_mismatch:'' @ reason"
| "source_reason (SrcNotFound reason) = ''no_credential:'' @ reason"
| "source_reason (SrcUnavailable reason) = ''credentials_unavailable:'' @ reason"

definition mfa_missing :: "source_error \<Rightarrow> string \<Rightarrow> bool" where
  "mfa_missing err stage \<longleftrightarrow> (case err of SrcNotFound _ \<Rightarrow> stage = ''totp'' | _ \<Rightarrow> False)"

text \<open>When the revert fails the record is read again; an account that vanished is a panic.\<close>

definition abort_on_source_error ::
  "('s, 'c) login_engine \<Rightarrow> string \<Rightarrow> source_error \<Rightarrow> string \<Rightarrow> ('a phase, 's, 'c) login_act" where
  "abort_on_source_error en i err stage =
     then_do (revert_to_needs_login en i (source_reason err)) (\<lambda>res.
     then_do
       (case res of
          Inr r \<Rightarrow> give r
        | Inl _ \<Rightarrow>
            then_do (look gs_manager) (\<lambda>mg.
              run_result (case registry_get i (mg_registry mg) of Inr r \<Rightarrow> Ret r | Inl _ \<Rightarrow> Panic))) (\<lambda>r.
     finish_with (if mfa_missing err stage then MfaEscalation r ''missing_totp''
                  else BackToNeedsLogin r (source_reason err))))"

definition snapshot :: "('s, 'c) login_engine \<Rightarrow> (dom_snapshot option, 's, 'c) login_act" where
  "snapshot en = on_session (so_snapshot (en_session en))"

definition page_html :: "dom_snapshot option \<Rightarrow> (string option, 's, 'c) login_act" where
  "page_html sn = (case sn of None \<Rightarrow> give None | Some d \<Rightarrow> then_do (loop_result (to_html d)) (\<lambda>html. give (Some html)))"

text \<open>At most ten looks at the page, until two agree.\<close>

fun settle_from :: "('s, 'c) login_engine \<Rightarrow> nat \<Rightarrow> string option \<Rightarrow> (unit, 's, 'c) login_act" where
  "settle_from en 0 before = give ()"
| "settle_from en (Suc k) before =
     then_do (snapshot en) (\<lambda>sn.
     then_do (page_html sn) (\<lambda>html.
       if html = None \<or> before = html then give ()
       else then_do (on_session (\<lambda>s. ((), so_sleep (en_session en) s))) (\<lambda>_. settle_from en k html)))"

definition settle_dom :: "('s, 'c) login_engine \<Rightarrow> (unit, 's, 'c) login_act" where
  "settle_dom en = settle_from en 10 None"

subsection \<open>The scope jar\<close>

definition restore_jar ::
  "('s, 'c) login_engine \<Rightarrow> string \<Rightarrow> account_record \<Rightarrow> (unit phase, 's, 'c) login_act" where
  "restore_jar en i r =
     then_do (look gs_session) (\<lambda>s.
     then_do (on_manager (load_envelope (en_manager en) i
                (Some (current_fingerprint (so_effective_ua (en_session en) s))))) (\<lambda>loaded.
     case loaded of
       Inl _ \<Rightarrow> proceed ()
     | Inr envl \<Rightarrow>
         then_do (on_session (so_import (en_session en) (se_state envl))) (\<lambda>imported.
         then_do (on_manager (inject_envelope (en_manager en) i imported envl)) (\<lambda>injected.
         case injected of
           Inl _ \<Rightarrow> proceed ()
         | Inr envl \<Rightarrow>
             then_do (audit_flow en i ''restore''
                (''agent='' @ en_agent_id en @ '' cookies='' @ show_uint (int (length (ss_cookies (se_state envl))))
                  @ '' origins='' @ show_uint (int (length (ss_origins (se_state envl)))))) (\<lambda>_.
             try_do (give (from_record (ul_parse (en_urls en)) (ac_probe r) (ac_scope r))) (\<lambda>probe.
             then_do (on_session (so_http (en_session en) (vp_url probe))) (\<lambda>answer.
             then_do (run_result (probe_run (en_probe_rx en) (\<lambda>_. answer) probe)) (\<lambda>outcome.
             case po_verdict outcome of
               ProbeValid \<Rightarrow>
                 try_do (capture en i) (\<lambda>r'.
                 then_do (report en i Restored) (\<lambda>_. finish_with (Captured r' None)))
             | ProbeChallenge c \<Rightarrow>
                 try_do (mark_challenge en i (challenge_detail c)) (\<lambda>r'. finish_with (ChallengeFound r' (challenge_detail c)))
             | _ \<Rightarrow> proceed ()))))))))"

subsection \<open>The login page\<close>

definition goto_page :: "('s, 'c) login_engine \<Rightarrow> url \<Rightarrow> (core_error + unit, 's, 'c) login_act" where
  "goto_page en u =
     then_do (effect (EffNavigate u)) (\<lambda>_. on_session (so_navigate (en_session en) (url_as_str u)))"

definition page_form :: "('s, 'c) login_engine \<Rightarrow> (login_form option, 's, 'c) login_act" where
  "page_form en =
     then_do (snapshot en) (\<lambda>sn. case sn of None \<Rightarrow> give None | Some d \<Rightarrow> loop_result (detect_login_form d))"

datatype page_visit = FoundForm login_form | NextPage | NoPage

text \<open>No form here: an interactive or blocking challenge ends the search.\<close>

definition interstitial ::
  "('s, 'c) login_engine \<Rightarrow> string \<Rightarrow> url \<Rightarrow> (page_visit phase, 's, 'c) login_act" where
  "interstitial en i u =
     then_do (on_session (so_fetch_challenge (en_session en) u 1)) (\<lambda>fetched.
     case fetched of
       Inr (Some c) \<Rightarrow>
         if dc_kind c \<in> {Interactive, Blocked}
         then then_do (mark_challenge en i (challenge_detail c)) (\<lambda>marked.
                case marked of
                  Inr r \<Rightarrow> finish_with (ChallengeFound r (challenge_detail c))
                | Inl _ \<Rightarrow> proceed NoPage)
         else proceed NextPage
     | _ \<Rightarrow> proceed NextPage)"

definition visit_page ::
  "('s, 'c) login_engine \<Rightarrow> string \<Rightarrow> url \<Rightarrow> (page_visit phase, 's, 'c) login_act" where
  "visit_page en i u =
     then_do (report en i (Navigating (url_as_str u))) (\<lambda>_.
     then_do (goto_page en u) (\<lambda>went.
     case went of
       Inl _ \<Rightarrow> proceed NextPage
     | Inr _ \<Rightarrow>
         then_do (page_form en) (\<lambda>form.
         case form of
           Some f \<Rightarrow> then_do (report en i (FormFound (url_as_str u))) (\<lambda>_. proceed (FoundForm f))
         | None \<Rightarrow> interstitial en i u)))"

text \<open>\<open>None\<close>: no candidate carried a form. The deadline is read before each candidate.\<close>

fun find_login_page ::
  "('s, 'c) login_engine \<Rightarrow> string \<Rightarrow> url list \<Rightarrow> ((login_form \<times> url) option phase, 's, 'c) login_act" where
  "find_login_page en i [] = proceed None"
| "find_login_page en i (u # us) =
     then_do (on_session (so_expired (en_session en))) (\<lambda>late.
     if late then proceed None
     else phase_do (visit_page en i u) (\<lambda>visit.
          case visit of
            FoundForm f \<Rightarrow> proceed (Some (f, u))
          | NextPage \<Rightarrow> find_login_page en i us
          | NoPage \<Rightarrow> proceed None))"

subsection \<open>Attempts\<close>

record login_context =
  lc_account :: string
  lc_record :: account_record
  lc_origin :: origin
  lc_resolved :: resolved_login
  lc_username :: string
  lc_scope :: string
  lc_baseline :: pre_login_snapshot

datatype attempt_result = Break | LoggedIn int | Again login_form url

definition redetect ::
  "('s, 'c) login_engine \<Rightarrow> nat \<Rightarrow> login_form \<Rightarrow> url \<Rightarrow> ((login_form \<times> url) option, 's, 'c) login_act" where
  "redetect en k form u =
     (if k \<le> 1 then give (Some (form, u))
      else then_do (page_form en) (\<lambda>found.
           then_do (look gs_session) (\<lambda>s.
             give (map_option (\<lambda>f. (f, case so_current_url (en_session en) s of Some u' \<Rightarrow> u' | None \<Rightarrow> u)) found))))"

definition fill_field ::
  "('s, 'c) login_engine \<Rightarrow> string \<Rightarrow> string \<Rightarrow> (core_error + unit, 's, 'c) login_act" where
  "fill_field en selector v =
     then_do (effect (EffFill selector v)) (\<lambda>_.
       on_session (so_evaluate (en_session en) (js_fill (en_quote en) selector v)))"

definition inject_value ::
  "('s, 'c) login_engine \<Rightarrow> login_context \<Rightarrow> field_input \<Rightarrow> string \<Rightarrow> (unit phase, 's, 'c) login_act" where
  "inject_value en cx field v =
     then_do (fill_field en (fi_selector field) v) (\<lambda>res.
     case res of
       Inl e \<Rightarrow> give_up en (lc_account cx) (''credential injection failed: '' @ core_error_display e)
     | Inr _ \<Rightarrow> proceed ())"

definition inject ::
  "('s, 'c) login_engine \<Rightarrow> login_context \<Rightarrow> login_form \<Rightarrow> nat \<Rightarrow> (unit phase, 's, 'c) login_act" where
  "inject en cx form k =
     phase_do (inject_value en cx (lf_username form) (lc_username cx)) (\<lambda>_.
     phase_do (inject_value en cx (lf_password form) (rl_password (lc_resolved cx))) (\<lambda>_.
     then_do (report en (lc_account cx) Injected) (\<lambda>_.
     then_do (audit_credential en (lc_account cx) (lc_resolved cx) ''inject''
        (''agent='' @ en_agent_id en @ '' attempt='' @ show_uint (int k))) (\<lambda>_. proceed ()))))"

definition form_urlencoded_type :: string where
  "form_urlencoded_type = ''application/x-www-form-urlencoded''"

definition login_body :: "('s, 'c) login_engine \<Rightarrow> login_context \<Rightarrow> login_form \<Rightarrow> string" where
  "login_body en cx form =
     form_body (en_urls en)
       [(fi_field_name (lf_username form), lc_username cx),
        (fi_field_name (lf_password form), rl_password (lc_resolved cx))]"

definition submit_login ::
  "('s, 'c) login_engine \<Rightarrow> login_context \<Rightarrow> login_form \<Rightarrow> url \<Rightarrow> (unit phase, 's, 'c) login_act" where
  "submit_login en cx form post_url =
     then_do (effect (EffSubmit post_url (login_body en cx form))) (\<lambda>_.
     then_do (on_session (so_post (en_session en) (url_as_str post_url) (login_body en cx form) form_urlencoded_type)) (\<lambda>res.
     case res of
       Inl e \<Rightarrow> give_up en (lc_account cx) (''login submit failed: '' @ core_error_display e)
     | Inr _ \<Rightarrow> then_do (report en (lc_account cx) Submitted) (\<lambda>_. proceed ())))"

text \<open>The answer to the post of the code is not looked at.\<close>

definition submit_code ::
  "('s, 'c) login_engine \<Rightarrow> url \<Rightarrow> field_input \<Rightarrow> string option \<Rightarrow> string \<Rightarrow> (unit, 's, 'c) login_act" where
  "submit_code en u input action code =
     (case form_post_url (en_urls en) u action of
        Inl _ \<Rightarrow> give ()
      | Inr totp_url \<Rightarrow>
          (let body = form_body (en_urls en) [(fi_field_name input, code)]
           in then_do (effect (EffCode totp_url body)) (\<lambda>_.
              then_do (on_session (so_post (en_session en) (url_as_str totp_url) body form_urlencoded_type)) (\<lambda>_.
              give ()))))"

definition second_factor ::
  "('s, 'c) login_engine \<Rightarrow> login_context \<Rightarrow> url \<Rightarrow> mfa_step \<Rightarrow> (unit phase, 's, 'c) login_act" where
  "second_factor en cx u step =
     (case step of
        MfaNone \<Rightarrow> proceed ()
      | MfaEscalate kind \<Rightarrow>
          escalate en (lc_account cx) (''mfa_escalation:'' @ forbidden_as_str kind) (forbidden_as_str kind)
      | MfaTotp input submit action \<Rightarrow>
          then_do (look gs_source) (\<lambda>c.
          then_do (run_result (sc_resolve_totp (en_source en) (ac_credentials (lc_record cx)) (ac_scope (lc_record cx)) (lc_origin cx) c)) (\<lambda>res.
          then_do (change (\<lambda>st. st\<lparr>gs_source := snd res\<rparr>)) (\<lambda>_.
          case fst res of
            Inl (SrcNotFound reason) \<Rightarrow>
              escalate en (lc_account cx) (''mfa_escalation:missing_totp:'' @ reason) ''missing_totp''
          | Inl err \<Rightarrow> abort_on_source_error en (lc_account cx) err ''totp''
          | Inr code \<Rightarrow>
              then_do (fill_field en (fi_selector input) code) (\<lambda>filled.
              case filled of
                Inl e \<Rightarrow> give_up en (lc_account cx) (''totp injection failed: '' @ core_error_display e)
              | Inr _ \<Rightarrow>
                  then_do (submit_code en u input action code) (\<lambda>_.
                  then_do (report en (lc_account cx) TotpInjected) (\<lambda>_. proceed ())))))))"

definition judge ::
  "('s, 'c) login_engine \<Rightarrow> login_context \<Rightarrow> nat \<Rightarrow> login_form \<Rightarrow> url \<Rightarrow> (attempt_result, 's, 'c) login_act" where
  "judge en cx k form u =
     then_do (snapshot en) (\<lambda>sn.
     then_do (page_html sn) (\<lambda>html.
     then_do (look gs_session) (\<lambda>s.
     then_do (run_result (assess_input (en_checked en) (en_web en) (en_dom_rx en) (lc_scope cx)
                (input_from_session (en_session en) (lc_scope cx) (lc_baseline cx) html False s))) (\<lambda>verdict.
     then_do (audit_flow en (lc_account cx) ''detect''
        (''agent='' @ en_agent_id en @ '' attempt='' @ show_uint (int k) @ '' score='' @ show_uint (dt_score verdict)
          @ '' signals='' @ show_uint (int (length (dt_signals verdict))))) (\<lambda>_.
     give (if dt_logged_in verdict then LoggedIn (dt_score verdict) else Again form u))))))"

definition after_submit ::
  "('s, 'c) login_engine \<Rightarrow> login_context \<Rightarrow> nat \<Rightarrow> login_form \<Rightarrow> url \<Rightarrow> (attempt_result phase, 's, 'c) login_act" where
  "after_submit en cx k form u =
     then_do (settle_dom en) (\<lambda>_.
     then_do (snapshot en) (\<lambda>sn.
     case sn of
       None \<Rightarrow> proceed Break
     | Some d \<Rightarrow>
         then_do (loop_result (detect_mfa_step d)) (\<lambda>step.
         phase_do (second_factor en cx u step) (\<lambda>_. then_do (judge en cx k form u) proceed))))"

definition try_form ::
  "('s, 'c) login_engine \<Rightarrow> login_context \<Rightarrow> nat \<Rightarrow> login_form \<Rightarrow> url \<Rightarrow> (attempt_result phase, 's, 'c) login_act" where
  "try_form en cx k form u =
     (case form_post_url (en_urls en) u (lf_action form) of
        Inl e \<Rightarrow> give_up en (lc_account cx) (core_error_display e)
      | Inr post_url \<Rightarrow>
          phase_do (inject en cx form k) (\<lambda>_.
          phase_do (submit_login en cx form post_url) (\<lambda>_. after_submit en cx k form u)))"

definition attempt ::
  "('s, 'c) login_engine \<Rightarrow> login_context \<Rightarrow> nat \<Rightarrow> login_form \<Rightarrow> url \<Rightarrow> (attempt_result phase, 's, 'c) login_act" where
  "attempt en cx k form u =
     then_do (on_session (so_expired (en_session en))) (\<lambda>late.
     if late then proceed Break
     else
       then_do (redetect en k form u) (\<lambda>found.
       case found of
         None \<Rightarrow> proceed Break
       | Some (form', u') \<Rightarrow> try_form en cx k form' u'))"

definition max_submit_attempts :: nat where
  "max_submit_attempts = 2"

fun attempts_from ::
  "('s, 'c) login_engine \<Rightarrow> login_context \<Rightarrow> nat list \<Rightarrow> login_form \<Rightarrow> url \<Rightarrow> (int option phase, 's, 'c) login_act" where
  "attempts_from en cx [] form u = proceed None"
| "attempts_from en cx (k # ks) form u =
     phase_do (attempt en cx k form u) (\<lambda>res.
       case res of
         Break \<Rightarrow> proceed None
       | LoggedIn score \<Rightarrow> proceed (Some score)
       | Again form' u' \<Rightarrow> attempts_from en cx ks form' u')"

subsection \<open>The end\<close>

definition finish_login ::
  "('s, 'c) login_engine \<Rightarrow> login_context \<Rightarrow> int \<Rightarrow> (unit phase, 's, 'c) login_act" where
  "finish_login en cx score =
     then_do (look gs_session) (\<lambda>s.
     case so_current_url (en_session en) s of
       None \<Rightarrow> give_up en (lc_account cx) ''no final URL after login''
     | Some u \<Rightarrow>
         (case origin_parse (origin_parser en) (url_as_str u) of
            Inl e \<Rightarrow> give (Inl (account_error (''final URL '' @ url_as_str u @ '' has no usable origin: '' @ e)))
          | Inr final \<Rightarrow>
              if redirect_verdict (rl_allowed_origins (lc_resolved cx)) final = InvalidateAndEscalate
              then
                then_do (audit_policy_violation en (lc_account cx) (lc_resolved cx)
                   (''final origin '' @ origin_as_str final @ '' outside credential allowlist (agent='' @ en_agent_id en @ '')'')) (\<lambda>_.
                try_do (revert_to_needs_login en (lc_account cx) (''redirect_policy_violation:'' @ origin_as_str final)) (\<lambda>r.
                finish_with (LeftAllowlist r (origin_as_str final))))
              else
                try_do (capture en (lc_account cx)) (\<lambda>r. finish_with (Captured r (Some score)))))"

definition username_for :: "resolved_login \<Rightarrow> account_record \<Rightarrow> string option" where
  "username_for cred r = (case rl_username cred of Some u \<Rightarrow> Some u | None \<Rightarrow> ic_login_hint (ac_identity r))"

definition login_with ::
  "('s, 'c) login_engine \<Rightarrow> login_context \<Rightarrow> login_form \<Rightarrow> url \<Rightarrow> (unit phase, 's, 'c) login_act" where
  "login_with en cx form u =
     phase_do (attempts_from en cx [1 ..< Suc max_submit_attempts] form u) (\<lambda>score.
       case score of
         None \<Rightarrow> give_up en (lc_account cx) ''no login evidence after submit (detector below threshold)''
       | Some s \<Rightarrow> finish_login en cx s)"

definition resolve_credential ::
  "('s, 'c) login_engine \<Rightarrow> account_record \<Rightarrow> origin \<Rightarrow> (source_error + resolved_login, 's, 'c) login_act" where
  "resolve_credential en r page_origin =
     then_do (look (\<lambda>st. sc_resolve_login (en_source en) (ac_credentials r) (ac_scope r) page_origin (gs_source st))) (\<lambda>res.
     then_do (change (\<lambda>st. st\<lparr>gs_source := snd res\<rparr>)) (\<lambda>_. give (fst res)))"

definition use_credential ::
  "('s, 'c) login_engine \<Rightarrow> string \<Rightarrow> account_record \<Rightarrow> string \<Rightarrow> pre_login_snapshot \<Rightarrow> origin \<Rightarrow> login_form \<Rightarrow> url
    \<Rightarrow> resolved_login \<Rightarrow> (unit phase, 's, 'c) login_act" where
  "use_credential en i r scope baseline page_origin form u cred =
     then_do (report en i (CredentialsResolved (rl_handle cred))) (\<lambda>_.
     then_do (audit_credential en i cred ''resolve''
        (''agent='' @ en_agent_id en @ '' scope='' @ ac_scope r @ '' origin='' @ origin_as_str page_origin)) (\<lambda>_.
     case username_for cred r of
       None \<Rightarrow> give_up en i ''no username available (credential login hint and account record both empty)''
     | Some name \<Rightarrow>
         login_with en
           \<lparr>lc_account = i, lc_record = r, lc_origin = page_origin, lc_resolved = cred, lc_username = name,
            lc_scope = scope, lc_baseline = baseline\<rparr> form u))"

definition resolve_and_login ::
  "('s, 'c) login_engine \<Rightarrow> string \<Rightarrow> account_record \<Rightarrow> string \<Rightarrow> pre_login_snapshot \<Rightarrow> login_form \<Rightarrow> url
    \<Rightarrow> (unit phase, 's, 'c) login_act" where
  "resolve_and_login en i r scope baseline form u =
     (case origin_parse (origin_parser en) (url_as_str u) of
        Inl e \<Rightarrow> give (Inl (account_error (''login page '' @ url_as_str u @ '' has no usable origin: '' @ e)))
      | Inr page_origin \<Rightarrow>
          then_do (resolve_credential en r page_origin) (\<lambda>res.
          case res of
            Inl err \<Rightarrow> abort_on_source_error en i err ''login''
          | Inr cred \<Rightarrow> use_credential en i r scope baseline page_origin form u cred))"

definition run_inner ::
  "('s, 'c) login_engine \<Rightarrow> string \<Rightarrow> account_record \<Rightarrow> (unit phase, 's, 'c) login_act" where
  "run_inner en i r =
     try_do (give (detector_new (en_web en) (ac_scope r))) (\<lambda>scope.
     phase_do (restore_jar en i r) (\<lambda>_.
     then_do (report en i Fresh) (\<lambda>_.
     then_do (look (\<lambda>st. snapshot_session (en_session en) scope (gs_session st))) (\<lambda>baseline.
     then_do (look (\<lambda>st. sc_origin_hints (en_source en) (ac_credentials r) (ac_scope r) (gs_source st))) (\<lambda>hints.
     phase_do (find_login_page en (ac_account_id r) (login_candidates (en_urls en) r hints)) (\<lambda>found.
     case found of
       None \<Rightarrow> give_up en i ''login form not found''
     | Some (form, u) \<Rightarrow> resolve_and_login en i r scope baseline form u))))))"

text \<open>The states a login may start from; an orphaned window is adopted.\<close>

definition open_window ::
  "('s, 'c) login_engine \<Rightarrow> string \<Rightarrow> account_record \<Rightarrow> (core_error + account_record, 's, 'c) login_act" where
  "open_window en i r =
     (if ac_state r \<in> {NeedsLogin, Stale} then give (Inr r)
      else if ac_state r = Valid
      then give (Inl (account_error (''account '' @ i @ '' is valid '' @ em_dash @ '' run `account logout` before re-login'')))
      else if ac_state r = LoggingIn
      then
        try_do (on_manager (set_state_locked (en_manager en) i NeedsLogin (Some ''recovered_orphaned_login_window''))) (\<lambda>_.
        look (\<lambda>st. registry_get i (mg_registry (gs_manager st))))
      else give (Inl (account_error (''account '' @ i @ '' cannot start an agent login from state '' @ state_as_str (ac_state r)))))"

definition outcome_event :: "('s, 'c) login_engine \<Rightarrow> string \<Rightarrow> core_error + (agent_login_outcome + unit) \<Rightarrow> account_event" where
  "outcome_event en i res =
     (case res of
        Inl e \<Rightarrow> AgentLogin (en_login_id en) i (en_agent_id en) ''failed'' (Some (core_error_display e))
      | Inr (Inl outcome) \<Rightarrow>
          AgentLogin (en_login_id en) i (en_agent_id en) (outcome_state outcome) (outcome_detail outcome)
      | Inr (Inr _) \<Rightarrow> AgentLogin (en_login_id en) i (en_agent_id en) [] None)"

definition login :: "('s, 'c) login_engine \<Rightarrow> string \<Rightarrow> (unit phase, 's, 'c) login_act" where
  "login en i =
     try_do (look (\<lambda>st. registry_get i (mg_registry (gs_manager st)))) (\<lambda>r.
     try_do (open_window en i r) (\<lambda>r.
     then_do (report en i Started) (\<lambda>_.
     try_do (enter_logging_in en i r) (\<lambda>_.
     then_do (run_inner en i r) (\<lambda>res.
     then_do (publish en (outcome_event en i res)) (\<lambda>_.
     give res))))))"

section \<open>Lemmas: what a step does to the registry\<close>

lemma wp_on_session [wp_simps]:
  "wp (on_session f) Q st = Q (fst (f (gs_session st))) (st\<lparr>gs_session := snd (f (gs_session st))\<rparr>)"
  by (simp add: wp_def on_session_def)

lemma wp_on_manager [wp_simps]:
  "wp (on_manager f) Q st = Q (fst (f (gs_manager st))) (st\<lparr>gs_manager := snd (f (gs_manager st))\<rparr>)"
  by (simp add: wp_def on_manager_def)

lemma wp_phase_do [wp_simps]:
  "wp (phase_do m f) Q st =
     wp m (\<lambda>res. case res of Inl e \<Rightarrow> Q (Inl e) | Inr (Inl out) \<Rightarrow> Q (Inr (Inl out)) | Inr (Inr a) \<Rightarrow> wp (f a) Q) st"
proof -
  have "(\<lambda>res. case res of Inl e \<Rightarrow> Q (Inl e)
      | Inr r \<Rightarrow> wp (case r of Inl outcome \<Rightarrow> give (Inr (Inl outcome)) | Inr a \<Rightarrow> f a) Q)
    = (\<lambda>res. case res of Inl e \<Rightarrow> Q (Inl e) | Inr (Inl out) \<Rightarrow> Q (Inr (Inl out)) | Inr (Inr a) \<Rightarrow> wp (f a) Q)"
    by (rule ext, rule ext) (simp add: wp_give split: sum.split)
  then show ?thesis by (simp add: phase_do_def wp_try)
qed

abbreviation registry_in :: "('s, 'c) login_state \<Rightarrow> account_registry" where
  "registry_in st \<equiv> mg_registry (gs_manager st)"

text \<open>A step that leaves a part of the state as it is; \<open>quiet\<close>: the registry, \<open>mute\<close>: the effects,
  \<open>still\<close>: the credential source.\<close>

definition unchanged :: "(('s, 'c) login_state \<Rightarrow> 'v) \<Rightarrow> ('a, 's, 'c) login_act \<Rightarrow> bool" where
  "unchanged g m \<longleftrightarrow> (\<forall>st. wp m (\<lambda>a st'. g st' = g st) st)"

abbreviation quiet :: "('a, 's, 'c) login_act \<Rightarrow> bool" where
  "quiet \<equiv> unchanged registry_in"

abbreviation mute :: "('a, 's, 'c) login_act \<Rightarrow> bool" where
  "mute \<equiv> unchanged gs_effects"

abbreviation still :: "('a, 's, 'c) login_act \<Rightarrow> bool" where
  "still \<equiv> unchanged gs_source"

named_theorems quiet_intros

lemma unchanged_then [quiet_intros]:
  fixes m :: "('a, 's, 'c) login_act"
  assumes "unchanged g m" and "\<And>a. unchanged g (f a)"
  shows "unchanged g (then_do m f)"
  unfolding unchanged_def wp_then
proof
  fix st :: "('s, 'c) login_state"
  have "wp m (\<lambda>a st'. g st' = g st) st" using assms(1) by (simp add: unchanged_def)
  then show "wp m (\<lambda>a. wp (f a) (\<lambda>a st'. g st' = g st)) st"
    by (rule wp_mono) (metis assms(2) unchanged_def wp_mono)
qed

lemma unchanged_value [quiet_intros]:
  "unchanged g (give a)" "unchanged g (look h)" "unchanged g (loop_result r)" "unchanged g (run_result rn)"
  by (simp_all add: unchanged_def wp_simps split: option.split run.split)

lemma unchanged_try [quiet_intros]:
  assumes "unchanged g m" and "\<And>a. unchanged g (f a)"
  shows "unchanged g (try_do m f)"
  unfolding try_do_def by (intro unchanged_then assms) (auto split: sum.split intro: unchanged_value assms)

lemma unchanged_phase_do [quiet_intros]:
  assumes "unchanged g m" and "\<And>a. unchanged g (f a)"
  shows "unchanged g (phase_do m f)"
  unfolding phase_do_def by (intro unchanged_try assms) (auto split: sum.split intro: unchanged_value assms)

lemma quiet_prims [quiet_intros]:
  "quiet (on_session f)"
  "quiet (effect e)" "quiet (publish en ev)" "quiet (report en i p)" "quiet (audit_global ae)"
  "quiet (audit_flow en i action reason)" "quiet (audit_credential en i cred action reason)"
  "quiet (audit_policy_violation en i cred reason)" "quiet (change (\<lambda>st. st\<lparr>gs_source := c\<rparr>))"
  by (simp_all add: unchanged_def wp_simps effect_def publish_def report_def audit_global_def audit_flow_def
      audit_credential_def audit_policy_violation_def)

lemma mute_prims [quiet_intros]:
  "mute (on_session f)" "mute (on_manager h)" "mute (publish en ev)" "mute (report en i p)" "mute (audit_global ae)"
  "mute (audit_flow en i action reason)" "mute (audit_credential en i cred action reason)"
  "mute (audit_policy_violation en i cred reason)" "mute (change (\<lambda>st. st\<lparr>gs_source := c\<rparr>))"
  by (simp_all add: unchanged_def wp_simps publish_def report_def audit_global_def audit_flow_def
      audit_credential_def audit_policy_violation_def)

lemma quiet_manager:
  "(\<And>mg. mg_registry (snd (f mg)) = mg_registry mg) \<Longrightarrow> quiet (on_manager f)"
  by (simp add: unchanged_def wp_simps)

lemma quiet_emit [quiet_intros]:
  "quiet (on_manager (\<lambda>mg. ((), emit_state env i from to detail mg)))"
  "quiet (on_manager (load_envelope env i current))" "quiet (on_manager (inject_envelope env i imported envl))"
  by (simp_all add: quiet_manager)

lemma quiet_page [quiet_intros]: "quiet (snapshot en)" "quiet (page_html sn)" "quiet (goto_page en u)" "quiet (fill_field en sel v)"
  by (auto simp: snapshot_def page_html_def goto_page_def fill_field_def split: option.split intro!: quiet_intros)

lemma quiet_page_form [quiet_intros]: "quiet (page_form en)"
  by (auto simp: page_form_def split: option.split intro!: quiet_intros)

lemma quiet_settle [quiet_intros]: "quiet (settle_from en k before)"
  by (induction en k before rule: settle_from.induct) (auto intro!: quiet_intros)

lemma quiet_steps [quiet_intros]:
  "quiet (settle_dom en)" "quiet (redetect en k form u)" "quiet (judge en cx k form u)" "quiet (submit_code en u input action code)"
  by (auto simp: settle_dom_def redetect_def judge_def submit_code_def Let_def split: sum.split intro!: quiet_intros)

section \<open>Lemmas: how a phase leaves the account\<close>

definition window :: "string \<Rightarrow> ('s, 'c) login_state \<Rightarrow> bool" where
  "window i st \<longleftrightarrow> in_state i LoggingIn (gs_manager st)"

definition undisturbed :: "('s, 'c) login_engine \<Rightarrow> string \<Rightarrow> ('s, 'c) login_state \<Rightarrow> bool" where
  "undisturbed en i st \<longleftrightarrow>
     me_lock (en_manager en) = Inr () \<and> validate_account_id i = Inr () \<and> rg_writable (registry_in st)"

fun settled :: "('s, 'c) login_engine \<Rightarrow> string \<Rightarrow> agent_login_outcome \<Rightarrow> ('s, 'c) login_state \<Rightarrow> bool" where
  "settled en i (Captured r score) st \<longleftrightarrow> stored i r (gs_manager st) \<and> ac_state r = Valid"
| "settled en i (ChallengeFound r detail) st \<longleftrightarrow> False"
| "settled en i (MfaEscalation r kind) st \<longleftrightarrow>
     stored i r (gs_manager st) \<and> (undisturbed en i st \<longrightarrow> ac_state r = NeedsLogin)"
| "settled en i (LeftAllowlist r orig) st \<longleftrightarrow>
     stored i r (gs_manager st) \<and> (undisturbed en i st \<longrightarrow> ac_state r = NeedsLogin)"
| "settled en i (BackToNeedsLogin r reason) st \<longleftrightarrow>
     stored i r (gs_manager st) \<and> (undisturbed en i st \<longrightarrow> ac_state r = NeedsLogin)"

definition after_phase ::
  "('s, 'c) login_engine \<Rightarrow> string \<Rightarrow> 'a phase \<Rightarrow> ('s, 'c) login_state \<Rightarrow> bool" where
  "after_phase en i res st \<longleftrightarrow>
     (case res of Inr (Inl out) \<Rightarrow> settled en i out st | _ \<Rightarrow> window i st)"

definition settles :: "('s, 'c) login_engine \<Rightarrow> string \<Rightarrow> ('a phase, 's, 'c) login_act \<Rightarrow> bool" where
  "settles en i m \<longleftrightarrow> (\<forall>st. window i st \<longrightarrow> wp m (after_phase en i) st)"

lemma after_phase_simps [simp]:
  "after_phase en i (Inl e) st = window i st" "after_phase en i (Inr (Inr a)) st = window i st"
  "after_phase en i (Inr (Inl out)) st = settled en i out st"
  by (simp_all add: after_phase_def)

lemma window_cong: "registry_in st' = registry_in st \<Longrightarrow> window i st' = window i st"
  by (simp add: window_def in_state_def)

named_theorems settles_intros

lemma settles_proceed [settles_intros]: "settles en i (proceed a)"
  by (simp add: settles_def proceed_def wp_simps)

lemma settles_error [settles_intros]: "settles en i (give (Inl e))"
  by (simp add: settles_def wp_simps)

lemma settles_quiet [settles_intros]:
  fixes m :: "('a, 's, 'c) login_act"
  assumes "quiet m" and "\<And>a. settles en i (f a)"
  shows "settles en i (then_do m f)"
  unfolding settles_def wp_then
proof (intro allI impI)
  fix st :: "('s, 'c) login_state"
  assume "window i st"
  have "wp m (\<lambda>a st'. registry_in st' = registry_in st) st" using assms(1) by (simp add: unchanged_def)
  then show "wp m (\<lambda>a. wp (f a) (after_phase en i)) st"
    by (rule wp_mono) (metis assms(2) settles_def window_cong \<open>window i st\<close>)
qed

lemma settles_try_quiet [settles_intros]:
  assumes "quiet m" and "\<And>a. settles en i (f a)"
  shows "settles en i (try_do m f)"
  unfolding try_do_def by (intro settles_quiet assms) (auto split: sum.split intro: settles_intros assms)

lemma settles_phase_do [settles_intros]:
  fixes m :: "('a phase, 's, 'c) login_act"
  assumes "settles en i m" and "\<And>a. settles en i (f a)"
  shows "settles en i (phase_do m f)"
  unfolding settles_def wp_phase_do
proof (intro allI impI)
  fix st :: "('s, 'c) login_state"
  assume "window i st"
  then have "wp m (after_phase en i) st" using assms(1) by (simp add: settles_def)
  then show "wp m (\<lambda>res. case res of Inl e \<Rightarrow> after_phase en i (Inl e) | Inr (Inl out) \<Rightarrow> after_phase en i (Inr (Inl out))
      | Inr (Inr a) \<Rightarrow> wp (f a) (after_phase en i)) st"
    by (rule wp_mono) (use assms(2) in \<open>auto simp: settles_def split: sum.split\<close>)
qed

lemma stored_cong: "mg_registry mg' = mg_registry mg \<Longrightarrow> stored i r mg' = stored i r mg"
  by (simp add: stored_def)

lemma leave_logging_in_post:
  assumes "window i st"
  shows "wp (leave_logging_in en i to detail) (\<lambda>res st'. rg_writable (registry_in st') = rg_writable (registry_in st)
    \<and> (case res of Inl e \<Rightarrow> registry_in st' = registry_in st
            \<and> \<not> (undisturbed en i st \<and> can_transition_to LoggingIn to)
         | Inr r \<Rightarrow> stored i r (gs_manager st') \<and> ac_state r = to \<and> can_transition_to LoggingIn to)) st"
proof (cases "set_state_locked (en_manager en) i to (Some detail) (gs_manager st)")
  case (Pair res mg')
  have wr: "rg_writable (mg_registry mg') = rg_writable (registry_in st)"
    using set_state_locked_writable [of "en_manager en" i to "Some detail" "gs_manager st"] Pair by simp
  have st: "in_state i LoggingIn (gs_manager st)" using assms by (simp add: window_def)
  show ?thesis
  proof (cases res)
    case (Inl e)
    with Pair have same: "mg_registry mg' = registry_in st" using set_state_locked_Inl by blast
    have "\<not> (undisturbed en i st \<and> can_transition_to LoggingIn to)"
      using set_state_locked_works [OF st, of to "en_manager en" "Some detail"] Pair Inl by (auto simp: undisturbed_def)
    with Pair Inl same show ?thesis by (simp add: leave_logging_in_def wp_simps)
  next
    case (Inr r)
    from set_state_locked_Inr [OF _ st] Pair Inr
    have "can_transition_to LoggingIn to \<and> ac_state r = to \<and> stored i r mg'" by blast
    with Pair Inr wr show ?thesis
      by (simp add: leave_logging_in_def wp_simps publish_def stored_def)
  qed
qed

lemma can_leave [simp]: "can_transition_to LoggingIn NeedsLogin" "\<not> can_transition_to LoggingIn Challenge"
  by (simp_all add: can_transition_to_def)

lemma settles_leave:
  fixes en :: "('s, 'c) login_engine"
  assumes "\<And>r st'. stored i r (gs_manager st') \<Longrightarrow> ac_state r = to \<Longrightarrow> can_transition_to LoggingIn to \<Longrightarrow> settled en i (g r) st'"
  shows "settles en i (try_do (leave_logging_in en i to detail) (\<lambda>r. finish_with (g r)))"
  unfolding settles_def wp_try finish_with_def wp_give
proof (intro allI impI)
  fix st :: "('s, 'c) login_state"
  assume w: "window i st"
  show "wp (leave_logging_in en i to detail)
      (\<lambda>res. case res of Inl e \<Rightarrow> after_phase en i (Inl e) | Inr r \<Rightarrow> after_phase en i (Inr (Inl (g r)))) st"
  proof (rule wp_mono [OF leave_logging_in_post [OF w]])
    fix res :: "core_error + account_record" and st' :: "('s, 'c) login_state"
    assume "rg_writable (registry_in st') = rg_writable (registry_in st) \<and>
      (case res of Inl e \<Rightarrow> registry_in st' = registry_in st \<and> \<not> (undisturbed en i st \<and> can_transition_to LoggingIn to)
       | Inr r \<Rightarrow> stored i r (gs_manager st') \<and> ac_state r = to \<and> can_transition_to LoggingIn to)"
    with w window_cong [of st' st i] assms
    show "(case res of Inl e \<Rightarrow> after_phase en i (Inl e) | Inr r \<Rightarrow> after_phase en i (Inr (Inl (g r)))) st'"
      by (cases res) simp_all
  qed
qed

lemma settles_give_up [settles_intros]: "settles en i (give_up en i reason)"
  unfolding give_up_def revert_to_needs_login_def by (rule settles_leave) simp

lemma settles_escalate [settles_intros]: "settles en i (escalate en i reason kind)"
  unfolding escalate_def revert_to_needs_login_def by (rule settles_leave) simp

lemma settles_from:
  fixes en :: "('s, 'c) login_engine"
  assumes "\<And>st. window i st \<Longrightarrow> wp m (\<lambda>res st'. case res of Inl e \<Rightarrow> window i st' | Inr a \<Rightarrow> R a st') st"
    and "\<And>a st. R a st \<Longrightarrow> wp (f a) (after_phase en i) st"
  shows "settles en i (try_do m f)"
  unfolding settles_def wp_try
proof (intro allI impI)
  fix st :: "('s, 'c) login_state"
  assume w: "window i st"
  show "wp m (\<lambda>res. case res of Inl e \<Rightarrow> after_phase en i (Inl e) | Inr a \<Rightarrow> wp (f a) (after_phase en i)) st"
    by (rule wp_mono [OF assms(1) [OF w]]) (auto split: sum.splits intro: assms(2))
qed

lemma capture_post:
  assumes "window i st"
  shows "wp (capture en i) (\<lambda>res st'. case res of Inl e \<Rightarrow> window i st'
    | Inr r \<Rightarrow> stored i r (gs_manager st') \<and> ac_state r = Valid) st"
proof -
  let ?ex = "so_export_scope (en_session en) (gs_session st)" and ?ua = "so_effective_ua (en_session en) (gs_session st)"
  obtain res mg' where c: "capture_session (en_manager en) i ?ex ?ua (gs_manager st) = (res, mg')" by fastforce
  have ok: "reg_ok (registry_in st)" using assms by (simp add: window_def in_state_def)
  note post = capture_session_post [OF c ok]
  show ?thesis
  proof (cases res)
    case (Inl e)
    with post have "window i (st\<lparr>gs_manager := mg'\<rparr>)" using assms by (simp add: window_def in_state_def)
    with Inl c show ?thesis by (simp add: capture_def wp_simps)
  next
    case (Inr r)
    with post c show ?thesis
      by (simp add: capture_def wp_simps audit_flow_def audit_global_def publish_def stored_def)
  qed
qed

lemma settles_capture [settles_intros]: "settles en i (try_do (capture en i) (\<lambda>r. finish_with (Captured r score)))"
  by (rule settles_from [OF capture_post]) (simp_all add: finish_with_def wp_simps)

lemma settles_capture_restored [settles_intros]:
  "settles en i (try_do (capture en i) (\<lambda>r. then_do (report en i p) (\<lambda>_. finish_with (Captured r score))))"
  by (rule settles_from [OF capture_post])
    (simp_all add: finish_with_def wp_simps report_def publish_def stored_def)

lemma settles_revert [settles_intros]:
  "settles en i (try_do (revert_to_needs_login en i detail) (\<lambda>r. finish_with (LeftAllowlist r orig)))"
  unfolding revert_to_needs_login_def by (rule settles_leave) simp

lemma settles_challenge [settles_intros]:
  "settles en i (try_do (mark_challenge en i detail) (\<lambda>r. finish_with (ChallengeFound r d)))"
  unfolding mark_challenge_def by (rule settles_leave) simp

lemma settles_challenge_page [settles_intros]:
  fixes en :: "('s, 'c) login_engine"
  shows "settles en i (then_do (mark_challenge en i detail)
    (\<lambda>marked. case marked of Inr r \<Rightarrow> finish_with (ChallengeFound r d) | Inl e \<Rightarrow> proceed a))"
  unfolding settles_def wp_then mark_challenge_def
proof (intro allI impI)
  fix st :: "('s, 'c) login_state"
  assume w: "window i st"
  show "wp (leave_logging_in en i Challenge detail)
      (\<lambda>marked. wp (case marked of Inr r \<Rightarrow> finish_with (ChallengeFound r d) | Inl e \<Rightarrow> proceed a) (after_phase en i)) st"
    by (rule wp_mono [OF leave_logging_in_post [OF w]])
      (use w window_cong [of _ st i] in \<open>auto simp: proceed_def wp_simps split: sum.splits\<close>)
qed

lemma settles_abort [settles_intros]:
  fixes en :: "('s, 'c) login_engine"
  shows "settles en i (abort_on_source_error en i err stage)"
  unfolding settles_def abort_on_source_error_def revert_to_needs_login_def wp_then
proof (intro allI impI)
  fix st :: "('s, 'c) login_state"
  let ?out = "\<lambda>r. if mfa_missing err stage then MfaEscalation r ''missing_totp'' else BackToNeedsLogin r (source_reason err)"
  let ?rest = "\<lambda>res. case res of Inr r \<Rightarrow> give r
      | Inl e \<Rightarrow> then_do (look gs_manager) (\<lambda>mg. run_result (case registry_get i (mg_registry mg) of Inr r \<Rightarrow> Ret r | Inl x \<Rightarrow> Panic))"
  assume w: "window i st"
  then have st: "in_state i LoggingIn (gs_manager st)" by (simp add: window_def)
  show "wp (leave_logging_in en i NeedsLogin (source_reason err))
      (\<lambda>res. wp (?rest res) (\<lambda>r. wp (finish_with (?out r)) (after_phase en i))) st"
  proof (rule wp_mono [OF leave_logging_in_post [OF w]])
    fix res :: "core_error + account_record" and st' :: "('s, 'c) login_state"
    assume post: "rg_writable (registry_in st') = rg_writable (registry_in st) \<and>
      (case res of Inl e \<Rightarrow> registry_in st' = registry_in st \<and> \<not> (undisturbed en i st \<and> can_transition_to LoggingIn NeedsLogin)
       | Inr r \<Rightarrow> stored i r (gs_manager st') \<and> ac_state r = NeedsLogin \<and> can_transition_to LoggingIn NeedsLogin)"
    show "wp (?rest res) (\<lambda>r. wp (finish_with (?out r)) (after_phase en i)) st'"
    proof (cases res)
      case (Inr r)
      with post show ?thesis by (simp add: finish_with_def wp_simps)
    next
      case (Inl e)
      with post have same: "registry_in st' = registry_in st" and "\<not> undisturbed en i st" by simp_all
      then have bad: "\<not> undisturbed en i st'" by (simp add: undisturbed_def)
      show ?thesis
      proof (cases "registry_get i (registry_in st')")
        case (Inl x)
        with \<open>res = Inl e\<close> show ?thesis by (simp add: wp_simps)
      next
        case (Inr r)
        with registry_get_Inr [OF Inr] st same have "stored i r (gs_manager st')" by (simp add: stored_def in_state_def)
        with \<open>res = Inl e\<close> Inr bad show ?thesis by (simp add: finish_with_def wp_simps)
      qed
    qed
  qed
qed

lemma settles_restore [settles_intros]: "settles en i (restore_jar en i r)"
  unfolding restore_jar_def
  by (auto split: sum.split probe_verdict.split intro!: settles_intros quiet_intros)

lemma settles_visit [settles_intros]: "settles en i (visit_page en i u)"
  by (auto simp: visit_page_def interstitial_def split: sum.split option.split intro!: settles_intros quiet_intros)

lemma settles_find [settles_intros]: "settles en i (find_login_page en i us)"
  by (induction us) (auto split: page_visit.split intro!: settles_intros quiet_intros)

lemma settles_inject [settles_intros]: "lc_account cx = i \<Longrightarrow> settles en i (inject en cx form k)"
  by (auto simp: inject_def inject_value_def split: sum.split intro!: settles_intros quiet_intros)

lemma settles_submit [settles_intros]: "lc_account cx = i \<Longrightarrow> settles en i (submit_login en cx form u)"
  by (auto simp: submit_login_def split: sum.split intro!: settles_intros quiet_intros)

lemma settles_second [settles_intros]: "lc_account cx = i \<Longrightarrow> settles en i (second_factor en cx u step)"
  by (auto simp: second_factor_def split: mfa_step.split sum.split source_error.split intro!: settles_intros quiet_intros)

lemma settles_attempt [settles_intros]: "lc_account cx = i \<Longrightarrow> settles en i (attempt en cx k form u)"
  by (auto simp: attempt_def try_form_def after_submit_def split: sum.split option.split intro!: settles_intros quiet_intros)

lemma settles_attempts [settles_intros]: "lc_account cx = i \<Longrightarrow> settles en i (attempts_from en cx ks form u)"
  by (induction ks arbitrary: form u) (auto split: attempt_result.split intro!: settles_intros)

lemma settles_finish [settles_intros]: "lc_account cx = i \<Longrightarrow> settles en i (finish_login en cx score)"
  by (auto simp: finish_login_def split: option.split sum.split intro!: settles_intros quiet_intros)

lemma settles_login_with [settles_intros]: "lc_account cx = i \<Longrightarrow> settles en i (login_with en cx form u)"
  by (auto simp: login_with_def split: option.split intro!: settles_intros)

lemma settles_resolve [settles_intros]: "settles en i (resolve_and_login en i r scope baseline form u)"
  by (auto simp: resolve_and_login_def use_credential_def resolve_credential_def split: sum.split option.split
      intro!: settles_intros quiet_intros)

lemma settles_run: "ac_account_id r = i \<Longrightarrow> settles en i (run_inner en i r)"
  by (auto simp: run_inner_def split: option.split prod.split intro!: settles_intros quiet_intros)

section \<open>Lemmas: how a flow ends\<close>

definition closes_with ::
  "(agent_login_outcome \<Rightarrow> ('s, 'c) login_state \<Rightarrow> bool) \<Rightarrow> ('a phase, 's, 'c) login_act \<Rightarrow> bool" where
  "closes_with P m \<longleftrightarrow> (\<forall>st. wp m (\<lambda>res st'. \<forall>out. res = Inr (Inl out) \<longrightarrow> P out st') st)"

named_theorems ends_intros

lemma wp_True [simp]: "wp m (\<lambda>a st'. True) st"
  by (simp add: wp_def split: flow.split)

lemma ends_then [ends_intros]:
  fixes m :: "('a, 's, 'c) login_act"
  assumes "\<And>a. closes_with P (f a)"
  shows "closes_with P (then_do m f)"
  unfolding closes_with_def wp_then
proof
  fix st :: "('s, 'c) login_state"
  show "wp m (\<lambda>a. wp (f a) (\<lambda>res st'. \<forall>out. res = Inr (Inl out) \<longrightarrow> P out st')) st"
    by (rule wp_mono [OF wp_True]) (use assms in \<open>simp add: closes_with_def\<close>)
qed

lemma ends_try [ends_intros]: "(\<And>a. closes_with P (f a)) \<Longrightarrow> closes_with P (try_do m f)"
  unfolding try_do_def by (rule ends_then) (auto simp: closes_with_def wp_simps split: sum.split)

lemma ends_phase_do [ends_intros]:
  fixes m :: "('a phase, 's, 'c) login_act"
  assumes "closes_with P m" and "\<And>a. closes_with P (f a)"
  shows "closes_with P (phase_do m f)"
  unfolding closes_with_def wp_phase_do
proof
  fix st :: "('s, 'c) login_state"
  have "wp m (\<lambda>res st'. \<forall>out. res = Inr (Inl out) \<longrightarrow> P out st') st" using assms(1) by (simp add: closes_with_def)
  then show "wp m (\<lambda>res. case res of Inl e \<Rightarrow> (\<lambda>st'. \<forall>out. Inl e = Inr (Inl out) \<longrightarrow> P out st')
      | Inr (Inl out') \<Rightarrow> (\<lambda>st'. \<forall>out. Inr (Inl out') = Inr (Inl out) \<longrightarrow> P out st')
      | Inr (Inr a) \<Rightarrow> wp (f a) (\<lambda>res st'. \<forall>out. res = Inr (Inl out) \<longrightarrow> P out st')) st"
    by (rule wp_mono) (use assms(2) in \<open>auto simp: closes_with_def split: sum.split\<close>)
qed

lemma ends_plain [ends_intros]: "closes_with P (proceed a)" "closes_with P (give (Inl e))"
  by (simp_all add: closes_with_def proceed_def wp_simps)

lemma ends_finish [ends_intros]: "(\<And>st. P out st) \<Longrightarrow> closes_with P (finish_with out)"
  by (simp add: closes_with_def finish_with_def wp_simps)

text \<open>A capture after a login happens inside the allowlist of a resolved credential.\<close>

definition resolved_by :: "('s, 'c) login_engine \<Rightarrow> account_record \<Rightarrow> origin \<Rightarrow> resolved_login \<Rightarrow> bool" where
  "resolved_by en r page cred \<longleftrightarrow>
     (\<exists>c c'. sc_resolve_login (en_source en) (ac_credentials r) (ac_scope r) page c = (Inr cred, c'))"

definition inside_allowlist :: "('s, 'c) login_engine \<Rightarrow> account_record \<Rightarrow> agent_login_outcome \<Rightarrow> ('s, 'c) login_state \<Rightarrow> bool" where
  "inside_allowlist en r0 out st \<longleftrightarrow>
     (\<forall>r score. out = Captured r (Some score) \<longrightarrow>
        (\<exists>page cred u orig. resolved_by en r0 page cred \<and> so_current_url (en_session en) (gs_session st) = Some u
           \<and> origin_parse (origin_parser en) (url_as_str u) = Inr orig \<and> orig \<in> set (rl_allowed_origins cred)))"

lemma inside_other [simp]:
  "inside_allowlist en r0 (Captured r None) st" "inside_allowlist en r0 (MfaEscalation r kind) st"
  "inside_allowlist en r0 (ChallengeFound r d) st" "inside_allowlist en r0 (LeftAllowlist r orig) st"
  "inside_allowlist en r0 (BackToNeedsLogin r reason) st"
  by (simp_all add: inside_allowlist_def)

lemma inside_phases [ends_intros]:
  "closes_with (inside_allowlist en r0) (give_up en i reason)" "closes_with (inside_allowlist en r0) (escalate en i reason kind)"
  "closes_with (inside_allowlist en r0) (abort_on_source_error en i err stage)"
  by (auto simp: give_up_def escalate_def abort_on_source_error_def intro!: ends_intros)

lemma inside_restore [ends_intros]: "closes_with (inside_allowlist en r0) (restore_jar en i r)"
  by (auto simp: restore_jar_def split: sum.split probe_verdict.split intro!: ends_intros)

lemma inside_find [ends_intros]: "closes_with (inside_allowlist en r0) (find_login_page en i us)"
  by (induction us)
    (auto simp: visit_page_def interstitial_def split: sum.split option.split page_visit.split intro!: ends_intros)

lemma inside_attempt [ends_intros]: "closes_with (inside_allowlist en r0) (attempt en cx k form u)"
  by (auto simp: attempt_def try_form_def after_submit_def inject_def inject_value_def submit_login_def second_factor_def
      split: sum.split option.split mfa_step.split source_error.split intro!: ends_intros)

lemma inside_attempts [ends_intros]: "closes_with (inside_allowlist en r0) (attempts_from en cx ks form u)"
  by (induction ks arbitrary: form u) (auto split: attempt_result.split intro!: ends_intros)

lemma redirect_Continue: "redirect_verdict origins orig \<noteq> InvalidateAndEscalate \<longleftrightarrow> orig \<in> set origins"
  by (auto simp: redirect_verdict_def exact_eq_def)

lemma inside_finish [ends_intros]:
  fixes en :: "('s, 'c) login_engine"
  assumes "resolved_by en r0 page (lc_resolved cx)"
  shows "closes_with (inside_allowlist en r0) (finish_login en cx score)"
proof -
  have taken: "wp (try_do (capture en i) (\<lambda>r. finish_with (Captured r (Some score))))
      (\<lambda>res st'. \<forall>out. res = Inr (Inl out) \<longrightarrow> inside_allowlist en r0 out st') st"
    if "so_current_url (en_session en) (gs_session st) = Some u" "origin_parse (origin_parser en) (url_as_str u) = Inr orig"
      "orig \<in> set (rl_allowed_origins (lc_resolved cx))" for i u orig and st :: "('s, 'c) login_state"
    using that assms
    by (auto simp: capture_def finish_with_def wp_simps audit_flow_def audit_global_def publish_def inside_allowlist_def split: sum.split)
  show ?thesis
    unfolding closes_with_def finish_login_def wp_then wp_look
  proof
    fix st :: "('s, 'c) login_state"
    let ?Q = "\<lambda>res st'. \<forall>out. res = Inr (Inl out) \<longrightarrow> inside_allowlist en r0 out st'"
    have other: "wp m ?Q st" if "closes_with (inside_allowlist en r0) m" for m :: "('a phase, 's, 'c) login_act"
      using that by (simp add: closes_with_def)
    show "wp (case so_current_url (en_session en) (gs_session st) of
        None \<Rightarrow> give_up en (lc_account cx) ''no final URL after login''
      | Some u \<Rightarrow>
         (case origin_parse (origin_parser en) (url_as_str u) of
            Inl e \<Rightarrow> give (Inl (account_error (''final URL '' @ url_as_str u @ '' has no usable origin: '' @ e)))
          | Inr final \<Rightarrow>
              if redirect_verdict (rl_allowed_origins (lc_resolved cx)) final = InvalidateAndEscalate
              then
                then_do (audit_policy_violation en (lc_account cx) (lc_resolved cx)
                   (''final origin '' @ origin_as_str final @ '' outside credential allowlist (agent='' @ en_agent_id en @ '')'')) (\<lambda>_.
                try_do (revert_to_needs_login en (lc_account cx) (''redirect_policy_violation:'' @ origin_as_str final)) (\<lambda>r.
                finish_with (LeftAllowlist r (origin_as_str final))))
              else try_do (capture en (lc_account cx)) (\<lambda>r. finish_with (Captured r (Some score))))) ?Q st"
    proof (cases "so_current_url (en_session en) (gs_session st)")
      case None
      then show ?thesis unfolding None option.case by (intro other inside_phases)
    next
      case u: (Some u)
      show ?thesis
      proof (cases "origin_parse (origin_parser en) (url_as_str u)")
        case (Inl e)
        then show ?thesis unfolding u option.case Inl sum.case by (intro other ends_plain)
      next
        case (Inr orig)
        show ?thesis
        proof (cases "redirect_verdict (rl_allowed_origins (lc_resolved cx)) orig = InvalidateAndEscalate")
          case True
          show ?thesis unfolding u option.case Inr sum.case if_P [OF True]
            by (intro other ends_then ends_try ends_finish) simp
        next
          case False
          from taken [OF u Inr] False show ?thesis
            unfolding u option.case Inr sum.case if_not_P [OF False] by (simp add: redirect_Continue)
        qed
      qed
    qed
  qed
qed

lemma inside_login_with [ends_intros]:
  "resolved_by en r0 page (lc_resolved cx) \<Longrightarrow> closes_with (inside_allowlist en r0) (login_with en cx form u)"
  by (auto simp: login_with_def split: option.split intro!: ends_intros)

lemma ends_then_post:
  fixes m :: "('a, 's, 'c) login_act"
  assumes "\<And>st. wp m (\<lambda>a st'. R a) st" and "\<And>a. R a \<Longrightarrow> closes_with P (f a)"
  shows "closes_with P (then_do m f)"
  unfolding closes_with_def wp_then
proof
  fix st :: "('s, 'c) login_state"
  show "wp m (\<lambda>a. wp (f a) (\<lambda>res st'. \<forall>out. res = Inr (Inl out) \<longrightarrow> P out st')) st"
    by (rule wp_mono [OF assms(1)]) (use assms(2) in \<open>simp add: closes_with_def\<close>)
qed

lemma resolve_credential_post:
  "wp (resolve_credential en r orig) (\<lambda>res st'. \<forall>cred. res = Inr cred \<longrightarrow> resolved_by en r orig cred) st"
  by (auto simp: resolve_credential_def wp_simps resolved_by_def) (metis prod.collapse)

lemma inside_resolve [ends_intros]: "closes_with (inside_allowlist en r) (resolve_and_login en i r scope baseline form u)"
  unfolding resolve_and_login_def
  by (auto simp: use_credential_def split: sum.split option.split
      intro!: ends_intros ends_then_post [OF resolve_credential_post])

lemma inside_run: "closes_with (inside_allowlist en r) (run_inner en i r)"
  by (auto simp: run_inner_def split: option.split prod.split intro!: ends_intros)

section \<open>Lemmas: what a flow does to the page\<close>

lemma mute_phases [quiet_intros]:
  "mute (leave_logging_in en i to detail)" "mute (snapshot en)" "mute (page_html sn)" "mute (page_form en)" "mute (capture en i)"
  by (auto simp: leave_logging_in_def snapshot_def page_html_def page_form_def capture_def split: option.split intro!: quiet_intros)

lemma mute_ends [quiet_intros]:
  "mute (give_up en i reason)" "mute (escalate en i reason kind)" "mute (abort_on_source_error en i err stage)"
  "mute (mark_challenge en i detail)" "mute (revert_to_needs_login en i detail)" "mute (proceed a)" "mute (finish_with out)"
  by (auto simp: give_up_def escalate_def abort_on_source_error_def mark_challenge_def revert_to_needs_login_def
      proceed_def finish_with_def split: sum.split intro!: quiet_intros)

lemma mute_settle [quiet_intros]: "mute (settle_from en k before)"
  by (induction en k before rule: settle_from.induct) (auto intro!: quiet_intros)

lemma mute_steps [quiet_intros]:
  "mute (settle_dom en)" "mute (redetect en k form u)" "mute (judge en cx k form u)" "mute (restore_jar en i r)"
  "mute (finish_login en cx score)" "mute (resolve_credential en r orig)"
  by (auto simp: settle_dom_def redetect_def judge_def restore_jar_def finish_login_def resolve_credential_def
      split: sum.split option.split probe_verdict.split intro!: quiet_intros)

lemma still_prims [quiet_intros]:
  "still (on_session f)" "still (on_manager h)" "still (effect e)" "still (publish en ev)" "still (report en i p)"
  "still (audit_global ae)" "still (audit_flow en i action reason)" "still (audit_credential en i cred action reason)"
  by (simp_all add: unchanged_def wp_simps effect_def publish_def report_def audit_global_def audit_flow_def audit_credential_def)

lemma still_phases [quiet_intros]:
  "still (leave_logging_in en i to detail)" "still (snapshot en)" "still (page_form en)" "still (capture en i)" "still (goto_page en u)"
  by (auto simp: leave_logging_in_def snapshot_def page_form_def capture_def goto_page_def
      split: option.split intro!: quiet_intros)

lemma still_ends [quiet_intros]:
  "still (mark_challenge en i detail)" "still (proceed a)" "still (finish_with out)"
  by (auto simp: mark_challenge_def proceed_def finish_with_def intro!: quiet_intros)

lemma still_restore [quiet_intros]: "still (restore_jar en i r)"
  by (auto simp: restore_jar_def split: sum.split probe_verdict.split intro!: quiet_intros)

lemma still_find [quiet_intros]: "still (find_login_page en i us)"
  by (induction us)
    (auto simp: visit_page_def interstitial_def split: sum.split option.split page_visit.split intro!: quiet_intros)

text \<open>The effects a flow adds, with its value.\<close>

definition traces :: "('a \<Rightarrow> page_effect list \<Rightarrow> bool) \<Rightarrow> ('a, 's, 'c) login_act \<Rightarrow> bool" where
  "traces T m \<longleftrightarrow> (\<forall>st. wp m (\<lambda>res st'. \<exists>tr. gs_effects st' = gs_effects st @ tr \<and> T res tr) st)"

lemma traces_then:
  fixes m :: "('a, 's, 'c) login_act"
  assumes "traces Ta m" and "\<And>a. traces (Tb a) (f a)" and "\<And>a t1 b t2. Ta a t1 \<Longrightarrow> Tb a b t2 \<Longrightarrow> T b (t1 @ t2)"
  shows "traces T (then_do m f)"
  unfolding traces_def wp_then
proof
  fix st :: "('s, 'c) login_state"
  have "wp m (\<lambda>a st'. \<exists>tr. gs_effects st' = gs_effects st @ tr \<and> Ta a tr) st" using assms(1) by (simp add: traces_def)
  then show "wp m (\<lambda>a. wp (f a) (\<lambda>res st'. \<exists>tr. gs_effects st' = gs_effects st @ tr \<and> T res tr)) st"
  proof (rule wp_mono)
    fix a and st' :: "('s, 'c) login_state"
    assume "\<exists>tr. gs_effects st' = gs_effects st @ tr \<and> Ta a tr"
    then obtain t1 where t1: "gs_effects st' = gs_effects st @ t1" "Ta a t1" by blast
    have "wp (f a) (\<lambda>b st''. \<exists>tr. gs_effects st'' = gs_effects st' @ tr \<and> Tb a b tr) st'"
      using assms(2) [of a] by (simp add: traces_def)
    then show "wp (f a) (\<lambda>res st'. \<exists>tr. gs_effects st' = gs_effects st @ tr \<and> T res tr) st'"
    proof (rule wp_mono)
      fix b and st'' :: "('s, 'c) login_state"
      assume "\<exists>tr. gs_effects st'' = gs_effects st' @ tr \<and> Tb a b tr"
      then obtain t2 where t2: "gs_effects st'' = gs_effects st' @ t2" "Tb a b t2" by blast
      with t1 assms(3) [OF t1(2) t2(2)] show "\<exists>tr. gs_effects st'' = gs_effects st @ tr \<and> T b tr" by auto
    qed
  qed
qed

lemma traces_mute: "mute m \<Longrightarrow> traces (\<lambda>a tr. tr = []) m"
  by (simp add: traces_def unchanged_def)

lemma traces_weaken: "traces T m \<Longrightarrow> (\<And>a tr. T a tr \<Longrightarrow> T' a tr) \<Longrightarrow> traces T' m"
  unfolding traces_def by (intro allI, erule allE, erule wp_mono) blast

lemma traces_mute_then:
  assumes "mute m" and "\<And>a. traces T (f a)"
  shows "traces T (then_do m f)"
  by (rule traces_then [OF traces_mute [OF assms(1)], where Tb = "\<lambda>a. T"]) (simp_all add: assms(2))

lemma traces_give: "T a [] \<Longrightarrow> traces T (give a)"
  by (simp add: traces_def wp_simps)

lemma traces_effect: "traces (\<lambda>a tr. tr = [e]) (effect e)"
  by (simp add: traces_def effect_def wp_simps)

lemma traces_phase:
  assumes "traces Ta m" and "\<And>a. traces (Tb a) (f a)"
    and "\<And>e t. Ta (Inl e) t \<Longrightarrow> T (Inl e) t" and "\<And>out t. Ta (Inr (Inl out)) t \<Longrightarrow> T (Inr (Inl out)) t"
    and "\<And>a t1 b t2. Ta (Inr (Inr a)) t1 \<Longrightarrow> Tb a b t2 \<Longrightarrow> T b (t1 @ t2)"
  shows "traces T (phase_do m f)"
  unfolding phase_do_def try_do_def
proof (rule traces_then [OF assms(1), where Tb = "\<lambda>res b t2. case res of Inl e \<Rightarrow> b = Inl e \<and> t2 = []
    | Inr (Inl out) \<Rightarrow> b = Inr (Inl out) \<and> t2 = [] | Inr (Inr a) \<Rightarrow> Tb a b t2"])
  fix res
  show "traces (\<lambda>b t2. case res of Inl e \<Rightarrow> b = Inl e \<and> t2 = [] | Inr (Inl out) \<Rightarrow> b = Inr (Inl out) \<and> t2 = [] | Inr (Inr a) \<Rightarrow> Tb a b t2)
      (case res of Inl e \<Rightarrow> give (Inl e) | Inr r \<Rightarrow> (case r of Inl out \<Rightarrow> give (Inr (Inl out)) | Inr a \<Rightarrow> f a))"
    using assms(2) by (auto split: sum.split intro!: traces_give)
next
  fix res t1 b t2
  assume "Ta res t1" "case res of Inl e \<Rightarrow> b = Inl e \<and> t2 = [] | Inr (Inl out) \<Rightarrow> b = Inr (Inl out) \<and> t2 = [] | Inr (Inr a) \<Rightarrow> Tb a b t2"
  with assms(3-5) show "T b (t1 @ t2)" by (auto split: sum.splits)
qed

subsection \<open>One attempt\<close>

definition escalated :: "'a phase \<Rightarrow> bool" where
  "escalated res \<longleftrightarrow> (\<exists>r kind. res = Inr (Inl (MfaEscalation r kind)))"

definition stopped :: "'a phase \<Rightarrow> bool" where
  "stopped res \<longleftrightarrow> (\<forall>a. res \<noteq> Inr (Inr a)) \<and> \<not> escalated res"

definition halted :: "'a phase \<Rightarrow> bool" where
  "halted res \<longleftrightarrow> (\<forall>a. res \<noteq> Inr (Inr a))"

lemma phase_simps [simp]:
  "\<not> escalated (Inl e)" "\<not> escalated (Inr (Inr a))" "escalated (Inr (Inl (MfaEscalation r kind)))"
  "\<not> escalated (Inr (Inl (BackToNeedsLogin r reason)))" "\<not> escalated (Inr (Inl (Captured r score)))"
  "\<not> escalated (Inr (Inl (ChallengeFound r d)))" "\<not> escalated (Inr (Inl (LeftAllowlist r d)))"
  "stopped (Inl e)" "\<not> stopped (Inr (Inr a))" "stopped (Inr (Inl (BackToNeedsLogin r reason)))"
  "halted (Inl e)" "\<not> halted (Inr (Inr a))" "halted (Inr (Inl out))"
  by (auto simp: escalated_def stopped_def halted_def)

lemma trace_give_up: "traces (\<lambda>res tr. tr = [] \<and> stopped res) (give_up en i reason)"
  unfolding give_up_def try_do_def
  by (intro traces_mute_then quiet_intros) (auto split: sum.split simp: finish_with_def intro!: traces_give)

lemma trace_escalate: "traces (\<lambda>res tr. tr = [] \<and> halted res) (escalate en i reason kind)"
  unfolding escalate_def try_do_def
  by (intro traces_mute_then quiet_intros) (auto split: sum.split simp: finish_with_def intro!: traces_give)

lemma trace_abort: "\<not> mfa_missing err stage \<Longrightarrow> traces (\<lambda>res tr. tr = [] \<and> stopped res) (abort_on_source_error en i err stage)"
  unfolding abort_on_source_error_def
  by (intro traces_mute_then quiet_intros)
    (auto split: sum.split simp: finish_with_def intro!: traces_give traces_mute_then quiet_intros)

lemma trace_fill: "traces (\<lambda>res tr. tr = [EffFill sel v]) (fill_field en sel v)"
  unfolding fill_field_def
  by (rule traces_then [OF traces_effect, where Tb = "\<lambda>a b t. t = []"]) (simp_all add: traces_mute quiet_intros)

lemma trace_inject_value:
  "traces (\<lambda>res tr. tr = [EffFill (fi_selector field) v] \<and> (stopped res \<or> res = Inr (Inr ()))) (inject_value en cx field v)"
  unfolding inject_value_def
  by (rule traces_then [OF trace_fill, where Tb = "\<lambda>a b t. t = [] \<and> (stopped b \<or> b = Inr (Inr ()))"])
    (auto split: sum.split simp: proceed_def intro!: traces_give traces_weaken [OF trace_give_up])

lemma trace_inject:
  "traces (\<lambda>res tr. \<exists>n. tr = take n [EffFill (fi_selector (lf_username form)) (lc_username cx),
       EffFill (fi_selector (lf_password form)) (rl_password (lc_resolved cx))]
     \<and> (stopped res \<or> res = Inr (Inr ()) \<and> 2 \<le> n)) (inject en cx form k)"
  unfolding inject_def
proof (rule traces_phase [OF trace_inject_value, where Tb = "\<lambda>a res tr.
    tr = [EffFill (fi_selector (lf_password form)) (rl_password (lc_resolved cx))] \<and> (stopped res \<or> res = Inr (Inr ()))"])
  fix a :: unit
  show "traces (\<lambda>res tr. tr = [EffFill (fi_selector (lf_password form)) (rl_password (lc_resolved cx))]
      \<and> (stopped res \<or> res = Inr (Inr ())))
    (phase_do (inject_value en cx (lf_password form) (rl_password (lc_resolved cx))) (\<lambda>_.
      then_do (report en (lc_account cx) Injected) (\<lambda>_.
      then_do (audit_credential en (lc_account cx) (lc_resolved cx) ''inject''
        (''agent='' @ en_agent_id en @ '' attempt='' @ show_uint (int k))) (\<lambda>_. proceed ()))))"
    by (rule traces_phase [OF trace_inject_value, where Tb = "\<lambda>a res tr. tr = [] \<and> res = Inr (Inr ())"])
      (auto simp: proceed_def intro!: traces_mute_then traces_give quiet_intros)
qed (force intro: exI [of _ 1], force intro: exI [of _ 1], force intro: exI [of _ 2])

lemma trace_submit:
  "traces (\<lambda>res tr. tr = [EffSubmit u (login_body en cx form)] \<and> (stopped res \<or> res = Inr (Inr ())))
     (submit_login en cx form u)"
  unfolding submit_login_def
  by (rule traces_then [OF traces_effect, where Tb = "\<lambda>a b t. t = [] \<and> (stopped b \<or> b = Inr (Inr ()))"])
    (auto split: sum.split simp: proceed_def intro!: traces_give traces_mute_then quiet_intros traces_weaken [OF trace_give_up])

definition code_script :: "field_input \<Rightarrow> string \<Rightarrow> url \<Rightarrow> string \<Rightarrow> page_effect list" where
  "code_script input code u body = [EffFill (fi_selector input) code, EffCode u body]"

definition attempt_script ::
  "('s, 'c) login_engine \<Rightarrow> login_context \<Rightarrow> login_form \<Rightarrow> url \<Rightarrow> field_input \<Rightarrow> string \<Rightarrow> url \<Rightarrow> string \<Rightarrow> page_effect list"
where
  "attempt_script en cx form u input code u' body =
     [EffFill (fi_selector (lf_username form)) (lc_username cx),
      EffFill (fi_selector (lf_password form)) (rl_password (lc_resolved cx)),
      EffSubmit u (login_body en cx form)] @ code_script input code u' body"

text \<open>What one attempt does to the page: a beginning of that script.\<close>

definition is_attempt :: "('s, 'c) login_engine \<Rightarrow> login_context \<Rightarrow> page_effect list \<Rightarrow> bool" where
  "is_attempt en cx tr \<longleftrightarrow> (\<exists>form u input code u' body n. tr = take n (attempt_script en cx form u input code u' body))"

lemma trace_code:
  "traces (\<lambda>res tr. \<exists>u' body n. tr = take n [EffCode u' body]) (submit_code en u input action code)"
proof (cases "form_post_url (en_urls en) u action")
  case (Inl e)
  then show ?thesis by (simp add: submit_code_def traces_give)
next
  case (Inr u')
  have one: "\<exists>w b n. [EffCode v body] = take n [EffCode w b]" for v body
    by (rule exI, rule exI, rule exI [of _ 1]) simp
  from Inr show ?thesis
    unfolding submit_code_def Inr sum.case Let_def
    by (intro traces_then [OF traces_effect, where Tb = "\<lambda>a b t. t = []"])
      (auto intro!: traces_mute quiet_intros one)
qed

definition second_ok :: "'a phase \<Rightarrow> page_effect list \<Rightarrow> bool" where
  "second_ok res tr \<longleftrightarrow> (\<exists>input code u body n. tr = take n (code_script input code u body)) \<and> (escalated res \<longrightarrow> tr = [])"

lemma second_ok_Nil: "second_ok res []"
  by (auto simp: second_ok_def intro: exI [of _ 0])

lemma trace_typed:
  "traces second_ok (then_do (fill_field en (fi_selector input) code) (\<lambda>filled.
      case filled of
        Inl e \<Rightarrow> give_up en (lc_account cx) (''totp injection failed: '' @ core_error_display e)
      | Inr _ \<Rightarrow> then_do (submit_code en u input action code) (\<lambda>_.
          then_do (report en (lc_account cx) TotpInjected) (\<lambda>_. proceed ()))))"
proof (rule traces_then [OF trace_fill, where Tb = "\<lambda>a res tr. \<not> escalated res \<and> (\<exists>u' body n. tr = take n [EffCode u' body])"])
  fix filled :: "core_error + unit"
  let ?U = "\<lambda>(res :: unit phase) tr. \<not> escalated res \<and> (\<exists>u' body n. tr = take n [EffCode u' body])"
  have failed: "traces ?U (give_up en (lc_account cx) reason)" for reason
    by (rule traces_weaken [OF trace_give_up]) (auto simp: stopped_def)
  have sent: "traces ?U
      (then_do (submit_code en u input action code) (\<lambda>_. then_do (report en (lc_account cx) TotpInjected) (\<lambda>_. proceed ())))"
    by (rule traces_then [OF trace_code, where Tb = "\<lambda>a res t. t = [] \<and> \<not> escalated res"])
      (auto simp: proceed_def intro!: traces_mute_then quiet_intros traces_give)
  show "traces ?U
      (case filled of
        Inl e \<Rightarrow> give_up en (lc_account cx) (''totp injection failed: '' @ core_error_display e)
      | Inr _ \<Rightarrow> then_do (submit_code en u input action code) (\<lambda>_.
          then_do (report en (lc_account cx) TotpInjected) (\<lambda>_. proceed ())))"
    by (cases filled) (simp_all only: sum.case failed sent)
next
  fix a :: "core_error + unit" and t1 t2 and res :: "unit phase"
  assume "t1 = [EffFill (fi_selector input) code]" "\<not> escalated res \<and> (\<exists>u' body n. t2 = take n [EffCode u' body])"
  then obtain u' body n where "t1 @ t2 = take (Suc n) (code_script input code u' body)" "\<not> escalated res"
    by (auto simp: code_script_def)
  then show "second_ok res (t1 @ t2)" unfolding second_ok_def by blast
qed

lemma traces_nothing: "mute m \<Longrightarrow> traces second_ok m"
  by (rule traces_weaken [OF traces_mute]) (simp_all add: second_ok_Nil)

lemma trace_second: "traces second_ok (second_factor en cx u step)"
proof (cases step)
  case (MfaTotp input submit action)
  have "traces second_ok (case res of
      Inl (SrcNotFound reason) \<Rightarrow>
        escalate en (lc_account cx) (''mfa_escalation:missing_totp:'' @ reason) ''missing_totp''
    | Inl err \<Rightarrow> abort_on_source_error en (lc_account cx) err ''totp''
    | Inr code \<Rightarrow>
        then_do (fill_field en (fi_selector input) code) (\<lambda>filled.
        case filled of
          Inl e \<Rightarrow> give_up en (lc_account cx) (''totp injection failed: '' @ core_error_display e)
        | Inr _ \<Rightarrow>
            then_do (submit_code en u input action code) (\<lambda>_.
            then_do (report en (lc_account cx) TotpInjected) (\<lambda>_. proceed ()))))" for res
  proof (cases res)
    case (Inl err)
    then show ?thesis by (cases err) (simp_all only: sum.case source_error.case traces_nothing quiet_intros)
  next
    case (Inr code)
    show ?thesis unfolding Inr sum.case by (rule trace_typed)
  qed
  then show ?thesis
    unfolding second_factor_def MfaTotp mfa_step.case by (intro traces_mute_then quiet_intros)
qed (simp_all only: second_factor_def mfa_step.case traces_nothing quiet_intros)

subsection \<open>All attempts\<close>

definition attempt_ok :: "('s, 'c) login_engine \<Rightarrow> login_context \<Rightarrow> 'a phase \<Rightarrow> page_effect list \<Rightarrow> bool" where
  "attempt_ok en cx res tr \<longleftrightarrow> is_attempt en cx tr \<and> (escalated res \<longrightarrow> length tr = 3)"

lemma is_attempt_Nil: "is_attempt en cx []"
  unfolding is_attempt_def by (intro exI [of _ "0 :: nat"] exI) simp

lemma traces_idle: "traces (\<lambda>res tr. tr = [] \<and> stopped res) m \<Longrightarrow> traces (attempt_ok en cx) m"
  by (erule traces_weaken) (auto simp: attempt_ok_def is_attempt_Nil stopped_def)

lemma trace_after_submit: "traces second_ok (after_submit en cx k form u)"
proof -
  have factor: "traces second_ok (phase_do (second_factor en cx u step) (\<lambda>_. then_do (judge en cx k form u) proceed))" for step
  proof (rule traces_phase [OF trace_second, where Tb = "\<lambda>a res tr. tr = [] \<and> \<not> escalated res"])
    show "traces (\<lambda>res tr. tr = [] \<and> \<not> escalated res) (then_do (judge en cx k form u) proceed)"
      by (intro traces_mute_then quiet_intros) (simp add: proceed_def traces_give)
  qed (auto simp: second_ok_def escalated_def)
  have "traces second_ok (case sn of None \<Rightarrow> proceed Break
      | Some d \<Rightarrow> then_do (loop_result (detect_mfa_step d)) (\<lambda>step.
          phase_do (second_factor en cx u step) (\<lambda>_. then_do (judge en cx k form u) proceed)))" for sn
    by (cases sn) (simp_all only: option.case traces_nothing quiet_intros traces_mute_then factor)
  then show ?thesis unfolding after_submit_def by (intro traces_mute_then quiet_intros)
qed

lemma take_of_take: "take n (xs @ take m ys) = take (min n (length xs + m)) (xs @ ys)"
  by (cases "n \<le> length xs") (auto simp: min_def)

lemma trace_try_form: "traces (attempt_ok en cx) (try_form en cx k form u)"
proof (cases "form_post_url (en_urls en) u (lf_action form)")
  case (Inl e)
  show ?thesis unfolding try_form_def Inl sum.case by (intro traces_idle trace_give_up)
next
  case (Inr post_url)
  let ?fills = "[EffFill (fi_selector (lf_username form)) (lc_username cx),
    EffFill (fi_selector (lf_password form)) (rl_password (lc_resolved cx))]"
  let ?submit = "EffSubmit post_url (login_body en cx form)"
  have script: "is_attempt en cx (take n (?fills @ ?submit # t))"
    if "t = take m (code_script input code u' body)" for n m t input code u' body
  proof -
    have "take n ((?fills @ [?submit]) @ t) = take (min n (3 + m)) (attempt_script en cx form post_url input code u' body)"
      using take_of_take [of n "?fills @ [?submit]" m "code_script input code u' body"]
      by (simp only: that attempt_script_def) (simp add: numeral_3_eq_3)
    then show ?thesis unfolding is_attempt_def by force
  qed
  have filled: "is_attempt en cx (take n ?fills)" for n
  proof -
    have "take n ?fills = take (min n 2) (?fills @ [?submit])" by (cases "n \<le> 2") (auto simp: min_def take_Cons' numeral_2_eq_2)
    with script [of "[]" 0 _ _ _ _ "min n 2"] show ?thesis by simp
  qed
  have sent: "traces (\<lambda>res tr. \<exists>t. tr = ?submit # t \<and> second_ok res t)
      (phase_do (submit_login en cx form post_url) (\<lambda>_. after_submit en cx k form u))"
    by (rule traces_phase [OF trace_submit, where Tb = "\<lambda>a. second_ok"])
      (auto simp: trace_after_submit second_ok_Nil)
  show ?thesis
    unfolding try_form_def Inr sum.case
  proof (rule traces_phase [OF trace_inject, where Tb = "\<lambda>a res tr. \<exists>t. tr = ?submit # t \<and> second_ok res t"])
    show "traces (\<lambda>res tr. \<exists>t. tr = ?submit # t \<and> second_ok res t)
      (phase_do (submit_login en cx form post_url) (\<lambda>_. after_submit en cx k form u))" by (rule sent)
  next
    fix a :: unit and t1 t2 and res :: "attempt_result phase"
    assume "\<exists>n. t1 = take n ?fills \<and> (stopped (Inr (Inr a) :: unit phase) \<or> (Inr (Inr a) :: unit phase) = Inr (Inr ()) \<and> 2 \<le> n)"
      and "\<exists>t. t2 = ?submit # t \<and> second_ok res t"
    then obtain t where t: "t1 = ?fills" "t2 = ?submit # t" "second_ok res t" by (auto simp: take_Cons')
    then obtain input code u' body n where code: "t = take n (code_script input code u' body)" and last': "escalated res \<longrightarrow> t = []"
      by (auto simp: second_ok_def)
    from script [OF code, of "3 + length t"] have "is_attempt en cx (?fills @ ?submit # t)" by (simp add: numeral_3_eq_3)
    with t(1,2) last' show "attempt_ok en cx res (t1 @ t2)" by (auto simp: attempt_ok_def)
  qed (use filled in \<open>auto simp: attempt_ok_def stopped_def escalated_def\<close>)
qed

lemma trace_attempt: "traces (attempt_ok en cx) (attempt en cx k form u)"
proof -
  have stop: "traces (attempt_ok en cx) (proceed Break)"
    by (simp add: proceed_def traces_give attempt_ok_def is_attempt_Nil)
  have "traces (attempt_ok en cx) (case found of None \<Rightarrow> proceed Break | Some (form', u') \<Rightarrow> try_form en cx k form' u')" for found
    by (cases found) (auto simp: stop trace_try_form split: prod.split)
  then show ?thesis
    unfolding attempt_def using stop by (auto intro!: traces_mute_then quiet_intros)
qed

text \<open>The attempts one after the other; only the last can end in an escalation.\<close>

definition attempts_ok ::
  "('s, 'c) login_engine \<Rightarrow> login_context \<Rightarrow> nat \<Rightarrow> 'a phase \<Rightarrow> page_effect list \<Rightarrow> bool" where
  "attempts_ok en cx n res tr \<longleftrightarrow>
     (\<exists>trs. tr = concat trs \<and> length trs \<le> n \<and> (\<forall>t \<in> set trs. is_attempt en cx t)
       \<and> (escalated res \<longrightarrow> trs \<noteq> [] \<and> length (last trs) = 3))"

lemma attempts_ok_Nil: "\<not> escalated res \<Longrightarrow> attempts_ok en cx n res []"
  unfolding attempts_ok_def by (intro exI [of _ "[]"]) simp

lemma attempts_ok_one: "attempt_ok en cx res tr \<Longrightarrow> 0 < n \<Longrightarrow> (escalated res' \<longrightarrow> escalated res) \<Longrightarrow> attempts_ok en cx n res' tr"
  unfolding attempts_ok_def attempt_ok_def by (intro exI [of _ "[tr]"]) auto

lemma attempts_ok_Cons:
  assumes "is_attempt en cx t" and "attempts_ok en cx n res tr"
  shows "attempts_ok en cx (Suc n) res (t @ tr)"
proof -
  from assms(2) obtain trs where "tr = concat trs" "length trs \<le> n" "\<forall>t \<in> set trs. is_attempt en cx t"
    "escalated res \<longrightarrow> trs \<noteq> [] \<and> length (last trs) = 3" by (auto simp: attempts_ok_def)
  with assms(1) show ?thesis unfolding attempts_ok_def by (intro exI [of _ "t # trs"]) auto
qed

lemma trace_attempts: "traces (attempts_ok en cx (length ks)) (attempts_from en cx ks form u)"
proof (induction ks arbitrary: form u)
  case Nil
  show ?case by (simp add: proceed_def traces_give attempts_ok_Nil)
next
  case (Cons k ks)
  have plain: "traces (attempts_ok en cx (length ks)) (proceed a)" for a :: "int option"
    by (simp add: proceed_def traces_give attempts_ok_Nil)
  have next': "traces (attempts_ok en cx (length ks)) (case res of Break \<Rightarrow> proceed None | LoggedIn score \<Rightarrow> proceed (Some score)
      | Again form' u' \<Rightarrow> attempts_from en cx ks form' u')" for res
    by (cases res) (simp_all only: attempt_result.case plain Cons.IH)
  show ?case
    unfolding attempts_from.simps list.size
    by (rule traces_phase [OF trace_attempt next'])
      (auto intro: attempts_ok_one attempts_ok_Cons simp: attempt_ok_def escalated_def)
qed

lemma trace_finish: "traces (\<lambda>res tr. tr = [] \<and> \<not> escalated res) (finish_login en cx score)"
proof -
  have give_up': "traces (\<lambda>res tr. tr = [] \<and> \<not> escalated res) (give_up en i reason)" for i reason
    by (rule traces_weaken [OF trace_give_up]) (simp add: stopped_def)
  show ?thesis
    unfolding finish_login_def
    by (auto split: option.split sum.split simp: finish_with_def try_do_def
        intro!: traces_mute_then traces_give quiet_intros give_up')
qed

lemma trace_login_with: "traces (attempts_ok en cx max_submit_attempts) (login_with en cx form u)"
proof -
  have quiet_end: "traces (\<lambda>res tr. tr = [] \<and> \<not> escalated res)
      (case score of None \<Rightarrow> give_up en (lc_account cx) ''no login evidence after submit (detector below threshold)''
       | Some s \<Rightarrow> finish_login en cx s)" for score
    by (cases score) (auto simp: stopped_def intro: trace_finish traces_weaken [OF trace_give_up])
  have "length [1 ..< Suc max_submit_attempts] = max_submit_attempts" by simp
  from trace_attempts [of en cx "[1 ..< Suc max_submit_attempts]" form u, unfolded this]
  show ?thesis
    unfolding login_with_def
    by (rule traces_phase [OF _ quiet_end]) (auto simp: attempts_ok_def escalated_def)
qed

lemma trace_goto: "traces (\<lambda>res tr. tr = [EffNavigate u]) (goto_page en u)"
  unfolding goto_page_def
  by (rule traces_then [OF traces_effect, where Tb = "\<lambda>a b t. t = []"]) (simp_all add: traces_mute quiet_intros)

lemma trace_visit: "traces (\<lambda>res tr. \<not> escalated res \<and> tr = [EffNavigate u]) (visit_page en i u)"
proof -
  let ?T = "\<lambda>(res :: page_visit phase) tr. tr = [] \<and> \<not> escalated res"
  have "traces ?T (interstitial en i u)"
    by (auto simp: interstitial_def finish_with_def proceed_def split: sum.split option.split
        intro!: traces_mute_then traces_give quiet_intros)
  then have "traces ?T (case went of Inl _ \<Rightarrow> proceed NextPage
      | Inr _ \<Rightarrow> then_do (page_form en) (\<lambda>form. case form of
           Some f \<Rightarrow> then_do (report en i (FormFound (url_as_str u))) (\<lambda>_. proceed (FoundForm f))
         | None \<Rightarrow> interstitial en i u))" for went :: "core_error + unit"
    by (auto simp: proceed_def split: sum.split option.split intro!: traces_mute_then traces_give quiet_intros)
  then have "traces (\<lambda>res tr. \<not> escalated res \<and> tr = [EffNavigate u]) (then_do (goto_page en u) (\<lambda>went.
      case went of Inl _ \<Rightarrow> proceed NextPage
      | Inr _ \<Rightarrow> then_do (page_form en) (\<lambda>form. case form of
           Some f \<Rightarrow> then_do (report en i (FormFound (url_as_str u))) (\<lambda>_. proceed (FoundForm f))
         | None \<Rightarrow> interstitial en i u)))"
    by (rule traces_then [OF trace_goto]) auto
  then show ?thesis unfolding visit_page_def by (rule traces_mute_then [OF mute_prims(4)])
qed

text \<open>\<open>found_ok us n found\<close>: the search ends at the candidate it navigated to last.\<close>

definition found_ok :: "url list \<Rightarrow> nat \<Rightarrow> (login_form \<times> url) option \<Rightarrow> bool" where
  "found_ok us n found \<longleftrightarrow> (\<forall>f u. found = Some (f, u) \<longrightarrow> 0 < n \<and> n \<le> length us \<and> u = us ! (n - 1))"

definition find_ok :: "url list \<Rightarrow> (login_form \<times> url) option phase \<Rightarrow> page_effect list \<Rightarrow> bool" where
  "find_ok us res tr \<longleftrightarrow> \<not> escalated res
     \<and> (\<exists>n. tr = map EffNavigate (take n us) \<and> (\<forall>found. res = Inr (Inr found) \<longrightarrow> found_ok us n found))"

lemma find_ok_none: "find_ok us (Inr (Inr None)) []"
  unfolding find_ok_def by (simp add: found_ok_def exI [of _ 0])

lemma find_ok_here: "find_ok (u # us) (Inr (Inr (Some (f, u)))) [EffNavigate u]"
  unfolding find_ok_def by (simp add: found_ok_def exI [of _ 1])

lemma find_ok_only: "\<not> escalated res \<Longrightarrow> (\<And>found. res = Inr (Inr found) \<Longrightarrow> found = None) \<Longrightarrow> find_ok (u # us) res [EffNavigate u]"
  unfolding find_ok_def by (auto simp: found_ok_def intro: exI [of _ 1])

lemma find_ok_Cons:
  assumes "find_ok us res tr"
  shows "find_ok (u # us) res (EffNavigate u # tr)"
proof -
  from assms obtain n where "\<not> escalated res" "tr = map EffNavigate (take n us)"
    "\<forall>found. res = Inr (Inr found) \<longrightarrow> found_ok us n found" by (auto simp: find_ok_def)
  then show ?thesis
    unfolding find_ok_def found_ok_def by (intro conjI exI [of _ "Suc n"]) (auto simp: nth_Cons')
qed

lemma trace_find: "traces (find_ok us) (find_login_page en i us)"
proof (induction us)
  case Nil
  show ?case by (simp add: proceed_def traces_give find_ok_none)
next
  case (Cons u us)
  have none: "traces (find_ok us) (proceed None)" for us
    by (simp add: proceed_def traces_give find_ok_none)
  have "traces (\<lambda>res tr. find_ok (u # us) res (EffNavigate u # tr)) (case visit of FoundForm f \<Rightarrow> proceed (Some (f, u))
      | NextPage \<Rightarrow> find_login_page en i us | NoPage \<Rightarrow> proceed None)" for visit
    by (cases visit)
      (auto simp: proceed_def intro!: traces_give find_ok_here find_ok_none traces_weaken [OF Cons.IH] find_ok_Cons)
  then have "traces (find_ok (u # us)) (phase_do (visit_page en i u) (\<lambda>visit. case visit of FoundForm f \<Rightarrow> proceed (Some (f, u))
      | NextPage \<Rightarrow> find_login_page en i us | NoPage \<Rightarrow> proceed None))"
    by (rule traces_phase [OF trace_visit]) (auto simp: escalated_def intro: find_ok_only)
  with none [of "u # us"] show ?case
    unfolding find_login_page.simps by (auto intro!: traces_mute_then mute_prims)
qed

section \<open>Lemmas: the whole flow\<close>

text \<open>No phase of the whole flow stops without an outcome.\<close>

definition concludes :: "('a phase, 's, 'c) login_act \<Rightarrow> bool" where
  "concludes m \<longleftrightarrow> (\<forall>st. wp m (\<lambda>res st'. halted res) st)"

named_theorems concl_intros

lemma concl_then [concl_intros]:
  fixes m :: "('b, 's, 'c) login_act"
  assumes "\<And>a. concludes (f a)"
  shows "concludes (then_do m f)"
  unfolding concludes_def wp_then
proof
  fix st :: "('s, 'c) login_state"
  show "wp m (\<lambda>a. wp (f a) (\<lambda>res st'. halted res)) st"
    by (rule wp_mono [OF wp_True]) (use assms in \<open>simp add: concludes_def\<close>)
qed

lemma concl_value [concl_intros]: "concludes (give (Inl e))" "concludes (give (Inr (Inl out)))" "concludes (finish_with out)"
  by (simp_all add: concludes_def finish_with_def wp_simps)

lemma concl_try [concl_intros]: "(\<And>a. concludes (f a)) \<Longrightarrow> concludes (try_do m f)"
  unfolding try_do_def by (rule concl_then) (auto split: sum.split intro: concl_value)

lemma concl_phase [concl_intros]: "(\<And>a. concludes (f a)) \<Longrightarrow> concludes (phase_do m f)"
  unfolding phase_do_def by (rule concl_try) (auto split: sum.split intro: concl_value)

lemma concl_ends [concl_intros]:
  "concludes (give_up en i reason)" "concludes (escalate en i reason kind)" "concludes (abort_on_source_error en i err stage)"
  by (auto simp: give_up_def escalate_def abort_on_source_error_def intro!: concl_intros)

lemma concl_finish [concl_intros]: "concludes (finish_login en cx score)"
  by (auto simp: finish_login_def split: option.split sum.split intro!: concl_intros)

lemma concl_login_with [concl_intros]: "concludes (login_with en cx form u)"
  by (auto simp: login_with_def split: option.split intro!: concl_intros)

lemma concl_use [concl_intros]: "concludes (use_credential en i r scope baseline orig form u cred)"
  by (auto simp: use_credential_def split: option.split intro!: concl_intros)

lemma concl_resolve [concl_intros]: "concludes (resolve_and_login en i r scope baseline form u)"
  by (auto simp: resolve_and_login_def split: sum.split intro!: concl_intros)

lemma run_concludes: "concludes (run_inner en i r)"
  by (auto simp: run_inner_def split: option.split prod.split intro!: concl_intros)

subsection \<open>The effects of a run\<close>

definition credential_used ::
  "('s, 'c) login_engine \<Rightarrow> account_record \<Rightarrow> resolved_login \<Rightarrow> unit phase \<Rightarrow> page_effect list \<Rightarrow> bool" where
  "credential_used en r cred res tr \<longleftrightarrow>
     tr = [] \<and> \<not> escalated res
     \<or> (\<exists>cx. lc_resolved cx = cred \<and> username_for cred r = Some (lc_username cx)
          \<and> attempts_ok en cx max_submit_attempts res tr)"

lemma trace_use: "traces (credential_used en r cred) (use_credential en i r scope baseline orig form u cred)"
proof -
  have none: "traces (credential_used en r cred) (give_up en i reason)" for reason
    by (rule traces_weaken [OF trace_give_up]) (simp add: stopped_def credential_used_def)
  have some: "traces (credential_used en r cred) (login_with en cx form u)"
    if "lc_resolved cx = cred" "username_for cred r = Some (lc_username cx)" for cx
    by (rule traces_weaken [OF trace_login_with]) (use that in \<open>auto simp: credential_used_def\<close>)
  have "traces (credential_used en r cred) (case username_for cred r of
       None \<Rightarrow> give_up en i ''no username available (credential login hint and account record both empty)''
     | Some name \<Rightarrow> login_with en
           \<lparr>lc_account = i, lc_record = r, lc_origin = orig, lc_resolved = cred, lc_username = name,
            lc_scope = scope, lc_baseline = baseline\<rparr> form u)"
    by (cases "username_for cred r") (simp_all only: option.case none some login_context.select_convs)
  then show ?thesis
    unfolding use_credential_def
    by (rule traces_mute_then [OF mute_prims(4) traces_mute_then [OF mute_prims(7)]])
qed

text \<open>The same from a given state of the credential source.\<close>

definition traces_at :: "'c \<Rightarrow> ('a \<Rightarrow> page_effect list \<Rightarrow> bool) \<Rightarrow> ('a, 's, 'c) login_act \<Rightarrow> bool" where
  "traces_at c T m \<longleftrightarrow>
     (\<forall>st. gs_source st = c \<longrightarrow> wp m (\<lambda>res st'. \<exists>tr. gs_effects st' = gs_effects st @ tr \<and> T res tr) st)"

lemma traces_traces_at: "traces T m \<Longrightarrow> traces_at c T m"
  by (simp add: traces_def traces_at_def)

lemma traces_at_then:
  fixes m :: "('a, 's, 'c) login_act"
  assumes "traces Ta m" and "still m" and "\<And>a. traces_at c (Tb a) (f a)"
    and "\<And>a t1 b t2. Ta a t1 \<Longrightarrow> Tb a b t2 \<Longrightarrow> T b (t1 @ t2)"
  shows "traces_at c T (then_do m f)"
  unfolding traces_at_def wp_then
proof (intro allI impI)
  fix st :: "('s, 'c) login_state"
  assume c: "gs_source st = c"
  have "wp m (\<lambda>a st'. (\<exists>tr. gs_effects st' = gs_effects st @ tr \<and> Ta a tr) \<and> gs_source st' = gs_source st) st"
    by (rule wp_both) (use assms(1,2) in \<open>simp_all add: traces_def unchanged_def\<close>)
  then show "wp m (\<lambda>a. wp (f a) (\<lambda>res st'. \<exists>tr. gs_effects st' = gs_effects st @ tr \<and> T res tr)) st"
  proof (rule wp_mono)
    fix a and st' :: "('s, 'c) login_state"
    assume "(\<exists>tr. gs_effects st' = gs_effects st @ tr \<and> Ta a tr) \<and> gs_source st' = gs_source st"
    then obtain t1 where t1: "gs_effects st' = gs_effects st @ t1" "Ta a t1" and "gs_source st' = c" using c by auto
    then have "wp (f a) (\<lambda>b st''. \<exists>tr. gs_effects st'' = gs_effects st' @ tr \<and> Tb a b tr) st'"
      using assms(3) [of a] unfolding traces_at_def by blast
    then show "wp (f a) (\<lambda>res st'. \<exists>tr. gs_effects st' = gs_effects st @ tr \<and> T res tr) st'"
    proof (rule wp_mono)
      fix b and st'' :: "('s, 'c) login_state"
      assume "\<exists>tr. gs_effects st'' = gs_effects st' @ tr \<and> Tb a b tr"
      then obtain t2 where t2: "gs_effects st'' = gs_effects st' @ t2" "Tb a b t2" by blast
      with t1 assms(4) [OF t1(2) t2(2)] show "\<exists>tr. gs_effects st'' = gs_effects st @ tr \<and> T b tr" by auto
    qed
  qed
qed

lemma traces_at_mute_then:
  assumes "mute m" and "still m" and "\<And>a. traces_at c T (f a)"
  shows "traces_at c T (then_do m f)"
  by (rule traces_at_then [OF traces_mute [OF assms(1)] assms(2), where Tb = "\<lambda>a. T"]) (simp_all add: assms(3))

lemma traces_at_look:
  "(\<And>st. gs_source st = c \<Longrightarrow> g st = v) \<Longrightarrow> traces_at c T (f v) \<Longrightarrow> traces_at c T (then_do (look g) f)"
  unfolding traces_at_def by (auto simp: wp_then wp_look)

lemma traces_at_give: "T a [] \<Longrightarrow> traces_at c T (give a)"
  by (simp add: traces_at_def wp_simps)

lemma traces_at_try_value:
  "(\<And>a. traces_at c T (f a)) \<Longrightarrow> (\<And>e. T (Inl e) []) \<Longrightarrow> traces_at c T (try_do (give v) f)"
  unfolding try_do_def
  by (rule traces_at_mute_then [OF unchanged_value(1) unchanged_value(1)]) (auto split: sum.split intro: traces_at_give)

lemma traces_at_phase:
  assumes "traces Ta m" and "still m" and "\<And>a. traces_at c (Tb a) (f a)"
    and "\<And>e t. Ta (Inl e) t \<Longrightarrow> T (Inl e) t" and "\<And>out t. Ta (Inr (Inl out)) t \<Longrightarrow> T (Inr (Inl out)) t"
    and "\<And>a t1 b t2. Ta (Inr (Inr a)) t1 \<Longrightarrow> Tb a b t2 \<Longrightarrow> T b (t1 @ t2)"
  shows "traces_at c T (phase_do m f)"
  unfolding phase_do_def try_do_def
proof (rule traces_at_then [OF assms(1,2), where Tb = "\<lambda>res b t2. case res of Inl e \<Rightarrow> b = Inl e \<and> t2 = []
    | Inr (Inl out) \<Rightarrow> b = Inr (Inl out) \<and> t2 = [] | Inr (Inr a) \<Rightarrow> Tb a b t2"])
  fix res
  show "traces_at c (\<lambda>b t2. case res of Inl e \<Rightarrow> b = Inl e \<and> t2 = [] | Inr (Inl out) \<Rightarrow> b = Inr (Inl out) \<and> t2 = [] | Inr (Inr a) \<Rightarrow> Tb a b t2)
      (case res of Inl e \<Rightarrow> give (Inl e) | Inr r \<Rightarrow> (case r of Inl out \<Rightarrow> give (Inr (Inl out)) | Inr a \<Rightarrow> f a))"
    using assms(3) by (auto split: sum.split intro!: traces_at_give)
next
  fix res t1 b t2
  assume "Ta res t1" "case res of Inl e \<Rightarrow> b = Inl e \<and> t2 = [] | Inr (Inl out) \<Rightarrow> b = Inr (Inl out) \<and> t2 = [] | Inr (Inr a) \<Rightarrow> Tb a b t2"
  with assms(4-6) show "T b (t1 @ t2)" by (auto split: sum.splits)
qed

lemma traces_at_then_post:
  fixes m :: "('a, 's, 'c) login_act"
  assumes "mute m" and "\<And>st. gs_source st = c \<Longrightarrow> wp m (\<lambda>a st'. R a) st" and "\<And>a. R a \<Longrightarrow> traces T (f a)"
  shows "traces_at c T (then_do m f)"
  unfolding traces_at_def wp_then
proof (intro allI impI)
  fix st :: "('s, 'c) login_state"
  assume c: "gs_source st = c"
  have "wp m (\<lambda>a st'. gs_effects st' = gs_effects st) st" using assms(1) by (simp add: unchanged_def)
  from wp_both [OF this assms(2) [OF c]]
  show "wp m (\<lambda>a. wp (f a) (\<lambda>res st'. \<exists>tr. gs_effects st' = gs_effects st @ tr \<and> T res tr)) st"
  proof (rule wp_mono)
    fix a and st' :: "('s, 'c) login_state"
    assume same: "gs_effects st' = gs_effects st \<and> R a"
    with assms(3) have "traces T (f a)" by blast
    then have "wp (f a) (\<lambda>res st''. \<exists>tr. gs_effects st'' = gs_effects st' @ tr \<and> T res tr) st'"
      unfolding traces_def by (rule spec)
    with same show "wp (f a) (\<lambda>res st'. \<exists>tr. gs_effects st' = gs_effects st @ tr \<and> T res tr) st'" by simp
  qed
qed

text \<open>The credential is resolved by the source in the state \<open>c\<close>, for the origin of the candidate \<open>u\<close>.\<close>

definition resolved_ok ::
  "('s, 'c) login_engine \<Rightarrow> account_record \<Rightarrow> 'c \<Rightarrow> url \<Rightarrow> unit phase \<Rightarrow> page_effect list \<Rightarrow> bool" where
  "resolved_ok en r c u res tr \<longleftrightarrow>
     tr = [] \<and> \<not> escalated res
     \<or> (\<exists>page cred c'. origin_parse (origin_parser en) (url_as_str u) = Inr page
          \<and> sc_resolve_login (en_source en) (ac_credentials r) (ac_scope r) page c = (Inr cred, c')
          \<and> credential_used en r cred res tr)"

lemma trace_resolve:
  fixes c :: 'c and en :: "('s, 'c) login_engine"
  shows "traces_at c (resolved_ok en r c u) (resolve_and_login en i r scope baseline form u)"
proof (cases "origin_parse (origin_parser en) (url_as_str u)")
  case (Inl e)
  show ?thesis unfolding resolve_and_login_def Inl sum.case by (rule traces_at_give) (simp add: resolved_ok_def)
next
  case (Inr orig)
  let ?R = "\<lambda>res. \<exists>c'. sc_resolve_login (en_source en) (ac_credentials r) (ac_scope r) orig c = (res, c')"
  have no_mfa: "\<not> mfa_missing err ''login''" for err
    by (cases err) (simp_all add: mfa_missing_def)
  have "traces (resolved_ok en r c u) (abort_on_source_error en i err ''login'')" for err
    by (rule traces_weaken [OF trace_abort [OF no_mfa]]) (simp add: stopped_def resolved_ok_def)
  note stop = this
  have use: "traces (resolved_ok en r c u) (use_credential en i r scope baseline orig form u cred)" if "?R (Inr cred)" for cred
    by (rule traces_weaken [OF trace_use]) (use that Inr in \<open>auto simp: resolved_ok_def\<close>)
  have "traces (resolved_ok en r c u) (case res of Inl err \<Rightarrow> abort_on_source_error en i err ''login''
      | Inr cred \<Rightarrow> use_credential en i r scope baseline orig form u cred)"
    if "?R res" for res
  proof (cases res)
    case (Inl err)
    show ?thesis unfolding Inl sum.case by (rule stop)
  next
    case (Inr cred)
    with that have "?R (Inr cred)" by blast
    then show ?thesis unfolding Inr sum.case by (rule use)
  qed
  moreover have "wp (resolve_credential en r orig) (\<lambda>res st'. ?R res) st" if "gs_source st = c" for st :: "('s, 'c) login_state"
    using that by (auto simp: resolve_credential_def wp_simps) (metis prod.collapse)
  ultimately show ?thesis
    unfolding resolve_and_login_def Inr sum.case
    by (intro traces_at_then_post [OF mute_steps(6), where R = ?R])
qed

text \<open>The candidates of a login: those of the record and the hints the source gives in the state \<open>c\<close>.\<close>

definition login_urls :: "('s, 'c) login_engine \<Rightarrow> account_record \<Rightarrow> 'c \<Rightarrow> url list" where
  "login_urls en r c =
     login_candidates (en_urls en) r (sc_origin_hints (en_source en) (ac_credentials r) (ac_scope r) c)"

definition run_effects ::
  "('s, 'c) login_engine \<Rightarrow> account_record \<Rightarrow> 'c \<Rightarrow> unit phase \<Rightarrow> page_effect list \<Rightarrow> bool" where
  "run_effects en r c res tr \<longleftrightarrow>
     (\<exists>n tr'. tr = map EffNavigate (take n (login_urls en r c)) @ tr'
        \<and> (tr' = [] \<and> \<not> escalated res
           \<or> 0 < n \<and> n \<le> length (login_urls en r c) \<and> resolved_ok en r c (login_urls en r c ! (n - 1)) res tr'))"

lemma run_effects_search:
  "\<not> escalated res \<Longrightarrow> run_effects en r c res (map EffNavigate (take n (login_urls en r c)))"
  unfolding run_effects_def by (intro exI [of _ n] exI [of _ "[]"]) simp

lemma run_effects_Nil: "\<not> escalated res \<Longrightarrow> run_effects en r c res []"
  using run_effects_search [of res en r c 0] by simp

lemma run_effects_found:
  assumes "found_ok (login_urls en r c) n found"
    and "case found of None \<Rightarrow> t2 = [] \<and> \<not> escalated res | Some (f, u) \<Rightarrow> resolved_ok en r c u res t2"
  shows "run_effects en r c res (map EffNavigate (take n (login_urls en r c)) @ t2)"
proof (cases found)
  case None
  with assms(2) run_effects_search show ?thesis by auto
next
  case (Some fu)
  obtain f u where "fu = (f, u)" by fastforce
  with Some assms show ?thesis
    unfolding run_effects_def found_ok_def by (intro exI [of _ n] exI [of _ t2]) auto
qed

lemma trace_search:
  "traces_at c (run_effects en r c)
     (phase_do (find_login_page en (ac_account_id r) (login_urls en r c)) (\<lambda>found.
     case found of
       None \<Rightarrow> give_up en i ''login form not found''
     | Some (form, u) \<Rightarrow> resolve_and_login en i r scope baseline form u))"
proof (rule traces_at_phase [OF trace_find still_find])
  fix found :: "(login_form \<times> url) option"
  show "traces_at c (\<lambda>res tr. case found of None \<Rightarrow> tr = [] \<and> \<not> escalated res | Some (f, u) \<Rightarrow> resolved_ok en r c u res tr) (case found of
       None \<Rightarrow> give_up en i ''login form not found''
     | Some (form, u) \<Rightarrow> resolve_and_login en i r scope baseline form u)"
  proof (cases found)
    case None
    show ?thesis unfolding None option.case
      by (rule traces_traces_at, rule traces_weaken [OF trace_give_up]) (simp add: stopped_def)
  next
    case (Some fu)
    obtain f u where fu: "fu = (f, u)" by fastforce
    show ?thesis unfolding Some fu option.case prod.case by (rule trace_resolve)
  qed
next
  fix res :: "unit phase" and t1 t2 and found :: "(login_form \<times> url) option"
  assume "find_ok (login_urls en r c) (Inr (Inr found)) t1"
    and t2: "case found of None \<Rightarrow> t2 = [] \<and> \<not> escalated res | Some (f, u) \<Rightarrow> resolved_ok en r c u res t2"
  then obtain n where "t1 = map EffNavigate (take n (login_urls en r c))" "found_ok (login_urls en r c) n found"
    by (auto simp: find_ok_def)
  with run_effects_found [OF _ t2] show "run_effects en r c res (t1 @ t2)" by blast
next
  fix out t
  assume "find_ok (login_urls en r c) (Inr (Inl out)) t"
  then show "run_effects en r c (Inr (Inl out)) t"
    by (auto simp: find_ok_def escalated_def intro: run_effects_search)
next
  fix e t
  assume "find_ok (login_urls en r c) (Inl e) t"
  then show "run_effects en r c (Inl e) t" by (auto simp: find_ok_def intro: run_effects_search)
qed

lemma trace_restore: "traces (\<lambda>res tr. tr = [] \<and> \<not> escalated res) (restore_jar en i r)"
  unfolding restore_jar_def proceed_def finish_with_def try_do_def
  by (auto split: sum.split probe_verdict.split intro!: traces_mute_then traces_give quiet_intros)

lemma trace_run: "traces_at c (run_effects en r c) (run_inner en i r)"
  unfolding run_inner_def
proof (intro traces_at_try_value)
  fix scope
  have fresh: "traces_at c (run_effects en r c) (then_do (report en i Fresh) (\<lambda>_.
     then_do (look (\<lambda>st. snapshot_session (en_session en) scope (gs_session st))) (\<lambda>baseline.
     then_do (look (\<lambda>st. sc_origin_hints (en_source en) (ac_credentials r) (ac_scope r) (gs_source st))) (\<lambda>hints.
     phase_do (find_login_page en (ac_account_id r) (login_candidates (en_urls en) r hints)) (\<lambda>found.
     case found of
       None \<Rightarrow> give_up en i ''login form not found''
     | Some (form, u) \<Rightarrow> resolve_and_login en i r scope baseline form u)))))"
    by (intro traces_at_mute_then mute_prims still_prims unchanged_value
        traces_at_look [where v = "sc_origin_hints (en_source en) (ac_credentials r) (ac_scope r) c"]
        trace_search [unfolded login_urls_def [symmetric]]) (simp_all add: trace_search [unfolded login_urls_def])
  show "traces_at c (run_effects en r c) (phase_do (restore_jar en i r) (\<lambda>_.
     then_do (report en i Fresh) (\<lambda>_.
     then_do (look (\<lambda>st. snapshot_session (en_session en) scope (gs_session st))) (\<lambda>baseline.
     then_do (look (\<lambda>st. sc_origin_hints (en_source en) (ac_credentials r) (ac_scope r) (gs_source st))) (\<lambda>hints.
     phase_do (find_login_page en (ac_account_id r) (login_candidates (en_urls en) r hints)) (\<lambda>found.
     case found of
       None \<Rightarrow> give_up en i ''login form not found''
     | Some (form, u) \<Rightarrow> resolve_and_login en i r scope baseline form u))))))"
    by (rule traces_at_phase [OF trace_restore still_restore, where Tb = "\<lambda>a. run_effects en r c"])
      (simp_all add: fresh run_effects_Nil)
qed (simp add: run_effects_Nil)

end
