(* ===== verification/LoginGuarantees.thy ===== *)
theory LoginGuarantees
  imports AgentLogin
begin

text \<open>
  What the unattended login of theory AgentLogin promises: the state it leaves the account in,
  the origin a session is captured on, the order of what it does to the page; and the gates of a
  credential source (locale \<open>gated_source\<close>, provided by the broker of theory Broker) seen from the
  page. A scripted page (\<open>demo_ops\<close>) serves as the concrete run.
\<close>

section \<open>Lemmas: opening the window\<close>

definition recovered :: "string \<Rightarrow> ('s, 'c) login_state \<Rightarrow> ('s, 'c) login_state \<Rightarrow> bool" where
  "recovered i st st' \<longleftrightarrow> registry_in st' = registry_in st \<or> in_state i NeedsLogin (gs_manager st')"

lemma recovered_refl [simp]: "recovered i st st"
  by (simp add: recovered_def)

lemma registry_get_stored:
  "reg_ok (mg_registry mg) \<Longrightarrow> registry_get i (mg_registry mg) = Inr r \<Longrightarrow> stored i r mg"
  using registry_get_Inr by (auto simp: stored_def)

lemma open_window_post:
  assumes "reg_ok (registry_in st)" and "registry_get i (registry_in st) = Inr r"
  shows "wp (open_window en i r) (\<lambda>res st'. reg_ok (registry_in st') \<and> recovered i st st'
    \<and> (\<forall>r'. res = Inr r' \<longrightarrow> stored i r' (gs_manager st'))) st"
proof -
  have st: "stored i r (gs_manager st)" using assms by (rule registry_get_stored)
  show ?thesis
  proof (cases "ac_state r = LoggingIn")
    case False
    then show ?thesis using assms(1) st by (simp add: open_window_def wp_simps)
  next
    case True
    with st have in': "in_state i LoggingIn (gs_manager st)" by (auto simp: in_state_def stored_def)
    obtain res mg' where locked: "set_state_locked (en_manager en) i NeedsLogin (Some ''recovered_orphaned_login_window'') (gs_manager st)
        = (res, mg')" by fastforce
    show ?thesis
    proof (cases res)
      case (Inl e)
      with locked have "mg_registry mg' = registry_in st" using set_state_locked_Inl by blast
      with True Inl locked assms(1) show ?thesis by (simp add: open_window_def wp_simps recovered_def)
    next
      case (Inr r1)
      from set_state_locked_Inr [OF locked [unfolded Inr] in'] have "stored i r1 mg'" "ac_state r1 = NeedsLogin" by auto
      moreover from this have "in_state i NeedsLogin mg'" by (auto simp: in_state_def stored_def)
      ultimately show ?thesis
        using True Inr locked by (auto simp: open_window_def wp_simps recovered_def stored_def dest: registry_get_Inr)
    qed
  qed
qed

lemma enter_window_post:
  assumes "stored i r (gs_manager st)"
  shows "wp (enter_logging_in en i r) (\<lambda>res st'. case res of Inl e \<Rightarrow> registry_in st' = registry_in st
    | Inr _ \<Rightarrow> window i st') st"
proof -
  obtain res mg' where locked: "set_state_locked (en_manager en) i LoggingIn (Some (''login_started:agent:'' @ en_agent_id en)) (gs_manager st)
        = (res, mg')" by fastforce
  have in': "in_state i (ac_state r) (gs_manager st)" using assms by (auto simp: in_state_def stored_def)
  show ?thesis
  proof (cases res)
    case (Inl e)
    with locked have "mg_registry mg' = registry_in st" using set_state_locked_Inl by blast
    with locked Inl show ?thesis by (simp add: enter_logging_in_def Let_def wp_simps)
  next
    case (Inr r1)
    from set_state_locked_Inr [OF locked [unfolded Inr] in'] have "stored i r1 mg'" "ac_state r1 = LoggingIn" by auto
    then have "in_state i LoggingIn mg'" by (auto simp: in_state_def stored_def)
    with Inr locked show ?thesis
      by (simp add: enter_logging_in_def Let_def wp_simps publish_def window_def in_state_def)
  qed
qed

text \<open>A login up to the moment its window is open, and the rest of it.\<close>

definition login_opening :: "('s, 'c) login_engine \<Rightarrow> string \<Rightarrow> (core_error + account_record, 's, 'c) login_act" where
  "login_opening en i =
     try_do (look (\<lambda>st. registry_get i (mg_registry (gs_manager st)))) (\<lambda>r.
     try_do (open_window en i r) (\<lambda>r.
     then_do (report en i Started) (\<lambda>_.
     try_do (enter_logging_in en i r) (\<lambda>_. give (Inr r)))))"

lemma then_assoc: "then_do (then_do m f) g = then_do m (\<lambda>a. then_do (f a) g)"
  by (rule ext) (simp add: then_do_def split: flow.split)

lemma try_give: "try_do (give (Inl e)) g = give (Inl e)" "try_do (give (Inr a)) g = g a"
  by (rule ext, simp add: try_do_def then_do_def give_def)+

lemma try_then: "try_do (then_do m f) g = then_do m (\<lambda>a. try_do (f a) g)"
  by (simp add: try_do_def then_assoc)

lemma try_assoc: "try_do (try_do m f) g = try_do m (\<lambda>a. try_do (f a) g)"
proof -
  have "try_do (case res of Inl e \<Rightarrow> give (Inl e) | Inr a \<Rightarrow> f a) g
      = (case res of Inl e \<Rightarrow> give (Inl e) | Inr a \<Rightarrow> try_do (f a) g)" for res
    by (cases res) (simp_all add: try_give)
  then show ?thesis by (simp add: try_do_def [of m] try_then)
qed

lemma login_split:
  "login en i = try_do (login_opening en i) (\<lambda>r.
     then_do (run_inner en i r) (\<lambda>res. then_do (publish en (outcome_event en i res)) (\<lambda>_. give res)))"
  by (simp add: login_def login_opening_def try_assoc try_then try_give)

text \<open>What a run of an opened window ends with.\<close>

definition closed_post :: "('s, 'c) login_engine \<Rightarrow> string \<Rightarrow> unit phase \<Rightarrow> ('s, 'c) login_state \<Rightarrow> bool" where
  "closed_post en i res st' \<longleftrightarrow>
     (case res of
        Inl e \<Rightarrow> window i st'
      | Inr (Inl out) \<Rightarrow> settled en i out st'
      | Inr (Inr _) \<Rightarrow> False)"

lemma settled_cong:
  assumes "registry_in st' = registry_in st"
  shows "settled en i out st' = settled en i out st"
proof -
  have "stored i r (gs_manager st') = stored i r (gs_manager st)" for r using assms by (simp add: stored_def)
  moreover have "undisturbed en i st' = undisturbed en i st" using assms by (simp add: undisturbed_def)
  ultimately show ?thesis by (cases out) simp_all
qed

lemma closed_post_cong: "registry_in st2 = registry_in st1 \<Longrightarrow> closed_post en i res st2 = closed_post en i res st1"
  by (cases res) (auto simp: closed_post_def window_cong [of st2 st1] settled_cong [of st2 st1] split: sum.split)

lemma quiet_wp:
  assumes "quiet m" and "\<And>a st'. registry_in st' = registry_in st \<Longrightarrow> Q a st'"
  shows "wp m Q st"
proof -
  have "wp m (\<lambda>a st'. registry_in st' = registry_in st) st" using assms(1) by (simp add: unchanged_def)
  then show ?thesis by (rule wp_mono) (rule assms(2))
qed

lemma run_post:
  fixes st1 :: "('s, 'c) login_state"
  assumes "window i st1" and "ac_account_id r = i"
  shows "wp (then_do (run_inner en i r) (\<lambda>res. then_do (publish en (outcome_event en i res)) (\<lambda>_. give res)))
    (closed_post en i) st1"
  unfolding wp_then wp_give
proof (rule wp_mono [OF wp_both])
  show "wp (run_inner en i r) (after_phase en i) st1"
    using settles_run [OF assms(2), of en] assms(1) by (simp add: settles_def)
  show "wp (run_inner en i r) (\<lambda>res st'. halted res) st1"
    using run_concludes [of en i r] by (simp add: concludes_def)
  fix res :: "unit phase" and st2 :: "('s, 'c) login_state"
  assume post: "after_phase en i res st2 \<and> halted res"
  have "closed_post en i res st2"
    using post by (auto simp: closed_post_def halted_def split: sum.split)
  then show "wp (publish en (outcome_event en i res)) (\<lambda>_. closed_post en i res) st2"
    using closed_post_cong by (intro quiet_wp quiet_prims(3)) blast
qed

definition opened_post ::
  "string \<Rightarrow> ('s, 'c) login_state \<Rightarrow> core_error + account_record \<Rightarrow> ('s, 'c) login_state \<Rightarrow> bool" where
  "opened_post i st res st' \<longleftrightarrow>
     (case res of Inl e \<Rightarrow> recovered i st st' | Inr r \<Rightarrow> window i st' \<and> ac_account_id r = i)"

lemma opening_post:
  fixes st :: "('s, 'c) login_state"
  assumes ok: "reg_ok (registry_in st)"
  shows "wp (login_opening en i) (opened_post i st) st"
    (is "wp _ ?Q st")
proof (cases "registry_get i (registry_in st)")
  case (Inl e)
  then show ?thesis by (simp add: login_opening_def wp_simps opened_post_def)
next
  case (Inr r)
  have enter: "wp (try_do (enter_logging_in en i r1) (\<lambda>_. give (Inr r1))) ?Q st2"
    if st2: "stored i r1 (gs_manager st2)" "recovered i st st2" for r1 and st2 :: "('s, 'c) login_state"
    unfolding wp_try wp_give
  proof (rule wp_mono [OF enter_window_post [OF st2(1)]])
    fix res :: "core_error + unit" and st3 :: "('s, 'c) login_state"
    assume opened: "case res of Inl e \<Rightarrow> registry_in st3 = registry_in st2 | Inr _ \<Rightarrow> window i st3"
    have "ac_account_id r1 = i" using st2(1) by (auto simp: stored_def reg_ok_def)
    with opened st2(2) show "(case res of Inl e \<Rightarrow> ?Q (Inl e) | Inr a \<Rightarrow> ?Q (Inr r1)) st3"
      by (auto simp: opened_post_def recovered_def in_state_def split: sum.splits)
  qed
  have reported: "wp (then_do (report en i Started) (\<lambda>_. try_do (enter_logging_in en i r1) (\<lambda>_. give (Inr r1)))) ?Q st1"
    if "stored i r1 (gs_manager st1)" "recovered i st st1" for r1 and st1 :: "('s, 'c) login_state"
    unfolding wp_then
    by (rule quiet_wp [OF quiet_prims(4)], rule enter)
      (use that in \<open>auto simp: stored_def recovered_def in_state_def\<close>)
  show ?thesis
    unfolding login_opening_def wp_try [of "look _"] wp_look Inr sum.case wp_try [of "open_window _ _ _"]
  proof (rule wp_mono [OF open_window_post [OF ok Inr]])
    fix res :: "core_error + account_record" and st1 :: "('s, 'c) login_state"
    assume st1: "reg_ok (registry_in st1) \<and> recovered i st st1 \<and> (\<forall>r'. res = Inr r' \<longrightarrow> stored i r' (gs_manager st1))"
    show "(case res of Inl e \<Rightarrow> ?Q (Inl e) | Inr r1 \<Rightarrow>
        wp (then_do (report en i Started) (\<lambda>_. try_do (enter_logging_in en i r1) (\<lambda>_. give (Inr r1)))) ?Q) st1"
    proof (cases res)
      case (Inr r1)
      with st1 have "stored i r1 (gs_manager st1)" "recovered i st st1" by simp_all
      from reported [OF this] show ?thesis unfolding Inr sum.case .
    qed (use st1 in \<open>simp add: opened_post_def\<close>)
  qed
qed

lemma login_settles:
  fixes st :: "('s, 'c) login_state"
  assumes "reg_ok (registry_in st)" and "login en i st = Value (res, st')"
  shows "\<exists>opened st1. login_opening en i st = Value (opened, st1) \<and>
    (case opened of
       Inl e \<Rightarrow> res = Inl e \<and> st' = st1 \<and> recovered i st st'
     | Inr r \<Rightarrow> window i st1 \<and> closed_post en i res st')"
proof -
  let ?rest = "\<lambda>r. then_do (run_inner en i r) (\<lambda>res. then_do (publish en (outcome_event en i res)) (\<lambda>_. give res))"
  obtain opened st1 where op: "login_opening en i st = Value (opened, st1)"
    using assms(2) by (auto simp: login_split try_do_def then_do_def split: flow.splits)
  note post = wp_Value [OF opening_post [OF assms(1)] op]
  show ?thesis
  proof (cases opened)
    case (Inl e)
    then show ?thesis using post op assms(2) by (simp add: opened_post_def login_split try_do_def then_do_def give_def)
  next
    case (Inr r)
    then have "?rest r st1 = Value (res, st')"
      using op assms(2) by (simp add: login_split try_do_def then_do_def [of "login_opening en i"])
    moreover have "window i st1" "ac_account_id r = i" using post Inr by (simp_all add: opened_post_def)
    ultimately show ?thesis using wp_Value [OF run_post, of i st1 r en res st'] op Inr by simp
  qed
qed

section \<open>Lemmas: the effects of a login\<close>

text \<open>The record a login goes on with, when it had to close an orphaned window first, is the same in all
  that a login reads from it.\<close>

definition same_login :: "account_record \<Rightarrow> account_record \<Rightarrow> bool" where
  "same_login r' r \<longleftrightarrow>
     ac_credentials r' = ac_credentials r \<and> ac_scope r' = ac_scope r \<and> ac_probe r' = ac_probe r \<and> ac_identity r' = ac_identity r"

lemma same_login_refl [simp]: "same_login r r"
  by (simp add: same_login_def)

lemma run_effects_same: "same_login r' r \<Longrightarrow> run_effects en r' c res tr = run_effects en r c res tr"
proof -
  assume "same_login r' r"
  then have eqs: "ac_credentials r' = ac_credentials r" "ac_scope r' = ac_scope r" "ac_probe r' = ac_probe r"
    "ac_identity r' = ac_identity r" by (simp_all add: same_login_def)
  show ?thesis
    unfolding run_effects_def resolved_ok_def credential_used_def username_for_def login_urls_def login_candidates_def eqs
    by (rule refl)
qed

lemma reread_same:
  assumes "registry_get i rg = Inr r" and "set_state i to detail rg = (res, rg')" and "registry_get i rg' = Inr r'"
  shows "same_login r' r"
proof (cases "account_transition to detail r")
  case (Inl e)
  then have "rg' = rg" using assms(1,2) by (simp add: set_state_def)
  with assms(1,3) show ?thesis by simp
next
  case (Inr r1)
  then have r1: "same_login r1 r" by (auto simp: account_transition_def same_login_def split: if_split_asm)
  obtain saved rg1 where save: "registry_save r1 rg = (saved, rg1)" by fastforce
  with assms(1,2) Inr have "rg' = rg1" by (auto simp: set_state_def split: sum.splits)
  with registry_save_cases [OF save, of i] assms(1,3) r1 registry_get_Inr show ?thesis
    by (auto split: if_split_asm)
qed

lemma open_window_same:
  fixes st :: "('s, 'c) login_state"
  assumes "registry_get i (registry_in st) = Inr r"
  shows "wp (open_window en i r) (\<lambda>res st'. \<forall>r'. res = Inr r' \<longrightarrow> same_login r' r) st"
proof (cases "ac_state r = LoggingIn")
  case False
  then show ?thesis by (simp add: open_window_def wp_simps)
next
  case True
  let ?d = "Some ''recovered_orphaned_login_window''"
  obtain res mg' where locked: "set_state_locked (en_manager en) i NeedsLogin ?d (gs_manager st) = (res, mg')" by fastforce
  have "same_login r' r" if "registry_get i (mg_registry mg') = Inr r'" for r'
  proof (cases "me_lock (en_manager en)")
    case (Inl e)
    then have "mg' = gs_manager st" using locked by (simp add: set_state_locked_def)
    with that assms show ?thesis by simp
  next
    case (Inr u)
    obtain res1 rg1 where set: "set_state i NeedsLogin ?d (registry_in st) = (res1, rg1)" by fastforce
    with Inr locked have "mg_registry mg' = rg1" by (auto simp: set_state_locked_def)
    with reread_same [OF assms set] that show ?thesis by simp
  qed
  with True locked show ?thesis by (auto simp: open_window_def wp_simps split: sum.split)
qed

lemma open_window_still: "mute (open_window en i r)" "still (open_window en i r)"
  by (auto simp: open_window_def intro!: quiet_intros)

lemma trace_after_open:
  "traces_at c (run_effects en r c) (then_do (report en i Started) (\<lambda>_. try_do (enter_logging_in en i r) (\<lambda>_.
      then_do (run_inner en i r) (\<lambda>res. then_do (publish en (outcome_event en i res)) (\<lambda>_. give res)))))"
proof -
  have run: "traces_at c (run_effects en r c)
      (then_do (run_inner en i r) (\<lambda>res. then_do (publish en (outcome_event en i res)) (\<lambda>_. give res)))"
    unfolding traces_at_def wp_then wp_give
  proof (intro allI impI)
    fix st :: "('b, 'a) login_state"
    assume "gs_source st = c"
    then have "wp (run_inner en i r) (\<lambda>res st'. \<exists>tr. gs_effects st' = gs_effects st @ tr \<and> run_effects en r c res tr) st"
      using trace_run [of c en r i] unfolding traces_at_def by blast
    then show "wp (run_inner en i r) (\<lambda>res. wp (publish en (outcome_event en i res)) (\<lambda>_ st'. \<exists>tr.
        gs_effects st' = gs_effects st @ tr \<and> run_effects en r c res tr)) st"
      by (rule wp_mono) (simp add: wp_simps publish_def)
  qed
  have "mute (enter_logging_in en i r)" "still (enter_logging_in en i r)"
    unfolding enter_logging_in_def Let_def by (intro quiet_intros)+
  then have "traces_at c (run_effects en r c) (try_do (enter_logging_in en i r) (\<lambda>_.
      then_do (run_inner en i r) (\<lambda>res. then_do (publish en (outcome_event en i res)) (\<lambda>_. give res))))"
    unfolding try_do_def
    by (rule traces_at_mute_then) (auto split: sum.split intro!: run traces_at_give run_effects_Nil)
  then show ?thesis by (rule traces_at_mute_then [OF mute_prims(4) still_prims(5)])
qed

lemma login_traced:
  fixes st :: "('s, 'c) login_state"
  assumes "registry_get i (registry_in st) = Inr r"
  shows "wp (login en i) (\<lambda>res st'. \<exists>tr. gs_effects st' = gs_effects st @ tr \<and> run_effects en r (gs_source st) res tr) st"
    (is "wp _ ?Q st")
proof -
  have "wp (open_window en i r) (\<lambda>res st'. ((\<forall>r'. res = Inr r' \<longrightarrow> same_login r' r)
      \<and> gs_effects st' = gs_effects st) \<and> gs_source st' = gs_source st) st"
    by (intro wp_both open_window_same [OF assms]) (use open_window_still [of en i r] in \<open>simp_all add: unchanged_def\<close>)
  then show ?thesis
    unfolding login_def wp_try [of "look _"] wp_look assms sum.case wp_try [of "open_window _ _ _"]
  proof (rule wp_mono)
    fix res :: "core_error + account_record" and st1 :: "('s, 'c) login_state"
    assume st1: "((\<forall>r'. res = Inr r' \<longrightarrow> same_login r' r) \<and> gs_effects st1 = gs_effects st) \<and> gs_source st1 = gs_source st"
    show "(case res of Inl e \<Rightarrow> ?Q (Inl e) | Inr r \<Rightarrow> wp (then_do (report en i Started) (\<lambda>_. try_do (enter_logging_in en i r) (\<lambda>_.
      then_do (run_inner en i r) (\<lambda>res. then_do (publish en (outcome_event en i res)) (\<lambda>_. give res))))) ?Q) st1"
    proof (cases res)
      case (Inl e)
      with st1 show ?thesis by (simp add: run_effects_Nil)
    next
      case (Inr r')
      with st1 have same: "same_login r' r" by blast
      have eqs: "gs_effects st1 = gs_effects st" "gs_source st1 = gs_source st" using st1 by simp_all
      from trace_after_open [of "gs_source st" en r' i, unfolded traces_at_def, rule_format, OF eqs(2)]
      show ?thesis unfolding Inr sum.case run_effects_same [OF same] eqs(1) .
    qed
  qed
qed

section \<open>The credential source as an interface\<close>

text \<open>
  What a login relies on: every credential its source resolves passed the source's gate, for
  the account's handles and scope and the origin of the page.
\<close>

locale gated_source =
  fixes src :: "'c source_ops" and gate :: "'c \<Rightarrow> string list \<Rightarrow> string \<Rightarrow> origin \<Rightarrow> resolved_login \<Rightarrow> bool"
  assumes resolve_gated: "sc_resolve_login src handles scope page c = (Inr cred, c') \<Longrightarrow> gate c handles scope page cred"
begin

lemma submits_gated:
  assumes "en_source en = src" and "run_effects en r c res tr"
  shows "\<exists>n rest. tr = map EffNavigate (take n (login_urls en r c)) @ rest
    \<and> (rest = [] \<or> 0 < n \<and> n \<le> length (login_urls en r c)
         \<and> (\<exists>page cred. origin_parse (origin_parser en) (url_as_str (login_urls en r c ! (n - 1))) = Inr page
              \<and> gate c (ac_credentials r) (ac_scope r) page cred \<and> credential_used en r cred res rest))"
proof -
  from assms(2) obtain n rest where tr: "tr = map EffNavigate (take n (login_urls en r c)) @ rest"
    "rest = [] \<and> \<not> escalated res \<or> 0 < n \<and> n \<le> length (login_urls en r c)
       \<and> resolved_ok en r c (login_urls en r c ! (n - 1)) res rest"
    unfolding run_effects_def by blast
  show ?thesis
  proof (cases "rest = []")
    case True
    with tr(1) show ?thesis by blast
  next
    case False
    with tr(2) have n: "0 < n" "n \<le> length (login_urls en r c)"
      "resolved_ok en r c (login_urls en r c ! (n - 1)) res rest" by auto
    with False obtain page cred c' where
      "origin_parse (origin_parser en) (url_as_str (login_urls en r c ! (n - 1))) = Inr page"
      "sc_resolve_login src (ac_credentials r) (ac_scope r) page c = (Inr cred, c')" "credential_used en r cred res rest"
      using assms(1) unfolding resolved_ok_def by blast
    with resolve_gated n(1,2) tr(1) show ?thesis by blast
  qed
qed

end

subsection \<open>The broker as a credential source\<close>

text \<open>Its state: the policy engine and the number of calls so far; the clocks are read per call.\<close>

definition broker_source ::
  "policy_env \<Rightarrow> totp_lib \<Rightarrow> (nat \<Rightarrow> string + int) \<Rightarrow> (nat \<Rightarrow> int) \<Rightarrow> provider_ops \<Rightarrow> (policy_engine \<times> nat) source_ops" where
  "broker_source env lib totp_clock now prov =
     \<lparr>sc_resolve_login = (\<lambda>handles scope page c.
        (fst (resolve_login env prov handles scope page (now (snd c)) (fst c)),
         (snd (resolve_login env prov handles scope page (now (snd c)) (fst c)), Suc (snd c)))),
      sc_resolve_totp = (\<lambda>handles scope page c.
        run_bind (resolve_totp env lib (totp_clock (snd c)) prov handles scope page (now (snd c)) (fst c))
          (\<lambda>res. Ret (fst res, (snd res, Suc (snd c))))),
      sc_origin_hints = (\<lambda>handles scope c. origin_hints prov handles scope)\<rparr>"

text \<open>What the broker's own engine, in its state \<open>fst c\<close>, decided at the call, on the clock of that call.\<close>

definition broker_gate ::
  "policy_env \<Rightarrow> (nat \<Rightarrow> int) \<Rightarrow> provider_ops \<Rightarrow> policy_engine \<times> nat \<Rightarrow> string list \<Rightarrow> string \<Rightarrow> origin \<Rightarrow> resolved_login \<Rightarrow> bool"
where
  "broker_gate env now prov c handles scope page cred \<longleftrightarrow>
     page \<in> set (rl_allowed_origins cred)
     \<and> (\<exists>cid meta rest eng'. candidates prov handles scope KPassword = Inr ((cid, meta) # rest)
          \<and> allowlisted (ce_parser (pv_consent env)) meta page = Inr (rl_allowed_origins cred)
          \<and> rl_handle cred = id_str cid \<and> (\<exists>m. po_resolve prov cid = Inr (m, rl_password cred))
          \<and> authorize_use_at env (framed_request cid page ActLogin) (now (snd c)) (fst c) = (Allow, eng'))"

lemma resolve_login_gate:
  assumes "resolve_login env prov handles scope page (now (snd c)) (fst c) = (Inr cred, eng')"
  shows "broker_gate env now prov c handles scope page cred"
proof -
  from resolve_login_Inr [OF assms] obtain cid meta rest allowed eng1 meta' where parts:
    "candidates prov handles scope KPassword = Inr ((cid, meta) # rest)"
    "allowlisted (ce_parser (pv_consent env)) meta page = Inr allowed"
    "authorize_use_at env (framed_request cid page ActLogin) (now (snd c)) (fst c) = (Allow, eng1)"
    "po_resolve prov cid = Inr (meta', rl_password cred)" "rl_handle cred = id_str cid" "rl_allowed_origins cred = allowed" .
  moreover have "page \<in> set allowed" using allowlisted_Inr [OF parts(2)] by blast
  ultimately show ?thesis unfolding broker_gate_def by blast
qed

interpretation broker_login: gated_source "broker_source env lib totp_clock now prov" "broker_gate env now prov"
  for env lib totp_clock now prov
proof
  fix handles scope page and c c' :: "policy_engine \<times> nat" and cred
  assume "sc_resolve_login (broker_source env lib totp_clock now prov) handles scope page c = (Inr cred, c')"
  then have "resolve_login env prov handles scope page (now (snd c)) (fst c)
      = (Inr cred, snd (resolve_login env prov handles scope page (now (snd c)) (fst c)))"
    by (metis (no_types, lifting) broker_source_def fst_conv prod.collapse source_ops.select_convs(1))
  then show "broker_gate env now prov c handles scope page cred" by (rule resolve_login_gate)
qed

section \<open>A scripted page\<close>

text \<open>
  \<open>https://a.com\<close> serves \<open>login_page\<close> at \<open>/login\<close> and an empty page elsewhere; a submitted form
  leads to \<open>/home\<close> with one new session cookie. The argument \<open>land\<close> is where a navigation ends.
  \<open>dm_typed\<close> lists the pages a script ran on.
\<close>

record demo =
  dm_url :: "url option"
  dm_sent :: bool
  dm_typed :: "string list"

definition demo_url :: "string \<Rightarrow> string \<Rightarrow> url" where
  "demo_url host path = sample_url ''https'' host path 443"

definition demo_parse :: "string \<Rightarrow> string + url" where
  "demo_parse s =
     (case find (\<lambda>u. url_as_str u = s)
             [demo_url ''a.com'' ''/'', demo_url ''a.com'' ''/login'', demo_url ''a.com'' ''/home'',
              demo_url ''evil.test'' ''/login'', demo_url ''evil.test'' ''/take''] of
        Some u \<Rightarrow> Inr u
      | None \<Rightarrow> Inl ''unknown'')"

definition demo_urls :: url_lib where
  "demo_urls =
     \<lparr>ul_parse = demo_parse, ul_join = (\<lambda>u. demo_parse),
      ul_set_path = (\<lambda>p u. demo_url (the (url_host_str u)) (if p = [] then ''/'' else p)),
      ul_drop_query = (\<lambda>u. u), ul_drop_fragment = (\<lambda>u. u),
      ul_form = (\<lambda>kvs. concat (map (\<lambda>(k, v). k @ ''='' @ v @ '';'') kvs))\<rparr>"

definition blank_page :: dom_snapshot where
  "blank_page = snapshot_empty\<lparr>sn_nodes := [(0, sample_node 0 [] [] [] None)]\<rparr>"

definition demo_ops :: "(string \<Rightarrow> string) \<Rightarrow> demo session_ops" where
  "demo_ops land =
     \<lparr>so_navigate = (\<lambda>s d. (Inr (), d\<lparr>dm_url := result_ok (demo_parse (land s))\<rparr>)),
      so_snapshot = (\<lambda>d. (Some (if map_option url_path (dm_url d) = Some ''/login'' then login_page else blank_page), d)),
      so_evaluate = (\<lambda>js d. (Inr (), d\<lparr>dm_typed := (case dm_url d of Some u \<Rightarrow> url_as_str u | None \<Rightarrow> []) # dm_typed d\<rparr>)),
      so_post = (\<lambda>u body ty d. (Inr (), d\<lparr>dm_url := Some (demo_url ''a.com'' ''/home''), dm_sent := True\<rparr>)),
      so_http = (\<lambda>u d. (Inl ''down'', d)),
      so_fetch_challenge = (\<lambda>u k d. (Inr None, d)),
      so_import = (\<lambda>st d. (Inr (), d)),
      so_export_scope = (\<lambda>d scope. \<lparr>ss_cookies = [], ss_origins = []\<rparr>),
      so_effective_ua = (\<lambda>d. ''ua''),
      so_cookies = (\<lambda>d. if dm_sent d then [(sample_cookie ''sid'')\<lparr>ck_domain := Some ''a.com''\<rparr>] else []),
      so_current_url = dm_url,
      so_history = (\<lambda>d. if dm_sent d then [demo_url ''a.com'' ''/login'', demo_url ''a.com'' ''/home''] else []),
      so_expired = (\<lambda>d. (False, d)),
      so_sleep = (\<lambda>d. d)\<rparr>"

definition demo_record :: account_record where
  "demo_record = (sample_record NeedsLogin)
     \<lparr>ac_credentials := [''kch:main/a.com/password/me''],
      ac_identity := \<lparr>ic_display_name = None, ic_login_hint = Some ''me'', ic_avatar_url = None\<rparr>\<rparr>"

definition demo_manager :: "bool \<Rightarrow> manager" where
  "demo_manager writable =
     (sample_manager NeedsLogin)\<lparr>mg_registry :=
        \<lparr>rg_dirs = [(''acct'', empty_dir\<lparr>ad_record := Some (GoodRecord demo_record)\<rparr>)], rg_writable = writable\<rparr>\<rparr>"

definition demo_web :: web_env where
  "demo_web = sample_env\<lparr>psl_domain := (\<lambda>d. if ends_with d ''a.com'' then Some ''a.com'' else None)\<rparr>"

definition demo_probe_rx :: probe_regex where
  "demo_probe_rx =
     \<lparr>pr_attr_find = (\<lambda>a t. []), pr_attr_value = (\<lambda>a t. None), pr_password_input = (\<lambda>t. False),
      pr_form_opens = (\<lambda>t. []), pr_action = (\<lambda>t. None)\<rparr>"

definition demo_totp_lib :: totp_lib where
  "demo_totp_lib =
     \<lparr>from_url_unchecked = (\<lambda>s. Inl ''none''), try_from_base32 = (\<lambda>s. Inl ''none''),
      build_noncompliant = (\<lambda>a d k p n s. sample_totp)\<rparr>"

definition demo_source :: "(policy_engine \<times> nat) source_ops" where
  "demo_source =
     broker_source sample_policy_env demo_totp_lib (\<lambda>k. Inr 0) (\<lambda>k. 500)
       (mem_ops (fold (provider_step sample_parser) [PutCred ''t'' sample_credential] []))"

definition demo_engine :: "(string \<Rightarrow> string) \<Rightarrow> (demo, policy_engine \<times> nat) login_engine" where
  "demo_engine land =
     \<lparr>en_login_id = ''lg-1'', en_agent_id = ''main'', en_session = demo_ops land, en_source = demo_source,
      en_manager = sample_manager_env, en_web = demo_web, en_probe_rx = demo_probe_rx, en_dom_rx = sample_regex,
      en_urls = demo_urls, en_quote = (\<lambda>s. s), en_checked = True, en_listening = True\<rparr>"

definition demo_start :: "(demo, policy_engine \<times> nat) login_state" where
  "demo_start =
     \<lparr>gs_session = \<lparr>dm_url = None, dm_sent = False, dm_typed = []\<rparr>,
      gs_source = (sample_engine [LGrant (sample_grant ''c-1'' 1)], 0),
      gs_manager = demo_manager True, gs_events = [], gs_effects = []\<rparr>"

text \<open>What a run ends with, from a start with the given landing of navigations.\<close>

definition demo_result :: "(string \<Rightarrow> string) \<Rightarrow> (int option \<times> page_effect list \<times> string list) option" where
  "demo_result land =
     (case login (demo_engine land) ''acct'' demo_start of
        Value (Inr (Inl (Captured r score)), st) \<Rightarrow> Some (score, gs_effects st, dm_typed (gs_session st))
      | _ \<Rightarrow> None)"

lemma demo_run:
  "demo_result (\<lambda>s. s) = Some (Some 6,
     [EffNavigate (demo_url ''a.com'' ''/''), EffNavigate (demo_url ''a.com'' ''/login''),
      EffFill ''#who'' ''me'', EffFill ''#pw'' ''pw'', EffSubmit (demo_url ''evil.test'' ''/take'') ''email=me;pw=pw;''],
     [''https://a.com/login'', ''https://a.com/login''])"
  by code_simp

lemma demo_landing:
  "demo_result (\<lambda>s. if s = ''https://a.com/login'' then ''https://evil.test/login'' else s) = Some (Some 6,
     [EffNavigate (demo_url ''a.com'' ''/''), EffNavigate (demo_url ''a.com'' ''/login''),
      EffFill ''#who'' ''me'', EffFill ''#pw'' ''pw'', EffSubmit (demo_url ''evil.test'' ''/take'') ''email=me;pw=pw;''],
     [''https://evil.test/login'', ''https://evil.test/login''])"
  by code_simp

lemma demo_value:
  assumes "demo_result land = Some (score, sent, typed)"
  obtains r st where "login (demo_engine land) ''acct'' demo_start = Value (Inr (Inl (Captured r score)), st)"
    "gs_effects st = sent" "dm_typed (gs_session st) = typed"
  using assms unfolding demo_result_def
  by (auto split: flow.splits prod.splits sum.splits agent_login_outcome.splits)

lemma demo_record_of: "record_of ''acct'' (registry_in demo_start) = Some demo_record"
  by (simp add: record_of_def demo_start_def demo_manager_def)

lemma demo_ok: "reg_ok (registry_in demo_start)"
  by (auto simp: reg_ok_def record_of_def demo_start_def demo_manager_def demo_record_def sample_record_def split: if_splits)

lemma demo_get: "registry_get ''acct'' (registry_in demo_start) = Inr demo_record"
  by code_simp

section \<open>Properties\<close>



text \<open>
  C9: What an unattended login does to the page, in order, for an account of any state: it visits a
  beginning of its list of candidates (those of the record, and the hints the source gives in the state
  it is in at the start); then, only if the source, in that state, resolved a credential for the origin
  of the candidate the search stopped at, it makes at most two attempts with that credential, each a
  beginning of: user name, password, submit, code field, code submit; and it escalates only right after
  the submit of its last attempt. The user name is the credential's, or the account's if it has none.
\<close>
theorem agent_login_effects:
  assumes "login en i st = Value (res, st')" and "registry_get i (registry_in st) = Inr r"
  shows "\<exists>n trs.
    let us = login_candidates (en_urls en) r
          (sc_origin_hints (en_source en) (ac_credentials r) (ac_scope r) (gs_source st)) in
    gs_effects st' = gs_effects st @ map EffNavigate (take n us) @ concat trs
    \<and> (trs = [] \<and> \<not> escalated res
       \<or> 0 < n \<and> n \<le> length us \<and> length trs \<le> 2
         \<and> (\<exists>page cx c'. origin_parse (origin_parser en) (url_as_str (us ! (n - 1))) = Inr page
              \<and> sc_resolve_login (en_source en) (ac_credentials r) (ac_scope r) page (gs_source st)
                  = (Inr (lc_resolved cx), c')
              \<and> username_for (lc_resolved cx) r = Some (lc_username cx)
              \<and> (\<forall>t \<in> set trs. is_attempt en cx t))
         \<and> (escalated res \<longrightarrow> trs \<noteq> [] \<and> length (List.last trs) = 3))"
proof -
  let ?us = "login_urls en r (gs_source st)"
  from wp_Value [OF login_traced [OF assms(2)] assms(1)] obtain tr where
    tr: "gs_effects st' = gs_effects st @ tr" "run_effects en r (gs_source st) res tr" by blast
  then obtain n rest where parts: "tr = map EffNavigate (take n ?us) @ rest"
    and ok: "rest = [] \<and> \<not> escalated res \<or> 0 < n \<and> n \<le> length ?us
       \<and> resolved_ok en r (gs_source st) (?us ! (n - 1)) res rest"
    unfolding run_effects_def by blast
  have idle: ?thesis if "rest = []" "\<not> escalated res"
    using tr(1) parts that
    unfolding Let_def login_urls_def by (intro exI [of _ n] exI [of _ "[]"]) simp
  show ?thesis
  proof (cases "rest = [] \<and> \<not> escalated res")
    case False
    with ok have n: "0 < n" "n \<le> length ?us" and
      "resolved_ok en r (gs_source st) (?us ! (n - 1)) res rest" by auto
    with False obtain page c' cx where used:
      "origin_parse (origin_parser en) (url_as_str (?us ! (n - 1))) = Inr page"
      "sc_resolve_login (en_source en) (ac_credentials r) (ac_scope r) page (gs_source st) = (Inr (lc_resolved cx), c')"
      "username_for (lc_resolved cx) r = Some (lc_username cx)" "attempts_ok en cx max_submit_attempts res rest"
      unfolding resolved_ok_def credential_used_def by blast
    from used(4) obtain trs where trs: "rest = concat trs" "length trs \<le> 2" "\<forall>t \<in> set trs. is_attempt en cx t"
      "escalated res \<longrightarrow> trs \<noteq> [] \<and> length (List.last trs) = 3"
      by (auto simp: attempts_ok_def max_submit_attempts_def)
    show ?thesis
      unfolding Let_def
      by (intro exI [of _ n] exI [of _ trs])
        (use tr(1) parts n used(1-3) trs in \<open>auto simp: login_urls_def\<close>)
  qed (use idle in blast)
qed

theorem agent_login_effects_witness:
  "\<exists>r st. login (demo_engine (\<lambda>s. s)) ''acct'' demo_start = Value (Inr (Inl (Captured r (Some 6))), st)
    \<and> length (gs_effects st) = 5
    \<and> (\<exists>hints n trs. gs_effects st
         = map EffNavigate (take n (login_candidates demo_urls demo_record hints)) @ concat trs \<and> trs \<noteq> [])"
proof -
  from demo_value [OF demo_run] obtain r st where run:
    "login (demo_engine (\<lambda>s. s)) ''acct'' demo_start = Value (Inr (Inl (Captured r (Some 6))), st)" and
    effs: "gs_effects st = [EffNavigate (demo_url ''a.com'' ''/''), EffNavigate (demo_url ''a.com'' ''/login''),
      EffFill ''#who'' ''me'', EffFill ''#pw'' ''pw'', EffSubmit (demo_url ''evil.test'' ''/take'') ''email=me;pw=pw;'']"
    by metis
  from agent_login_effects [OF run demo_get] obtain hints n trs where
    parts: "gs_effects st = gs_effects demo_start @ map EffNavigate (take n (login_candidates demo_urls demo_record hints)) @ concat trs"
    by (auto simp: Let_def demo_engine_def)
  moreover have "gs_effects demo_start = []" by (simp add: demo_start_def)
  moreover have "trs \<noteq> []"
  proof
    assume "trs = []"
    with parts \<open>gs_effects demo_start = []\<close> have "set (gs_effects st) \<subseteq> range EffNavigate" by auto
    with effs show False by auto
  qed
  moreover have "length (gs_effects st) = 5" using effs by simp
  ultimately show ?thesis using run by (metis append_Nil)
qed



text \<open>
  C10: A login that ends captured after a submit ends on an origin of the allowlist of a credential
  that its source resolved: a redirect that leaves the allowlist is never stored as a session.
\<close>
theorem captured_inside_allowlist:
  assumes "run_inner en i r st = Value (Inr (Inl (Captured r' (Some score))), st')"
  shows "\<exists>page cred c c' u orig.
    sc_resolve_login (en_source en) (ac_credentials r) (ac_scope r) page c = (Inr cred, c')
    \<and> so_current_url (en_session en) (gs_session st') = Some u
    \<and> origin_parse (origin_parser en) (url_as_str u) = Inr orig \<and> orig \<in> set (rl_allowed_origins cred)"
proof -
  have "wp (run_inner en i r) (\<lambda>res st'. \<forall>out. res = Inr (Inl out) \<longrightarrow> inside_allowlist en r out st') st"
    using inside_run [of en r i] by (simp add: closes_with_def)
  from wp_Value [OF this assms] have "inside_allowlist en r (Captured r' (Some score)) st'" by blast
  then obtain page cred u orig where "resolved_by en r page cred" "so_current_url (en_session en) (gs_session st') = Some u"
    "origin_parse (origin_parser en) (url_as_str u) = Inr orig" "orig \<in> set (rl_allowed_origins cred)"
    by (auto simp: inside_allowlist_def)
  then show ?thesis unfolding resolved_by_def by blast
qed

text \<open>A start in the middle: the window is open.\<close>

definition demo_open :: "(demo, policy_engine \<times> nat) login_state" where
  "demo_open = demo_start\<lparr>gs_manager := (sample_manager LoggingIn)\<lparr>mg_registry :=
     \<lparr>rg_dirs = [(''acct'', empty_dir\<lparr>ad_record := Some (GoodRecord (demo_record\<lparr>ac_state := LoggingIn\<rparr>))\<rparr>)],
      rg_writable = True\<rparr>\<rparr>\<rparr>"

definition demo_inner_score :: "int option" where
  "demo_inner_score =
     (case run_inner (demo_engine (\<lambda>s. s)) ''acct'' demo_record demo_open of
        Value (Inr (Inl (Captured r score)), st) \<Rightarrow> score
      | _ \<Rightarrow> None)"

lemma demo_inner: "demo_inner_score = Some 6"
  by code_simp

lemma demo_inner_value:
  obtains r st where "run_inner (demo_engine (\<lambda>s. s)) ''acct'' demo_record demo_open
    = Value (Inr (Inl (Captured r (Some 6))), st)"
  using demo_inner unfolding demo_inner_score_def
  by (auto split: flow.splits prod.splits sum.splits agent_login_outcome.splits)

theorem captured_inside_allowlist_witness:
  "\<exists>r score st page cred c c' u orig. run_inner (demo_engine (\<lambda>s. s)) ''acct'' demo_record demo_open
       = Value (Inr (Inl (Captured r (Some score))), st)
     \<and> sc_resolve_login demo_source (ac_credentials demo_record) (ac_scope demo_record) page c = (Inr cred, c')
     \<and> dm_url (gs_session st) = Some u \<and> orig \<in> set (rl_allowed_origins cred)"
proof -
  obtain r st where run: "run_inner (demo_engine (\<lambda>s. s)) ''acct'' demo_record demo_open
      = Value (Inr (Inl (Captured r (Some 6))), st)" by (rule demo_inner_value)
  have parts: "so_current_url (en_session (demo_engine (\<lambda>s. s))) = dm_url" "en_source (demo_engine (\<lambda>s. s)) = demo_source"
    by (simp_all only: demo_engine_def demo_ops_def login_engine.select_convs session_ops.select_convs)
  from captured_inside_allowlist [OF run, unfolded parts] run show ?thesis by blast
qed

text \<open>
  The address a login form posts to is not compared with the credential's allowlist: with a
  credential for \<open>https://a.com\<close> alone, the form of a page of \<open>a.com\<close> sends user name and password
  to \<open>https://evil.test\<close>, and the login ends captured.
\<close>
theorem password_posted_outside_allowlist:
  "nc_allowed_origins sample_credential = [''https://a.com'']
   \<and> (\<exists>score sent typed. demo_result (\<lambda>s. s) = Some (score, sent, typed)
        \<and> EffSubmit (demo_url ''evil.test'' ''/take'') ''email=me;pw=pw;'' \<in> set sent)"
  using demo_run by (auto simp: sample_credential_def)

text \<open>
  The gate looks at the candidate's address, not at the page the browser landed on: a candidate
  of \<open>https://a.com\<close> that redirects to \<open>https://evil.test\<close> has user name and password typed there.
\<close>
theorem password_typed_after_redirect:
  "\<exists>score sent. demo_result (\<lambda>s. if s = ''https://a.com/login'' then ''https://evil.test/login'' else s)
      = Some (score, sent, [''https://evil.test/login'', ''https://evil.test/login''])
    \<and> EffFill ''#pw'' ''pw'' \<in> set sent"
  using demo_landing by auto

end
