(* ===== verification/Orchestrator.thy ===== *)
theory Orchestrator
  imports LoginSession
begin

text \<open>
  Login windows (\<open>oxibrowser-core/src/account/orchestrator.rs\<close>): a table of open windows, each
  with its account, a deadline with an armed timer, and a viewer token that is handed out once;
  the judgement and capture of a window, its end, and the import of a storage state. An operation
  is one step of a state transformer. Fresh identifiers come from \<open>oe_uuid\<close>, time is a counter of
  milliseconds, and the page is the record \<open>session_ops\<close> of theory LoginSession.
\<close>

section \<open>Data\<close>

datatype login_mode = UserMode | AgentMode

fun mode_as_str :: "login_mode \<Rightarrow> string" where
  "mode_as_str UserMode = ''user''"
| "mode_as_str AgentMode = ''agent''"

record login_handle =
  lh_login_id :: string
  lh_account :: string
  lh_mode :: login_mode
  lh_viewer_token :: "string option"
  lh_timeout_ms :: int

datatype login_end_state = EndCaptured | EndAborted | EndTimedOut

fun end_as_str :: "login_end_state \<Rightarrow> string" where
  "end_as_str EndCaptured = ''captured''"
| "end_as_str EndAborted = ''aborted''"
| "end_as_str EndTimedOut = ''timeout''"

record login_outcome =
  lo_login_id :: string
  lo_account :: string
  lo_end_state :: login_end_state
  lo_record :: "account_record option"
  lo_detection :: "detection option"

datatype end_outcome = EndDone | EndAbort

datatype complete_verdict = CompleteCaptured account_record detection | NotYet detection

record verdict_summary =
  vs_verdict :: string
  vs_reason :: "string option"
  vs_http_status :: "int option"

record import_outcome =
  im_record :: account_record
  im_probe :: verdict_summary
  im_baseline_adopted :: bool

definition summary_of :: "probe_outcome \<Rightarrow> verdict_summary" where
  "summary_of outcome =
     (case po_verdict outcome of
        ProbeValid \<Rightarrow> \<lparr>vs_verdict = ''valid'', vs_reason = None, vs_http_status = po_http_status outcome\<rparr>
      | ProbeInvalid reason \<Rightarrow>
          \<lparr>vs_verdict = ''invalid'', vs_reason = Some reason, vs_http_status = po_http_status outcome\<rparr>
      | ProbeChallenge c \<Rightarrow> \<lparr>vs_verdict = ''challenge'', vs_reason = None, vs_http_status = po_http_status outcome\<rparr>
      | ProbeUnreachable reason \<Rightarrow>
          \<lparr>vs_verdict = ''unreachable'', vs_reason = Some reason, vs_http_status = po_http_status outcome\<rparr>)"

section \<open>The table of windows\<close>

record active_login =
  al_account :: string
  al_mode :: login_mode
  al_deadline :: int
  al_viewer_token :: "string option"

record 's orchestrator =
  or_manager :: manager
  or_logins :: "(string \<times> active_login) list"
  or_timers :: "(string \<times> int) list" \<comment> \<open>armed timeouts: login id, time\<close>
  or_events :: "account_event list"
  or_page :: 's \<comment> \<open>the session the caller passes\<close>
  or_now :: int
  or_drawn :: nat \<comment> \<open>identifiers drawn so far\<close>

record 's orch_env =
  oe_manager :: manager_env
  oe_session :: "'s session_ops"
  oe_new_session :: "core_error + 's" \<comment> \<open>a session in a fresh account context\<close>
  oe_web :: web_env
  oe_probe_rx :: probe_regex
  oe_dom_rx :: dom_regex
  oe_parse :: "string \<Rightarrow> string + url"
  oe_uuid :: "nat \<Rightarrow> string"
  oe_default_timeout :: int
  oe_checked :: bool

type_synonym ('a, 's) orch_act = "('a, 's orchestrator) act"

definition orch_manager :: "(manager \<Rightarrow> 'a \<times> manager) \<Rightarrow> ('a, 's) orch_act" where
  "orch_manager f st = Value (fst (f (or_manager st)), st\<lparr>or_manager := snd (f (or_manager st))\<rparr>)"

definition orch_page :: "('s \<Rightarrow> 'a \<times> 's) \<Rightarrow> ('a, 's) orch_act" where
  "orch_page f st = Value (fst (f (or_page st)), st\<lparr>or_page := snd (f (or_page st))\<rparr>)"

definition orch_publish :: "account_event \<Rightarrow> (unit, 's) orch_act" where
  "orch_publish ev = change (\<lambda>st. st\<lparr>or_events := or_events st @ [ev]\<rparr>)"

definition draw_uuid :: "'s orch_env \<Rightarrow> (string, 's) orch_act" where
  "draw_uuid en =
     then_do (look or_drawn) (\<lambda>k. then_do (change (\<lambda>st. st\<lparr>or_drawn := Suc k\<rparr>)) (\<lambda>_. give (oe_uuid en k)))"

definition get_record :: "string \<Rightarrow> (core_error + account_record, 's) orch_act" where
  "get_record i = look (\<lambda>st. registry_get i (mg_registry (or_manager st)))"

section \<open>State changes\<close>

definition start_logging_in ::
  "'s orch_env \<Rightarrow> string \<Rightarrow> login_mode \<Rightarrow> (core_error + account_record, 's) orch_act" where
  "start_logging_in en i mode =
     try_do (get_record i) (\<lambda>r0.
     try_do (orch_manager (set_state_locked (oe_manager en) i LoggingIn (Some (''login_started:'' @ mode_as_str mode)))) (\<lambda>r.
     then_do (orch_manager (\<lambda>mg. ((), emit_state (oe_manager en) i (ac_state r0) (ac_state r) ''login_started'' mg))) (\<lambda>_.
     give (Inr r))))"

definition back_to_needs_login ::
  "'s orch_env \<Rightarrow> string \<Rightarrow> string \<Rightarrow> (core_error + account_record, 's) orch_act" where
  "back_to_needs_login en i detail =
     try_do (orch_manager (set_state_locked (oe_manager en) i NeedsLogin (Some detail))) (\<lambda>r.
     then_do (orch_manager (\<lambda>mg. ((), emit_state (oe_manager en) i LoggingIn (ac_state r) detail mg))) (\<lambda>_.
     give (Inr r)))"

definition window_revert ::
  "'s orch_env \<Rightarrow> string \<Rightarrow> string \<Rightarrow> (core_error + account_record, 's) orch_act" where
  "window_revert en i detail =
     try_do (back_to_needs_login en i detail) (\<lambda>r.
     then_do (orch_publish (StateChanged i (state_as_str LoggingIn) (state_as_str (ac_state r)) (Some detail))) (\<lambda>_.
     give (Inr r)))"

definition window_capture ::
  "'s orch_env \<Rightarrow> string \<Rightarrow> string \<Rightarrow> 's \<Rightarrow> (core_error + account_record, 's) orch_act" where
  "window_capture en i login_id s =
     try_do (orch_manager (capture_session (oe_manager en) i (so_export_scope (oe_session en) s)
              (so_effective_ua (oe_session en) s))) (\<lambda>r.
     then_do (orch_publish (StateChanged i (state_as_str LoggingIn) (state_as_str (ac_state r))
        (Some (''captured:'' @ login_id)))) (\<lambda>_.
     give (Inr r)))"

definition window_account :: "string \<Rightarrow> (core_error + string, 's) orch_act" where
  "window_account login_id =
     look (\<lambda>st. case dict_get (or_logins st) login_id of
        Some l \<Rightarrow> Inr (al_account l)
      | None \<Rightarrow> Inl (account_error (''unknown or closed loginId '' @ login_id)))"

definition close_window ::
  "string \<Rightarrow> string \<Rightarrow> login_end_state \<Rightarrow> account_record option \<Rightarrow> (unit, 's) orch_act" where
  "close_window login_id i end_state r =
     then_do (change (\<lambda>st. if dict_get (or_logins st) login_id = None then st
        else st\<lparr>or_logins := dict_remove login_id (or_logins st), or_timers := dict_remove login_id (or_timers st)\<rparr>)) (\<lambda>_.
     then_do (orch_publish (LoginChanged login_id i (end_as_str end_state))) (\<lambda>_.
     case r of
       None \<Rightarrow> give ()
     | Some r \<Rightarrow>
         orch_publish (StateChanged i (state_as_str LoggingIn) (state_as_str (ac_state r))
           (Some (''login_'' @ end_as_str end_state)))))"

section \<open>Opening a window\<close>

text \<open>The checks and the rest of \<open>begin_login\<close>; the table is locked for each separately.\<close>

definition begin_check :: "string \<Rightarrow> (core_error + account_record, 's) orch_act" where
  "begin_check i =
     try_do (get_record i) (\<lambda>r.
     if ac_state r = Valid
     then give (Inl (account_error (''account '' @ i @ '' is valid '' @ em_dash @ '' run `account logout` before re-login'')))
     else if ac_state r \<notin> {NeedsLogin, Stale}
     then give (Inl (account_error (''account '' @ i @ '' cannot start a login from state '' @ state_as_str (ac_state r))))
     else look (\<lambda>st. if list_ex (\<lambda>(k, l). al_account l = i) (or_logins st)
                     then Inl (account_error (''a login window is already open for '' @ i))
                     else Inr r))"

text \<open>The deadline and the time of the armed task are one instant here; the code reads the clock for each.\<close>

definition open_entry :: "string \<Rightarrow> active_login \<Rightarrow> 's orchestrator \<Rightarrow> 's orchestrator" where
  "open_entry login_id l st =
     st\<lparr>or_timers := dict_insert login_id (al_deadline l) (or_timers st),
        or_logins := dict_insert login_id l (or_logins st)\<rparr>"

definition login_name :: "string \<Rightarrow> string" where
  "login_name u = ''login-'' @ u"

definition token_name :: "string \<Rightarrow> string" where
  "token_name u = ''oxi-viewer-'' @ u"

definition begin_commit ::
  "'s orch_env \<Rightarrow> string \<Rightarrow> login_mode \<Rightarrow> int option \<Rightarrow> account_record \<Rightarrow> (core_error + login_handle, 's) orch_act" where
  "begin_commit en i mode timeout r0 =
     (let ms = (case timeout of Some t \<Rightarrow> t | None \<Rightarrow> oe_default_timeout en)
      in then_do (draw_uuid en) (\<lambda>u.
         let login_id = login_name u
         in then_do (case mode of
                       UserMode \<Rightarrow> then_do (draw_uuid en) (\<lambda>v. give (Some (token_name v)))
                     | AgentMode \<Rightarrow> give None) (\<lambda>token.
            try_do (start_logging_in en i mode) (\<lambda>r.
            then_do (look or_now) (\<lambda>now.
            then_do (change (open_entry login_id
               \<lparr>al_account = i, al_mode = mode, al_deadline = now + ms, al_viewer_token = token\<rparr>)) (\<lambda>_.
            then_do (orch_publish (StateChanged i (state_as_str (ac_state r0)) (state_as_str (ac_state r))
               (Some (''login_started:'' @ mode_as_str mode)))) (\<lambda>_.
            then_do (orch_publish (LoginChanged login_id i ''running'')) (\<lambda>_.
            give (Inr \<lparr>lh_login_id = login_id, lh_account = i, lh_mode = mode, lh_viewer_token = token,
                       lh_timeout_ms = ms\<rparr>)))))))))"

definition begin_login ::
  "'s orch_env \<Rightarrow> string \<Rightarrow> login_mode \<Rightarrow> int option \<Rightarrow> (core_error + login_handle, 's) orch_act" where
  "begin_login en i mode timeout = try_do (begin_check i) (begin_commit en i mode timeout)"

text \<open>\<open>wait\<close> over the events sent after the subscription: the first end of that window.\<close>

fun wait_for :: "string \<Rightarrow> manager \<Rightarrow> account_event list \<Rightarrow> login_outcome option" where
  "wait_for login_id mg [] = None"
| "wait_for login_id mg (LoginChanged l i s # evs) =
     (if l = login_id \<and> s \<noteq> ''running''
      then Some \<lparr>lo_login_id = login_id, lo_account = i,
                 lo_end_state = (if s = ''captured'' then EndCaptured else if s = ''aborted'' then EndAborted else EndTimedOut),
                 lo_record = result_ok (registry_get i (mg_registry mg)), lo_detection = None\<rparr>
      else wait_for login_id mg evs)"
| "wait_for login_id mg (ev # evs) = wait_for login_id mg evs"

section \<open>Ending a window\<close>

definition detect_login ::
  "'s orch_env \<Rightarrow> string \<Rightarrow> pre_login_snapshot \<Rightarrow> bool \<Rightarrow> (core_error + detection, 's) orch_act" where
  "detect_login en i baseline explicit =
     try_do (get_record i) (\<lambda>r.
     try_do (give (detector_new (oe_web en) (ac_scope r))) (\<lambda>scope.
     then_do (orch_page (so_snapshot (oe_session en))) (\<lambda>sn.
     then_do (case sn of None \<Rightarrow> give None | Some d \<Rightarrow> loop_result (map_option Some (to_html d))) (\<lambda>html.
     then_do (look or_page) (\<lambda>s.
     then_do (run_result (assess_input (oe_checked en) (oe_web en) (oe_dom_rx en) scope
                (input_from_session (oe_session en) scope baseline html explicit s))) (\<lambda>d.
     give (Inr d)))))))"

definition complete_login ::
  "'s orch_env \<Rightarrow> string \<Rightarrow> bool \<Rightarrow> (core_error + complete_verdict, 's) orch_act" where
  "complete_login en login_id explicit =
     try_do (window_account login_id) (\<lambda>i.
     try_do (detect_login en i pre_login_default explicit) (\<lambda>d.
     if \<not> dt_logged_in d then give (Inr (NotYet d))
     else
       then_do (look or_page) (\<lambda>s.
       try_do (window_capture en i login_id s) (\<lambda>r.
       then_do (close_window login_id i EndCaptured (Some r)) (\<lambda>_.
       give (Inr (CompleteCaptured r d)))))))"

definition abort_login :: "'s orch_env \<Rightarrow> string \<Rightarrow> (core_error + login_outcome, 's) orch_act" where
  "abort_login en login_id =
     try_do (look (\<lambda>st. case dict_get (or_logins st) login_id of
        Some l \<Rightarrow> Inr (al_account l, al_deadline l \<le> or_now st)
      | None \<Rightarrow> Inl (account_error (''unknown loginId '' @ login_id)))) (\<lambda>(i, timed_out).
     try_do (back_to_needs_login en i (if timed_out then ''login_timeout'' else ''login_aborted'')) (\<lambda>r.
     let end_state = (if timed_out then EndTimedOut else EndAborted)
     in then_do (close_window login_id i end_state (Some r)) (\<lambda>_.
        then_do (look (\<lambda>st. result_ok (registry_get i (mg_registry (or_manager st))))) (\<lambda>final.
        give (Inr \<lparr>lo_login_id = login_id, lo_account = i, lo_end_state = end_state, lo_record = final,
                   lo_detection = None\<rparr>)))))"

definition end_login ::
  "'s orch_env \<Rightarrow> string \<Rightarrow> end_outcome \<Rightarrow> (core_error + login_outcome, 's) orch_act" where
  "end_login en login_id outcome =
     (case outcome of
        EndDone \<Rightarrow>
          try_do (window_account login_id) (\<lambda>i.
          try_do (complete_login en login_id True) (\<lambda>verdict.
          give (Inr (case verdict of
             CompleteCaptured r d \<Rightarrow>
               \<lparr>lo_login_id = login_id, lo_account = i, lo_end_state = EndCaptured, lo_record = Some r, lo_detection = Some d\<rparr>
           | NotYet d \<Rightarrow>
               \<lparr>lo_login_id = login_id, lo_account = i, lo_end_state = EndAborted, lo_record = None, lo_detection = Some d\<rparr>))))
      | EndAbort \<Rightarrow> abort_login en login_id)"

text \<open>The armed task: it runs once, at its time or later, and its answer is dropped.\<close>

definition fire_timeout :: "'s orch_env \<Rightarrow> string \<Rightarrow> (unit, 's) orch_act" where
  "fire_timeout en login_id =
     then_do (look (\<lambda>st. case dict_get (or_timers st) login_id of Some t \<Rightarrow> t \<le> or_now st | None \<Rightarrow> False)) (\<lambda>due.
     if \<not> due then give ()
     else
       then_do (change (\<lambda>st. st\<lparr>or_timers := dict_remove login_id (or_timers st)\<rparr>)) (\<lambda>_.
       then_do (abort_login en login_id) (\<lambda>_. give ())))"

definition take_viewer_token :: "string \<Rightarrow> (string option, 's) orch_act" where
  "take_viewer_token login_id =
     then_do (look (\<lambda>st. dict_get (or_logins st) login_id)) (\<lambda>found.
     case found of
       None \<Rightarrow> give None
     | Some l \<Rightarrow>
         then_do (change (\<lambda>st. st\<lparr>or_logins := dict_insert login_id (l\<lparr>al_viewer_token := None\<rparr>) (or_logins st)\<rparr>)) (\<lambda>_.
         give (al_viewer_token l)))"

definition login_info :: "string \<Rightarrow> ((string \<times> login_mode \<times> int) option, 's) orch_act" where
  "login_info login_id =
     look (\<lambda>st. map_option (\<lambda>l. (al_account l, al_mode l, max 0 (al_deadline l - or_now st)))
                  (dict_get (or_logins st) login_id))"

section \<open>Import\<close>

definition open_account_context :: "'s orch_env \<Rightarrow> string \<Rightarrow> (core_error + 's, 's) orch_act" where
  "open_account_context en i = try_do (get_record i) (\<lambda>_. give (oe_new_session en))"

definition import_judged ::
  "'s orch_env \<Rightarrow> string \<Rightarrow> 's \<Rightarrow> probe_outcome \<Rightarrow> (core_error + import_outcome, 's) orch_act" where
  "import_judged en i s outcome =
     (case po_verdict outcome of
        ProbeValid \<Rightarrow>
          try_do (window_capture en i ''import'' s) (\<lambda>r.
          give (Inr \<lparr>im_record = r, im_probe = summary_of outcome, im_baseline_adopted = True\<rparr>))
      | ProbeInvalid reason \<Rightarrow>
          try_do (window_revert en i (''import_failed:'' @ reason)) (\<lambda>r.
          give (Inr \<lparr>im_record = r, im_probe = summary_of outcome, im_baseline_adopted = False\<rparr>))
      | ProbeChallenge c \<Rightarrow>
          try_do (window_revert en i (''import_'' @ challenge_detail c)) (\<lambda>r.
          give (Inr \<lparr>im_record = r, im_probe = summary_of outcome, im_baseline_adopted = False\<rparr>))
      | ProbeUnreachable reason \<Rightarrow>
          give (Inl (account_error (''probe unreachable during import: '' @ reason
            @ ''; account left in logging_in '' @ em_dash @ '' retry or abort''))))"

definition import_inner ::
  "'s orch_env \<Rightarrow> string \<Rightarrow> storage_state \<Rightarrow> (core_error + import_outcome, 's) orch_act" where
  "import_inner en i state =
     try_do (get_record i) (\<lambda>r.
     try_do (open_account_context en i) (\<lambda>s0.
     (case so_import (oe_session en) state s0 of
        (imported, s1) \<Rightarrow>
          try_do (give imported) (\<lambda>_.
          try_do (give (from_record (oe_parse en) (ac_probe r) (ac_scope r))) (\<lambda>probe.
          (case so_http (oe_session en) (vp_url probe) s1 of
             (answer, s2) \<Rightarrow>
               then_do (run_result (probe_run (oe_probe_rx en) (\<lambda>_. answer) probe)) (import_judged en i s2)))))))"

definition import_session ::
  "'s orch_env \<Rightarrow> string \<Rightarrow> storage_state \<Rightarrow> (core_error + import_outcome, 's) orch_act" where
  "import_session en i state =
     try_do (start_logging_in en i AgentMode) (\<lambda>_.
     then_do (import_inner en i state) (\<lambda>res.
     case res of
       Inr outcome \<Rightarrow> give (Inr outcome)
     | Inl err \<Rightarrow>
         then_do (window_revert en i (''import_failed:'' @ core_error_display err)) (\<lambda>_. give (Inl err))))"

section \<open>The machine\<close>

text \<open>
  One step: an operation, the clock, a change of the page, or a change of the accounts by another
  owner of the registry (another process, or a login of theory AgentLogin).
\<close>

inductive orch_step :: "'s orch_env \<Rightarrow> 's orchestrator \<Rightarrow> 's orchestrator \<Rightarrow> bool" for en where
  step_begin: "begin_login en i mode timeout st = Value (res, st') \<Longrightarrow> orch_step en st st'"
| step_complete: "complete_login en login_id explicit st = Value (verdict, st') \<Longrightarrow> orch_step en st st'"
| step_end: "end_login en login_id outcome st = Value (out, st') \<Longrightarrow> orch_step en st st'"
| step_fire: "fire_timeout en login_id st = Value (u, st') \<Longrightarrow> orch_step en st st'"
| step_token: "take_viewer_token login_id st = Value (token, st') \<Longrightarrow> orch_step en st st'"
| step_import: "import_session en i state st = Value (imported, st') \<Longrightarrow> orch_step en st st'"
| step_tick: "orch_step en st (st\<lparr>or_now := or_now st + int n\<rparr>)"
| step_page: "orch_step en st (st\<lparr>or_page := s\<rparr>)"
| step_others: "reg_ok (mg_registry mg) \<Longrightarrow> orch_step en st (st\<lparr>or_manager := mg\<rparr>)"

abbreviation orch_run :: "'s orch_env \<Rightarrow> 's orchestrator \<Rightarrow> 's orchestrator \<Rightarrow> bool" where
  "orch_run en \<equiv> (orch_step en)\<^sup>*\<^sup>*"

section \<open>The table of windows as a machine of its own\<close>

text \<open>What the steps do to the windows, their timers and the identifiers drawn.\<close>

type_synonym window_table = "(string \<times> active_login) list \<times> (string \<times> int) list \<times> nat"

definition table_of :: "'s orchestrator \<Rightarrow> window_table" where
  "table_of st = (or_logins st, or_timers st, or_drawn st)"

definition owners :: "(string \<times> active_login) list \<Rightarrow> string list" where
  "owners ls = map (al_account \<circ> snd) ls"

inductive table_step :: "'s orch_env \<Rightarrow> window_table \<Rightarrow> window_table \<Rightarrow> bool" for en where
  draw_names: "k \<le> k' \<Longrightarrow> table_step en (ls, ts, k) (ls, ts, k')"
| end_window: "table_step en (ls, ts, k) (dict_remove i ls, dict_remove i ts, k)"
| spend_timer: "table_step en (ls, ts, k) (ls, dict_remove i ts, k)"
| spend_token: "dict_get ls i = Some l \<Longrightarrow> table_step en (ls, ts, k) (dict_insert i (l\<lparr>al_viewer_token := None\<rparr>) ls, ts, k)"
| open_window: "al_account l \<notin> set (owners ls) \<Longrightarrow> k \<le> j \<Longrightarrow> j < k' \<Longrightarrow>
    (\<And>tok. al_viewer_token l = Some tok \<Longrightarrow> al_mode l = UserMode \<and> (\<exists>n. k \<le> n \<and> n < k' \<and> tok = token_name (oe_uuid en n))) \<Longrightarrow>
    table_step en (ls, ts, k)
      (dict_insert (login_name (oe_uuid en j)) l ls, dict_insert (login_name (oe_uuid en j)) (al_deadline l) ts, k')"

inductive_cases table_stepE: "table_step en t t'"

abbreviation table_run :: "'s orch_env \<Rightarrow> window_table \<Rightarrow> window_table \<Rightarrow> bool" where
  "table_run en \<equiv> (table_step en)\<^sup>*\<^sup>*"

definition on_table :: "'s orch_env \<Rightarrow> window_table \<Rightarrow> 's orchestrator \<Rightarrow> bool" where
  "on_table en t st \<longleftrightarrow> table_run en t (table_of st)"

subsection \<open>Lemmas: every operation is a run of the table\<close>

lemma wp_orch_manager [wp_simps]:
  "wp (orch_manager f) Q st = Q (fst (f (or_manager st))) (st\<lparr>or_manager := snd (f (or_manager st))\<rparr>)"
  by (simp add: wp_def orch_manager_def)

lemma wp_orch_page [wp_simps]:
  "wp (orch_page f) Q st = Q (fst (f (or_page st))) (st\<lparr>or_page := snd (f (or_page st))\<rparr>)"
  by (simp add: wp_def orch_page_def)

named_theorems table_intros

lemma keeps_try [table_intros]: "keeps I m \<Longrightarrow> (\<And>a. keeps I (f a)) \<Longrightarrow> keeps I (try_do m f)"
  unfolding try_do_def by (rule keeps_then) (auto split: sum.split intro: keeps_give)

lemma keeps_plain [table_intros]:
  "keeps I (look f)" "keeps I (run_result r)" "keeps I (loop_result x)"
  by (simp_all add: keeps_def wp_simps split: run.split option.split)

lemmas keeps_basic [table_intros] = keeps_then keeps_give

lemma table_of_updates [simp]:
  "table_of (st\<lparr>or_manager := mg\<rparr>) = table_of st" "table_of (st\<lparr>or_page := s\<rparr>) = table_of st"
  "table_of (st\<lparr>or_events := evs\<rparr>) = table_of st" "table_of (st\<lparr>or_now := n\<rparr>) = table_of st"
  by (simp_all add: table_of_def)

lemma keeps_prims [table_intros]:
  "keeps (on_table en t) (orch_manager g)" "keeps (on_table en t) (orch_page h)" "keeps (on_table en t) (orch_publish ev)"
  "keeps (on_table en t) (get_record i)" "keeps (on_table en t) (window_account login_id)"
  by (simp_all add: keeps_def wp_simps on_table_def orch_publish_def get_record_def window_account_def)

lemma on_table_step: "on_table en t st \<Longrightarrow> table_step en (table_of st) (table_of st') \<Longrightarrow> on_table en t st'"
  unfolding on_table_def by (rule rtranclp.rtrancl_into_rtrancl)

lemma keeps_draw [table_intros]: "keeps (on_table en t) (draw_uuid en')"
  unfolding keeps_def draw_uuid_def wp_simps
  by (auto elim!: on_table_step simp: table_of_def intro!: draw_names)

lemma keeps_start [table_intros]: "keeps (on_table en t) (start_logging_in en' i mode)"
  unfolding start_logging_in_def by (intro table_intros)

lemma keeps_back [table_intros]: "keeps (on_table en t) (back_to_needs_login en' i detail)"
  unfolding back_to_needs_login_def by (intro table_intros)

lemma keeps_revert [table_intros]: "keeps (on_table en t) (window_revert en' i detail)"
  unfolding window_revert_def by (intro table_intros)

lemma keeps_capture [table_intros]: "keeps (on_table en t) (window_capture en' i login_id s)"
  unfolding window_capture_def by (intro table_intros)

lemma keeps_remove [table_intros]:
  "keeps (on_table en t) (change (\<lambda>st. if dict_get (or_logins st) i = None then st
     else st\<lparr>or_logins := dict_remove i (or_logins st), or_timers := dict_remove i (or_timers st)\<rparr>))"
  "keeps (on_table en t) (change (\<lambda>st. st\<lparr>or_timers := dict_remove i (or_timers st)\<rparr>))"
  by (auto simp: keeps_def wp_simps table_of_def elim!: on_table_step intro: end_window spend_timer)

lemma keeps_close [table_intros]: "keeps (on_table en t) (close_window login_id i end_state r)"
  unfolding close_window_def by (auto split: option.split intro!: table_intros)

lemma keeps_detect [table_intros]: "keeps (on_table en t) (detect_login en' i baseline explicit)"
  unfolding detect_login_def by (auto split: option.split intro!: table_intros)

lemma keeps_complete [table_intros]: "keeps (on_table en t) (complete_login en' login_id explicit)"
  unfolding complete_login_def by (auto intro!: table_intros)

lemma keeps_abort [table_intros]: "keeps (on_table en t) (abort_login en' login_id)"
  unfolding abort_login_def Let_def by (auto split: prod.split intro!: table_intros)

lemma keeps_end [table_intros]: "keeps (on_table en t) (end_login en' login_id outcome)"
  unfolding end_login_def by (cases outcome) (auto intro!: table_intros)

lemma keeps_fire [table_intros]: "keeps (on_table en t) (fire_timeout en' login_id)"
  unfolding fire_timeout_def by (auto intro!: table_intros)

lemma keeps_token [table_intros]: "keeps (on_table en t) (take_viewer_token login_id)"
  unfolding keeps_def take_viewer_token_def wp_simps
  by (auto split: option.split simp: wp_simps table_of_def elim!: on_table_step intro: spend_token)

lemma keeps_import [table_intros]: "keeps (on_table en t) (import_session en' i state)"
  unfolding import_session_def import_inner_def import_judged_def open_account_context_def
  by (auto split: sum.split prod.split probe_verdict.split intro!: table_intros)

lemma window_accounts: "list_ex (\<lambda>(k, l). al_account l = i) ls \<longleftrightarrow> i \<in> set (owners ls)"
  by (induction ls) (auto simp: owners_def)

lemma open_window_named:
  assumes "al_account l \<notin> set (owners ls)" and "name = login_name (oe_uuid en k)" and "due = al_deadline l"
    and "al_viewer_token l = None \<or> al_mode l = UserMode \<and> al_viewer_token l = Some (token_name (oe_uuid en (Suc k))) \<and> Suc k < k'"
    and "k < k'"
  shows "table_step en (ls, ts, k) (dict_insert name l ls, dict_insert name due ts, k')"
  unfolding assms(2,3) using assms(1,4,5) by (intro open_window) (auto intro: exI [of _ "Suc k"])

lemma on_table_updates [simp]:
  "on_table en t (st\<lparr>or_manager := mg\<rparr>) = on_table en t st" "on_table en t (st\<lparr>or_page := s\<rparr>) = on_table en t st"
  "on_table en t (st\<lparr>or_events := evs\<rparr>) = on_table en t st" "on_table en t (st\<lparr>or_now := n\<rparr>) = on_table en t st"
  by (simp_all add: on_table_def)

lemma begin_commit_table:
  assumes on: "on_table en t st" and free: "i \<notin> set (owners (or_logins st))"
  shows "wp (begin_commit en i mode timeout r) (\<lambda>_. on_table en t) st"
proof -
  have go: "on_table en t (st1\<lparr>or_drawn := k\<rparr>)"
    if "or_logins st1 = or_logins st" "or_timers st1 = or_timers st" "or_drawn st \<le> k" for st1 k
    by (rule on_table_step [OF on]) (use that in \<open>auto simp: table_of_def intro!: draw_names\<close>)
  have opened: "on_table en t (open_entry (login_name (oe_uuid en (or_drawn st))) l st1)"
    if "or_logins st1 = or_logins st" "or_timers st1 = or_timers st" "al_account l = i" "or_drawn st < or_drawn st1"
      "al_viewer_token l = None \<or> al_mode l = UserMode
         \<and> al_viewer_token l = Some (token_name (oe_uuid en (Suc (or_drawn st)))) \<and> Suc (or_drawn st) < or_drawn st1" for st1 l
    by (rule on_table_step [OF on])
      (use that free in \<open>auto simp: table_of_def open_entry_def intro!: open_window_named\<close>)
  show ?thesis
    by (cases mode)
      (auto simp: begin_commit_def Let_def wp_simps draw_uuid_def start_logging_in_def get_record_def orch_publish_def
         split: sum.split intro!: go opened)
qed

lemma begin_check_post:
  "wp (begin_check i) (\<lambda>res st'. st' = st \<and> (\<forall>r. res = Inr r \<longrightarrow> i \<notin> set (owners (or_logins st))
     \<and> registry_get i (mg_registry (or_manager st)) = Inr r \<and> ac_state r \<in> {NeedsLogin, Stale})) st"
proof (cases "registry_get i (mg_registry (or_manager st))")
  case (Inl e)
  then show ?thesis by (simp add: begin_check_def get_record_def wp_simps)
next
  case (Inr r)
  then show ?thesis
    unfolding begin_check_def get_record_def
    by (cases "ac_state r") (simp_all add: wp_simps window_accounts)
qed

lemma keeps_begin [table_intros]: "keeps (on_table en t) (begin_login en i mode timeout)"
  unfolding keeps_def
proof (intro allI impI)
  fix st :: "'a orchestrator"
  assume on: "on_table en t st"
  show "wp (begin_login en i mode timeout) (\<lambda>_. on_table en t) st"
    unfolding begin_login_def wp_try
    by (rule wp_mono [OF begin_check_post]) (use begin_commit_table [OF on] on in \<open>auto split: sum.split\<close>)
qed

lemma keeps_value: "keeps I m \<Longrightarrow> I st \<Longrightarrow> m st = Value (a, st') \<Longrightarrow> I st'"
  by (rule wp_Value [OF keepsD])

text \<open>The refinement: a step of the orchestrator is a run of the table.\<close>

lemma keeps_refines:
  assumes "\<And>t. keeps (on_table en t) m" and "m st = Value (a, st')"
  shows "table_run en (table_of st) (table_of st')"
proof -
  have "on_table en (table_of st) st" by (simp add: on_table_def)
  from keeps_value [OF assms(1) this assms(2)] show ?thesis by (simp only: on_table_def)
qed

lemma step_refines:
  assumes "orch_step en st st'"
  shows "table_run en (table_of st) (table_of st')"
  using assms
proof cases
  case (step_begin i mode timeout res)
  then show ?thesis by (rule keeps_refines [OF keeps_begin])
next
  case (step_complete login_id explicit verdict)
  then show ?thesis by (rule keeps_refines [OF keeps_complete])
next
  case (step_end login_id outcome out)
  then show ?thesis by (rule keeps_refines [OF keeps_end])
next
  case (step_fire login_id u)
  then show ?thesis by (rule keeps_refines [OF keeps_fire])
next
  case (step_token login_id token)
  then show ?thesis by (rule keeps_refines [OF keeps_token])
next
  case (step_import i state imported)
  then show ?thesis by (rule keeps_refines [OF keeps_import])
qed simp_all

lemma run_refines: "orch_run en st st' \<Longrightarrow> table_run en (table_of st) (table_of st')"
  by (induction rule: rtranclp.induct) (simp, blast intro: rtranclp_trans step_refines)

subsection \<open>Lemmas: invariants of the table\<close>

definition name_free :: "'s orch_env \<Rightarrow> nat \<Rightarrow> window_table \<Rightarrow> bool" where
  "name_free en j t \<longleftrightarrow> (case t of (ls, ts, k) \<Rightarrow> j < k \<and> dict_get ls (login_name (oe_uuid en j)) = None)"

definition token_spent :: "'s orch_env \<Rightarrow> nat \<Rightarrow> window_table \<Rightarrow> bool" where
  "token_spent en j t \<longleftrightarrow> (case t of (ls, ts, k) \<Rightarrow> j < k \<and> (\<forall>l \<in> snd ` set ls. al_viewer_token l \<noteq> Some (token_name (oe_uuid en j))))"

definition name_drawn :: "'s orch_env \<Rightarrow> nat \<Rightarrow> string \<Rightarrow> bool" where
  "name_drawn en k name \<longleftrightarrow> (\<exists>j < k. name = login_name (oe_uuid en j))"

text \<open>Only a window a user drives has a token.\<close>

definition token_ok :: "'s orch_env \<Rightarrow> nat \<Rightarrow> active_login \<Rightarrow> bool" where
  "token_ok en k l \<longleftrightarrow>
     (\<forall>tok. al_viewer_token l = Some tok \<longrightarrow> al_mode l = UserMode \<and> (\<exists>j < k. tok = token_name (oe_uuid en j)))"

text \<open>A timer is armed only for an open window, at its deadline.\<close>

definition timers_ok :: "(string \<times> active_login) list \<Rightarrow> (string \<times> int) list \<Rightarrow> bool" where
  "timers_ok ls ts \<longleftrightarrow> (\<forall>name due. dict_get ts name = Some due \<longrightarrow> (\<exists>l. dict_get ls name = Some l \<and> al_deadline l = due))"

text \<open>No two windows hold the same token.\<close>

definition tokens_apart :: "(string \<times> active_login) list \<Rightarrow> bool" where
  "tokens_apart ls \<longleftrightarrow> (\<forall>n l n' l' tok. dict_get ls n = Some l \<and> dict_get ls n' = Some l'
     \<and> al_viewer_token l = Some tok \<and> al_viewer_token l' = Some tok \<longrightarrow> n = n')"

fun table_ok :: "'s orch_env \<Rightarrow> window_table \<Rightarrow> bool" where
  "table_ok en (ls, ts, k) \<longleftrightarrow>
     dict_ok ls \<and> dict_ok ts \<and> distinct (owners ls) \<and> timers_ok ls ts \<and> tokens_apart ls
     \<and> (\<forall>name \<in> fst ` set ls. name_drawn en k name) \<and> (\<forall>l \<in> snd ` set ls. token_ok en k l)"

lemma drawn_mono: "name_drawn en k name \<Longrightarrow> k \<le> k' \<Longrightarrow> name_drawn en k' name" "token_ok en k l \<Longrightarrow> k \<le> k' \<Longrightarrow> token_ok en k' l"
  by (force simp: name_drawn_def token_ok_def)+

lemma names_inj: "inj (oe_uuid en) \<Longrightarrow> (login_name (oe_uuid en j) = login_name (oe_uuid en k)) = (j = k)"
  "inj (oe_uuid en) \<Longrightarrow> (token_name (oe_uuid en j) = token_name (oe_uuid en k)) = (j = k)"
  by (auto simp: login_name_def token_name_def dest: injD)

lemma step_name_free: "inj (oe_uuid en) \<Longrightarrow> name_free en j t \<Longrightarrow> table_step en t t' \<Longrightarrow> name_free en j t'"
  by (auto simp: name_free_def dict_get_remove dict_get_insert names_inj elim!: table_stepE)

lemma update_values: "snd ` set (dict_insert k v d) \<subseteq> insert v (snd ` set d)"
  by (induction d) auto

lemma delete_values: "snd ` set (dict_remove k d) \<subseteq> snd ` set d"
  by (auto simp: AList.delete_eq)

lemma dict_get_value: "dict_get d k = Some v \<Longrightarrow> v \<in> snd ` set d"
  by (force dest: map_of_SomeD)

lemma step_token_spent:
  assumes inj: "inj (oe_uuid en)" and "token_spent en j t" and "table_step en t t'"
  shows "token_spent en j t'"
  using assms(3)
proof cases
  case (draw_names k k' ls ts)
  with assms(2) show ?thesis by (auto simp: token_spent_def)
next
  case (end_window ls ts k i)
  with assms(2) delete_values [of i ls] show ?thesis by (fastforce simp: token_spent_def)
next
  case (spend_timer ls ts k i)
  with assms(2) show ?thesis by (auto simp: token_spent_def)
next
  case (spend_token ls i l ts k)
  with assms(2) update_values [of i "l\<lparr>al_viewer_token := None\<rparr>" ls] show ?thesis by (fastforce simp: token_spent_def)
next
  case (open_window l ls k n k' ts)
  have "al_viewer_token l \<noteq> Some (token_name (oe_uuid en j))"
  proof
    assume "al_viewer_token l = Some (token_name (oe_uuid en j))"
    with open_window(6) obtain m where "k \<le> m" "token_name (oe_uuid en j) = token_name (oe_uuid en m)" by blast
    with names_inj(2) [OF inj] have "k \<le> j" by simp
    with assms(2) open_window(1) show False by (simp add: token_spent_def)
  qed
  with assms(2) open_window update_values [of "login_name (oe_uuid en n)" l ls] show ?thesis by (fastforce simp: token_spent_def)
qed

lemma distinct_owners_delete: "distinct (owners ls) \<Longrightarrow> distinct (owners (dict_remove i ls))"
  by (induction ls) (auto simp: owners_def AList.delete_eq)

lemma owners_same: "dict_get ls i = Some l \<Longrightarrow> al_account l' = al_account l \<Longrightarrow> owners (dict_insert i l' ls) = owners ls"
  by (induction ls) (auto simp: owners_def)

lemma owners_new: "i \<notin> fst ` set ls \<Longrightarrow> owners (dict_insert i l ls) = owners ls @ [al_account l]"
  by (simp add: dict_insert_new owners_def)

lemma keys_insert: "fst ` set (dict_insert k v d) = insert k (fst ` set d)"
  by (induction d) auto

lemma keys_remove: "fst ` set (dict_remove k d) = fst ` set d - {k}"
  by (auto simp: AList.delete_eq)

lemma timers_remove: "timers_ok ls ts \<Longrightarrow> timers_ok (dict_remove i ls) (dict_remove i ts)"
  by (simp add: timers_ok_def dict_get_remove)

lemma values_insert: "\<forall>l \<in> snd ` set d. P l \<Longrightarrow> P v \<Longrightarrow> \<forall>l \<in> snd ` set (dict_insert k v d). P l"
  using update_values [of k v d] by blast

lemma keys_all_insert: "\<forall>n \<in> fst ` set d. P n \<Longrightarrow> P k \<Longrightarrow> \<forall>n \<in> fst ` set (dict_insert k v d). P n"
  by (simp only: keys_insert ball_simps)

lemma timers_token: "timers_ok ls ts \<Longrightarrow> dict_get ls i = Some l \<Longrightarrow> timers_ok (dict_insert i (l\<lparr>al_viewer_token := None\<rparr>) ls) ts"
  by (fastforce simp: timers_ok_def dict_get_insert)

lemma timers_open: "timers_ok ls ts \<Longrightarrow> timers_ok (dict_insert i l ls) (dict_insert i (al_deadline l) ts)"
  by (simp add: timers_ok_def dict_get_insert)

lemma timers_spend: "timers_ok ls ts \<Longrightarrow> timers_ok ls (dict_remove i ts)"
  by (simp add: timers_ok_def dict_get_remove)

lemma tokens_apart_remove: "tokens_apart ls \<Longrightarrow> tokens_apart (dict_remove i ls)"
  unfolding tokens_apart_def dict_get_remove by (metis option.distinct(1))

lemma tokens_apart_insert:
  assumes "tokens_apart ls" and "\<And>n l' tok. dict_get ls n = Some l' \<Longrightarrow> al_viewer_token l' = Some tok \<Longrightarrow> al_viewer_token l \<noteq> Some tok"
  shows "tokens_apart (dict_insert i l ls)"
  unfolding tokens_apart_def
proof (intro allI impI, elim conjE)
  fix n l1 n' l2 tok
  assume "dict_get (dict_insert i l ls) n = Some l1" "dict_get (dict_insert i l ls) n' = Some l2"
    "al_viewer_token l1 = Some tok" "al_viewer_token l2 = Some tok"
  with assms show "n = n'" unfolding tokens_apart_def dict_get_insert by (metis option.inject)
qed

lemma step_table_ok:
  assumes inj: "inj (oe_uuid en)" and ok: "table_ok en t" and "table_step en t t'"
  shows "table_ok en t'"
  using assms(3)
proof cases
  case (draw_names k k' ls ts)
  with ok show ?thesis using drawn_mono [of en k _ k'] by auto
next
  case (end_window ls ts k i)
  with ok have "timers_ok (dict_remove i ls) (dict_remove i ts)" by (simp add: timers_remove)
  moreover have "\<forall>l \<in> snd ` set (dict_remove i ls). token_ok en k l"
  proof
    fix l assume "l \<in> snd ` set (dict_remove i ls)"
    then have l: "l \<in> snd ` set ls" by (rule subsetD [OF delete_values])
    have "\<forall>l \<in> snd ` set ls. token_ok en k l" using ok end_window(1) by simp
    then show "token_ok en k l" using l by (rule bspec)
  qed
  moreover have "tokens_apart (dict_remove i ls)" using ok end_window by (simp add: tokens_apart_remove)
  moreover have "\<forall>name \<in> fst ` set (dict_remove i ls). name_drawn en k name"
    using ok end_window unfolding keys_remove by auto
  ultimately show ?thesis using ok end_window by (simp add: dict_ok_remove distinct_owners_delete)
next
  case (spend_timer ls ts k i)
  with ok show ?thesis by (simp add: dict_ok_remove timers_spend)
next
  case (spend_token ls i l ts k)
  let ?l = "l\<lparr>al_viewer_token := None\<rparr>"
  have in': "i \<in> fst ` set ls" using spend_token(3) by (force dest: map_of_SomeD)
  moreover have "timers_ok (dict_insert i ?l ls) ts"
    using ok spend_token by (simp add: timers_token)
  moreover have "token_ok en k ?l" by (simp add: token_ok_def)
  moreover have "tokens_apart (dict_insert i ?l ls)" using ok spend_token by (intro tokens_apart_insert) auto
  moreover have "\<forall>l' \<in> snd ` set (dict_insert i ?l ls). token_ok en k l'"
    by (rule values_insert) (use ok spend_token \<open>token_ok en k ?l\<close> in auto)
  moreover have "\<forall>n \<in> fst ` set (dict_insert i ?l ls). name_drawn en k n"
    by (rule keys_all_insert) (use ok spend_token in' in auto)
  ultimately show ?thesis
    using ok spend_token owners_same [OF spend_token(3), of ?l] by (simp add: dict_ok_insert)
next
  case (open_window l ls k n k' ts)
  let ?name = "login_name (oe_uuid en n)"
  have new: "?name \<notin> fst ` set ls"
  proof
    assume "?name \<in> fst ` set ls"
    with ok open_window(1) obtain j where "j < k" "?name = login_name (oe_uuid en j)" by (auto simp: name_drawn_def)
    with names_inj(1) [OF inj] open_window(4) show False by simp
  qed
  have "timers_ok (dict_insert ?name l ls) (dict_insert ?name (al_deadline l) ts)"
    using ok open_window(1) by (simp add: timers_open)
  moreover have "token_ok en k' l" using open_window(6) by (auto simp: token_ok_def)
  moreover have "name_drawn en k' ?name" using open_window(5) by (auto simp: name_drawn_def)
  moreover have "tokens_apart (dict_insert ?name l ls)"
  proof (rule tokens_apart_insert)
    show "tokens_apart ls" using ok open_window(1) by simp
    fix n' l' tok
    assume "dict_get ls n' = Some l'" and tok: "al_viewer_token l' = Some tok"
    then have "token_ok en k l'" using ok open_window(1) dict_get_value [of ls n' l'] by auto
    with tok obtain j where "j < k" "tok = token_name (oe_uuid en j)" by (auto simp: token_ok_def)
    show "al_viewer_token l \<noteq> Some tok"
    proof
      assume "al_viewer_token l = Some tok"
      with open_window(6) obtain m where "k \<le> m" "tok = token_name (oe_uuid en m)" by blast
      with \<open>tok = token_name (oe_uuid en j)\<close> names_inj(2) [OF inj, of j m] \<open>j < k\<close> show False by simp
    qed
  qed
  moreover have "distinct (owners (dict_insert ?name l ls))"
    using ok open_window(1,3) owners_new [OF new] by auto
  moreover have "\<forall>l' \<in> snd ` set (dict_insert ?name l ls). token_ok en k' l'"
    by (rule values_insert) (use ok open_window \<open>token_ok en k' l\<close> drawn_mono(2) [of en k _ k'] in auto)
  moreover have "\<forall>n' \<in> fst ` set (dict_insert ?name l ls). name_drawn en k' n'"
    by (rule keys_all_insert) (use ok open_window \<open>name_drawn en k' ?name\<close> drawn_mono(1) [of en k _ k'] in auto)
  ultimately show ?thesis using ok open_window by (simp add: dict_ok_insert)
qed

lemma run_keeps:
  assumes "table_run en t t'" and "P t" and "\<And>t t'. P t \<Longrightarrow> table_step en t t' \<Longrightarrow> P t'"
  shows "P t'"
  using assms by (induction rule: rtranclp_induct) blast+

lemmas run_table_ok = run_keeps [where P = "table_ok en" for en]
lemmas run_name_free = run_keeps [where P = "name_free en j" for en j]
lemmas run_token_spent = run_keeps [where P = "token_spent en j" for en j]

end
