(* ===== verification/LoginWindows.thy ===== *)
theory LoginWindows
  imports Orchestrator
begin

text \<open>
  What the login windows of theory Orchestrator promise: the invariants of their table in every
  reachable state, a viewer token that is handed out once, windows that stay closed, an import
  that never leaves the account in \<open>logging_in\<close>, and a timeout that ends its window.
\<close>

section \<open>Lemmas: what the operations do to the table\<close>

definition no_windows :: "'s orchestrator \<Rightarrow> bool" where
  "no_windows st \<longleftrightarrow> or_logins st = [] \<and> or_timers st = []"

lemma no_windows_ok: "no_windows st \<Longrightarrow> table_ok en (table_of st)"
  by (simp add: no_windows_def table_of_def owners_def timers_ok_def tokens_apart_def)

lemma reachable_ok:
  assumes "inj (oe_uuid en)" and "no_windows st0" and "orch_run en st0 st"
  shows "table_ok en (table_of st)"
  by (rule run_table_ok [OF run_refines [OF assms(3)] no_windows_ok [OF assms(2)]]) (rule step_table_ok [OF assms(1)])

lemma close_window_post:
  "wp (close_window login_id i end_state r) (\<lambda>_ st'. dict_get (or_logins st') login_id = None
     \<and> or_drawn st' = or_drawn st \<and> or_manager st' = or_manager st
     \<and> LoginChanged login_id i (end_as_str end_state) \<in> set (or_events st')) st"
  by (auto simp: close_window_def wp_simps orch_publish_def dict_get_remove split: option.split)

lemma window_wp_back [wp_simps]:
  "wp (back_to_needs_login en i detail) Q st =
     (let out = set_state_locked (oe_manager en) i NeedsLogin (Some detail) (or_manager st)
      in case fst out of
           Inl e \<Rightarrow> Q (Inl e) (st\<lparr>or_manager := snd out\<rparr>)
         | Inr r \<Rightarrow> Q (Inr r) (st\<lparr>or_manager := emit_state (oe_manager en) i LoggingIn (ac_state r) detail (snd out)\<rparr>))"
  by (simp add: back_to_needs_login_def wp_simps Let_def split: sum.split)

text \<open>A window that ends is one that was open.\<close>

definition closes :: "string \<Rightarrow> 's orchestrator \<Rightarrow> 's orchestrator \<Rightarrow> bool" where
  "closes login_id st st' \<longleftrightarrow> dict_get (or_logins st) login_id \<noteq> None \<and> dict_get (or_logins st') login_id = None
     \<and> or_drawn st' = or_drawn st"

lemma abort_closes: "wp (abort_login en login_id) (\<lambda>res st'. \<forall>out. res = Inr out \<longrightarrow> closes login_id st st') st"
  by (auto simp: abort_login_def close_window_def closes_def wp_simps orch_publish_def dict_get_remove Let_def
      split: option.split sum.split)

lemma detect_table: "wp (detect_login en i baseline explicit) (\<lambda>_ st'. or_logins st' = or_logins st \<and> or_drawn st' = or_drawn st) st"
  by (auto simp: detect_login_def get_record_def wp_simps split: sum.split option.split run.split)

lemma window_account_post:
  "wp (window_account login_id) (\<lambda>res st'. st' = st \<and> (\<forall>i. res = Inr i \<longrightarrow> dict_get (or_logins st) login_id \<noteq> None)) st"
  by (simp add: window_account_def wp_simps split: option.split)

lemma complete_closes:
  "wp (complete_login en login_id explicit) (\<lambda>res st'. \<forall>r d. res = Inr (CompleteCaptured r d) \<longrightarrow> closes login_id st st') st"
proof -
  have finish: "wp (if \<not> dt_logged_in d then give (Inr (NotYet d))
     else
       then_do (look or_page) (\<lambda>s.
       try_do (window_capture en i login_id s) (\<lambda>r.
       then_do (close_window login_id i EndCaptured (Some r)) (\<lambda>_.
       give (Inr (CompleteCaptured r d))))))
     (\<lambda>res st'. \<forall>r d. res = Inr (CompleteCaptured r d) \<longrightarrow> closes login_id st st') st1"
    if "or_logins st1 = or_logins st" "or_drawn st1 = or_drawn st" "dict_get (or_logins st) login_id \<noteq> None" for d i st1
    using that
    by (auto simp: window_capture_def close_window_def closes_def wp_simps orch_publish_def dict_get_remove split: sum.split)
  show ?thesis
    unfolding complete_login_def wp_try [of "window_account login_id"]
  proof (rule wp_mono [OF window_account_post])
    fix res :: "core_error + string" and st0 :: "'a orchestrator"
    assume w: "st0 = st \<and> (\<forall>i. res = Inr i \<longrightarrow> dict_get (or_logins st) login_id \<noteq> None)"
    show "(case res of Inl e \<Rightarrow> \<lambda>st'. \<forall>r d. Inl e = Inr (CompleteCaptured r d) \<longrightarrow> closes login_id st st'
      | Inr i \<Rightarrow> wp (try_do (detect_login en i pre_login_default explicit) (\<lambda>d.
          if \<not> dt_logged_in d then give (Inr (NotYet d))
          else
            then_do (look or_page) (\<lambda>s.
            try_do (window_capture en i login_id s) (\<lambda>r.
            then_do (close_window login_id i EndCaptured (Some r)) (\<lambda>_.
            give (Inr (CompleteCaptured r d)))))))
          (\<lambda>res st'. \<forall>r d. res = Inr (CompleteCaptured r d) \<longrightarrow> closes login_id st st')) st0"
    proof (cases res)
      case (Inr i)
      show ?thesis
        unfolding Inr sum.case wp_try
        by (rule wp_mono [OF detect_table]) (use w Inr finish in \<open>auto split: sum.split\<close>)
    qed simp
  qed
qed

lemma stays_closed:
  assumes inj: "inj (oe_uuid en)" and "no_windows st0" and run0: "orch_run en st0 st"
    and "closes login_id st st1" and run1: "orch_run en st1 st2"
  shows "dict_get (or_logins st2) login_id = None"
proof -
  from reachable_ok [OF inj assms(2) run0] assms(4) obtain j where j: "j < or_drawn st" "login_id = login_name (oe_uuid en j)"
    by (fastforce simp: table_of_def closes_def name_drawn_def dest: map_of_SomeD)
  with assms(4) have "name_free en j (table_of st1)" by (simp add: name_free_def table_of_def closes_def)
  from run_name_free [OF run_refines [OF run1] this step_name_free [OF inj]] j(2)
  show ?thesis by (simp add: name_free_def table_of_def)
qed

section \<open>Lemmas: what the operations do to the account\<close>

definition calm :: "'s orch_env \<Rightarrow> string \<Rightarrow> 's orchestrator \<Rightarrow> bool" where
  "calm en i st \<longleftrightarrow> me_lock (oe_manager en) = Inr () \<and> validate_account_id i = Inr ()
     \<and> rg_writable (mg_registry (or_manager st))"

lemma registry_save_result: "registry_save r rg = (res, rg') \<Longrightarrow> rg_writable rg' = rg_writable rg"
  using registry_save_writable [of r rg] by simp

lemma set_sessions_writable [simp]: "rg_writable (mg_registry (set_sessions i fs mg)) = rg_writable (mg_registry mg)"
  by (simp add: set_sessions_def Let_def split: option.split)

lemma capture_session_writable [simp]:
  "rg_writable (mg_registry (snd (capture_session env i ex ua mg))) = rg_writable (mg_registry mg)"
  by (auto simp: capture_session_def Let_def emit_registry dest!: registry_save_result split: sum.split prod.split)

lemma in_state_stored: "stored i r mg \<Longrightarrow> in_state i (ac_state r) mg"
  by (auto simp: stored_def in_state_def)

lemma window_back_post:
  assumes st: "in_state i s (or_manager st)"
  shows "wp (back_to_needs_login en i detail) (\<lambda>res st'. case res of
      Inl e \<Rightarrow> \<not> (calm en i st \<and> can_transition_to s NeedsLogin)
    | Inr r \<Rightarrow> stored i r (or_manager st') \<and> ac_state r = NeedsLogin) st"
proof -
  obtain res mg' where out: "set_state_locked (oe_manager en) i NeedsLogin (Some detail) (or_manager st) = (res, mg')" by fastforce
  show ?thesis
  proof (cases res)
    case (Inl e)
    with out set_state_locked_works [OF st, of NeedsLogin "oe_manager en" "Some detail"]
    show ?thesis by (auto simp: window_wp_back Let_def calm_def)
  next
    case (Inr r)
    with set_state_locked_Inr [OF out [unfolded Inr] st] out show ?thesis by (simp add: window_wp_back Let_def stored_def)
  qed
qed

lemma window_revert_post:
  assumes "in_state i LoggingIn (or_manager st)" and "calm en i st"
  shows "wp (window_revert en i detail) (\<lambda>res st'. \<exists>r. res = Inr r \<and> stored i r (or_manager st') \<and> ac_state r = NeedsLogin) st"
  unfolding window_revert_def wp_try
  by (rule wp_mono [OF window_back_post [OF assms(1)]])
    (use assms(2) in \<open>auto simp: wp_simps orch_publish_def can_transition_to_def split: sum.splits\<close>)

lemma window_capture_post:
  assumes "in_state i LoggingIn (or_manager st)" and "calm en i st"
  shows "wp (window_capture en i login_id s) (\<lambda>res st'. case res of
      Inl e \<Rightarrow> in_state i LoggingIn (or_manager st') \<and> calm en i st'
    | Inr r \<Rightarrow> stored i r (or_manager st') \<and> ac_state r = Valid) st"
proof -
  let ?ex = "so_export_scope (oe_session en) s" and ?ua = "so_effective_ua (oe_session en) s"
  obtain res mg' where c: "capture_session (oe_manager en) i ?ex ?ua (or_manager st) = (res, mg')" by fastforce
  have "rg_writable (mg_registry mg') = rg_writable (mg_registry (or_manager st))"
    using capture_session_writable [of "oe_manager en" i ?ex ?ua "or_manager st"] c by simp
  moreover have "reg_ok (mg_registry (or_manager st))" using assms(1) by (simp add: in_state_def)
  note capture_session_post [OF c this]
  ultimately show ?thesis using assms c
    by (cases res) (auto simp: window_capture_def wp_simps orch_publish_def in_state_def calm_def stored_def)
qed

lemma window_start_post:
  assumes "reg_ok (mg_registry (or_manager st))" and "calm en i st"
  shows "wp (start_logging_in en i mode) (\<lambda>res st'. case res of
      Inl e \<Rightarrow> \<not> in_state i LoggingIn (or_manager st')
    | Inr r \<Rightarrow> in_state i LoggingIn (or_manager st') \<and> calm en i st') st"
proof -
  let ?detail = "Some (''login_started:'' @ mode_as_str mode)"
  obtain res mg' where out: "set_state_locked (oe_manager en) i LoggingIn ?detail (or_manager st) = (res, mg')" by fastforce
  have wr: "rg_writable (mg_registry mg') = rg_writable (mg_registry (or_manager st))"
    using set_state_locked_writable [of "oe_manager en" i LoggingIn ?detail "or_manager st"] unfolding out snd_conv .
  have works: "\<exists>r r'. registry_get i (mg_registry (or_manager st)) = Inr r' \<and> res = Inr r"
    if "in_state i LoggingIn (or_manager st)"
    using set_state_locked_works [OF that, of LoggingIn "oe_manager en" ?detail] out assms(2)
    by (auto simp: calm_def set_state_locked_def set_state_def split: sum.splits prod.splits)
  show ?thesis
  proof (cases "registry_get i (mg_registry (or_manager st))")
    case (Inl e)
    with works show ?thesis by (auto simp: start_logging_in_def get_record_def wp_simps)
  next
    case (Inr r0)
    with registry_get_Inr [OF Inr] assms(1) have st: "in_state i (ac_state r0) (or_manager st)" by (auto simp: in_state_def)
    show ?thesis
    proof (cases res)
      case (Inl e)
      with set_state_locked_Inl [OF out [unfolded Inl]] have "mg_registry mg' = mg_registry (or_manager st)" by simp
      with Inl Inr out works show ?thesis by (auto simp: start_logging_in_def get_record_def wp_simps in_state_def)
    next
      case r: (Inr r)
      from set_state_locked_Inr [OF out [unfolded r] st] have "stored i r mg'" "ac_state r = LoggingIn" by auto
      with r Inr out wr assms(2) show ?thesis
        by (auto simp: start_logging_in_def get_record_def wp_simps calm_def in_state_def stored_def)
    qed
  qed
qed

text \<open>An import between the start and the end of the window.\<close>

definition importing :: "'s orch_env \<Rightarrow> string \<Rightarrow> 's orchestrator \<Rightarrow> bool" where
  "importing en i st \<longleftrightarrow> in_state i LoggingIn (or_manager st) \<and> calm en i st"

definition imported_ok :: "'s orch_env \<Rightarrow> string \<Rightarrow> (core_error + import_outcome) \<Rightarrow> 's orchestrator \<Rightarrow> bool" where
  "imported_ok en i res st \<longleftrightarrow>
     (case res of
        Inl e \<Rightarrow> importing en i st
      | Inr out \<Rightarrow> stored i (im_record out) (or_manager st)
          \<and> ac_state (im_record out) = (if im_baseline_adopted out then Valid else NeedsLogin)
          \<and> (im_baseline_adopted out \<longleftrightarrow> vs_verdict (im_probe out) = ''valid''))"

lemma imported_ok_error [simp]: "imported_ok en i (Inl e) st = importing en i st"
  by (simp add: imported_ok_def)

lemma import_judged_post:
  assumes "importing en i st"
  shows "wp (import_judged en i s outcome) (imported_ok en i) st"
proof -
  have st: "in_state i LoggingIn (or_manager st)" "calm en i st" using assms by (simp_all add: importing_def)
  have reverted: "wp (try_do (window_revert en i detail) (\<lambda>r.
       give (Inr \<lparr>im_record = r, im_probe = summary_of outcome, im_baseline_adopted = False\<rparr>))) (imported_ok en i) st"
    if "vs_verdict (summary_of outcome) \<noteq> ''valid''" for detail
    unfolding wp_try
    by (rule wp_mono [OF window_revert_post [OF st]]) (use that in \<open>auto simp: wp_simps imported_ok_def\<close>)
  show ?thesis
  proof (cases "po_verdict outcome")
    case ProbeValid
    then have v: "vs_verdict (summary_of outcome) = ''valid''" by (simp add: summary_of_def)
    show ?thesis
      unfolding import_judged_def ProbeValid probe_verdict.case wp_try
      by (rule wp_mono [OF window_capture_post [OF st]])
        (use v in \<open>auto simp: wp_simps imported_ok_def importing_def split: sum.splits\<close>)
  next
    case (ProbeInvalid reason)
    then have "vs_verdict (summary_of outcome) \<noteq> ''valid''" by (simp add: summary_of_def)
    then show ?thesis unfolding import_judged_def ProbeInvalid probe_verdict.case by (rule reverted)
  next
    case (ProbeChallenge c)
    then have "vs_verdict (summary_of outcome) \<noteq> ''valid''" by (simp add: summary_of_def)
    then show ?thesis unfolding import_judged_def ProbeChallenge probe_verdict.case by (rule reverted)
  next
    case (ProbeUnreachable reason)
    then show ?thesis using assms unfolding import_judged_def ProbeUnreachable probe_verdict.case wp_give by simp
  qed
qed

lemma import_inner_post:
  assumes "importing en i st"
  shows "wp (import_inner en i state) (imported_ok en i) st"
  using assms import_judged_post [OF assms]
  unfolding import_inner_def open_account_context_def get_record_def
  by (auto simp: wp_simps split: sum.split prod.split run.split)

lemma import_post:
  assumes ok: "reg_ok (mg_registry (or_manager st))" and calm: "calm en i st"
  shows "wp (import_session en i state) (\<lambda>res st'. case res of
      Inl e \<Rightarrow> \<not> in_state i LoggingIn (or_manager st')
    | Inr out \<Rightarrow> imported_ok en i (Inr out) st') st"
  unfolding import_session_def wp_try
proof (rule wp_mono [OF window_start_post [OF ok calm]])
  fix res :: "core_error + account_record" and st1 :: "'a orchestrator"
  let ?Q = "\<lambda>res st'. case res of Inl e \<Rightarrow> \<not> in_state i LoggingIn (or_manager st') | Inr out \<Rightarrow> imported_ok en i (Inr out) st'"
  let ?rest = "then_do (import_inner en i state) (\<lambda>res.
     case res of
       Inr outcome \<Rightarrow> give (Inr outcome)
     | Inl err \<Rightarrow> then_do (window_revert en i (''import_failed:'' @ core_error_display err)) (\<lambda>_. give (Inl err)))"
  assume post: "case res of Inl e \<Rightarrow> \<not> in_state i LoggingIn (or_manager st1)
    | Inr r \<Rightarrow> in_state i LoggingIn (or_manager st1) \<and> calm en i st1"
  show "(case res of Inl e \<Rightarrow> ?Q (Inl e) | Inr a \<Rightarrow> wp ?rest ?Q) st1"
  proof (cases res)
    case (Inl e)
    with post show ?thesis by simp
  next
    case (Inr r)
    with post have "importing en i st1" by (simp add: importing_def)
    from import_inner_post [OF this]
    have "wp ?rest ?Q st1"
      unfolding wp_then
    proof (rule wp_mono)
      fix inner :: "core_error + import_outcome" and st2 :: "'a orchestrator"
      assume inner: "imported_ok en i inner st2"
      show "wp (case inner of Inr outcome \<Rightarrow> give (Inr outcome)
          | Inl err \<Rightarrow> then_do (window_revert en i (''import_failed:'' @ core_error_display err)) (\<lambda>_. give (Inl err))) ?Q st2"
      proof (cases inner)
        case (Inl err)
        with inner have st2: "in_state i LoggingIn (or_manager st2)" "calm en i st2" by (simp_all add: importing_def)
        show ?thesis
          unfolding Inl sum.case wp_then wp_give
          by (rule wp_mono [OF window_revert_post [OF st2]]) (auto simp: stored_def in_state_def)
      next
        case (Inr out)
        with inner show ?thesis by (simp add: wp_simps)
      qed
    qed
    then show ?thesis unfolding Inr sum.case .
  qed
qed

section \<open>A concrete orchestrator\<close>

definition window_ops :: "unit session_ops" where
  "window_ops =
     \<lparr>so_navigate = (\<lambda>u s. (Inr (), s)), so_snapshot = (\<lambda>s. (None, s)), so_evaluate = (\<lambda>js s. (Inr (), s)),
      so_post = (\<lambda>u body ty s. (Inr (), s)), so_http = (\<lambda>u s. (Inr (200, [], ''ok''), s)),
      so_fetch_challenge = (\<lambda>u k s. (Inr None, s)), so_import = (\<lambda>st s. (Inr (), s)),
      so_export_scope = (\<lambda>s scope. \<lparr>ss_cookies = [], ss_origins = []\<rparr>), so_effective_ua = (\<lambda>s. ''ua''),
      so_cookies = (\<lambda>s. []), so_current_url = (\<lambda>s. None), so_history = (\<lambda>s. []), so_expired = (\<lambda>s. (False, s)),
      so_sleep = (\<lambda>s. s)\<rparr>"

definition window_env :: "unit orch_env" where
  "window_env =
     \<lparr>oe_manager = sample_manager_env, oe_session = window_ops, oe_new_session = Inr (), oe_web = sample_env,
      oe_probe_rx = \<lparr>pr_attr_find = (\<lambda>a t. []), pr_attr_value = (\<lambda>a t. None), pr_password_input = (\<lambda>t. False),
        pr_form_opens = (\<lambda>t. []), pr_action = (\<lambda>t. None)\<rparr>,
      oe_dom_rx = sample_regex, oe_parse = (\<lambda>s. Inr (sample_url ''https'' ''a.com'' ''/'' 443)),
      oe_uuid = (\<lambda>k. show_uint (int k)), oe_default_timeout = 300000, oe_checked = True\<rparr>"

definition window_start :: "unit orchestrator" where
  "window_start = \<lparr>or_manager = sample_manager NeedsLogin, or_logins = [], or_timers = [], or_events = [],
     or_page = (), or_now = 0, or_drawn = 0\<rparr>"

definition window_open :: "unit orchestrator" where
  "window_open = (case begin_login window_env ''acct'' UserMode None window_start of Value (res, st) \<Rightarrow> st | _ \<Rightarrow> window_start)"

lemma scan_of_code [code]:
  "scan_of body = (if int (length body) \<le> 262144 then Ret body else slice_to body scan_limit)"
  by (auto simp: scan_of_def scan_limit_def)

lemma window_uuid: "inj (oe_uuid window_env)"
  proof (rule injI)
  fix x y :: nat
  assume "oe_uuid window_env x = oe_uuid window_env y"
  then show "x = y" using inj_show_uint [of "int x" "int y"] by (simp add: window_env_def)
qed

lemma window_begin: "\<exists>res. begin_login window_env ''acct'' UserMode None window_start = Value (res, window_open)"
proof -
  have "case begin_login window_env ''acct'' UserMode None window_start of Value x \<Rightarrow> True | _ \<Rightarrow> False" by code_simp
  then show ?thesis by (auto simp: window_open_def split: flow.splits)
qed

lemma window_run: "orch_run window_env window_start window_open"
  using window_begin step_begin by (metis r_into_rtranclp)

lemma window_none: "no_windows window_start"
  by (simp add: no_windows_def window_start_def)

lemma window_logins:
  "or_logins window_open = [(''login-0'', \<lparr>al_account = ''acct'', al_mode = UserMode, al_deadline = 300000,
     al_viewer_token = Some ''oxi-viewer-1''\<rparr>)]"
  "or_timers window_open = [(''login-0'', 300000)]"
  by code_simp+

lemma sample_in_state: "in_state ''acct'' s (sample_manager s)"
  using sample_manager_ok by (simp add: in_state_def record_of_def sample_manager_def sample_record_def)

lemma window_calm: "calm window_env ''acct'' window_start"
  by code_simp

section \<open>Properties\<close>



text \<open>
  C25: A viewer token is handed out once: in a run from a state without windows, a token that was taken
  is never answered again, for this window or any other.
\<close>
theorem viewer_token_once:
  assumes inj: "inj (oe_uuid en)" and "no_windows st0" and run0: "orch_run en st0 st1"
    and take1: "take_viewer_token login_id st1 = Value (Some tok, st2)"
    and run2: "orch_run en st2 st3" and take2: "take_viewer_token other st3 = Value (res, st4)"
  shows "res \<noteq> Some tok"
proof -
  have ok: "table_ok en (table_of st1)" by (rule reachable_ok [OF inj assms(2) run0])
  from take1 obtain l where l: "dict_get (or_logins st1) login_id = Some l" "al_viewer_token l = Some tok"
    "st2 = st1\<lparr>or_logins := dict_insert login_id (l\<lparr>al_viewer_token := None\<rparr>) (or_logins st1)\<rparr>"
    by (auto simp: take_viewer_token_def then_do_def look_def change_def give_def split: option.splits)
  have "\<forall>l \<in> snd ` set (or_logins st1). token_ok en (or_drawn st1) l" using ok by (simp add: table_of_def)
  with dict_get_value [OF l(1)] have "token_ok en (or_drawn st1) l" by (rule bspec [rotated])
  with l(2) obtain j where j: "j < or_drawn st1" "tok = token_name (oe_uuid en j)" by (auto simp: token_ok_def)
  have "al_viewer_token l' \<noteq> Some tok" if "l' \<in> snd ` set (or_logins st2)" for l'
  proof
    assume tok: "al_viewer_token l' = Some tok"
    have dist: "dict_ok (or_logins st2)" using ok l(3) by (simp add: table_of_def dict_ok_insert)
    with that obtain n where "dict_get (or_logins st2) n = Some l'" by auto
    with l(3) tok have "n \<noteq> login_id" "dict_get (or_logins st1) n = Some l'" by (auto simp: dict_get_insert split: if_splits)
    moreover have "tokens_apart (or_logins st1)" using ok by (simp add: table_of_def)
    ultimately show False using l(1,2) tok unfolding tokens_apart_def by blast
  qed
  then have "token_spent en j (table_of st2)" using j l(3) by (auto simp: token_spent_def table_of_def)
  from run_token_spent [OF run_refines [OF run2] this step_token_spent [OF inj]]
  have spent: "\<forall>l \<in> snd ` set (or_logins st3). al_viewer_token l \<noteq> Some tok"
    using j(2) by (simp add: token_spent_def table_of_def)
  show ?thesis
  proof
    assume "res = Some tok"
    with take2 obtain l' where "dict_get (or_logins st3) other = Some l'" "al_viewer_token l' = Some tok"
      by (auto simp: take_viewer_token_def then_do_def look_def change_def give_def split: option.splits)
    with spent dict_get_value show False by metis
  qed
qed

theorem viewer_token_once_witness:
  "\<exists>st2 st4 res. take_viewer_token ''login-0'' window_open = Value (Some ''oxi-viewer-1'', st2)
     \<and> take_viewer_token ''login-0'' st2 = Value (res, st4) \<and> res \<noteq> Some ''oxi-viewer-1''"
proof -
  have first: "\<exists>st2. take_viewer_token ''login-0'' window_open = Value (Some ''oxi-viewer-1'', st2)"
    by (simp add: take_viewer_token_def then_do_def look_def change_def give_def window_logins)
  then obtain st2 where one: "take_viewer_token ''login-0'' window_open = Value (Some ''oxi-viewer-1'', st2)" ..
  have "\<exists>res st4. take_viewer_token ''login-0'' st2 = Value (res, st4)"
    by (simp add: take_viewer_token_def then_do_def look_def change_def give_def split: option.split)
  then obtain res st4 where two: "take_viewer_token ''login-0'' st2 = Value (res, st4)" by blast
  from viewer_token_once [OF window_uuid window_none window_run one rtranclp.rtrancl_refl two] one two show ?thesis by blast
qed

text \<open>
  A window that was aborted, timed out or captured is never open again, under any later steps.
\<close>
theorem ended_window_stays_closed:
  assumes "inj (oe_uuid en)" and "no_windows st0" and "orch_run en st0 st"
    and "abort_login en login_id st = Value (Inr out, st1)
         \<or> complete_login en login_id explicit st = Value (Inr (CompleteCaptured r d), st1)"
    and "orch_run en st1 st2"
  shows "dict_get (or_logins st) login_id \<noteq> None \<and> dict_get (or_logins st2) login_id = None"
proof -
  have "closes login_id st st1"
    using assms(4) wp_Value [OF abort_closes] wp_Value [OF complete_closes] by blast
  moreover from stays_closed [OF assms(1-3) this assms(5)] show ?thesis
    using \<open>closes login_id st st1\<close> by (simp add: closes_def)
qed

theorem ended_window_stays_closed_witness:
  "\<exists>out st1. abort_login window_env ''login-0'' window_open = Value (Inr out, st1)
     \<and> dict_get (or_logins st1) ''login-0'' = None"
proof -
  have "case abort_login window_env ''login-0'' window_open of Value (Inr out, st1) \<Rightarrow> True | _ \<Rightarrow> False" by code_simp
  then obtain out st1 where abort: "abort_login window_env ''login-0'' window_open = Value (Inr out, st1)"
    by (auto split: flow.splits prod.splits sum.splits)
  from ended_window_stays_closed [OF window_uuid window_none window_run disjI1 [OF this] rtranclp.rtrancl_refl] abort
  show ?thesis by blast
qed

text \<open>
  C27: An import never leaves the account in \<open>logging_in\<close>: with a free lock and a writable registry it
  answers with the stored record, valid exactly when the probe was, else back in \<open>needs_login\<close>;
  and after an error, an unreachable probe included, the account is not in \<open>logging_in\<close>.
\<close>
theorem import_never_wedges:
  assumes "reg_ok (mg_registry (or_manager st))" and "calm en i st"
    and "import_session en i state st = Value (res, st')"
  shows "case res of
      Inl e \<Rightarrow> \<not> in_state i LoggingIn (or_manager st')
    | Inr out \<Rightarrow> stored i (im_record out) (or_manager st')
        \<and> ac_state (im_record out) = (if vs_verdict (im_probe out) = ''valid'' then Valid else NeedsLogin)"
  using wp_Value [OF import_post [OF assms(1,2)] assms(3)] by (auto simp: imported_ok_def split: sum.splits if_splits)

theorem import_never_wedges_witness:
  "\<exists>out st'. import_session window_env ''acct'' \<lparr>ss_cookies = [], ss_origins = []\<rparr> window_start = Value (Inr out, st')
     \<and> vs_verdict (im_probe out) = ''valid'' \<and> ac_state (im_record out) = Valid"
proof -
  let ?run = "import_session window_env ''acct'' \<lparr>ss_cookies = [], ss_origins = []\<rparr> window_start"
  have "case ?run of Value (Inr out, st') \<Rightarrow> vs_verdict (im_probe out) = ''valid'' | _ \<Rightarrow> False" by code_simp
  then obtain out st' where run: "?run = Value (Inr out, st')" "vs_verdict (im_probe out) = ''valid''"
    by (auto split: flow.splits prod.splits sum.splits)
  have "reg_ok (mg_registry (or_manager window_start))" using sample_manager_ok by (simp add: window_start_def)
  from import_never_wedges [OF this window_calm run(1)] run show ?thesis by auto
qed



text \<open>
  An import does not look at the open windows: it captures a valid session while a login window
  of the same account is open, and the timeout of that window then throws the session away.
\<close>
theorem stale_window_discards_import:
  "case import_session window_env ''acct'' \<lparr>ss_cookies = [], ss_origins = []\<rparr> window_open of
     Value (Inr out, st1) \<Rightarrow>
       ac_state (im_record out) = Valid
       \<and> (case fire_timeout window_env ''login-0'' (st1\<lparr>or_now := 300000\<rparr>) of
            Value (u, st2) \<Rightarrow> map_option ac_state (record_of ''acct'' (mg_registry (or_manager st2))) = Some NeedsLogin
          | _ \<Rightarrow> False)
   | _ \<Rightarrow> False"
  by code_simp

text \<open>
  The check for an open window and its entry in the table are two critical sections: two calls
  that check before either enters both open a window for the same account.
\<close>
theorem concurrent_begins_open_two_windows:
  "case begin_check ''acct'' window_start of
     Value (Inr r, st) \<Rightarrow>
       (case begin_commit window_env ''acct'' UserMode None r st of
          Value (Inr h, st1) \<Rightarrow>
            (case begin_commit window_env ''acct'' UserMode None r st1 of
               Value (Inr h', st2) \<Rightarrow>
                 lh_login_id h \<noteq> lh_login_id h' \<and> map (al_account \<circ> snd) (or_logins st2) = [''acct'', ''acct'']
             | _ \<Rightarrow> False)
        | _ \<Rightarrow> False)
   | _ \<Rightarrow> False"
  by code_simp

end
