(* ===== verification/ContextStorage.thy ===== *)
theory ContextStorage
  imports LoginSession
begin

text \<open>
  The storage of a browser context (\<open>oxibrowser-core/src/context.rs\<close>), its export and import
  (\<open>session.rs\<close>), and the Netscape cookie file (\<open>storage_state.rs\<close>). A context keeps, per origin,
  localStorage entries and IndexedDB databases. The code keeps them in hash maps, whose order it
  does not use; here they are dictionaries.
\<close>

section \<open>Buckets\<close>

record context_storage =
  cx_local :: "(string, (string, string) dict) dict"
  cx_dbs :: "(string, (string, idb_database) dict) dict"

text \<open>\<open>map.get(origin).cloned().unwrap_or_default()\<close> and \<open>map.entry(origin).or_default()\<close>.\<close>

definition bucket_of :: "(string, ('k, 'v) dict) dict \<Rightarrow> string \<Rightarrow> ('k, 'v) dict" where
  "bucket_of m i = (case dict_get m i of Some b \<Rightarrow> b | None \<Rightarrow> [])"

definition on_bucket ::
  "string \<Rightarrow> (('k, 'v) dict \<Rightarrow> ('k, 'v) dict) \<Rightarrow> (string, ('k, 'v) dict) dict \<Rightarrow> (string, ('k, 'v) dict) dict" where
  "on_bucket i f m = dict_insert i (f (bucket_of m i)) m"

definition storage_bucket :: "string \<Rightarrow> context_storage \<Rightarrow> (string, string) dict" where
  "storage_bucket i cx = bucket_of (cx_local cx) i"

definition indexed_db_bucket :: "string \<Rightarrow> context_storage \<Rightarrow> (string, idb_database) dict" where
  "indexed_db_bucket i cx = bucket_of (cx_dbs cx) i"

definition clear_storage :: "context_storage \<Rightarrow> context_storage" where
  "clear_storage cx = cx\<lparr>cx_local := []\<rparr>"

definition dict_extend :: "('k \<times> 'v) list \<Rightarrow> ('k, 'v) dict \<Rightarrow> ('k, 'v) dict" where
  "dict_extend kvs d = fold (\<lambda>(k, v). dict_insert k v) kvs d"

definition merge_indexed_db :: "string \<Rightarrow> (string, idb_database) dict \<Rightarrow> context_storage \<Rightarrow> context_storage" where
  "merge_indexed_db i dbs cx = cx\<lparr>cx_dbs := on_bucket i (dict_extend dbs) (cx_dbs cx)\<rparr>"

definition storage_origin_of :: "url \<Rightarrow> string" where
  "storage_origin_of u = (if url_ascii_origin u = ''null'' then url_as_str u else url_ascii_origin u)"

text \<open>\<open>url::Origin::Tuple\<close>: an origin that is not opaque.\<close>

definition tuple_origin :: "url \<Rightarrow> bool" where
  "tuple_origin u \<longleftrightarrow> url_ascii_origin u \<noteq> ''null''"

section \<open>The session's view\<close>

record session_storage =
  sx_context :: context_storage
  sx_jar :: jar
  sx_url :: "url option"
  sx_origin :: "string option"
  sx_last_import :: "string option"

definition storage_origin :: "session_storage \<Rightarrow> string" where
  "storage_origin sx =
     (case sx_origin sx of
        Some i \<Rightarrow> i
      | None \<Rightarrow> (case sx_last_import sx of Some i \<Rightarrow> i | None \<Rightarrow> ''null''))"

definition set_local_storage :: "string \<Rightarrow> string \<Rightarrow> session_storage \<Rightarrow> session_storage" where
  "set_local_storage k v sx =
     sx\<lparr>sx_context := (sx_context sx)
        \<lparr>cx_local := on_bucket (storage_origin sx) (dict_insert k v) (cx_local (sx_context sx))\<rparr>\<rparr>"

definition get_local_storage :: "string \<Rightarrow> session_storage \<Rightarrow> string option" where
  "get_local_storage k sx = dict_get (storage_bucket (storage_origin sx) (sx_context sx)) k"

section \<open>Export\<close>

text \<open>One origin's entry; databases are omitted when there is none.\<close>

definition origin_entry ::
  "string \<Rightarrow> (string, string) dict option \<Rightarrow> (string, idb_database) dict option \<Rightarrow> origin_state" where
  "origin_entry i b dbs =
     \<lparr>os_origin = i, os_local_storage = (case b of Some b \<Rightarrow> b | None \<Rightarrow> []),
      os_indexed_db = (case dbs of Some d \<Rightarrow> if d = [] then None else Some (map snd d) | None \<Rightarrow> None)\<rparr>"

definition export_state :: "session_storage \<Rightarrow> storage_state" where
  "export_state sx =
     \<lparr>ss_cookies = get_all (sx_jar sx),
      ss_origins =
        (case sx_url sx of
           Some u \<Rightarrow>
             if tuple_origin u
             then (let i = storage_origin_of u; b = dict_get (cx_local (sx_context sx)) i;
                       dbs = dict_get (cx_dbs (sx_context sx)) i
                   in if b = None \<and> dbs = None then [] else [origin_entry i b dbs])
             else []
         | None \<Rightarrow> [])\<rparr>"

definition cookie_in_scope :: "web_env \<Rightarrow> string \<Rightarrow> cookie_entry \<Rightarrow> bool" where
  "cookie_in_scope env scope c =
     (case ck_domain c of
        Some d \<Rightarrow> registrable_domain env (trim_start_char (CHR ''.'') d) = scope
      | None \<Rightarrow> False)"

definition origin_in_scope :: "web_env \<Rightarrow> url_parser \<Rightarrow> string \<Rightarrow> string \<Rightarrow> bool" where
  "origin_in_scope env parse scope i =
     (case parse i of
        None \<Rightarrow> False
      | Some u \<Rightarrow> tuple_origin u
          \<and> (case url_host_str u of Some h \<Rightarrow> registrable_domain env h = scope | None \<Rightarrow> False))"

definition no_entries :: "('k, 'v) dict option \<Rightarrow> bool" where
  "no_entries d = (case d of Some b \<Rightarrow> b = [] | None \<Rightarrow> True)"

definition export_origin :: "web_env \<Rightarrow> url_parser \<Rightarrow> string \<Rightarrow> context_storage \<Rightarrow> string \<Rightarrow> origin_state option" where
  "export_origin env parse scope cx i =
     (if \<not> origin_in_scope env parse scope i then None
      else (let b = dict_get (cx_local cx) i; dbs = dict_get (cx_dbs cx) i
            in if b = None \<and> dbs = None then None
               else if no_entries b \<and> no_entries dbs then None
               else Some (origin_entry i b dbs)))"

definition export_state_for_scope :: "web_env \<Rightarrow> url_parser \<Rightarrow> string \<Rightarrow> session_storage \<Rightarrow> storage_state" where
  "export_state_for_scope env parse scope sx =
     (let scope = to_ascii_lowercase scope; cx = sx_context sx;
          keys = sort (remdups (map fst (cx_local cx) @ map fst (cx_dbs cx)))
      in \<lparr>ss_cookies = filter (cookie_in_scope env scope) (get_all (sx_jar sx)),
          ss_origins = List.map_filter (export_origin env parse scope cx) keys\<rparr>)"

section \<open>Import\<close>

fun insert_entries :: "web_env \<Rightarrow> cookie_entry list \<Rightarrow> jar \<Rightarrow> jar run" where
  "insert_entries env [] j = Ret j"
| "insert_entries env (c # cs) j = run_bind (insert_entry env c j) (insert_entries env cs)"

definition import_local :: "origin_state \<Rightarrow> context_storage \<Rightarrow> context_storage" where
  "import_local st cx = cx\<lparr>cx_local := on_bucket (os_origin st) (dict_extend (os_local_storage st)) (cx_local cx)\<rparr>"

definition import_dbs :: "origin_state \<Rightarrow> context_storage \<Rightarrow> context_storage" where
  "import_dbs st cx =
     (case os_indexed_db st of
        Some dbs \<Rightarrow> cx\<lparr>cx_dbs := on_bucket (os_origin st) (dict_extend (map (\<lambda>db. (db_name db, db)) dbs)) (cx_dbs cx)\<rparr>
      | None \<Rightarrow> cx)"

definition import_state :: "web_env \<Rightarrow> storage_state \<Rightarrow> session_storage \<Rightarrow> session_storage run" where
  "import_state env st sx =
     run_bind (insert_entries env (ss_cookies st) (sx_jar sx)) (\<lambda>j.
       if ss_origins st = [] then Ret (sx\<lparr>sx_jar := j\<rparr>)
       else Ret (sx\<lparr>sx_jar := j,
                    sx_context := fold import_dbs (ss_origins st) (fold import_local (ss_origins st) (sx_context sx)),
                    sx_last_import := Some (os_origin (last (ss_origins st)))\<rparr>))"

section \<open>Netscape cookie files\<close>

definition netscape_cookie :: "string \<Rightarrow> cookie_entry option" where
  "netscape_cookie line0 =
     (case (case strip_prefix line0 ''#HttpOnly_'' of Some rest \<Rightarrow> (True, rest) | None \<Rightarrow> (False, line0)) of
        (http_only, line) \<Rightarrow>
          if str_trim line = [] \<or> starts_with line ''#'' then None
          else (case split_on (CHR 0x09) line of
                  [domain, subdomains, path, secure, expiry, name, val] \<Rightarrow>
                    Some \<lparr>ck_name = name, ck_value = val, ck_path = Some path,
                          ck_domain = Some (trim_start_char (CHR ''.'') domain),
                          ck_secure = eq_ignore_ascii_case secure ''true'', ck_http_only = http_only,
                          ck_same_site = None, ck_expires = None, ck_max_age = None,
                          ck_expiry = (case parse_sint 64 expiry of Some t \<Rightarrow> if 0 < t then Some t else None | None \<Rightarrow> None),
                          ck_partitioned = False, ck_partition_key = None\<rparr>
                | _ \<Rightarrow> None))"

definition from_netscape :: "string \<Rightarrow> storage_state" where
  "from_netscape text0 = \<lparr>ss_cookies = List.map_filter netscape_cookie (str_lines text0), ss_origins = []\<rparr>"

section \<open>Round trips\<close>

text \<open>One key once in every bucket, and every database under its own name.\<close>

definition cx_ok :: "context_storage \<Rightarrow> bool" where
  "cx_ok cx \<longleftrightarrow>
     (\<forall>(i, b) \<in> set (cx_local cx). dict_ok b)
     \<and> (\<forall>(i, dbs) \<in> set (cx_dbs cx). dict_ok dbs \<and> (\<forall>(n, db) \<in> set dbs. db_name db = n))"

lemma bucket_on: "bucket_of (on_bucket i f m) j = (if j = i then f (bucket_of m i) else bucket_of m j)"
  by (simp add: on_bucket_def bucket_of_def dict_get_insert)

lemma dict_extend_fresh: "dict_ok (d @ kvs) \<Longrightarrow> dict_extend kvs d = d @ kvs"
proof (induction kvs arbitrary: d)
  case (Cons kv kvs)
  obtain k v where kv: "kv = (k, v)" by (cases kv)
  with Cons.prems have "k \<notin> fst ` set d" by auto
  then have "dict_extend (kv # kvs) d = dict_extend kvs (d @ [(k, v)])"
    by (simp add: dict_extend_def kv dict_insert_new)
  with Cons kv show ?case by simp
qed (simp add: dict_extend_def)

lemma dict_extend_empty: "dict_ok kvs \<Longrightarrow> dict_extend kvs [] = kvs"
  using dict_extend_fresh [of "[]"] by simp

lemma cx_after_imports:
  "cx_dbs (fold import_local os cx) = cx_dbs cx" "cx_local (fold import_dbs os cx) = cx_local cx"
  by (induction os arbitrary: cx) (auto simp: import_local_def import_dbs_def split: option.split)

abbreviation by_origin :: "origin_state list \<Rightarrow> string \<Rightarrow> origin_state option" where
  "by_origin os \<equiv> map_of (map (\<lambda>st. (os_origin st, st)) os)"

lemma imported_local:
  "distinct (map os_origin os) \<Longrightarrow>
     bucket_of (cx_local (fold import_local os cx)) i =
       (case by_origin os i of
          Some st \<Rightarrow> dict_extend (os_local_storage st) (bucket_of (cx_local cx) i)
        | None \<Rightarrow> bucket_of (cx_local cx) i)"
proof (induction os arbitrary: cx)
  case (Cons st os)
  then have "by_origin os (os_origin st) = None" by (simp add: map_of_eq_None_iff image_comp)
  with Cons show ?case by (simp add: import_local_def bucket_on split: option.split)
qed simp

lemma imported_dbs:
  "distinct (map os_origin os) \<Longrightarrow>
     bucket_of (cx_dbs (fold import_dbs os cx)) i =
       (case by_origin os i of
          Some st \<Rightarrow> (case os_indexed_db st of
              Some dbs \<Rightarrow> dict_extend (map (\<lambda>db. (db_name db, db)) dbs) (bucket_of (cx_dbs cx) i)
            | None \<Rightarrow> bucket_of (cx_dbs cx) i)
        | None \<Rightarrow> bucket_of (cx_dbs cx) i)"
proof (induction os arbitrary: cx)
  case (Cons st os)
  then have "by_origin os (os_origin st) = None" by (simp add: map_of_eq_None_iff image_comp)
  with Cons show ?case by (simp add: import_dbs_def bucket_on split: option.split)
qed simp

lemma export_origin_Some: "export_origin env parse scope cx i = Some st \<Longrightarrow> os_origin st = i"
  by (auto simp: export_origin_def origin_entry_def Let_def split: if_splits)

lemma exported_origins:
  "distinct ks \<Longrightarrow> distinct (map os_origin (List.map_filter (export_origin env parse scope cx) ks))
    \<and> set (map os_origin (List.map_filter (export_origin env parse scope cx) ks)) \<subseteq> set ks"
  by (induction ks) (auto simp: List.map_filter_simps dest: export_origin_Some split: option.split)

lemma by_origin_exported:
  "by_origin (List.map_filter (export_origin env parse scope cx) ks) i =
     (if i \<in> set ks then export_origin env parse scope cx i else None)"
  by (induction ks) (auto simp: List.map_filter_simps dest: export_origin_Some split: option.split)

lemma restored_bucket:
  assumes ok: "cx_ok cx"
    and os: "os = List.map_filter (export_origin env parse scope cx) (sort (remdups (map fst (cx_local cx) @ map fst (cx_dbs cx))))"
    and empty: "cx_local cx0 = []" "cx_dbs cx1 = []"
  shows "bucket_of (cx_local (fold import_local os cx0)) i = (if origin_in_scope env parse scope i then bucket_of (cx_local cx) i else [])"
    and "bucket_of (cx_dbs (fold import_dbs os cx1)) i = (if origin_in_scope env parse scope i then bucket_of (cx_dbs cx) i else [])"
proof -
  have dist: "distinct (map os_origin os)" unfolding os using exported_origins by (metis distinct_remdups distinct_sort)
  have at: "by_origin os i = (if dict_get (cx_local cx) i = None \<and> dict_get (cx_dbs cx) i = None then None
      else export_origin env parse scope cx i)"
    unfolding os by_origin_exported by (auto simp: map_of_eq_None_iff)
  have local_ok: "dict_ok (bucket_of (cx_local cx) i)"
    using ok by (auto simp: cx_ok_def bucket_of_def dest: map_of_SomeD split: option.split)
  have dbs_ok: "dict_ok (bucket_of (cx_dbs cx) i)"
    using ok by (auto simp: cx_ok_def bucket_of_def dest: map_of_SomeD split: option.split)
  have named: "map (\<lambda>db. (db_name db, db)) (map snd d) = d" if "dict_get (cx_dbs cx) i = Some d" for d
  proof -
    have "\<forall>(n, db) \<in> set d. db_name db = n" using ok map_of_SomeD [OF that] by (auto simp: cx_ok_def)
    then show ?thesis by (auto intro!: map_idI)
  qed
  show "bucket_of (cx_local (fold import_local os cx0)) i = (if origin_in_scope env parse scope i then bucket_of (cx_local cx) i else [])"
    using local_ok unfolding imported_local [OF dist] at
    by (auto simp: empty bucket_of_def export_origin_def origin_entry_def no_entries_def Let_def dict_extend_empty
        split: option.splits)
  show "bucket_of (cx_dbs (fold import_dbs os cx1)) i = (if origin_in_scope env parse scope i then bucket_of (cx_dbs cx) i else [])"
    using dbs_ok named unfolding imported_dbs [OF dist] at
    by (auto simp: empty bucket_of_def export_origin_def origin_entry_def no_entries_def Let_def dict_extend_empty
        split: option.splits)
qed

text \<open>
  C22: A restored envelope holds the storage of its scope and nothing else: importing what was
  exported for a scope into a context without storage gives every origin of that scope its
  localStorage entries and databases back, and no other origin any.
\<close>
theorem envelope_restores_storage:
  assumes "cx_ok (sx_context sx)" and "cx_local (sx_context fresh) = []" and "cx_dbs (sx_context fresh) = []"
    and "import_state env (export_state_for_scope env parse scope sx) fresh = Ret sx'"
  shows "storage_bucket i (sx_context sx') =
      (if origin_in_scope env parse (to_ascii_lowercase scope) i then storage_bucket i (sx_context sx) else [])
    \<and> indexed_db_bucket i (sx_context sx') =
      (if origin_in_scope env parse (to_ascii_lowercase scope) i then indexed_db_bucket i (sx_context sx) else [])"
proof -
  define os where "os = ss_origins (export_state_for_scope env parse scope sx)"
  let ?s = "to_ascii_lowercase scope"
  have os: "os = List.map_filter (export_origin env parse ?s (sx_context sx))
      (sort (remdups (map fst (cx_local (sx_context sx)) @ map fst (cx_dbs (sx_context sx)))))"
    by (simp add: os_def export_state_for_scope_def Let_def)
  let ?mid = "fold import_local os (sx_context fresh)"
  have after: "sx_context sx' = fold import_dbs os ?mid"
    using assms(4) unfolding import_state_def os_def [symmetric] by (cases "os = []") (auto simp: run_bind_Ret)
  have "cx_dbs ?mid = []" using assms(3) by (simp add: cx_after_imports)
  from restored_bucket [OF assms(1) os assms(2) this]
  show ?thesis by (simp add: storage_bucket_def indexed_db_bucket_def after cx_after_imports)
qed


definition demo_storage :: session_storage where
  "demo_storage =
     \<lparr>sx_context = \<lparr>cx_local = [(''https://a.example.com'', [(''token'', ''1'')]), (''https://b.com'', [(''k'', ''2'')])],
        cx_dbs = [(''https://a.example.com'',
          [(''auth'', \<lparr>db_name = ''auth'', db_version = 1, db_stores = [(''tokens'', [])], db_key_paths = []\<rparr>)])]\<rparr>,
      sx_jar = [], sx_url = None, sx_origin = None, sx_last_import = None\<rparr>"

definition demo_parse :: url_parser where
  "demo_parse s =
     (case strip_prefix s ''https://'' of Some h \<Rightarrow> Some (sample_url ''https'' h ''/'' 443) | None \<Rightarrow> None)"

theorem envelope_restores_storage_witness:
  "\<exists>sx'. storage_bucket ''https://a.example.com'' (sx_context sx') = [(''token'', ''1'')]
     \<and> storage_bucket ''https://b.com'' (sx_context sx') = []
     \<and> import_state sample_env (export_state_for_scope sample_env demo_parse ''Example.com'' demo_storage)
         (demo_storage\<lparr>sx_context := \<lparr>cx_local = [], cx_dbs = []\<rparr>\<rparr>) = Ret sx'"
proof -
  let ?fresh = "demo_storage\<lparr>sx_context := \<lparr>cx_local = [], cx_dbs = []\<rparr>\<rparr>"
  let ?st = "export_state_for_scope sample_env demo_parse ''Example.com'' demo_storage"
  have ok: "cx_ok (sx_context demo_storage)" by code_simp
  have empty: "cx_local (sx_context ?fresh) = []" "cx_dbs (sx_context ?fresh) = []" by simp_all
  obtain sx' where run: "import_state sample_env ?st ?fresh = Ret sx'"
  proof -
    have "case import_state sample_env ?st ?fresh of Ret sx' \<Rightarrow> True | Panic \<Rightarrow> False" by code_simp
    then show thesis by (auto split: run.splits intro: that)
  qed
  have scope: "origin_in_scope sample_env demo_parse (to_ascii_lowercase ''Example.com'') ''https://a.example.com''"
    "\<not> origin_in_scope sample_env demo_parse (to_ascii_lowercase ''Example.com'') ''https://b.com''"
    "storage_bucket ''https://a.example.com'' (sx_context demo_storage) = [(''token'', ''1'')]" by code_simp+
  from envelope_restores_storage [OF ok empty run, of "''https://a.example.com''"]
    envelope_restores_storage [OF ok empty run, of "''https://b.com''"]
  show ?thesis using scope run by (intro exI [of _ sx']) simp
qed

section \<open>Cookies across an export\<close>

text \<open>The line of a Netscape file that holds a cookie.\<close>

definition netscape_line :: "cookie_entry \<Rightarrow> string" where
  "netscape_line c =
     (if ck_http_only c then ''#HttpOnly_'' else [])
     @ join_with [CHR 0x09]
         [the (ck_domain c), ''TRUE'', the (ck_path c), if ck_secure c then ''TRUE'' else ''FALSE'',
          case ck_expiry c of Some t \<Rightarrow> show_uint t | None \<Rightarrow> ''0'', ck_name c, ck_value c]"

definition field_ok :: "string \<Rightarrow> bool" where
  "field_ok s \<longleftrightarrow> CHR 0x09 \<notin> set s \<and> CHR 0x0A \<notin> set s"

definition netscape_ok :: "cookie_entry \<Rightarrow> bool" where
  "netscape_ok c \<longleftrightarrow>
     (case (ck_domain c, ck_path c) of
        (Some d, Some p) \<Rightarrow> word_ok d \<and> hd d \<notin> {CHR ''#'', CHR ''.''} \<and> field_ok d \<and> field_ok p
      | _ \<Rightarrow> False)
     \<and> field_ok (ck_name c) \<and> field_ok (ck_value c) \<and> \<not> ends_with (ck_value c) [CHR 0x0D]
     \<and> ck_same_site c = None \<and> ck_expires c = None \<and> ck_max_age c = None
     \<and> (case ck_expiry c of Some t \<Rightarrow> 0 < t \<and> t < 2 ^ 63 | None \<Rightarrow> True)
     \<and> \<not> ck_partitioned c \<and> ck_partition_key c = None"

lemma lines_of_lines:
  "(\<And>l. l \<in> set ls \<Longrightarrow> CHR 0x0A \<notin> set l) \<Longrightarrow> split_on (CHR 0x0A) (concat (map (\<lambda>l. l @ [CHR 0x0A]) ls)) = ls @ [[]]"
proof (induction ls)
  case (Cons l ls)
  then have "split_on (CHR 0x0A) (l @ CHR 0x0A # concat (map (\<lambda>l. l @ [CHR 0x0A]) ls))
      = l # split_on (CHR 0x0A) (concat (map (\<lambda>l. l @ [CHR 0x0A]) ls))"
    by (intro split_by_append_sep) auto
  with Cons show ?case by simp
qed simp

lemma strip_cr_none: "\<not> ends_with l [CHR 0x0D] \<Longrightarrow> strip_cr l = l"
  by (simp add: strip_cr_def strip_suffix_def)

lemma str_lines_of:
  assumes "\<And>l. l \<in> set ls \<Longrightarrow> CHR 0x0A \<notin> set l \<and> \<not> ends_with l [CHR 0x0D]"
  shows "str_lines (concat (map (\<lambda>l. l @ [CHR 0x0A]) ls)) = ls"
proof -
  have "split_on (CHR 0x0A) (concat (map (\<lambda>l. l @ [CHR 0x0A]) ls)) = ls @ [[]]"
    using assms by (intro lines_of_lines) auto
  moreover have "map strip_cr ls = ls" using assms by (auto intro: map_idI simp: strip_cr_none)
  ultimately show ?thesis by (simp add: str_lines_def)
qed

lemma parse_sint_show_uint: "0 \<le> n \<Longrightarrow> n < 2 ^ (w - 1) \<Longrightarrow> parse_sint w (show_uint n) = Some n"
proof -
  assume n: "0 \<le> n" "n < 2 ^ (w - 1)"
  obtain c cs where s: "show_uint n = c # cs" using show_uint_not_Nil by (metis neq_Nil_conv)
  have "c \<noteq> CHR ''-''" using show_uint_digits [OF n(1), of c] s by (auto simp: is_ascii_digit_def)
  then show ?thesis using n strip_plus_show_uint [OF n(1)] parse_digits_show_uint [OF n(1)] unfolding s parse_sint_def by simp
qed

lemma split_tabs:
  assumes "field_ok a" "field_ok b" "field_ok c" "field_ok d" "field_ok e" "field_ok f" "field_ok g"
  shows "split_on (CHR 0x09) (join_with [CHR 0x09] [a, b, c, d, e, f, g]) = [a, b, c, d, e, f, g]"
proof -
  have cut: "split_on (CHR 0x09) (x @ CHR 0x09 # r) = x # split_on (CHR 0x09) r" if "field_ok x" for x r
    using that by (intro split_by_append_sep) (auto simp: field_ok_def)
  have end': "split_on (CHR 0x09) g = [g]" using assms(7) by (intro split_by_none) (auto simp: field_ok_def)
  show ?thesis using assms by (simp add: cut end')
qed

lemma trim_word_start:
  assumes "word_ok d"
  shows "str_trim (d @ CHR 0x09 # r) \<noteq> []"
proof -
  from assms obtain c cs where d: "d = c # cs" and c: "\<not> is_whitespace [c]" and ascii: "is_ascii_str d"
    by (cases d) (auto simp: word_ok_def)
  have "takeWhile is_continuation (cs @ CHR 0x09 # r) = []"
    using ascii by (cases cs) (auto simp: d is_ascii_str_def is_continuation_def)
  then have "utf8_chars (d @ CHR 0x09 # r) = [c] # utf8_chars (cs @ CHR 0x09 # r)"
    by (simp add: d takeWhile_eq_Nil_iff dropWhile_id)
  then show ?thesis using c by (simp add: str_trim_def dropWhile_end_def dropWhile_append3)
qed

lemma netscape_cookie_line:
  assumes "netscape_ok c"
  shows "netscape_cookie (netscape_line c) = Some c" and "CHR 0x0A \<notin> set (netscape_line c)"
    and "\<not> ends_with (netscape_line c) [CHR 0x0D]"
proof -
  from assms obtain d p where d: "ck_domain c = Some d" "word_ok d" "hd d \<noteq> CHR ''#''" "hd d \<noteq> CHR ''.''" "field_ok d"
    and p: "ck_path c = Some p" "field_ok p"
    by (auto simp: netscape_ok_def split: option.splits)
  have zero: "parse_sint 64 ''0'' = Some 0" by code_simp
  define num where "num = (case ck_expiry c of Some t \<Rightarrow> show_uint t | None \<Rightarrow> ''0'')"
  have num: "parse_sint 64 num = (case ck_expiry c of Some t \<Rightarrow> Some t | None \<Rightarrow> Some 0)"
    using assms zero by (auto simp: num_def netscape_ok_def parse_sint_show_uint split: option.splits)
  have digits: "field_ok s" if "\<And>ch. ch \<in> set s \<Longrightarrow> is_ascii_digit ch" for s
    using that [of "CHR 0x09"] that [of "CHR 0x0A"] by (auto simp: field_ok_def is_ascii_digit_def)
  have num_ok: "field_ok num"
    using assms by (auto simp: num_def netscape_ok_def is_ascii_digit_def intro!: digits dest: show_uint_digits [rotated] split: option.splits)
  define line where "line = join_with [CHR 0x09] [d, ''TRUE'', p, if ck_secure c then ''TRUE'' else ''FALSE'', num, ck_name c, ck_value c]"
  have whole: "netscape_line c = (if ck_http_only c then ''#HttpOnly_'' else []) @ line"
    by (simp add: netscape_line_def line_def num_def d(1) p(1))
  have fields: "split_on (CHR 0x09) line
      = [d, ''TRUE'', p, if ck_secure c then ''TRUE'' else ''FALSE'', num, ck_name c, ck_value c]"
    unfolding line_def using assms d p num_ok by (intro split_tabs) (auto simp: field_ok_def netscape_ok_def)
  have trim: "str_trim line \<noteq> []" unfolding line_def using trim_word_start [OF d(2)] by simp
  obtain x xs where x: "d = x # xs" using d(2) by (cases d) (auto simp: word_ok_def)
  then have start: "hd line = x" "line \<noteq> []" "x \<noteq> CHR ''#''" "x \<noteq> CHR ''.''" using d(3,4) by (simp_all add: line_def)
  then have hash: "\<not> starts_with line ''#''" by (cases line) (auto simp: starts_with_def)
  have split: "(case strip_prefix (netscape_line c) ''#HttpOnly_'' of Some rest \<Rightarrow> (True, rest) | None \<Rightarrow> (False, netscape_line c))
      = (ck_http_only c, line)"
    using start by (cases line) (auto simp: whole strip_prefix_def starts_with_def)
  have flags: "eq_ignore_ascii_case ''TRUE'' ''true''" "\<not> eq_ignore_ascii_case ''FALSE'' ''true''" by code_simp+
  have none: "ck_same_site c = None" "ck_expires c = None" "ck_max_age c = None" "ck_partitioned c = False"
      "ck_partition_key c = None" "\<And>t. ck_expiry c = Some t \<Longrightarrow> 0 < t"
    using assms by (auto simp: netscape_ok_def split: option.splits)
  have expiry: "(case parse_sint 64 num of Some t \<Rightarrow> if 0 < t then Some t else None | None \<Rightarrow> None) = ck_expiry c"
    using num none(6) by (auto split: option.splits)
  have secure: "eq_ignore_ascii_case (if ck_secure c then ''TRUE'' else ''FALSE'') ''true'' = ck_secure c"
    using flags by simp
  have dom: "trim_start_char (CHR ''.'') d = d" using x start by (simp add: trim_start_char_def)
  have "netscape_cookie (netscape_line c) = Some \<lparr>ck_name = ck_name c, ck_value = ck_value c, ck_path = Some p,
      ck_domain = Some d, ck_secure = ck_secure c, ck_http_only = ck_http_only c, ck_same_site = None,
      ck_expires = None, ck_max_age = None, ck_expiry = ck_expiry c, ck_partitioned = False, ck_partition_key = None\<rparr>"
    unfolding netscape_cookie_def split prod.case fields list.case expiry secure dom using trim hash by simp
  then show "netscape_cookie (netscape_line c) = Some c"
    using none(1-5) d(1) p(1) by (cases c) simp
  show "CHR 0x0A \<notin> set (netscape_line c)"
    using assms d p num_ok by (auto simp: whole line_def field_ok_def netscape_ok_def)
  show "\<not> ends_with (netscape_line c) [CHR 0x0D]"
  proof
    assume cr: "ends_with (netscape_line c) [CHR 0x0D]"
    obtain before where "netscape_line c = before @ [CHR 0x09] @ ck_value c"
      by (auto simp: whole line_def intro: that [of "(if ck_http_only c then ''#HttpOnly_'' else []) @
        join_with [CHR 0x09] [d, ''TRUE'', p, if ck_secure c then ''TRUE'' else ''FALSE'', num, ck_name c]"])
    with cr have "ends_with (ck_value c) [CHR 0x0D]"
      by (cases "ck_value c" rule: rev_cases) (auto simp: ends_with_def)
    then show False using assms by (simp add: netscape_ok_def)
  qed
qed


text \<open>
  A Netscape file is read back: the lines written for cookies give these cookies, in order, with
  their flags and expiry times.
\<close>
theorem netscape_reads_back:
  assumes "\<And>c. c \<in> set cs \<Longrightarrow> netscape_ok c"
  shows "from_netscape (concat (map (\<lambda>c. netscape_line c @ [CHR 0x0A]) cs)) = \<lparr>ss_cookies = cs, ss_origins = []\<rparr>"
proof -
  have "str_lines (concat (map (\<lambda>l. l @ [CHR 0x0A]) (map netscape_line cs))) = map netscape_line cs"
    using assms netscape_cookie_line(2,3) by (intro str_lines_of) auto
  moreover have "List.map_filter netscape_cookie (map netscape_line cs) = cs"
    using assms by (induction cs) (simp_all add: List.map_filter_simps netscape_cookie_line(1))
  ultimately show ?thesis by (simp add: from_netscape_def comp_def)
qed

definition netscape_sample :: cookie_entry where
  "netscape_sample = \<lparr>ck_name = ''sid'', ck_value = ''1'', ck_path = Some ''/'', ck_domain = Some ''example.com'',
     ck_secure = True, ck_http_only = True, ck_same_site = None, ck_expires = None, ck_max_age = None,
     ck_expiry = Some 500, ck_partitioned = False, ck_partition_key = None\<rparr>"

lemma netscape_sample_ok: "netscape_ok netscape_sample"
  by code_simp

theorem netscape_reads_back_witness:
  "from_netscape (netscape_line netscape_sample @ [CHR 0x0A]) = \<lparr>ss_cookies = [netscape_sample], ss_origins = []\<rparr>"
  using netscape_reads_back [of "[netscape_sample]"] netscape_sample_ok by simp

lemma insert_domain_lower: "to_lowercase (insert_domain c) = insert_domain c"
  by (simp add: insert_domain_def canonical_domain_def split: option.split)

text \<open>
  The expiry time of an imported cookie is not its \<open>expiry\<close>: it is computed again from
  \<open>max_age\<close>, counted from the time of the import, or else from \<open>expires\<close>.
\<close>
theorem imported_expiry:
  assumes "jar_ok j" and "insert_entry env c j = Ret j'" and "e \<in> set (get_all j')" and "e \<notin> set (get_all j)"
  shows "ck_expiry e = (case ck_max_age c of Some age \<Rightarrow> Some (sat_add_i64 (now_secs env) age) | None \<Rightarrow> ck_expires c)"
proof -
  have "ck_name c \<noteq> []" using assms(2-4) by (auto simp: insert_entry_def)
  with assms(2) obtain c1 where c1: "truncate_value c = Ret c1"
    and j': "j' = expire_or_commit env (insert_domain c1)
      (with_path ''/'' (with_partition env (insert_domain c1) (c1\<lparr>ck_domain := Some (insert_domain c1)\<rparr>))) j"
    by (auto simp: insert_entry_def result_iff Let_def)
  from truncate_value_Ret [OF c1] obtain v where "c1 = c\<lparr>ck_value := v\<rparr>" by blast
  then have same: "ck_max_age c1 = ck_max_age c" "ck_expires c1 = ck_expires c" by simp_all
  from get_all_expire_or_commit [OF assms(1) insert_domain_lower assms(3) [unfolded j'] assms(4)]
  have "ck_expiry e = new_expiry env (with_path ''/'' (with_partition env (insert_domain c1) (c1\<lparr>ck_domain := Some (insert_domain c1)\<rparr>)))"
    by (metis cookie_entry.select_convs(10) cookie_entry.surjective cookie_entry.update_convs(10))
  then show ?thesis by (simp add: new_expiry_def same split: option.split)
qed

text \<open>A renewed life: a cookie of one hour, 10 seconds before its end, gets a new hour.\<close>

theorem imported_expiry_witness:
  "\<exists>j' e. insert_entry sample_env (netscape_sample\<lparr>ck_max_age := Some 3600, ck_expiry := Some 1010\<rparr>) [] = Ret j'
     \<and> e \<in> set (get_all j') \<and> ck_expiry e = Some 4600"
proof -
  let ?c = "netscape_sample\<lparr>ck_max_age := Some 3600, ck_expiry := Some 1010\<rparr>"
  have "case insert_entry sample_env ?c [] of Ret j' \<Rightarrow> length (get_all j') = 1 | Panic \<Rightarrow> False" by code_simp
  then obtain j' where j': "insert_entry sample_env ?c [] = Ret j'" "length (get_all j') = 1" by (auto split: run.splits)
  then obtain e where e: "e \<in> set (get_all j')" by (cases "get_all j'") auto
  have "jar_ok []" by code_simp
  from imported_expiry [OF this j'(1) e] have "ck_expiry e = Some 4600"
    by (simp add: get_all_def sat_add_i64_def sample_env_def)
  with j' e show ?thesis by blast
qed

text \<open>A cookie that expired long ago lives again after an import, and is sent.\<close>
theorem netscape_expiry_is_dropped:
  "case import_state sample_env (from_netscape (netscape_line netscape_sample))
      \<lparr>sx_context = \<lparr>cx_local = [], cx_dbs = []\<rparr>, sx_jar = [], sx_url = None, sx_origin = None, sx_last_import = None\<rparr> of
     Ret sx \<Rightarrow>
       is_expired sample_env netscape_sample
       \<and> cookies_for_url sample_env (sx_jar sx) (sample_url ''https'' ''example.com'' ''/'' 443) = ''sid=1''
       \<and> map ck_expiry (get_all (sx_jar sx)) = [None]
   | Panic \<Rightarrow> False"
  by code_simp

end
