(* ===== verification/PageStorage.thy ===== *)
theory PageStorage
  imports ContextStorage
begin

text \<open>
  Storage as a page's scripts see it (\<open>oxibrowser-core/src/js/idb.rs\<close>, \<open>register_local_storage\<close> in
  \<open>js/runtime.rs\<close>) and the threads of the session that carry writes to the context
  (\<open>session.rs\<close>). Each document injection registers new storage objects over a copy of the bucket
  of its origin; scripts may keep handles of earlier registrations, so a handle names its
  registration. Writes go to the copy at once and to the context as messages.

  The conversion of script values to strings and JSON is the engine's, so arguments arrive
  converted; the text of a JSON value and of a message's data are functions of the environment.
  The channel to the session is set, as \<open>Session::new\<close> does. Handlers are not part of the model:
  draining the pending events answers which ones fire, and what handlers then do are further steps.
\<close>

section \<open>Data\<close>

datatype json =
    JNull
  | JBool bool
  | JNumber string \<comment> \<open>its text\<close>
  | JString string
  | JArray "json list"
  | JObject "(string \<times> json) list"

type_synonym idb_stores = "(string, (string, string) dict) dict"
type_synonym key_paths = "(string, string option) dict"

record 'd storage_env =
  sv_json_text :: "json \<Rightarrow> string"
  sv_json_read :: "string \<Rightarrow> json option"
  sv_data_text :: "idb_stores \<times> key_paths \<Rightarrow> 'd"
  sv_data_read :: "'d \<Rightarrow> (idb_stores \<times> key_paths) option"

record idb_db =
  iv_version :: int
  iv_stores :: idb_stores
  iv_key_paths :: key_paths

definition idb_db_default :: idb_db where
  "idb_db_default = \<lparr>iv_version = 0, iv_stores = [], iv_key_paths = []\<rparr>"

datatype local_msg = SetItem string string string | RemoveItem string string | ClearItems string

datatype 'd idb_msg = PutDb string string int 'd | DeleteDb string string

record registration =
  wr_origin :: string
  wr_local :: "(string, string) dict"
  wr_dbs :: "(string, idb_db) dict"

record 'd page_store =
  js_regs :: "registration list"
  js_pending :: "(nat \<times> string) list"
  js_objects :: nat
  js_local_sent :: "local_msg list"
  js_db_sent :: "'d idb_msg list"

text \<open>An argument that was passed: \<open>undefined\<close>, or what its conversion to a string answers.\<close>

datatype script_arg = Undefined | Given "string + string"

datatype idb_result = ResUndefined | ResKey string | ResCount int | ResJson json

record idb_request =
  rq_id :: nat
  rq_result :: idb_result

record db_handle =
  dh_reg :: nat
  dh_name :: string
  dh_version :: int

record tx_handle =
  th_id :: nat
  th_reg :: nat
  th_db :: string

record store_handle =
  sh_reg :: nat
  sh_db :: string
  sh_store :: string
  sh_key_path :: "string option"
  sh_transaction :: "nat option"

datatype open_answer = OpenRefused nat string | Opened nat db_handle

section \<open>Ordered maps\<close>

text \<open>\<open>BTreeMap\<close>: the entries in the order of their keys.\<close>

fun btree_insert :: "string \<Rightarrow> 'v \<Rightarrow> (string, 'v) dict \<Rightarrow> (string, 'v) dict" where
  "btree_insert k v [] = [(k, v)]"
| "btree_insert k v ((j, w) # d) =
     (if k = j then (k, v) # d else if k < j then (k, v) # (j, w) # d else (j, w) # btree_insert k v d)"

definition btree_of :: "(string \<times> 'v) list \<Rightarrow> (string, 'v) dict" where
  "btree_of kvs = fold (\<lambda>(k, v). btree_insert k v) kvs []"

abbreviation btree_ok :: "(string, 'v) dict \<Rightarrow> bool" where
  "btree_ok d \<equiv> sorted_wrt (<) (map fst d)"

lemma btree_get_insert: "dict_get (btree_insert k v d) j = (if j = k then Some v else dict_get d j)"
  by (induction k v d rule: btree_insert.induct) auto

lemma btree_keys: "fst ` set (btree_insert k v d) = insert k (fst ` set d)"
  by (induction k v d rule: btree_insert.induct) auto

lemma btree_ok_insert: "btree_ok d \<Longrightarrow> btree_ok (btree_insert k v d)"
proof (induction k v d rule: btree_insert.induct)
  case (2 k v j w d)
  then show ?case using btree_keys [of k v d] by (auto intro: less_trans)
qed simp

lemma btree_ok_remove: "btree_ok d \<Longrightarrow> btree_ok (dict_remove k d)"
  by (simp add: delete_keys removeAll_filter_not_eq sorted_wrt_filter)

interpretation btree: keyed_store "map_of" "btree_insert" "AList.delete" "\<lambda>d. sorted_wrt (<) (map fst d)"
  by unfold_locales (simp_all add: btree_get_insert dict_get_remove btree_ok_insert btree_ok_remove)

section \<open>Requests, events and messages\<close>

definition data_error :: "string \<Rightarrow> string" where
  "data_error msg = ''DataError: '' @ msg"

definition arg_text :: "script_arg \<Rightarrow> string + string" where
  "arg_text a = (case a of Undefined \<Rightarrow> Inr ''undefined'' | Given r \<Rightarrow> r)"

text \<open>The required first argument, and the lenient reading of \<open>localStorage\<close>.\<close>

definition first_arg :: "string \<Rightarrow> script_arg list \<Rightarrow> string + string" where
  "first_arg missing args =
     (case args of [] \<Rightarrow> Inl (data_error missing) | a # _ \<Rightarrow> map_err data_error (arg_text a))"

definition lenient_arg :: "script_arg \<Rightarrow> string" where
  "lenient_arg a = (case arg_text a of Inr s \<Rightarrow> s | Inl e \<Rightarrow> [])"

definition page_reg :: "'d page_store \<Rightarrow> nat \<Rightarrow> registration" where
  "page_reg js g = js_regs js ! g"

definition set_reg :: "nat \<Rightarrow> registration \<Rightarrow> 'd page_store \<Rightarrow> 'd page_store" where
  "set_reg g r js = js\<lparr>js_regs := (js_regs js)[g := r]\<rparr>"

definition queue_event :: "nat \<Rightarrow> string \<Rightarrow> 'd page_store \<Rightarrow> 'd page_store" where
  "queue_event i ev js = js\<lparr>js_pending := js_pending js @ [(i, ev)]\<rparr>"

definition new_object :: "'d page_store \<Rightarrow> nat \<times> 'd page_store" where
  "new_object js = (js_objects js, js\<lparr>js_objects := Suc (js_objects js)\<rparr>)"

definition make_request :: "idb_result \<Rightarrow> 'd page_store \<Rightarrow> idb_request \<times> 'd page_store" where
  "make_request res js =
     (case new_object js of (i, js1) \<Rightarrow> (\<lparr>rq_id = i, rq_result = res\<rparr>, queue_event i ''success'' js1))"

definition queue_complete :: "nat option \<Rightarrow> 'd page_store \<Rightarrow> 'd page_store" where
  "queue_complete t js = (case t of Some i \<Rightarrow> queue_event i ''complete'' js | None \<Rightarrow> js)"

definition drain_idb_events :: "'d page_store \<Rightarrow> (nat \<times> string) list \<times> 'd page_store" where
  "drain_idb_events js = (js_pending js, js\<lparr>js_pending := []\<rparr>)"

definition send_db :: "'d idb_msg \<Rightarrow> 'd page_store \<Rightarrow> 'd page_store" where
  "send_db m js = js\<lparr>js_db_sent := js_db_sent js @ [m]\<rparr>"

definition send_local :: "local_msg \<Rightarrow> 'd page_store \<Rightarrow> 'd page_store" where
  "send_local m js = js\<lparr>js_local_sent := js_local_sent js @ [m]\<rparr>"

definition sync_db :: "'d storage_env \<Rightarrow> string \<Rightarrow> string \<Rightarrow> idb_db \<Rightarrow> 'd page_store \<Rightarrow> 'd page_store" where
  "sync_db en i n db = send_db (PutDb i n (iv_version db) (sv_data_text en (iv_stores db, iv_key_paths db)))"

section \<open>localStorage\<close>

definition ls_get_item :: "nat \<Rightarrow> script_arg list \<Rightarrow> 'd page_store \<Rightarrow> string option" where
  "ls_get_item g args js =
     dict_get (wr_local (page_reg js g)) (case args of [] \<Rightarrow> [] | a # _ \<Rightarrow> lenient_arg a)"

definition ls_set_item :: "nat \<Rightarrow> script_arg list \<Rightarrow> 'd page_store \<Rightarrow> 'd page_store" where
  "ls_set_item g args js =
     (case args of
        a # b # _ \<Rightarrow>
          (let r = page_reg js g; k = lenient_arg a; v = lenient_arg b
           in send_local (SetItem (wr_origin r) k v) (set_reg g (r\<lparr>wr_local := dict_insert k v (wr_local r)\<rparr>) js))
      | _ \<Rightarrow> js)"

definition ls_remove_item :: "nat \<Rightarrow> script_arg list \<Rightarrow> 'd page_store \<Rightarrow> 'd page_store" where
  "ls_remove_item g args js =
     (case args of
        a # _ \<Rightarrow>
          (let r = page_reg js g; k = lenient_arg a
           in send_local (RemoveItem (wr_origin r) k) (set_reg g (r\<lparr>wr_local := dict_remove k (wr_local r)\<rparr>) js))
      | [] \<Rightarrow> js)"

definition ls_clear :: "nat \<Rightarrow> 'd page_store \<Rightarrow> 'd page_store" where
  "ls_clear g js =
     (let r = page_reg js g in send_local (ClearItems (wr_origin r)) (set_reg g (r\<lparr>wr_local := []\<rparr>) js))"

section \<open>IndexedDB\<close>

definition db_at :: "registration \<Rightarrow> string \<Rightarrow> idb_db" where
  "db_at r n = (case dict_get (wr_dbs r) n of Some db \<Rightarrow> db | None \<Rightarrow> idb_db_default)"

definition store_at :: "idb_db \<Rightarrow> string \<Rightarrow> (string, string) dict" where
  "store_at db s = (case dict_get (iv_stores db) s of Some st \<Rightarrow> st | None \<Rightarrow> [])"

definition record_at :: "registration \<Rightarrow> string \<Rightarrow> string \<Rightarrow> string \<Rightarrow> string option" where
  "record_at r n s k =
     Option.bind (dict_get (wr_dbs r) n) (\<lambda>db. Option.bind (dict_get (iv_stores db) s) (\<lambda>st. dict_get st k))"

definition json_field :: "string \<Rightarrow> json \<Rightarrow> json option" where
  "json_field k j = (case j of JObject kvs \<Rightarrow> dict_get kvs k | _ \<Rightarrow> None)"

definition put_key :: "'d storage_env \<Rightarrow> store_handle \<Rightarrow> json \<Rightarrow> script_arg option \<Rightarrow> string + string" where
  "put_key en h j key =
     (case key of
        Some (Given r) \<Rightarrow> map_err data_error r
      | _ \<Rightarrow>
          (case sh_key_path h of
             None \<Rightarrow> Inl (data_error ''store uses out-of-line keys; pass a key (keyPath: None)'')
           | Some kp \<Rightarrow>
               (case json_field kp j of
                  Some (JNumber n) \<Rightarrow> Inr n
                | Some (JString s) \<Rightarrow> Inr s
                | Some other \<Rightarrow> Inr (sv_json_text en other)
                | None \<Rightarrow> Inl (data_error ''value missing keyPath field''))))"

text \<open>\<open>put\<close> and \<open>add\<close>. Where the key exists, the database and the store do, and nothing changes.\<close>

definition st_put ::
  "'d storage_env \<Rightarrow> bool \<Rightarrow> store_handle \<Rightarrow> json option \<Rightarrow> script_arg option \<Rightarrow> 'd page_store
    \<Rightarrow> (string + idb_request) \<times> 'd page_store" where
  "st_put en reject_existing h json key js =
     (case json of
        None \<Rightarrow> (Inl (data_error ''value not serializable''), js)
      | Some j \<Rightarrow>
          (case put_key en h j key of
             Inl e \<Rightarrow> (Inl e, js)
           | Inr k \<Rightarrow>
               (let r = page_reg js (sh_reg h); db = db_at r (sh_db h); st = store_at db (sh_store h)
                in if reject_existing \<and> dict_get st k \<noteq> None then (Inl (data_error ''key already exists''), js)
                   else
                     (let db' = db\<lparr>iv_stores := btree_insert (sh_store h) (btree_insert k (sv_json_text en j) st) (iv_stores db)\<rparr>;
                          js1 = sync_db en (wr_origin r) (sh_db h) db'
                                  (set_reg (sh_reg h) (r\<lparr>wr_dbs := btree_insert (sh_db h) db' (wr_dbs r)\<rparr>) js)
                      in case make_request (ResKey k) js1 of
                           (req, js2) \<Rightarrow> (Inr req, queue_complete (sh_transaction h) js2)))))"

definition st_get ::
  "'d storage_env \<Rightarrow> store_handle \<Rightarrow> script_arg list \<Rightarrow> 'd page_store \<Rightarrow> (string + idb_request) \<times> 'd page_store" where
  "st_get en h args js =
     (case first_arg ''get requires a key'' args of
        Inl e \<Rightarrow> (Inl e, js)
      | Inr k \<Rightarrow>
          (case make_request
                  (case Option.bind (record_at (page_reg js (sh_reg h)) (sh_db h) (sh_store h) k) (sv_json_read en) of
                     Some j \<Rightarrow> ResJson j | None \<Rightarrow> ResUndefined) js of
             (req, js1) \<Rightarrow> (Inr req, js1)))"

definition store_now :: "store_handle \<Rightarrow> 'd page_store \<Rightarrow> (string, string) dict option" where
  "store_now h js = Option.bind (dict_get (wr_dbs (page_reg js (sh_reg h))) (sh_db h)) (\<lambda>db. dict_get (iv_stores db) (sh_store h))"

text \<open>\<open>getAll\<close> answers the values themselves, in the order of the keys; \<open>count\<close> a request.\<close>

definition st_get_all :: "'d storage_env \<Rightarrow> store_handle \<Rightarrow> 'd page_store \<Rightarrow> json list" where
  "st_get_all en h js =
     (case store_now h js of Some st \<Rightarrow> List.map_filter (\<lambda>(k, s). sv_json_read en s) st | None \<Rightarrow> [])"

definition st_count :: "store_handle \<Rightarrow> 'd page_store \<Rightarrow> idb_request \<times> 'd page_store" where
  "st_count h js =
     make_request (ResCount (case store_now h js of Some st \<Rightarrow> int (length st) mod 2 ^ 32 | None \<Rightarrow> 0)) js"

text \<open>\<open>delete\<close>: its request is queued twice and not answered.\<close>

definition st_delete ::
  "'d storage_env \<Rightarrow> store_handle \<Rightarrow> script_arg list \<Rightarrow> 'd page_store \<Rightarrow> (string + unit) \<times> 'd page_store" where
  "st_delete en h args js =
     (case first_arg ''get requires a key'' args of
        Inl e \<Rightarrow> (Inl e, js)
      | Inr k \<Rightarrow>
          (let r = page_reg js (sh_reg h);
               js1 = (case dict_get (wr_dbs r) (sh_db h) of
                        None \<Rightarrow> js
                      | Some db \<Rightarrow>
                          (case dict_get (iv_stores db) (sh_store h) of
                             None \<Rightarrow> js
                           | Some st \<Rightarrow>
                               (let db' = db\<lparr>iv_stores := btree_insert (sh_store h) (dict_remove k st) (iv_stores db)\<rparr>
                                in sync_db en (wr_origin r) (sh_db h) db'
                                     (set_reg (sh_reg h) (r\<lparr>wr_dbs := btree_insert (sh_db h) db' (wr_dbs r)\<rparr>) js))))
           in case make_request ResUndefined js1 of
                (req, js2) \<Rightarrow>
                  (Inr (), queue_complete (sh_transaction h) (queue_event (rq_id req) ''success'' js2))))"

definition tx_object_store :: "tx_handle \<Rightarrow> script_arg list \<Rightarrow> 'd page_store \<Rightarrow> string + store_handle" where
  "tx_object_store t args js =
     res_bind (first_arg ''name requires a value'' args) (\<lambda>s.
       case dict_get (wr_dbs (page_reg js (th_reg t))) (th_db t) of
         Some db \<Rightarrow>
           if dict_get (iv_stores db) s = None
           then Inl (data_error (''object store '' @ [CHR 0x22] @ s @ [CHR 0x22] @ '' does not exist''))
           else Inr \<lparr>sh_reg = th_reg t, sh_db = th_db t, sh_store = s,
                     sh_key_path = (case dict_get (iv_key_paths db) s of Some kp \<Rightarrow> kp | None \<Rightarrow> None),
                     sh_transaction = Some (th_id t)\<rparr>
       | None \<Rightarrow> Inl (data_error (''object store '' @ [CHR 0x22] @ s @ [CHR 0x22] @ '' does not exist'')))"

definition db_transaction :: "db_handle \<Rightarrow> 'd page_store \<Rightarrow> tx_handle \<times> 'd page_store" where
  "db_transaction h js =
     (case new_object js of (i, js1) \<Rightarrow> (\<lparr>th_id = i, th_reg = dh_reg h, th_db = dh_name h\<rparr>, js1))"

definition db_create_store ::
  "db_handle \<Rightarrow> script_arg list \<Rightarrow> string option \<Rightarrow> 'd page_store \<Rightarrow> (string + store_handle) \<times> 'd page_store" where
  "db_create_store h args key_path js =
     (case first_arg ''name requires a value'' args of
        Inl e \<Rightarrow> (Inl e, js)
      | Inr s \<Rightarrow>
          (let r = page_reg js (dh_reg h); db = db_at r (dh_name h)
           in if dict_get (iv_stores db) s \<noteq> None
              then (Inl (data_error (''store '' @ [CHR 0x22] @ s @ [CHR 0x22] @ '' already exists'')), js)
              else (let db' = db\<lparr>iv_stores := btree_insert s [] (iv_stores db),
                                 iv_key_paths := btree_insert s key_path (iv_key_paths db)\<rparr>
                    in (Inr \<lparr>sh_reg = dh_reg h, sh_db = dh_name h, sh_store = s, sh_key_path = key_path, sh_transaction = None\<rparr>,
                        set_reg (dh_reg h) (r\<lparr>wr_dbs := btree_insert (dh_name h) db' (wr_dbs r)\<rparr>) js))))"

definition db_delete_store ::
  "'d storage_env \<Rightarrow> db_handle \<Rightarrow> script_arg list \<Rightarrow> 'd page_store \<Rightarrow> (string + unit) \<times> 'd page_store" where
  "db_delete_store en h args js =
     (case first_arg ''name requires a value'' args of
        Inl e \<Rightarrow> (Inl e, js)
      | Inr s \<Rightarrow>
          (let r = page_reg js (dh_reg h)
           in case dict_get (wr_dbs r) (dh_name h) of
                None \<Rightarrow> (Inr (), js)
              | Some db \<Rightarrow>
                  (let db' = db\<lparr>iv_stores := dict_remove s (iv_stores db), iv_key_paths := dict_remove s (iv_key_paths db)\<rparr>
                   in (Inr (), sync_db en (wr_origin r) (dh_name h) db'
                         (set_reg (dh_reg h) (r\<lparr>wr_dbs := btree_insert (dh_name h) db' (wr_dbs r)\<rparr>) js)))))"

text \<open>\<open>indexedDB.open\<close>; a version that is absent, not a number or below one reads as zero.\<close>

definition idb_open ::
  "'d storage_env \<Rightarrow> nat \<Rightarrow> script_arg list \<Rightarrow> int \<Rightarrow> 'd page_store \<Rightarrow> (string + open_answer) \<times> 'd page_store" where
  "idb_open en g args requested js =
     (case first_arg ''name requires a value'' args of
        Inl e \<Rightarrow> (Inl e, js)
      | Inr n \<Rightarrow>
          (let r = page_reg js g;
               current = iv_version (db_at r n);
               version = (if requested = 0 then max current 1 else requested)
           in case new_object js of
                (i, js1) \<Rightarrow>
                  if version < current
                  then (Inr (OpenRefused i (''VersionError: database '' @ [CHR 0x22] @ n @ [CHR 0x22]
                          @ '' exists at version '' @ show_uint current @ '' (requested '' @ show_uint version @ '')'')),
                        queue_event i ''error'' js1)
                  else
                    (let db' = (db_at r n)\<lparr>iv_version := version\<rparr>;
                         js2 = sync_db en (wr_origin r) n db' (set_reg g (r\<lparr>wr_dbs := btree_insert n db' (wr_dbs r)\<rparr>) js1);
                         js3 = (if current < version then queue_event i ''upgradeneeded'' js2 else js2)
                     in (Inr (Opened i \<lparr>dh_reg = g, dh_name = n, dh_version = version\<rparr>), queue_event i ''success'' js3))))"

definition idb_delete_database :: "nat \<Rightarrow> script_arg list \<Rightarrow> 'd page_store \<Rightarrow> (string + nat) \<times> 'd page_store" where
  "idb_delete_database g args js =
     (case first_arg ''name requires a value'' args of
        Inl e \<Rightarrow> (Inl e, js)
      | Inr n \<Rightarrow>
          (let r = page_reg js g
           in case new_object (send_db (DeleteDb (wr_origin r) n) (set_reg g (r\<lparr>wr_dbs := dict_remove n (wr_dbs r)\<rparr>) js)) of
                (i, js1) \<Rightarrow> (Inr i, queue_event i ''success'' js1)))"

section \<open>The session's side\<close>

fun local_apply :: "local_msg \<Rightarrow> (string, (string, string) dict) dict \<Rightarrow> (string, (string, string) dict) dict" where
  "local_apply (SetItem i k v) = on_bucket i (dict_insert k v)"
| "local_apply (RemoveItem i k) = on_bucket i (dict_remove k)"
| "local_apply (ClearItems i) = on_bucket i (\<lambda>_. [])"

fun idb_apply ::
  "'d storage_env \<Rightarrow> 'd idb_msg \<Rightarrow> (string, (string, idb_database) dict) dict \<Rightarrow> (string, (string, idb_database) dict) dict" where
  "idb_apply en (PutDb i n version data) =
     (case (case sv_data_read en data of Some blob \<Rightarrow> blob | None \<Rightarrow> ([], [])) of
        (stores, key_paths) \<Rightarrow>
          on_bucket i (dict_insert n \<lparr>db_name = n, db_version = version, db_stores = stores, db_key_paths = key_paths\<rparr>))"
| "idb_apply en (DeleteDb i n) = on_bucket i (dict_remove n)"

text \<open>Document injection: the copies of the buckets of the page's origin, registered for scripts.\<close>

definition live_db :: "idb_database \<Rightarrow> idb_db" where
  "live_db db = \<lparr>iv_version = db_version db, iv_stores = db_stores db, iv_key_paths = db_key_paths db\<rparr>"

definition page_origin :: "url_parser \<Rightarrow> string \<Rightarrow> string" where
  "page_origin parse s = (case parse s of Some u \<Rightarrow> storage_origin_of u | None \<Rightarrow> ''null'')"

definition seed_page :: "string \<Rightarrow> context_storage \<Rightarrow> registration" where
  "seed_page i cx =
     \<lparr>wr_origin = i, wr_local = storage_bucket i cx,
      wr_dbs = btree_of (map (\<lambda>(n, db). (n, live_db db)) (indexed_db_bucket i cx))\<rparr>"

definition register_page :: "string \<Rightarrow> context_storage \<Rightarrow> 'd page_store \<Rightarrow> 'd page_store" where
  "register_page i cx js = js\<lparr>js_regs := js_regs js @ [seed_page i cx]\<rparr>"

section \<open>The machine\<close>

text \<open>One operation of a script on a registration, through a handle of any age.\<close>

inductive page_step :: "'d storage_env \<Rightarrow> nat \<Rightarrow> 'd page_store \<Rightarrow> 'd page_store \<Rightarrow> bool" for en where
  ps_set: "page_step en g js (ls_set_item g args js)"
| ps_remove: "page_step en g js (ls_remove_item g args js)"
| ps_clear: "page_step en g js (ls_clear g js)"
| ps_open: "page_step en g js (snd (idb_open en g args requested js))"
| ps_delete_db: "page_step en g js (snd (idb_delete_database g args js))"
| ps_create: "page_step en (dh_reg h) js (snd (db_create_store h args kp js))"
| ps_delete_store: "page_step en (dh_reg h) js (snd (db_delete_store en h args js))"
| ps_transaction: "page_step en (dh_reg h) js (snd (db_transaction h js))"
| ps_put: "page_step en (sh_reg h) js (snd (st_put en strict h json key js))"
| ps_delete: "page_step en (sh_reg h) js (snd (st_delete en h args js))"
| ps_get: "page_step en (sh_reg h) js (snd (st_get en h args js))"
| ps_count: "page_step en (sh_reg h) js (snd (st_count h js))"

text \<open>
  The page and the context, seen from one registration: operations on it or on another origin,
  the two threads, the pump, and a new page.
\<close>

inductive storage_step :: "'d storage_env \<Rightarrow> nat \<Rightarrow> 'd page_store \<times> context_storage \<Rightarrow> 'd page_store \<times> context_storage \<Rightarrow> bool"
  for en g0 where
  ss_page: "page_step en g js js' \<Longrightarrow> g < length (js_regs js) \<Longrightarrow>
    g = g0 \<or> wr_origin (page_reg js g) \<noteq> wr_origin (page_reg js g0) \<Longrightarrow> storage_step en g0 (js, cx) (js', cx)"
| ss_local: "js_local_sent js = m # ms \<Longrightarrow>
    storage_step en g0 (js, cx) (js\<lparr>js_local_sent := ms\<rparr>, cx\<lparr>cx_local := local_apply m (cx_local cx)\<rparr>)"
| ss_db: "js_db_sent js = m # ms \<Longrightarrow>
    storage_step en g0 (js, cx) (js\<lparr>js_db_sent := ms\<rparr>, cx\<lparr>cx_dbs := idb_apply en m (cx_dbs cx)\<rparr>)"
| ss_pump: "storage_step en g0 (js, cx) (snd (drain_idb_events js), cx)"
| ss_new: "storage_step en g0 (js, cx) (js\<lparr>js_regs := js_regs js @ [r]\<rparr>, cx)"

abbreviation storage_run :: "'d storage_env \<Rightarrow> nat \<Rightarrow> 'd page_store \<times> context_storage \<Rightarrow> 'd page_store \<times> context_storage \<Rightarrow> bool" where
  "storage_run en g0 \<equiv> (storage_step en g0)\<^sup>*\<^sup>*"

section \<open>Writes reach the context\<close>

text \<open>The two views: what the registration holds, and what the context will hold once the messages sent are applied.\<close>

definition record_in :: "(string, idb_database) dict \<Rightarrow> string \<Rightarrow> string \<Rightarrow> string \<Rightarrow> string option" where
  "record_in dbs n s k =
     Option.bind (dict_get dbs n) (\<lambda>db. Option.bind (dict_get (db_stores db) s) (\<lambda>st. dict_get st k))"

fun local_target :: "local_msg \<Rightarrow> string" where
  "local_target (SetItem i k v) = i"
| "local_target (RemoveItem i k) = i"
| "local_target (ClearItems i) = i"

fun db_target :: "'d idb_msg \<Rightarrow> string" where
  "db_target (PutDb i n v d) = i"
| "db_target (DeleteDb i n) = i"

definition data_ok :: "'d storage_env \<Rightarrow> bool" where
  "data_ok en \<longleftrightarrow> (\<forall>x. sv_data_read en (sv_data_text en x) = Some x)"

text \<open>What messages say of a registration's change: applied to a context that agrees, they agree again.\<close>

definition local_told :: "registration \<Rightarrow> local_msg list \<Rightarrow> registration \<Rightarrow> bool" where
  "local_told r ms r' \<longleftrightarrow>
     (\<forall>m \<in> set ms. local_target m = wr_origin r)
     \<and> (\<forall>d. map_of (bucket_of d (wr_origin r)) = map_of (wr_local r) \<longrightarrow>
          map_of (bucket_of (fold local_apply ms d) (wr_origin r)) = map_of (wr_local r'))"

definition dbs_told :: "'d storage_env \<Rightarrow> registration \<Rightarrow> 'd idb_msg list \<Rightarrow> registration \<Rightarrow> bool" where
  "dbs_told en r ms r' \<longleftrightarrow>
     (\<forall>m \<in> set ms. db_target m = wr_origin r)
     \<and> (data_ok en \<longrightarrow> (\<forall>d. record_in (bucket_of d (wr_origin r)) = record_at r \<longrightarrow>
          record_in (bucket_of (fold (idb_apply en) ms d) (wr_origin r)) = record_at r'))"

definition told :: "'d storage_env \<Rightarrow> nat \<Rightarrow> 'd page_store \<Rightarrow> 'd page_store \<Rightarrow> bool" where
  "told en g js js' \<longleftrightarrow>
     (\<exists>r lms dms. js_regs js' = (js_regs js)[g := r] \<and> wr_origin r = wr_origin (page_reg js g)
        \<and> js_local_sent js' = js_local_sent js @ lms \<and> js_db_sent js' = js_db_sent js @ dms
        \<and> local_told (page_reg js g) lms r \<and> dbs_told en (page_reg js g) dms r)"

lemma local_told_same: "wr_local r' = wr_local r \<Longrightarrow> local_told r [] r'"
  by (simp add: local_told_def)

lemma dbs_told_same: "wr_dbs r' = wr_dbs r \<Longrightarrow> dbs_told en r [] r'"
  by (simp add: dbs_told_def record_at_def fun_eq_iff)

lemma dbs_told_put:
  "wr_dbs r' = btree_insert n db (wr_dbs r) \<Longrightarrow>
     dbs_told en r [PutDb (wr_origin r) n (iv_version db) (sv_data_text en (iv_stores db, iv_key_paths db))] r'"
  by (auto simp: dbs_told_def data_ok_def bucket_on record_in_def record_at_def fun_eq_iff btree_get_insert dict_get_insert)

lemma dbs_told_delete: "wr_dbs r' = dict_remove n (wr_dbs r) \<Longrightarrow> dbs_told en r [DeleteDb (wr_origin r) n] r'"
  by (auto simp: dbs_told_def bucket_on record_in_def record_at_def fun_eq_iff dict_get_remove)

text \<open>A new, empty store is not told, but it holds no record.\<close>

lemma dbs_told_create:
  assumes "dict_get (iv_stores (db_at r n)) s = None" and "wr_dbs r' = btree_insert n db' (wr_dbs r)"
    and "iv_stores db' = btree_insert s [] (iv_stores (db_at r n))"
  shows "dbs_told en r [] r'"
proof -
  have "record_at r' m t k = record_at r m t k" for m t k
    using assms by (auto simp: record_at_def db_at_def idb_db_default_def btree_get_insert split: option.splits)
  then have "record_at r' = record_at r" by (simp add: fun_eq_iff)
  then show ?thesis by (simp add: dbs_told_def)
qed

lemma told_same:
  "js_regs js' = js_regs js \<Longrightarrow> js_local_sent js' = js_local_sent js \<Longrightarrow> js_db_sent js' = js_db_sent js \<Longrightarrow> told en g js js'"
  by (auto simp: told_def page_reg_def local_told_same dbs_told_same intro!: exI [of _ "js_regs js ! g"])

lemma told_local:
  assumes "js_regs js' = (js_regs js)[g := (page_reg js g)\<lparr>wr_local := b\<rparr>]"
    and "js_local_sent js' = js_local_sent js @ [m]" and "js_db_sent js' = js_db_sent js"
    and "local_told (page_reg js g) [m] ((page_reg js g)\<lparr>wr_local := b\<rparr>)"
  shows "told en g js js'"
  unfolding told_def using assms
  by (intro exI [of _ "(page_reg js g)\<lparr>wr_local := b\<rparr>"] exI [of _ "[m]"] exI [of _ "[]"]) (simp add: dbs_told_same)

lemma told_dbs:
  assumes "js_regs js' = (js_regs js)[g := (page_reg js g)\<lparr>wr_dbs := b\<rparr>]"
    and "js_local_sent js' = js_local_sent js" and "js_db_sent js' = js_db_sent js @ ms"
    and "dbs_told en (page_reg js g) ms ((page_reg js g)\<lparr>wr_dbs := b\<rparr>)"
  shows "told en g js js'"
  unfolding told_def using assms
  by (intro exI [of _ "(page_reg js g)\<lparr>wr_dbs := b\<rparr>"] exI [of _ "[]"] exI [of _ ms]) (simp add: local_told_same)

lemmas told_put = told_dbs [OF _ _ _ dbs_told_put]
lemmas told_delete = told_dbs [OF _ _ _ dbs_told_delete]
lemmas told_create = told_dbs [where ms = "[]", OF _ _ _ dbs_told_create, unfolded append_Nil2]

lemmas page_defs = set_reg_def queue_event_def new_object_def make_request_def queue_complete_def
  send_db_def send_local_def sync_db_def Let_def

lemma told_ls_set: "told en g js (ls_set_item g args js)"
proof (cases "\<exists>a b rest. args = a # b # rest")
  case True
  then show ?thesis
    by (auto simp: ls_set_item_def page_defs local_told_def bucket_on dict_get_insert fun_eq_iff intro!: told_local)
qed (auto simp: ls_set_item_def split: list.split intro: told_same)

lemma told_ls_remove: "told en g js (ls_remove_item g args js)"
  by (cases args)
    (auto simp: ls_remove_item_def page_defs local_told_def bucket_on dict_get_remove fun_eq_iff told_same intro!: told_local)

lemma told_ls_clear: "told en g js (ls_clear g js)"
  by (auto simp: ls_clear_def page_defs local_told_def bucket_on intro!: told_local)

lemma told_idb_open: "told en g js (snd (idb_open en g args requested js))"
proof (cases "first_arg ''name requires a value'' args")
  case (Inr n)
  let ?r = "page_reg js g"
  let ?cur = "iv_version (db_at ?r n)"
  let ?v = "if requested = 0 then max ?cur 1 else requested"
  show ?thesis
  proof (cases "?v < ?cur")
    case True
    then show ?thesis unfolding idb_open_def Inr by (intro told_same) (simp_all add: page_defs)
  next
    case False
    then show ?thesis unfolding idb_open_def Inr
      by (intro told_put [where db = "(db_at ?r n)\<lparr>iv_version := ?v\<rparr>" and n = n and b = "btree_insert n ((db_at ?r n)\<lparr>iv_version := ?v\<rparr>) (wr_dbs ?r)"])
        (simp_all add: page_defs)
  qed
qed (simp add: idb_open_def told_same)

lemma told_delete_database: "told en g js (snd (idb_delete_database g args js))"
  by (cases "first_arg ''name requires a value'' args")
    (auto simp: idb_delete_database_def page_defs told_same intro!: told_delete)

lemma told_create_store: "told en (dh_reg h) js (snd (db_create_store h args kp js))"
proof (cases "first_arg ''name requires a value'' args")
  case (Inr s)
  then show ?thesis
    by (cases "dict_get (iv_stores (db_at (page_reg js (dh_reg h)) (dh_name h))) s")
      (auto simp: db_create_store_def page_defs told_same intro!: told_create)
qed (simp add: db_create_store_def told_same)

lemma told_delete_store: "told en (dh_reg h) js (snd (db_delete_store en h args js))"
proof (cases "first_arg ''name requires a value'' args")
  case (Inr s)
  then show ?thesis
    by (cases "dict_get (wr_dbs (page_reg js (dh_reg h))) (dh_name h)")
      (auto simp: db_delete_store_def page_defs told_same intro!: told_put)
qed (simp add: db_delete_store_def told_same)

lemma told_complete: "told en g js js' \<Longrightarrow> told en g js (queue_complete t js')"
  by (auto simp: told_def queue_complete_def queue_event_def split: option.split)

lemma told_queue: "told en g js js' \<Longrightarrow> told en g js (queue_event i ev js')"
  by (simp add: told_def queue_event_def)

lemma told_request: "told en g js js' \<Longrightarrow> told en g js (snd (make_request res js'))"
  by (simp add: told_def make_request_def new_object_def queue_event_def)

lemma told_st_put: "told en (sh_reg h) js (snd (st_put en strict h json key js))"
proof (cases json)
  case (Some j)
  show ?thesis
  proof (cases "put_key en h j key")
    case (Inr k)
    let ?r = "page_reg js (sh_reg h)"
    let ?db = "db_at ?r (sh_db h)"
    let ?st = "store_at ?db (sh_store h)"
    define db' where "db' = ?db\<lparr>iv_stores := btree_insert (sh_store h) (btree_insert k (sv_json_text en j) ?st) (iv_stores ?db)\<rparr>"
    let ?js = "sync_db en (wr_origin ?r) (sh_db h) db' (set_reg (sh_reg h) (?r\<lparr>wr_dbs := btree_insert (sh_db h) db' (wr_dbs ?r)\<rparr>) js)"
    have "told en (sh_reg h) js ?js" by (intro told_put) (simp_all add: page_defs)
    then have "told en (sh_reg h) js (queue_complete (sh_transaction h) (snd (make_request (ResKey k) ?js)))"
      by (intro told_complete told_request)
    then show ?thesis
      by (simp add: st_put_def Some Inr Let_def db'_def [symmetric] told_same split_beta)
  qed (simp add: st_put_def Some told_same)
qed (simp add: st_put_def told_same)

lemma told_st_delete: "told en (sh_reg h) js (snd (st_delete en h args js))"
proof (cases "first_arg ''get requires a key'' args")
  case (Inr k)
  define js1 where "js1 = (let r = page_reg js (sh_reg h) in
      case dict_get (wr_dbs r) (sh_db h) of None \<Rightarrow> js
      | Some db \<Rightarrow> (case dict_get (iv_stores db) (sh_store h) of None \<Rightarrow> js
        | Some st \<Rightarrow> (let db' = db\<lparr>iv_stores := btree_insert (sh_store h) (dict_remove k st) (iv_stores db)\<rparr>
            in sync_db en (wr_origin r) (sh_db h) db' (set_reg (sh_reg h) (r\<lparr>wr_dbs := btree_insert (sh_db h) db' (wr_dbs r)\<rparr>) js))))"
  have "told en (sh_reg h) js js1"
  proof (cases "store_now h js")
    case None
    then have "js1 = js" by (auto simp: js1_def store_now_def Let_def split: option.splits)
    then show ?thesis by (simp add: told_same)
  next
    case (Some st)
    then obtain db where db: "dict_get (wr_dbs (page_reg js (sh_reg h))) (sh_db h) = Some db" "dict_get (iv_stores db) (sh_store h) = Some st"
      by (auto simp: store_now_def split: option.splits bind_splits)
    let ?db' = "db\<lparr>iv_stores := btree_insert (sh_store h) (dict_remove k st) (iv_stores db)\<rparr>"
    from db have "js1 = sync_db en (wr_origin (page_reg js (sh_reg h))) (sh_db h) ?db' (set_reg (sh_reg h)
        ((page_reg js (sh_reg h))\<lparr>wr_dbs := btree_insert (sh_db h) ?db' (wr_dbs (page_reg js (sh_reg h)))\<rparr>) js)"
      by (simp add: js1_def Let_def)
    then show ?thesis by (intro told_put [where db = ?db' and n = "sh_db h"]) (simp_all add: page_defs)
  qed
  then have "told en (sh_reg h) js (queue_complete (sh_transaction h) (queue_event i ''success'' (snd (make_request ResUndefined js1))))" for i
    by (intro told_complete told_request told_queue)
  then show ?thesis
    unfolding st_delete_def Inr sum.case Let_def js1_def [unfolded Let_def, symmetric]
    by (simp add: split_beta)
qed (simp add: st_delete_def told_same)

lemma page_step_told: "page_step en g js js' \<Longrightarrow> told en g js js'"
  by (induction rule: page_step.induct)
    (auto simp: db_transaction_def st_get_def st_count_def page_defs split: sum.split
      intro: told_ls_set told_ls_remove told_ls_clear told_idb_open told_delete_database told_create_store
        told_delete_store told_st_put told_st_delete told_same)

section \<open>The context agrees with the page\<close>

fun replica :: "'d storage_env \<Rightarrow> nat \<Rightarrow> 'd page_store \<times> context_storage \<Rightarrow> bool" where
  "replica en g (js, cx) \<longleftrightarrow>
     g < length (js_regs js)
     \<and> (let r = page_reg js g
        in map_of (bucket_of (fold local_apply (js_local_sent js) (cx_local cx)) (wr_origin r)) = map_of (wr_local r)
           \<and> record_in (bucket_of (fold (idb_apply en) (js_db_sent js) (cx_dbs cx)) (wr_origin r)) = record_at r)"

lemma local_elsewhere: "local_target m \<noteq> i \<Longrightarrow> bucket_of (local_apply m d) i = bucket_of d i"
  by (cases m) (simp_all add: bucket_on)

lemma db_elsewhere: "db_target m \<noteq> i \<Longrightarrow> bucket_of (idb_apply en m d) i = bucket_of d i"
  by (cases m) (simp_all add: bucket_on split: prod.split)

lemma locals_elsewhere: "\<forall>m \<in> set ms. local_target m \<noteq> i \<Longrightarrow> bucket_of (fold local_apply ms d) i = bucket_of d i"
  by (induction ms arbitrary: d) (simp_all add: local_elsewhere)

lemma dbs_elsewhere: "\<forall>m \<in> set ms. db_target m \<noteq> i \<Longrightarrow> bucket_of (fold (idb_apply en) ms d) i = bucket_of d i"
  by (induction ms arbitrary: d) (simp_all add: db_elsewhere)

lemma replica_step:
  assumes "storage_step en g0 st st'" and "data_ok en" and "replica en g0 st"
  shows "replica en g0 st'"
  using assms(1,3)
proof cases
  case (ss_page g js js' cx)
  from page_step_told [OF ss_page(3)] obtain r lms dms where
    regs: "js_regs js' = (js_regs js)[g := r]" "wr_origin r = wr_origin (page_reg js g)"
    and sent: "js_local_sent js' = js_local_sent js @ lms" "js_db_sent js' = js_db_sent js @ dms"
    and tell: "local_told (page_reg js g) lms r" "dbs_told en (page_reg js g) dms r"
    by (auto simp: told_def)
  show ?thesis
  proof (cases "g = g0")
    case True
    then have "page_reg js' g0 = r" using regs ss_page(4) by (simp add: page_reg_def)
    then show ?thesis
      using assms(2,3) tell regs sent True unfolding ss_page local_told_def dbs_told_def
      by (simp add: Let_def)
  next
    case False
    then have "page_reg js' g0 = page_reg js g0" using regs by (simp add: page_reg_def)
    moreover have "wr_origin (page_reg js g) \<noteq> wr_origin (page_reg js g0)" using ss_page(5) False by simp
    ultimately show ?thesis
      using assms(3) tell sent regs unfolding ss_page local_told_def dbs_told_def
      by (simp add: Let_def locals_elsewhere dbs_elsewhere)
  qed
next
  case (ss_local js m ms cx)
  then show ?thesis using assms(3) by (simp add: page_reg_def)
next
  case (ss_db js m ms cx)
  then show ?thesis using assms(3) by (simp add: page_reg_def)
next
  case (ss_pump js cx)
  then show ?thesis using assms(3) by (simp add: page_reg_def drain_idb_events_def)
next
  case (ss_new js cx r)
  then show ?thesis using assms(3) by (simp add: page_reg_def nth_append Let_def)
qed

lemma dict_insert_set: "x \<in> set (dict_insert k v d) \<Longrightarrow> x = (k, v) \<or> x \<in> set d"
  by (induction d) (auto split: if_splits)

lemma all_buckets_on:
  "\<forall>(i, b) \<in> set m. P b \<Longrightarrow> P (f (bucket_of m i)) \<Longrightarrow> \<forall>(i, b) \<in> set (on_bucket i f m). P b"
  by (auto simp: on_bucket_def dest!: dict_insert_set)

lemma bucket_all: "\<forall>(i, b) \<in> set m. P b \<Longrightarrow> P [] \<Longrightarrow> P (bucket_of m i)"
  by (auto simp: bucket_of_def dest: map_of_SomeD split: option.split)

abbreviation dbs_ok :: "(string, idb_database) dict \<Rightarrow> bool" where
  "dbs_ok b \<equiv> dict_ok b \<and> (\<forall>(n, db) \<in> set b. db_name db = n)"

lemma dbs_ok_insert: "dbs_ok b \<Longrightarrow> db_name db = n \<Longrightarrow> dbs_ok (dict_insert n db b)"
  by (auto simp: dict_ok_insert dest!: dict_insert_set)

lemma dbs_ok_remove: "dbs_ok b \<Longrightarrow> dbs_ok (dict_remove n b)"
  by (rule conjI, simp add: dict_ok_remove) (auto simp: AList.delete_eq)

lemma cx_ok_local: "cx_ok cx \<Longrightarrow> cx_ok (cx\<lparr>cx_local := local_apply m (cx_local cx)\<rparr>)"
proof -
  assume ok: "cx_ok cx"
  then have all: "\<forall>(i, b) \<in> set (cx_local cx). dict_ok b" by (simp add: cx_ok_def)
  then have one: "dict_ok (bucket_of (cx_local cx) i)" for i by (rule bucket_all) simp
  have "\<forall>(i, b) \<in> set (local_apply m (cx_local cx)). dict_ok b"
  proof (cases m)
    case (SetItem i k v)
    show ?thesis unfolding SetItem local_apply.simps by (rule all_buckets_on [OF all]) (rule dict_ok_insert [OF one])
  next
    case (RemoveItem i k)
    show ?thesis unfolding RemoveItem local_apply.simps by (rule all_buckets_on [OF all]) (rule dict_ok_remove [OF one])
  next
    case (ClearItems i)
    show ?thesis unfolding ClearItems local_apply.simps by (rule all_buckets_on [OF all]) simp
  qed
  with ok show "cx_ok (cx\<lparr>cx_local := local_apply m (cx_local cx)\<rparr>)" by (simp add: cx_ok_def)
qed

lemma cx_ok_db: "cx_ok cx \<Longrightarrow> cx_ok (cx\<lparr>cx_dbs := idb_apply en m (cx_dbs cx)\<rparr>)"
proof -
  assume ok: "cx_ok cx"
  then have all: "\<forall>(i, b) \<in> set (cx_dbs cx). dbs_ok b" by (simp add: cx_ok_def)
  then have one: "dbs_ok (bucket_of (cx_dbs cx) i)" for i by (rule bucket_all) simp
  have "\<forall>(i, b) \<in> set (idb_apply en m (cx_dbs cx)). dbs_ok b"
  proof (cases m)
    case (PutDb i n v data)
    show ?thesis unfolding PutDb idb_apply.simps
      by (split prod.split, intro allI impI) (rule all_buckets_on [OF all], rule dbs_ok_insert [OF one], simp)
  next
    case (DeleteDb i n)
    show ?thesis unfolding DeleteDb idb_apply.simps by (rule all_buckets_on [OF all]) (rule dbs_ok_remove [OF one])
  qed
  with ok show "cx_ok (cx\<lparr>cx_dbs := idb_apply en m (cx_dbs cx)\<rparr>)" by (simp add: cx_ok_def)
qed

lemma run_ok:
  assumes "storage_run en g0 st st'" and "data_ok en" and "replica en g0 st" and "cx_ok (snd st)"
  shows "replica en g0 st' \<and> cx_ok (snd st')"
  using assms
proof (induction rule: rtranclp_induct)
  case (step st1 st2)
  then have "cx_ok (snd st2)"
    by (auto elim!: storage_step.cases simp: cx_ok_local cx_ok_db)
  with step show ?case using replica_step by blast
qed simp

lemma dict_get_btree_of:
  fixes kvs :: "(string \<times> 'v) list"
  shows "dict_ok kvs \<Longrightarrow> dict_get (btree_of kvs) k = dict_get kvs k"
proof -
  have "dict_get (fold (\<lambda>(k, v). btree_insert k v) kvs d) k
      = (case dict_get (rev kvs) k of Some v \<Rightarrow> Some v | None \<Rightarrow> dict_get d k)" for d :: "(string, 'v) dict"
    by (induction kvs arbitrary: d) (auto simp: btree_get_insert map_add_def split: option.split)
  then have "dict_get (btree_of kvs) k = dict_get (rev kvs) k" by (simp add: btree_of_def split: option.split)
  moreover assume "dict_ok kvs"
  then have "map_of (rev kvs) = map_of kvs" by (subst map_of_inject_set) (simp_all add: rev_map [symmetric])
  ultimately show ?thesis by simp
qed

lemma seed_agrees:
  assumes "cx_ok cx"
  shows "map_of (wr_local (seed_page i cx)) = map_of (bucket_of (cx_local cx) i)"
    and "record_at (seed_page i cx) = record_in (bucket_of (cx_dbs cx) i)"
proof -
  have "dict_ok (indexed_db_bucket i cx)"
    using assms by (auto simp: cx_ok_def indexed_db_bucket_def bucket_of_def dest: map_of_SomeD split: option.split)
  then have "dict_ok (map (\<lambda>(n, db). (n, live_db db)) (indexed_db_bucket i cx))" by (simp add: comp_def split_beta)
  then have "dict_get (wr_dbs (seed_page i cx)) n = map_option live_db (dict_get (indexed_db_bucket i cx) n)" for n
    by (simp add: seed_page_def dict_get_btree_of map_of_map)
  then show "record_at (seed_page i cx) = record_in (bucket_of (cx_dbs cx) i)"
    by (auto simp: record_at_def record_in_def fun_eq_iff indexed_db_bucket_def live_db_def bind_map_option comp_def)
qed (simp add: seed_page_def storage_bucket_def)

lemma step_origin:
  "storage_step en g0 st st' \<Longrightarrow> g0 < length (js_regs (fst st)) \<Longrightarrow>
     g0 < length (js_regs (fst st')) \<and> wr_origin (page_reg (fst st') g0) = wr_origin (page_reg (fst st) g0)"
proof (induction rule: storage_step.induct)
  case (ss_page g js js' cx)
  from page_step_told [OF ss_page(1)] ss_page show ?case
    by (auto simp: told_def page_reg_def nth_list_update)
qed (auto simp: page_reg_def drain_idb_events_def nth_append)

lemma run_origin:
  assumes "storage_run en g0 st st'" and "g0 < length (js_regs (fst st))"
  shows "g0 < length (js_regs (fst st')) \<and> wr_origin (page_reg (fst st') g0) = wr_origin (page_reg (fst st) g0)"
  using assms by (induction rule: rtranclp_induct) (auto dest!: step_origin)

section \<open>A concrete page\<close>

definition demo_env :: "(idb_stores \<times> key_paths) storage_env" where
  "demo_env = \<lparr>sv_json_text = (\<lambda>j. case j of JString s \<Rightarrow> s | _ \<Rightarrow> []), sv_json_read = (\<lambda>s. Some (JString s)),
     sv_data_text = (\<lambda>x. x), sv_data_read = Some\<rparr>"

definition demo_context :: context_storage where
  "demo_context = \<lparr>cx_local = [], cx_dbs = []\<rparr>"

definition demo_start :: "(idb_stores \<times> key_paths) page_store" where
  "demo_start = \<lparr>js_regs = [], js_pending = [], js_objects = 0, js_local_sent = [], js_db_sent = []\<rparr>"

definition demo_page :: "(idb_stores \<times> key_paths) page_store" where
  "demo_page = register_page ''https://a.com'' demo_context demo_start"

definition demo_db :: db_handle where
  "demo_db = \<lparr>dh_reg = 0, dh_name = ''auth'', dh_version = 1\<rparr>"

definition demo_store :: store_handle where
  "demo_store = \<lparr>sh_reg = 0, sh_db = ''auth'', sh_store = ''tokens'', sh_key_path = Some ''id'', sh_transaction = None\<rparr>"

text \<open>The database is opened, its store created, a record put; then the messages are applied.\<close>

definition demo_opened :: "(idb_stores \<times> key_paths) page_store" where
  "demo_opened = snd (idb_open demo_env 0 [Given (Inr ''auth'')] 1 demo_page)"

definition demo_created :: "(idb_stores \<times> key_paths) page_store" where
  "demo_created = snd (db_create_store demo_db [Given (Inr ''tokens'')] (Some ''id'') demo_opened)"

definition demo_put :: "(idb_stores \<times> key_paths) page_store" where
  "demo_put = snd (st_put demo_env False demo_store (Some (JString ''tok'')) (Some (Given (Inr ''gcp''))) demo_created)"

definition demo_after :: "(idb_stores \<times> key_paths) page_store \<Rightarrow> context_storage" where
  "demo_after js = demo_context\<lparr>cx_dbs := fold (idb_apply demo_env) (js_db_sent js) []\<rparr>"

lemma storage_demo_run:
  "storage_run demo_env 0 (demo_page, demo_context) (demo_put\<lparr>js_db_sent := []\<rparr>, demo_after demo_put)"
proof -
  have regs: "length (js_regs demo_page) = 1" "length (js_regs demo_opened) = 1" "length (js_regs demo_created) = 1"
    by code_simp+
  have "storage_step demo_env 0 (demo_page, demo_context) (demo_opened, demo_context)"
    unfolding demo_opened_def using regs by (intro ss_page [OF ps_open]) simp_all
  moreover have "storage_step demo_env 0 (demo_opened, demo_context) (demo_created, demo_context)"
    unfolding demo_created_def using regs by (intro ss_page [OF ps_create]) (auto simp: demo_db_def)
  moreover have "storage_step demo_env 0 (demo_created, demo_context) (demo_put, demo_context)"
    unfolding demo_put_def using regs by (intro ss_page [OF ps_put]) (auto simp: demo_store_def)
  moreover obtain a b where sent: "js_db_sent demo_put = [a, b]"
  proof -
    have "length (js_db_sent demo_put) = 2" by code_simp
    then show thesis by (auto simp: numeral_2_eq_2 length_Suc_conv intro: that)
  qed
  moreover have "storage_step demo_env 0 (demo_put, demo_context)
      (demo_put\<lparr>js_db_sent := [b]\<rparr>, demo_context\<lparr>cx_dbs := idb_apply demo_env a []\<rparr>)"
    using ss_db [OF sent, of demo_env 0 demo_context] by (simp add: demo_context_def)
  moreover have "storage_step demo_env 0 (demo_put\<lparr>js_db_sent := [b]\<rparr>, demo_context\<lparr>cx_dbs := idb_apply demo_env a []\<rparr>)
      (demo_put\<lparr>js_db_sent := []\<rparr>, demo_after demo_put)"
    using ss_db [of "demo_put\<lparr>js_db_sent := [b]\<rparr>" b "[]" demo_env 0 "demo_context\<lparr>cx_dbs := idb_apply demo_env a []\<rparr>"]
    by (simp add: demo_after_def sent)
  ultimately show ?thesis by (meson converse_rtranclp_into_rtranclp r_into_rtranclp)
qed

section \<open>Properties\<close>

text \<open>
  C21: What a page writes survives navigation: from a registration over the context, along any steps
  of its scripts, of pages of other origins, of the threads and of the pump, once the barriers
  report that all messages are applied, a new page of the same origin sees the same localStorage
  entries and the same IndexedDB records.
\<close>
theorem storage_survives_navigation:
  assumes "data_ok en" and "cx_ok cx" and "js_local_sent js = []" and "js_db_sent js = []"
    and run: "storage_run en (length (js_regs js)) (register_page i cx js, cx) (js1, cx1)"
    and "js_local_sent js1 = []" and "js_db_sent js1 = []"
  shows "map_of (wr_local (seed_page i cx1)) = map_of (wr_local (page_reg js1 (length (js_regs js))))
    \<and> record_at (seed_page i cx1) = record_at (page_reg js1 (length (js_regs js)))"
proof -
  have "replica en (length (js_regs js)) (register_page i cx js, cx)"
    using seed_agrees [OF assms(2), of i] assms(3,4)
    by (simp add: register_page_def page_reg_def seed_page_def)
  from run_ok [OF run assms(1) this] assms(2) have "replica en (length (js_regs js)) (js1, cx1)" "cx_ok cx1" by simp_all
  moreover have "wr_origin (page_reg js1 (length (js_regs js))) = i"
    using run_origin [OF run] by (simp add: register_page_def page_reg_def seed_page_def)
  ultimately show ?thesis using seed_agrees [of cx1 i] assms(6,7) by (simp add: Let_def)
qed

theorem storage_survives_navigation_witness:
  "record_at (seed_page ''https://a.com'' (demo_after demo_put)) ''auth'' ''tokens'' ''gcp'' = Some ''tok''"
proof -
  have start: "js_local_sent demo_start = []" "js_db_sent demo_start = []" "length (js_regs demo_start) = 0"
    by (simp_all add: demo_start_def)
  have ok: "data_ok demo_env" "cx_ok demo_context" by (simp_all add: data_ok_def demo_env_def cx_ok_def demo_context_def)
  have drained: "js_local_sent (demo_put\<lparr>js_db_sent := []\<rparr>) = []" "js_db_sent (demo_put\<lparr>js_db_sent := []\<rparr>) = []" by code_simp+
  have "record_at (page_reg demo_put 0) ''auth'' ''tokens'' ''gcp'' = Some ''tok''" by code_simp
  with storage_survives_navigation [OF ok start(1,2) storage_demo_run [unfolded demo_page_def, folded start(3)] drained]
  show ?thesis by (simp add: start page_reg_def)
qed

text \<open>Scripts reach only the bucket of the origin their objects were registered for.\<close>
theorem page_writes_stay_in_origin:
  assumes "page_step en g js js'" and "i \<noteq> wr_origin (page_reg js g)"
  shows "bucket_of (fold local_apply (js_local_sent js') d) i = bucket_of (fold local_apply (js_local_sent js) d) i
    \<and> bucket_of (fold (idb_apply en) (js_db_sent js') e) i = bucket_of (fold (idb_apply en) (js_db_sent js) e) i"
proof -
  from page_step_told [OF assms(1)] obtain lms dms where
    "js_local_sent js' = js_local_sent js @ lms" "js_db_sent js' = js_db_sent js @ dms"
    "\<forall>m \<in> set lms. local_target m = wr_origin (page_reg js g)" "\<forall>m \<in> set dms. db_target m = wr_origin (page_reg js g)"
    by (auto simp: told_def local_told_def dbs_told_def)
  then show ?thesis using assms(2) by (simp add: locals_elsewhere dbs_elsewhere)
qed

theorem page_writes_stay_in_origin_witness:
  "bucket_of (fold (idb_apply demo_env) (js_db_sent demo_opened) []) ''https://b.com'' = []
    \<and> length (js_db_sent demo_opened) = 1"
proof -
  have "page_step demo_env 0 demo_page demo_opened" unfolding demo_opened_def by (rule ps_open)
  moreover have "''https://b.com'' \<noteq> wr_origin (page_reg demo_page 0)" "js_db_sent demo_page = []"
    "length (js_db_sent demo_opened) = 1" by code_simp+
  ultimately show ?thesis using page_writes_stay_in_origin [of demo_env 0 demo_page demo_opened "''https://b.com''"]
    by (simp add: bucket_of_def)
qed

text \<open>
  What is put is got: the request carries the key, a later \<open>get\<close> under it answers the value, no
  other record changes, and \<open>add\<close> succeeds only where there was no record.
\<close>
theorem put_then_get:
  assumes "st_put en strict h (Some j) key js = (Inr req, js1)" and "sv_json_read en (sv_json_text en j) = Some j"
    and "sh_reg h < length (js_regs js)"
  shows "\<exists>k. rq_result req = ResKey k
    \<and> (\<exists>req2 js2. st_get en h [Given (Inr k)] js1 = (Inr req2, js2) \<and> rq_result req2 = ResJson j)
    \<and> (strict \<longrightarrow> record_at (page_reg js (sh_reg h)) (sh_db h) (sh_store h) k = None)
    \<and> (\<forall>n s k'. (n, s, k') \<noteq> (sh_db h, sh_store h, k) \<longrightarrow>
         record_at (page_reg js1 (sh_reg h)) n s k' = record_at (page_reg js (sh_reg h)) n s k')"
proof -
  let ?r = "page_reg js (sh_reg h)"
  from assms(1) obtain k where k: "put_key en h j key = Inr k" by (cases "put_key en h j key") (auto simp: st_put_def)
  let ?st = "store_at (db_at ?r (sh_db h)) (sh_store h)"
  let ?db = "(db_at ?r (sh_db h))\<lparr>iv_stores := btree_insert (sh_store h) (btree_insert k (sv_json_text en j) ?st) (iv_stores (db_at ?r (sh_db h)))\<rparr>"
  have fresh: "\<not> (strict \<and> dict_get ?st k \<noteq> None)" using assms(1) k by (auto simp: st_put_def Let_def split: if_splits)
  then have req: "rq_result req = ResKey k" and regs: "js_regs js1 = (js_regs js)[sh_reg h := ?r\<lparr>wr_dbs := btree_insert (sh_db h) ?db (wr_dbs ?r)\<rparr>]"
    using assms(1) k by (auto simp: st_put_def page_defs split: if_splits option.splits)
  then have reg: "page_reg js1 (sh_reg h) = ?r\<lparr>wr_dbs := btree_insert (sh_db h) ?db (wr_dbs ?r)\<rparr>"
    using assms(3) by (simp add: page_reg_def)
  have new: "record_at (page_reg js1 (sh_reg h)) (sh_db h) (sh_store h) k = Some (sv_json_text en j)"
    by (simp add: reg record_at_def btree_get_insert)
  have old: "record_at (page_reg js1 (sh_reg h)) n s k' = record_at ?r n s k'" if "(n, s, k') \<noteq> (sh_db h, sh_store h, k)" for n s k'
    using that by (auto simp: reg record_at_def db_at_def store_at_def idb_db_default_def btree_get_insert split: option.split)
  have "strict \<longrightarrow> record_at ?r (sh_db h) (sh_store h) k = None"
    using fresh by (auto simp: record_at_def db_at_def store_at_def split: option.splits bind_splits)
  moreover have "\<exists>req2 js2. st_get en h [Given (Inr k)] js1 = (Inr req2, js2) \<and> rq_result req2 = ResJson j"
    using assms(2) by (simp add: st_get_def first_arg_def arg_text_def map_err_def new make_request_def new_object_def)
  ultimately show ?thesis using req old by blast
qed

theorem put_then_get_witness:
  "\<exists>req js1 req2 js2.
     st_put demo_env False demo_store (Some (JString ''tok'')) (Some (Given (Inr ''gcp''))) demo_created = (Inr req, js1)
     \<and> rq_result req = ResKey ''gcp''
     \<and> st_get demo_env demo_store [Given (Inr ''gcp'')] js1 = (Inr req2, js2) \<and> rq_result req2 = ResJson (JString ''tok'')"
proof -
  let ?put = "st_put demo_env False demo_store (Some (JString ''tok'')) (Some (Given (Inr ''gcp''))) demo_created"
  have "case ?put of (Inr req, js1) \<Rightarrow> rq_result req = ResKey ''gcp'' | _ \<Rightarrow> False" by code_simp
  then obtain req js1 where put: "?put = (Inr req, js1)" "rq_result req = ResKey ''gcp''"
    by (cases ?put) (auto split: sum.splits)
  have "sv_json_read demo_env (sv_json_text demo_env (JString ''tok'')) = Some (JString ''tok'')" by (simp add: demo_env_def)
  moreover have "sh_reg demo_store < length (js_regs demo_created)" by code_simp
  ultimately show ?thesis using put_then_get [OF put(1)] put by auto
qed

text \<open>
  \<open>open\<close> refuses a version exactly when it is given and lower than the stored one; then no
  database, no localStorage entry and no message changes. Otherwise the database is at that
  version, or stays where it was when none was given, and its records stay.
\<close>
theorem open_version:
  assumes "idb_open en g (Given (Inr n) # args) requested js = (Inr answer, js1)" and "g < length (js_regs js)" and "0 \<le> requested"
  shows "case answer of
      OpenRefused i msg \<Rightarrow>
        0 < requested \<and> requested < iv_version (db_at (page_reg js g) n)
        \<and> js_regs js1 = js_regs js \<and> js_db_sent js1 = js_db_sent js \<and> js_local_sent js1 = js_local_sent js
    | Opened i h \<Rightarrow>
        iv_version (db_at (page_reg js g) n) \<le> dh_version h \<and> (0 < requested \<longrightarrow> dh_version h = requested)
        \<and> iv_version (db_at (page_reg js1 g) n) = dh_version h
        \<and> record_at (page_reg js1 g) = record_at (page_reg js g)
        \<and> ((i, ''upgradeneeded'') \<in> set (drop (length (js_pending js)) (js_pending js1)) \<longleftrightarrow> iv_version (db_at (page_reg js g) n) < dh_version h)"
proof -
  let ?r = "page_reg js g"
  let ?cur = "iv_version (db_at ?r n)"
  define v where "v = (if requested = 0 then max ?cur 1 else requested)"
  have arg: "first_arg ''name requires a value'' (Given (Inr n) # args) = Inr n"
    by (simp add: first_arg_def arg_text_def map_err_def)
  note run = assms(1) [unfolded idb_open_def arg sum.case new_object_def prod.case Let_def, folded v_def]
  show ?thesis
  proof (cases "v < ?cur")
    case True
    then show ?thesis
      using run assms(3) by (auto simp: queue_event_def) (auto simp: v_def split: if_splits)
  next
    case False
    let ?db = "(db_at ?r n)\<lparr>iv_version := v\<rparr>"
    have same: "record_at (?r\<lparr>wr_dbs := btree_insert n ?db (wr_dbs ?r)\<rparr>) = record_at ?r"
      by (auto simp: record_at_def db_at_def idb_db_default_def btree_get_insert fun_eq_iff split: option.split)
    have answer: "answer = Opened (js_objects js) \<lparr>dh_reg = g, dh_name = n, dh_version = v\<rparr>"
      and reg: "page_reg js1 g = ?r\<lparr>wr_dbs := btree_insert n ?db (wr_dbs ?r)\<rparr>"
      and pending: "js_pending js1 = js_pending js @ (if ?cur < v then [(js_objects js, ''upgradeneeded'')] else []) @ [(js_objects js, ''success'')]"
      using False run assms(2) by (auto simp: page_defs page_reg_def)
    have "db_at (page_reg js1 g) n = ?db" by (simp add: reg db_at_def btree_get_insert)
    moreover have "?cur \<le> v" "0 < requested \<longrightarrow> v = requested" using False by (auto simp: v_def)
    ultimately show ?thesis by (simp add: answer reg same pending)
  qed
qed

theorem open_version_witness:
  "\<exists>i msg js1. idb_open demo_env 0 [Given (Inr ''auth'')] 1 (snd (idb_open demo_env 0 [Given (Inr ''auth'')] 2 demo_page))
      = (Inr (OpenRefused i msg), js1) \<and> length (js_db_sent js1) = 1"
proof -
  let ?js = "snd (idb_open demo_env 0 [Given (Inr ''auth'')] 2 demo_page)"
  have "case idb_open demo_env 0 [Given (Inr ''auth'')] 1 ?js of (Inr (OpenRefused i msg), js1) \<Rightarrow> True | _ \<Rightarrow> False" by code_simp
  then obtain i msg js1 where run: "idb_open demo_env 0 [Given (Inr ''auth'')] 1 ?js = (Inr (OpenRefused i msg), js1)"
    by (cases "idb_open demo_env 0 [Given (Inr ''auth'')] 1 ?js") (auto split: sum.splits open_answer.splits)
  have sent: "0 < length (js_regs ?js)" "length (js_db_sent ?js) = 1" by code_simp+
  from open_version [OF run sent(1)] run sent(2) show ?thesis by auto
qed

text \<open>
  An object store that holds no record yet is lost by a navigation: creating it sends no message.
  The next page finds the database at its version, gets no upgrade event, and cannot use the store.
\<close>
theorem created_store_lost:
  "tx_object_store \<lparr>th_id = 9, th_reg = 0, th_db = ''auth''\<rparr> [Given (Inr ''tokens'')] demo_created \<noteq> Inl e
    \<and> (let js = register_page ''https://a.com'' (demo_after demo_created) (snd (drain_idb_events demo_created))
       in case idb_open demo_env 1 [Given (Inr ''auth'')] 1 js of
            (Inr (Opened i h), js1) \<Rightarrow>
              map snd (js_pending js1) = [''success'']
              \<and> tx_object_store \<lparr>th_id = 9, th_reg = 1, th_db = ''auth''\<rparr> [Given (Inr ''tokens'')] js1
                  = Inl (''DataError: object store '' @ [CHR 0x22] @ ''tokens'' @ [CHR 0x22] @ '' does not exist'')
          | _ \<Rightarrow> False)"
proof -
  have "result_ok (tx_object_store \<lparr>th_id = 9, th_reg = 0, th_db = ''auth''\<rparr> [Given (Inr ''tokens'')] demo_created) \<noteq> None"
    by code_simp
  moreover have "let js = register_page ''https://a.com'' (demo_after demo_created) (snd (drain_idb_events demo_created))
       in case idb_open demo_env 1 [Given (Inr ''auth'')] 1 js of
            (Inr (Opened i h), js1) \<Rightarrow>
              map snd (js_pending js1) = [''success'']
              \<and> tx_object_store \<lparr>th_id = 9, th_reg = 1, th_db = ''auth''\<rparr> [Given (Inr ''tokens'')] js1
                  = Inl (''DataError: object store '' @ [CHR 0x22] @ ''tokens'' @ [CHR 0x22] @ '' does not exist'')
          | _ \<Rightarrow> False" by code_simp
  ultimately show ?thesis by (auto simp: result_ok_def)
qed

end
