(* ===== verification/FormActivation.thy ===== *)
theory FormActivation
  imports LoginForm
begin

text \<open>
  \<open>oxibrowser-core/src/js/form_activation.rs\<close>: the form a control belongs to, the pairs a form
  sends, and the navigation a submission asks for. \<open>None\<close> on the outside is a walk that does not
  end. Writing pairs into the query of a URL (\<open>query_pairs_mut\<close>, after \<open>set_query(None)\<close>) is the
  argument \<open>qp\<close>.
\<close>

section \<open>Activation\<close>

text \<open>\<open>DomMutation\<close>, the journal the session reconciles.\<close>

datatype dom_mutation =
    MutSetAttribute nat string string
  | MutSetText nat string
  | MutClick nat
  | MutInput nat string
  | MutCreateElement nat string
  | MutCreateText nat string
  | MutAppendChild nat nat
  | MutRemoveChild nat nat
  | MutSetInnerHtml nat string
  | MutNavigate string
  | MutReload
  | MutNavigatePost string string string \<comment> \<open>URL, body, content type\<close>
  | MutOpenTab string string

definition is_submit_control :: "string \<Rightarrow> string \<Rightarrow> bool" where
  "is_submit_control tag raw =
     (let ty = to_ascii_lowercase raw
      in if tag = ''input'' then ty = ''submit''
         else if tag = ''button'' then ty = [] \<or> ty = ''submit''
         else False)"

partial_function (option) form_from :: "dom_nodes \<Rightarrow> nat option \<Rightarrow> nat option option" where
  "form_from nodes cur =
     (case cur of
        None \<Rightarrow> Some None
      | Some i \<Rightarrow>
          (case dict_get nodes i of
             None \<Rightarrow> Some None
           | Some n \<Rightarrow> if nd_tag n = ''form'' then Some (Some i) else form_from nodes (nd_parent n)))"

declare form_from.simps [code]

definition nearest_form :: "dom_snapshot \<Rightarrow> nat \<Rightarrow> nat option option" where
  "nearest_form sn i = form_from (sn_nodes sn) (Some i)"

section \<open>What a form sends\<close>

definition attr_default :: "dom_node \<Rightarrow> string \<Rightarrow> string \<Rightarrow> string" where
  "attr_default n a d = (case node_attr n a of Some v \<Rightarrow> v | None \<Rightarrow> d)"

definition input_pair :: "string \<Rightarrow> dom_node \<Rightarrow> (string \<times> string) option" where
  "input_pair name n =
     (let ty = to_ascii_lowercase (attr_default n ''type'' [])
      in if ty \<in> {''checkbox'', ''radio''}
         then (if has_attr n ''checked'' then Some (name, attr_default n ''value'' ''on'') else None)
         else if ty \<in> {''submit'', ''reset'', ''button'', ''image'', ''file''} then None
         else Some (name, attr_default n ''value'' []))"

definition chosen_option :: "dom_node list \<Rightarrow> dom_node option" where
  "chosen_option opts =
     (case find (\<lambda>m. has_attr m ''selected'') opts of
        Some m \<Rightarrow> Some m
      | None \<Rightarrow> (case opts of [] \<Rightarrow> None | m # ms \<Rightarrow> Some m))"

definition options_in :: "(nat \<times> dom_node) list \<Rightarrow> dom_node list" where
  "options_in visited = filter (\<lambda>m. nd_tag m = ''option'') (map snd visited)"

definition option_pair :: "string \<Rightarrow> dom_node list \<Rightarrow> (string \<times> string) option" where
  "option_pair name opts = map_option (\<lambda>m. (name, attr_default m ''value'' (nd_text m))) (chosen_option opts)"

definition control_pair :: "dom_nodes \<Rightarrow> dom_node \<Rightarrow> (string \<times> string) option option" where
  "control_pair nodes n =
     (if has_attr n ''disabled'' then Some None
      else case node_attr n ''name'' of
        None \<Rightarrow> Some None
      | Some name \<Rightarrow>
          if name = [] then Some None
          else if nd_tag n = ''input'' then Some (input_pair name n)
          else if nd_tag n = ''textarea'' then Some (Some (name, nd_text n))
          else if nd_tag n = ''select''
          then map_option (\<lambda>visited. option_pair name (options_in visited)) (walk nd_children nodes (nd_children n))
          else Some None)"

definition serialize_form :: "dom_snapshot \<Rightarrow> nat \<Rightarrow> (string \<times> string) list option" where
  "serialize_form sn form_id =
     (case dict_get (sn_nodes sn) form_id of
        None \<Rightarrow> Some []
      | Some f \<Rightarrow>
          Option.bind (walk nd_children (sn_nodes sn) (nd_children f)) (\<lambda>visited.
            collect_some (\<lambda>v. control_pair (sn_nodes sn) (snd v)) visited))"

section \<open>Submission\<close>

definition urlencoded :: string where
  "urlencoded = ''application/x-www-form-urlencoded''"

definition submit_mutation ::
  "url_lib \<Rightarrow> ((string \<times> string) list \<Rightarrow> url \<Rightarrow> url) \<Rightarrow> dom_snapshot \<Rightarrow> nat \<Rightarrow> url \<Rightarrow> dom_mutation option option" where
  "submit_mutation ul qp sn form_id page =
     (case dict_get (sn_nodes sn) form_id of
        None \<Rightarrow> Some None
      | Some f \<Rightarrow>
          (let meth = (case node_attr f ''method'' of Some m \<Rightarrow> to_ascii_uppercase m | None \<Rightarrow> ''GET'')
           in case form_post_url ul page (node_attr f ''action'') of
                Inl e \<Rightarrow> Some None
              | Inr target \<Rightarrow>
                  map_option
                    (\<lambda>pairs.
                       if meth = ''POST''
                       then Some (MutNavigatePost (url_as_str target) (form_body ul pairs) urlencoded)
                       else Some (MutNavigate (url_as_str (qp pairs (ul_drop_query ul target)))))
                    (serialize_form sn form_id)))"

definition form_submit_mutation ::
  "url_lib \<Rightarrow> ((string \<times> string) list \<Rightarrow> url \<Rightarrow> url) \<Rightarrow> dom_snapshot \<Rightarrow> nat \<Rightarrow> url \<Rightarrow> dom_mutation option option" where
  "form_submit_mutation ul qp sn i page =
     Option.bind (nearest_form sn i) (\<lambda>form.
       case form of None \<Rightarrow> Some None | Some f \<Rightarrow> submit_mutation ul qp sn f page)"

section \<open>The pairs of a form, over its tree\<close>

fun tree_parts :: "dom_tree \<Rightarrow> dom_tree list" where
  "tree_parts (DTree i ts) = DTree i ts # concat (map tree_parts ts)"

definition below :: "dom_tree \<Rightarrow> dom_tree list" where
  "below t = concat (map tree_parts (tree_kids t))"

definition tree_options :: "dom_nodes \<Rightarrow> dom_tree \<Rightarrow> dom_node list" where
  "tree_options nodes t = filter (\<lambda>m. nd_tag m = ''option'') (map (\<lambda>u. the (dict_get nodes (tree_root u))) (below t))"

definition successful :: "dom_node \<Rightarrow> bool" where
  "successful n \<longleftrightarrow> \<not> has_attr n ''disabled'' \<and> node_attr n ''name'' \<notin> {None, Some []}"

text \<open>What the element at the root of a subtree contributes.\<close>

definition sent :: "dom_nodes \<Rightarrow> dom_tree \<Rightarrow> (string \<times> string) option" where
  "sent nodes t =
     (let n = the (dict_get nodes (tree_root t)); name = the (node_attr n ''name'')
      in if \<not> successful n then None
         else if nd_tag n = ''input'' then input_pair name n
         else if nd_tag n = ''textarea'' then Some (name, nd_text n)
         else if nd_tag n = ''select'' then option_pair name (tree_options nodes t)
         else None)"

section \<open>Lemmas\<close>

lemma map_root_tree_parts: "map tree_root (tree_parts t) = tree_ids t"
proof (induction t)
  case (DTree i ts)
  have "map tree_root (concat (map tree_parts ts)) = concat (map tree_ids ts)"
    using DTree.IH by (induction ts) auto
  then show ?case by simp
qed

lemma map_root_below: "map tree_root (below t) = concat (map tree_ids (tree_kids t))"
  by (simp add: below_def map_concat comp_def map_root_tree_parts)

lemma holds_tree_parts: "holds nodes q t \<Longrightarrow> u \<in> set (tree_parts t) \<Longrightarrow> \<exists>p. holds nodes p u"
proof (induction t arbitrary: q)
  case (DTree i ts)
  have kids: "holds nodes (Some i) t" if "t \<in> set ts" for t
    using DTree.prems(1) that by (auto simp: list_all_iff split: option.splits)
  from DTree.prems(2) consider "u = DTree i ts" | t where "t \<in> set ts" "u \<in> set (tree_parts t)" by auto
  then show ?case
  proof cases
    case 1
    with DTree.prems(1) show ?thesis by blast
  next
    case 2
    with DTree.IH kids show ?thesis by blast
  qed
qed

lemma holds_below: "holds nodes q t \<Longrightarrow> u \<in> set (below t) \<Longrightarrow> \<exists>p. holds nodes p u"
  using holds_tree_parts by (fastforce simp: below_def holds_iff [of nodes q t])

lemma walk_below:
  assumes "holds nodes q t" and "dict_get nodes (tree_root t) = Some n"
  shows "walk nd_children nodes (nd_children n)
    = Some (map (\<lambda>u. (tree_root u, the (dict_get nodes (tree_root u)))) (below t))"
proof -
  have "walk nd_children nodes [tree_root t] = Some (map (visit nodes) (tree_ids t))" by (rule walk_tree [OF assms(1)])
  then obtain rest where r: "walk nd_children nodes (nd_children n) = Some rest"
    "(tree_root t, n) # rest = map (visit nodes) (tree_ids t)"
    using assms(2) by (auto simp: walk.simps [of _ _ "[_]"] bind_eq_Some_conv)
  have "rest = map (visit nodes) (map tree_root (below t))"
    using r(2) by (simp add: tree_ids_unfold [of t] map_root_below)
  then show ?thesis using r(1) by (simp add: comp_def visit_def)
qed

lemma control_pair_sent:
  assumes "holds nodes q t" and "dict_get nodes (tree_root t) = Some n"
  shows "control_pair nodes n = Some (sent nodes t)"
  using walk_below [OF assms] assms(2)
  by (auto simp: control_pair_def sent_def successful_def Let_def tree_options_def options_in_def comp_def split: option.splits)

lemma collect_some_filter:
  "(\<And>x. x \<in> set xs \<Longrightarrow> f x = Some (g x)) \<Longrightarrow> collect_some f xs = Some (List.map_filter g xs)"
  by (induction xs) (auto simp: map_filter_simps split: option.splits)

lemma collect_some_map: "collect_some g (map h xs) = collect_some (\<lambda>x. g (h x)) xs"
  by (induction xs) auto

lemma present_root: "holds nodes q t \<Longrightarrow> \<exists>n. dict_get nodes (tree_root t) = Some n \<and> nd_id n = tree_root t"
  using holds_present tree_root_in by blast

lemma form_pairs:
  assumes "holds (sn_nodes sn) q t"
  shows "serialize_form sn (tree_root t) = Some (List.map_filter (sent (sn_nodes sn)) (below t))"
proof -
  let ?nodes = "sn_nodes sn"
  obtain f where f: "dict_get ?nodes (tree_root t) = Some f" using present_root [OF assms] by blast
  let ?at = "\<lambda>u. (tree_root u, the (dict_get ?nodes (tree_root u)))"
  have "control_pair ?nodes (snd (?at u)) = Some (sent ?nodes u)" if u: "u \<in> set (below t)" for u
  proof -
    obtain p where p: "holds ?nodes p u" using holds_below [OF assms u] ..
    obtain n where "dict_get ?nodes (tree_root u) = Some n" using present_root [OF p] by blast
    with control_pair_sent [OF p] show ?thesis by simp
  qed
  then have "collect_some (\<lambda>u. control_pair ?nodes (snd (?at u))) (below t) = Some (List.map_filter (sent ?nodes) (below t))"
    by (rule collect_some_filter)
  then have "collect_some (\<lambda>v. control_pair ?nodes (snd v)) (map ?at (below t))
      = Some (List.map_filter (sent ?nodes) (below t))" by (simp only: collect_some_map)
  then show ?thesis using walk_below [OF assms f] f by (simp add: serialize_form_def)
qed

lemma input_pair_name: "input_pair name n = Some kv \<Longrightarrow> fst kv = name"
  by (auto simp: input_pair_def Let_def split: if_splits)

lemma option_pair_name: "option_pair name opts = Some kv \<Longrightarrow> fst kv = name"
  by (auto simp: option_pair_def)

lemma sent_named:
  "sent nodes t = Some kv \<Longrightarrow>
     successful (the (dict_get nodes (tree_root t)))
     \<and> fst kv = the (node_attr (the (dict_get nodes (tree_root t))) ''name'')"
  by (cases kv) (auto simp: sent_def Let_def split: if_split_asm dest!: input_pair_name option_pair_name)

lemma form_from_tree:
  "holds nodes q t \<Longrightarrow> i \<in> set (tree_ids t) \<Longrightarrow>
     (\<exists>f \<in> set (tree_ids t). form_from nodes (Some i) = Some (Some f)) \<or> form_from nodes (Some i) = form_from nodes q"
proof (induction t arbitrary: q)
  case (DTree j ts)
  then obtain n where n: "dict_get nodes j = Some n" "nd_parent n = q"
    and ts: "\<And>t. t \<in> set ts \<Longrightarrow> holds nodes (Some j) t"
    by (auto simp: list_all_iff split: option.splits)
  have at: "form_from nodes (Some j) = Some (Some j) \<or> form_from nodes (Some j) = form_from nodes q"
    using n by (simp add: form_from.simps [of nodes "Some j"])
  show ?case
  proof (cases "i = j")
    case True
    with at show ?thesis by auto
  next
    case False
    with DTree.prems(2) obtain t where t: "t \<in> set ts" "i \<in> set (tree_ids t)" by auto
    from DTree.IH [OF t(1) ts [OF t(1)] t(2)] at t(1) show ?thesis by auto
  qed
qed

lemma nearest_form_inside:
  assumes "document sn t" and "i \<in> set (tree_ids t)"
  shows "\<exists>r. nearest_form sn i = Some r \<and> (\<forall>f. r = Some f \<longrightarrow> f \<in> set (tree_ids t))"
  using form_from_tree [of "sn_nodes sn" None t i] assms
  by (auto simp: document_def nearest_form_def form_from.simps [of _ None])

lemma serialize_form_ends:
  assumes "document sn t" and "f \<in> set (tree_ids t)"
  shows "\<exists>pairs. serialize_form sn f = Some pairs"
  using subtree_at [of "sn_nodes sn" None t f] form_pairs assms by (metis document_def)

section \<open>What a control contributes\<close>

text \<open>
  The rules of the form's controls, read off the attributes alone: an enabled element with a name
  that is not empty contributes at most one pair.
\<close>

inductive enabled_as :: "dom_node \<Rightarrow> string \<Rightarrow> bool" where
  "dict_get (nd_attributes n) ''disabled'' = None \<Longrightarrow> dict_get (nd_attributes n) ''name'' = Some name \<Longrightarrow> name \<noteq> []
     \<Longrightarrow> enabled_as n name"

inductive attr_or :: "dom_node \<Rightarrow> string \<Rightarrow> string \<Rightarrow> string \<Rightarrow> bool" for n a d where
  given: "dict_get (nd_attributes n) a = Some v \<Longrightarrow> attr_or n a d v"
| missing: "dict_get (nd_attributes n) a = None \<Longrightarrow> attr_or n a d d"

definition box_kinds :: "string list" where
  "box_kinds = [''checkbox'', ''radio'']"

definition valueless_kinds :: "string list" where
  "valueless_kinds = [''submit'', ''reset'', ''button'', ''image'', ''file'']"

inductive contributes :: "dom_nodes \<Rightarrow> dom_tree \<Rightarrow> string \<times> string \<Rightarrow> bool" where
  text_field:
    "dict_get nodes i = Some n \<Longrightarrow> enabled_as n name \<Longrightarrow> nd_tag n = ''input'' \<Longrightarrow> attr_or n ''type'' [] ty
     \<Longrightarrow> to_ascii_lowercase ty \<notin> set box_kinds \<Longrightarrow> to_ascii_lowercase ty \<notin> set valueless_kinds
     \<Longrightarrow> attr_or n ''value'' [] v \<Longrightarrow> contributes nodes (DTree i ts) (name, v)"
| checked_box:
    "dict_get nodes i = Some n \<Longrightarrow> enabled_as n name \<Longrightarrow> nd_tag n = ''input'' \<Longrightarrow> attr_or n ''type'' [] ty
     \<Longrightarrow> to_ascii_lowercase ty \<in> set box_kinds \<Longrightarrow> dict_get (nd_attributes n) ''checked'' = Some mark
     \<Longrightarrow> attr_or n ''value'' ''on'' v \<Longrightarrow> contributes nodes (DTree i ts) (name, v)"
| text_area:
    "dict_get nodes i = Some n \<Longrightarrow> enabled_as n name \<Longrightarrow> nd_tag n = ''textarea''
     \<Longrightarrow> contributes nodes (DTree i ts) (name, nd_text n)"
| selected_option:
    "dict_get nodes i = Some n \<Longrightarrow> enabled_as n name \<Longrightarrow> nd_tag n = ''select''
     \<Longrightarrow> tree_options nodes (DTree i ts) = before_it @ m # after_it
     \<Longrightarrow> (\<And>b. b \<in> set before_it \<Longrightarrow> dict_get (nd_attributes b) ''selected'' = None)
     \<Longrightarrow> dict_get (nd_attributes m) ''selected'' = Some mark
     \<Longrightarrow> attr_or m ''value'' (nd_text m) v \<Longrightarrow> contributes nodes (DTree i ts) (name, v)"
| first_option:
    "dict_get nodes i = Some n \<Longrightarrow> enabled_as n name \<Longrightarrow> nd_tag n = ''select''
     \<Longrightarrow> tree_options nodes (DTree i ts) = m # after_it
     \<Longrightarrow> (\<And>b. b \<in> set (m # after_it) \<Longrightarrow> dict_get (nd_attributes b) ''selected'' = None)
     \<Longrightarrow> attr_or m ''value'' (nd_text m) v \<Longrightarrow> contributes nodes (DTree i ts) (name, v)"

inductive_simps enabled_as_iff: "enabled_as n name"
inductive_simps attr_or_iff: "attr_or n a d v"

lemma attr_or_default: "attr_or n a d v \<longleftrightarrow> v = attr_default n a d"
  by (auto simp: attr_or_iff attr_default_def node_attr_def split: option.splits)

lemma enabled_successful:
  "enabled_as n name \<longleftrightarrow> successful n \<and> name = the (node_attr n ''name'')"
  by (auto simp: enabled_as_iff successful_def has_attr_def node_attr_def)

lemma find_first: "find P xs = Some x \<longleftrightarrow> (\<exists>ys zs. xs = ys @ x # zs \<and> (\<forall>y \<in> set ys. \<not> P y) \<and> P x)"
proof
  show "\<exists>ys zs. xs = ys @ x # zs \<and> (\<forall>y \<in> set ys. \<not> P y) \<and> P x" if "find P xs = Some x"
    using that
  proof (induction xs)
    case (Cons y ys)
    show ?case
    proof (cases "P y")
      case True
      with Cons.prems show ?thesis by (intro exI [of _ "[]"] exI [of _ ys]) simp
    next
      case False
      with Cons obtain us zs where "ys = us @ x # zs" "\<forall>u \<in> set us. \<not> P u" "P x" by auto
      with False show ?thesis by (intro exI [of _ "y # us"] exI [of _ zs]) simp
    qed
  qed simp
  show "find P xs = Some x" if "\<exists>ys zs. xs = ys @ x # zs \<and> (\<forall>y \<in> set ys. \<not> P y) \<and> P x"
  proof -
    from that obtain ys zs where "xs = ys @ x # zs" "\<forall>y \<in> set ys. \<not> P y" "P x" by blast
    then show ?thesis by (induction ys arbitrary: xs) auto
  qed
qed

lemma chosen_option_iff:
  "chosen_option opts = Some m \<longleftrightarrow>
     (\<exists>ys zs. opts = ys @ m # zs \<and> (\<forall>y \<in> set ys. \<not> has_attr y ''selected'') \<and> has_attr m ''selected'')
     \<or> (\<exists>zs. opts = m # zs \<and> (\<forall>y \<in> set opts. \<not> has_attr y ''selected''))"
proof (cases "find (\<lambda>m. has_attr m ''selected'') opts")
  case None
  then have no: "\<forall>y \<in> set opts. \<not> has_attr y ''selected''" by (simp add: find_None_iff)
  then have "\<not> (\<exists>ys zs. opts = ys @ m # zs \<and> (\<forall>y \<in> set ys. \<not> has_attr y ''selected'') \<and> has_attr m ''selected'')" by auto
  moreover have "chosen_option opts = Some m \<longleftrightarrow> (\<exists>zs. opts = m # zs)"
    using None by (cases opts) (auto simp: chosen_option_def)
  ultimately show ?thesis using no by blast
next
  case (Some x)
  then have "\<not> (\<forall>y \<in> set opts. \<not> has_attr y ''selected'')" by (auto simp: find_Some_iff)
  moreover have "chosen_option opts = Some m \<longleftrightarrow> find (\<lambda>m. has_attr m ''selected'') opts = Some m"
    using Some by (simp add: chosen_option_def)
  ultimately show ?thesis unfolding find_first by blast
qed

lemma option_pair_iff:
  "option_pair name opts = Some kv \<longleftrightarrow> (\<exists>m. chosen_option opts = Some m \<and> kv = (name, attr_default m ''value'' (nd_text m)))"
  by (auto simp: option_pair_def)

lemma input_pair_iff:
  "input_pair name n = Some kv \<longleftrightarrow>
     (let ty = to_ascii_lowercase (attr_default n ''type'' [])
      in ty \<in> set box_kinds \<and> has_attr n ''checked'' \<and> kv = (name, attr_default n ''value'' ''on'')
       \<or> ty \<notin> set box_kinds \<and> ty \<notin> set valueless_kinds \<and> kv = (name, attr_default n ''value'' []))"
  by (auto simp: input_pair_def box_kinds_def valueless_kinds_def Let_def)

lemma contributes_sound:
  "contributes nodes t kv \<Longrightarrow> sent nodes t = Some kv"
proof (induction rule: contributes.induct)
  case (selected_option nodes i n name ts before_it m after_it mark v)
  have "chosen_option (tree_options nodes (DTree i ts)) = Some m"
    unfolding chosen_option_iff has_attr_def node_attr_def using selected_option(4-6)
    by (intro disjI1 exI [of _ before_it] exI [of _ after_it]) simp
  with selected_option show ?case
    by (auto simp: sent_def Let_def enabled_successful attr_or_default option_pair_iff)
next
  case (first_option nodes i n name ts m after_it v)
  have "chosen_option (tree_options nodes (DTree i ts)) = Some m"
    unfolding chosen_option_iff has_attr_def node_attr_def using first_option(4,5) by auto
  with first_option show ?case
    by (auto simp: sent_def Let_def enabled_successful attr_or_default option_pair_iff)
qed (auto simp: sent_def Let_def enabled_successful attr_or_default input_pair_iff has_attr_def node_attr_def)

lemma contributes_complete:
  assumes "dict_get nodes (tree_root t) = Some n" and "sent nodes t = Some kv"
  shows "contributes nodes t kv"
proof -
  obtain i ts where t: "t = DTree i ts" by (cases t)
  define name where "name = the (node_attr n ''name'')"
  have n: "dict_get nodes i = Some n" using assms(1) t by simp
  have ok: "enabled_as n name" using assms(2) n t by (auto simp: sent_def Let_def enabled_successful name_def split: if_split_asm)
  consider "nd_tag n = ''input''" "input_pair name n = Some kv" | "nd_tag n = ''textarea''" "kv = (name, nd_text n)"
    | "nd_tag n = ''select''" "option_pair name (tree_options nodes t) = Some kv"
    using assms(2) n t by (auto simp: sent_def Let_def name_def split: if_split_asm)
  then show ?thesis
  proof cases
    case 1
    from 1(2) [unfolded input_pair_iff Let_def] show ?thesis
    proof (elim disjE conjE)
      assume "to_ascii_lowercase (attr_default n ''type'' []) \<in> set box_kinds" "has_attr n ''checked''"
        "kv = (name, attr_default n ''value'' ''on'')"
      then show ?thesis
        using contributes.checked_box [OF n ok 1(1)] by (auto simp: t attr_or_default has_attr_def node_attr_def)
    next
      assume "to_ascii_lowercase (attr_default n ''type'' []) \<notin> set box_kinds"
        "to_ascii_lowercase (attr_default n ''type'' []) \<notin> set valueless_kinds" "kv = (name, attr_default n ''value'' [])"
      then show ?thesis
        using contributes.text_field [OF n ok 1(1)] by (auto simp: t attr_or_default)
    qed
  next
    case 2
    then show ?thesis using contributes.text_area [OF n ok] by (simp add: t)
  next
    case 3
    then obtain m where m: "chosen_option (tree_options nodes t) = Some m" "kv = (name, attr_default m ''value'' (nd_text m))"
      by (auto simp: option_pair_iff)
    from m(1) [unfolded chosen_option_iff] show ?thesis
    proof (elim disjE exE conjE)
      fix ys zs assume "tree_options nodes t = ys @ m # zs" "\<forall>y \<in> set ys. \<not> has_attr y ''selected''" "has_attr m ''selected''"
      then show ?thesis
        using contributes.selected_option [OF n ok 3(1), of ts ys m zs] m(2) by (auto simp: t attr_or_default has_attr_def node_attr_def)
    next
      fix zs assume "tree_options nodes t = m # zs" "\<forall>y \<in> set (tree_options nodes t). \<not> has_attr y ''selected''"
      then show ?thesis
        using contributes.first_option [OF n ok 3(1), of ts m zs] m(2) by (auto simp: t attr_or_default has_attr_def node_attr_def)
    qed
  qed
qed

lemma contributes_sent:
  assumes "holds nodes q t"
  shows "contributes nodes t kv \<longleftrightarrow> sent nodes t = Some kv"
  using contributes_sound contributes_complete present_root [OF assms] by blast

lemma map_filter_concat: "List.map_filter f xs = concat (map (\<lambda>x. case f x of Some y \<Rightarrow> [y] | None \<Rightarrow> []) xs)"
  by (induction xs) (auto simp: map_filter_simps split: option.splits)

text \<open>C18: The walk over a form ends, and what the form sends is, element by element in document
  order, what the element contributes (\<open>contributes\<close>): one pair for an enabled \<open>input\<close> with a name
  whose type, in any case, is neither a button's nor a file's, a check box or a radio button only when it
  carries \<open>checked\<close> (value \<open>on\<close> by default), one for a \<open>textarea\<close> (its text), one for a \<open>select\<close>
  with options (the first that carries \<open>selected\<close>, else the first), and nothing for any other element.\<close>

theorem form_sends_exactly:
  assumes "holds (sn_nodes sn) q t"
  shows "\<exists>pairs. serialize_form sn (tree_root t) = Some (concat pairs)
    \<and> list_all2 (\<lambda>u vs. length vs \<le> 1 \<and> (\<forall>kv. kv \<in> set vs \<longleftrightarrow> contributes (sn_nodes sn) u kv)) (below t) pairs"
proof -
  let ?pairs = "map (\<lambda>u. case sent (sn_nodes sn) u of Some kv \<Rightarrow> [kv] | None \<Rightarrow> []) (below t)"
  have "length (case sent (sn_nodes sn) u of Some kv \<Rightarrow> [kv] | None \<Rightarrow> []) \<le> 1
      \<and> (\<forall>kv. kv \<in> set (case sent (sn_nodes sn) u of Some kv \<Rightarrow> [kv] | None \<Rightarrow> []) \<longleftrightarrow> contributes (sn_nodes sn) u kv)"
    if u: "u \<in> set (below t)" for u
  proof -
    obtain p where h: "holds (sn_nodes sn) p u" using holds_below [OF assms u] by blast
    from contributes_sent [OF h] show ?thesis by (auto split: option.split)
  qed
  then have "list_all2 (\<lambda>u vs. length vs \<le> 1 \<and> (\<forall>kv. kv \<in> set vs \<longleftrightarrow> contributes (sn_nodes sn) u kv)) (below t) ?pairs"
    by (simp add: list_all2_conv_all_nth)
  moreover have "serialize_form sn (tree_root t) = Some (concat ?pairs)"
    using form_pairs [OF assms] by (simp add: map_filter_concat)
  ultimately show ?thesis by blast
qed

text \<open>A submission from a node of a document ends: no navigation, a \<open>POST\<close> that carries the
  encoded pairs, or a navigation whose query is rewritten with them; the form is the nearest one.\<close>

theorem submission_outcome:
  assumes "document sn t" and "i \<in> set (tree_ids t)"
  shows "\<exists>r. form_submit_mutation ul qp sn i page = Some r \<and>
    (case r of
       None \<Rightarrow> True
     | Some m \<Rightarrow> (\<exists>f target pairs. nearest_form sn i = Some (Some f) \<and> serialize_form sn f = Some pairs
         \<and> (m = MutNavigatePost (url_as_str target) (form_body ul pairs) urlencoded
            \<or> m = MutNavigate (url_as_str (qp pairs (ul_drop_query ul target))))))"
proof -
  obtain r where r: "nearest_form sn i = Some r" "\<And>f. r = Some f \<Longrightarrow> f \<in> set (tree_ids t)"
    using nearest_form_inside [OF assms] by blast
  show ?thesis
  proof (cases r)
    case None
    with r(1) show ?thesis by (simp add: form_submit_mutation_def)
  next
    case (Some f)
    then obtain pairs where "serialize_form sn f = Some pairs" using serialize_form_ends [OF assms(1) r(2)] by blast
    with r(1) Some show ?thesis
      by (cases "dict_get (sn_nodes sn) f")
        (auto simp: form_submit_mutation_def submit_mutation_def Let_def split: sum.splits)
  qed
qed

subsection \<open>A form\<close>

definition text_node :: "nat \<Rightarrow> string \<Rightarrow> (string \<times> string) list \<Rightarrow> nat option \<Rightarrow> string \<Rightarrow> dom_node" where
  "text_node i tag attrs par txt = (sample_node i tag attrs [] par)\<lparr>nd_text := txt\<rparr>"

definition form_nodes :: dom_nodes where
  "form_nodes =
     [(0, sample_node 0 [] [] [1] None),
      (1, sample_node 1 ''form'' [(''action'', ''/send''), (''method'', ''post'')] [2, 3, 4, 5] (Some 0)),
      (2, sample_node 2 ''input'' [(''name'', ''q''), (''value'', ''x'')] [] (Some 1)),
      (3, sample_node 3 ''input'' [(''name'', ''c''), (''type'', ''CheckBox'')] [] (Some 1)),
      (4, text_node 4 ''textarea'' [(''name'', ''t''), (''value'', ''typed'')] (Some 1) ''original''),
      (5, sample_node 5 ''input'' [(''name'', ''p''), (''value'', ''y''), (''disabled'', [])] [] (Some 1))]"

definition form_part :: dom_tree where
  "form_part = DTree 1 [DTree 2 [], DTree 3 [], DTree 4 [], DTree 5 []]"

definition form_snapshot :: dom_snapshot where
  "form_snapshot = snapshot_empty\<lparr>sn_nodes := form_nodes\<rparr>"

lemmas form_dom = form_snapshot_def form_nodes_def form_part_def sample_node_def text_node_def snapshot_empty_def

lemma form_document: "document form_snapshot (DTree 0 [form_part])" "holds (sn_nodes form_snapshot) (Some 0) form_part"
  by (simp_all add: document_def form_dom)

theorem form_sends_exactly_witness:
  "\<exists>pairs. serialize_form form_snapshot 1 = Some (concat pairs) \<and> length pairs = 4
    \<and> (\<forall>kv. kv \<in> set (pairs ! 0) \<longleftrightarrow> contributes form_nodes (DTree 2 []) kv)"
proof -
  have part: "tree_root form_part = 1" "below form_part = [DTree 2 [], DTree 3 [], DTree 4 [], DTree 5 []]" by code_simp+
  have nodes: "sn_nodes form_snapshot = form_nodes" by (simp add: form_snapshot_def)
  obtain pairs where p: "serialize_form form_snapshot 1 = Some (concat pairs)"
    "list_all2 (\<lambda>u vs. length vs \<le> 1 \<and> (\<forall>kv. kv \<in> set vs \<longleftrightarrow> contributes form_nodes u kv))
      [DTree 2 [], DTree 3 [], DTree 4 [], DTree 5 []] pairs"
    using form_sends_exactly [OF form_document(2), unfolded part nodes] by blast
  from list_all2_nthD [OF p(2), of 0] list_all2_lengthD [OF p(2)] p(1) show ?thesis by (intro exI [of _ pairs]) simp
qed

theorem form_sends_sample:
  "serialize_form form_snapshot 1 = Some [(''q'', ''x''), (''t'', ''original'')]"
  by code_simp

theorem submission_outcome_witness:
  "\<exists>r. form_submit_mutation ul qp form_snapshot 2 page = Some r \<and>
    (case r of
       None \<Rightarrow> True
     | Some m \<Rightarrow> (\<exists>f target pairs. nearest_form form_snapshot 2 = Some (Some f) \<and> serialize_form form_snapshot f = Some pairs
         \<and> (m = MutNavigatePost (url_as_str target) (form_body ul pairs) urlencoded
            \<or> m = MutNavigate (url_as_str (qp pairs (ul_drop_query ul target))))))"
  by (rule submission_outcome [OF form_document(1)]) (simp add: form_part_def)

end
