(* ===== verification/NativeAction.thy ===== *)
theory NativeAction
  imports FormActivation
begin

text \<open>
  Actions the host delivers without the page's help
  (\<open>oxibrowser-core/src/js/runtime/native_action.rs\<close>), on the render document with its identities
  (\<open>oxibrowser-render/src/document.rs\<close>) and the listener registry of \<open>js/runtime.rs\<close>. The layout
  engine's tree (Blitz) is the record \<open>base_document\<close>; its mutators are the record \<open>blitz\<close>. What a
  listener does is the argument \<open>call\<close>: any change of the page at all. \<open>None\<close> is a loop that does
  not end.
\<close>

section \<open>The render document\<close>

record base_document = render_doc +
  bd_parent :: "nat \<Rightarrow> nat option"

record blitz =
  bz_query :: "string \<Rightarrow> base_document \<Rightarrow> nat option"
  bz_set_attribute :: "nat \<Rightarrow> string \<Rightarrow> string \<Rightarrow> base_document \<Rightarrow> base_document"
  bz_create_text :: "string \<Rightarrow> base_document \<Rightarrow> nat \<times> base_document"
  bz_append :: "nat \<Rightarrow> nat \<Rightarrow> base_document \<Rightarrow> base_document"
  bz_remove :: "nat \<Rightarrow> base_document \<Rightarrow> base_document"

record live_doc =
  ld_base :: base_document
  ld_revision :: "64 word"
  ld_next :: "64 word"
  ld_incarnations :: "(nat, 64 word) dict"
  ld_attachments :: "(nat, 64 word) dict"

definition live_doc_of :: "base_document \<Rightarrow> live_doc" where
  "live_doc_of d = \<lparr>ld_base = d, ld_revision = 0, ld_next = 1, ld_incarnations = [], ld_attachments = []\<rparr>"

text \<open>\<open>document_mut\<close>: the caller gets the tree, so every identity is forgotten.\<close>

definition document_mut :: "(base_document \<Rightarrow> base_document) \<Rightarrow> live_doc \<Rightarrow> live_doc" where
  "document_mut f ld =
     ld\<lparr>ld_base := f (ld_base ld), ld_revision := ld_revision ld + 1, ld_incarnations := [], ld_attachments := []\<rparr>"

abbreviation live_node :: "live_doc \<Rightarrow> nat \<Rightarrow> render_node option" where
  "live_node ld i \<equiv> rd_node (ld_base ld) i"

definition node_incarnation :: "nat \<Rightarrow> live_doc \<Rightarrow> 64 word option \<times> live_doc" where
  "node_incarnation i ld =
     (case live_node ld i of
        None \<Rightarrow> (None, ld)
      | Some r \<Rightarrow>
          (case dict_get (ld_incarnations ld) i of
             Some token \<Rightarrow> (Some token, ld)
           | None \<Rightarrow>
               (Some (ld_next ld),
                ld\<lparr>ld_next := ld_next ld + 1, ld_incarnations := dict_insert i (ld_next ld) (ld_incarnations ld)\<rparr>)))"

definition attachment_revision :: "live_doc \<Rightarrow> nat \<Rightarrow> 64 word" where
  "attachment_revision ld i = (case dict_get (ld_attachments ld) i of Some v \<Rightarrow> v | None \<Rightarrow> 0)"

partial_function (option) mark_pending ::
  "base_document \<Rightarrow> 64 word \<Rightarrow> nat list \<Rightarrow> nat list \<Rightarrow> (nat, 64 word) dict \<Rightarrow> (nat, 64 word) dict option" where
  "mark_pending d v pending seen at =
     (case pending of
        [] \<Rightarrow> Some at
      | i # rest \<Rightarrow>
          if i \<in> set seen then mark_pending d v rest seen at
          else mark_pending d v
                 ((case rd_node d i of Some r \<Rightarrow> rev (rn_children r) | None \<Rightarrow> []) @ rest)
                 (i # seen) (dict_insert i v at))"

definition mark_attachment_subtree :: "nat \<Rightarrow> live_doc \<Rightarrow> live_doc option" where
  "mark_attachment_subtree i ld =
     map_option (\<lambda>at. ld\<lparr>ld_attachments := at\<rparr>)
       (mark_pending (ld_base ld) (ld_revision ld) [i] [] (ld_attachments ld))"

definition tag_name :: "live_doc \<Rightarrow> nat \<Rightarrow> string option" where
  "tag_name ld i =
     (case live_node ld i of
        Some r \<Rightarrow> (case rn_data r of RElement tag attrs \<Rightarrow> Some tag | _ \<Rightarrow> None)
      | None \<Rightarrow> None)"

definition live_attr :: "live_doc \<Rightarrow> nat \<Rightarrow> string \<Rightarrow> string option" where
  "live_attr ld i a =
     (case live_node ld i of
        Some r \<Rightarrow> (case rn_data r of RElement tag attrs \<Rightarrow> map_of attrs a | _ \<Rightarrow> None)
      | None \<Rightarrow> None)"

partial_function (option) collect_text :: "base_document \<Rightarrow> nat list \<Rightarrow> string option" where
  "collect_text d work =
     (case work of
        [] \<Rightarrow> Some []
      | i # rest \<Rightarrow>
          (case rd_node d i of
             None \<Rightarrow> collect_text d rest
           | Some r \<Rightarrow>
               (case rn_data r of
                  RText txt \<Rightarrow> Option.bind (collect_text d rest) (\<lambda>s. Some (txt @ s))
                | _ \<Rightarrow> collect_text d (rn_children r @ rest))))"

declare mark_pending.simps [code] collect_text.simps [code]

definition node_text :: "live_doc \<Rightarrow> nat \<Rightarrow> string option" where
  "node_text ld i = collect_text (ld_base ld) [i]"

text \<open>Edits of the structure count, and mark what they moved; an attribute does not.\<close>

definition bump_tree :: "live_doc \<Rightarrow> live_doc" where
  "bump_tree ld = ld\<lparr>ld_revision := ld_revision ld + 1\<rparr>"

definition set_attribute :: "blitz \<Rightarrow> nat \<Rightarrow> string \<Rightarrow> string \<Rightarrow> live_doc \<Rightarrow> live_doc" where
  "set_attribute bz i a v ld = ld\<lparr>ld_base := bz_set_attribute bz i a v (ld_base ld)\<rparr>"

definition create_text_node :: "blitz \<Rightarrow> string \<Rightarrow> live_doc \<Rightarrow> nat \<times> live_doc" where
  "create_text_node bz txt ld =
     (let ld1 = bump_tree ld; (i, d) = bz_create_text bz txt (ld_base ld1);
          ld2 = ld1\<lparr>ld_base := d, ld_incarnations := dict_remove i (ld_incarnations ld1)\<rparr>
      in (i, snd (node_incarnation i ld2)))"

definition append_child :: "blitz \<Rightarrow> nat \<Rightarrow> nat \<Rightarrow> live_doc \<Rightarrow> live_doc option" where
  "append_child bz p c ld =
     map_option (\<lambda>ld1. ld1\<lparr>ld_base := bz_append bz p c (ld_base ld1)\<rparr>) (mark_attachment_subtree c (bump_tree ld))"

definition remove_node :: "blitz \<Rightarrow> nat \<Rightarrow> live_doc \<Rightarrow> live_doc option" where
  "remove_node bz i ld =
     map_option (\<lambda>ld1. ld1\<lparr>ld_base := bz_remove bz i (ld_base ld1)\<rparr>) (mark_attachment_subtree i (bump_tree ld))"

fun remove_nodes :: "blitz \<Rightarrow> nat list \<Rightarrow> live_doc \<Rightarrow> live_doc option" where
  "remove_nodes bz [] ld = Some ld"
| "remove_nodes bz (i # is) ld = Option.bind (remove_node bz i ld) (remove_nodes bz is)"

definition set_text :: "blitz \<Rightarrow> nat \<Rightarrow> string \<Rightarrow> live_doc \<Rightarrow> live_doc option" where
  "set_text bz i txt ld =
     Option.bind (remove_nodes bz (case live_node ld i of Some r \<Rightarrow> rn_children r | None \<Rightarrow> []) ld) (\<lambda>ld1.
       let (t, ld2) = create_text_node bz txt ld1 in append_child bz i t ld2)"

section \<open>Targets\<close>

record native_failure =
  nf_message :: string
  nf_acted :: bool

definition stale_failure :: native_failure where
  "stale_failure = \<lparr>nf_message = snd stale_ref, nf_acted = False\<rparr>"

definition failed :: "string \<Rightarrow> bool \<Rightarrow> native_failure" where
  "failed message acted = \<lparr>nf_message = message, nf_acted = acted\<rparr>"

text \<open>Linked to the root element by links that agree in both directions.\<close>

partial_function (option) connected_from :: "base_document \<Rightarrow> nat list \<Rightarrow> nat \<Rightarrow> bool option" where
  "connected_from d seen i =
     (if i \<in> set seen then Some False
      else if i = rd_html d then Some True
      else (case rd_node d i of
              None \<Rightarrow> Some False
            | Some r \<Rightarrow>
                (case bd_parent d i of
                   None \<Rightarrow> Some False
                 | Some p \<Rightarrow>
                     (case rd_node d p of
                        None \<Rightarrow> Some False
                      | Some q \<Rightarrow> if i \<in> set (rn_children q) then connected_from d (i # seen) p else Some False))))"

declare connected_from.simps [code]

definition connected :: "live_doc \<Rightarrow> nat \<Rightarrow> bool option" where
  "connected ld i = connected_from (ld_base ld) [] i"

record native_target =
  nt_document :: "64 word"
  nt_revision :: "64 word"
  nt_node :: nat
  nt_incarnation :: "64 word"
  nt_attachment :: "64 word"
  nt_fingerprint :: string
  nt_attributes :: "(string, string) dict"

record native_observation =
  no_snapshot :: dom_snapshot
  no_document :: "64 word"
  no_revision :: "64 word"
  no_identities :: "(nat, 64 word \<times> 64 word) dict"

definition observation_empty :: "64 word \<Rightarrow> native_observation" where
  "observation_empty doc_id =
     \<lparr>no_snapshot = snapshot_empty, no_document = doc_id, no_revision = 0, no_identities = []\<rparr>"

definition observation_target :: "native_observation \<Rightarrow> nat \<Rightarrow> native_target option option" where
  "observation_target ob i =
     (case dict_get (no_identities ob) i of
        None \<Rightarrow> Some None
      | Some (token, at) \<Rightarrow>
          map_option
            (\<lambda>fp. map_option
               (\<lambda>n. \<lparr>nt_document = no_document ob, nt_revision = no_revision ob, nt_node = i, nt_incarnation = token,
                      nt_attachment = at, nt_fingerprint = fp, nt_attributes = nd_attributes n\<rparr>)
               (node_of (no_snapshot ob) i))
            (fingerprint (no_snapshot ob) i))"

definition live_snapshot ::
  "live_doc \<Rightarrow> string \<Rightarrow> string \<Rightarrow> bool \<Rightarrow> shadow_registry \<Rightarrow> (dom_snapshot \<times> shadow_registry) option" where
  "live_snapshot ld u title masked sr = build_from_render (render_doc.truncate (ld_base ld)) u title masked sr"

fun identities :: "nat list \<Rightarrow> live_doc \<Rightarrow> ((nat, 64 word \<times> 64 word) dict \<times> live_doc) option" where
  "identities [] ld = Some ([], ld)"
| "identities (i # is) ld =
     Option.bind (connected ld i) (\<lambda>c.
       if \<not> c then identities is ld
       else (case node_incarnation i ld of
               (None, ld') \<Rightarrow> identities is ld'
             | (Some token, ld') \<Rightarrow>
                 map_option (\<lambda>(ids, ld''). ((i, token, attachment_revision ld' i) # ids, ld'')) (identities is ld')))"

definition native_observe ::
  "blitz \<Rightarrow> 64 word \<Rightarrow> string \<Rightarrow> live_doc \<Rightarrow> shadow_registry
    \<Rightarrow> (native_observation \<times> live_doc \<times> shadow_registry) option" where
  "native_observe bz doc_id u ld sr =
     Option.bind (case bz_query bz ''title'' (ld_base ld) of Some i \<Rightarrow> node_text ld i | None \<Rightarrow> Some []) (\<lambda>title.
     Option.bind (live_snapshot ld u title True sr) (\<lambda>(sn, sr').
     Option.bind (identities (map fst (sn_nodes sn)) ld) (\<lambda>(ids, ld').
       Some (\<lparr>no_snapshot = sn, no_document = doc_id, no_revision = ld_revision ld', no_identities = ids\<rparr>, ld', sr'))))"

definition still_same :: "live_doc \<Rightarrow> nat \<Rightarrow> 64 word \<Rightarrow> 64 word \<Rightarrow> (bool \<times> live_doc) option" where
  "still_same ld i token at =
     Option.bind (connected ld i) (\<lambda>c.
       if \<not> c then Some (False, ld)
       else (let (tok, ld') = node_incarnation i ld
             in Some (tok = Some token \<and> attachment_revision ld' i = at, ld')))"

section \<open>The page\<close>

record ('l, 's) native_page =
  np_doc :: "live_doc option"
  np_dirty :: bool
  np_mutations :: "dom_mutation list"
  np_shadow :: shadow_registry
  np_listeners :: "(nat \<times> nat, 64 word \<times> (string, 'l list) dict) dict"
  np_script :: 's

text \<open>The key is the context and the node; native commands run in context 1.\<close>

definition add_listener ::
  "nat \<Rightarrow> nat \<Rightarrow> 64 word \<Rightarrow> string \<Rightarrow> 'l \<Rightarrow> ('l, 's) native_page \<Rightarrow> ('l, 's) native_page" where
  "add_listener ctx i token kind cb pg =
     (let entry = (case dict_get (np_listeners pg) (ctx, i) of
                     Some e \<Rightarrow> if fst e \<noteq> token then (token, []) else e
                   | None \<Rightarrow> (token, []));
          cbs = (case dict_get (snd entry) kind of Some cs \<Rightarrow> cs | None \<Rightarrow> [])
      in pg\<lparr>np_listeners := dict_insert (ctx, i) (fst entry, dict_insert kind (cbs @ [cb]) (snd entry)) (np_listeners pg)\<rparr>)"

definition listeners_of :: "nat \<Rightarrow> 64 word \<Rightarrow> string \<Rightarrow> ('l, 's) native_page \<Rightarrow> 'l list" where
  "listeners_of i token kind pg =
     (case dict_get (np_listeners pg) (1, i) of
        Some e \<Rightarrow>
          if fst e = token then (case dict_get (snd e) kind of Some cs \<Rightarrow> cs | None \<Rightarrow> []) else []
      | None \<Rightarrow> [])"

fun is_navigation :: "dom_mutation \<Rightarrow> bool" where
  "is_navigation (MutNavigate u) = True"
| "is_navigation (MutNavigatePost u b t) = True"
| "is_navigation MutReload = True"
| "is_navigation m = False"

definition pending_navigation :: "('l, 's) native_page \<Rightarrow> bool" where
  "pending_navigation pg \<longleftrightarrow> list_ex is_navigation (np_mutations pg)"

section \<open>Events\<close>

record native_event =
  ne_type :: string
  ne_target :: nat
  ne_current :: nat
  ne_bubbles :: bool
  ne_cancelable :: bool
  ne_trusted :: bool

datatype event_call = StopPropagation | StopImmediatePropagation | PreventDefault

record event_flags =
  ef_stopped :: bool
  ef_immediate :: bool
  ef_prevented :: bool

definition host_event :: "nat \<Rightarrow> nat \<Rightarrow> string \<Rightarrow> native_event" where
  "host_event target current kind =
     \<lparr>ne_type = kind, ne_target = target, ne_current = current, ne_bubbles = True,
      ne_cancelable = (kind = ''click''), ne_trusted = False\<rparr>"

fun event_method :: "string \<Rightarrow> event_call \<Rightarrow> event_flags \<Rightarrow> event_flags" where
  "event_method kind StopPropagation fl = fl\<lparr>ef_stopped := True\<rparr>"
| "event_method kind StopImmediatePropagation fl = fl\<lparr>ef_stopped := True, ef_immediate := True\<rparr>"
| "event_method kind PreventDefault fl =
     (if kind = ''click'' \<or> kind = ''submit'' then fl\<lparr>ef_prevented := True\<rparr> else fl)"

text \<open>
  A listener: from the event and the flags it sees to whether it returned normally, the methods of
  the event it called, and the page it leaves.
\<close>

type_synonym ('l, 's) listener_call =
  "'l \<Rightarrow> native_event \<Rightarrow> event_flags \<Rightarrow> ('l, 's) native_page \<Rightarrow> bool \<times> event_call list \<times> ('l, 's) native_page"

record ('l, 's) delivery =
  dl_page :: "('l, 's) native_page"
  dl_flags :: event_flags
  dl_callbacks :: nat

definition detached :: native_failure where
  "detached = failed ''NATIVE_TARGET_DETACHED_DURING_ACTION'' True"

definition invoke ::
  "('l, 's) listener_call \<Rightarrow> native_event \<Rightarrow> 'l \<Rightarrow> ('l, 's) delivery \<Rightarrow> bool \<times> ('l, 's) delivery" where
  "invoke call event cb d =
     (let (ok, calls, pg) = call cb event (dl_flags d) (dl_page d)
      in (ok, d\<lparr>dl_page := pg, dl_flags := fold (event_method (ne_type event)) calls (dl_flags d)\<rparr>))"

definition with_doc :: "live_doc \<Rightarrow> ('l, 's) delivery \<Rightarrow> ('l, 's) delivery" where
  "with_doc ld d = d\<lparr>dl_page := (dl_page d)\<lparr>np_doc := Some ld\<rparr>\<rparr>"

text \<open>The target and the node of the listener are still the ones the delivery started with.\<close>

definition both_same ::
  "native_target \<Rightarrow> nat \<times> 64 word \<times> 64 word \<Rightarrow> live_doc \<Rightarrow> (bool \<times> live_doc) option" where
  "both_same t stop ld =
     Option.bind (still_same ld (nt_node t) (nt_incarnation t) (nt_attachment t)) (\<lambda>(ok, ld1).
       if \<not> ok then Some (False, ld1)
       else still_same ld1 (fst stop) (fst (snd stop)) (snd (snd stop)))"

fun run_handlers ::
  "('l, 's) listener_call \<Rightarrow> native_target \<Rightarrow> string \<Rightarrow> nat \<times> 64 word \<times> 64 word \<Rightarrow> 'l list \<Rightarrow> ('l, 's) delivery
    \<Rightarrow> ((native_failure + unit) \<times> ('l, 's) delivery) option" where
  "run_handlers call t kind stop [] d = Some (Inr (), d)"
| "run_handlers call t kind stop (cb # cbs) d =
     (if ef_immediate (dl_flags d) \<or> pending_navigation (dl_page d) then Some (Inr (), d)
      else (case np_doc (dl_page d) of
              None \<Rightarrow> Some (Inl detached, d)
            | Some ld \<Rightarrow>
                Option.bind (both_same t stop ld) (\<lambda>(ok, ld').
                  let d1 = with_doc ld' d
                  in if \<not> ok then Some (Inl detached, d1)
                     else if 256 \<le> dl_callbacks d1 then Some (Inl (failed ''NATIVE_LISTENER_LIMIT'' True), d1)
                     else (let (fine, d2) = invoke call (host_event (nt_node t) (fst stop) kind) cb
                                              (d1\<lparr>dl_callbacks := dl_callbacks d1 + 1\<rparr>)
                           in if \<not> fine then Some (Inl (failed ''NATIVE_LISTENER_ERROR'' True), d2)
                              else run_handlers call t kind stop cbs d2))))"

fun run_route ::
  "('l, 's) listener_call \<Rightarrow> native_target \<Rightarrow> string \<Rightarrow> (nat \<times> 64 word \<times> 64 word) list \<Rightarrow> ('l, 's) delivery
    \<Rightarrow> ((native_failure + unit) \<times> ('l, 's) delivery) option" where
  "run_route call t kind [] d = Some (Inr (), d)"
| "run_route call t kind (stop # stops) d =
     (if ef_stopped (dl_flags d) \<or> pending_navigation (dl_page d) then Some (Inr (), d)
      else Option.bind
             (run_handlers call t kind stop (listeners_of (fst stop) (fst (snd stop)) kind (dl_page d)) d) (\<lambda>(res, d').
               case res of Inl e \<Rightarrow> Some (Inl e, d') | Inr _ \<Rightarrow> run_route call t kind stops d'))"

text \<open>The path to the root, at most 1024 nodes; the first argument is what is left of them.\<close>

fun event_route ::
  "nat \<Rightarrow> nat option \<Rightarrow> live_doc \<Rightarrow> (native_failure + (nat \<times> 64 word \<times> 64 word) list) \<times> live_doc" where
  "event_route k None ld = (Inr [], ld)"
| "event_route 0 (Some i) ld = (Inl (failed ''NATIVE_EVENT_ROUTE_LIMIT'' True), ld)"
| "event_route (Suc k) (Some i) ld =
     (case tag_name ld i of
        None \<Rightarrow> (Inr [], ld)
      | Some tag \<Rightarrow>
          (case node_incarnation i ld of
             (None, ld1) \<Rightarrow> (Inl stale_failure, ld1)
           | (Some token, ld1) \<Rightarrow>
               (case event_route k (bd_parent (ld_base ld1) i) ld1 of
                  (Inl e, ld2) \<Rightarrow> (Inl e, ld2)
                | (Inr stops, ld2) \<Rightarrow> (Inr ((i, token, attachment_revision ld1 i) # stops), ld2))))"

definition route_limit :: nat where
  "route_limit = 1024"

definition deliver ::
  "('l, 's) listener_call \<Rightarrow> native_target \<Rightarrow> string \<Rightarrow> ('l, 's) delivery
    \<Rightarrow> ((native_failure + unit) \<times> ('l, 's) delivery) option" where
  "deliver call t kind d =
     (case np_doc (dl_page d) of
        None \<Rightarrow> Some (Inl stale_failure, d)
      | Some ld \<Rightarrow>
          (case event_route route_limit (Some (nt_node t)) ld of
             (Inl e, ld') \<Rightarrow> Some (Inl e, with_doc ld' d)
           | (Inr stops, ld') \<Rightarrow>
               run_route call t kind stops
                 ((with_doc ld' d)\<lparr>dl_flags := (dl_flags d)\<lparr>ef_stopped := False, ef_immediate := False\<rparr>\<rparr>)))"

section \<open>Actions\<close>

datatype native_input = NativeClick | NativeFill string | NativeFillCredential string

record native_receipt =
  nr_callbacks :: nat
  nr_navigation :: bool

definition same_attributes :: "(string, string) dict \<Rightarrow> (string, string) dict \<Rightarrow> bool" where
  "same_attributes a b \<longleftrightarrow> list_all (\<lambda>k. dict_get a k = dict_get b k) (map fst a @ map fst b)"

text \<open>Whether the page still shows what was observed.\<close>

definition target_fresh ::
  "64 word \<Rightarrow> native_target \<Rightarrow> live_doc \<Rightarrow> shadow_registry \<Rightarrow> (bool \<times> live_doc \<times> shadow_registry) option" where
  "target_fresh doc_id t ld sr =
     (if doc_id \<noteq> nt_document t \<or> ld_revision ld \<noteq> nt_revision t then Some (False, ld, sr)
      else Option.bind (still_same ld (nt_node t) (nt_incarnation t) (nt_attachment t)) (\<lambda>(ok, ld1).
        if \<not> ok then Some (False, ld1, sr)
        else Option.bind (live_snapshot ld1 [] [] True sr) (\<lambda>(sn, sr1).
             Option.bind (fingerprint sn (nt_node t)) (\<lambda>fp.
               Some (fp = nt_fingerprint t
                       \<and> (case node_of sn (nt_node t) of
                            Some n \<Rightarrow> same_attributes (nd_attributes n) (nt_attributes t) | None \<Rightarrow> False),
                     ld1, sr1)))))"

definition type_of :: "live_doc \<Rightarrow> nat \<Rightarrow> string" where
  "type_of ld i = to_ascii_lowercase (case live_attr ld i ''type'' of Some v \<Rightarrow> v | None \<Rightarrow> [])"

definition is_credential :: "native_input \<Rightarrow> bool" where
  "is_credential input = (case input of NativeFillCredential v \<Rightarrow> True | _ \<Rightarrow> False)"

definition control_denied :: "live_doc \<Rightarrow> nat \<Rightarrow> native_input \<Rightarrow> bool" where
  "control_denied ld i input \<longleftrightarrow>
     live_attr ld i ''disabled'' \<noteq> None
     \<or> type_of ld i \<in> {''file'', ''hidden''}
     \<or> (type_of ld i = ''password'' \<and> \<not> is_credential input)
     \<or> (type_of ld i \<noteq> ''password'' \<and> is_credential input)"

definition not_fillable :: native_failure where
  "not_fillable = failed ''TARGET_NOT_FILLABLE'' False"

definition takes_value :: "string \<Rightarrow> string \<Rightarrow> bool" where
  "takes_value tag ty \<longleftrightarrow>
     tag = ''textarea''
     \<or> (tag = ''input'' \<and> ty \<notin> {''checkbox'', ''radio'', ''button'', ''submit'', ''reset'', ''image''})"

definition write_input :: "blitz \<Rightarrow> native_input \<Rightarrow> nat \<Rightarrow> live_doc \<Rightarrow> (native_failure + live_doc) option" where
  "write_input bz input i ld =
     (case input of
        NativeClick \<Rightarrow> Some (Inr ld)
      | NativeFill v \<Rightarrow>
          if live_attr ld i ''readonly'' \<noteq> None then Some (Inl not_fillable)
          else if takes_value (case tag_name ld i of Some tag \<Rightarrow> tag | None \<Rightarrow> []) (type_of ld i)
          then Some (Inr (set_attribute bz i ''value'' v ld))
          else if (case live_attr ld i ''contenteditable'' of
                     Some c \<Rightarrow> c = [] \<or> eq_ignore_ascii_case c ''true'' | None \<Rightarrow> False)
          then map_option Inr (set_text bz i v ld)
          else Some (Inl not_fillable)
      | NativeFillCredential v \<Rightarrow>
          if live_attr ld i ''readonly'' \<noteq> None then Some (Inl not_fillable)
          else Some (Inr (set_attribute bz i ''value'' v ld)))"

text \<open>Everything that can still refuse, and the write.\<close>

definition prepare ::
  "blitz \<Rightarrow> 64 word \<Rightarrow> native_target \<Rightarrow> native_input \<Rightarrow> ('l, 's) native_page
    \<Rightarrow> ((native_failure + unit) \<times> ('l, 's) native_page) option" where
  "prepare bz doc_id t input pg =
     (if pending_navigation pg then Some (Inl stale_failure, pg)
      else (case np_doc pg of
              None \<Rightarrow> Some (Inl stale_failure, pg)
            | Some ld \<Rightarrow>
                Option.bind (target_fresh doc_id t ld (np_shadow pg)) (\<lambda>(ok, ld1, sr1).
                  let pg1 = pg\<lparr>np_doc := Some ld1, np_shadow := sr1\<rparr>
                  in if \<not> ok then Some (Inl stale_failure, pg1)
                     else if control_denied ld1 (nt_node t) input
                     then Some (Inl (failed ''NATIVE_CONTROL_DENIED'' False), pg1)
                     else map_option
                            (\<lambda>w. case w of
                               Inl e \<Rightarrow> (Inl e, pg1)
                             | Inr ld2 \<Rightarrow> (Inr (), pg1\<lparr>np_doc := Some ld2, np_dirty := True\<rparr>))
                            (write_input bz input (nt_node t) ld1))))"

subsection \<open>What a click does on its own\<close>

text \<open>The URL library, and the writing of pairs into a query.\<close>

record form_urls =
  fu_lib :: url_lib
  fu_query :: "(string \<times> string) list \<Rightarrow> url \<Rightarrow> url"

definition submit_owner ::
  "nat \<Rightarrow> live_doc \<Rightarrow> shadow_registry \<Rightarrow> ((nat \<times> 64 word) option \<times> live_doc \<times> shadow_registry) option" where
  "submit_owner i ld sr =
     Option.bind (live_snapshot ld [] [] True sr) (\<lambda>(sn, sr1).
       case node_of sn i of
         None \<Rightarrow> Some (None, ld, sr1)
       | Some n \<Rightarrow>
           if \<not> is_submit_control (nd_tag n) (attr_default n ''type'' []) then Some (None, ld, sr1)
           else Option.bind (nearest_form sn i) (\<lambda>form.
             case form of
               None \<Rightarrow> Some (None, ld, sr1)
             | Some f \<Rightarrow>
                 (let (token, ld1) = node_incarnation f ld
                  in Some (Some (f, case token of Some v \<Rightarrow> v | None \<Rightarrow> 0), ld1, sr1))))"

fun run_submit_handlers ::
  "('l, 's) listener_call \<Rightarrow> nat \<Rightarrow> 'l list \<Rightarrow> ('l, 's) delivery \<Rightarrow> (native_failure + unit) \<times> ('l, 's) delivery" where
  "run_submit_handlers call f [] d = (Inr (), d)"
| "run_submit_handlers call f (cb # cbs) d =
     (if ef_immediate (dl_flags d) then (Inr (), d)
      else (let (fine, d1) = invoke call (host_event f f ''submit'') cb d
            in if \<not> fine then (Inl (failed ''NATIVE_LISTENER_ERROR'' True), d1)
               else run_submit_handlers call f cbs d1))"

definition push_mutation :: "dom_mutation option \<Rightarrow> ('l, 's) native_page \<Rightarrow> ('l, 's) native_page" where
  "push_mutation m pg = (case m of Some x \<Rightarrow> pg\<lparr>np_mutations := np_mutations pg @ [x]\<rparr> | None \<Rightarrow> pg)"

definition submit_page ::
  "form_urls \<Rightarrow> nat \<Rightarrow> url \<Rightarrow> ('l, 's) native_page \<Rightarrow> ('l, 's) native_page option" where
  "submit_page fu f page pg =
     (case np_doc pg of
        None \<Rightarrow> Some pg
      | Some ld \<Rightarrow>
          Option.bind (live_snapshot ld [] [] False (np_shadow pg)) (\<lambda>(sn, sr).
          map_option (\<lambda>m. push_mutation m (pg\<lparr>np_shadow := sr\<rparr>))
            (submit_mutation (fu_lib fu) (fu_query fu) sn f page)))"

definition no_flags :: event_flags where
  "no_flags = \<lparr>ef_stopped = False, ef_immediate = False, ef_prevented = False\<rparr>"

definition submit_default ::
  "('l, 's) listener_call \<Rightarrow> form_urls \<Rightarrow> nat \<Rightarrow> url \<Rightarrow> ('l, 's) native_page
    \<Rightarrow> ((native_failure + unit) \<times> ('l, 's) native_page) option" where
  "submit_default call fu i page pg =
     (case np_doc pg of
        None \<Rightarrow> Some (Inr (), pg)
      | Some ld \<Rightarrow>
          Option.bind (submit_owner i ld (np_shadow pg)) (\<lambda>(owner, ld1, sr1).
            let pg1 = pg\<lparr>np_doc := Some ld1, np_shadow := sr1\<rparr>
            in (case owner of
                  None \<Rightarrow> Some (Inr (), pg1)
                | Some (f, token) \<Rightarrow>
                    (case run_submit_handlers call f (listeners_of f token ''submit'' pg1)
                            \<lparr>dl_page = pg1, dl_flags = no_flags, dl_callbacks = 0\<rparr> of
                       (Inl e, d) \<Rightarrow> Some (Inl e, dl_page d)
                     | (Inr _, d) \<Rightarrow>
                         if ef_prevented (dl_flags d) then Some (Inr (), dl_page d)
                         else map_option (Pair (Inr ())) (submit_page fu f page (dl_page d))))))"

text \<open>An anchor with \<open>target="_blank"\<close> asks for a new tab.\<close>

definition anchor_default :: "form_urls \<Rightarrow> nat \<Rightarrow> url \<Rightarrow> ('l, 's) native_page \<Rightarrow> ('l, 's) native_page option" where
  "anchor_default fu i page pg =
     (case np_doc pg of
        None \<Rightarrow> Some pg
      | Some ld \<Rightarrow>
          map_option
            (\<lambda>(sn, sr). push_mutation
               (Option.bind (node_of sn i) (\<lambda>n.
                  if nd_tag n = ''a''
                     \<and> (case node_attr n ''target'' of Some v \<Rightarrow> eq_ignore_ascii_case v ''_blank'' | None \<Rightarrow> False)
                  then Option.bind (node_attr n ''href'') (\<lambda>href.
                    case ul_join (fu_lib fu) page href of
                      Inr u \<Rightarrow> Some (MutOpenTab (url_as_str u) ''_blank'')
                    | Inl e \<Rightarrow> None)
                  else None))
               (pg\<lparr>np_shadow := sr\<rparr>))
            (live_snapshot ld [] [] True (np_shadow pg)))"

definition act_click ::
  "('l, 's) listener_call \<Rightarrow> form_urls \<Rightarrow> native_target \<Rightarrow> string \<Rightarrow> ('l, 's) delivery
    \<Rightarrow> ((native_failure + unit) \<times> ('l, 's) delivery) option" where
  "act_click call fu t page_url d =
     Option.bind (deliver call t ''click'' d) (\<lambda>(res, d1).
       case res of
         Inl e \<Rightarrow> Some (Inl e, d1)
       | Inr _ \<Rightarrow>
           (case (ef_prevented (dl_flags d1), ul_parse (fu_lib fu) page_url) of
              (False, Inr page) \<Rightarrow>
                Option.bind (submit_default call fu (nt_node t) page (dl_page d1)) (\<lambda>(res2, pg2).
                  case res2 of
                    Inl e \<Rightarrow> Some (Inl e, d1\<lparr>dl_page := pg2\<rparr>)
                  | Inr _ \<Rightarrow>
                      map_option (\<lambda>pg3. (Inr (), d1\<lparr>dl_page := pg3\<rparr>)) (anchor_default fu (nt_node t) page pg2))
            | _ \<Rightarrow> Some (Inr (), d1)))"

definition act_fill ::
  "('l, 's) listener_call \<Rightarrow> native_target \<Rightarrow> ('l, 's) delivery
    \<Rightarrow> ((native_failure + unit) \<times> ('l, 's) delivery) option" where
  "act_fill call t d =
     Option.bind (deliver call t ''input'' d) (\<lambda>(res, d1).
       case res of
         Inl e \<Rightarrow> Some (Inl e, d1)
       | Inr _ \<Rightarrow>
           if pending_navigation (dl_page d1)
           then Some (Inl (failed ''NATIVE_NAVIGATION_DURING_FILL'' True), d1)
           else (case np_doc (dl_page d1) of
                   None \<Rightarrow> Some (Inl detached, d1)
                 | Some ld \<Rightarrow>
                     Option.bind (still_same ld (nt_node t) (nt_incarnation t) (nt_attachment t)) (\<lambda>(ok, ld').
                       if \<not> ok then Some (Inl detached, with_doc ld' d1)
                       else deliver call t ''change'' (with_doc ld' d1))))"

definition native_act ::
  "blitz \<Rightarrow> ('l, 's) listener_call \<Rightarrow> form_urls \<Rightarrow> 64 word \<Rightarrow> native_target \<Rightarrow> native_input \<Rightarrow> string
    \<Rightarrow> ('l, 's) native_page \<Rightarrow> ((native_failure + native_receipt) \<times> ('l, 's) native_page) option" where
  "native_act bz call fu doc_id t input page_url pg =
     Option.bind (prepare bz doc_id t input pg) (\<lambda>(res, pg1).
       case res of
         Inl e \<Rightarrow> Some (Inl e, pg1)
       | Inr _ \<Rightarrow>
           (let d = \<lparr>dl_page = pg1, dl_flags = no_flags, dl_callbacks = 0\<rparr>
            in map_option
                 (\<lambda>(res2, d2). (case res2 of
                      Inl e \<Rightarrow> Inl e
                    | Inr _ \<Rightarrow> Inr \<lparr>nr_callbacks = dl_callbacks d2, nr_navigation = pending_navigation (dl_page d2)\<rparr>,
                    dl_page d2))
                 (case input of NativeClick \<Rightarrow> act_click call fu t page_url d | _ \<Rightarrow> act_fill call t d)))"

section \<open>Lemmas\<close>

text \<open>What reading identities may change: the table of identities alone.\<close>

definition same_tree :: "live_doc \<Rightarrow> live_doc \<Rightarrow> bool" where
  "same_tree ld ld' \<longleftrightarrow>
     ld_base ld' = ld_base ld \<and> ld_revision ld' = ld_revision ld \<and> ld_attachments ld' = ld_attachments ld"

lemma same_tree_refl [simp]: "same_tree ld ld"
  by (simp add: same_tree_def)

lemma same_tree_trans: "same_tree a b \<Longrightarrow> same_tree b c \<Longrightarrow> same_tree a c"
  by (simp add: same_tree_def)

lemma incarnation_tree: "node_incarnation i ld = (tok, ld') \<Longrightarrow> same_tree ld ld'"
  by (auto simp: node_incarnation_def same_tree_def split: option.splits)

lemma still_same_tree: "still_same ld i token at = Some (ok, ld') \<Longrightarrow> same_tree ld ld'"
  by (auto simp: still_same_def bind_eq_Some_conv split: if_splits prod.splits dest: incarnation_tree)

lemma target_fresh_tree: "target_fresh doc_id t ld sr = Some (ok, ld', sr') \<Longrightarrow> same_tree ld ld'"
  by (auto simp: target_fresh_def bind_eq_Some_conv split: if_splits dest!: still_same_tree)

text \<open>A page untouched: the tree, the journal, the listeners and the scripts are those of before.\<close>

definition untouched :: "('l, 's) native_page \<Rightarrow> ('l, 's) native_page \<Rightarrow> bool" where
  "untouched pg pg' \<longleftrightarrow>
     np_mutations pg' = np_mutations pg \<and> np_listeners pg' = np_listeners pg \<and> np_script pg' = np_script pg
     \<and> np_dirty pg' = np_dirty pg
     \<and> (case np_doc pg of None \<Rightarrow> np_doc pg' = None | Some ld \<Rightarrow> (\<exists>ld'. np_doc pg' = Some ld' \<and> same_tree ld ld'))"

lemma untouched_refl [simp]: "untouched pg pg"
  by (auto simp: untouched_def split: option.split)

lemma write_input_refusal: "write_input bz input i ld = Some (Inl e) \<Longrightarrow> e = not_fillable"
  by (auto simp: write_input_def split: if_splits native_input.splits option.splits)

lemma untouched_reading:
  "np_doc pg = Some ld \<Longrightarrow> same_tree ld ld' \<Longrightarrow> untouched pg (pg\<lparr>np_doc := Some ld', np_shadow := sr\<rparr>)"
  by (simp add: untouched_def)

lemma prepare_cases:
  assumes "prepare bz doc_id t input pg = Some (res, pg')"
  obtains (refused) e where "res = Inl e" "\<not> nf_acted e" "untouched pg pg'"
  | (ready) ld ld1 sr1 ld2 where "res = Inr ()" "np_doc pg = Some ld" "\<not> pending_navigation pg"
      "target_fresh doc_id t ld (np_shadow pg) = Some (True, ld1, sr1)" "same_tree ld ld1"
      "\<not> control_denied ld1 (nt_node t) input" "write_input bz input (nt_node t) ld1 = Some (Inr ld2)"
      "pg' = pg\<lparr>np_doc := Some ld2, np_shadow := sr1, np_dirty := True\<rparr>"
proof (cases "pending_navigation pg")
  case True
  with assms refused [of stale_failure] show ?thesis by (auto simp: prepare_def stale_failure_def)
next
  case False
  show ?thesis
  proof (cases "np_doc pg")
    case None
    with assms False refused [of stale_failure] show ?thesis by (auto simp: prepare_def stale_failure_def)
  next
    case (Some ld)
    then obtain ok ld1 sr1 where fresh: "target_fresh doc_id t ld (np_shadow pg) = Some (ok, ld1, sr1)"
      using assms False by (auto simp: prepare_def bind_eq_Some_conv)
    note tree = target_fresh_tree [OF fresh]
    note un = untouched_reading [OF Some tree, of sr1]
    show ?thesis
    proof (cases "ok \<and> \<not> control_denied ld1 (nt_node t) input")
      case False
      have "res = Inl stale_failure \<or> res = Inl (failed ''NATIVE_CONTROL_DENIED'' False)"
        "pg' = pg\<lparr>np_doc := Some ld1, np_shadow := sr1\<rparr>"
        using assms fresh False Some \<open>\<not> pending_navigation pg\<close> by (auto simp: prepare_def Let_def split: if_splits)
      with refused un show ?thesis by (auto simp: stale_failure_def failed_def)
    next
      case True
      then obtain w where w: "write_input bz input (nt_node t) ld1 = Some w"
        using assms fresh Some \<open>\<not> pending_navigation pg\<close> by (auto simp: prepare_def Let_def)
      with True have out: "(res, pg') = (case w of Inl e \<Rightarrow> (Inl e, pg\<lparr>np_doc := Some ld1, np_shadow := sr1\<rparr>)
            | Inr ld2 \<Rightarrow> (Inr (), pg\<lparr>np_doc := Some ld2, np_shadow := sr1, np_dirty := True\<rparr>))"
        using assms fresh Some \<open>\<not> pending_navigation pg\<close> by (cases w) (auto simp: prepare_def Let_def)
      show ?thesis
      proof (cases w)
        case (Inl e)
        with w out un refused [of e] show ?thesis
          by (auto dest!: write_input_refusal simp: not_fillable_def failed_def)
      next
        case (Inr ld2)
        with w out ready [OF _ Some \<open>\<not> pending_navigation pg\<close> _ tree] True fresh show ?thesis by auto
      qed
    qed
  qed
qed

lemma incarnation_exists: "live_node ld i = Some r \<Longrightarrow> \<exists>tok ld'. node_incarnation i ld = (Some tok, ld')"
  by (auto simp: node_incarnation_def split: option.splits)

lemma event_route_error: "event_route k x ld = (Inl e, ld') \<Longrightarrow> nf_acted e"
proof (induction k x ld arbitrary: e ld' rule: event_route.induct)
  case (3 k i ld)
  then obtain tag where tag: "tag_name ld i = Some tag" by (cases "tag_name ld i") auto
  then have "live_node ld i \<noteq> None" by (auto simp: tag_name_def split: option.splits)
  then obtain tok ld1 where inc: "node_incarnation i ld = (Some tok, ld1)" using incarnation_exists by blast
  from 3(2) tag inc obtain ld2 where "event_route k (bd_parent (ld_base ld1) i) ld1 = (Inl e, ld2)"
    by (auto split: prod.splits sum.splits)
  with 3(1) [OF tag inc [symmetric]] show ?case by auto
qed (simp_all add: failed_def)

lemma run_handlers_error: "run_handlers call t kind stop cbs d = Some (Inl e, d') \<Longrightarrow> nf_acted e"
  by (induction call t kind stop cbs d arbitrary: d' rule: run_handlers.induct)
    (auto simp: bind_eq_Some_conv Let_def detached_def failed_def split: if_splits option.splits prod.splits)

lemma then_error:
  assumes "Option.bind m (\<lambda>(res, d'). case res of Inl e \<Rightarrow> Some (Inl e, d') | Inr u \<Rightarrow> f d') = Some (Inl e, d2)"
    and "\<And>e' d'. m = Some (Inl e', d') \<Longrightarrow> nf_acted e'"
    and "\<And>u d'. m = Some (Inr u, d') \<Longrightarrow> f d' = Some (Inl e, d2) \<Longrightarrow> nf_acted e"
  shows "nf_acted e"
proof -
  obtain res d' where m: "m = Some (res, d')" using assms(1) by (cases m) auto
  show ?thesis using assms m by (cases res) auto
qed

lemma run_route_error: "run_route call t kind stops d = Some (Inl e, d') \<Longrightarrow> nf_acted e"
proof (induction stops arbitrary: d)
  case (Cons stop stops)
  show ?case
  proof (cases "ef_stopped (dl_flags d) \<or> pending_navigation (dl_page d)")
    case True
    with Cons.prems show ?thesis by auto
  next
    case False
    with Cons.prems show ?thesis
      by (auto intro: then_error [OF _ run_handlers_error Cons.IH])
  qed
qed simp

lemma deliver_error:
  assumes "deliver call t kind d = Some (Inl e, d')" and "np_doc (dl_page d) = Some ld"
  shows "nf_acted e"
  using assms by (auto simp: deliver_def split: prod.splits sum.splits dest: event_route_error run_route_error)

lemma submit_handlers_error: "run_submit_handlers call f cbs d = (Inl e, d') \<Longrightarrow> nf_acted e"
  by (induction call f cbs d rule: run_submit_handlers.induct) (auto simp: Let_def failed_def split: if_splits prod.splits)

lemma submit_default_error: "submit_default call fu i page pg = Some (Inl e, pg') \<Longrightarrow> nf_acted e"
proof -
  assume a: "submit_default call fu i page pg = Some (Inl e, pg')"
  then obtain ld where ld: "np_doc pg = Some ld" by (cases "np_doc pg") (auto simp: submit_default_def)
  with a obtain owner ld1 sr1 where own: "submit_owner i ld (np_shadow pg) = Some (owner, ld1, sr1)"
    by (auto simp: submit_default_def bind_eq_Some_conv)
  with a ld obtain f token where "owner = Some (f, token)" by (cases owner) (auto simp: submit_default_def)
  let ?pg1 = "pg\<lparr>np_doc := Some ld1, np_shadow := sr1\<rparr>"
  let ?run = "run_submit_handlers call f (listeners_of f token ''submit'' ?pg1)
    \<lparr>dl_page = ?pg1, dl_flags = no_flags, dl_callbacks = 0\<rparr>"
  obtain res d where run: "?run = (res, d)" by (cases ?run)
  with a ld own \<open>owner = _\<close> have "res = Inl e"
    by (cases res) (auto simp: submit_default_def Let_def split: if_split_asm)
  with run show ?thesis using submit_handlers_error by blast
qed

lemma act_click_error:
  assumes "act_click call fu t page_url d = Some (Inl e, d')" and "np_doc (dl_page d) = Some ld"
  shows "nf_acted e"
  using assms(1) unfolding act_click_def
proof (rule then_error)
  show "nf_acted e'" if "deliver call t ''click'' d = Some (Inl e', d1)" for e' d1
    using deliver_error [OF that assms(2)] .
  fix u d1
  assume rest: "(case (ef_prevented (dl_flags d1), ul_parse (fu_lib fu) page_url) of
      (False, Inr page) \<Rightarrow>
        Option.bind (submit_default call fu (nt_node t) page (dl_page d1)) (\<lambda>(res2, pg2).
          case res2 of
            Inl e \<Rightarrow> Some (Inl e, d1\<lparr>dl_page := pg2\<rparr>)
          | Inr _ \<Rightarrow> map_option (\<lambda>pg3. (Inr (), d1\<lparr>dl_page := pg3\<rparr>)) (anchor_default fu (nt_node t) page pg2))
    | _ \<Rightarrow> Some (Inr (), d1)) = Some (Inl e, d')"
  then obtain page where "ul_parse (fu_lib fu) page_url = Inr page" "\<not> ef_prevented (dl_flags d1)"
    by (auto split: bool.split_asm sum.split_asm)
  with rest obtain res2 pg2 where "submit_default call fu (nt_node t) page (dl_page d1) = Some (res2, pg2)"
    "(case res2 of Inl e \<Rightarrow> Some (Inl e, d1\<lparr>dl_page := pg2\<rparr>)
      | Inr _ \<Rightarrow> map_option (\<lambda>pg3. (Inr (), d1\<lparr>dl_page := pg3\<rparr>)) (anchor_default fu (nt_node t) page pg2)) = Some (Inl e, d')"
    by (auto simp: bind_eq_Some_conv)
  then show "nf_acted e" by (cases res2) (auto dest: submit_default_error)
qed

lemma act_fill_error:
  assumes "act_fill call t d = Some (Inl e, d')" and "np_doc (dl_page d) = Some ld"
  shows "nf_acted e"
  using assms(1) unfolding act_fill_def
proof (rule then_error)
  show "nf_acted e'" if "deliver call t ''input'' d = Some (Inl e', d1)" for e' d1
    using deliver_error [OF that assms(2)] .
qed (auto simp: bind_eq_Some_conv detached_def failed_def with_doc_def split: if_split_asm option.split_asm
    dest: deliver_error)

text \<open>C16: A refusal that says nothing was done is right: the tree, the values of its elements, the
  journal of navigations, the listeners and the scripts are as before.\<close>

theorem refusal_leaves_page:
  assumes "native_act bz call fu doc_id t input page_url pg = Some (Inl e, pg')" and "\<not> nf_acted e"
  shows "untouched pg pg'"
proof -
  obtain res pg1 where pre: "prepare bz doc_id t input pg = Some (res, pg1)"
    using assms(1) by (auto simp: native_act_def bind_eq_Some_conv)
  from pre show ?thesis
  proof (cases rule: prepare_cases)
    case (refused e')
    with assms(1) pre show ?thesis by (simp add: native_act_def)
  next
    case (ready ld ld1 sr1 ld2)
    let ?d = "\<lparr>dl_page = pg1, dl_flags = no_flags, dl_callbacks = 0\<rparr>"
    have doc: "np_doc (dl_page ?d) = Some ld2" using ready by simp
    let ?run = "case input of NativeClick \<Rightarrow> act_click call fu t page_url ?d | _ \<Rightarrow> act_fill call t ?d"
    from assms(1) pre ready(1) obtain r2 d2 where run: "?run = Some (r2, d2)"
      by (cases ?run) (auto simp: native_act_def)
    with assms(1) pre ready(1) have "r2 = Inl e" by (cases r2) (auto simp: native_act_def)
    with run have "?run = Some (Inl e, d2)" by simp
    then have "nf_acted e" using act_click_error [OF _ doc] act_fill_error [OF _ doc] by (cases input) auto
    with assms(2) show ?thesis by simp
  qed
qed

lemma same_tree_reads:
  assumes "same_tree ld ld'"
  shows "live_attr ld' i a = live_attr ld i a" "tag_name ld' i = tag_name ld i" "type_of ld' i = type_of ld i"
    "control_denied ld' i input = control_denied ld i input" "connected ld' i = connected ld i"
    "attachment_revision ld' i = attachment_revision ld i" "live_snapshot ld' u title m sr = live_snapshot ld u title m sr"
  using assms
  by (simp_all add: same_tree_def live_attr_def tag_name_def type_of_def control_denied_def connected_def
      attachment_revision_def live_snapshot_def)

lemma still_same_True:
  assumes "still_same ld i token at = Some (True, ld')"
  shows "connected ld i = Some True \<and> fst (node_incarnation i ld) = Some token \<and> attachment_revision ld i = at"
proof -
  have "same_tree ld ld'" by (rule still_same_tree [OF assms])
  then show ?thesis using assms same_tree_reads(6) [of ld ld' i]
    by (auto simp: still_same_def bind_eq_Some_conv split: if_split_asm prod.split_asm)
qed

text \<open>The page shows the node as it was observed.\<close>

definition as_observed :: "64 word \<Rightarrow> native_target \<Rightarrow> live_doc \<Rightarrow> shadow_registry \<Rightarrow> bool" where
  "as_observed doc_id t ld sr \<longleftrightarrow>
     doc_id = nt_document t \<and> ld_revision ld = nt_revision t \<and> connected ld (nt_node t) = Some True
     \<and> fst (node_incarnation (nt_node t) ld) = Some (nt_incarnation t)
     \<and> attachment_revision ld (nt_node t) = nt_attachment t
     \<and> (\<exists>sn sr' n. live_snapshot ld [] [] True sr = Some (sn, sr') \<and> fingerprint sn (nt_node t) = Some (nt_fingerprint t)
          \<and> node_of sn (nt_node t) = Some n \<and> same_attributes (nd_attributes n) (nt_attributes t))"

lemma target_fresh_True:
  assumes "target_fresh doc_id t ld sr = Some (True, ld', sr')"
  shows "as_observed doc_id t ld sr"
proof -
  have ids: "doc_id = nt_document t" "ld_revision ld = nt_revision t"
    using assms by (auto simp: target_fresh_def split: if_split_asm)
  with assms obtain ok ld1 where same: "still_same ld (nt_node t) (nt_incarnation t) (nt_attachment t) = Some (ok, ld1)"
    by (auto simp: target_fresh_def bind_eq_Some_conv)
  with assms ids have ok: ok by (cases ok) (auto simp: target_fresh_def)
  note reads = same_tree_reads(7) [OF still_same_tree [OF same]]
  from assms ids same ok obtain sn sr1 fp where
    "live_snapshot ld [] [] True sr = Some (sn, sr1)" "fingerprint sn (nt_node t) = Some fp" "fp = nt_fingerprint t"
    "case node_of sn (nt_node t) of Some n \<Rightarrow> same_attributes (nd_attributes n) (nt_attributes t) | None \<Rightarrow> False"
    by (auto simp: target_fresh_def reads bind_eq_Some_conv)
  with still_same_True [of ld "nt_node t" "nt_incarnation t" "nt_attachment t" ld1] same ok ids show ?thesis
    by (auto simp: as_observed_def split: option.split_asm)
qed

text \<open>C15: Whenever an action took place, or may have, the element was the observed one, attached
  and unchanged on an unchanged tree; it was enabled, not a file or hidden control; and a password
  type received a credential of the broker and nothing else, every other type anything but one.\<close>

theorem native_act_checks_target:
  assumes "native_act bz call fu doc_id t input page_url pg = Some (res, pg')"
    and "\<And>e. res = Inl e \<Longrightarrow> nf_acted e"
  shows "\<exists>ld. np_doc pg = Some ld \<and> as_observed doc_id t ld (np_shadow pg)
    \<and> live_attr ld (nt_node t) ''disabled'' = None \<and> type_of ld (nt_node t) \<notin> {''file'', ''hidden''}
    \<and> (type_of ld (nt_node t) = ''password'' \<longleftrightarrow> is_credential input)"
proof -
  obtain r1 pg1 where pre: "prepare bz doc_id t input pg = Some (r1, pg1)"
    using assms(1) by (auto simp: native_act_def bind_eq_Some_conv)
  from pre show ?thesis
  proof (cases rule: prepare_cases)
    case (refused e)
    with assms pre show ?thesis by (simp add: native_act_def)
  next
    case (ready ld ld1 sr1 ld2)
    have "\<not> control_denied ld (nt_node t) input" using ready(5,6) same_tree_reads(4) by blast
    with ready(2) target_fresh_True [OF ready(4)] show ?thesis by (auto simp: control_denied_def)
  qed
qed

subsection \<open>How many listeners run\<close>

lemma invoke_callbacks: "dl_callbacks (snd (invoke call event cb d)) = dl_callbacks d"
  by (simp add: invoke_def split: prod.split)

lemma run_handlers_bound:
  "run_handlers call t kind stop cbs d = Some (res, d') \<Longrightarrow> dl_callbacks d \<le> 256 \<Longrightarrow> dl_callbacks d' \<le> 256"
proof (induction call t kind stop cbs d arbitrary: res d' rule: run_handlers.induct)
  case (2 call t kind stop cb cbs d)
  show ?case
  proof (cases "ef_immediate (dl_flags d) \<or> pending_navigation (dl_page d) \<or> np_doc (dl_page d) = None")
    case True
    with 2(2,3) show ?thesis by (auto split: if_split_asm option.split_asm)
  next
    case False
    then obtain ld where ld: "np_doc (dl_page d) = Some ld" by auto
    with 2(2) False obtain ok ld1 where both: "both_same t stop ld = Some (ok, ld1)" by (auto simp: bind_eq_Some_conv)
    let ?d1 = "with_doc ld1 d"
    let ?ev = "host_event (nt_node t) (fst stop) kind"
    obtain fine d2 where inv: "invoke call ?ev cb (?d1\<lparr>dl_callbacks := dl_callbacks ?d1 + 1\<rparr>) = (fine, d2)"
      by (cases "invoke call ?ev cb (?d1\<lparr>dl_callbacks := dl_callbacks ?d1 + 1\<rparr>)")
    then have count: "dl_callbacks d2 = dl_callbacks d + 1"
      using invoke_callbacks [of call ?ev cb "?d1\<lparr>dl_callbacks := dl_callbacks ?d1 + 1\<rparr>"] by (simp add: with_doc_def)
    have c1: "dl_callbacks ?d1 = dl_callbacks d" by (simp add: with_doc_def)
    have IH: "dl_callbacks d' \<le> 256" if "run_handlers call t kind stop cbs d2 = Some (res, d')" "ok" "fine"
        "\<not> 256 \<le> dl_callbacks d"
      using 2(1) [OF _ ld both refl refl _ _ refl inv [symmetric] _ that(1)] False that count c1 by auto
    show ?thesis using 2(2,3) False ld both inv count c1 IH
      by (auto simp: Let_def split: if_split_asm)
  qed
qed simp

lemma bind_post:
  assumes "Option.bind m (\<lambda>(res, d'). case res of Inl e \<Rightarrow> Some (Inl e, d') | Inr u \<Rightarrow> f d') = Some (r, d2)"
    and "\<And>r1 d'. m = Some (r1, d') \<Longrightarrow> P d'"
    and "\<And>d'. P d' \<Longrightarrow> f d' = Some (r, d2) \<Longrightarrow> P d2"
  shows "P d2"
proof -
  obtain res d' where m: "m = Some (res, d')" using assms(1) by (cases m) auto
  show ?thesis using assms m by (cases res) auto
qed

lemma run_route_bound:
  "run_route call t kind stops d = Some (res, d') \<Longrightarrow> dl_callbacks d \<le> 256 \<Longrightarrow> dl_callbacks d' \<le> 256"
proof (induction stops arbitrary: d)
  case (Cons stop stops)
  show ?case
  proof (cases "ef_stopped (dl_flags d) \<or> pending_navigation (dl_page d)")
    case False
    with Cons.prems(1) have "Option.bind
        (run_handlers call t kind stop (listeners_of (fst stop) (fst (snd stop)) kind (dl_page d)) d)
        (\<lambda>(res, d'). case res of Inl e \<Rightarrow> Some (Inl e, d') | Inr _ \<Rightarrow> run_route call t kind stops d') = Some (res, d')"
      by simp
    then show ?thesis
      by (rule bind_post [where P = "\<lambda>d. dl_callbacks d \<le> 256"])
        (use run_handlers_bound Cons.prems(2) Cons.IH in blast)+
  qed (use Cons.prems in auto)
qed simp

lemma with_doc_callbacks [simp]: "dl_callbacks (with_doc ld d) = dl_callbacks d"
  by (simp add: with_doc_def)

lemma deliver_bound:
  assumes "deliver call t kind d = Some (res, d')" and "dl_callbacks d \<le> 256"
  shows "dl_callbacks d' \<le> 256"
proof (cases "np_doc (dl_page d)")
  case (Some ld)
  obtain r ld' where "event_route route_limit (Some (nt_node t)) ld = (r, ld')" by fastforce
  with assms Some show ?thesis by (cases r) (auto simp: deliver_def dest: run_route_bound)
qed (use assms in \<open>simp add: deliver_def\<close>)

lemma act_click_bound:
  assumes "act_click call fu t page_url d = Some (res, d')" and "dl_callbacks d \<le> 256"
  shows "dl_callbacks d' \<le> 256"
proof -
  have "dl_callbacks d2 \<le> 256"
    if "dl_callbacks d1 \<le> 256" and r: "(case (ef_prevented (dl_flags d1), ul_parse (fu_lib fu) page_url) of
        (False, Inr page) \<Rightarrow>
          Option.bind (submit_default call fu (nt_node t) page (dl_page d1)) (\<lambda>(res2, pg2).
            case res2 of
              Inl e \<Rightarrow> Some (Inl e, d1\<lparr>dl_page := pg2\<rparr>)
            | Inr _ \<Rightarrow> map_option (\<lambda>pg3. (Inr (), d1\<lparr>dl_page := pg3\<rparr>)) (anchor_default fu (nt_node t) page pg2))
      | _ \<Rightarrow> Some (Inr (), d1)) = Some (res, d2)" for d1 d2
  proof (cases "\<exists>page. \<not> ef_prevented (dl_flags d1) \<and> ul_parse (fu_lib fu) page_url = Inr page")
    case True
    then obtain page where "\<not> ef_prevented (dl_flags d1)" "ul_parse (fu_lib fu) page_url = Inr page" by blast
    moreover from calculation r obtain res2 pg2 where "submit_default call fu (nt_node t) page (dl_page d1) = Some (res2, pg2)"
      by (auto simp: bind_eq_Some_conv)
    ultimately show ?thesis using that(1) r by (cases res2) auto
  qed (use that in \<open>auto split: bool.split_asm sum.split_asm\<close>)
  note after = this
  show ?thesis
  proof (rule bind_post [where P = "\<lambda>d. dl_callbacks d \<le> 256", OF assms(1) [unfolded act_click_def]])
    show "dl_callbacks d1 \<le> 256" if "deliver call t ''click'' d = Some (r1, d1)" for r1 d1
      using deliver_bound [OF that assms(2)] .
  qed (erule (1) after)
qed

lemma act_fill_bound:
  assumes "act_fill call t d = Some (res, d')" and "dl_callbacks d \<le> 256"
  shows "dl_callbacks d' \<le> 256"
proof -
  have "dl_callbacks d2 \<le> 256"
    if "dl_callbacks d1 \<le> 256"
      and "(if pending_navigation (dl_page d1)
        then Some (Inl (failed ''NATIVE_NAVIGATION_DURING_FILL'' True), d1)
        else (case np_doc (dl_page d1) of
                None \<Rightarrow> Some (Inl detached, d1)
              | Some ld \<Rightarrow>
                  Option.bind (still_same ld (nt_node t) (nt_incarnation t) (nt_attachment t)) (\<lambda>(ok, ld').
                    if \<not> ok then Some (Inl detached, with_doc ld' d1)
                    else deliver call t ''change'' (with_doc ld' d1)))) = Some (res, d2)" for d1 d2
    using that by (auto simp: bind_eq_Some_conv split: if_split_asm option.split_asm dest!: deliver_bound)
  note after = this
  show ?thesis
  proof (rule bind_post [where P = "\<lambda>d. dl_callbacks d \<le> 256", OF assms(1) [unfolded act_fill_def]])
    show "dl_callbacks d1 \<le> 256" if "deliver call t ''input'' d = Some (r1, d1)" for r1 d1
      using deliver_bound [OF that assms(2)] .
  qed (erule (1) after)
qed

text \<open>An action runs at most 256 listeners of its own events, whatever the page registers while it runs.\<close>

theorem listeners_bounded:
  assumes "native_act bz call fu doc_id t input page_url pg = Some (Inr rc, pg')"
  shows "nr_callbacks rc \<le> 256"
proof -
  obtain r1 pg1 where pre: "prepare bz doc_id t input pg = Some (r1, pg1)"
    using assms by (auto simp: native_act_def bind_eq_Some_conv)
  let ?d = "\<lparr>dl_page = pg1, dl_flags = no_flags, dl_callbacks = 0\<rparr>"
  let ?run = "case input of NativeClick \<Rightarrow> act_click call fu t page_url ?d | _ \<Rightarrow> act_fill call t ?d"
  have "r1 = Inr ()" using assms pre by (cases r1) (auto simp: native_act_def)
  then obtain r2 d2 where run: "?run = Some (r2, d2)" using assms pre by (cases ?run) (auto simp: native_act_def)
  then have "dl_callbacks d2 \<le> 256" by (cases input) (auto dest!: act_click_bound act_fill_bound)
  moreover have "nr_callbacks rc = dl_callbacks d2"
    using assms pre \<open>r1 = _\<close> run by (cases r2) (auto simp: native_act_def)
  ultimately show ?thesis by simp
qed

subsection \<open>Observing, then acting\<close>

lemma incarnation_known:
  "node_incarnation i ld = (Some token, ld') \<Longrightarrow>
     dict_get (ld_incarnations ld') i = Some token \<and> live_node ld' i \<noteq> None
     \<and> (\<forall>j v. dict_get (ld_incarnations ld) j = Some v \<longrightarrow> dict_get (ld_incarnations ld') j = Some v)"
  by (auto simp: node_incarnation_def dict_get_insert split: option.split_asm)

lemma incarnation_none: "node_incarnation i ld = (None, ld') \<Longrightarrow> ld' = ld"
  by (auto simp: node_incarnation_def split: option.split_asm)

lemma identities_known:
  "identities js ld = Some (ids, ld') \<Longrightarrow>
     same_tree ld ld' \<and> (\<forall>j v. dict_get (ld_incarnations ld) j = Some v \<longrightarrow> dict_get (ld_incarnations ld') j = Some v)
     \<and> (\<forall>j token at. dict_get ids j = Some (token, at) \<longrightarrow>
          connected ld j = Some True \<and> live_node ld j \<noteq> None \<and> dict_get (ld_incarnations ld') j = Some token
          \<and> at = attachment_revision ld j)"
proof (induction js arbitrary: ld ids ld')
  case (Cons i js)
  then obtain c where c: "connected ld i = Some c" by (auto simp: bind_eq_Some_conv)
  show ?case
  proof (cases "\<not> c \<or> fst (node_incarnation i ld) = None")
    case True
    then have "identities js ld = Some (ids, ld')"
      using Cons.prems c by (auto split: prod.split_asm if_split_asm dest!: incarnation_none)
    from Cons.IH [OF this] show ?thesis .
  next
    case False
    then obtain token ld1 where inc: "node_incarnation i ld = (Some token, ld1)" by (cases "node_incarnation i ld") auto
    with Cons.prems c False obtain ids1 where rest: "identities js ld1 = Some (ids1, ld')"
      and ids: "ids = (i, token, attachment_revision ld1 i) # ids1" by auto
    note tree = incarnation_tree [OF inc] and known = incarnation_known [OF inc]
    have node: "live_node ld j = live_node ld1 j" for j using tree by (simp add: same_tree_def)
    from Cons.IH [OF rest] known same_tree_reads(5,6) [OF tree] same_tree_trans [OF tree] c False ids node
    show ?thesis by (auto split: if_split_asm)
  qed
qed simp

lemma assignment_roots [simp]: "sr_roots (record_assignment m slot as sr) = sr_roots sr"
  by (simp add: record_assignment_def Let_def)

lemma plans_roots: "slot_plans nodes m slots named rest sr = (plans, sr') \<Longrightarrow> sr_roots sr' = sr_roots sr"
  by (induction slots arbitrary: named rest sr plans sr') (auto simp: Let_def split: prod.split_asm option.split_asm if_split_asm)

lemma distribute_roots: "distribute_slots nodes tops light m sr = Some (nodes', sr') \<Longrightarrow> sr_roots sr' = sr_roots sr"
  by (auto simp: distribute_slots_def dest: plans_roots split: if_split_asm prod.split_asm)

lemma compose_host_roots: "compose_host doc h st = Some st' \<Longrightarrow> sr_roots (snd st') = sr_roots (snd st)"
  by (auto simp: compose_host_def bind_eq_Some_conv Let_def dest: distribute_roots split: if_split_asm)

lemma compose_hosts_roots: "compose_hosts doc hs st = Some st' \<Longrightarrow> sr_roots (snd st') = sr_roots (snd st)"
  by (induction hs arbitrary: st) (auto simp: bind_eq_Some_conv dest!: compose_host_roots)

lemma build_again:
  assumes "build_from_render doc u title m sr = Some (sn, sr')"
  shows "\<exists>sn2. build_from_render doc u2 title2 m sr' = Some (sn2, sr') \<and> sn_nodes sn2 = sn_nodes sn"
proof -
  let ?root = "case rd_html_parent doc of Some p \<Rightarrow> p | None \<Rightarrow> rd_html doc"
  from assms obtain cl st filled where
    cl: "collect_from_render doc [(?root, None)] \<lparr>cl_nodes = [], cl_order = [], cl_body = None, cl_head = None\<rparr> = Some cl"
    and comp: "compose_shadow_trees doc (cl_nodes cl, cl_order cl) sr = Some (st, sr')"
    and fill: "fill_element_text (fst st) (as_u32 ?root) = Some filled"
    and nodes: "sn_nodes sn = (if m then mask_password_inputs filled else filled)"
    by (auto simp: build_from_render_def Let_def bind_eq_Some_conv)
  have roots: "sr_roots sr' = sr_roots sr"
    using compose_hosts_roots [OF comp [unfolded compose_shadow_trees_def]] by simp
  then have same: "sr'\<lparr>sr_assignments := [], sr_assigned := []\<rparr> = sr\<lparr>sr_assignments := [], sr_assigned := []\<rparr>"
    by (cases sr, cases sr') simp
  from comp have "compose_shadow_trees doc (cl_nodes cl, cl_order cl) sr' = Some (st, sr')"
    by (simp add: compose_shadow_trees_def roots same)
  with cl fill nodes show ?thesis by (simp add: build_from_render_def Let_def)
qed

lemma deep_text_nodes: "sn_nodes a = sn_nodes b \<Longrightarrow> fingerprint a i = fingerprint b i"
  by (simp add: fingerprint_def node_of_def split: option.split)

lemma same_attributes_refl [simp]: "same_attributes a a"
  by (simp add: same_attributes_def list_all_iff)

text \<open>C17: A target taken from an observation is accepted by the next action as long as nothing
  changed in between: the two readings of the page agree.\<close>

theorem observed_target_is_fresh:
  assumes "native_observe bz doc_id u ld sr = Some (ob, ld', sr')" and "observation_target ob i = Some (Some t)"
  shows "\<exists>ld2. target_fresh doc_id t ld' sr' = Some (True, ld2, sr') \<and> same_tree ld ld2"
proof -
  from assms(1) obtain title sn ids where
    snap: "live_snapshot ld u title True sr = Some (sn, sr')"
    and ids: "identities (map fst (sn_nodes sn)) ld = Some (ids, ld')"
    and ob: "ob = \<lparr>no_snapshot = sn, no_document = doc_id, no_revision = ld_revision ld', no_identities = ids\<rparr>"
    by (auto simp: native_observe_def bind_eq_Some_conv)
  from assms(2) obtain token at fp n where t: "dict_get ids i = Some (token, at)" "fingerprint sn i = Some fp"
    "node_of sn i = Some n"
    "t = \<lparr>nt_document = doc_id, nt_revision = ld_revision ld', nt_node = i, nt_incarnation = token,
          nt_attachment = at, nt_fingerprint = fp, nt_attributes = nd_attributes n\<rparr>"
    by (auto simp: observation_target_def ob split: option.split_asm)
  have known: "same_tree ld ld'" "connected ld i = Some True" "live_node ld i \<noteq> None"
    "dict_get (ld_incarnations ld') i = Some token" "at = attachment_revision ld i"
    using identities_known [OF ids] t(1) by auto
  have inc: "node_incarnation i ld' = (Some token, ld')"
    using known by (auto simp: node_incarnation_def same_tree_def split: option.split)
  have same: "still_same ld' i token at = Some (True, ld')"
    using known inc same_tree_reads(5,6) [OF known(1)] by (simp add: still_same_def)
  obtain sn2 where sn2: "live_snapshot ld' [] [] True sr' = Some (sn2, sr')" "sn_nodes sn2 = sn_nodes sn"
    using build_again [OF snap [unfolded live_snapshot_def], of "[]" "[]"] same_tree_reads(7) [OF known(1)]
    by (auto simp: live_snapshot_def)
  have "target_fresh doc_id t ld' sr' = Some (True, ld', sr')"
    using same sn2 t deep_text_nodes [OF sn2(2), of i] by (simp add: target_fresh_def node_of_def)
  with known(1) show ?thesis by blast
qed

subsection \<open>Two pages\<close>

definition put_attr :: "nat \<Rightarrow> string \<Rightarrow> string \<Rightarrow> base_document \<Rightarrow> base_document" where
  "put_attr i a v d =
     (case rd_node d i of
        Some r \<Rightarrow>
          (case rn_data r of
             RElement tag attrs \<Rightarrow>
               d\<lparr>rd_node := (rd_node d)(i := Some (r\<lparr>rn_data := RElement tag (AList.update a v attrs)\<rparr>))\<rparr>
           | _ \<Rightarrow> d)
      | None \<Rightarrow> d)"

definition plain_blitz :: blitz where
  "plain_blitz =
     \<lparr>bz_query = (\<lambda>sel d. None), bz_set_attribute = put_attr, bz_create_text = (\<lambda>txt d. (0, d)),
      bz_append = (\<lambda>p c d. d), bz_remove = (\<lambda>i d. d)\<rparr>"

definition page_of :: "(nat \<times> render_node) list \<Rightarrow> (nat \<times> nat) list \<Rightarrow> live_doc" where
  "page_of nodes parents =
     live_doc_of \<lparr>rd_node = map_of nodes, rd_html = 1, rd_html_parent = Some 0, bd_parent = map_of parents\<rparr>"

text \<open>A button that calls itself a password field.\<close>

definition button_page :: live_doc where
  "button_page = page_of
     [(0, \<lparr>rn_data = RDocument, rn_children = [1]\<rparr>),
      (1, \<lparr>rn_data = RElement ''html'' [], rn_children = [2]\<rparr>),
      (2, \<lparr>rn_data = RElement ''button'' [(''type'', ''password'')], rn_children = []\<rparr>)]
     [(1, 0), (2, 1)]"

definition textarea_page :: live_doc where
  "textarea_page = page_of
     [(0, \<lparr>rn_data = RDocument, rn_children = [1]\<rparr>),
      (1, \<lparr>rn_data = RElement ''html'' [], rn_children = [2]\<rparr>),
      (2, \<lparr>rn_data = RElement ''form'' [], rn_children = [3]\<rparr>),
      (3, \<lparr>rn_data = RElement ''textarea'' [(''name'', ''t'')], rn_children = [4]\<rparr>),
      (4, \<lparr>rn_data = RText ''original'', rn_children = []\<rparr>)]
     [(1, 0), (2, 1), (3, 2), (4, 3)]"

definition no_shadow :: shadow_registry where
  "no_shadow = \<lparr>sr_roots = [], sr_assignments = [], sr_assigned = []\<rparr>"

definition silent_call :: "(unit, unit) listener_call" where
  "silent_call cb event fl pg = (True, [], pg)"

definition no_urls :: form_urls where
  "no_urls =
     \<lparr>fu_lib = \<lparr>ul_parse = (\<lambda>s. Inl []), ul_join = (\<lambda>u s. Inl []), ul_set_path = (\<lambda>s u. u), ul_drop_query = id,
                ul_drop_fragment = id, ul_form = (\<lambda>ps. [])\<rparr>, fu_query = (\<lambda>ps u. u)\<rparr>"

definition fresh_page :: "live_doc \<Rightarrow> (unit, unit) native_page" where
  "fresh_page ld =
     \<lparr>np_doc = Some ld, np_dirty = False, np_mutations = [], np_shadow = no_shadow, np_listeners = [], np_script = ()\<rparr>"

text \<open>Observe, act on node \<open>i\<close>, and read the page again.\<close>

definition observe_and_act ::
  "live_doc \<Rightarrow> nat \<Rightarrow> native_input \<Rightarrow> ((native_failure + native_receipt) \<times> live_doc option) option" where
  "observe_and_act ld i input =
     Option.bind (native_observe plain_blitz 7 [] ld no_shadow) (\<lambda>(ob, ld', sr').
     Option.bind (observation_target ob i) (\<lambda>t.
     Option.bind t (\<lambda>target.
     map_option (\<lambda>(res, pg). (res, np_doc pg))
       (native_act plain_blitz silent_call no_urls 7 target input [] (fresh_page ld')))))"

definition shown_value :: "live_doc \<Rightarrow> nat \<Rightarrow> string option" where
  "shown_value ld i =
     Option.bind (live_snapshot ld [] [] True no_shadow) (\<lambda>(sn, sr).
     Option.bind (node_of sn i) (\<lambda>n. node_attr n ''value''))"

definition acted_ok :: "((native_failure + native_receipt) \<times> live_doc option) option \<Rightarrow> (live_doc \<Rightarrow> bool) \<Rightarrow> bool" where
  "acted_ok out P =
     (case out of Some (Inr rc, Some ld) \<Rightarrow> P ld | _ \<Rightarrow> False)"

text \<open>
  The broker's secret goes to any element whose \<open>type\<close> attribute is \<open>password\<close>, but the snapshot
  masks the value of \<open>input\<close> elements only: on such a button the secret is in the next observation.
\<close>

theorem credential_shown_outside_input:
  "acted_ok (observe_and_act button_page 2 (NativeFillCredential ''s3cret'')) (\<lambda>ld. shown_value ld 2 = Some ''s3cret'')"
  by code_simp

text \<open>Text typed into a \<open>textarea\<close> goes to an attribute; a submission sends the text it was served with.\<close>

theorem typed_textarea_not_sent:
  "acted_ok (observe_and_act textarea_page 3 (NativeFill ''typed''))
     (\<lambda>ld. Option.bind (live_snapshot ld [] [] False no_shadow) (\<lambda>(sn, sr). serialize_form sn 2)
             = Some [(''t'', ''original'')])"
  by code_simp

subsection \<open>Witnesses\<close>

definition button_observed :: "native_observation \<times> live_doc \<times> shadow_registry" where
  "button_observed = the (native_observe plain_blitz 7 [] button_page no_shadow)"

definition button_target :: native_target where
  "button_target = the (the (observation_target (fst button_observed) 2))"

definition button_act :: "native_input \<Rightarrow> ((native_failure + native_receipt) \<times> (unit, unit) native_page) option" where
  "button_act input =
     native_act plain_blitz silent_call no_urls 7 button_target input [] (fresh_page (fst (snd button_observed)))"

lemma button_runs:
  "\<exists>rc pg. button_act (NativeFillCredential ''x'') = Some (Inr rc, pg)"
  "\<exists>e pg. button_act NativeClick = Some (Inl e, pg) \<and> \<not> nf_acted e"
proof -
  have "case button_act (NativeFillCredential ''x'') of Some (Inr rc, pg) \<Rightarrow> True | _ \<Rightarrow> False"
    "case button_act NativeClick of Some (Inl e, pg) \<Rightarrow> \<not> nf_acted e | _ \<Rightarrow> False" by code_simp+
  then show "\<exists>rc pg. button_act (NativeFillCredential ''x'') = Some (Inr rc, pg)"
    "\<exists>e pg. button_act NativeClick = Some (Inl e, pg) \<and> \<not> nf_acted e"
    by (auto split: option.split_asm prod.split_asm sum.split_asm)
qed

theorem refusal_leaves_page_witness:
  "\<exists>e pg. button_act NativeClick = Some (Inl e, pg) \<and> untouched (fresh_page (fst (snd button_observed))) pg"
  using button_runs(2) refusal_leaves_page unfolding button_act_def by blast

theorem native_act_checks_target_witness:
  "\<exists>ld. np_doc (fresh_page (fst (snd button_observed))) = Some ld \<and> as_observed 7 button_target ld no_shadow
    \<and> type_of ld (nt_node button_target) = ''password''"
proof -
  obtain rc pg where "button_act (NativeFillCredential ''x'') = Some (Inr rc, pg)" using button_runs(1) by blast
  from native_act_checks_target [OF this [unfolded button_act_def]] show ?thesis
    by (auto simp: is_credential_def fresh_page_def)
qed

theorem listeners_bounded_witness:
  "\<exists>rc pg. button_act (NativeFillCredential ''x'') = Some (Inr rc, pg) \<and> nr_callbacks rc \<le> 256"
  using button_runs(1) listeners_bounded unfolding button_act_def by blast

theorem observed_target_is_fresh_witness:
  "\<exists>ld2. target_fresh 7 button_target (fst (snd button_observed)) (snd (snd button_observed))
     = Some (True, ld2, snd (snd button_observed)) \<and> same_tree button_page ld2"
proof -
  have "native_observe plain_blitz 7 [] button_page no_shadow \<noteq> None"
    "case observation_target (fst button_observed) 2 of Some (Some t) \<Rightarrow> True | _ \<Rightarrow> False" by code_simp+
  then have "native_observe plain_blitz 7 [] button_page no_shadow
      = Some (fst button_observed, fst (snd button_observed), snd (snd button_observed))"
    "observation_target (fst button_observed) 2 = Some (Some button_target)"
    by (auto simp: button_observed_def button_target_def split: option.split_asm)
  from observed_target_is_fresh [OF this] show ?thesis .
qed

end
