(* ===== verification/JobQueue.thy ===== *)
theory JobQueue
  imports Complex_Main Prelude "HOL-Library.Word" "HOL-Library.Multiset"
begin

text \<open>
  \<open>oxibrowser-core/src/js/job_queue.rs\<close>, the timer functions of \<open>js/runtime.rs\<close> and the bounded
  pump of \<open>js/runtime/native_action.rs\<close>: jobs and timers of a page. Running a job or a callback is an
  argument (it may queue more of both); the clock is a function from readings to instants, in
  nanoseconds. The full drain with its futures (\<open>run_jobs\<close>) is an argument too.
\<close>

section \<open>The queue\<close>

record 'c js_timer =
  tm_deadline :: int
  tm_id :: "64 word"
  tm_interval :: bool
  tm_callback :: 'c
  tm_interval_ms :: "nat option"

datatype 'j js_job =
    PromiseJob 'j | GenericJob 'j | TimeoutJob 'j | IntervalJob 'j | AsyncJob 'j | CleanupJob 'j

record ('j, 'c) job_queue =
  jq_jobs :: "'j js_job list"
  jq_timers :: "'c js_timer list"
  jq_next :: "64 word"

definition job_queue_new :: "('j, 'c) job_queue" where
  "job_queue_new = \<lparr>jq_jobs = [], jq_timers = [], jq_next = 1\<rparr>"

definition next_timer_deadline :: "('j, 'c) job_queue \<Rightarrow> int option" where
  "next_timer_deadline q = (case jq_timers q of [] \<Rightarrow> None | t # ts \<Rightarrow> Some (tm_deadline t))"

definition pop_due_timers :: "int \<Rightarrow> ('j, 'c) job_queue \<Rightarrow> 'c js_timer list \<times> ('j, 'c) job_queue" where
  "pop_due_timers now q =
     (filter (\<lambda>t. tm_deadline t \<le> now) (jq_timers q), q\<lparr>jq_timers := filter (\<lambda>t. \<not> tm_deadline t \<le> now) (jq_timers q)\<rparr>)"

definition schedule_timer ::
  "int \<Rightarrow> 'c \<Rightarrow> bool \<Rightarrow> nat option \<Rightarrow> ('j, 'c) job_queue \<Rightarrow> 64 word \<times> ('j, 'c) job_queue" where
  "schedule_timer deadline cb interval ms q =
     (jq_next q,
      q\<lparr>jq_next := jq_next q + 1,
        jq_timers := sort_key tm_deadline (jq_timers q @
          [\<lparr>tm_deadline = deadline, tm_id = jq_next q, tm_interval = interval, tm_callback = cb, tm_interval_ms = ms\<rparr>])\<rparr>)"

definition cancel_timer :: "64 word \<Rightarrow> ('j, 'c) job_queue \<Rightarrow> bool \<times> ('j, 'c) job_queue" where
  "cancel_timer i q =
     (let kept = filter (\<lambda>t. tm_id t \<noteq> i) (jq_timers q)
      in (length kept \<noteq> length (jq_timers q), q\<lparr>jq_timers := kept\<rparr>))"

definition clear_all_timers :: "('j, 'c) job_queue \<Rightarrow> ('j, 'c) job_queue" where
  "clear_all_timers q = q\<lparr>jq_timers := []\<rparr>"

definition timer_count :: "('j, 'c) job_queue \<Rightarrow> nat" where
  "timer_count q = length (jq_timers q)"

definition microtask_count :: "('j, 'c) job_queue \<Rightarrow> nat" where
  "microtask_count q = length (jq_jobs q)"

definition enqueue_job :: "'j js_job \<Rightarrow> ('j, 'c) job_queue \<Rightarrow> ('j, 'c) job_queue" where
  "enqueue_job j q = (case j of CleanupJob x \<Rightarrow> q | _ \<Rightarrow> q\<lparr>jq_jobs := jq_jobs q @ [j]\<rparr>)"

definition is_async_job :: "'j js_job \<Rightarrow> bool" where
  "is_async_job j = (case j of AsyncJob x \<Rightarrow> True | _ \<Rightarrow> False)"

section \<open>The thread\<close>

record ('j, 'c, 's) js_thread =
  jt_queue :: "('j, 'c) job_queue"
  jt_state :: 's
  jt_tick :: nat \<comment> \<open>readings of the clock so far\<close>

record ('j, 'c, 's) js_calls =
  ca_clock :: "nat \<Rightarrow> int"
  ca_job :: "'j js_job \<Rightarrow> ('j, 'c, 's) js_thread \<Rightarrow> bool \<times> ('j, 'c, 's) js_thread"
  ca_timer :: "'c \<Rightarrow> ('j, 'c, 's) js_thread \<Rightarrow> bool \<times> ('j, 'c, 's) js_thread"
  ca_run_jobs :: "('j, 'c, 's) js_thread \<Rightarrow> ('j, 'c, 's) js_thread"
  ca_settle :: "('j, 'c, 's) js_thread \<Rightarrow> ('j, 'c, 's) js_thread"

definition read_clock :: "('j, 'c, 's) js_calls \<Rightarrow> ('j, 'c, 's) js_thread \<Rightarrow> int \<times> ('j, 'c, 's) js_thread" where
  "read_clock ca th = (ca_clock ca (jt_tick th), th\<lparr>jt_tick := jt_tick th + 1\<rparr>)"

definition on_queue ::
  "(('j, 'c) job_queue \<Rightarrow> 'a \<times> ('j, 'c) job_queue) \<Rightarrow> ('j, 'c, 's) js_thread \<Rightarrow> 'a \<times> ('j, 'c, 's) js_thread" where
  "on_queue f th = (let (x, q) = f (jt_queue th) in (x, th\<lparr>jt_queue := q\<rparr>))"

text \<open>The first argument is how many jobs may still run.\<close>

fun run_bounded_jobs ::
  "nat \<Rightarrow> ('j, 'c, 's) js_calls \<Rightarrow> ('j, 'c, 's) js_thread \<Rightarrow> (unit + nat) \<times> ('j, 'c, 's) js_thread" where
  "run_bounded_jobs 0 ca th = (if jq_jobs (jt_queue th) = [] then Inr 0 else Inl (), th)"
| "run_bounded_jobs (Suc k) ca th =
     (case jq_jobs (jt_queue th) of
        [] \<Rightarrow> (Inr 0, th)
      | j # rest \<Rightarrow>
          if is_async_job j then (Inl (), th)
          else (case ca_job ca j (th\<lparr>jt_queue := (jt_queue th)\<lparr>jq_jobs := rest\<rparr>\<rparr>) of
                  (False, th1) \<Rightarrow> (Inl (), th1)
                | (True, th1) \<Rightarrow>
                    (case run_bounded_jobs k ca th1 of
                       (Inl e, th2) \<Rightarrow> (Inl e, th2)
                     | (Inr n, th2) \<Rightarrow> (Inr (n + 1), th2))))"

definition ns_of_ms :: "nat \<Rightarrow> int" where
  "ns_of_ms ms = int ms * 1000000"

text \<open>An interval is queued again, as a new timer.\<close>

definition reschedule ::
  "('j, 'c, 's) js_calls \<Rightarrow> nat \<Rightarrow> 'c js_timer \<Rightarrow> ('j, 'c, 's) js_thread \<Rightarrow> ('j, 'c, 's) js_thread" where
  "reschedule ca dflt t th =
     (if tm_interval t
      then (let ms = max 1 (case tm_interval_ms t of Some m \<Rightarrow> m | None \<Rightarrow> dflt);
                (now, th1) = read_clock ca th
            in snd (on_queue (schedule_timer (now + ns_of_ms ms) (tm_callback t) True (Some ms)) th1))
      else th)"

section \<open>The bounded pump\<close>

definition pump_failure :: string where
  "pump_failure = ''NATIVE_JOB_FAILED_OR_LIMIT''"

fun pump_timers ::
  "('j, 'c, 's) js_calls \<Rightarrow> int \<Rightarrow> 'c js_timer list \<Rightarrow> nat \<Rightarrow> ('j, 'c, 's) js_thread
    \<Rightarrow> (string + nat) \<times> ('j, 'c, 's) js_thread" where
  "pump_timers ca start [] budget th = (Inr budget, th)"
| "pump_timers ca start (t # ts) budget th =
     (if budget = 0 then (Inl pump_failure, th)
      else (let (now, th1) = read_clock ca th
            in if now - start > ns_of_ms 500 then (Inl pump_failure, th1)
               else (case ca_timer ca (tm_callback t) th1 of
                       (False, th2) \<Rightarrow> (Inl pump_failure, th2)
                     | (True, th2) \<Rightarrow> pump_timers ca start ts (budget - 1) (reschedule ca 1 t th2))))"

lemma pump_timers_budget: "pump_timers ca start ts budget th = (Inr b, th') \<Longrightarrow> b + length ts = budget"
  by (induction ca start ts budget th arbitrary: b th' rule: pump_timers.induct)
    (auto simp: Let_def read_clock_def split: if_splits prod.splits bool.splits)

lemma bounded_jobs_count: "run_bounded_jobs k ca th = (Inr n, th') \<Longrightarrow> n \<le> k"
  by (induction k ca th arbitrary: n th' rule: run_bounded_jobs.induct)
    (auto split: if_splits prod.splits bool.splits list.splits sum.splits)

function pump_loop ::
  "('j, 'c, 's) js_calls \<Rightarrow> int \<Rightarrow> nat \<Rightarrow> ('j, 'c, 's) js_thread \<Rightarrow> (string + unit) \<times> ('j, 'c, 's) js_thread" where
  "pump_loop ca start budget th =
     (case run_bounded_jobs budget ca th of
        (Inl e, th1) \<Rightarrow> (Inl pump_failure, th1)
      | (Inr n, th1) \<Rightarrow>
          (let (now, th2) = read_clock ca th1; (due, th3) = on_queue (pop_due_timers now) th2
           in if due = [] then (Inr (), th3)
              else (case pump_timers ca start due (budget - n) th3 of
                      (Inl e, th4) \<Rightarrow> (Inl e, th4)
                    | (Inr left, th4) \<Rightarrow> pump_loop ca start left th4)))"
  by pat_completeness auto
termination
proof (relation "measure (\<lambda>(ca, start, budget, th). budget)", goal_cases)
  case (2 ca start budget th res th1 n x now th2 y due th3 res2 th4 left)
  then show ?case
    using pump_timers_budget [of ca start due "budget - n" th3 left th4]
    by (cases due) auto
qed simp

definition pump :: "('j, 'c, 's) js_calls \<Rightarrow> ('j, 'c, 's) js_thread \<Rightarrow> (string + unit) \<times> ('j, 'c, 's) js_thread" where
  "pump ca th = (let (start, th1) = read_clock ca th in pump_loop ca start 256 th1)"

section \<open>The drain of the runtime\<close>

fun drain_due :: "('j, 'c, 's) js_calls \<Rightarrow> 'c js_timer list \<Rightarrow> ('j, 'c, 's) js_thread \<Rightarrow> ('j, 'c, 's) js_thread" where
  "drain_due ca [] th = th"
| "drain_due ca (t # ts) th = drain_due ca ts (reschedule ca 0 t (snd (ca_timer ca (tm_callback t) th)))"

text \<open>At most 101 rounds; the first argument is how many are left.\<close>

fun drain_rounds :: "nat \<Rightarrow> ('j, 'c, 's) js_calls \<Rightarrow> ('j, 'c, 's) js_thread \<Rightarrow> ('j, 'c, 's) js_thread" where
  "drain_rounds 0 ca th = th"
| "drain_rounds (Suc k) ca th =
     (let (now, th1) = read_clock ca th; (due, th2) = on_queue (pop_due_timers now) th1
      in if due = [] then th2 else drain_rounds k ca (ca_run_jobs ca (drain_due ca due th2)))"

definition drain_timers :: "('j, 'c, 's) js_calls \<Rightarrow> ('j, 'c, 's) js_thread \<Rightarrow> ('j, 'c, 's) js_thread" where
  "drain_timers ca th = drain_rounds 101 ca (ca_settle ca th)"

section \<open>Timer functions\<close>

datatype js_number = JsNaN | JsInfinite bool \<comment> \<open>negative\<close> | JsFinite rat

definition max_timer_delay_ms :: nat where
  "max_timer_delay_ms = 86400000"

definition clamp_delay_ms :: "js_number \<Rightarrow> nat" where
  "clamp_delay_ms v =
     (case v of
        JsNaN \<Rightarrow> 0
      | JsInfinite neg \<Rightarrow> if neg then 0 else max_timer_delay_ms
      | JsFinite x \<Rightarrow> if x \<le> 0 then 0 else min (nat \<lfloor>x\<rfloor>) max_timer_delay_ms)"

text \<open>\<open>as u64\<close>\<close>

definition to_u64 :: "js_number \<Rightarrow> 64 word" where
  "to_u64 v =
     (case v of
        JsNaN \<Rightarrow> 0
      | JsInfinite neg \<Rightarrow> if neg then 0 else - 1
      | JsFinite x \<Rightarrow> word_of_int (max 0 (min \<lfloor>x\<rfloor> (2 ^ 64 - 1))))"

text \<open>\<open>setTimeout\<close> and \<open>setInterval\<close>; the callback is \<open>None\<close> when the first argument is not callable.\<close>

definition set_timer ::
  "('j, 'c, 's) js_calls \<Rightarrow> bool \<Rightarrow> 'c option \<Rightarrow> js_number \<Rightarrow> ('j, 'c, 's) js_thread
    \<Rightarrow> 64 word option \<times> ('j, 'c, 's) js_thread" where
  "set_timer ca interval cb v th =
     (case cb of
        None \<Rightarrow> (None, th)
      | Some f \<Rightarrow>
          (let ms = clamp_delay_ms v; (now, th1) = read_clock ca th;
               (i, th2) = on_queue (schedule_timer (now + ns_of_ms ms) f interval (if interval then Some ms else None)) th1
           in (Some i, th2)))"

definition clear_timer :: "js_number option \<Rightarrow> ('j, 'c, 's) js_thread \<Rightarrow> ('j, 'c, 's) js_thread" where
  "clear_timer v th = (case v of Some x \<Rightarrow> snd (on_queue (cancel_timer (to_u64 x)) th) | None \<Rightarrow> th)"

section \<open>The invariant of the queue\<close>

definition timers_ok :: "('j, 'c) job_queue \<Rightarrow> bool" where
  "timers_ok q \<longleftrightarrow>
     sorted (map tm_deadline (jq_timers q)) \<and> distinct (map tm_id (jq_timers q))
     \<and> (\<forall>t \<in> set (jq_timers q). unat (tm_id t) < unat (jq_next q))"

lemma timers_ok_new: "timers_ok job_queue_new"
  by (simp add: timers_ok_def job_queue_new_def)

lemma sorted_filter_deadline: "sorted (map tm_deadline ts) \<Longrightarrow> sorted (map tm_deadline (filter P ts))"
  by (induction ts) auto

lemma distinct_filter_id: "distinct (map tm_id ts) \<Longrightarrow> distinct (map tm_id (filter P ts))"
  by (induction ts) auto

lemma timers_ok_filter:
  "timers_ok q \<Longrightarrow> timers_ok (q\<lparr>jq_timers := filter P (jq_timers q)\<rparr>)"
  by (simp add: timers_ok_def sorted_filter_deadline distinct_filter_id)

lemma set_sort_key [simp]: "set (sort_key f xs) = set xs"
  by simp

lemma timers_ok_schedule:
  assumes "timers_ok q" and "unat (jq_next q) < 2 ^ 64 - 1" and "schedule_timer d cb iv ms q = (i, q')"
  shows "timers_ok q' \<and> i = jq_next q \<and> unat (jq_next q') = unat (jq_next q) + 1"
proof -
  let ?t = "\<lparr>tm_deadline = d, tm_id = jq_next q, tm_interval = iv, tm_callback = cb, tm_interval_ms = ms\<rparr>"
  have succ: "unat (jq_next q + 1) = unat (jq_next q) + 1"
    using assms(2) by (simp add: unat_word_ariths)
  have "mset (map tm_id (sort_key tm_deadline (jq_timers q @ [?t]))) = mset (map tm_id (jq_timers q @ [?t]))"
    unfolding mset_map by simp
  then have "distinct (map tm_id (sort_key tm_deadline (jq_timers q @ [?t]))) = distinct (map tm_id (jq_timers q @ [?t]))"
    by (metis mset_eq_imp_distinct_iff)
  moreover have "\<forall>u \<in> set (jq_timers q). unat (tm_id u) < Suc (unat (jq_next q))"
    using assms(1) unfolding timers_ok_def by (meson less_SucI)
  ultimately show ?thesis using assms(1,3) succ by (auto simp: schedule_timer_def timers_ok_def)
qed

text \<open>Everything scripts and the runtime do to the timers.\<close>

datatype 'c timer_op = OpSchedule int 'c bool "nat option" | OpCancel "64 word" | OpPop int | OpClear

fun apply_op :: "'c timer_op \<Rightarrow> ('j, 'c) job_queue \<Rightarrow> ('j, 'c) job_queue" where
  "apply_op (OpSchedule d cb iv ms) q = snd (schedule_timer d cb iv ms q)"
| "apply_op (OpCancel i) q = snd (cancel_timer i q)"
| "apply_op (OpPop now) q = snd (pop_due_timers now q)"
| "apply_op OpClear q = clear_all_timers q"

lemma apply_op_ok:
  assumes "timers_ok q" and "unat (jq_next q) < 2 ^ 64 - 1"
  shows "timers_ok (apply_op op q) \<and> unat (jq_next (apply_op op q)) \<le> unat (jq_next q) + 1
    \<and> unat (jq_next q) \<le> unat (jq_next (apply_op op q))"
proof (cases op)
  case (OpSchedule d cb iv ms)
  obtain i q' where "schedule_timer d cb iv ms q = (i, q')" by fastforce
  with timers_ok_schedule [OF assms this] OpSchedule show ?thesis by simp
next
  case (OpCancel i)
  with timers_ok_filter [OF assms(1)] show ?thesis by (simp add: cancel_timer_def Let_def)
next
  case (OpPop now)
  with timers_ok_filter [OF assms(1), of "\<lambda>t. \<not> tm_deadline t \<le> now"] show ?thesis by (simp add: pop_due_timers_def)
qed (simp add: clear_all_timers_def timers_ok_def)

definition forgotten :: "64 word \<Rightarrow> ('j, 'c) job_queue \<Rightarrow> bool" where
  "forgotten i q \<longleftrightarrow> timers_ok q \<and> unat i < unat (jq_next q) \<and> i \<notin> tm_id ` set (jq_timers q)"

lemma apply_op_forgotten:
  assumes "forgotten i q" and "unat (jq_next q) < 2 ^ 64 - 1"
  shows "forgotten i (apply_op op q)"
proof -
  have ok: "timers_ok q" "unat i < unat (jq_next q)" "i \<notin> tm_id ` set (jq_timers q)"
    using assms(1) by (auto simp: forgotten_def)
  have "tm_id ` set (jq_timers (apply_op op q)) \<subseteq> insert (jq_next q) (tm_id ` set (jq_timers q))"
    by (cases op) (auto simp: schedule_timer_def cancel_timer_def pop_due_timers_def clear_all_timers_def Let_def)
  with ok apply_op_ok [OF ok(1) assms(2), of op] show ?thesis unfolding forgotten_def by fastforce
qed

lemma ops_forgotten:
  "forgotten i q \<Longrightarrow> unat (jq_next q) + length ops < 2 ^ 64 \<Longrightarrow> forgotten i (fold apply_op ops q)"
proof (induction ops arbitrary: q)
  case (Cons op ops)
  have next_ok: "unat (jq_next q) < 2 ^ 64 - 1" using Cons.prems(2) by simp
  have "timers_ok q" using Cons.prems(1) by (simp add: forgotten_def)
  from apply_op_ok [OF this next_ok, of op] Cons.prems(2) Cons.IH [OF apply_op_forgotten [OF Cons.prems(1) next_ok]]
  show ?case by simp
qed simp

lemma popped_forgotten:
  assumes "timers_ok q" and "t \<in> set (fst (pop_due_timers now q))"
  shows "forgotten (tm_id t) (snd (pop_due_timers now q))"
proof -
  have t: "t \<in> set (jq_timers q)" "tm_deadline t \<le> now" using assms(2) by (auto simp: pop_due_timers_def)
  have one: "u = t" if "u \<in> set (jq_timers q)" "tm_id u = tm_id t" for u
    using assms(1) that t(1) by (auto simp: timers_ok_def distinct_map dest: inj_onD)
  have "tm_id t \<notin> tm_id ` set (filter (\<lambda>t. \<not> tm_deadline t \<le> now) (jq_timers q))"
    using one t(2) by fastforce
  moreover have "unat (tm_id t) < unat (jq_next q)" using assms(1) t(1) by (simp add: timers_ok_def)
  ultimately show ?thesis using timers_ok_filter [OF assms(1)] by (simp add: forgotten_def pop_due_timers_def)
qed

section \<open>Properties\<close>

subsection \<open>The queue and its history\<close>

text \<open>
  What a timer's life is, read off the calls that follow it: it ends when its id is cancelled, when a
  pop finds it due, or when all are cleared. \<open>pending_from n ops\<close> lists the timers that the calls
  \<open>ops\<close> scheduled and did not end, in the order of scheduling, numbered from \<open>n\<close>.
\<close>

fun ends_timer :: "'c js_timer \<Rightarrow> 'c timer_op \<Rightarrow> bool" where
  "ends_timer t (OpSchedule d cb iv ms) = False"
| "ends_timer t (OpCancel i) = (tm_id t = i)"
| "ends_timer t (OpPop now) = (tm_deadline t \<le> now)"
| "ends_timer t OpClear = True"

fun pending_from :: "nat \<Rightarrow> 'c timer_op list \<Rightarrow> 'c js_timer list" where
  "pending_from n [] = []"
| "pending_from n (OpSchedule d cb iv ms # ops) =
     (let t = \<lparr>tm_deadline = d, tm_id = of_nat n, tm_interval = iv, tm_callback = cb, tm_interval_ms = ms\<rparr>
      in if list_ex (ends_timer t) ops then pending_from (n + 1) ops else t # pending_from (n + 1) ops)"
| "pending_from n (op # ops) = pending_from n ops"

fun scheduled_count :: "'c timer_op list \<Rightarrow> nat" where
  "scheduled_count [] = 0"
| "scheduled_count (OpSchedule d cb iv ms # ops) = Suc (scheduled_count ops)"
| "scheduled_count (op # ops) = scheduled_count ops"

lemma pending_snoc:
  "pending_from n (ops @ [op]) = filter (\<lambda>t. \<not> ends_timer t op) (pending_from n ops)
     @ (case op of OpSchedule d cb iv ms \<Rightarrow>
          [\<lparr>tm_deadline = d, tm_id = of_nat (n + scheduled_count ops), tm_interval = iv, tm_callback = cb, tm_interval_ms = ms\<rparr>]
        | _ \<Rightarrow> [])"
  by (induction n ops rule: pending_from.induct) (auto simp: Let_def split: timer_op.split)

lemma scheduled_snoc:
  "scheduled_count (ops @ [op]) = scheduled_count ops + (case op of OpSchedule d cb iv ms \<Rightarrow> 1 | _ \<Rightarrow> 0)"
  by (induction ops rule: scheduled_count.induct) (auto split: timer_op.split)

lemma sort_again: "sort_key f (sort_key f xs @ ys) = sort_key f (xs @ ys)"
proof (rule properties_for_sort_key)
  show "mset (sort_key f (xs @ ys)) = mset (sort_key f xs @ ys)" by simp
  show "filter (\<lambda>x. f k = f x) (sort_key f (xs @ ys)) = filter (\<lambda>x. f k = f x) (sort_key f xs @ ys)" for k
  proof -
    have "(\<lambda>x. f k = f x) = (\<lambda>x. f x = f k)" by auto
    then show ?thesis by (simp only: filter_append sort_key_stable)
  qed
  show "sorted (map f (sort_key f (xs @ ys)))" by simp
qed

lemma queue_history:
  "jq_timers (fold apply_op ops (job_queue_new :: ('j, 'c) job_queue)) = sort_key tm_deadline (pending_from 1 ops)
   \<and> jq_next (fold apply_op ops (job_queue_new :: ('j, 'c) job_queue)) = of_nat (1 + scheduled_count ops)"
proof (induction ops rule: rev_induct)
  case (snoc op ops)
  then show ?case
    by (cases op)
      (simp_all add: pending_snoc scheduled_snoc schedule_timer_def cancel_timer_def pop_due_timers_def
        clear_all_timers_def Let_def filter_sort sort_again ac_simps)
qed (simp add: job_queue_new_def)

lemma ops_ok:
  "timers_ok q \<Longrightarrow> unat (jq_next q) + length ops < 2 ^ 64 \<Longrightarrow> timers_ok (fold apply_op ops q)"
proof (induction ops arbitrary: q)
  case (Cons op ops)
  from apply_op_ok [OF Cons.prems(1), of op] Cons.prems(2) Cons.IH [of "apply_op op q"] show ?case by simp
qed simp

text \<open>C20: After any calls that schedule, cancel, pop and clear timers (fewer than \<open>2 ^ 64 - 1\<close> of them), the
  queue that began empty holds exactly the timers that were scheduled and not since cancelled by their
  id, popped when due, or cleared (\<open>pending_from\<close>), earliest deadline first and in the order of
  scheduling where deadlines are equal; their ids differ, and the next one scheduled gets the next
  number. Popping then returns exactly those due, in that order, and keeps the others.\<close>

theorem due_timers_exact:
  fixes ops :: "'c timer_op list"
  assumes "length ops < 2 ^ 64 - 1" and "q = fold apply_op ops (job_queue_new :: ('j, 'c) job_queue)"
  shows "jq_timers q = sort_key tm_deadline (pending_from 1 ops)
    \<and> distinct (map tm_id (jq_timers q))
    \<and> fst (schedule_timer d cb iv ms q) = of_nat (1 + scheduled_count ops)
    \<and> fst (pop_due_timers now q) = sort_key tm_deadline (filter (\<lambda>t. tm_deadline t \<le> now) (pending_from 1 ops))
    \<and> jq_timers (snd (pop_due_timers now q)) = sort_key tm_deadline (filter (\<lambda>t. now < tm_deadline t) (pending_from 1 ops))"
proof -
  have "timers_ok q" unfolding assms(2) by (rule ops_ok [OF timers_ok_new]) (use assms(1) in \<open>simp add: job_queue_new_def\<close>)
  then have "distinct (map tm_id (jq_timers q))" by (simp add: timers_ok_def)
  then show ?thesis
    using queue_history [of ops, where ?'j = 'j] assms(2)
    by (simp add: schedule_timer_def pop_due_timers_def filter_sort not_le)
qed

text \<open>The id of a timer that has fired names no timer any more, whatever is scheduled later: to
  clear it does nothing.\<close>

theorem fired_id_is_dead:
  assumes "timers_ok q" and "t \<in> set (fst (pop_due_timers now q))"
    and "unat (jq_next q) + length ops < 2 ^ 64"
  shows "cancel_timer (tm_id t) (fold apply_op ops (snd (pop_due_timers now q)))
    = (False, fold apply_op ops (snd (pop_due_timers now q)))"
proof -
  let ?q = "fold apply_op ops (snd (pop_due_timers now q))"
  have "jq_next (snd (pop_due_timers now q)) = jq_next q" by (simp add: pop_due_timers_def)
  then have "tm_id t \<notin> tm_id ` set (jq_timers ?q)"
    using ops_forgotten [OF popped_forgotten [OF assms(1,2)], of ops] assms(3) by (simp add: forgotten_def)
  then have "filter (\<lambda>u. tm_id u \<noteq> tm_id t) (jq_timers ?q) = jq_timers ?q"
    by (intro filter_True) (metis imageI)
  then show ?thesis by (simp add: cancel_timer_def)
qed

text \<open>
  An interval is queued again under a new id, so the id the script holds is dead from the first
  firing on: a callback that clears its own interval is called again.
\<close>

theorem cleared_interval_stays:
  assumes "timers_ok (jt_queue th)" and "on_queue (pop_due_timers now) th = (due, th1)" and "t \<in> set due" and "tm_interval t"
    and "ca_timer ca (tm_callback t) th1 = (True, clear_timer (Some v) th1)" and "to_u64 v = tm_id t"
  shows "\<exists>u \<in> set (jq_timers (jt_queue (drain_due ca [t] th1))). tm_callback u = tm_callback t \<and> tm_interval u"
  using assms(4,5) by (auto simp: reschedule_def read_clock_def on_queue_def schedule_timer_def Let_def)

subsection \<open>How much a pump runs\<close>

text \<open>A cost of the scripts' state that one job or callback raises by one at most.\<close>

definition unit_cost :: "('j, 'c, 's) js_calls \<Rightarrow> ('s \<Rightarrow> nat) \<Rightarrow> bool" where
  "unit_cost ca cost \<longleftrightarrow>
     (\<forall>j th. cost (jt_state (snd (ca_job ca j th))) \<le> cost (jt_state th) + 1)
     \<and> (\<forall>c th. cost (jt_state (snd (ca_timer ca c th))) \<le> cost (jt_state th) + 1)"

lemma reschedule_state [simp]: "jt_state (reschedule ca d t th) = jt_state th"
  by (simp add: reschedule_def read_clock_def on_queue_def Let_def split: prod.split)

lemma bounded_jobs_cost:
  "unit_cost ca cost \<Longrightarrow> run_bounded_jobs k ca th = (r, th') \<Longrightarrow>
     cost (jt_state th') \<le> cost (jt_state th) + (case r of Inl e \<Rightarrow> k | Inr n \<Rightarrow> n)"
proof (induction k ca th arbitrary: r th' rule: run_bounded_jobs.induct)
  case (2 k ca th)
  show ?case
  proof (cases "jq_jobs (jt_queue th) = [] \<or> is_async_job (hd (jq_jobs (jt_queue th)))")
    case True
    with 2(3) show ?thesis by (auto split: list.split_asm)
  next
    case False
    then obtain j rest where j: "jq_jobs (jt_queue th) = j # rest" "\<not> is_async_job j"
      by (cases "jq_jobs (jt_queue th)") auto
    let ?th = "th\<lparr>jt_queue := (jt_queue th)\<lparr>jq_jobs := rest\<rparr>\<rparr>"
    obtain ok th1 where call: "ca_job ca j ?th = (ok, th1)" by fastforce
    have one: "cost (jt_state th1) \<le> cost (jt_state th) + 1"
      using 2(2) call unfolding unit_cost_def by (metis js_thread.select_convs(2) js_thread.surjective js_thread.update_convs(1) snd_conv)
    show ?thesis
    proof (cases ok)
      case True
      obtain r2 th2 where rest: "run_bounded_jobs k ca th1 = (r2, th2)" by fastforce
      from 2(1) [OF j call [symmetric] _ 2(2) rest] 2(3) j call True rest one show ?thesis
        by (cases r2) auto
    qed (use 2(3) j call one in auto)
  qed
qed (auto split: if_split_asm)

lemma pump_timers_cost:
  "unit_cost ca cost \<Longrightarrow> pump_timers ca start ts budget th = (r, th') \<Longrightarrow>
     cost (jt_state th') \<le> cost (jt_state th) + (case r of Inl e \<Rightarrow> budget | Inr b \<Rightarrow> budget - b)"
proof (induction ca start ts budget th arbitrary: r th' rule: pump_timers.induct)
  case (2 ca start t ts budget th)
  obtain now th1 where clk: "read_clock ca th = (now, th1)" by fastforce
  then have st1: "jt_state th1 = jt_state th" by (auto simp: read_clock_def)
  show ?case
  proof (cases "budget = 0 \<or> now - start > ns_of_ms 500")
    case True
    with 2(3) clk st1 show ?thesis by (auto split: if_split_asm)
  next
    case False
    obtain ok th2 where call: "ca_timer ca (tm_callback t) th1 = (ok, th2)" by fastforce
    have one: "cost (jt_state th2) \<le> cost (jt_state th) + 1"
      using 2(2) call st1 unfolding unit_cost_def by (metis snd_conv)
    show ?thesis
    proof (cases ok)
      case True
      obtain r2 th3 where rest: "pump_timers ca start ts (budget - 1) (reschedule ca 1 t th2) = (r2, th3)" by fastforce
      have out: "r = r2" "th' = th3" using 2(3) clk False call True rest by auto
      have "b + length ts = budget - 1" if "r2 = Inr b" for b using pump_timers_budget rest that by blast
      with 2(1) [OF _ clk [symmetric] refl _ call [symmetric] _ 2(2) rest] False True one out show ?thesis
        by (cases r2) auto
    qed (use 2(3) clk call one False in auto)
  qed
qed simp

lemma pump_loop_cost:
  "unit_cost ca cost \<Longrightarrow> cost (jt_state (snd (pump_loop ca start budget th))) \<le> cost (jt_state th) + budget"
proof (induction ca start budget th rule: pump_loop.induct)
  case (1 ca start budget th)
  obtain r1 th1 where jobs: "run_bounded_jobs budget ca th = (r1, th1)" by fastforce
  note c1 = bounded_jobs_cost [OF 1(2) jobs]
  show ?case
  proof (cases r1)
    case (Inl e)
    with jobs c1 show ?thesis by (simp add: pump_loop.simps [of ca start budget th])
  next
    case (Inr n)
    have n: "n \<le> budget" using bounded_jobs_count jobs Inr by blast
    obtain now th2 where clk: "read_clock ca th1 = (now, th2)" by fastforce
    obtain due th3 where pop: "on_queue (pop_due_timers now) th2 = (due, th3)" by fastforce
    have st3: "jt_state th3 = jt_state th1" using clk pop by (auto simp: read_clock_def on_queue_def Let_def split: prod.split_asm)
    show ?thesis
    proof (cases "due = []")
      case True
      with jobs Inr clk pop c1 st3 n show ?thesis by (simp add: pump_loop.simps [of ca start budget th])
    next
      case False
      obtain r4 th4 where run: "pump_timers ca start due (budget - n) th3 = (r4, th4)" by fastforce
      note c4 = pump_timers_cost [OF 1(2) run]
      show ?thesis
      proof (cases r4)
        case (Inl e)
        with jobs Inr clk pop False run c1 c4 st3 n show ?thesis by (simp add: pump_loop.simps [of ca start budget th])
      next
        case left: (Inr b)
        have "b \<le> budget - n" using pump_timers_budget run left by fastforce
        moreover have "cost (jt_state (snd (pump_loop ca start b th4))) \<le> cost (jt_state th4) + b"
          using 1(1) [OF jobs [symmetric] Inr clk [symmetric] refl pop [symmetric] refl False run [symmetric] left 1(2)]
          by simp
        ultimately show ?thesis using jobs Inr clk pop False run left c1 c4 st3 n
          by (simp add: pump_loop.simps [of ca start budget th])
      qed
    qed
  qed
qed

text \<open>C19: A pump ends, and runs at most 256 jobs and timer callbacks together, whatever they queue.\<close>

theorem pump_bounded:
  assumes "unit_cost ca cost"
  shows "cost (jt_state (snd (pump ca th))) \<le> cost (jt_state th) + 256"
proof -
  obtain start th1 where "read_clock ca th = (start, th1)" by fastforce
  then show ?thesis using pump_loop_cost [OF assms, of start 256 th1] by (auto simp: pump_def read_clock_def)
qed

subsection \<open>Witnesses\<close>

definition ticking :: "(unit, nat) job_queue" where
  "ticking = snd (schedule_timer 5 7 True (Some 0) (snd (schedule_timer 3 8 False None job_queue_new)))"

lemma ticking_ok: "timers_ok ticking"
  by (simp add: timers_ok_def ticking_def schedule_timer_def job_queue_new_def)

definition counting_calls :: "(unit, nat, nat) js_calls" where
  "counting_calls =
     \<lparr>ca_clock = (\<lambda>n. 5), ca_job = (\<lambda>j th. (True, th\<lparr>jt_state := jt_state th + 1\<rparr>)),
      ca_timer = (\<lambda>c th. (True, clear_timer (Some (JsFinite 2)) th)), ca_run_jobs = id, ca_settle = id\<rparr>"

definition ticking_thread :: "(unit, nat, nat) js_thread" where
  "ticking_thread = \<lparr>jt_queue = ticking, jt_state = 0, jt_tick = 0\<rparr>"

lemma ticking_timers:
  "jq_timers ticking =
     [\<lparr>tm_deadline = 3, tm_id = 1, tm_interval = False, tm_callback = 8, tm_interval_ms = None\<rparr>,
      \<lparr>tm_deadline = 5, tm_id = 2, tm_interval = True, tm_callback = 7, tm_interval_ms = Some 0\<rparr>]"
  "jq_next ticking = 3"
  by (simp_all add: ticking_def schedule_timer_def job_queue_new_def)

theorem due_timers_exact_witness:
  "map tm_callback (fst (pop_due_timers 6 (fold apply_op
      [OpSchedule 5 7 True (Some 0), OpSchedule 3 8 False None, OpSchedule 5 9 False None, OpSchedule 4 6 False None, OpCancel 4]
      (job_queue_new :: (unit, nat) job_queue)))) = [8, 7, 9]"
proof -
  let ?ops = "[OpSchedule 5 7 True (Some 0), OpSchedule 3 8 False None, OpSchedule 5 9 False None, OpSchedule 4 6 False None,
    OpCancel 4] :: nat timer_op list"
  have "fst (pop_due_timers 6 (fold apply_op ?ops (job_queue_new :: (unit, nat) job_queue)))
      = sort_key tm_deadline (filter (\<lambda>t. tm_deadline t \<le> 6) (pending_from 1 ?ops))"
    using due_timers_exact [of ?ops, OF _ refl, where ?'j = unit and now = 6] by simp
  then show ?thesis by simp
qed

theorem fired_id_is_dead_witness:
  "cancel_timer 2 (fold apply_op [OpSchedule 9 7 True (Some 1)] (snd (pop_due_timers 5 ticking)))
   = (False, fold apply_op [OpSchedule 9 7 True (Some 1)] (snd (pop_due_timers 5 ticking)))"
proof -
  let ?t = "\<lparr>tm_deadline = 5, tm_id = 2, tm_interval = True, tm_callback = 7, tm_interval_ms = Some 0\<rparr> :: nat js_timer"
  have "?t \<in> set (fst (pop_due_timers 5 ticking))" by (simp add: pop_due_timers_def ticking_timers)
  from fired_id_is_dead [OF ticking_ok this, of "[OpSchedule 9 7 True (Some 1)]"] show ?thesis
    by (simp add: ticking_timers)
qed

theorem cleared_interval_stays_witness:
  "\<exists>u \<in> set (jq_timers (jt_queue (drain_due counting_calls
      [\<lparr>tm_deadline = 5, tm_id = 2, tm_interval = True, tm_callback = 7, tm_interval_ms = Some 0\<rparr>]
      (snd (on_queue (pop_due_timers 5) ticking_thread))))). tm_callback u = 7 \<and> tm_interval u"
proof -
  let ?t = "\<lparr>tm_deadline = 5, tm_id = 2, tm_interval = True, tm_callback = 7, tm_interval_ms = Some 0\<rparr> :: nat js_timer"
  have "timers_ok (jt_queue ticking_thread)" using ticking_ok by (simp add: ticking_thread_def)
  moreover have "?t \<in> set (fst (on_queue (pop_due_timers 5) ticking_thread))"
    by (simp add: on_queue_def pop_due_timers_def ticking_thread_def ticking_timers)
  ultimately show ?thesis
    using cleared_interval_stays [of ticking_thread 5 "fst (on_queue (pop_due_timers 5) ticking_thread)"
        "snd (on_queue (pop_due_timers 5) ticking_thread)" ?t counting_calls "JsFinite 2"]
    by (simp add: counting_calls_def to_u64_def)
qed

theorem pump_bounded_witness:
  "jt_state (snd (pump counting_calls ticking_thread)) \<le> 256"
proof -
  have "unit_cost counting_calls id"
    by (simp add: unit_cost_def counting_calls_def clear_timer_def on_queue_def split: prod.split)
  from pump_bounded [OF this, of ticking_thread] show ?thesis by (simp add: ticking_thread_def)
qed

end
