(* ===== verification/AgentGates.thy ===== *)
theory AgentGates
  imports Manager DomAccess
begin

text \<open>
  The agent's locators and gates (\<open>oxibrowser/src/agent/locators.rs\<close>, \<open>gates.rs\<close>), with the part of
  \<open>oxibrowser-cdp/src/account.rs\<close> the gates ask: which account a context is bound to, and whether
  the context may take irreversible actions.
\<close>

section \<open>Locators\<close>

datatype locator_spec =
    ByRole string "string option"
  | ByText string
  | ByLabel string
  | ByPlaceholder string
  | ByCss string

record locator_query =
  lq_spec :: locator_spec
  lq_nth :: "nat option"

record loc_error =
  le_code :: string
  le_message :: string

text \<open>\<open>str::split\<close> with a string, and \<open>{n}\<close> of a count.\<close>

function split_sub :: "string \<Rightarrow> string \<Rightarrow> string list" where
  "split_sub sep s =
     (if sep = [] then [s]
      else case find_sub sep s of
             None \<Rightarrow> [s]
           | Some i \<Rightarrow> take i s # split_sub sep (drop (i + length sep) s))"
  by pat_completeness auto
termination
proof (relation "measure (\<lambda>(sep, s). length s)", goal_cases)
  case (2 sep s i)
  from find_sub_bound [OF 2(2)] 2(1) show ?case by (cases sep) auto
qed simp

abbreviation show_count :: "nat \<Rightarrow> string" where
  "show_count n \<equiv> show_uint (int n)"

definition describe_spec :: "locator_spec \<Rightarrow> string" where
  "describe_spec sp =
     (case sp of
        ByRole role None \<Rightarrow> ''getByRole('' @ debug_str role @ '')''
      | ByRole role (Some name) \<Rightarrow> ''getByRole('' @ debug_str role @ '', { name: '' @ debug_str name @ '' })''
      | ByText t \<Rightarrow> ''getByText('' @ debug_str t @ '')''
      | ByLabel t \<Rightarrow> ''getByLabel('' @ debug_str t @ '')''
      | ByPlaceholder t \<Rightarrow> ''getByPlaceholder('' @ debug_str t @ '')''
      | ByCss c \<Rightarrow> ''locator('' @ debug_str c @ '')'')"

definition describe :: "locator_query \<Rightarrow> string" where
  "describe q =
     (case lq_nth q of
        None \<Rightarrow> describe_spec (lq_spec q)
      | Some i \<Rightarrow> if i = 0 then describe_spec (lq_spec q) @ ''.first()''
                 else describe_spec (lq_spec q) @ ''.nth('' @ show_count i @ '')'')"

definition loc_not_found :: "locator_query \<Rightarrow> loc_error" where
  "loc_not_found q =
     \<lparr>le_code = ''LOCATOR_NOT_FOUND'',
      le_message = ''locator resolved to no elements: '' @ describe q @ '' '' @ em_dash @ '' re-observe, then retry''\<rparr>"

definition strict_mode_violation :: "locator_query \<Rightarrow> nat \<Rightarrow> loc_error" where
  "strict_mode_violation q n =
     \<lparr>le_code = ''STRICT_MODE_VIOLATION'',
      le_message = ''strict mode violation: '' @ describe q @ '' resolved to '' @ show_count n
        @ '' elements, expected 1 '' @ em_dash @ '' narrow with .first() or .nth(i)''\<rparr>"

definition bad_nth :: "locator_query \<Rightarrow> nat \<Rightarrow> loc_error" where
  "bad_nth q i =
     \<lparr>le_code = ''LOCATOR_OUT_OF_RANGE'',
      le_message = ''locator.nth out of range: '' @ describe q @ '' has no element at index '' @ show_count i\<rparr>"

definition contains_ci :: "string option \<Rightarrow> string \<Rightarrow> bool" where
  "contains_ci h needle =
     (case h of Some s \<Rightarrow> contains_str (to_ascii_lowercase s) (to_ascii_lowercase needle) | None \<Rightarrow> False)"

definition css_suffix :: "string \<Rightarrow> string \<Rightarrow> bool" where
  "css_suffix selector css =
     (if selector = css then True
      else (let segs = split_sub '' > '' selector; css_segs = split_sub '' > '' css
            in length css_segs \<le> length segs \<and> drop (length segs - length css_segs) segs = css_segs))"

definition loc_matches :: "interactive_element \<Rightarrow> locator_spec \<Rightarrow> bool" where
  "loc_matches el sp =
     (case sp of
        ByRole role name \<Rightarrow>
          if \<not> eq_ignore_ascii_case (ie_role el) role then False
          else (case name of None \<Rightarrow> True | Some n \<Rightarrow> contains_ci (ie_name el) n \<or> contains_ci (Some (ie_text el)) n)
      | ByText t \<Rightarrow> contains_ci (ie_name el) t \<or> contains_ci (Some (ie_text el)) t
      | ByLabel t \<Rightarrow> contains_ci (ie_name el) t
      | ByPlaceholder t \<Rightarrow> contains_ci (ie_placeholder el) t
      | ByCss css \<Rightarrow> css_suffix (ie_selector el) css)"

definition pick_hit :: "locator_query \<Rightarrow> interactive_element list \<Rightarrow> loc_error + interactive_element" where
  "pick_hit q hits =
     (case lq_nth q of
        None \<Rightarrow>
          (case hits of
             [] \<Rightarrow> Inl (loc_not_found q)
           | [el] \<Rightarrow> Inr el
           | _ \<Rightarrow> Inl (strict_mode_violation q (length hits)))
      | Some i \<Rightarrow> if i < length hits then Inr (hits ! i) else Inl (bad_nth q i))"

text \<open>\<open>None\<close>: the walk over the page's nodes does not end.\<close>

definition resolve_locator :: "dom_snapshot \<Rightarrow> locator_query \<Rightarrow> (loc_error + interactive_element) option" where
  "resolve_locator sn q =
     map_option (\<lambda>els. pick_hit q (filter (\<lambda>el. loc_matches el (lq_spec q)) els)) (interactive_elements sn)"

section \<open>Contexts and accounts\<close>

record browser_context =
  bc_id :: string
  bc_credential_mode :: bool

record login_surface =
  sf_bindings :: "(string, string) dict" \<comment> \<open>account to context\<close>
  sf_irreversible :: "string list"

definition surface_bind :: "string \<Rightarrow> string \<Rightarrow> login_surface \<Rightarrow> login_surface" where
  "surface_bind i ctx sf = sf\<lparr>sf_bindings := dict_insert i ctx (sf_bindings sf)\<rparr>"

definition mark_irreversible :: "string \<Rightarrow> login_surface \<Rightarrow> login_surface" where
  "mark_irreversible ctx sf = sf\<lparr>sf_irreversible := List.insert ctx (sf_irreversible sf)\<rparr>"

definition bind_direct :: "string \<Rightarrow> string \<Rightarrow> login_surface \<Rightarrow> login_surface" where
  "bind_direct i ctx sf = surface_bind i ctx (mark_irreversible ctx sf)"

definition irreversible_allowed :: "string \<Rightarrow> login_surface \<Rightarrow> bool" where
  "irreversible_allowed ctx sf \<longleftrightarrow> ctx \<in> set (sf_irreversible sf)"

definition account_for_context :: "string \<Rightarrow> login_surface \<Rightarrow> string option" where
  "account_for_context ctx sf = map_option fst (find (\<lambda>(i, c). c = ctx) (sf_bindings sf))"

definition context_for_account :: "string \<Rightarrow> login_surface \<Rightarrow> string option" where
  "context_for_account i sf = dict_get (sf_bindings sf) i"

section \<open>Gates\<close>

record gate_error =
  ge_code :: string
  ge_message :: string

definition check_fill :: "browser_context \<Rightarrow> interactive_element \<Rightarrow> gate_error + unit" where
  "check_fill ctx el =
     (if bc_credential_mode ctx
         \<and> (case ie_input_type el of Some t \<Rightarrow> eq_ignore_ascii_case t ''password'' | None \<Rightarrow> False)
      then Inl \<lparr>ge_code = ''POLICY_DENIED'',
                ge_message = ''passwordFillRequiresCredential: fill password fields via oxi.fillCredential(locator, account)''\<rparr>
      else Inr ())"

partial_function (option) ancestor_form_action :: "dom_nodes \<Rightarrow> nat option \<Rightarrow> string option" where
  "ancestor_form_action nodes cur =
     (case cur of
        None \<Rightarrow> Some []
      | Some i \<Rightarrow>
          (case dict_get nodes i of
             None \<Rightarrow> Some []
           | Some n \<Rightarrow>
               if nd_type n = 1 \<and> eq_ignore_ascii_case (nd_tag n) ''form''
               then Some (case node_attr n ''action'' of Some a \<Rightarrow> a | None \<Rightarrow> [])
               else ancestor_form_action nodes (nd_parent n)))"

declare ancestor_form_action.simps [code]

definition attr_or_empty :: "dom_nodes \<Rightarrow> nat \<Rightarrow> string \<Rightarrow> string" where
  "attr_or_empty nodes i a =
     (case Option.bind (dict_get nodes i) (\<lambda>n. node_attr n a) of Some v \<Rightarrow> v | None \<Rightarrow> [])"

definition http_url :: "string \<Rightarrow> string" where
  "http_url u = (if starts_with u ''http://'' \<or> starts_with u ''https://'' then u else [])"

text \<open>What the patterns are looked for in.\<close>

definition click_descriptor :: "string \<Rightarrow> dom_snapshot \<Rightarrow> interactive_element \<Rightarrow> string \<Rightarrow> string" where
  "click_descriptor session_url sn el form_action =
     join_with [CHR 0x0A]
       [ie_selector el, http_url session_url, form_action,
        case ie_name el of Some n \<Rightarrow> n | None \<Rightarrow> [],
        take_chars 120 (ie_text el),
        attr_or_empty (sn_nodes sn) (ie_node_id el) ''id'',
        attr_or_empty (sn_nodes sn) (ie_node_id el) ''class'']"

definition irreversible_message :: "string \<Rightarrow> string \<Rightarrow> string" where
  "irreversible_message pattern i =
     ''irreversibleActionRequiresGrant: pattern '' @ [CHR 0x27] @ pattern @ [CHR 0x27] @ '' '' @ em_dash
       @ '' grant with `account grant '' @ i @ '' --agent <A> --actions irreversible` and recreate the context''"

definition irreversible_event :: "string \<Rightarrow> account_record \<Rightarrow> string \<Rightarrow> string \<Rightarrow> bool \<Rightarrow> audit_event" where
  "irreversible_event now r i pattern ok =
     (audit_event_new now PolicyViolation (if ok then ADAllow else ADDeny)
        (''account='' @ i @ '' pattern='' @ debug_str pattern @ '' allowed=''
           @ (if ok then ''true'' else ''false'')))
       \<lparr>ev_action := Some ''irreversible_gate'', ev_origin := Some (ac_scope r)\<rparr>"

definition check_click ::
  "string \<Rightarrow> browser_context \<Rightarrow> login_surface option \<Rightarrow> string \<Rightarrow> dom_snapshot \<Rightarrow> interactive_element
    \<Rightarrow> manager \<Rightarrow> ((gate_error + unit) \<times> manager) option" where
  "check_click now ctx surface session_url sn el mg =
     (if \<not> bc_credential_mode ctx then Some (Inr (), mg)
      else case surface of
        None \<Rightarrow> Some (Inr (), mg)
      | Some sf \<Rightarrow>
          (case account_for_context (bc_id ctx) sf of
             None \<Rightarrow> Some (Inr (), mg)
           | Some i \<Rightarrow>
               (case registry_get i (mg_registry mg) of
                  Inl e \<Rightarrow> Some (Inr (), mg)
                | Inr r \<Rightarrow>
                    Option.bind (ancestor_form_action (sn_nodes sn) (Some (ie_node_id el))) (\<lambda>form_action.
                      case matched_pattern (click_descriptor session_url sn el form_action)
                             (case ac_irreversible_patterns r of Some ps \<Rightarrow> ps | None \<Rightarrow> []) of
                        None \<Rightarrow> Some (Inr (), mg)
                      | Some pattern \<Rightarrow>
                          (let ok = irreversible_allowed (bc_id ctx) sf;
                               mg1 = record_event (irreversible_event now r i pattern ok) mg
                           in if ok then Some (Inr (), mg1)
                              else Some (Inl \<lparr>ge_code = ''POLICY_DENIED'', ge_message = irreversible_message pattern i\<rparr>, mg1))))))"

section \<open>What the gate denies\<close>

definition is_form :: "dom_node \<Rightarrow> bool" where
  "is_form n \<longleftrightarrow> nd_type n = 1 \<and> eq_ignore_ascii_case (nd_tag n) ''form''"

lemma form_action_nearest:
  "ancestry nodes current as \<Longrightarrow>
     ancestor_form_action nodes current =
       Some (case find is_form as of Some n \<Rightarrow> (case node_attr n ''action'' of Some a \<Rightarrow> a | None \<Rightarrow> []) | None \<Rightarrow> [])"
  by (induction rule: ancestry.induct) (simp_all add: ancestor_form_action.simps is_form_def)

lemma gate_form_ends:
  assumes "document sn t" and "i \<in> set (tree_ids t)"
  shows "\<exists>a. ancestor_form_action (sn_nodes sn) (Some i) = Some a"
proof -
  from document_ancestry [OF assms] obtain n as
    where n: "node_of sn i = Some n" "ancestry (sn_nodes sn) (nd_parent n) as" by blast
  then show ?thesis
    using form_action_nearest [OF up_node [OF n(1) [unfolded node_of_def] n(2)]] by simp
qed

lemma to_ascii_lowercase_append: "to_ascii_lowercase (a @ b) = to_ascii_lowercase a @ to_ascii_lowercase b"
  by (simp add: to_ascii_lowercase_def)

lemma descriptor_holds_label:
  assumes "contains_str (to_ascii_lowercase label) p"
    and "ie_name el = Some label \<or> take_chars 120 (ie_text el) = label"
  shows "contains_str (to_ascii_lowercase (click_descriptor session_url sn el form_action)) p"
proof -
  have "\<exists>a b. click_descriptor session_url sn el form_action = a @ label @ b"
    using assms(2)
  proof
    assume n: "ie_name el = Some label"
    show ?thesis unfolding click_descriptor_def join_with.simps n option.case
      by (metis append.assoc)
  next
    assume n: "take_chars 120 (ie_text el) = label"
    show ?thesis unfolding click_descriptor_def join_with.simps n
      by (metis append.assoc)
  qed
  then obtain a b where d: "click_descriptor session_url sn el form_action = a @ label @ b" by blast
  from assms(1) obtain u v where "to_ascii_lowercase label = u @ p @ v" by (auto simp: contains_str_iff)
  then have "to_ascii_lowercase (click_descriptor session_url sn el form_action)
      = (to_ascii_lowercase a @ u) @ p @ (v @ to_ascii_lowercase b)"
    by (simp add: d to_ascii_lowercase_append)
  then show ?thesis unfolding contains_str_iff by blast
qed

lemma matched_pattern_found:
  assumes "p \<in> set default_irreversible_patterns \<union> set extra" and "contains_str (to_ascii_lowercase hay) p"
  shows "\<exists>q. matched_pattern hay extra = Some q
    \<and> q \<in> set default_irreversible_patterns \<union> set extra \<and> contains_str (to_ascii_lowercase hay) q"
proof (cases "find (contains_str (to_ascii_lowercase hay)) default_irreversible_patterns")
  case None
  then have "p \<in> set extra" using assms by (auto simp: find_None_iff)
  then obtain q where "find (contains_str (to_ascii_lowercase hay)) extra = Some q"
    using assms(2) by (cases "find (contains_str (to_ascii_lowercase hay)) extra") (auto simp: find_None_iff)
  with None show ?thesis by (auto simp: matched_pattern_def Let_def find_Some_iff)
next
  case (Some q)
  then have "matched_pattern hay extra = Some q" by (simp add: matched_pattern_def Let_def)
  with Some show ?thesis by (auto simp: find_Some_iff)
qed

text \<open>What a click is checked against once the account behind the context is known.\<close>

definition gated :: "browser_context \<Rightarrow> login_surface \<Rightarrow> manager \<Rightarrow> string \<Rightarrow> account_record \<Rightarrow> bool" where
  "gated ctx sf mg i r \<longleftrightarrow>
     bc_credential_mode ctx \<and> account_for_context (bc_id ctx) sf = Some i \<and> registry_get i (mg_registry mg) = Inr r"

definition patterns_of :: "account_record \<Rightarrow> string list" where
  "patterns_of r = (case ac_irreversible_patterns r of Some ps \<Rightarrow> ps | None \<Rightarrow> [])"

lemma check_click_gated:
  assumes "gated ctx sf mg i r" and "ancestor_form_action (sn_nodes sn) (Some (ie_node_id el)) = Some fa"
  shows "check_click now ctx (Some sf) session_url sn el mg =
    (case matched_pattern (click_descriptor session_url sn el fa) (patterns_of r) of
       None \<Rightarrow> Some (Inr (), mg)
     | Some q \<Rightarrow>
         (let ok = irreversible_allowed (bc_id ctx) sf; mg1 = record_event (irreversible_event now r i q ok) mg
          in if ok then Some (Inr (), mg1)
             else Some (Inl \<lparr>ge_code = ''POLICY_DENIED'', ge_message = irreversible_message q i\<rparr>, mg1)))"
  using assms by (simp add: check_click_def gated_def patterns_of_def)

lemma capable_context_never_denied:
  "irreversible_allowed (bc_id ctx) sf \<Longrightarrow>
     check_click now ctx (Some sf) session_url sn el mg = Some (res, mg') \<Longrightarrow> res = Inr ()"
  by (auto simp: check_click_def Let_def bind_eq_Some_conv split: option.splits sum.splits if_splits)

lemma mark_allows [simp]: "irreversible_allowed ctx (mark_irreversible ctx sf)"
  by (simp add: irreversible_allowed_def mark_irreversible_def)

lemma mark_bindings [simp]: "account_for_context c (mark_irreversible ctx sf) = account_for_context c sf"
  by (simp add: account_for_context_def mark_irreversible_def)

lemma no_credential_mode_no_gate:
  "\<not> bc_credential_mode ctx \<Longrightarrow> check_click now ctx surface session_url sn el mg = Some (Inr (), mg)"
  by (simp add: check_click_def)

lemma label_denied:
  assumes "gated ctx sf mg i r" and "\<not> irreversible_allowed (bc_id ctx) sf"
    and "document sn t" and "ie_node_id el \<in> set (tree_ids t)"
    and "p \<in> set default_irreversible_patterns \<union> set (patterns_of r)"
    and "contains_str (to_ascii_lowercase label) p"
    and "ie_name el = Some label \<or> take_chars 120 (ie_text el) = label"
  shows "\<exists>q. q \<in> set default_irreversible_patterns \<union> set (patterns_of r)
    \<and> check_click now ctx (Some sf) session_url sn el mg
        = Some (Inl \<lparr>ge_code = ''POLICY_DENIED'', ge_message = irreversible_message q i\<rparr>,
                record_event (irreversible_event now r i q False) mg)"
proof -
  obtain fa where fa: "ancestor_form_action (sn_nodes sn) (Some (ie_node_id el)) = Some fa"
    using gate_form_ends [OF assms(3,4)] ..
  obtain q where "matched_pattern (click_descriptor session_url sn el fa) (patterns_of r) = Some q"
    "q \<in> set default_irreversible_patterns \<union> set (patterns_of r)"
    using matched_pattern_found [OF assms(5) descriptor_holds_label [OF assms(6,7)]] by blast
  then show ?thesis using assms(2) by (auto simp: check_click_gated [OF assms(1) fa])
qed

text \<open>In a credential-mode context bound to a readable account and without the irreversible
  capability, a click on an element of the document whose accessible name, or whose visible text
  within its first 120 characters, contains one of the built-in or the account's own patterns
  (compared in lower case) is denied, and the denial is written to the audit log.\<close>

theorem irreversible_label_denied:
  assumes "gated ctx sf mg i r" and "\<not> irreversible_allowed (bc_id ctx) sf"
    and "document sn t" and "ie_node_id el \<in> set (tree_ids t)"
    and "p \<in> set default_irreversible_patterns \<union> set (patterns_of r)"
    and "contains_str (to_ascii_lowercase label) p"
    and "ie_name el = Some label \<or> take_chars 120 (ie_text el) = label"
  shows "\<exists>q. q \<in> set default_irreversible_patterns \<union> set (patterns_of r)
    \<and> check_click now ctx (Some sf) session_url sn el mg
        = Some (Inl \<lparr>ge_code = ''POLICY_DENIED'', ge_message = irreversible_message q i\<rparr>,
                record_event (irreversible_event now r i q False) mg)"
  by (rule label_denied [OF assms])

text \<open>An approval is for one pattern, but it opens the context for all of them.\<close>

theorem approval_opens_every_pattern:
  assumes "gated ctx sf mg i r" and "document sn t" and "ie_node_id el \<in> set (tree_ids t)"
  shows "\<exists>mg'. check_click now ctx (Some (mark_irreversible (bc_id ctx) sf)) session_url sn el mg = Some (Inr (), mg')"
proof -
  obtain fa where fa: "ancestor_form_action (sn_nodes sn) (Some (ie_node_id el)) = Some fa"
    using gate_form_ends [OF assms(2,3)] ..
  have "gated ctx (mark_irreversible (bc_id ctx) sf) mg i r" using assms(1) by (simp add: gated_def)
  from check_click_gated [OF this fa] show ?thesis by (auto simp: Let_def split: option.splits)
qed

section \<open>What a locator stands for\<close>

lemma resolve_ends: "document sn t \<Longrightarrow> \<exists>r. resolve_locator sn q = Some r"
  using interactive_elements_ends [of sn t] by (auto simp: resolve_locator_def)

lemma pick_strict:
  "lq_nth q = None \<Longrightarrow> pick_hit q hits = Inr el \<longleftrightarrow> hits = [el]"
  by (simp add: pick_hit_def split: list.splits)

lemma pick_mem: "pick_hit q hits = Inr el \<Longrightarrow> el \<in> set hits"
  by (cases "lq_nth q") (auto simp: pick_hit_def split: list.splits if_splits simp del: nth_Cons_Suc)

lemma pick_error_codes:
  "pick_hit q hits = Inl e \<Longrightarrow>
     le_code e \<in> {''LOCATOR_NOT_FOUND'', ''STRICT_MODE_VIOLATION'', ''LOCATOR_OUT_OF_RANGE''}"
  by (auto simp: pick_hit_def loc_not_found_def strict_mode_violation_def bad_nth_def
      split: list.splits option.splits if_splits)

text \<open>Without a narrowing suffix a locator resolves to an element exactly when that element is the
  only interactive element of the document that matches.\<close>

theorem strict_locator_exact:
  assumes "document sn t" and "lq_nth q = None"
  shows "\<exists>els. interactive_elements sn = Some els
    \<and> (resolve_locator sn q = Some (Inr el) \<longleftrightarrow> filter (\<lambda>e. loc_matches e (lq_spec q)) els = [el])"
proof -
  obtain els where "interactive_elements sn = Some els" using interactive_elements_ends [OF assms(1)] by blast
  then show ?thesis by (simp add: resolve_locator_def pick_strict [OF assms(2)])
qed

lemma credential_fill_denied:
  assumes "bc_credential_mode ctx" and "check_fill ctx el = Inr ()" and "ie_input_type el = Some ty"
  shows "to_ascii_lowercase ty \<noteq> ''password''"
proof -
  have "to_ascii_lowercase ''password'' = ''password''" by code_simp
  then show ?thesis using assms by (auto simp: check_fill_def eq_ignore_ascii_case_def split: if_splits)
qed

subsection \<open>Witnesses\<close>

definition agent_context :: browser_context where
  "agent_context = \<lparr>bc_id = ''ctx'', bc_credential_mode = True\<rparr>"

definition agent_surface :: login_surface where
  "agent_surface = surface_bind ''acct'' ''ctx'' \<lparr>sf_bindings = [], sf_irreversible = []\<rparr>"

definition delete_link :: interactive_element where
  "delete_link =
     \<lparr>ie_node_id = 2, ie_index = 0, ie_tag = ''a'', ie_role = ''link'', ie_text = ''x'', ie_href = None,
      ie_input_type = None, ie_name_attr = None, ie_name = Some ''Delete Account'', ie_aria_label = None,
      ie_placeholder = None, ie_disabled = False, ie_selector = ''main > a''\<rparr>"

lemma agent_gated: "gated agent_context agent_surface (sample_manager Valid) ''acct'' (sample_record Valid)"
  unfolding gated_def by (intro conjI) code_simp+

theorem irreversible_label_denied_witness:
  "fst (the (check_click [] agent_context (Some agent_surface) ''https://a.test/'' link_snapshot delete_link (sample_manager Valid)))
     \<noteq> Inr ()"
proof -
  have "2 \<in> set (tree_ids link_tree)" by (simp add: link_tree_def)
  moreover have "\<not> irreversible_allowed (bc_id agent_context) agent_surface"
    "contains_str (to_ascii_lowercase ''Delete Account'') ''delete account''"
    "''delete account'' \<in> set default_irreversible_patterns" by code_simp+
  ultimately show ?thesis
    using irreversible_label_denied [OF agent_gated _ link_document(1), of delete_link "''delete account''" "''Delete Account''"
        "[]" "''https://a.test/''"] by (auto simp: delete_link_def)
qed

theorem approval_opens_every_pattern_witness:
  "\<exists>mg'. check_click [] agent_context (Some (mark_irreversible ''ctx'' agent_surface)) ''https://a.test/'' link_snapshot
      delete_link (sample_manager Valid) = Some (Inr (), mg')"
proof -
  have "2 \<in> set (tree_ids link_tree)" by (simp add: link_tree_def)
  then show ?thesis
    using approval_opens_every_pattern [OF agent_gated link_document(1), of delete_link "[]" "''https://a.test/''"]
    by (simp add: delete_link_def agent_context_def)
qed

theorem strict_locator_exact_witness:
  "\<exists>els. interactive_elements link_snapshot = Some els
    \<and> (resolve_locator link_snapshot \<lparr>lq_spec = ByCss ''a'', lq_nth = None\<rparr> = Some (Inr delete_link)
         \<longleftrightarrow> filter (\<lambda>e. loc_matches e (ByCss ''a'')) els = [delete_link])"
  using strict_locator_exact [OF link_document(1), of "\<lparr>lq_spec = ByCss ''a'', lq_nth = None\<rparr>" delete_link] by simp

end
