(* ===== verification/AgentPage.thy ===== *)
theory AgentPage
  imports AgentGates NativeAction
begin

text \<open>
  What the agent sees of a page: the budgeted observation (\<open>oxibrowser/src/agent/obs.rs\<close>) and the
  memory of sites (\<open>site.rs\<close>). Whether an element is visible is the answer of the layout engine, an
  argument; the bytes per token come from the environment. A site file on disk is what parses.
\<close>

section \<open>The budget\<close>

fun floor_boundary :: "string \<Rightarrow> nat \<Rightarrow> nat" where
  "floor_boundary s 0 = 0"
| "floor_boundary s (Suc n) = (if is_char_boundary s (Suc n) then Suc n else floor_boundary s n)"

definition line_cut :: "string \<Rightarrow> nat \<Rightarrow> nat" where
  "line_cut s n = (let p = take n s in if CHR 0x0A \<in> set p then length (dropWhile (\<lambda>c. c \<noteq> CHR 0x0A) (rev p)) else length p)"

definition truncation_note :: "nat \<Rightarrow> string" where
  "truncation_note n =
     ''# '' @ [CHR 0xE2, CHR 0x80, CHR 0xA6] @ '' truncated '' @ show_count n @ '' bytes '' @ em_dash
       @ '' re-observe with a larger --budget'' @ [CHR 0x0A]"

definition byte_cap :: "nat \<Rightarrow> nat \<Rightarrow> nat" where
  "byte_cap budget bpt = min (budget * bpt) (2 ^ 64 - 1)"

text \<open>The outline, whether it was cut, and how many bytes are missing.\<close>

definition fit_outline :: "nat option \<Rightarrow> nat \<Rightarrow> string \<Rightarrow> string \<times> bool \<times> nat" where
  "fit_outline budget bpt yaml =
     (case budget of
        None \<Rightarrow> (yaml, False, 0)
      | Some b \<Rightarrow>
          if byte_cap b bpt < length yaml
          then (let cut = line_cut yaml (floor_boundary yaml (min (byte_cap b bpt) (length yaml)));
                    omitted = length yaml - cut
                in (take cut yaml @ truncation_note omitted, True, omitted))
          else (yaml, False, 0))"

section \<open>Observation\<close>

record obs_opts =
  oo_budget :: "nat option"
  oo_max_actionable :: "nat option"

record actionable =
  an_ref :: string
  an_node_id :: nat
  an_role :: string
  an_name :: "string option"
  an_tag :: string
  an_input_type :: "string option"
  an_disabled :: bool
  an_selector :: string

record obs_result =
  or_url :: string
  or_title :: string
  or_generation :: "64 word"
  or_yaml :: string
  or_truncated :: bool
  or_omitted_bytes :: nat
  or_actionable :: "actionable list"
  or_omitted_elements :: nat
  or_tokens :: nat

definition actionable_of :: "string \<Rightarrow> interactive_element \<Rightarrow> actionable" where
  "actionable_of r el =
     \<lparr>an_ref = r, an_node_id = ie_node_id el, an_role = ie_role el, an_name = ie_name el, an_tag = ie_tag el,
      an_input_type = ie_input_type el, an_disabled = ie_disabled el, an_selector = ie_selector el\<rparr>"

text \<open>References are minted in the order of the list.\<close>

fun mint_actionable ::
  "string \<Rightarrow> 64 word \<Rightarrow> dom_snapshot \<Rightarrow> interactive_element list \<Rightarrow> ref_registry
    \<Rightarrow> (actionable list \<times> ref_registry) option" where
  "mint_actionable key gen sn [] rr = Some ([], rr)"
| "mint_actionable key gen sn (el # els) rr =
     Option.bind (fingerprint sn (ie_node_id el)) (\<lambda>fp.
       let (r, rr1) = ref_allocate key (ie_node_id el) gen fp (ie_selector el) rr
       in map_option (\<lambda>(as, rr2). (actionable_of r el # as, rr2)) (mint_actionable key gen sn els rr1))"

definition ref_for :: "actionable list \<Rightarrow> nat \<Rightarrow> string option" where
  "ref_for as i = map_option an_ref (find (\<lambda>a. an_node_id a = i) (rev as))"

definition observe_session ::
  "(nat \<Rightarrow> bool) \<Rightarrow> nat \<Rightarrow> obs_opts \<Rightarrow> string \<Rightarrow> string \<Rightarrow> 64 word \<Rightarrow> dom_snapshot option \<Rightarrow> ref_registry
    \<Rightarrow> (obs_result \<times> ref_registry) option" where
  "observe_session visible bpt opts key u gen snap rr =
     (case snap of
        None \<Rightarrow>
          Some (\<lparr>or_url = u, or_title = [], or_generation = gen, or_yaml = [], or_truncated = False, or_omitted_bytes = 0,
                 or_actionable = [], or_omitted_elements = 0, or_tokens = 0\<rparr>, rr)
      | Some sn \<Rightarrow>
          Option.bind (interactive_elements sn) (\<lambda>els.
            let cap = (case oo_max_actionable opts of Some m \<Rightarrow> m | None \<Rightarrow> 64)
            in Option.bind (mint_actionable key gen sn (take cap els) rr) (\<lambda>(as, rr1).
               map_option
                 (\<lambda>(yaml, _).
                    let (out, cut, omitted) = fit_outline (oo_budget opts) bpt yaml
                    in (\<lparr>or_url = u, or_title = sn_title sn, or_generation = gen, or_yaml = out, or_truncated = cut,
                          or_omitted_bytes = omitted, or_actionable = as, or_omitted_elements = length els - cap,
                          or_tokens = length out div bpt\<rparr>, rr1))
                 (render_aria_yaml visible (\<lambda>i u. (ref_for as i, u)) sn ()))))"

section \<open>The memory of sites\<close>

record site_file =
  sf_selectors :: "(string, nat) dict"
  sf_login_markers :: "string list"
  sf_endpoints :: "string list"

definition site_file_empty :: site_file where
  "site_file_empty = \<lparr>sf_selectors = [], sf_login_markers = [], sf_endpoints = []\<rparr>"

text \<open>The files that can be read and parsed, by path below the directory of sites.\<close>

record site_store =
  ss_files :: "(string, site_file) dict"
  ss_writable :: bool

fun trim_start_str :: "nat \<Rightarrow> string \<Rightarrow> string \<Rightarrow> string" where
  "trim_start_str 0 p s = s"
| "trim_start_str (Suc k) p s = (case strip_prefix s p of Some r \<Rightarrow> trim_start_str k p r | None \<Rightarrow> s)"

definition trim_start_matches :: "string \<Rightarrow> string \<Rightarrow> string" where
  "trim_start_matches p s = trim_start_str (length s) p s"

definition site_char :: "char \<Rightarrow> bool" where
  "site_char c \<longleftrightarrow> is_ascii_alnum c \<or> c = CHR ''.'' \<or> c = CHR ''-''"

definition path_for :: "string \<Rightarrow> string option" where
  "path_for orig =
     (let host = takeWhile (\<lambda>c. c \<noteq> CHR '':'' \<and> c \<noteq> CHR ''/'')
                   (trim_start_matches ''https://'' (trim_start_matches ''http://'' orig))
      in if host = [] then None
         else Some (concat (map (\<lambda>u. if list_all site_char u then u else ''_'') (utf8_chars host)) @ ''.json''))"

definition site_load :: "string \<Rightarrow> site_store \<Rightarrow> site_file" where
  "site_load orig ss =
     (case path_for orig of
        None \<Rightarrow> site_file_empty
      | Some p \<Rightarrow> (case dict_get (ss_files ss) p of Some f \<Rightarrow> f | None \<Rightarrow> site_file_empty))"

definition site_save :: "string \<Rightarrow> site_file \<Rightarrow> site_store \<Rightarrow> site_store" where
  "site_save orig f ss =
     (case path_for orig of
        None \<Rightarrow> ss
      | Some p \<Rightarrow> if ss_writable ss then ss\<lparr>ss_files := dict_insert p f (ss_files ss)\<rparr> else ss)"

text \<open>The count is 32-bit; adding one wraps, as in a release build.\<close>

definition record_selector :: "string \<Rightarrow> string \<Rightarrow> site_store \<Rightarrow> site_store" where
  "record_selector orig sel ss =
     (let f = site_load orig ss;
          n = (case dict_get (sf_selectors f) sel of Some k \<Rightarrow> k | None \<Rightarrow> 0)
      in site_save orig (f\<lparr>sf_selectors := dict_insert sel ((n + 1) mod 4294967296) (sf_selectors f)\<rparr>) ss)"

definition record_login_marker :: "string \<Rightarrow> string \<Rightarrow> site_store \<Rightarrow> site_store" where
  "record_login_marker orig marker ss =
     (let f = site_load orig ss
      in site_save orig
           (if marker \<in> set (sf_login_markers f) then f else f\<lparr>sf_login_markers := sf_login_markers f @ [marker]\<rparr>) ss)"

definition push_endpoint :: "string \<Rightarrow> string list \<Rightarrow> string list" where
  "push_endpoint e es =
     (if e \<in> set es then es else (let es' = es @ [e] in if 32 < length es' then tl es' else es'))"

definition record_endpoint :: "string \<Rightarrow> string \<Rightarrow> site_store \<Rightarrow> site_store" where
  "record_endpoint orig e ss =
     (let f = site_load orig ss in site_save orig (f\<lparr>sf_endpoints := push_endpoint e (sf_endpoints f)\<rparr>) ss)"

text \<open>Stronger first, then by name.\<close>

definition hint_before :: "string \<times> nat \<Rightarrow> string \<times> nat \<Rightarrow> bool" where
  "hint_before a b \<longleftrightarrow> snd b < snd a \<or> (snd a = snd b \<and> str_le (fst a) (fst b))"

fun hint_insert :: "string \<times> nat \<Rightarrow> (string \<times> nat) list \<Rightarrow> (string \<times> nat) list" where
  "hint_insert a [] = [a]"
| "hint_insert a (b # bs) = (if hint_before a b then a # b # bs else b # hint_insert a bs)"

definition hint_sort :: "(string \<times> nat) list \<Rightarrow> (string \<times> nat) list" where
  "hint_sort xs = foldr hint_insert xs []"

definition site_hints :: "string \<Rightarrow> site_store \<Rightarrow> string list" where
  "site_hints orig ss =
     (let f = site_load orig ss
      in map (\<lambda>(s, n). s @ '' (verified '' @ show_count n @ ''x)'') (take 6 (hint_sort (sf_selectors f)))
         @ map (\<lambda>m. ''login: '' @ m) (take 2 (sf_login_markers f))
         @ map (\<lambda>e. ''api: '' @ e) (take 4 (rev (sf_endpoints f))))"

section \<open>The budget keeps whole lines\<close>

lemma floor_boundary_le: "floor_boundary s n \<le> n \<and> is_char_boundary s (floor_boundary s n)"
  by (induction n) (auto simp: is_char_boundary_def)

lemma drop_to_line:
  fixes p :: string
  assumes "CHR 0x0A \<in> set p"
  shows "\<exists>q. p = q @ CHR 0x0A # rev (takeWhile (\<lambda>c. c \<noteq> CHR 0x0A) (rev p))
    \<and> length (dropWhile (\<lambda>c. c \<noteq> CHR 0x0A) (rev p)) = Suc (length q)"
proof -
  let ?P = "\<lambda>c. c \<noteq> CHR 0x0A"
  have "dropWhile ?P (rev p) \<noteq> []" using assms by (auto simp: dropWhile_eq_Nil_conv)
  then obtain c d where d: "dropWhile ?P (rev p) = c # d" by (cases "dropWhile ?P (rev p)") auto
  then have "c = CHR 0x0A" using hd_dropWhile [of ?P "rev p"] assms by auto
  have "rev p = takeWhile ?P (rev p) @ c # d" using takeWhile_dropWhile_id [of ?P "rev p"] d by simp
  then have "p = rev d @ c # rev (takeWhile ?P (rev p))" by (metis append.assoc append_Cons append_Nil rev_append rev_rev_ident rev.simps(2))
  with d \<open>c = _\<close> show ?thesis by (intro exI [of _ "rev d"]) simp
qed

lemma line_cut_le: "line_cut s n \<le> min n (length s)"
proof (cases "CHR 0x0A \<in> set (take n s)")
  case True
  from drop_to_line [OF this] obtain q where "take n s = q @ CHR 0x0A # rev (takeWhile (\<lambda>c. c \<noteq> CHR 0x0A) (rev (take n s)))"
    "line_cut s n = Suc (length q)" using True by (auto simp: line_cut_def)
  then have "line_cut s n \<le> length (take n s)" by (metis length_append length_Cons add_Suc_right le_add1 Suc_le_mono add.commute)
  then show ?thesis by simp
qed (simp add: line_cut_def)

lemma line_cut_ends:
  "line_cut s n = min n (length s) \<and> CHR 0x0A \<notin> set (take (line_cut s n) s)
   \<or> (\<exists>q. take (line_cut s n) s = q @ [CHR 0x0A])"
proof (cases "CHR 0x0A \<in> set (take n s)")
  case True
  from drop_to_line [OF this] obtain q r where q: "take n s = q @ CHR 0x0A # r" "line_cut s n = Suc (length q)"
    using True unfolding line_cut_def Let_def by (metis (full_types))
  moreover have "Suc (length q) \<le> n" using line_cut_le [of s n] q(2) by simp
  then have "take (line_cut s n) s = take (Suc (length q)) (take n s)" by (simp add: q(2) min_absorb1)
  ultimately show ?thesis using q by auto
next
  case False
  have "take (length (take n s)) s = take n s" by (simp add: min_def)
  with False show ?thesis by (simp add: line_cut_def min.commute)
qed

text \<open>An outline within the budget is returned whole; a longer one is cut to a prefix of at most
  the budget, after a line when the prefix has one, and the note says how many bytes are missing.\<close>

theorem outline_budget:
  "fit_outline (Some b) bpt yaml =
     (if length yaml \<le> byte_cap b bpt then (yaml, False, 0)
      else (let k = line_cut yaml (floor_boundary yaml (byte_cap b bpt))
            in (take k yaml @ truncation_note (length yaml - k), True, length yaml - k)))
   \<and> line_cut yaml (floor_boundary yaml (byte_cap b bpt)) \<le> byte_cap b bpt
   \<and> (let k = line_cut yaml (floor_boundary yaml (byte_cap b bpt))
      in (\<exists>q. take k yaml = q @ [CHR 0x0A]) \<or> (CHR 0x0A \<notin> set (take k yaml) \<and> is_char_boundary yaml k))"
proof -
  let ?m = "floor_boundary yaml (byte_cap b bpt)" and ?k = "line_cut yaml (floor_boundary yaml (byte_cap b bpt))"
  have le: "?k \<le> byte_cap b bpt" using line_cut_le [of yaml ?m] floor_boundary_le [of yaml "byte_cap b bpt"] by simp
  have "is_char_boundary yaml (min ?m (length yaml))"
    using floor_boundary_le [of yaml "byte_cap b bpt"] by (auto simp: is_char_boundary_def min_def)
  then have "(\<exists>q. take ?k yaml = q @ [CHR 0x0A]) \<or> (CHR 0x0A \<notin> set (take ?k yaml) \<and> is_char_boundary yaml ?k)"
    using line_cut_ends [of yaml ?m] by auto
  with le show ?thesis by (simp add: fit_outline_def Let_def min_def not_less)
qed

section \<open>Site files\<close>

lemma site_path_chars:
  assumes "path_for orig = Some p" and "c \<in> set p"
  shows "site_char c \<or> c = CHR ''_''"
proof -
  let ?host = "takeWhile (\<lambda>c. c \<noteq> CHR '':'' \<and> c \<noteq> CHR ''/'')
    (trim_start_matches ''https://'' (trim_start_matches ''http://'' orig))"
  let ?name = "concat (map (\<lambda>u. if list_all site_char u then u else ''_'') (utf8_chars ?host))"
  have p: "p = ?name @ ''.json''" using assms(1) by (auto simp: path_for_def Let_def split: if_split_asm)
  have "site_char c \<or> c = CHR ''_''" if "c \<in> set ?name"
    using that by (auto simp: list_all_iff split: if_split_asm)
  moreover have "\<forall>d \<in> set ''.json''. site_char d" by code_simp
  ultimately show ?thesis using assms(2) p by auto
qed

text \<open>Whatever origin a page has, its file lies directly in the directory of sites: the name has
  no separator and is none of the two dot entries.\<close>

theorem site_file_stays_inside:
  assumes "path_for orig = Some p"
  shows "CHR ''/'' \<notin> set p \<and> CHR 0x5C \<notin> set p \<and> p \<noteq> ''.'' \<and> p \<noteq> ''..'' \<and> ends_with p ''.json''"
proof -
  have "\<not> site_char (CHR ''/'')" "\<not> site_char (CHR 0x5C)" by code_simp+
  then have "CHR ''/'' \<notin> set p" "CHR 0x5C \<notin> set p" using site_path_chars [OF assms] by auto
  moreover have "\<exists>q. p = q @ ''.json''" using assms by (auto simp: path_for_def Let_def split: if_split_asm)
  ultimately show ?thesis by (auto simp: ends_with_iff)
qed

definition endpoints_ok :: "string list \<Rightarrow> bool" where
  "endpoints_ok es \<longleftrightarrow> length es \<le> 32 \<and> distinct es"

lemma push_endpoint_ok: "endpoints_ok es \<Longrightarrow> endpoints_ok (push_endpoint e es)"
  by (cases es) (auto simp: endpoints_ok_def push_endpoint_def Let_def)

lemma site_file_cases:
  "P site_file_empty \<Longrightarrow> (\<And>q f. dict_get (ss_files ss) q = Some f \<Longrightarrow> P f) \<Longrightarrow> P (site_load orig ss)"
  by (auto simp: site_load_def split: option.split)

lemma site_save_files:
  "dict_get (ss_files (site_save orig f ss)) q = Some g \<Longrightarrow> g = f \<or> dict_get (ss_files ss) q = Some g"
  by (auto simp: site_save_def dict_get_insert split: option.split_asm if_split_asm)

definition sites_ok :: "site_store \<Rightarrow> bool" where
  "sites_ok ss \<longleftrightarrow> (\<forall>q f. dict_get (ss_files ss) q = Some f \<longrightarrow>
     endpoints_ok (sf_endpoints f) \<and> distinct (sf_login_markers f))"

text \<open>The endpoints of a site stay at most 32 and, like its login markers, free of repetitions.\<close>

theorem site_files_bounded:
  assumes "sites_ok ss"
  shows "sites_ok (record_selector orig x ss) \<and> sites_ok (record_login_marker orig x ss) \<and> sites_ok (record_endpoint orig x ss)"
proof -
  let ?ok = "\<lambda>f. endpoints_ok (sf_endpoints f) \<and> distinct (sf_login_markers f)"
  have load: "?ok (site_load orig ss)"
    by (rule site_file_cases) (use assms in \<open>auto simp: sites_ok_def site_file_empty_def endpoints_ok_def\<close>)
  have save: "sites_ok (site_save orig f ss)" if "?ok f" for f
    unfolding sites_ok_def using site_save_files assms that unfolding sites_ok_def by blast
  show ?thesis using load push_endpoint_ok
    by (auto simp: record_selector_def record_login_marker_def record_endpoint_def Let_def intro!: save)
qed

subsection \<open>Witnesses\<close>

text \<open>The origin of a page on a host named by dots.\<close>

theorem site_file_stays_inside_witness:
  "path_for ''https://../x'' = Some ''...json'' \<and> CHR ''/'' \<notin> set ''...json'' \<and> ''...json'' \<noteq> ''..''"
proof -
  have "path_for ''https://../x'' = Some ''...json''" by code_simp
  with site_file_stays_inside [OF this] show ?thesis by blast
qed

theorem site_files_bounded_witness:
  "sites_ok (record_endpoint ''https://a.test'' ''GET /api'' \<lparr>ss_files = [], ss_writable = True\<rparr>)"
  using site_files_bounded [of "\<lparr>ss_files = [], ss_writable = True\<rparr>" "''https://a.test''" "''GET /api''"]
  by (simp add: sites_ok_def)

end
