(* ===== verification/AgentHost.thy ===== *)
theory AgentHost
  imports AgentPage Broker
begin

text \<open>
  The host of the agent's programs (\<open>oxibrowser/src/agent/repl.rs\<close>): the commands that act on the
  page, with the gates, the broker, the references and the memory of sites they go through, and the
  queue of events (\<open>events.rs\<close>). The session is the record of its operations. Those that run code of
  the page give \<open>None\<close> when they never complete: \<open>se_act\<close> (a listener waits for a dialog nobody
  answers), \<open>se_observe\<close> (an observation first runs the timers that are due, and a callback may wait or
  loop), \<open>se_hit\<close> and \<open>se_replay\<close>. Only \<open>se_act\<close> is called under a time limit, and not by
  \<open>fill_credential\<close>.
\<close>

section \<open>The session\<close>

record request_record =
  rq_type :: string
  rq_url :: string
  rq_method :: string

record 's session_ops =
  se_url :: "'s \<Rightarrow> string option"
  se_generation :: "'s \<Rightarrow> 64 word"
  se_key :: "'s \<Rightarrow> string"
  se_log :: "'s \<Rightarrow> request_record list"
  se_observe :: "'s \<Rightarrow> ((string + native_observation) \<times> 's) option"
  se_act :: "native_target \<Rightarrow> native_input \<Rightarrow> 's \<Rightarrow> ((string + native_receipt) \<times> 's) option"
  se_quick :: "native_target \<Rightarrow> native_input \<Rightarrow> 's \<Rightarrow> bool" \<comment> \<open>within three seconds\<close>
  se_parked :: "native_target \<Rightarrow> native_input \<Rightarrow> 's \<Rightarrow> 's" \<comment> \<open>after three seconds\<close>
  se_replay :: "request_record \<Rightarrow> 's \<Rightarrow> ((string + string) \<times> 's) option" \<comment> \<open>through the page's \<open>fetch\<close>\<close>
  se_hit :: "string \<Rightarrow> string \<Rightarrow> 's \<Rightarrow> ((string + int option) \<times> 's) option" \<comment> \<open>the number the page's \<open>elementFromPoint\<close> gives\<close>

record host_error =
  he_code :: string
  he_message :: string

definition host_err :: "string \<Rightarrow> string \<Rightarrow> host_error" where
  "host_err code message = \<lparr>he_code = code, he_message = message\<rparr>"

definition gate_err :: "gate_error \<Rightarrow> host_error" where
  "gate_err e = \<lparr>he_code = ge_code e, he_message = ge_message e\<rparr>"

definition loc_err :: "loc_error \<Rightarrow> host_error" where
  "loc_err e = \<lparr>he_code = le_code e, he_message = le_message e\<rparr>"

text \<open>What the host owns, and what it is given: the clock, the origin of a URL, the broker's parameters.\<close>

record 's host =
  ho_context :: browser_context
  ho_surface :: "login_surface option"
  ho_manager :: manager
  ho_broker :: "policy_engine option"
  ho_refs :: ref_registry
  ho_sites :: site_store
  ho_dialog :: bool
  ho_session :: 's

record host_env =
  hv_now :: string
  hv_time :: int
  hv_origin :: "string \<Rightarrow> string option"
  hv_policy :: policy_env
  hv_provider :: provider_ops

datatype act_kind = ActClick | ActFill string | ActRef

datatype host_value =
    RefValue string "64 word"
  | ActedValue string "64 word" nat bool \<comment> \<open>reference, generation, callbacks, navigation\<close>
  | ClickedValue string string nat nat \<comment> \<open>x, y, node, callbacks\<close>
  | FilledValue string string "string option" nat \<comment> \<open>handle, fingerprint, user name, callbacks\<close>

type_synonym 's host_step = "((host_error + host_value) \<times> 's host) option"

section \<open>Actions\<close>

definition blocked_on_dialog :: host_error where
  "blocked_on_dialog = host_err ''BLOCKED_ON_DIALOG''
     (''action parked on a page dialog '' @ em_dash
        @ '' waitForEvent('' @ [CHR 0x27] @ ''dialog'' @ [CHR 0x27] @ ''), then accept/dismiss and re-observe'')"

definition action_stuck :: host_error where
  "action_stuck = host_err ''ACTION_STUCK''
     (''action did not complete within 3s and no dialog is pending '' @ em_dash
        @ '' the page may be busy; re-observe and retry'')"

definition native_act_guarded ::
  "'s session_ops \<Rightarrow> native_target \<Rightarrow> native_input \<Rightarrow> 's host \<Rightarrow> (host_error + native_receipt) \<times> 's host" where
  "native_act_guarded ops t input h =
     (case (se_quick ops t input (ho_session h), se_act ops t input (ho_session h)) of
        (True, Some (res, s')) \<Rightarrow> (map_err (host_err ''ACTION_FAILED'') res, h\<lparr>ho_session := s'\<rparr>)
      | _ \<Rightarrow> (Inl (if ho_dialog h then blocked_on_dialog else action_stuck),
              h\<lparr>ho_session := se_parked ops t input (ho_session h)\<rparr>))"

definition not_actionable :: "string \<Rightarrow> host_error" where
  "not_actionable what = host_err ''NOT_ACTIONABLE'' (what @ '' has no native target'')"

text \<open>Deliver an input to an observed element and report it under its reference.\<close>

definition deliver_input ::
  "'s session_ops \<Rightarrow> native_observation \<Rightarrow> nat \<Rightarrow> native_input \<Rightarrow> string \<Rightarrow> 64 word \<Rightarrow> 's host \<Rightarrow> 's host_step" where
  "deliver_input ops ob i input r gen h =
     Option.bind (observation_target ob i) (\<lambda>target.
       case target of
         None \<Rightarrow> Some (Inl (not_actionable ''element''), h)
       | Some t \<Rightarrow>
           (case native_act_guarded ops t input h of
              (Inl e, h') \<Rightarrow> Some (Inl e, h')
            | (Inr rc, h') \<Rightarrow> Some (Inr (ActedValue r gen (nr_callbacks rc) (nr_navigation rc)), h')))"

definition act_on ::
  "'s session_ops \<Rightarrow> host_env \<Rightarrow> native_observation \<Rightarrow> interactive_element \<Rightarrow> act_kind \<Rightarrow> string \<Rightarrow> 64 word \<Rightarrow> 's host
    \<Rightarrow> 's host_step" where
  "act_on ops ev ob el kind r gen h =
     (case kind of
        ActRef \<Rightarrow> Some (Inr (RefValue r gen), h)
      | ActClick \<Rightarrow>
          (let u = (case se_url ops (ho_session h) of Some v \<Rightarrow> v | None \<Rightarrow> [])
           in Option.bind (check_click (hv_now ev) (ho_context h) (ho_surface h) u (no_snapshot ob) el (ho_manager h)) (\<lambda>(g, mg).
                let h1 = h\<lparr>ho_manager := mg\<rparr>
                in (case g of
                      Inl e \<Rightarrow> Some (Inl (gate_err e), h1)
                    | Inr _ \<Rightarrow>
                        map_option
                          (\<lambda>(res, h2). (res,
                             case (res, hv_origin ev u) of
                               (Inr v, Some orig) \<Rightarrow> h2\<lparr>ho_sites := record_selector orig (ie_selector el) (ho_sites h2)\<rparr>
                             | _ \<Rightarrow> h2))
                          (deliver_input ops ob (ie_node_id el) NativeClick r gen h1))))
      | ActFill v \<Rightarrow>
          (case check_fill (ho_context h) el of
             Inl e \<Rightarrow> Some (Inl (gate_err e), h)
           | Inr _ \<Rightarrow> deliver_input ops ob (ie_node_id el) (NativeFill v) r gen h))"

definition host_act ::
  "'s session_ops \<Rightarrow> host_env \<Rightarrow> locator_query \<Rightarrow> act_kind \<Rightarrow> 's host \<Rightarrow> 's host_step" where
  "host_act ops ev q kind h =
     (case se_observe ops (ho_session h) of
        None \<Rightarrow> None
      | Some (Inl e, s1) \<Rightarrow> Some (Inl (host_err ''OBSERVE_ERROR'' e), h\<lparr>ho_session := s1\<rparr>)
      | Some (Inr ob, s1) \<Rightarrow>
          (let h1 = h\<lparr>ho_session := s1\<rparr>
           in Option.bind (resolve_locator (no_snapshot ob) q) (\<lambda>res.
                case res of
                  Inl e \<Rightarrow> Some (Inl (loc_err e), h1)
                | Inr el \<Rightarrow>
                    Option.bind (fingerprint (no_snapshot ob) (ie_node_id el)) (\<lambda>fp.
                      let gen = se_generation ops s1;
                          (r, refs) = ref_allocate (se_key ops s1) (ie_node_id el) gen fp (ie_selector el) (ho_refs h1)
                      in act_on ops ev ob el kind r gen (h1\<lparr>ho_refs := refs\<rparr>)))))"

text \<open>The click at a point: no gate is asked.\<close>

definition no_element_message :: "string \<Rightarrow> string \<Rightarrow> string" where
  "no_element_message x y =
     ''no element at ('' @ x @ '', '' @ y @ '') '' @ em_dash @ '' check page.screenshot() coordinates''"

definition mouse_click :: "'s session_ops \<Rightarrow> string \<Rightarrow> string \<Rightarrow> 's host \<Rightarrow> 's host_step" where
  "mouse_click ops x y h =
     (case se_hit ops x y (ho_session h) of
        None \<Rightarrow> None
      | Some (Inl e, s1) \<Rightarrow> Some (Inl (host_err ''HIT_TEST_FAILED'' e), h\<lparr>ho_session := s1\<rparr>)
      | Some (Inr hit, s1) \<Rightarrow>
          (case hit of
             None \<Rightarrow> Some (Inl (host_err ''NO_ELEMENT_AT_POINT'' (no_element_message x y)), h\<lparr>ho_session := s1\<rparr>)
           | Some v \<Rightarrow>
               if v < 0 then Some (Inl (host_err ''NO_ELEMENT_AT_POINT'' (no_element_message x y)), h\<lparr>ho_session := s1\<rparr>)
               else (case se_observe ops s1 of
                       None \<Rightarrow> None
                     | Some (Inl e, s2) \<Rightarrow> Some (Inl (host_err ''OBSERVE_ERROR'' e), h\<lparr>ho_session := s2\<rparr>)
                     | Some (Inr ob, s2) \<Rightarrow>
                         (let i = as_u32 (nat v); h2 = h\<lparr>ho_session := s2\<rparr>
                          in Option.bind (observation_target ob i) (\<lambda>target.
                               case target of
                                 None \<Rightarrow> Some (Inl (not_actionable ''hit-test node''), h2)
                               | Some t \<Rightarrow>
                                   (case native_act_guarded ops t NativeClick h2 of
                                      (Inl e, h3) \<Rightarrow> Some (Inl e, h3)
                                    | (Inr rc, h3) \<Rightarrow> Some (Inr (ClickedValue x y i (nr_callbacks rc)), h3)))))))"

section \<open>Credentials\<close>

definition source_error_debug :: "source_error \<Rightarrow> string" where
  "source_error_debug e =
     (let show = (\<lambda>name reason. name @ '' { reason: '' @ debug_str reason @ '' }'')
      in case e of
           SrcConsentRequired r \<Rightarrow> show ''ConsentRequired'' r
         | SrcOriginMismatch r \<Rightarrow> show ''OriginMismatch'' r
         | SrcNotFound r \<Rightarrow> show ''NotFound'' r
         | SrcUnavailable r \<Rightarrow> show ''Unavailable'' r)"

definition is_password_element :: "interactive_element \<Rightarrow> bool" where
  "is_password_element el \<longleftrightarrow>
     (case ie_input_type el of Some ty \<Rightarrow> eq_ignore_ascii_case ty ''password'' | None \<Rightarrow> False)"

text \<open>The value is typed once the broker has released it.\<close>

definition type_credential ::
  "'s session_ops \<Rightarrow> locator_query \<Rightarrow> resolved_login \<Rightarrow> 's host \<Rightarrow> 's host_step" where
  "type_credential ops q rl h =
     (case se_observe ops (ho_session h) of
        None \<Rightarrow> None
      | Some (Inl e, s1) \<Rightarrow> Some (Inl (host_err ''OBSERVE_ERROR'' e), h\<lparr>ho_session := s1\<rparr>)
      | Some (Inr ob, s1) \<Rightarrow>
          (let h1 = h\<lparr>ho_session := s1\<rparr>
           in Option.bind (resolve_locator (no_snapshot ob) q) (\<lambda>res.
                case res of
                  Inl e \<Rightarrow> Some (Inl (loc_err e), h1)
                | Inr el \<Rightarrow>
                    if \<not> is_password_element el
                    then Some (Inl (host_err ''NOT_A_PASSWORD_FIELD'' ''fillCredential targets password fields only''), h1)
                    else Option.bind (observation_target ob (ie_node_id el)) (\<lambda>target.
                      case target of
                        None \<Rightarrow> Some (Inl (not_actionable ''element''), h1)
                      | Some t \<Rightarrow>
                          map_option
                            (\<lambda>(res2, s2).
                               (case res2 of
                                  Inl e \<Rightarrow> Inl (host_err ''ACTION_FAILED'' e)
                                | Inr rc \<Rightarrow> Inr (FilledValue (rl_handle rl) (rl_fingerprint rl) (rl_username rl) (nr_callbacks rc)),
                                h1\<lparr>ho_session := s2\<rparr>))
                            (se_act ops t (NativeFillCredential (rl_password rl)) (ho_session h1))))))"

definition fill_credential ::
  "'s session_ops \<Rightarrow> host_env \<Rightarrow> locator_query \<Rightarrow> string \<Rightarrow> 's host \<Rightarrow> 's host_step" where
  "fill_credential ops ev q account h =
     (case ho_broker h of
        None \<Rightarrow> Some (Inl (host_err ''BROKER_UNAVAILABLE'' ''fillCredential requires --account''), h)
      | Some eng \<Rightarrow>
          (case ho_surface h of
             None \<Rightarrow> Some (Inl (host_err ''BROKER_UNAVAILABLE'' ''no login surface''), h)
           | Some sf \<Rightarrow>
               (case registry_get account (mg_registry (ho_manager h)) of
                  Inl e \<Rightarrow> Some (Inl (host_err ''ACCOUNT_NOT_FOUND'' (core_error_display e)), h)
                | Inr rec \<Rightarrow>
                    (case se_url ops (ho_session h) of
                       None \<Rightarrow> Some (Inl (host_err ''NO_PAGE'' ''fillCredential needs a page with an origin''), h)
                     | Some u \<Rightarrow>
                         (case origin_parse (ce_parser (pv_consent (hv_policy ev))) u of
                            Inl e \<Rightarrow> Some (Inl (host_err ''NO_PAGE'' (''page origin unusable: '' @ e)), h)
                          | Inr orig \<Rightarrow>
                              (case resolve_login (hv_policy ev) (hv_provider ev) (ac_credentials rec) (ac_scope rec) orig
                                      (hv_time ev) eng of
                                 (Inl e, eng') \<Rightarrow>
                                   Some (Inl (host_err ''CONSENT_REQUIRED'' (source_error_debug e)), h\<lparr>ho_broker := Some eng'\<rparr>)
                               | (Inr rl, eng') \<Rightarrow> type_credential ops q rl (h\<lparr>ho_broker := Some eng'\<rparr>)))))))"

section \<open>Replay\<close>

text \<open>The captured request a replay picks: the last that matches.\<close>

definition replay_matches :: "string \<Rightarrow> request_record \<Rightarrow> bool" where
  "replay_matches sub r \<longleftrightarrow>
     (rq_type r \<noteq> ''Document'' \<and> sub = []) \<or> (contains_str (rq_url r) sub \<and> \<not> contains_str (rq_url r) ''data:'')"

definition replay_target :: "'s session_ops \<Rightarrow> string \<Rightarrow> 's host \<Rightarrow> host_error + request_record" where
  "replay_target ops sub h =
     (case find (replay_matches sub) (rev (se_log ops (ho_session h))) of
        Some r \<Rightarrow> Inr r
      | None \<Rightarrow> Inl (host_err ''REPLAY_TARGET_NOT_FOUND''
          (''no captured request matches '' @ debug_str sub @ '' '' @ em_dash @ '' navigate/interact first'')))"

text \<open>The answer is JSON text.\<close>

definition replay ::
  "'s session_ops \<Rightarrow> host_env \<Rightarrow> string \<Rightarrow> 's host \<Rightarrow> ((host_error + string) \<times> 's host) option" where
  "replay ops ev sub h =
     (case replay_target ops sub h of
        Inl e \<Rightarrow> Some (Inl e, h)
      | Inr r \<Rightarrow>
          (case se_replay ops r (ho_session h) of
             None \<Rightarrow> None
           | Some (Inl e, s') \<Rightarrow> Some (Inl (host_err ''REPLAY_FAILED'' e), h\<lparr>ho_session := s'\<rparr>)
           | Some (Inr payload, s') \<Rightarrow>
               Some (Inr payload,
                h\<lparr>ho_session := s',
                  ho_sites := (case hv_origin ev (rq_url r) of
                      Some orig \<Rightarrow> record_endpoint orig (rq_method r @ '' '' @ rq_url r) (ho_sites h)
                    | None \<Rightarrow> ho_sites h)\<rparr>)))"

section \<open>What reaches the page\<close>

lemma fingerprint_ends: "document sn t \<Longrightarrow> i \<in> set (tree_ids t) \<Longrightarrow> \<exists>f. fingerprint sn i = Some f"
  using deep_text_ends [of sn t i] by (auto simp: fingerprint_def split: option.splits)

lemma resolved_in_document:
  assumes "document sn t" and "resolve_locator sn q = Some (Inr el)"
  shows "ie_node_id el \<in> set (tree_ids t)"
proof -
  obtain els where els: "interactive_elements sn = Some els"
    "map ie_node_id els = all_with (\<lambda>n. is_element n \<and> is_interactive_element n) (nodes_of sn t)"
    using interactive_elements_ends [OF assms(1)] by blast
  then have "el \<in> set els" using assms(2) by (auto simp: resolve_locator_def dest: pick_mem)
  then have "ie_node_id el \<in> set (map ie_node_id els)" by simp
  then show ?thesis unfolding els(2) by (auto simp: all_with_def nodes_of_def visit_def)
qed

lemma target_ends: "document (no_snapshot ob) t \<Longrightarrow> i \<in> set (tree_ids t) \<Longrightarrow> \<exists>tg. observation_target ob i = Some tg"
  using fingerprint_ends [of "no_snapshot ob" t i] by (auto simp: observation_target_def split: option.splits)

text \<open>What a command starts from: an observation of a document and the element it names.\<close>

definition finds ::
  "'s session_ops \<Rightarrow> locator_query \<Rightarrow> 's host \<Rightarrow> native_observation \<Rightarrow> 's \<Rightarrow> dom_tree \<Rightarrow> interactive_element \<Rightarrow> bool" where
  "finds ops q h ob s1 t el \<longleftrightarrow>
     se_observe ops (ho_session h) = Some (Inr ob, s1) \<and> document (no_snapshot ob) t
     \<and> resolve_locator (no_snapshot ob) q = Some (Inr el)"

lemma host_act_found:
  assumes "finds ops q h ob s1 t el"
  obtains r refs where
    "host_act ops ev q kind h = act_on ops ev ob el kind r (se_generation ops s1) (h\<lparr>ho_session := s1, ho_refs := refs\<rparr>)"
proof -
  have f: "se_observe ops (ho_session h) = Some (Inr ob, s1)" "document (no_snapshot ob) t"
    "resolve_locator (no_snapshot ob) q = Some (Inr el)" using assms by (auto simp: finds_def)
  obtain fp where fp: "fingerprint (no_snapshot ob) (ie_node_id el) = Some fp"
    using fingerprint_ends [OF f(2) resolved_in_document [OF f(2,3)]] by blast
  obtain r refs where "ref_allocate (se_key ops s1) (ie_node_id el) (se_generation ops s1) fp (ie_selector el) (ho_refs h) = (r, refs)"
    by (cases "ref_allocate (se_key ops s1) (ie_node_id el) (se_generation ops s1) fp (ie_selector el) (ho_refs h)") blast
  then show thesis using that [of r refs] by (simp add: host_act_def f fp Let_def)
qed

text \<open>C12: The click the gate denies never reaches the page: in a credential-mode context bound to a
  readable account and without the irreversible capability, a click on an element whose label holds a
  pattern answers \<open>POLICY_DENIED\<close>; the session is as the observation left it, nothing is remembered
  of the site, and the denial is in the audit log.\<close>

theorem gated_click_not_delivered:
  assumes "finds ops q h ob s1 t el" and "ho_surface h = Some sf"
    and "gated (ho_context h) sf (ho_manager h) i r" and "\<not> irreversible_allowed (bc_id (ho_context h)) sf"
    and "p \<in> set default_irreversible_patterns \<union> set (patterns_of r)"
    and "contains_str (to_ascii_lowercase label) p"
    and "ie_name el = Some label \<or> take_chars 120 (ie_text el) = label"
  shows "\<exists>e h' pt. host_act ops ev q ActClick h = Some (Inl e, h') \<and> he_code e = ''POLICY_DENIED''
    \<and> ho_session h' = s1 \<and> ho_sites h' = ho_sites h
    \<and> ho_manager h' = record_event (irreversible_event (hv_now ev) r i pt False) (ho_manager h)"
proof -
  obtain rf refs where act: "host_act ops ev q ActClick h =
      act_on ops ev ob el ActClick rf (se_generation ops s1) (h\<lparr>ho_session := s1, ho_refs := refs\<rparr>)"
    using host_act_found [OF assms(1)] .
  have doc: "document (no_snapshot ob) t" "ie_node_id el \<in> set (tree_ids t)"
    using assms(1) resolved_in_document by (auto simp: finds_def)
  show ?thesis
    using label_denied [OF assms(3,4) doc assms(5-7), of "hv_now ev"
        "case se_url ops s1 of Some v \<Rightarrow> v | None \<Rightarrow> []"] assms(2)
    by (auto simp: act act_on_def Let_def gate_err_def)
qed

text \<open>C13: In credential mode a program cannot type a literal into a password field: the fill is
  answered \<open>POLICY_DENIED\<close> whatever the value, and the session is as the observation left it.\<close>

theorem password_literal_not_typed:
  assumes "finds ops q h ob s1 t el" and "bc_credential_mode (ho_context h)" and "is_password_element el"
  shows "\<exists>e h'. host_act ops ev q (ActFill v) h = Some (Inl e, h') \<and> he_code e = ''POLICY_DENIED'' \<and> ho_session h' = s1"
proof -
  obtain rf refs where act: "host_act ops ev q (ActFill v) h =
      act_on ops ev ob el (ActFill v) rf (se_generation ops s1) (h\<lparr>ho_session := s1, ho_refs := refs\<rparr>)"
    using host_act_found [OF assms(1)] .
  show ?thesis using assms(2,3)
    by (auto simp: act act_on_def check_fill_def is_password_element_def gate_err_def split: option.splits)
qed

lemma deliver_ends:
  assumes "document (no_snapshot ob) t" and "i \<in> set (tree_ids t)"
  shows "\<exists>res h'. deliver_input ops ob i input r gen h = Some (res, h')"
proof -
  obtain tg where "observation_target ob i = Some tg" using target_ends [OF assms] by blast
  then show ?thesis by (auto simp: deliver_input_def split: option.splits sum.splits prod.splits)
qed

lemma check_click_ends:
  assumes "document sn t" and "ie_node_id el \<in> set (tree_ids t)"
  shows "\<exists>g mg'. check_click now ctx surface u sn el mg = Some (g, mg')"
  using gate_form_ends [OF assms] by (auto simp: check_click_def Let_def split: option.splits sum.splits)

lemma act_on_ends:
  assumes "document (no_snapshot ob) t" and "ie_node_id el \<in> set (tree_ids t)"
  shows "\<exists>res h'. act_on ops ev ob el kind r gen h = Some (res, h')"
proof (cases kind)
  case ActClick
  let ?u = "case se_url ops (ho_session h) of Some v \<Rightarrow> v | None \<Rightarrow> []"
  obtain g mg where "check_click (hv_now ev) (ho_context h) (ho_surface h) ?u (no_snapshot ob) el (ho_manager h) = Some (g, mg)"
    using check_click_ends [OF assms] by blast
  moreover obtain res h' where "deliver_input ops ob (ie_node_id el) NativeClick r gen (h\<lparr>ho_manager := mg\<rparr>) = Some (res, h')"
    using deliver_ends [OF assms] by blast
  ultimately show ?thesis using ActClick by (simp add: act_on_def Let_def split: sum.split)
next
  case (ActFill v)
  then show ?thesis using deliver_ends [OF assms, of ops "NativeFill v" r gen h]
    by (auto simp: act_on_def split: sum.split)
qed (simp add: act_on_def)

lemma host_act_ends:
  assumes "\<And>ob s1. se_observe ops (ho_session h) = Some (Inr ob, s1) \<Longrightarrow> \<exists>t. document (no_snapshot ob) t"
  shows "host_act ops ev q kind h = None \<longleftrightarrow> se_observe ops (ho_session h) = None"
proof (cases "se_observe ops (ho_session h)")
  case None
  then show ?thesis by (simp add: host_act_def)
next
  case (Some p)
  obtain o1 s1 where p: "p = (o1, s1)" by (cases p)
  have "\<exists>res h'. host_act ops ev q kind h = Some (res, h')"
  proof (cases o1)
    case (Inr ob)
    then obtain t where doc: "document (no_snapshot ob) t" using assms [of ob s1] Some p by auto
    obtain res where res: "resolve_locator (no_snapshot ob) q = Some res" using resolve_ends [OF doc] by blast
    show ?thesis
    proof (cases res)
      case (Inr el)
      have "finds ops q h ob s1 t el" using Some p \<open>o1 = Inr ob\<close> doc res Inr by (simp add: finds_def)
      from host_act_found [OF this] obtain r refs where
        "host_act ops ev q kind h = act_on ops ev ob el kind r (se_generation ops s1) (h\<lparr>ho_session := s1, ho_refs := refs\<rparr>)" .
      then show ?thesis using act_on_ends [OF doc resolved_in_document [OF doc res [unfolded Inr]]] by simp
    qed (use Some p \<open>o1 = Inr ob\<close> res in \<open>simp add: host_act_def\<close>)
  qed (use Some p in \<open>simp add: host_act_def\<close>)
  with Some show ?thesis by auto
qed

lemma stuck_fill_reported:
  assumes "finds ops q h ob s1 t el" and "check_fill (ho_context h) el = Inr ()"
    and "observation_target ob (ie_node_id el) = Some (Some tg)"
    and "\<not> se_quick ops tg (NativeFill v) s1 \<or> se_act ops tg (NativeFill v) s1 = None"
  shows "\<exists>h'. host_act ops ev q (ActFill v) h = Some (Inl (if ho_dialog h then blocked_on_dialog else action_stuck), h')
    \<and> ho_session h' = se_parked ops tg (NativeFill v) s1"
proof -
  obtain rf refs where act: "host_act ops ev q (ActFill v) h =
      act_on ops ev ob el (ActFill v) rf (se_generation ops s1) (h\<lparr>ho_session := s1, ho_refs := refs\<rparr>)"
    using host_act_found [OF assms(1)] .
  from assms(4) show ?thesis
    by (auto simp: act act_on_def assms(2,3) deliver_input_def native_act_guarded_def split: bool.split option.split)
qed


text \<open>The click at a point is the same in every context and on every surface: no gate is asked.\<close>

theorem mouse_click_asks_no_gate:
  "mouse_click ops x y (h\<lparr>ho_context := c, ho_surface := sf\<rparr>)
     = map_option (map_prod id (\<lambda>h'. h'\<lparr>ho_context := c, ho_surface := sf\<rparr>)) (mouse_click ops x y h)"
proof -
  have act: "native_act_guarded ops t i (g\<lparr>ho_context := c, ho_surface := sf\<rparr>)
      = map_prod id (\<lambda>h'. h'\<lparr>ho_context := c, ho_surface := sf\<rparr>) (native_act_guarded ops t i g)" for t i g
    by (simp add: native_act_guarded_def split: bool.split option.split)
  have upd: "h\<lparr>ho_context := c, ho_surface := sf, ho_session := s\<rparr> = h\<lparr>ho_session := s\<rparr>\<lparr>ho_context := c, ho_surface := sf\<rparr>" for s
    by simp
  show ?thesis
    by (simp add: mouse_click_def Let_def upd act map_prod_def
        split: prod.split sum.split option.split Option.bind_split)
qed

section \<open>Where a credential goes\<close>

lemma type_credential_Inr:
  assumes "type_credential ops q rl h = Some (Inr v, h')"
  obtains ob s1 el tg rc where
    "se_observe ops (ho_session h) = Some (Inr ob, s1)" "resolve_locator (no_snapshot ob) q = Some (Inr el)"
    "is_password_element el" "observation_target ob (ie_node_id el) = Some (Some tg)"
    "se_act ops tg (NativeFillCredential (rl_password rl)) s1 = Some (Inr rc, ho_session h')"
    "v = FilledValue (rl_handle rl) (rl_fingerprint rl) (rl_username rl) (nr_callbacks rc)" "ho_broker h' = ho_broker h"
proof -
  have "\<exists>ob s1. se_observe ops (ho_session h) = Some (Inr ob, s1)"
  proof (cases "se_observe ops (ho_session h)")
    case (Some p)
    then show ?thesis using assms by (cases p; cases "fst p") (auto simp: type_credential_def)
  qed (use assms in \<open>simp add: type_credential_def\<close>)
  then obtain ob s1 where ob: "se_observe ops (ho_session h) = Some (Inr ob, s1)" by blast
  then obtain res where res: "resolve_locator (no_snapshot ob) q = Some res"
    using assms by (auto simp: type_credential_def Let_def bind_eq_Some_conv)
  with assms ob obtain el where el: "resolve_locator (no_snapshot ob) q = Some (Inr el)"
    by (cases res) (auto simp: type_credential_def)
  have pw: "is_password_element el"
    using assms ob el by (auto simp: type_credential_def Let_def split: if_splits)
  then obtain tg where tg: "observation_target ob (ie_node_id el) = Some (Some tg)"
    using assms ob el by (auto simp: type_credential_def Let_def bind_eq_Some_conv split: option.splits)
  then obtain res s2 where act: "se_act ops tg (NativeFillCredential (rl_password rl)) s1 = Some (res, s2)"
    using assms ob el pw by (auto simp: type_credential_def Let_def)
  with assms ob el pw tg obtain rc where "res = Inr rc" by (cases res) (auto simp: type_credential_def Let_def)
  with assms ob el pw tg act show thesis using that [of ob s1 el tg rc]
    by (auto simp: type_credential_def Let_def)
qed

lemma fill_credential_Inr:
  assumes "fill_credential ops ev q account h = Some (Inr v, h')"
  obtains eng rec u orig rl eng' where
    "ho_broker h = Some eng" "registry_get account (mg_registry (ho_manager h)) = Inr rec"
    "se_url ops (ho_session h) = Some u" "origin_parse (ce_parser (pv_consent (hv_policy ev))) u = Inr orig"
    "resolve_login (hv_policy ev) (hv_provider ev) (ac_credentials rec) (ac_scope rec) orig (hv_time ev) eng = (Inr rl, eng')"
    "type_credential ops q rl (h\<lparr>ho_broker := Some eng'\<rparr>) = Some (Inr v, h')"
  using assms by (auto simp: fill_credential_def split: option.splits sum.splits prod.splits)

text \<open>C11: A credential is typed only as the broker released it, whatever the provider. The page's URL
  parses to an origin; the provider reports, for the account's handles or in its listing, a password of
  the account's scope whose allowlist holds that origin, and resolves its id to the value; no deny rule
  names the origin; of the broker's own grants a live one for exactly this credential, this origin and
  the login action is charged one use, and no other record changes. The value goes to a password field, the element
  the locator resolves to in an observation made after that, and the program gets the handle, the
  fingerprint and the user name back.\<close>

theorem credential_fill_gated:
  assumes "fill_credential ops ev q account h = Some (Inr v, h')"
  shows "\<exists>eng rec u orig (rl :: resolved_login) eng' ob s1 el tg rc.
    ho_broker h = Some eng \<and> registry_get account (mg_registry (ho_manager h)) = Inr rec
    \<and> se_url ops (ho_session h) = Some u \<and> origin_parse (ce_parser (pv_consent (hv_policy ev))) u = Inr orig
    \<and> (\<exists>m m'. reported (hv_provider ev) (ac_credentials rec) (rl_handle rl) m
        \<and> cm_kind m = KPassword \<and> cm_scope m = ac_scope rec
        \<and> Inr orig \<in> set (map (origin_parse (ce_parser (pv_consent (hv_policy ev)))) (cm_allowed_origins m))
        \<and> po_resolve (hv_provider ev) (CredentialId (rl_handle rl)) = Inr (m', rl_password rl))
    \<and> \<not> (\<exists>r \<in> set (pe_deny_rules eng). r_mode r = RuleDeny \<and> r_origin r = orig)
    \<and> (\<exists>i c. store_map (pe_consents eng) i = Some c
        \<and> matches_use (ce_parser (pv_consent (hv_policy ev))) (SubCredential (CredentialId (rl_handle rl)))
            (origin_as_str orig) ''login'' c
        \<and> active_at c (hv_time ev) \<and> ho_broker h' = Some eng'
        \<and> store_map (pe_consents eng') = (store_map (pe_consents eng))(i \<mapsto> c\<lparr>cn_uses := (cn_uses c + 1) mod 2 ^ 64\<rparr>))
    \<and> se_observe ops (ho_session h) = Some (Inr ob, s1) \<and> resolve_locator (no_snapshot ob) q = Some (Inr el)
    \<and> is_password_element el \<and> observation_target ob (ie_node_id el) = Some (Some tg)
    \<and> se_act ops tg (NativeFillCredential (rl_password rl)) s1 = Some (Inr rc, ho_session h')
    \<and> v = FilledValue (rl_handle rl) (rl_fingerprint rl) (rl_username rl) (nr_callbacks rc)"
proof -
  from fill_credential_Inr [OF assms] obtain eng rec u orig rl eng' where
    f: "ho_broker h = Some eng" "registry_get account (mg_registry (ho_manager h)) = Inr rec"
    "se_url ops (ho_session h) = Some u" "origin_parse (ce_parser (pv_consent (hv_policy ev))) u = Inr orig"
    "resolve_login (hv_policy ev) (hv_provider ev) (ac_credentials rec) (ac_scope rec) orig (hv_time ev) eng = (Inr rl, eng')"
    "type_credential ops q rl (h\<lparr>ho_broker := Some eng'\<rparr>) = Some (Inr v, h')" .
  from type_credential_Inr [OF f(6)] obtain ob s1 el tg rc where
    "se_observe ops (ho_session (h\<lparr>ho_broker := Some eng'\<rparr>)) = Some (Inr ob, s1)"
    and g: "resolve_locator (no_snapshot ob) q = Some (Inr el)"
    "is_password_element el" "observation_target ob (ie_node_id el) = Some (Some tg)"
    "se_act ops tg (NativeFillCredential (rl_password rl)) s1 = Some (Inr rc, ho_session h')"
    "v = FilledValue (rl_handle rl) (rl_fingerprint rl) (rl_username rl) (nr_callbacks rc)"
    and "ho_broker h' = ho_broker (h\<lparr>ho_broker := Some eng'\<rparr>)" .
  then have ob: "se_observe ops (ho_session h) = Some (Inr ob, s1)" "ho_broker h' = Some eng'" by simp_all
  from released_login [OF f(5)] obtain m m' i c where
    m: "reported (hv_provider ev) (ac_credentials rec) (rl_handle rl) m" "cm_kind m = KPassword" "cm_scope m = ac_scope rec"
      "Inr orig \<in> set (map (origin_parse (ce_parser (pv_consent (hv_policy ev)))) (cm_allowed_origins m))"
      "po_resolve (hv_provider ev) (CredentialId (rl_handle rl)) = Inr (m', rl_password rl)"
    and d: "\<not> (\<exists>r \<in> set (pe_deny_rules eng). r_mode r = RuleDeny \<and> r_origin r = orig)"
    and c: "store_map (pe_consents eng) i = Some c"
      "matches_use (ce_parser (pv_consent (hv_policy ev))) (SubCredential (CredentialId (rl_handle rl)))
        (origin_as_str orig) ''login'' c"
      "active_at c (hv_time ev)"
      "store_map (pe_consents eng') = (store_map (pe_consents eng))(i \<mapsto> c\<lparr>cn_uses := (cn_uses c + 1) mod 2 ^ 64\<rparr>)" .
  show ?thesis
    by (rule exI [of _ eng], rule exI [of _ rec], rule exI [of _ u], rule exI [of _ orig], rule exI [of _ rl],
        rule exI [of _ eng'], rule exI [of _ ob], rule exI [of _ s1], rule exI [of _ el], rule exI [of _ tg],
        rule exI [of _ rc], intro conjI) (use f(1-4) g ob m d c in blast)+
qed

text \<open>The use is charged before the field is looked for: a locator that names nothing costs a use of
  the grant.\<close>

theorem use_charged_without_fill:
  assumes "ho_broker h = Some eng" and "ho_surface h = Some sf"
    and "registry_get account (mg_registry (ho_manager h)) = Inr rec" and "se_url ops (ho_session h) = Some u"
    and "origin_parse (ce_parser (pv_consent (hv_policy ev))) u = Inr orig"
    and "resolve_login (hv_policy ev) (hv_provider ev) (ac_credentials rec) (ac_scope rec) orig (hv_time ev) eng = (Inr rl, eng')"
    and "se_observe ops (ho_session h) = Some (Inr ob, s1)" and "resolve_locator (no_snapshot ob) q = Some (Inl e)"
  shows "fill_credential ops ev q account h = Some (Inl (loc_err e), h\<lparr>ho_broker := Some eng', ho_session := s1\<rparr>)"
  using assms by (simp add: fill_credential_def type_credential_def)

subsection \<open>Witnesses\<close>

definition agent_nodes :: dom_nodes where
  "agent_nodes =
     [(0, sample_node 0 [] [] [1] None),
      (1, sample_node 1 ''form'' [] [2, 3] (Some 0)),
      (2, sample_node 2 ''input'' [(''type'', ''password'')] [] (Some 1)),
      (3, sample_node 3 ''button'' [(''aria-label'', ''Delete Account'')] [] (Some 1))]"

definition agent_tree :: dom_tree where
  "agent_tree = DTree 0 [DTree 1 [DTree 2 [], DTree 3 []]]"

definition agent_observation :: native_observation where
  "agent_observation =
     \<lparr>no_snapshot = bump_revision (snapshot_empty\<lparr>sn_nodes := agent_nodes\<rparr>), no_document = 1, no_revision = 1,
      no_identities = [(2, 5, 5), (3, 6, 6)]\<rparr>"

text \<open>A session that counts the inputs it is given.\<close>

definition agent_ops :: "nat session_ops" where
  "agent_ops =
     \<lparr>se_url = (\<lambda>s. Some ''https://a.com''), se_generation = (\<lambda>s. 1), se_key = (\<lambda>s. ''s''), se_log = (\<lambda>s. []),
      se_observe = (\<lambda>s. Some (Inr agent_observation, s)),
      se_act = (\<lambda>t i s. Some (Inr \<lparr>nr_callbacks = 0, nr_navigation = False\<rparr>, Suc s)),
      se_quick = (\<lambda>t i s. True), se_parked = (\<lambda>t i s. s), se_replay = (\<lambda>r s. Some (Inr [], s)),
      se_hit = (\<lambda>x y s. Some (Inr (Some 3), s))\<rparr>"

definition agent_host :: "nat host" where
  "agent_host =
     \<lparr>ho_context = agent_context, ho_surface = Some agent_surface, ho_manager = sample_manager Valid,
      ho_broker = Some (sample_engine [LGrant (sample_grant ''c-1'' 1)]), ho_refs = [],
      ho_sites = \<lparr>ss_files = [], ss_writable = True\<rparr>, ho_dialog = False, ho_session = 0\<rparr>"

definition agent_env :: host_env where
  "agent_env =
     \<lparr>hv_now = ''t'', hv_time = 500, hv_origin = (\<lambda>u. None), hv_policy = sample_policy_env,
      hv_provider = mem_ops (fold (provider_step sample_parser) [PutCred ''t'' sample_credential] [])\<rparr>"

lemma agent_document: "document (no_snapshot agent_observation) agent_tree"
  by (simp add: document_def agent_observation_def agent_nodes_def agent_tree_def sample_node_def snapshot_empty_def
      bump_revision_def)

definition by_role :: "string \<Rightarrow> locator_query" where
  "by_role role = \<lparr>lq_spec = ByRole role None, lq_nth = None\<rparr>"

definition by_css :: "string \<Rightarrow> locator_query" where
  "by_css css = \<lparr>lq_spec = ByCss css, lq_nth = None\<rparr>"

definition found_element :: "locator_query \<Rightarrow> interactive_element" where
  "found_element q = projr (the (resolve_locator (no_snapshot agent_observation) q))"

lemma agent_finds:
  "finds agent_ops (by_role ''button'') agent_host agent_observation 0 agent_tree (found_element (by_role ''button''))"
  "finds agent_ops (by_css ''form > input'') agent_host agent_observation 0 agent_tree (found_element (by_css ''form > input''))"
proof -
  have "\<not> isl (the (resolve_locator (no_snapshot agent_observation) (by_role ''button'')))"
    "resolve_locator (no_snapshot agent_observation) (by_role ''button'') \<noteq> None"
    "\<not> isl (the (resolve_locator (no_snapshot agent_observation) (by_css ''form > input'')))"
    "resolve_locator (no_snapshot agent_observation) (by_css ''form > input'') \<noteq> None" by code_simp+
  then show "finds agent_ops (by_role ''button'') agent_host agent_observation 0 agent_tree (found_element (by_role ''button''))"
    "finds agent_ops (by_css ''form > input'') agent_host agent_observation 0 agent_tree (found_element (by_css ''form > input''))"
    using agent_document by (auto simp: finds_def found_element_def agent_ops_def agent_host_def)
qed

theorem gated_click_not_delivered_witness:
  "\<exists>e h'. host_act agent_ops agent_env (by_role ''button'') ActClick agent_host = Some (Inl e, h')
    \<and> he_code e = ''POLICY_DENIED'' \<and> ho_session h' = 0"
proof -
  have "ho_surface agent_host = Some agent_surface" "ho_context agent_host = agent_context"
    "ho_manager agent_host = sample_manager Valid" by (simp_all add: agent_host_def)
  moreover have "\<not> irreversible_allowed (bc_id agent_context) agent_surface"
    "contains_str (to_ascii_lowercase ''Delete Account'') ''delete account''"
    "''delete account'' \<in> set default_irreversible_patterns"
    "ie_name (found_element (by_role ''button'')) = Some ''Delete Account''" by code_simp+
  ultimately show ?thesis
    using gated_click_not_delivered [OF agent_finds(1), of agent_surface "''acct''" "sample_record Valid" "''delete account''"
        "''Delete Account''" agent_env] agent_gated by fastforce
qed

theorem password_literal_not_typed_witness:
  "\<exists>e h'. host_act agent_ops agent_env (by_css ''form > input'') (ActFill ''hunter2'') agent_host = Some (Inl e, h')
    \<and> he_code e = ''POLICY_DENIED'' \<and> ho_session h' = 0"
proof -
  have "is_password_element (found_element (by_css ''form > input''))" "bc_credential_mode (ho_context agent_host)" by code_simp+
  with password_literal_not_typed [OF agent_finds(2)] show ?thesis by blast
qed


theorem credential_fill_gated_witness:
  "\<exists>v h'. fill_credential agent_ops agent_env (by_css ''form > input'') ''acct'' agent_host = Some (Inr v, h')
     \<and> v = FilledValue ''kch:main/a.com/password/me'' ''sha256:7077'' None 0 \<and> ho_session h' = 1
     \<and> (\<exists>eng i c. ho_broker agent_host = Some eng \<and> store_map (pe_consents eng) i = Some c \<and> active_at c 500)"
proof -
  let ?run = "fill_credential agent_ops agent_env (by_css ''form > input'') ''acct'' agent_host"
  have "map_option fst ?run = Some (Inr (FilledValue ''kch:main/a.com/password/me'' ''sha256:7077'' None 0))"
    "map_option (ho_session \<circ> snd) ?run = Some 1" by code_simp+
  then obtain h' where h': "?run = Some (Inr (FilledValue ''kch:main/a.com/password/me'' ''sha256:7077'' None 0), h')"
    "ho_session h' = 1" by (cases ?run) auto
  from credential_fill_gated [OF h'(1)] have "\<exists>eng i c. ho_broker agent_host = Some eng \<and> store_map (pe_consents eng) i = Some c \<and> active_at c 500"
    by (auto simp: agent_env_def)
  with h' show ?thesis by blast
qed

theorem use_charged_without_fill_witness:
  "let run = fill_credential agent_ops agent_env (by_role ''dialog'') ''acct'' agent_host
   in map_option fst run = Some (Inl (loc_err (loc_not_found (by_role ''dialog''))))
     \<and> map_option (ho_session \<circ> snd) run = Some 0"
proof -
  let ?eng = "sample_engine [LGrant (sample_grant ''c-1'' 1)]"
  let ?res = "resolve_login sample_policy_env (hv_provider agent_env) [] ''a.com'' sample_origin 500 ?eng"
  have "fst ?res = Inr \<lparr>rl_handle = ''kch:main/a.com/password/me'', rl_username = None, rl_password = ''pw'',
      rl_fingerprint = ''sha256:7077'', rl_allowed_origins = [sample_origin]\<rparr>" by code_simp
  then obtain rl eng' where res: "?res = (Inr rl, eng')" by (cases ?res) auto
  have "registry_get ''acct'' (mg_registry (ho_manager agent_host)) = Inr (sample_record Valid)"
    "origin_parse (ce_parser (pv_consent (hv_policy agent_env))) ''https://a.com'' = Inr sample_origin"
    "resolve_locator (no_snapshot agent_observation) (by_role ''dialog'') = Some (Inl (loc_not_found (by_role ''dialog'')))"
    by code_simp+
  with res use_charged_without_fill [of agent_host ?eng agent_surface "''acct''" "sample_record Valid" agent_ops "''https://a.com''"
      agent_env sample_origin rl eng' agent_observation 0 "by_role ''dialog''"]
  show ?thesis by (simp add: agent_host_def agent_ops_def agent_env_def sample_record_def Let_def)
qed

end
