(* ===== verification/Spec2Isabelle.thy ===== *)
theory Spec2Isabelle
  imports
    Prelude IpFilter WebUrl Cookie OriginPolicy Cors Robots Intercept Auth Credential Totp Consent
    AuditLog Policy Broker CoreError SessionFile ChallengeDetect Account Probe Manager Detector Client
    Redact SessionParser Dom DomSelect DomBuild DomRead DomAccess
    LoginForm LoginSession AgentLogin LoginGuarantees Orchestrator LoginWindows
    ContextStorage PageStorage FormActivation NativeAction JobQueue AgentGates AgentPage AgentHost
begin

text \<open>
  Verification library of the oxibrowser repository, a headless browser for agents written in
  Rust. The theories model the parts that decide: what may be fetched, which cookie goes where,
  when a credential leaves the vault, how an account's session lives, and what a command line
  means. Paths below are relative to \<open>src/crates\<close>.

  Parts and how they interact. A request leaves through \<open>oxibrowser-core/src/network\<close>: the IP
  filter, the cookie jar, CORS and referrer rules, robots rules, the interception registry and
  Digest answers. Credentials (\<open>oxibrowser-credentials\<close>) are named by handles, guarded by
  the origin policy, granted by an append-only consent ledger, decided by the policy engine that
  writes the audit log, and handed to the unattended login by the broker. Accounts
  (\<open>oxibrowser-core/src/account\<close>) own a life-cycle record, a lock and sealed session files;
  the manager moves them along. The interactive session (\<open>oxibrowser/src/session\<close>) parses
  its commands.

  Theories.
  \<^item> \<open>Prelude\<close>: Rust's strings as byte lists, numbers, fallible results, dictionaries; the
    collections \<open>str_iff\<close> and \<open>result_iff\<close>; the locales \<open>keyed_store\<close>, \<open>inv_machine\<close> and the
    deny-rule gate, interpreted by the components.
  \<^item> \<open>IpFilter\<close> (\<open>network/ip_filter.rs\<close>): ranges and addresses as words; the private filter equals
    an octet-wise definition; mapped addresses and hostnames cannot slip through.
  \<^item> \<open>WebUrl\<close>: the fields of a parsed \<open>url::Url\<close> the code reads; the parser itself and the public
    suffix list are parameters (record \<open>web_env\<close>).
  \<^item> \<open>Cookie\<close> (\<open>network/cookie.rs\<close>): the jar as an association list from domains to entries; limits,
    site isolation, exact selection for HTTP and for scripts.
  \<^item> \<open>OriginPolicy\<close>, \<open>Cors\<close>, \<open>Robots\<close>, \<open>Intercept\<close>, \<open>Auth\<close>: the files of the same names; the
    decisions are characterised exactly, the registry is an event machine.
  \<^item> \<open>Credential\<close> (\<open>provider.rs\<close>, \<open>secret.rs\<close>, \<open>error.rs\<close>), \<open>Totp\<close>, \<open>Consent\<close> (the ledger refines a
    partial function from ids to grants), \<open>AuditLog\<close>, \<open>Policy\<close>, \<open>Broker\<close> (\<open>agent.rs\<close>).
  \<^item> \<open>CoreError\<close> (\<open>error.rs\<close>): the errors the components return, with their messages.
  \<^item> \<open>ChallengeDetect\<close> (\<open>challenge.rs\<close>): the vendors' markers, tried in order; when it crashes.
  \<^item> \<open>Client\<close> (\<open>network/client.rs\<close>): every operation as a transformer of the client (jar, filter, log
    of what was sent); the wire is a parameter. What holds of every request sent is proved once
    for any relation all steps keep, in the locale \<open>client_relation\<close>.
  \<^item> \<open>Redact\<close> (\<open>security/redact.rs\<close>): headers, queries and form bodies before they are persisted.
  \<^item> \<open>SessionFile\<close> (\<open>storage/session_store.rs\<close>): frame, cipher and fingerprint binding.
  \<^item> \<open>Account\<close> (\<open>record.rs\<close>, \<open>registry.rs\<close>, \<open>lock.rs\<close>, \<open>irreversible.rs\<close>), \<open>Probe\<close> (\<open>probe.rs\<close>,
    \<open>probes.rs\<close>), \<open>Manager\<close>, \<open>Detector\<close>.
  \<^item> \<open>SessionParser\<close> (\<open>oxibrowser/src/session/parser.rs\<close>): every command, with its inverse.
  \<^item> \<open>Dom\<close>, \<open>DomSelect\<close>, \<open>DomBuild\<close>, \<open>DomRead\<close>, \<open>DomAccess\<close> (\<open>js/dom_snapshot.rs\<close>; references in
    \<open>oxibrowser-cdp/src/refs.rs\<close> and \<open>domains/oxi.rs\<close>): the table of nodes and its walks, selector queries
    and indices, construction and mutation, serialization and extraction, the accessible view. A
    document is a rose tree related to the table by \<open>holds\<close>; on a document every walk ends.
  \<^item> \<open>LoginForm\<close>, \<open>LoginSession\<close>, \<open>AgentLogin\<close>, \<open>LoginGuarantees\<close> (\<open>account/agent_login.rs\<close>): the
    unattended login. A flow is a state transformer over the live page (a record of its operations),
    the credential source, the account manager, the events and the effects on the page; \<open>wp\<close>
    reasons about what holds when it returns. The locale \<open>gated_source\<close> is what the flow relies on
    for credentials; the broker provides it.
  \<^item> \<open>Orchestrator\<close>, \<open>LoginWindows\<close> (\<open>account/orchestrator.rs\<close>): login windows with their timers
    and viewer tokens, and the import. A step relation runs the operations, the clock and other
    owners of the accounts in any order; the table of windows is a smaller machine that it refines.

  \<^item> \<open>ContextStorage\<close>, \<open>PageStorage\<close> (\<open>context.rs\<close>, \<open>js/idb.rs\<close>, parts of \<open>session.rs\<close> and
    \<open>js/runtime.rs\<close>, \<open>storage_state.rs\<close>): buckets of origins, export and import, Netscape files;
    what scripts see of localStorage and IndexedDB, and the messages that carry their writes. The
    context simulates a registration: once the messages are applied it holds the same records.

  \<^item> \<open>FormActivation\<close> (\<open>js/form_activation.rs\<close>): what a form sends and the navigation it asks for.
  \<^item> \<open>NativeAction\<close> (\<open>js/runtime/native_action.rs\<close>, the identities of \<open>oxibrowser-render/src/document.rs\<close>):
    actions the host delivers: targets, their validation, the write, events and default actions. A
    listener is an arbitrary change of the page, so what is proved holds against a hostile one.
  \<^item> \<open>JobQueue\<close> (\<open>js/job_queue.rs\<close>, timers of \<open>js/runtime.rs\<close>): timers, the bounded pump, the drain.
  \<^item> \<open>AgentGates\<close>, \<open>AgentPage\<close>, \<open>AgentHost\<close> (\<open>oxibrowser/src/agent\<close>: \<open>locators.rs\<close>, \<open>gates.rs\<close>,
    \<open>obs.rs\<close>, \<open>site.rs\<close>, \<open>repl.rs\<close>): how a program names an element, what it may do with it, what it
    is shown, and the commands of the host over a record of the session's operations. The host composes
    the gates with the account manager and the broker: a denied click and a literal password never
    reach the page, and a credential is typed only as the broker released it.

  Bounds and fuel. Loops are structural or have a measure, except
  the walks over DOM links, which end only on a tree: they are partial functions, and the
  properties state that they end. The bounds the code itself sets are arguments of the loops: 256 jobs
  and listeners, 1024 nodes of an event's path, 101 rounds of timers. The lock loop
  runs over the answers the kernel gives, so that waiting forever is the value \<open>None\<close>. Machine
  integers whose overflow matters (TOTP windows, detector scores) return a panic or a wrapped
  value; panics are the constructor of the type \<open>run\<close>.

  Not modelled: the JavaScript runtime bindings, WebGL and rendering, WebAssembly, style and
  layout (third-party engines behind glue, or floating point), the CDP and MCP servers (JSON
  plumbing), the platform keyring, the asynchronous browser, tab and page objects.
\<close>

end
